(* ===== verification/Prelude.thy ===== *)
theory Prelude
  imports Main "HOL-Library.Word"
begin

text \<open>
  What every component of the model shares: the machine integer types of
  \<^verbatim>\<open>include/trunix/types.h\<close>, the ways a kernel function can fail to return a value, a
  sequencing operator for them, and the rounding helpers of \<^verbatim>\<open>include/trunix/vm.h\<close> with
  their arithmetic.
\<close>

unbundle bit_operations_syntax

section \<open>Machine integers\<close>

type_synonym u8 = "8 word"
type_synonym u16 = "16 word"
type_synonym u32 = "32 word"
type_synonym u64 = "64 word"

text \<open>Collections used by the component proofs: reads of a memory after a write, and the
  offsets of structure fields.\<close>

named_theorems mem_simps \<open>reading memory after writing it\<close>
named_theorems field_defs \<open>byte offsets and sizes of C structures\<close>

section \<open>Functions that may not return a value\<close>

text \<open>
  A kernel function returns a value together with the new state, or does not return:
  \<^item> \<open>Panic msg\<close>: \<^verbatim>\<open>panic\<close> printed \<open>msg\<close> and halted;
  \<^item> \<open>AssertFail\<close>: an \<^verbatim>\<open>assert\<close> failed, \<^verbatim>\<open>__assert_fail\<close> halted;
  \<^item> \<open>NullDeref\<close>: a null pointer was dereferenced (undefined in C);
  \<^item> \<open>UninitRead\<close>: an indeterminate local variable was used (undefined in C);
  \<^item> \<open>OutOfRange\<close>: an array was indexed outside its bounds (undefined in C);
  \<^item> \<open>DivByZero\<close>: a division by zero;
  \<^item> \<open>Diverges\<close>: a loop of the function never ends.
\<close>

datatype kerror = Panic string | AssertFail | NullDeref | UninitRead | OutOfRange | DivByZero | Diverges

type_synonym 'a res = "kerror + 'a"

definition bindE :: "'a res \<Rightarrow> ('a \<Rightarrow> 'b res) \<Rightarrow> 'b res" where
  "bindE r f = (case r of Inl e \<Rightarrow> Inl e | Inr x \<Rightarrow> f x)"

lemma bindE_simps [simp]:
  "bindE (Inl e) f = Inl e"
  "bindE (Inr x) f = f x"
  by (simp_all add: bindE_def)

lemma bindE_eq_Inr:
  "bindE r f = Inr y \<longleftrightarrow> (\<exists>x. r = Inr x \<and> f x = Inr y)"
  by (cases r) simp_all

lemma bindE_eq_Inl:
  "bindE r f = Inl e \<longleftrightarrow> r = Inl e \<or> (\<exists>x. r = Inr x \<and> f x = Inl e)"
  by (cases r) auto

lemma bindE_assoc: "bindE (bindE r f) g = bindE r (\<lambda>x. bindE (f x) g)"
  by (cases r) simp_all

lemma bindE_cong [fundef_cong]:
  "r = r' \<Longrightarrow> (\<And>x. r' = Inr x \<Longrightarrow> f x = g x) \<Longrightarrow> bindE r f = bindE r' g"
  by (cases r') simp_all

text \<open>A list walk is a \<open>partial_function\<close>: \<open>None\<close> there means it never ends.\<close>

definition ends :: "'a option \<Rightarrow> 'a res" where
  "ends r = (case r of None \<Rightarrow> Inl Diverges | Some x \<Rightarrow> Inr x)"

lemma ends_simps [simp]: "ends None = Inl Diverges" "ends (Some x) = Inr x"
  by (simp_all add: ends_def)

section \<open>Rounding\<close>

text \<open>\<^verbatim>\<open>roundup\<close> and \<^verbatim>\<open>rounddown\<close> of \<^verbatim>\<open>vm.h\<close>. Every call has a nonzero second argument.\<close>

definition roundup :: "u32 \<Rightarrow> u32 \<Rightarrow> u32" where
  "roundup x a = (let p = x mod a in if p = 0 then x else x + a - p)"

definition rounddown :: "u32 \<Rightarrow> u32 \<Rightarrow> u32" where
  "rounddown x a = (let p = x mod a in if p = 0 then x else x - p)"

definition pg_roundup :: "u32 \<Rightarrow> u32" where
  "pg_roundup x = roundup x 0x1000"

definition pg_rounddown :: "u32 \<Rightarrow> u32" where
  "pg_rounddown x = rounddown x 0x1000"

text \<open>\<^verbatim>\<open>_kernel_offset\<close> of the linker script: the virtual base less the physical base.\<close>

definition KERNEL_OFFSET :: u32 where
  "KERNEL_OFFSET = 0x80400000 - 0x00400000"

definition v2p :: "u32 \<Rightarrow> u32" where
  "v2p x = x AND NOT KERNEL_OFFSET"

definition p2v :: "u32 \<Rightarrow> u32" where
  "p2v x = x OR KERNEL_OFFSET"

section \<open>32-bit arithmetic on naturals\<close>

lemma unat_lt32 [simp]: "unat (x :: u32) < 4294967296"
  using unsigned_less [of x, where ?'a = nat] by simp

lemma u32_add: "unat ((x :: u32) + y) = (unat x + unat y) mod 4294967296"
  by (simp add: unat_word_ariths)

lemma u32_sub:
  "unat ((x :: u32) - y) =
    (if unat y \<le> unat x then unat x - unat y else unat x + 4294967296 - unat y)"
  by (simp add: unat_sub_if_size word_size)

lemma u32_add_small: "unat (x :: u32) + unat y < 4294967296 \<Longrightarrow> unat (x + y) = unat x + unat y"
  by (simp add: u32_add)

lemma u32_sub_small: "y \<le> (x :: u32) \<Longrightarrow> unat (x - y) = unat x - unat y"
  by (simp add: u32_sub word_le_nat_alt)

lemma u32_succ: "i < (n :: u32) \<Longrightarrow> unat (i + 1) = Suc (unat i)"
proof -
  assume "i < n"
  then have "unat i < unat n" by (simp add: word_less_nat_alt)
  with unat_lt32 [of n] have "Suc (unat i) < 4294967296" by linarith
  then show ?thesis by (simp add: u32_add)
qed

lemmas u32_order = word_le_nat_alt word_less_nat_alt word_unat_eq_iff

text \<open>Alignment of an address or a size, as the components' invariants state it.\<close>

definition aligned :: "nat \<Rightarrow> u32 \<Rightarrow> bool" where
  "aligned n x \<longleftrightarrow> unat x mod n = 0"

lemma aligned_0 [simp]: "aligned n 0"
  by (simp add: aligned_def)

lemma unat_rounddown: "unat (rounddown x a) = unat x - unat x mod unat a"
proof -
  have "x mod a \<le> x" by (simp add: word_le_nat_alt unat_mod)
  then have "unat (x - x mod a) = unat x - unat (x mod a)" by (rule unat_sub)
  then show ?thesis by (auto simp: rounddown_def Let_def unat_mod word_unat_eq_iff)
qed

lemma unat_roundup:
  assumes "0 < unat a" and "unat x + unat a \<le> 2 ^ 32"
  shows "unat (roundup x a) =
    unat x + (if unat x mod unat a = 0 then 0 else unat a - unat x mod unat a)"
proof -
  define r where "r = unat x mod unat a"
  have z: "x mod a = 0 \<longleftrightarrow> r = 0" by (simp add: r_def word_unat_eq_iff unat_mod)
  have "r < unat a" using assms(1) by (simp add: r_def)
  then have "unat (a - x mod a) = unat a - r"
    by (simp add: unat_sub word_le_nat_alt unat_mod r_def)
  moreover have "r \<noteq> 0 \<Longrightarrow> unat x + (unat a - r) < 2 ^ 32"
    using assms(2) \<open>r < unat a\<close> by linarith
  ultimately have "r \<noteq> 0 \<Longrightarrow> unat (x + (a - x mod a)) = unat x + (unat a - r)"
    by (simp add: unat_word_ariths)
  then show ?thesis
    by (simp add: roundup_def Let_def z r_def [symmetric] diff_add_eq add_diff_eq)
qed

lemma aligned_add:
  assumes "aligned n x" and "aligned n y" and "n dvd 2 ^ 32"
  shows "aligned n (x + y)"
  using assms by (simp add: aligned_def unat_word_ariths mod_mod_cancel mod_0_imp_dvd)

lemma aligned_diff:
  assumes "aligned n x" and "aligned n y" and "n dvd 2 ^ 32"
  shows "aligned n (x - y)"
proof -
  have "n dvd unat x" and "n dvd unat y" and "n dvd 4294967296"
    using assms by (auto simp: aligned_def)
  then show ?thesis
    by (auto simp: aligned_def u32_sub intro!: dvd_imp_mod_0 dvd_diff_nat dvd_add)
qed

lemma aligned_rounddown: "0 < unat a \<Longrightarrow> aligned (unat a) (rounddown x a)"
  by (simp add: aligned_def unat_rounddown minus_mod_eq_mult_div)

lemma aligned_roundup:
  assumes "0 < unat a" and "unat a dvd 2 ^ 32"
  shows "aligned (unat a) (roundup x a)"
proof -
  have "roundup x a = (if x mod a = 0 then x else rounddown x a + a)"
    by (simp add: roundup_def rounddown_def Let_def)
  then show ?thesis
    using assms aligned_add [OF aligned_rounddown, of a a x]
    by (simp add: aligned_def word_unat_eq_iff unat_mod)
qed

lemma aligned_pg_roundup [simp]: "aligned 4096 (pg_roundup x)"
  using aligned_roundup [of "0x1000" x] by (simp add: pg_roundup_def)

lemma aligned_pg_rounddown [simp]: "aligned 4096 (pg_rounddown x)"
  using aligned_rounddown [of "0x1000" x] by (simp add: pg_rounddown_def)

lemma pg_roundup_id: "aligned 4096 x \<Longrightarrow> pg_roundup x = x"
  by (simp add: pg_roundup_def roundup_def aligned_def word_unat_eq_iff unat_mod)

lemma pg_rounddown_id: "aligned 4096 x \<Longrightarrow> pg_rounddown x = x"
  by (simp add: pg_rounddown_def rounddown_def aligned_def word_unat_eq_iff unat_mod)

lemma pg_roundup_bounds:
  assumes "unat x \<le> 0xFFFFF000"
  shows "unat x \<le> unat (pg_roundup x)" and "unat (pg_roundup x) < unat x + 4096"
proof -
  have "unat x + unat (0x1000 :: u32) \<le> 2 ^ 32" using assms by simp
  from unat_roundup [OF _ this]
  have "unat (pg_roundup x) =
      unat x + (if unat x mod 4096 = 0 then 0 else 4096 - unat x mod 4096)"
    by (simp add: pg_roundup_def)
  then show "unat x \<le> unat (pg_roundup x)" and "unat (pg_roundup x) < unat x + 4096"
    by auto
qed

text \<open>Rounding never passes an aligned bound: a block of whole pages that is large enough for
  \<open>x\<close> bytes is large enough for \<open>x\<close> rounded up.\<close>

lemma pg_roundup_le:
  assumes "aligned 4096 y" and "x \<le> y"
  shows "pg_roundup x \<le> y"
proof -
  from assms(1) obtain k where k: "unat y = 4096 * k" by (auto simp: aligned_def)
  have "k < 1048576" using k unat_lt32 [of y] by linarith
  then have "unat y \<le> 0xFFFFF000" using k by simp
  moreover have le: "unat x \<le> unat y" using assms(2) by (simp add: word_le_nat_alt)
  ultimately have b: "unat (pg_roundup x) < unat x + 4096" using pg_roundup_bounds by simp
  obtain j where j: "unat (pg_roundup x) = 4096 * j"
    using aligned_pg_roundup [of x] by (auto simp: aligned_def)
  have "j \<le> k" using b le k j by linarith
  then show ?thesis by (simp add: word_le_nat_alt k j)
qed

lemma ucast16_32: "t < 0x10000 \<Longrightarrow> ucast (ucast (t :: u32) :: u16) = t"
  by (simp add: word_unat_eq_iff word_less_nat_alt unsigned_ucast_eq take_bit_eq_mod unat_mod_distrib)

lemma unat_u64_u32: "unat (ucast (x :: u64) :: u32) = unat x mod 4294967296"
  by (simp only: unsigned_ucast_eq) (simp add: take_bit_eq_mod)

lemma unat_u32_u64: "unat (ucast (y :: u32) :: u64) = unat y"
  by (simp only: unsigned_ucast_eq) (simp add: take_bit_nat_eq_self_iff less_trans [OF unat_lt32])

end
