(* ===== verification/Memory.thy ===== *)
theory Memory
  imports Prelude
begin

text \<open>
  The memory the kernel runs in: bytes at 32-bit addresses, little endian, with the loads and
  stores the C code makes through \<^verbatim>\<open>u8\<close>, \<^verbatim>\<open>u16\<close> and \<^verbatim>\<open>u32\<close> pointers, and the block
  operations of \<^verbatim>\<open>kernel/string.S\<close>. The lists of \<^verbatim>\<open>sys/queue.h\<close> live inside this memory, so
  what one store does to another pointer's field is a theorem and not an assumption.
\<close>

section \<open>Loads and stores\<close>

type_synonym mem = "u32 \<Rightarrow> u8"

definition read16 :: "mem \<Rightarrow> u32 \<Rightarrow> u16" where
  "read16 m a = ucast (m a) OR push_bit 8 (ucast (m (a + 1)))"

definition write16 :: "mem \<Rightarrow> u32 \<Rightarrow> u16 \<Rightarrow> mem" where
  "write16 m a v = m(a := ucast v, a + 1 := ucast (drop_bit 8 v))"

definition read32 :: "mem \<Rightarrow> u32 \<Rightarrow> u32" where
  "read32 m a = ucast (m a) OR push_bit 8 (ucast (m (a + 1)))
     OR push_bit 16 (ucast (m (a + 2))) OR push_bit 24 (ucast (m (a + 3)))"

definition write32 :: "mem \<Rightarrow> u32 \<Rightarrow> u32 \<Rightarrow> mem" where
  "write32 m a v = m(a := ucast v, a + 1 := ucast (drop_bit 8 v),
     a + 2 := ucast (drop_bit 16 v), a + 3 := ucast (drop_bit 24 v))"

definition read64 :: "mem \<Rightarrow> u32 \<Rightarrow> u64" where
  "read64 m a = ucast (read32 m a) OR push_bit 32 (ucast (read32 m (a + 4)))"

text \<open>Two byte ranges, \<open>n\<close> bytes from \<open>a\<close> and \<open>k\<close> bytes from \<open>b\<close>, that share no address;
  ranges may wrap around the end of the address space.\<close>

definition apart :: "u32 \<Rightarrow> nat \<Rightarrow> u32 \<Rightarrow> nat \<Rightarrow> bool" where
  "apart a n b k \<longleftrightarrow> n \<le> unat (b - a) \<and> k \<le> unat (a - b)"

lemma apart_sym: "apart a n b k \<longleftrightarrow> apart b k a n"
  by (auto simp: apart_def)

lemma apart_mono: "apart a n b k \<Longrightarrow> n' \<le> n \<Longrightarrow> k' \<le> k \<Longrightarrow> apart a n' b k'"
  by (auto simp: apart_def)

lemma apart_offset_ne:
  assumes "apart a n b k" and "unat i < n" and "unat j < k"
  shows "a + i \<noteq> b + j"
proof
  assume "a + i = b + j"
  then have e: "b - a = i - j" and f: "a - b = j - i"
    by (metis add_diff_cancel_left add_diff_eq add.commute diff_add_cancel)+
  have "n \<le> unat (i - j)" and "k \<le> unat (j - i)"
    using assms(1) by (simp_all add: apart_def e f)
  then show False
    using assms(2,3) by (auto simp: u32_sub split: if_splits)
qed

lemma read32_write32_same [simp, mem_simps]: "read32 (write32 m a v) a = v"
proof (rule bit_word_eqI)
  fix n assume "n < LENGTH(32)"
  have "a + 1 \<noteq> a" "a + 2 \<noteq> a" "a + 3 \<noteq> a" "a + 2 \<noteq> a + 1" "a + 3 \<noteq> a + 1" "a + 3 \<noteq> a + 2"
    by simp_all
  with \<open>n < LENGTH(32)\<close> show "bit (read32 (write32 m a v) a) n = bit v n"
    by (cases "n < 8"; cases "n < 16"; cases "n < 24")
      (auto simp: read32_def write32_def bit_simps fun_upd_def)
qed

lemma read16_write16_same [simp, mem_simps]: "read16 (write16 m a v) a = v"
  by (intro bit_word_eqI) (auto simp: read16_def write16_def bit_simps)

lemma read32_write32_apart [mem_simps]:
  assumes "apart a 4 b 4"
  shows "read32 (write32 m a v) b = read32 m b"
proof -
  have ne: "a + i \<noteq> b + j" if "unat i < 4" "unat j < 4" for i j
    using apart_offset_ne assms that by blast
  show ?thesis
    using ne [of 0 0] ne [of 0 1] ne [of 0 2] ne [of 0 3] ne [of 1 0] ne [of 1 1] ne [of 1 2]
      ne [of 1 3] ne [of 2 0] ne [of 2 1] ne [of 2 2] ne [of 2 3] ne [of 3 0] ne [of 3 1]
      ne [of 3 2] ne [of 3 3]
    by (simp add: read32_def write32_def)
qed

lemma read32_write32_apart' [mem_simps]: "apart b 4 a 4 \<Longrightarrow> read32 (write32 m a v) b = read32 m b"
  using apart_sym read32_write32_apart by blast

lemma read8_write32_apart [mem_simps]:
  assumes "apart a 4 b 1"
  shows "write32 m a v b = m b"
proof -
  have ne: "a + i \<noteq> b" if "unat i < 4" for i
    using apart_offset_ne [OF assms that, of 0] by simp
  show ?thesis
    using ne [of 0] ne [of 1] ne [of 2] ne [of 3] by (simp add: write32_def)
qed

lemma read32_cong:
  assumes "\<And>i. unat i < 4 \<Longrightarrow> m (a + i) = m' (a + i)"
  shows "read32 m a = read32 m' a"
  using assms [of 0] assms [of 1] assms [of 2] assms [of 3] by (simp add: read32_def)

section \<open>The block operations of string.S\<close>

text \<open>
  \<^verbatim>\<open>rep stosb\<close> and \<^verbatim>\<open>rep stosl\<close> store \<^verbatim>\<open>al\<close> or \<^verbatim>\<open>eax\<close> at consecutive addresses, so their
  effect is given in closed form; \<^verbatim>\<open>rep movsb\<close> and \<^verbatim>\<open>rep movsl\<close> load each unit after the
  previous one was stored, which matters when the ranges overlap, so they are recursions.
\<close>

definition memset :: "mem \<Rightarrow> u32 \<Rightarrow> u8 \<Rightarrow> u32 \<Rightarrow> mem" where
  "memset m dst c n = (\<lambda>x. if x - dst < n then c else m x)"

definition memsetl :: "mem \<Rightarrow> u32 \<Rightarrow> u32 \<Rightarrow> u32 \<Rightarrow> mem" where
  "memsetl m dst v n = (\<lambda>x. if unat (x - dst) < 4 * unat n
     then ucast (drop_bit (8 * (unat (x - dst) mod 4)) v) else m x)"

definition memsetw :: "mem \<Rightarrow> u32 \<Rightarrow> u16 \<Rightarrow> u32 \<Rightarrow> mem" where
  "memsetw m dst v n = (\<lambda>x. if unat (x - dst) < 2 * unat n
     then ucast (drop_bit (8 * (unat (x - dst) mod 2)) v) else m x)"

fun movsb_up :: "nat \<Rightarrow> u32 \<Rightarrow> u32 \<Rightarrow> mem \<Rightarrow> mem" where
  "movsb_up 0 d s m = m"
| "movsb_up (Suc n) d s m = movsb_up n (d + 1) (s + 1) (m(d := m s))"

fun movsb_down :: "nat \<Rightarrow> u32 \<Rightarrow> u32 \<Rightarrow> mem \<Rightarrow> mem" where
  "movsb_down 0 d s m = m"
| "movsb_down (Suc n) d s m = movsb_down n (d - 1) (s - 1) (m(d := m s))"

fun movsw_up :: "nat \<Rightarrow> u32 \<Rightarrow> u32 \<Rightarrow> mem \<Rightarrow> mem" where
  "movsw_up 0 d s m = m"
| "movsw_up (Suc n) d s m = movsw_up n (d + 2) (s + 2) (write16 m d (read16 m s))"

fun movsl_up :: "nat \<Rightarrow> u32 \<Rightarrow> u32 \<Rightarrow> mem \<Rightarrow> mem" where
  "movsl_up 0 d s m = m"
| "movsl_up (Suc n) d s m = movsl_up n (d + 4) (s + 4) (write32 m d (read32 m s))"

definition memcpy :: "mem \<Rightarrow> u32 \<Rightarrow> u32 \<Rightarrow> u32 \<Rightarrow> mem" where
  "memcpy m dst src n = movsb_up (unat n) dst src m"

definition memcpyw :: "mem \<Rightarrow> u32 \<Rightarrow> u32 \<Rightarrow> u32 \<Rightarrow> mem" where
  "memcpyw m dst src n = movsw_up (unat n) dst src m"

definition memcpyl :: "mem \<Rightarrow> u32 \<Rightarrow> u32 \<Rightarrow> u32 \<Rightarrow> mem" where
  "memcpyl m dst src n = movsl_up (unat n) dst src m"

text \<open>\<^verbatim>\<open>cmpl %esi, %edi; jg 1f\<close>: copy upwards when the destination is the greater address, as a
  signed comparison; otherwise start both pointers at the last byte and copy downwards.\<close>

definition memmove :: "mem \<Rightarrow> u32 \<Rightarrow> u32 \<Rightarrow> u32 \<Rightarrow> mem" where
  "memmove m dst src n =
     (if sint src < sint dst then movsb_up (unat n) dst src m
      else movsb_down (unat n) (dst + (n - 1)) (src + (n - 1)) m)"

text \<open>What the copies are for: the destination range holds what the source range held.\<close>

definition copied :: "mem \<Rightarrow> u32 \<Rightarrow> u32 \<Rightarrow> nat \<Rightarrow> mem" where
  "copied m d s n = (\<lambda>x. if unat (x - d) < n then m (s + (x - d)) else m x)"

lemma movsb_up_copied:
  assumes "n \<le> unat (d - s)" and "n \<le> 2 ^ 32"
  shows "movsb_up n d s m = copied m d s n"
  using assms
proof (induction n arbitrary: d s m)
  case 0
  then show ?case by (simp add: copied_def)
next
  case (Suc n)
  have IH: "movsb_up n (d + 1) (s + 1) (m(d := m s)) = copied (m(d := m s)) (d + 1) (s + 1) n"
    using Suc.prems by (intro Suc.IH) simp_all
  have "copied (m(d := m s)) (d + 1) (s + 1) n x = copied m d s (Suc n) x" for x
  proof (cases "x = d")
    case True
    have "unat (- 1 :: u32) \<ge> n" using Suc.prems(2) u32_sub [of 0 1] by simp
    with True show ?thesis by (simp add: copied_def)
  next
    case False
    then have u: "unat (x - (d + 1)) + 1 = unat (x - d)"
      using u32_sub [of "x - d" 1] by (auto simp: diff_diff_eq2 diff_diff_eq unat_gt_0 Suc_leI)
    have "s + (x - d) \<noteq> d" if "unat (x - d) < Suc n"
    proof
      assume "s + (x - d) = d"
      then have "x - d = d - s" by (metis add_diff_cancel_left')
      with that Suc.prems(1) show False by simp
    qed
    then show ?thesis
      using False u by (auto simp: copied_def algebra_simps)
  qed
  with IH show ?case by auto
qed

lemma movsb_down_copied:
  assumes "n \<le> unat (s - d)" and "n \<le> 2 ^ 32"
  shows "movsb_down n (d + (of_nat n - 1)) (s + (of_nat n - 1)) m = copied m d s n"
  using assms
proof (induction n arbitrary: m)
  case 0
  then show ?case by (simp add: copied_def)
next
  case (Suc n)
  let ?e = "d + of_nat n" and ?t = "s + of_nat n"
  have un: "unat (of_nat n :: u32) = n" using Suc.prems(2) by (simp add: unat_of_nat)
  have IH: "movsb_down n (d + (of_nat n - 1)) (s + (of_nat n - 1)) (m(?e := m ?t)) =
      copied (m(?e := m ?t)) d s n"
    using Suc.prems by (intro Suc.IH) simp_all
  have "copied (m(?e := m ?t)) d s n x = copied m d s (Suc n) x" for x
  proof (cases "x = ?e")
    case True
    then show ?thesis by (simp add: copied_def un)
  next
    case False
    then have lt: "unat (x - d) < Suc n \<longleftrightarrow> unat (x - d) < n"
      using un by (metis add.commute diff_add_cancel less_Suc_eq word_unat_eq_iff)
    have "s + (x - d) \<noteq> ?e" if "unat (x - d) < n"
    proof
      assume "s + (x - d) = ?e"
      then have "s - d = of_nat n - (x - d)" by (simp add: algebra_simps)
      then have "unat (s - d) = unat (of_nat n - (x - d))" by (rule arg_cong)
      also have "\<dots> = n - unat (x - d)"
        using that un u32_sub [of "of_nat n" "x - d"] by simp
      finally have "unat (s - d) = n - unat (x - d)" .
      with Suc.prems(1) show False by simp
    qed
    with False lt show ?thesis by (auto simp: copied_def)
  qed
  then show ?case
    using IH by (auto simp: algebra_simps)
qed

lemma memcpy_copied: "apart dst (unat n) src (unat n) \<Longrightarrow> memcpy m dst src n = copied m dst src (unat n)"
  by (simp add: memcpy_def apart_def movsb_up_copied less_imp_le)

lemma memmove_copied:
  assumes "apart dst (unat n) src (unat n)"
  shows "memmove m dst src n = copied m dst src (unat n)"
  using assms movsb_down_copied [of "unat n" src dst m]
  by (simp add: memmove_def apart_def movsb_up_copied less_imp_le)

text \<open>Between ranges that overlap \<^verbatim>\<open>memmove\<close> goes the wrong way, whichever is the greater: moving two
  bytes up or down by one copies the same byte twice.\<close>

lemma memmove_overlap:
  "memmove (ucast :: mem) 1 0 2 \<noteq> copied ucast 1 0 2" "memmove (ucast :: mem) 0 1 2 \<noteq> copied ucast 0 1 2"
proof -
  have "movsb_up (Suc (Suc 0)) d s m = m(d := m s, d + 1 := (m(d := m s)) (s + 1))"
      "movsb_down (Suc (Suc 0)) d s m = m(d := m s, d - 1 := (m(d := m s)) (s - 1))" for d s m by simp_all
  then have two: "movsb_up 2 d s m = m(d := m s, d + 1 := (m(d := m s)) (s + 1))"
      "movsb_down 2 d s m = m(d := m s, d - 1 := (m(d := m s)) (s - 1))" for d s m by (simp_all add: numeral_2_eq_2)
  have "memmove (ucast :: mem) 1 0 2 2 = 0" "memmove (ucast :: mem) 0 1 2 0 = 2"
    by (simp_all add: memmove_def two)
  moreover have "copied (ucast :: mem) 1 0 2 2 = 1" "copied (ucast :: mem) 0 1 2 0 = 1" by (simp_all add: copied_def)
  ultimately show "memmove (ucast :: mem) 1 0 2 \<noteq> copied ucast 1 0 2" "memmove (ucast :: mem) 0 1 2 \<noteq> copied ucast 0 1 2"
    by auto
qed

lemma read32_memset_apart [mem_simps]:
  assumes "apart dst (unat n) b 4"
  shows "read32 (memset m dst c n) b = read32 m b"
proof (rule read32_cong)
  fix i :: u32 assume i: "unat i < 4"
  have "\<not> b + i - dst < n"
  proof
    assume "b + i - dst < n"
    then show False
      using apart_offset_ne [OF assms, of "b + i - dst" i] i by (simp add: word_less_nat_alt)
  qed
  then show "memset m dst c n (b + i) = m (b + i)" by (simp add: memset_def)
qed

lemma read32_memsetl_apart [mem_simps]:
  assumes "apart dst (4 * unat n) b 4"
  shows "read32 (memsetl m dst v n) b = read32 m b"
proof (rule read32_cong)
  fix i :: u32 assume i: "unat i < 4"
  have "\<not> unat (b + i - dst) < 4 * unat n"
    using apart_offset_ne [OF assms, of "b + i - dst" i] i by auto
  then show "memsetl m dst v n (b + i) = m (b + i)" by (simp add: memsetl_def)
qed

lemma read32_memsetl_inside [mem_simps]:
  assumes "k < unat n" and "unat n \<le> 2 ^ 30"
  shows "read32 (memsetl m dst v n) (dst + 4 * of_nat k) = v"
proof -
  have u: "unat (4 * of_nat k + i :: u32) = 4 * k + unat i" if "unat i < 4" for i :: u32
    using assms that by (simp add: unat_word_ariths unat_of_nat)
  have b: "memsetl m dst v n (dst + 4 * of_nat k + i) = ucast (drop_bit (8 * unat i) v)"
    if "unat i < 4" for i :: u32
  proof -
    have "dst + 4 * of_nat k + i - dst = 4 * of_nat k + i" by simp
    with u [OF that] assms that show ?thesis by (simp add: memsetl_def)
  qed
  have "read32 (memsetl m dst v n) (dst + 4 * of_nat k) =
      read32 (write32 m (dst + 4 * of_nat k) v) (dst + 4 * of_nat k)"
    using b [of 0] b [of 1] b [of 2] b [of 3] by (simp add: read32_def write32_def)
  then show ?thesis by simp
qed

lemma read32_copied_apart [mem_simps]:
  assumes "apart d n b 4"
  shows "read32 (copied m d s n) b = read32 m b"
proof (rule read32_cong)
  fix i :: u32 assume i: "unat i < 4"
  have "\<not> unat (b + i - d) < n"
    using apart_offset_ne [OF assms, of "b + i - d" i] i by auto
  then show "copied m d s n (b + i) = m (b + i)" by (simp add: copied_def)
qed

lemma read32_copied_inside [mem_simps]:
  assumes "unat k + 4 \<le> n" and "n \<le> 2 ^ 32"
  shows "read32 (copied m d s n) (d + k) = read32 m (s + k)"
proof -
  have c: "copied m d s n (d + k + i) = m (s + k + i)" if "unat i < 4" for i :: u32
  proof -
    have "unat (k + i) = unat k + unat i" using assms that by (simp add: u32_add_small)
    then have "unat (d + k + i - d) < n" using assms that by (simp add: add.assoc)
    then show ?thesis by (simp add: copied_def add.assoc)
  qed
  then show ?thesis
    using c [of 0] c [of 1] c [of 2] c [of 3] by (simp add: read32_def)
qed

section \<open>Regions\<close>

text \<open>The addresses of \<open>n\<close> bytes from \<open>a\<close>, and memories that differ inside a region only.\<close>

definition span :: "u32 \<Rightarrow> nat \<Rightarrow> u32 set" where
  "span a n = {x. unat (x - a) < n}"

definition same_outside :: "u32 set \<Rightarrow> mem \<Rightarrow> mem \<Rightarrow> bool" where
  "same_outside S m m' \<longleftrightarrow> (\<forall>x. x \<notin> S \<longrightarrow> m' x = m x)"

lemma apart_span: "apart a n b k \<Longrightarrow> span a n \<inter> span b k = {}"
  using apart_offset_ne [of a n b k] by (force simp: span_def)

lemma apart_iff_span:
  assumes "0 < n" and "0 < k"
  shows "apart a n b k \<longleftrightarrow> span a n \<inter> span b k = {}"
proof
  assume "span a n \<inter> span b k = {}"
  moreover have "a \<in> span a n" and "b \<in> span b k" using assms by (simp_all add: span_def)
  ultimately have "b \<notin> span a n" and "a \<notin> span b k" by blast+
  then show "apart a n b k" by (simp add: span_def apart_def not_less)
qed (rule apart_span)

lemma span_0 [simp]: "span a 0 = {}"
  by (simp add: span_def)

lemma span_mono: "n \<le> k \<Longrightarrow> span a n \<subseteq> span a k"
  by (auto simp: span_def)

lemma span_sub:
  assumes "unat i + n \<le> k"
  shows "span (a + i) n \<subseteq> span a k"
proof
  fix x assume "x \<in> span (a + i) n"
  then have "unat (x - a - i) < n" by (simp add: span_def diff_diff_eq)
  moreover have "unat (x - a) \<le> unat (x - a - i) + unat i"
    by (simp add: u32_sub [of "x - a" i] split: if_splits)
  ultimately show "x \<in> span a k" using assms by (simp add: span_def)
qed

lemma span_of_nat: "a + n \<le> k \<Longrightarrow> span (s + of_nat a) n \<subseteq> span s k"
  by (rule span_sub) (simp add: unat_of_nat order_trans [OF add_right_mono [OF mod_less_eq_dividend]])

lemma span_split:
  assumes "unat i \<le> k"
  shows "span a k = span a (unat i) \<union> span (a + i) (k - unat i)"
proof -
  have "unat (x - a - i) < k - unat i" if "unat (x - a) < k" "\<not> unat (x - a) < unat i" for x
    using that by (simp add: u32_sub [of "x - a" i])
  then show ?thesis
    using assms span_sub [of i "k - unat i" k a] span_mono [of "unat i" k a]
    by (auto simp: span_def diff_diff_eq)
qed

lemma span_split_disjoint:
  assumes "unat i \<le> k" and "k \<le> 2 ^ 32"
  shows "span a (unat i) \<inter> span (a + i) (k - unat i) = {}"
proof -
  have False if "unat (x - a) < unat i" "unat (x - a - i) < k - unat i" for x
    using that assms by (simp add: u32_sub [of "x - a" i])
  then show ?thesis by (auto simp: span_def diff_diff_eq)
qed

lemma same_outside_refl [simp]: "same_outside S m m"
  by (simp add: same_outside_def)

lemma same_outside_trans:
  "same_outside S m m1 \<Longrightarrow> same_outside T m1 m2 \<Longrightarrow> same_outside (S \<union> T) m m2"
  by (simp add: same_outside_def)

lemma same_outside_mono: "same_outside S m m' \<Longrightarrow> S \<subseteq> T \<Longrightarrow> same_outside T m m'"
  by (auto simp: same_outside_def)

lemma same_outside_write32: "same_outside (span a 4) m (write32 m a v)"
proof -
  have "x \<noteq> a \<and> x \<noteq> a + 1 \<and> x \<noteq> a + 2 \<and> x \<noteq> a + 3" if "\<not> unat (x - a) < 4" for x
    using that by auto
  then show ?thesis by (simp add: same_outside_def span_def write32_def)
qed

lemma same_outside_write16: "same_outside (span a 2) m (write16 m a v)"
proof -
  have "x \<noteq> a \<and> x \<noteq> a + 1" if "\<not> unat (x - a) < 2" for x
    using that by auto
  then show ?thesis by (simp add: same_outside_def span_def write16_def)
qed

lemma same_outside_memset: "same_outside (span a (unat n)) m (memset m a c n)"
  by (simp add: same_outside_def span_def memset_def word_less_nat_alt)

lemma same_outside_memsetl: "same_outside (span a (4 * unat n)) m (memsetl m a v n)"
  by (simp add: same_outside_def span_def memsetl_def)

lemma same_outside_copied: "same_outside (span d n) m (copied m d s n)"
  by (simp add: same_outside_def span_def copied_def)

lemma same_outside_read32:
  assumes "same_outside S m m'" and "span a 4 \<inter> S = {}"
  shows "read32 m' a = read32 m a"
proof (rule read32_cong)
  fix i :: u32 assume "unat i < 4"
  then have "a + i \<in> span a 4" by (simp add: span_def)
  with assms show "m' (a + i) = m (a + i)" by (auto simp: same_outside_def)
qed

lemma same_outside_read16:
  assumes "same_outside S m m'" and "span a 2 \<inter> S = {}"
  shows "read16 m' a = read16 m a"
proof -
  have "a \<in> span a 2" "a + 1 \<in> span a 2" by (simp_all add: span_def)
  then have "m' a = m a" "m' (a + 1) = m (a + 1)" using assms by (auto simp: same_outside_def)
  then show ?thesis by (simp add: read16_def)
qed

lemma read16_write16_apart [mem_simps]: "apart a 2 b 2 \<Longrightarrow> read16 (write16 m a v) b = read16 m b"
  by (rule same_outside_read16 [OF same_outside_write16]) (simp add: apart_span apart_sym [of b])

lemma read16_write32_apart [mem_simps]: "apart a 4 b 2 \<Longrightarrow> read16 (write32 m a v) b = read16 m b"
  by (rule same_outside_read16 [OF same_outside_write32]) (simp add: apart_span apart_sym [of b])

lemma read32_write16_apart [mem_simps]: "apart a 2 b 4 \<Longrightarrow> read32 (write16 m a v) b = read32 m b"
  by (rule same_outside_read32 [OF same_outside_write16]) (simp add: apart_span apart_sym [of b])

lemma apart_sub:
  assumes "apart a n b k" and "unat i + n' \<le> n" and "unat j + k' \<le> k" and "0 < n'" and "0 < k'"
  shows "apart (a + i) n' (b + j) k'"
  using apart_span [OF assms(1)] span_sub [OF assms(2), of a] span_sub [OF assms(3), of b]
  by (simp add: apart_iff_span assms(4,5)) blast

lemma apart_sub_right:
  "apart a n b k \<Longrightarrow> unat j + k' \<le> k \<Longrightarrow> 0 < n \<Longrightarrow> 0 < k' \<Longrightarrow> apart a n (b + j) k'"
  using apart_sub [of a n b k 0 n j k'] by simp

lemma apart_shift [simp]:
  "apart a n (a + i) k \<longleftrightarrow> apart 0 n i k"
  "apart (a + i) n a k \<longleftrightarrow> apart i n 0 k"
  "apart (a + i) n (a + j) k \<longleftrightarrow> apart i n j k"
  by (simp_all add: apart_def)

text \<open>The elements of an array do not overlap.\<close>

lemma apart_of_nat:
  assumes "a + k \<le> b" and "b + k \<le> 2 ^ 32" and "0 < k"
  shows "apart (s + of_nat a) k (s + of_nat b :: u32) k"
proof -
  have "unat (of_nat a :: u32) = a" "unat (of_nat b :: u32) = b" using assms by (auto simp: unat_of_nat)
  then show ?thesis using assms by (auto simp: apart_def u32_sub split: if_splits)
qed

lemma elements_apart:
  assumes "i \<noteq> j" and "sz * i + sz \<le> n" and "sz * j + sz \<le> n" and "n \<le> 2 ^ 32" and "0 < sz"
  shows "apart (b + of_nat (sz * i)) sz (b + of_nat (sz * j) :: u32) sz"
proof -
  have "i < j \<or> j < i" using assms(1) by auto
  then have "sz * i + sz \<le> sz * j \<or> sz * j + sz \<le> sz * i"
    by (metis Suc_leI add.commute mult_Suc_right mult_le_mono2)
  moreover have "sz * i + sz \<le> 2 ^ 32" "sz * j + sz \<le> 2 ^ 32" using assms(2-4) by linarith+
  ultimately show ?thesis
    using apart_of_nat [of "sz * i" sz "sz * j" b] apart_of_nat [of "sz * j" sz "sz * i" b] assms(5) apart_sym by blast
qed

lemma same_outside_write32_in:
  "same_outside S m m' \<Longrightarrow> span a 4 \<subseteq> S \<Longrightarrow> same_outside S m (write32 m' a v)"
  using same_outside_write32 [of a m' v] by (auto simp: same_outside_def)

text \<open>\<^verbatim>\<open>rep movsl\<close> between disjoint ranges.\<close>

lemma movsl_up_copies:
  assumes "span d (4 * n) \<inter> span s (4 * n) = {}" and "4 * n < 2 ^ 32"
  shows "same_outside (span d (4 * n)) m (movsl_up n d s m) \<and>
    (\<forall>k < n. read32 (movsl_up n d s m) (d + 4 * of_nat k) = read32 m (s + 4 * of_nat k))"
  using assms
proof (induction n arbitrary: d s m)
  case (Suc n)
  let ?m = "write32 m d (read32 m s)" and ?m' = "movsl_up (Suc n) d s m"
  have sp: "span a (4 * Suc n) = span a 4 \<union> span (a + 4) (4 * n)" for a :: u32
    using span_split [of 4 "4 * Suc n" a] by simp
  have dis: "span (d + 4) (4 * n) \<inter> span (s + 4) (4 * n) = {}" "span d 4 \<inter> span (s + 4) (4 * n) = {}"
    using Suc.prems(1) unfolding sp by blast+
  have IH: "same_outside (span (d + 4) (4 * n)) ?m ?m'"
    "\<forall>k < n. read32 ?m' (d + 4 + 4 * of_nat k) = read32 ?m (s + 4 + 4 * of_nat k)"
    using Suc.IH [OF dis(1), of ?m] Suc.prems(2) by simp_all
  have "same_outside (span d (4 * Suc n)) m ?m'"
    unfolding sp by (rule same_outside_trans [OF same_outside_write32 IH(1)])
  moreover have "read32 ?m' (d + 4 * of_nat k) = read32 m (s + 4 * of_nat k)" if k: "k < Suc n" for k
  proof (cases k)
    case 0
    have "span d 4 \<inter> span (d + 4) (4 * n) = {}"
      using span_split_disjoint [of 4 "4 * Suc n" d] Suc.prems(2) by simp
    then have "read32 ?m' d = read32 ?m d" using same_outside_read32 [OF IH(1)] by blast
    then show ?thesis using 0 by simp
  next
    case (Suc k')
    then have "span (s + 4 + 4 * of_nat k') 4 \<subseteq> span (s + 4) (4 * n)"
      using k Suc.prems(2) by (intro span_sub) (simp add: unat_word_ariths unat_of_nat)
    then have "read32 ?m (s + 4 + 4 * of_nat k') = read32 m (s + 4 + 4 * of_nat k')"
      using same_outside_read32 [OF same_outside_write32 [of d m "read32 m s"]] dis(2) by blast
    then show ?thesis using IH(2) Suc k by (simp add: algebra_simps)
  qed
  ultimately show ?case by blast
qed simp

end
