(* ===== verification/Queue_Macros.thy ===== *)
theory Queue_Macros
  imports Memory
begin

text \<open>
  The list macros of \<^verbatim>\<open>include/sys/queue.h\<close> that the kernel uses, as operations on memory; \<open>Queue_Tail\<close> has the
  rest. A
  head is the address of its structure; \<open>f\<close> is the byte offset of the entry field inside an
  element. In \<^verbatim>\<open>SLIST_ENTRY\<close> the next pointer is at \<open>f\<close>; in \<^verbatim>\<open>LIST_ENTRY\<close> and
  \<^verbatim>\<open>TAILQ_ENTRY\<close> the next pointer is at \<open>f\<close> and the address of the pointer that refers to the
  element is at \<open>f + 4\<close>.

  The predicates \<open>slist\<close>, \<open>dlist\<close> and \<open>tailq\<close> say that memory holds a given sequence of
  elements; the lemmas show that each macro does to the sequence what its name says.
\<close>

section \<open>Singly-linked lists\<close>

definition SLIST_FIRST :: "mem \<Rightarrow> u32 \<Rightarrow> u32" where
  "SLIST_FIRST m head = read32 m head"

definition SLIST_EMPTY :: "mem \<Rightarrow> u32 \<Rightarrow> bool" where
  "SLIST_EMPTY m head \<longleftrightarrow> SLIST_FIRST m head = 0"

definition SLIST_NEXT :: "mem \<Rightarrow> u32 \<Rightarrow> u32 \<Rightarrow> u32" where
  "SLIST_NEXT m f elm = read32 m (elm + f)"

definition SLIST_INIT :: "mem \<Rightarrow> u32 \<Rightarrow> mem" where
  "SLIST_INIT m head = write32 m head 0"

definition SLIST_INSERT_AFTER :: "mem \<Rightarrow> u32 \<Rightarrow> u32 \<Rightarrow> u32 \<Rightarrow> mem" where
  "SLIST_INSERT_AFTER m f slistelm elm =
     (let m1 = write32 m (elm + f) (read32 m (slistelm + f)) in
      write32 m1 (slistelm + f) elm)"

definition SLIST_INSERT_HEAD :: "mem \<Rightarrow> u32 \<Rightarrow> u32 \<Rightarrow> u32 \<Rightarrow> mem" where
  "SLIST_INSERT_HEAD m f head elm =
     (let m1 = write32 m (elm + f) (read32 m head) in
      write32 m1 head elm)"

definition SLIST_REMOVE_AFTER :: "mem \<Rightarrow> u32 \<Rightarrow> u32 \<Rightarrow> mem" where
  "SLIST_REMOVE_AFTER m f elm = write32 m (elm + f) (read32 m (read32 m (elm + f) + f))"

definition SLIST_REMOVE_HEAD :: "mem \<Rightarrow> u32 \<Rightarrow> u32 \<Rightarrow> mem" where
  "SLIST_REMOVE_HEAD m f head = write32 m head (read32 m (read32 m head + f))"

text \<open>The loop of \<^verbatim>\<open>SLIST_REMOVE\<close> that looks for the predecessor of \<open>elm\<close>: it runs off the end of
  the list, and then dereferences a null pointer, when \<open>elm\<close> is not in the list.\<close>

partial_function (option) slist_pred :: "mem \<Rightarrow> u32 \<Rightarrow> u32 \<Rightarrow> u32 \<Rightarrow> u32 res option" where
  "slist_pred m f elm curelm =
     (if curelm = 0 then Some (Inl NullDeref)
      else if read32 m (curelm + f) = elm then Some (Inr curelm)
      else slist_pred m f elm (read32 m (curelm + f)))"

definition SLIST_REMOVE :: "mem \<Rightarrow> u32 \<Rightarrow> u32 \<Rightarrow> u32 \<Rightarrow> mem res" where
  "SLIST_REMOVE m f head elm =
     (if read32 m head = elm then Inr (SLIST_REMOVE_HEAD m f head)
      else bindE (ends (slist_pred m f elm (read32 m head))) (\<lambda>r. bindE r (\<lambda>curelm.
        Inr (write32 m (curelm + f) (read32 m (read32 m (curelm + f) + f))))))"

text \<open>
  \<^verbatim>\<open>SLIST_FOREACH (p, head, field) if (P) goto found;\<close> and its \<^verbatim>\<open>LIST\<close> and \<^verbatim>\<open>TAILQ\<close> twins: the
  first element from \<open>p\<close> on that satisfies \<open>P\<close>, or the null pointer when the loop ends.
\<close>

partial_function (option) foreach_find :: "mem \<Rightarrow> u32 \<Rightarrow> (u32 \<Rightarrow> bool) \<Rightarrow> u32 \<Rightarrow> u32 option" where
  "foreach_find m f P p =
     (if p = 0 then Some 0
      else if P p then Some p
      else foreach_find m f P (read32 m (p + f)))"

text \<open>
  \<^verbatim>\<open>FOREACH_SAFE (p, head, field, tmp) if (P) break;\<close>: the values of \<open>p\<close> and \<open>tmp\<close> after the
  loop. The third argument of the walk is the value of \<open>tmp\<close> so far, \<open>None\<close> before its first
  assignment.
\<close>

partial_function (option) foreach_safe ::
    "mem \<Rightarrow> u32 \<Rightarrow> (u32 \<Rightarrow> u32 \<Rightarrow> bool) \<Rightarrow> u32 option \<Rightarrow> u32 \<Rightarrow> (u32 \<times> u32 option) option" where
  "foreach_safe m f P t p =
     (if p = 0 then Some (0, t)
      else (let tmp = read32 m (p + f) in
        if P p tmp then Some (p, Some tmp)
        else foreach_safe m f P (Some tmp) tmp))"

section \<open>Doubly-linked lists\<close>

definition LIST_FIRST :: "mem \<Rightarrow> u32 \<Rightarrow> u32" where
  "LIST_FIRST m head = read32 m head"

definition LIST_EMPTY :: "mem \<Rightarrow> u32 \<Rightarrow> bool" where
  "LIST_EMPTY m head \<longleftrightarrow> LIST_FIRST m head = 0"

definition LIST_NEXT :: "mem \<Rightarrow> u32 \<Rightarrow> u32 \<Rightarrow> u32" where
  "LIST_NEXT m f elm = read32 m (elm + f)"

definition LIST_INIT :: "mem \<Rightarrow> u32 \<Rightarrow> mem" where
  "LIST_INIT m head = write32 m head 0"

definition LIST_INSERT_AFTER :: "mem \<Rightarrow> u32 \<Rightarrow> u32 \<Rightarrow> u32 \<Rightarrow> mem" where
  "LIST_INSERT_AFTER m f listelm elm =
     (let m1 = write32 m (elm + f) (read32 m (listelm + f));
          m2 = (if read32 m1 (elm + f) \<noteq> 0
                then write32 m1 (read32 m1 (listelm + f) + f + 4) (elm + f) else m1);
          m3 = write32 m2 (listelm + f) elm in
      write32 m3 (elm + f + 4) (listelm + f))"

definition LIST_INSERT_BEFORE :: "mem \<Rightarrow> u32 \<Rightarrow> u32 \<Rightarrow> u32 \<Rightarrow> mem" where
  "LIST_INSERT_BEFORE m f listelm elm =
     (let m1 = write32 m (elm + f + 4) (read32 m (listelm + f + 4));
          m2 = write32 m1 (elm + f) listelm;
          m3 = write32 m2 (read32 m2 (listelm + f + 4)) elm in
      write32 m3 (listelm + f + 4) (elm + f))"

definition LIST_INSERT_HEAD :: "mem \<Rightarrow> u32 \<Rightarrow> u32 \<Rightarrow> u32 \<Rightarrow> mem" where
  "LIST_INSERT_HEAD m f head elm =
     (let m1 = write32 m (elm + f) (read32 m head);
          m2 = (if read32 m1 (elm + f) \<noteq> 0
                then write32 m1 (read32 m1 head + f + 4) (elm + f) else m1);
          m3 = write32 m2 head elm in
      write32 m3 (elm + f + 4) head)"

definition LIST_REMOVE :: "mem \<Rightarrow> u32 \<Rightarrow> u32 \<Rightarrow> mem" where
  "LIST_REMOVE m f elm =
     (let m1 = (if read32 m (elm + f) \<noteq> 0
                then write32 m (read32 m (elm + f) + f + 4) (read32 m (elm + f + 4)) else m) in
      write32 m1 (read32 m1 (elm + f + 4)) (read32 m1 (elm + f)))"

section \<open>Tail queues\<close>

definition TAILQ_FIRST :: "mem \<Rightarrow> u32 \<Rightarrow> u32" where
  "TAILQ_FIRST m head = read32 m head"

definition TAILQ_NEXT :: "mem \<Rightarrow> u32 \<Rightarrow> u32 \<Rightarrow> u32" where
  "TAILQ_NEXT m f elm = read32 m (elm + f)"

definition TAILQ_EMPTY :: "mem \<Rightarrow> u32 \<Rightarrow> bool" where
  "TAILQ_EMPTY m head \<longleftrightarrow> TAILQ_FIRST m head = 0"

definition TAILQ_INIT :: "mem \<Rightarrow> u32 \<Rightarrow> mem" where
  "TAILQ_INIT m head = write32 (write32 m head 0) (head + 4) head"

definition TAILQ_INSERT_TAIL :: "mem \<Rightarrow> u32 \<Rightarrow> u32 \<Rightarrow> u32 \<Rightarrow> mem" where
  "TAILQ_INSERT_TAIL m f head elm =
     (let m1 = write32 m (elm + f) 0;
          m2 = write32 m1 (elm + f + 4) (read32 m1 (head + 4));
          m3 = write32 m2 (read32 m2 (head + 4)) elm in
      write32 m3 (head + 4) (elm + f))"

definition TAILQ_REMOVE :: "mem \<Rightarrow> u32 \<Rightarrow> u32 \<Rightarrow> u32 \<Rightarrow> mem" where
  "TAILQ_REMOVE m f head elm =
     (let m1 = (if read32 m (elm + f) \<noteq> 0
                then write32 m (read32 m (elm + f) + f + 4) (read32 m (elm + f + 4))
                else write32 m (head + 4) (read32 m (elm + f + 4))) in
      write32 m1 (read32 m1 (elm + f + 4)) (read32 m1 (elm + f)))"

section \<open>Lists in memory\<close>

text \<open>A list is described from the pointer cell \<open>lnk\<close> that refers to its first element: the head,
  or the next pointer of the element before. \<open>lastlink\<close> is the cell the list ends in;
  \<open>scells\<close> and \<open>dcells\<close> are the cells a segment reads, \<open>slcells\<close> and \<open>dlcells\<close> those of a whole
  list.\<close>

fun lastlink :: "u32 \<Rightarrow> u32 \<Rightarrow> u32 list \<Rightarrow> u32" where
  "lastlink f lnk [] = lnk"
| "lastlink f lnk (x # xs) = lastlink f (x + f) xs"

fun sseg :: "mem \<Rightarrow> u32 \<Rightarrow> u32 \<Rightarrow> u32 list \<Rightarrow> bool" where
  "sseg m f lnk [] \<longleftrightarrow> True"
| "sseg m f lnk (x # xs) \<longleftrightarrow> read32 m lnk = x \<and> x \<noteq> 0 \<and> sseg m f (x + f) xs"

fun scells :: "u32 \<Rightarrow> u32 \<Rightarrow> u32 list \<Rightarrow> u32 list" where
  "scells f lnk [] = []"
| "scells f lnk (x # xs) = lnk # scells f (x + f) xs"

fun dseg :: "mem \<Rightarrow> u32 \<Rightarrow> u32 \<Rightarrow> u32 list \<Rightarrow> bool" where
  "dseg m f lnk [] \<longleftrightarrow> True"
| "dseg m f lnk (x # xs) \<longleftrightarrow>
     read32 m lnk = x \<and> x \<noteq> 0 \<and> read32 m (x + f + 4) = lnk \<and> dseg m f (x + f) xs"

fun dcells :: "u32 \<Rightarrow> u32 \<Rightarrow> u32 list \<Rightarrow> u32 list" where
  "dcells f lnk [] = []"
| "dcells f lnk (x # xs) = lnk # (x + f + 4) # dcells f (x + f) xs"

definition slist :: "mem \<Rightarrow> u32 \<Rightarrow> u32 \<Rightarrow> u32 list \<Rightarrow> bool" where
  "slist m f lnk xs \<longleftrightarrow> sseg m f lnk xs \<and> read32 m (lastlink f lnk xs) = 0"

definition slcells :: "u32 \<Rightarrow> u32 \<Rightarrow> u32 list \<Rightarrow> u32 list" where
  "slcells f lnk xs = scells f lnk xs @ [lastlink f lnk xs]"

definition dlist :: "mem \<Rightarrow> u32 \<Rightarrow> u32 \<Rightarrow> u32 list \<Rightarrow> bool" where
  "dlist m f lnk xs \<longleftrightarrow> dseg m f lnk xs \<and> read32 m (lastlink f lnk xs) = 0"

definition dlcells :: "u32 \<Rightarrow> u32 \<Rightarrow> u32 list \<Rightarrow> u32 list" where
  "dlcells f lnk xs = dcells f lnk xs @ [lastlink f lnk xs]"

definition tailq :: "mem \<Rightarrow> u32 \<Rightarrow> u32 \<Rightarrow> u32 list \<Rightarrow> bool" where
  "tailq m f head xs \<longleftrightarrow> dlist m f head xs \<and> read32 m (head + 4) = lastlink f head xs"

text \<open>Cells that do not overlap: what the elements of a list and its head must satisfy.\<close>

fun sep_cells :: "u32 list \<Rightarrow> bool" where
  "sep_cells [] \<longleftrightarrow> True"
| "sep_cells (a # as) \<longleftrightarrow> (\<forall>b \<in> set as. apart a 4 b 4) \<and> sep_cells as"

lemma sep_cells_append:
  "sep_cells (as @ bs) \<longleftrightarrow>
     sep_cells as \<and> sep_cells bs \<and> (\<forall>a \<in> set as. \<forall>b \<in> set bs. apart a 4 b 4)"
  by (induction as) auto

lemmas list_defs = slist_def slcells_def dlist_def dlcells_def tailq_def sep_cells_append Let_def

lemma lastlink_append [simp]: "lastlink f lnk (xs @ ys) = lastlink f (lastlink f lnk xs) ys"
  by (induction xs arbitrary: lnk) auto

lemma lastlink_last: "xs \<noteq> [] \<Longrightarrow> lastlink f lnk xs = last xs + f"
  by (induction xs arbitrary: lnk) auto

lemma scells_append [simp]:
  "scells f lnk (xs @ ys) = scells f lnk xs @ scells f (lastlink f lnk xs) ys"
  by (induction xs arbitrary: lnk) auto

lemma sseg_append [simp]:
  "sseg m f lnk (xs @ ys) \<longleftrightarrow> sseg m f lnk xs \<and> sseg m f (lastlink f lnk xs) ys"
  by (induction xs arbitrary: lnk) auto

lemma dcells_append [simp]:
  "dcells f lnk (xs @ ys) = dcells f lnk xs @ dcells f (lastlink f lnk xs) ys"
  by (induction xs arbitrary: lnk) auto

lemma dseg_append [simp]:
  "dseg m f lnk (xs @ ys) \<longleftrightarrow> dseg m f lnk xs \<and> dseg m f (lastlink f lnk xs) ys"
  by (induction xs arbitrary: lnk) auto

lemma sseg_cong:
  "(\<And>c. c \<in> set (scells f lnk xs) \<Longrightarrow> read32 m' c = read32 m c) \<Longrightarrow>
   sseg m' f lnk xs \<longleftrightarrow> sseg m f lnk xs"
  by (induction xs arbitrary: lnk) auto

lemma dseg_cong:
  "(\<And>c. c \<in> set (dcells f lnk xs) \<Longrightarrow> read32 m' c = read32 m c) \<Longrightarrow>
   dseg m' f lnk xs \<longleftrightarrow> dseg m f lnk xs"
  by (induction xs arbitrary: lnk) auto

lemma slist_cong:
  "(\<And>c. c \<in> set (slcells f lnk xs) \<Longrightarrow> read32 m' c = read32 m c) \<Longrightarrow>
   slist m' f lnk xs \<longleftrightarrow> slist m f lnk xs"
  by (simp add: slist_def slcells_def cong: sseg_cong)

lemma dlist_sseg: "dlist m f lnk xs \<Longrightarrow> slist m f lnk xs"
  unfolding dlist_def slist_def by (induction xs arbitrary: lnk) auto

lemma sep_cells_apartD:
  "sep_cells cs \<Longrightarrow> a \<in> set cs \<Longrightarrow> b \<in> set cs \<Longrightarrow> a \<noteq> b \<Longrightarrow> apart a 4 b 4"
  by (induction cs) (auto simp: apart_sym)

lemma dlist_append:
  "dlist m f lnk (xs @ ys) \<longleftrightarrow> dseg m f lnk xs \<and> dlist m f (lastlink f lnk xs) ys"
  by (auto simp: dlist_def)

lemma dlist_cong:
  "(\<And>c. c \<in> set (dlcells f lnk xs) \<Longrightarrow> read32 m' c = read32 m c) \<Longrightarrow>
   dlist m' f lnk xs \<longleftrightarrow> dlist m f lnk xs"
  by (simp add: dlist_def dlcells_def cong: dseg_cong)

section \<open>Walking a list\<close>

text \<open>
  What a \<^verbatim>\<open>FOREACH\<close> loop needs of a list, whichever of the three kinds it is: the head cell
  refers to the first element and each next pointer to the following one. The loops are proved to
  end and to find the first match once, here.
\<close>

definition first0 :: "u32 list \<Rightarrow> u32" where
  "first0 xs = (case xs of [] \<Rightarrow> 0 | x # _ \<Rightarrow> x)"

lemma first0_simps [simp]: "first0 [] = 0" "first0 (x # xs) = x"
  by (simp_all add: first0_def)

fun find_pair :: "(u32 \<Rightarrow> u32 \<Rightarrow> bool) \<Rightarrow> u32 list \<Rightarrow> (u32 \<times> u32) option" where
  "find_pair P [] = None"
| "find_pair P (x # xs) = (if P x (first0 xs) then Some (x, first0 xs) else find_pair P xs)"

locale traversable =
  fixes f :: u32 and lnk :: u32 and holds :: "mem \<Rightarrow> u32 list \<Rightarrow> bool"
  assumes first_elem: "holds m xs \<Longrightarrow> read32 m lnk = first0 xs"
    and next_elem: "holds m (xs @ x # ys) \<Longrightarrow> read32 m (x + f) = first0 ys"
    and nonnull: "holds m xs \<Longrightarrow> 0 \<notin> set xs"
begin

lemma foreach_find_from:
  "holds m (xs @ ys) \<Longrightarrow>
   foreach_find m f P (first0 ys) = Some (case find P ys of None \<Rightarrow> 0 | Some x \<Rightarrow> x)"
proof (induction ys arbitrary: xs)
  case Nil
  then show ?case by (subst foreach_find.simps) simp
next
  case (Cons y ys)
  have "y \<noteq> 0" using nonnull [OF Cons.prems] by auto
  moreover have "read32 m (y + f) = first0 ys" using Cons.prems by (rule next_elem)
  ultimately show ?case
    using Cons.IH [of "xs @ [y]"] Cons.prems by (subst foreach_find.simps) simp
qed

lemma foreach_find_holds:
  "holds m xs \<Longrightarrow>
   foreach_find m f P (read32 m lnk) = Some (case find P xs of None \<Rightarrow> 0 | Some x \<Rightarrow> x)"
  using foreach_find_from [of m "[]" xs P] by (simp add: first_elem)

lemma foreach_safe_from:
  "holds m (xs @ ys) \<Longrightarrow>
   foreach_safe m f P t (first0 ys) =
     Some (case find_pair P ys of
         None \<Rightarrow> (0, if ys = [] then t else Some 0)
       | Some (x, tmp) \<Rightarrow> (x, Some tmp))"
proof (induction ys arbitrary: xs t)
  case Nil
  then show ?case by (subst foreach_safe.simps) simp
next
  case (Cons y ys)
  have "y \<noteq> 0" using nonnull [OF Cons.prems] by auto
  moreover have "read32 m (y + f) = first0 ys" using Cons.prems by (rule next_elem)
  ultimately show ?case
    using Cons.IH [of "xs @ [y]" "Some (first0 ys)"] Cons.prems
    by (subst foreach_safe.simps) (auto simp: Let_def split: option.splits)
qed

lemma foreach_safe_holds:
  "holds m xs \<Longrightarrow>
   foreach_safe m f P t (read32 m lnk) =
     Some (case find_pair P xs of
         None \<Rightarrow> (0, if xs = [] then t else Some 0)
       | Some (x, tmp) \<Rightarrow> (x, Some tmp))"
  using foreach_safe_from [of m "[]" xs P t] by (simp add: first_elem)

end

lemma slist_first: "slist m f lnk xs \<Longrightarrow> read32 m lnk = first0 xs"
  by (cases xs) (auto simp: slist_def)

lemma slist_next: "slist m f lnk (xs @ x # ys) \<Longrightarrow> read32 m (x + f) = first0 ys"
  by (cases ys) (auto simp: slist_def)

lemma slist_nonnull: "slist m f lnk xs \<Longrightarrow> 0 \<notin> set xs"
  unfolding slist_def by (induction xs arbitrary: lnk) auto

interpretation sl: traversable f lnk "\<lambda>m. slist m f lnk" for f lnk
  by unfold_locales (auto simp: slist_first slist_next slist_nonnull)

interpretation dl: traversable f lnk "\<lambda>m. dlist m f lnk" for f lnk
  by unfold_locales
    (auto dest!: dlist_sseg simp: slist_first slist_next slist_nonnull)

interpretation tq: traversable f lnk "\<lambda>m. tailq m f lnk" for f lnk
  by unfold_locales
    (auto simp: tailq_def dest!: dlist_sseg simp: slist_first slist_next slist_nonnull)

section \<open>What the macros do\<close>

subsection \<open>Doubly-linked lists\<close>

lemma LIST_REMOVE_dlist:
  assumes "dlist m f lnk (xs @ x # ys)" and "sep_cells (dlcells f lnk (xs @ x # ys))"
  shows "dlist (LIST_REMOVE m f x) f lnk (xs @ ys)"
  using assms
  by (cases ys) (auto simp: list_defs LIST_REMOVE_def mem_simps cong: dseg_cong)

lemma LIST_REMOVE_frame:
  assumes "dlist m f lnk (xs @ x # ys)" and "sep_cells (c # dlcells f lnk (xs @ x # ys))"
  shows "read32 (LIST_REMOVE m f x) c = read32 m c"
  using assms by (cases ys) (auto simp: list_defs LIST_REMOVE_def mem_simps)

lemma LIST_INSERT_BEFORE_dlist:
  assumes "dlist m f lnk (xs @ x # ys)"
    and "sep_cells ((n + f) # (n + f + 4) # dlcells f lnk (xs @ x # ys))" and "n \<noteq> 0"
  shows "dlist (LIST_INSERT_BEFORE m f x n) f lnk (xs @ n # x # ys)"
  using assms
  by (cases ys) (auto simp: list_defs LIST_INSERT_BEFORE_def mem_simps cong: dseg_cong)

lemma LIST_INSERT_BEFORE_frame:
  assumes "dlist m f lnk (xs @ x # ys)"
    and "sep_cells (c # (n + f) # (n + f + 4) # dlcells f lnk (xs @ x # ys))"
  shows "read32 (LIST_INSERT_BEFORE m f x n) c = read32 m c"
  using assms by (cases ys) (auto simp: list_defs LIST_INSERT_BEFORE_def mem_simps)

lemma LIST_INSERT_AFTER_dlist:
  assumes "dlist m f lnk (xs @ x # ys)"
    and "sep_cells ((n + f) # (n + f + 4) # dlcells f lnk (xs @ x # ys))" and "n \<noteq> 0"
  shows "dlist (LIST_INSERT_AFTER m f x n) f lnk (xs @ x # n # ys)"
  using assms
  by (cases ys) (auto simp: list_defs LIST_INSERT_AFTER_def mem_simps cong: dseg_cong)

lemma LIST_INSERT_AFTER_frame:
  assumes "dlist m f lnk (xs @ x # ys)"
    and "sep_cells (c # (n + f) # (n + f + 4) # dlcells f lnk (xs @ x # ys))"
  shows "read32 (LIST_INSERT_AFTER m f x n) c = read32 m c"
  using assms by (cases ys) (auto simp: list_defs LIST_INSERT_AFTER_def mem_simps)

lemma LIST_INSERT_HEAD_dlist:
  assumes "dlist m f lnk xs" and "sep_cells ((n + f) # (n + f + 4) # dlcells f lnk xs)" and "n \<noteq> 0"
  shows "dlist (LIST_INSERT_HEAD m f lnk n) f lnk (n # xs)"
  using assms
  by (cases xs) (auto simp: list_defs LIST_INSERT_HEAD_def mem_simps cong: dseg_cong)

lemma LIST_INSERT_HEAD_frame:
  assumes "dlist m f lnk xs" and "sep_cells (c # (n + f) # (n + f + 4) # dlcells f lnk xs)"
  shows "read32 (LIST_INSERT_HEAD m f lnk n) c = read32 m c"
  using assms by (cases xs) (auto simp: list_defs LIST_INSERT_HEAD_def mem_simps)

subsection \<open>Tail queues\<close>

lemma TAILQ_INSERT_TAIL_tailq:
  assumes "tailq m f h xs" and "sep_cells ((n + f) # (n + f + 4) # (h + 4) # dlcells f h xs)" and "n \<noteq> 0"
  shows "tailq (TAILQ_INSERT_TAIL m f h n) f h (xs @ [n])"
  using assms
  by (auto simp: list_defs TAILQ_INSERT_TAIL_def mem_simps cong: dseg_cong)

lemma TAILQ_INSERT_TAIL_frame:
  assumes "tailq m f h xs" and "sep_cells (c # (n + f) # (n + f + 4) # (h + 4) # dlcells f h xs)"
  shows "read32 (TAILQ_INSERT_TAIL m f h n) c = read32 m c"
  using assms by (auto simp: list_defs TAILQ_INSERT_TAIL_def mem_simps)

lemma TAILQ_REMOVE_tailq:
  assumes "tailq m f h (xs @ x # ys)" and "sep_cells ((h + 4) # dlcells f h (xs @ x # ys))"
  shows "tailq (TAILQ_REMOVE m f h x) f h (xs @ ys)"
  using assms
  by (cases ys) (auto simp: list_defs TAILQ_REMOVE_def mem_simps cong: dseg_cong)

lemma TAILQ_REMOVE_frame:
  assumes "tailq m f h (xs @ x # ys)" and "sep_cells (c # (h + 4) # dlcells f h (xs @ x # ys))"
  shows "read32 (TAILQ_REMOVE m f h x) c = read32 m c"
  using assms by (cases ys) (auto simp: list_defs TAILQ_REMOVE_def mem_simps)

lemma TAILQ_INIT_tailq: "apart h 4 (h + 4) 4 \<Longrightarrow> tailq (TAILQ_INIT m h) f h []"
  by (simp add: list_defs TAILQ_INIT_def mem_simps)

subsection \<open>Singly-linked lists\<close>

lemma SLIST_INSERT_HEAD_slist:
  assumes "slist m f lnk xs" and "sep_cells ((n + f) # slcells f lnk xs)" and "n \<noteq> 0"
  shows "slist (SLIST_INSERT_HEAD m f lnk n) f lnk (n # xs)"
  using assms
  by (cases xs) (auto simp: list_defs SLIST_INSERT_HEAD_def mem_simps cong: sseg_cong)

lemma SLIST_INSERT_HEAD_frame:
  assumes "slist m f lnk xs" and "sep_cells (c # (n + f) # slcells f lnk xs)"
  shows "read32 (SLIST_INSERT_HEAD m f lnk n) c = read32 m c"
  using assms by (cases xs) (auto simp: list_defs SLIST_INSERT_HEAD_def mem_simps)

lemma SLIST_INSERT_AFTER_slist:
  assumes "slist m f lnk (xs @ x # ys)"
    and "sep_cells ((n + f) # slcells f lnk (xs @ x # ys))" and "n \<noteq> 0"
  shows "slist (SLIST_INSERT_AFTER m f x n) f lnk (xs @ x # n # ys)"
  using assms
  by (cases ys) (auto simp: list_defs SLIST_INSERT_AFTER_def mem_simps cong: sseg_cong)

lemma SLIST_INSERT_AFTER_frame:
  assumes "slist m f lnk (xs @ x # ys)"
    and "sep_cells (c # (n + f) # slcells f lnk (xs @ x # ys))"
  shows "read32 (SLIST_INSERT_AFTER m f x n) c = read32 m c"
  using assms by (cases ys) (auto simp: list_defs SLIST_INSERT_AFTER_def mem_simps)

lemma slist_pred_finds:
  assumes "slist m f lnk (ps @ xs @ x # ys)" and "xs \<noteq> []" and "x \<notin> set xs"
  shows "slist_pred m f x (hd xs) = Some (Inr (last xs))"
  using assms
proof (induction xs arbitrary: ps)
  case (Cons y zs)
  have "y \<noteq> 0" using slist_nonnull [OF Cons.prems(1)] by auto
  moreover have "read32 m (y + f) = first0 (zs @ x # ys)"
    using Cons.prems(1) by (intro slist_next [of m f lnk ps]) simp
  ultimately show ?case
    using Cons.IH [of "ps @ [y]"] Cons.prems
    by (cases zs) (subst slist_pred.simps, auto)+
qed simp

lemma SLIST_REMOVE_eq:
  assumes "slist m f lnk (xs @ x # ys)" and "x \<notin> set xs"
  shows "SLIST_REMOVE m f lnk x = Inr (write32 m (lastlink f lnk xs) (first0 ys))"
proof (cases xs)
  case Nil
  with assms show ?thesis
    using slist_next [of m f lnk "[]" x ys]
    by (simp add: SLIST_REMOVE_def SLIST_REMOVE_HEAD_def slist_first)
next
  case (Cons y zs)
  have r: "read32 m lnk = y" and "y \<noteq> x"
    using slist_first [OF assms(1)] assms(2) Cons by auto
  have "slist_pred m f x y = Some (Inr (last xs))"
    using slist_pred_finds [of m f lnk "[]" xs x ys] assms Cons by simp
  moreover have "read32 m (last xs + f) = x"
    using slist_next [of m f lnk "butlast xs" "last xs" "x # ys"] assms(1) Cons
      append_butlast_last_id [of xs] by (metis append.assoc append_Cons append_Nil first0_simps(2)
      list.distinct(1))
  moreover have "read32 m (x + f) = first0 ys" using assms(1) by (rule slist_next)
  ultimately show ?thesis
    using r \<open>y \<noteq> x\<close> Cons lastlink_last [of xs f lnk] by (simp add: SLIST_REMOVE_def)
qed

lemma SLIST_REMOVE_slist:
  assumes "slist m f lnk (xs @ x # ys)" and "sep_cells (slcells f lnk (xs @ x # ys))"
  shows "slist (write32 m (lastlink f lnk xs) (first0 ys)) f lnk (xs @ ys)"
  using assms by (cases ys) (auto simp: list_defs mem_simps cong: sseg_cong)

section \<open>Separated nodes\<close>

text \<open>In every use the elements of a list are structures of \<open>k\<close> bytes that do not overlap each
  other or the head; then no two of the list's cells overlap.\<close>

definition sep_nodes :: "nat \<Rightarrow> u32 \<Rightarrow> u32 list \<Rightarrow> bool" where
  "sep_nodes k lnk xs \<longleftrightarrow>
     (\<forall>x \<in> set xs. apart lnk 4 x k) \<and> sorted_wrt (\<lambda>x y. apart x k y k) xs"

lemma sep_nodes_Cons [simp]:
  "sep_nodes k lnk (x # xs) \<longleftrightarrow>
     apart lnk 4 x k \<and> (\<forall>y \<in> set xs. apart x k y k) \<and> sep_nodes k lnk xs"
  by (auto simp: sep_nodes_def)

lemma sep_nodes_Nil [simp]: "sep_nodes k lnk []"
  by (simp add: sep_nodes_def)

lemma set_dlcells: "set (dlcells f lnk xs) = insert lnk (\<Union>x \<in> set xs. {x + f, x + f + 4})"
proof (induction xs arbitrary: lnk)
  case Nil
  then show ?case by (simp add: dlcells_def)
next
  case (Cons x xs)
  have "dlcells f lnk (x # xs) = lnk # (x + f + 4) # dlcells f (x + f) xs" by (simp add: dlcells_def)
  then show ?case using Cons.IH [of "x + f"] by auto
qed

lemma set_slcells: "set (slcells f lnk xs) = insert lnk ((\<lambda>x. x + f) ` set xs)"
proof (induction xs arbitrary: lnk)
  case Nil
  then show ?case by (simp add: slcells_def)
next
  case (Cons x xs)
  have "slcells f lnk (x # xs) = lnk # slcells f (x + f) xs" by (simp add: slcells_def)
  then show ?case using Cons.IH [of "x + f"] by auto
qed

text \<open>Cells of a node and of the other nodes.\<close>

lemma node_cell:
  assumes "apart c 4 x k" and "unat f + 8 \<le> k"
  shows "apart c 4 (x + f) 4" and "apart c 4 (x + f + 4) 4"
proof -
  have u: "unat (f + 4) \<le> unat f + 4" by (simp add: u32_add mod_less_eq_dividend)
  show "apart c 4 (x + f) 4" using apart_sub_right [OF assms(1), of f 4] assms(2) by simp
  show "apart c 4 (x + f + 4) 4"
    using apart_sub_right [OF assms(1), of "f + 4" 4] assms(2) u by (simp add: add.assoc)
qed

lemma node_apart:
  assumes "apart x k y k" and "unat f + 8 \<le> k"
  shows "apart (x + f) 4 y k" and "apart (x + f + 4) 4 y k"
  using node_cell [of y x k f] apart_sub [OF assms(1), of f 4 0 k]
    apart_sub [OF assms(1), of "f + 4" 4 0 k] assms(2)
  by (auto simp: add.assoc u32_add)

lemma sep_nodes_dlcells:
  assumes "sep_nodes k lnk xs" and "unat f + 8 \<le> k"
  shows "sep_cells (dlcells f lnk xs)"
  using assms(1)
proof (induction xs arbitrary: lnk)
  case Nil
  then show ?case by (simp add: dlcells_def)
next
  case (Cons x xs)
  have d: "dlcells f lnk (x # xs) = lnk # (x + f + 4) # dlcells f (x + f) xs"
    by (simp add: dlcells_def)
  have n: "apart (x + f) 4 y k" "apart (x + f + 4) 4 y k" if "y \<in> set xs" for y
    using Cons.prems node_apart [OF _ assms(2)] that by auto
  have "sep_nodes k (x + f) xs" using Cons.prems n by (simp add: sep_nodes_def)
  then have IH: "sep_cells (dlcells f (x + f) xs)" by (rule Cons.IH)
  have x: "apart lnk 4 (x + f) 4" "apart lnk 4 (x + f + 4) 4"
    using Cons.prems node_cell [OF _ assms(2)] by auto
  have "apart lnk 4 c 4" if "c \<in> set (dlcells f (x + f) xs)" for c
    using that x Cons.prems node_cell [OF _ assms(2)]
    by (auto simp: set_dlcells sep_nodes_def)
  moreover have "apart (x + f + 4) 4 c 4" if "c \<in> set (dlcells f (x + f) xs)" for c
  proof -
    have "apart (x + f + 4) 4 (x + f) 4" by (simp add: apart_def)
    then show ?thesis using that n node_cell [OF _ assms(2)] by (auto simp: set_dlcells)
  qed
  ultimately show ?case using IH x by (auto simp: d)
qed

lemma sep_nodes_new:
  assumes "sep_nodes k lnk (n # xs)" and "unat f + 8 \<le> k"
  shows "sep_cells ((n + f) # (n + f + 4) # dlcells f lnk xs)"
proof -
  have "apart (n + f) 4 (n + f + 4) 4" by (simp add: apart_def)
  moreover have "apart (n + f) 4 c 4 \<and> apart (n + f + 4) 4 c 4" if "c \<in> set (dlcells f lnk xs)" for c
    using that assms(1) node_cell [OF _ assms(2)] node_apart [OF _ assms(2)]
    by (auto simp: set_dlcells apart_sym [of _ _ lnk])
  ultimately show ?thesis
    using assms sep_nodes_dlcells [OF _ assms(2), of lnk xs] by auto
qed

lemma sep_nodes_slcells:
  assumes "sep_nodes k lnk xs" and "unat f + 4 \<le> k"
  shows "sep_cells (slcells f lnk xs)"
  using assms(1)
proof (induction xs arbitrary: lnk)
  case Nil
  then show ?case by (simp add: slcells_def)
next
  case (Cons x xs)
  have d: "slcells f lnk (x # xs) = lnk # slcells f (x + f) xs"
    by (simp add: slcells_def)
  have c: "apart c 4 (y + f) 4" if "apart c 4 y k" for c y
    using apart_sub_right [OF that, of f 4] assms(2) by simp
  have n: "apart (x + f) 4 y k" if "y \<in> set xs" for y
    using Cons.prems that apart_sub [of x k y k f 4 0 k] assms(2) by auto
  have "sep_nodes k (x + f) xs" using Cons.prems n by (simp add: sep_nodes_def)
  then have "sep_cells (slcells f (x + f) xs)" by (rule Cons.IH)
  moreover have "apart lnk 4 c 4" if "c \<in> set (slcells f (x + f) xs)" for c
    using that Cons.prems c by (auto simp: set_slcells sep_nodes_def)
  ultimately show ?case by (auto simp: d)
qed

lemma sep_nodes_snew:
  assumes "sep_nodes k lnk (n # xs)" and "unat f + 4 \<le> k"
  shows "sep_cells ((n + f) # slcells f lnk xs)"
proof -
  have c: "apart c 4 (y + f) 4" if "apart c 4 y k" for c y
    using apart_sub_right [OF that, of f 4] assms(2) by simp
  have n: "apart (n + f) 4 y k" if "y \<in> set xs" for y
    using assms(1) that apart_sub [of n k y k f 4 0 k] assms(2) by auto
  have "apart (n + f) 4 a 4" if "a \<in> set (slcells f lnk xs)" for a
    using that assms(1) c n by (auto simp: set_slcells apart_sym [of _ _ lnk])
  then show ?thesis
    using assms sep_nodes_slcells [OF _ assms(2), of lnk xs] by auto
qed

text \<open>The bytes a list's cells occupy: no macro changes anything else.\<close>

definition cellspan :: "u32 list \<Rightarrow> u32 set" where
  "cellspan cs = (\<Union>c \<in> set cs. span c 4)"

lemma LIST_REMOVE_outside:
  assumes "dlist m f lnk (xs @ x # ys)" and "sep_cells (dlcells f lnk (xs @ x # ys))"
  shows "same_outside (cellspan (dlcells f lnk (xs @ x # ys))) m (LIST_REMOVE m f x)"
  using assms
  by (cases ys) (auto simp: list_defs LIST_REMOVE_def cellspan_def mem_simps
      intro!: same_outside_write32_in)

lemma LIST_INSERT_BEFORE_outside:
  assumes "dlist m f lnk (xs @ x # ys)"
    and "sep_cells ((n + f) # (n + f + 4) # dlcells f lnk (xs @ x # ys))"
  shows "same_outside (cellspan ((n + f) # (n + f + 4) # dlcells f lnk (xs @ x # ys))) m
    (LIST_INSERT_BEFORE m f x n)"
  using assms
  by (cases ys) (auto simp: list_defs LIST_INSERT_BEFORE_def cellspan_def mem_simps
      intro!: same_outside_write32_in)

lemma LIST_INSERT_AFTER_outside:
  assumes "dlist m f lnk (xs @ x # ys)"
    and "sep_cells ((n + f) # (n + f + 4) # dlcells f lnk (xs @ x # ys))"
  shows "same_outside (cellspan ((n + f) # (n + f + 4) # dlcells f lnk (xs @ x # ys))) m
    (LIST_INSERT_AFTER m f x n)"
  using assms
  by (cases ys) (auto simp: list_defs LIST_INSERT_AFTER_def cellspan_def mem_simps
      intro!: same_outside_write32_in)

text \<open>A list survives any change of memory that avoids its link cells.\<close>

lemma slist_frame:
  assumes "slist m f lnk xs" and "same_outside S m m'" and "S \<inter> cellspan (slcells f lnk xs) = {}"
  shows "slist m' f lnk xs"
proof -
  have "read32 m' c = read32 m c" if "c \<in> set (slcells f lnk xs)" for c
    using same_outside_read32 [OF assms(2), of c] assms(3) that by (auto simp: cellspan_def)
  then show ?thesis using assms(1) slist_cong [of f lnk xs m' m] by blast
qed

lemma dlist_frame:
  assumes "dlist m f lnk xs" and "same_outside S m m'" and "S \<inter> cellspan (dlcells f lnk xs) = {}"
  shows "dlist m' f lnk xs"
proof -
  have "read32 m' c = read32 m c" if "c \<in> set (dlcells f lnk xs)" for c
    using same_outside_read32 [OF assms(2), of c] assms(3) that by (auto simp: cellspan_def)
  then show ?thesis using assms(1) dlist_cong [of f lnk xs m' m] by blast
qed

text \<open>A memory holds at most one list at a head.\<close>

lemma sseg_unique: "sseg m f lnk xs \<Longrightarrow> sseg m f lnk ys \<Longrightarrow> read32 m (lastlink f lnk xs) = 0 \<Longrightarrow>
    read32 m (lastlink f lnk ys) = 0 \<Longrightarrow> xs = ys"
proof (induction xs arbitrary: lnk ys)
  case Nil
  then show ?case by (cases ys) auto
next
  case (Cons x xs)
  then show ?case by (cases ys) auto
qed

lemma slist_unique: "slist m f lnk xs \<Longrightarrow> slist m f lnk ys \<Longrightarrow> xs = ys"
  unfolding slist_def using sseg_unique by blast

lemma sep_nodes_distinct: "sep_nodes k lnk xs \<Longrightarrow> 0 < k \<Longrightarrow> distinct xs"
proof (induction xs)
  case (Cons x xs)
  have "x \<notin> set xs"
  proof
    assume "x \<in> set xs"
    with Cons.prems have "apart x k x k" by auto
    with Cons.prems(2) show False by (simp add: apart_def)
  qed
  with Cons show ?case by simp
qed simp

end
