(* ===== verification/Allocator.thy ===== *)
theory Allocator
  imports Memory
begin

text \<open>
  The contract of a memory allocator, as the rest of the kernel uses one. An allocator works on
  memory alone; \<open>owns m S\<close> says that in memory \<open>m\<close> its data structures are well formed and that it
  owns the addresses \<open>S\<close> (its free memory and its own head). \<open>mem_source\<close> is interpreted by the
  page allocator (\<open>Page_Alloc\<close>) and by the kernel heap (\<open>Slob\<close>); \<open>page_source\<close> adds page alignment.
\<close>

locale mem_source =
  fixes alloc :: "u32 \<Rightarrow> mem \<Rightarrow> (u32 \<times> mem) res" and owns :: "mem \<Rightarrow> u32 set \<Rightarrow> bool"
    and admits :: "u32 \<Rightarrow> bool" and grant :: "u32 \<Rightarrow> nat"
  assumes alloc_returns:
      "owns m S \<Longrightarrow> admits sz \<Longrightarrow> \<exists>a m' S'. alloc sz m = Inr (a, m') \<and> owns m' S' \<and> S' \<subseteq> S \<and>
         same_outside S m m' \<and>
         (a \<noteq> 0 \<longrightarrow> span a (grant sz) \<subseteq> S \<and> span a (grant sz) \<inter> S' = {})"
    and owns_frame: "owns m S \<Longrightarrow> same_outside T m m' \<Longrightarrow> T \<inter> S = {} \<Longrightarrow> owns m' S"
begin

text \<open>A client that fills a block it was given leaves the allocator as it was.\<close>

lemma alloc_fill:
  assumes "owns m S" and "admits sz" and "alloc sz m = Inr (a, m1)" and "a \<noteq> 0"
    and "same_outside (span a (grant sz)) m1 m2"
  shows "\<exists>S'. owns m2 S' \<and> S' \<subseteq> S \<and> span a (grant sz) \<subseteq> S \<and>
    span a (grant sz) \<inter> S' = {} \<and> same_outside S m m2"
proof -
  from alloc_returns [OF assms(1,2)] assms(3,4) obtain S' where S': "owns m1 S'" "S' \<subseteq> S"
      "same_outside S m m1" "span a (grant sz) \<subseteq> S" "span a (grant sz) \<inter> S' = {}" by auto
  have "owns m2 S'" using owns_frame [OF S'(1) assms(5)] S'(5) by blast
  moreover have "same_outside S m m2"
    using same_outside_trans [OF S'(3) assms(5)] S'(4) by (simp add: Un_absorb2)
  ultimately show ?thesis using S' by blast
qed

text \<open>Blocks handed out one after the other do not overlap.\<close>

lemma two_allocs_disjoint:
  assumes "owns m S" and "admits sz" and "admits sz'"
    and "alloc sz m = Inr (a, m1)" and "alloc sz' m1 = Inr (b, m2)" and "a \<noteq> 0" and "b \<noteq> 0"
  shows "span a (grant sz) \<inter> span b (grant sz') = {}"
proof -
  from alloc_returns [OF assms(1,2)] assms(4,6) obtain S' where
    S': "owns m1 S'" "span a (grant sz) \<inter> S' = {}" by auto
  from alloc_returns [OF S'(1) assms(3)] assms(5,7)
  have "span b (grant sz') \<subseteq> S'" by auto
  with S'(2) show ?thesis by blast
qed

end

text \<open>A source of pages has a stock: as long as it is not empty a page can be had, and an allocation uses up
  at most one unit of it.\<close>

locale page_source = mem_source alloc owns "\<lambda>sz. sz \<noteq> 0" "\<lambda>sz. unat (pg_roundup sz)"
  for alloc :: "u32 \<Rightarrow> mem \<Rightarrow> (u32 \<times> mem) res" and owns :: "mem \<Rightarrow> u32 set \<Rightarrow> bool" +
  fixes stock :: "mem \<Rightarrow> nat"
  assumes alloc_aligned: "owns m S \<Longrightarrow> sz \<noteq> 0 \<Longrightarrow> alloc sz m = Inr (a, m') \<Longrightarrow> aligned 4096 a"
    and stock_alloc: "owns m S \<Longrightarrow> sz \<noteq> 0 \<Longrightarrow> alloc sz m = Inr (a, m') \<Longrightarrow> stock m \<le> Suc (stock m')"
    and stock_page: "owns m S \<Longrightarrow> alloc 0x1000 m = Inr (0, m') \<Longrightarrow> stock m = 0"
    and stock_frame: "owns m S \<Longrightarrow> same_outside T m m' \<Longrightarrow> T \<inter> S = {} \<Longrightarrow> stock m' = stock m"
begin

text \<open>One page, whose bytes an owner of the page may read and write as it likes.\<close>

lemma alloc_page:
  assumes "owns m S"
  obtains a m' S' where "alloc 0x1000 m = Inr (a, m')" and "owns m' S'" and "S' \<subseteq> S"
    and "same_outside S m m'" and "aligned 4096 a"
    and "a \<noteq> 0 \<longrightarrow> span a 4096 \<subseteq> S \<and> span a 4096 \<inter> S' = {}"
    and "stock m \<le> Suc (stock m')" and "a = 0 \<longrightarrow> stock m = 0"
proof -
  have "pg_roundup 0x1000 = 0x1000" by (rule pg_roundup_id) (simp add: aligned_def)
  then show thesis
    using that alloc_returns [OF assms, of "0x1000"] alloc_aligned [OF assms, of "0x1000"]
      stock_alloc [OF assms, of "0x1000"] stock_page [OF assms] by fastforce
qed

end

end
