(* ===== verification/Page_Alloc.thy ===== *)
theory Page_Alloc
  imports Queue_Macros Allocator
begin

text \<open>
  The page allocator of \<^verbatim>\<open>kernel/mem.c\<close>: \<^verbatim>\<open>alloc_pages\<close> and \<^verbatim>\<open>free_pages\<close> over a doubly-linked
  list of free blocks kept inside the free memory itself. The operations are functions of memory
  and of the address of the list head \<^verbatim>\<open>freelist\<close>. \<open>freelist_inv\<close> relates memory to an abstract
  list of blocks; the refinement theorems show that each operation does to that list what
  \<open>alloc_spec\<close> and \<open>ins_free\<close> say, and the interface \<open>page_source\<close> is what the rest of the kernel
  may rely on.
\<close>

section \<open>The operations\<close>

text \<open>\<^verbatim>\<open>struct block\<close>: the size at offset 0, the \<^verbatim>\<open>LIST_ENTRY\<close> at offset 4.\<close>

definition free_pages :: "u32 \<Rightarrow> u32 \<Rightarrow> u32 \<Rightarrow> mem \<Rightarrow> mem res" where
  "free_pages freelist addr sz m =
     (if addr = 0 then Inl AssertFail
      else let n = pg_rounddown addr;
               sz = pg_roundup sz;
               m = memset m n 0x69 sz;
               m = write32 m n sz in
        bindE (ends (foreach_safe m 4 (\<lambda>p tmp. read32 m n \<le> read32 m p \<or> tmp = 0) None
                 (LIST_FIRST m freelist)))
          (\<lambda>(p, tmp).
             if p = 0 then Inr m
             else if read32 m n \<le> read32 m p then Inr (LIST_INSERT_BEFORE m 4 p n)
             else Inr (LIST_INSERT_AFTER m 4 p n)))"

definition alloc_pages :: "u32 \<Rightarrow> u32 \<Rightarrow> mem \<Rightarrow> (u32 \<times> mem) res" where
  "alloc_pages freelist sz m =
     bindE (ends (foreach_find m 4 (\<lambda>p. sz \<le> read32 m p) (LIST_FIRST m freelist))) (\<lambda>p.
       if p = 0 then Inr (0, m)
       else let addr = p;
                sz = pg_roundup sz;
                m = LIST_REMOVE m 4 p in
         if sz < read32 m p
         then bindE (free_pages freelist (p + sz) (read32 m p - sz) m) (\<lambda>m. Inr (addr, m))
         else Inr (addr, m))"

section \<open>The abstract allocator\<close>

text \<open>Blocks are pairs of an address and a size, in list order. \<open>ins_free\<close> is the insertion of
  \<^verbatim>\<open>free_pages\<close>: before the first block that is at least as large, or after the last one; it
  inserts nothing into an empty list, as the loop of the code does.\<close>

type_synonym blocks = "(u32 \<times> u32) list"

fun ins_free :: "u32 \<times> u32 \<Rightarrow> blocks \<Rightarrow> blocks" where
  "ins_free n [] = []"
| "ins_free n [b] = (if snd n \<le> snd b then [n, b] else [b, n])"
| "ins_free n (b # c # bs) =
     (if snd n \<le> snd b then n # b # c # bs else b # ins_free n (c # bs))"

definition alloc_spec :: "u32 \<Rightarrow> blocks \<Rightarrow> u32 \<times> blocks" where
  "alloc_spec sz bs =
     (case find (\<lambda>b. sz \<le> snd b) bs of
        None \<Rightarrow> (0, bs)
      | Some (a, s) \<Rightarrow>
          let rest = remove1 (a, s) bs; r = pg_roundup sz in
          (a, if r < s then ins_free (a + r, s - r) rest else rest))"

section \<open>The invariant\<close>

text \<open>Blocks are whole, page-aligned, non-null, do not wrap around, and overlap neither each other
  nor the list head; memory holds them as a doubly-linked list with their sizes in place. \<open>owned\<close>
  is the memory the allocator may touch.\<close>

definition block_ok :: "u32 \<Rightarrow> u32 \<times> u32 \<Rightarrow> bool" where
  "block_ok fl b \<longleftrightarrow> aligned 4096 (fst b) \<and> aligned 4096 (snd b) \<and> fst b \<noteq> 0 \<and> snd b \<noteq> 0 \<and>
     unat (fst b) + unat (snd b) \<le> 2 ^ 32 \<and> apart fl 4 (fst b) (unat (snd b))"

definition block_apart :: "u32 \<times> u32 \<Rightarrow> u32 \<times> u32 \<Rightarrow> bool" where
  "block_apart b c \<longleftrightarrow> apart (fst b) (unat (snd b)) (fst c) (unat (snd c))"

definition blocks_ok :: "u32 \<Rightarrow> blocks \<Rightarrow> bool" where
  "blocks_ok fl bs \<longleftrightarrow> (\<forall>b \<in> set bs. block_ok fl b) \<and> sorted_wrt block_apart bs"

definition freelist_inv :: "u32 \<Rightarrow> mem \<Rightarrow> blocks \<Rightarrow> bool" where
  "freelist_inv fl m bs \<longleftrightarrow> dlist m 4 fl (map fst bs) \<and> blocks_ok fl bs \<and>
     (\<forall>b \<in> set bs. read32 m (fst b) = snd b)"

definition block_span :: "u32 \<times> u32 \<Rightarrow> u32 set" where
  "block_span b = span (fst b) (unat (snd b))"

definition owned :: "u32 \<Rightarrow> blocks \<Rightarrow> u32 set" where
  "owned fl bs = span fl 4 \<union> (\<Union>b \<in> set bs. block_span b)"

section \<open>Refinement\<close>

lemma block_apart_sym: "block_apart b c \<longleftrightarrow> block_apart c b"
  by (auto simp: block_apart_def apart_sym)

lemma block_size_ge: "block_ok fl b \<Longrightarrow> 4096 \<le> unat (snd b)"
  by (auto simp: block_ok_def aligned_def unat_gt_0 dest!: mod_0_imp_dvd intro: dvd_imp_le)

lemma blocks_ok_Cons [simp]:
  "blocks_ok fl (b # bs) \<longleftrightarrow> block_ok fl b \<and> (\<forall>c \<in> set bs. block_apart b c) \<and> blocks_ok fl bs"
  by (auto simp: blocks_ok_def)

lemma blocks_ok_Nil [simp]: "blocks_ok fl []"
  by (simp add: blocks_ok_def)

lemma blocks_ok_append:
  "blocks_ok fl (bs @ cs) \<longleftrightarrow> blocks_ok fl bs \<and> blocks_ok fl cs \<and>
     (\<forall>b \<in> set bs. \<forall>c \<in> set cs. block_apart b c)"
  by (auto simp: blocks_ok_def sorted_wrt_append)

text \<open>The order of the blocks does not matter.\<close>

lemma blocks_ok_move: "blocks_ok fl (bs @ b # cs) \<longleftrightarrow> blocks_ok fl (b # bs @ cs)"
  by (auto simp: blocks_ok_append block_apart_sym)

lemma blocks_ok_pair:
  "blocks_ok fl bs \<Longrightarrow> b \<in> set bs \<Longrightarrow> c \<in> set bs \<Longrightarrow> b \<noteq> c \<Longrightarrow> block_apart b c"
  by (induction bs) (auto simp: block_apart_sym)

lemma blocks_nodes: "blocks_ok fl bs \<Longrightarrow> sep_nodes 12 fl (map fst bs)"
proof (induction bs)
  case (Cons b bs)
  have ge: "12 \<le> unat (snd c)" if "c \<in> set (b # bs)" for c
    using Cons.prems that block_size_ge [of fl c] by (auto simp: blocks_ok_def)
  have "apart fl 4 (fst b) 12"
    using Cons.prems ge [of b] by (auto simp: block_ok_def intro: apart_mono)
  moreover have "apart (fst b) 12 (fst c) 12" if "c \<in> set bs" for c
    using Cons.prems that ge [of b] ge [of c] by (auto simp: block_apart_def intro: apart_mono)
  ultimately show ?case using Cons by auto
qed simp

lemma cells_owned:
  assumes "blocks_ok fl bs"
  shows "cellspan (dlcells 4 fl (map fst bs)) \<subseteq> owned fl bs"
proof -
  have "span (fst b + 4) 4 \<subseteq> block_span b \<and> span (fst b + 4 + 4) 4 \<subseteq> block_span b" if "b \<in> set bs" for b
    using assms that block_size_ge [of fl b] span_sub [of 4 4 "unat (snd b)" "fst b"]
      span_sub [of 8 4 "unat (snd b)" "fst b"]
    by (auto simp: blocks_ok_def block_span_def add.assoc)
  then show ?thesis by (fastforce simp: cellspan_def set_dlcells owned_def)
qed

lemma size_cell_apart:
  assumes "blocks_ok fl bs" and "b \<in> set bs"
  shows "span (fst b) 4 \<inter> cellspan (dlcells 4 fl (map fst bs)) = {}"
proof -
  have s: "apart (fst b) 4 (fst c) 12 \<or> b = c" if "c \<in> set bs" for c
  proof -
    have "4 \<le> unat (snd b)" "12 \<le> unat (snd c)"
      using assms that block_size_ge [of fl b] block_size_ge [of fl c] by (auto simp: blocks_ok_def)
    then show ?thesis
      using blocks_ok_pair [OF assms that] by (auto simp: block_apart_def intro: apart_mono)
  qed
  have "apart (fst b) 4 k 4" if "k \<in> set (dlcells 4 fl (map fst bs))" for k
  proof -
    have "apart (fst b) 4 fl 4"
      using assms block_size_ge [of fl b]
      by (auto simp: blocks_ok_def block_ok_def apart_sym [of _ _ fl] intro: apart_mono)
    moreover have "apart (fst b) 4 (fst c + 4) 4 \<and> apart (fst b) 4 (fst c + 4 + 4) 4" if "c \<in> set bs" for c
      using s [OF that] node_cell [of "fst b" "fst c" 12 4] by (auto simp: add.assoc) (simp_all add: apart_def)
    ultimately show ?thesis using that by (auto simp: set_dlcells)
  qed
  then show ?thesis by (auto simp: cellspan_def dest: apart_span)
qed

lemma find_pair_ins_free:
  assumes "bs \<noteq> []" and "\<forall>b \<in> set bs. rd (fst b) = snd b \<and> fst b \<noteq> 0"
  shows "\<exists>xs b ys. bs = xs @ b # ys \<and>
     find_pair (\<lambda>p tmp. s \<le> rd p \<or> tmp = 0) (map fst bs) = Some (fst b, first0 (map fst ys)) \<and>
     ins_free (a, s) bs = (if s \<le> snd b then xs @ (a, s) # b # ys else xs @ b # (a, s) # ys)"
  using assms
proof (induction bs rule: induct_list012)
  case (2 b)
  show ?case
    by (rule exI [of _ "[]"], rule exI [of _ b], rule exI [of _ "[]"]) (use 2 in simp)
next
  case (3 b c bs)
  show ?case
  proof (cases "s \<le> snd b")
    case True
    show ?thesis
      by (rule exI [of _ "[]"], rule exI [of _ b], rule exI [of _ "c # bs"]) (use 3 True in simp)
  next
    case False
    have "\<exists>xs d ys. c # bs = xs @ d # ys \<and>
        find_pair (\<lambda>p tmp. s \<le> rd p \<or> tmp = 0) (map fst (c # bs)) = Some (fst d, first0 (map fst ys)) \<and>
        ins_free (a, s) (c # bs) = (if s \<le> snd d then xs @ (a, s) # d # ys else xs @ d # (a, s) # ys)"
      using 3 by simp
    then obtain xs d ys where *: "c # bs = xs @ d # ys"
        "find_pair (\<lambda>p tmp. s \<le> rd p \<or> tmp = 0) (map fst (c # bs)) = Some (fst d, first0 (map fst ys))"
        "ins_free (a, s) (c # bs) = (if s \<le> snd d then xs @ (a, s) # d # ys else xs @ d # (a, s) # ys)"
      by blast
    have "find_pair (\<lambda>p tmp. s \<le> rd p \<or> tmp = 0) (map fst (b # c # bs)) =
        find_pair (\<lambda>p tmp. s \<le> rd p \<or> tmp = 0) (map fst (c # bs))"
      and "ins_free (a, s) (b # c # bs) = b # ins_free (a, s) (c # bs)"
      using False 3 by simp_all
    with * show ?thesis
      by (metis append_Cons)
  qed
qed simp

lemma set_ins_free: "bs \<noteq> [] \<Longrightarrow> set (ins_free n bs) = insert n (set bs)"
  by (induction n bs rule: ins_free.induct) auto

lemma blocks_ok_ins_free: "blocks_ok fl (n # bs) \<Longrightarrow> blocks_ok fl (ins_free n bs)"
proof (induction n bs rule: ins_free.induct)
  case (3 n b c bs)
  then show ?case using set_ins_free [of "c # bs" n] by (auto simp: block_apart_sym)
qed (auto simp: block_apart_sym)

lemma block_span_owned: "block_ok fl b \<Longrightarrow> b \<in> set bs \<Longrightarrow> span (fst b) 4 \<subseteq> owned fl bs"
  using block_size_ge [of fl b] span_mono [of 4 "unat (snd b)" "fst b"]
  by (auto simp: owned_def block_span_def)

lemma freelist_inv_frame:
  assumes inv: "freelist_inv fl m bs" and out: "same_outside S m m'" and d: "S \<inter> owned fl bs = {}"
  shows "freelist_inv fl m' bs"
proof -
  have ok: "blocks_ok fl bs" using inv by (simp add: freelist_inv_def)
  have "span c 4 \<inter> S = {}" if "c \<in> set (dlcells 4 fl (map fst bs))" for c
    using d cells_owned [OF ok] that by (auto simp: cellspan_def)
  then have "dlist m' 4 fl (map fst bs)"
    using inv dlist_cong [of 4 fl "map fst bs" m' m] same_outside_read32 [OF out]
    by (simp add: freelist_inv_def)
  moreover have "read32 m' (fst b) = snd b" if "b \<in> set bs" for b
  proof -
    have "span (fst b) 4 \<inter> S = {}"
      using d block_span_owned [of fl b bs] ok that by (auto simp: blocks_ok_def)
    then show ?thesis using inv that same_outside_read32 [OF out] by (simp add: freelist_inv_def)
  qed
  ultimately show ?thesis using ok by (simp add: freelist_inv_def)
qed

text \<open>The insertion that ends \<^verbatim>\<open>free_pages\<close>, before or after a block of the list.\<close>

lemma free_insert:
  assumes inv: "freelist_inv fl m (xs @ b # ys)" and ok: "blocks_ok fl ((a, s) # xs @ b # ys)"
    and ra: "read32 m a = s"
    and m2: "m2 = (if bf then LIST_INSERT_BEFORE m 4 (fst b) a else LIST_INSERT_AFTER m 4 (fst b) a)"
    and cs: "cs = (if bf then xs @ (a, s) # b # ys else xs @ b # (a, s) # ys)"
  shows "freelist_inv fl m2 cs" and "same_outside (owned fl ((a, s) # xs @ b # ys)) m m2"
proof -
  let ?bs = "xs @ b # ys"
  have a0: "a \<noteq> 0" using ok by (simp add: block_ok_def)
  have d: "dlist m 4 fl (map fst xs @ fst b # map fst ys)" using inv by (simp add: freelist_inv_def)
  have cells: "sep_cells ((a + 4) # (a + 4 + 4) # dlcells 4 fl (map fst xs @ fst b # map fst ys))"
    using sep_nodes_new [of 12 fl a "map fst ?bs" 4] blocks_nodes [OF ok] by simp
  have "dlist m2 4 fl (map fst cs)"
    using LIST_INSERT_BEFORE_dlist [OF d cells a0] LIST_INSERT_AFTER_dlist [OF d cells a0]
    by (simp add: cs m2)
  moreover have out: "same_outside (cellspan (dlcells 4 fl (map fst ((a, s) # ?bs)))) m m2"
    using LIST_INSERT_BEFORE_outside [OF d cells] LIST_INSERT_AFTER_outside [OF d cells]
    by (rule_tac same_outside_mono) (auto simp: m2 cellspan_def set_dlcells)
  then have "\<forall>c \<in> set ((a, s) # ?bs). read32 m2 (fst c) = snd c"
    using same_outside_read32 [OF out] size_cell_apart [OF ok] inv ra
    by (auto simp: freelist_inv_def)
  then have "\<forall>c \<in> set cs. read32 m2 (fst c) = snd c" by (auto simp: cs)
  moreover have "blocks_ok fl cs"
    using ok blocks_ok_move [of fl xs "(a, s)" "b # ys"] blocks_ok_move [of fl "xs @ [b]" "(a, s)" ys]
    by (simp add: cs)
  ultimately show "freelist_inv fl m2 cs" by (simp add: freelist_inv_def)
  show "same_outside (owned fl ((a, s) # xs @ b # ys)) m m2"
    using out cells_owned [OF ok] by (rule same_outside_mono)
qed

lemma free_block_outside: "blocks_ok fl (b # bs) \<Longrightarrow> block_span b \<inter> owned fl bs = {}"
  using apart_span by (fastforce simp: owned_def block_span_def block_apart_def block_ok_def
      apart_sym [of fl])

lemma free_pages_refines:
  assumes inv: "freelist_inv fl m bs" and ok: "blocks_ok fl ((a, s) # bs)"
  shows "\<exists>m'. free_pages fl a s m = Inr m' \<and> freelist_inv fl m' (ins_free (a, s) bs) \<and>
    same_outside (owned fl ((a, s) # bs)) m m'"
proof -
  have al: "pg_rounddown a = a" "pg_roundup s = s" and a0: "a \<noteq> 0"
    using ok by (auto simp: block_ok_def pg_rounddown_id pg_roundup_id)
  define m1 where "m1 = write32 (memset m a 0x69 s) a s"
  have out1: "same_outside (block_span (a, s)) m m1"
    using ok block_size_ge [of fl "(a, s)"] same_outside_memset [of a s m] span_mono [of 4 "unat s" a]
    by (auto simp: m1_def block_span_def intro!: same_outside_write32_in)
  have "block_span (a, s) \<inter> owned fl bs = {}" by (rule free_block_outside [OF ok])
  then have inv1: "freelist_inv fl m1 bs" using freelist_inv_frame inv out1 by blast
  then have d1: "dlist m1 4 fl (map fst bs)" by (simp add: freelist_inv_def)
  have ra: "read32 m1 a = s" by (simp add: m1_def)
  note step = dl.foreach_safe_holds [OF d1, of "\<lambda>p tmp. s \<le> read32 m1 p \<or> tmp = 0" None]
  show ?thesis
  proof (cases "bs = []")
    case True
    have "free_pages fl a s m = Inr m1"
      using step True a0 by (simp add: free_pages_def al Let_def ra LIST_FIRST_def flip: m1_def)
    then show ?thesis
      using True inv1 out1 by (auto simp: owned_def intro: same_outside_mono)
  next
    case False
    have "\<forall>b \<in> set bs. read32 m1 (fst b) = snd b \<and> fst b \<noteq> 0"
      using inv1 ok by (auto simp: freelist_inv_def blocks_ok_def block_ok_def)
    from find_pair_ins_free [OF False this, of s a] obtain xs b ys where
        bs: "bs = xs @ b # ys"
        and fp: "find_pair (\<lambda>p tmp. s \<le> read32 m1 p \<or> tmp = 0) (map fst bs) =
          Some (fst b, first0 (map fst ys))"
        and ins: "ins_free (a, s) bs =
          (if s \<le> snd b then xs @ (a, s) # b # ys else xs @ b # (a, s) # ys)"
      by blast
    define m2 where "m2 = (if s \<le> snd b then LIST_INSERT_BEFORE m1 4 (fst b) a
        else LIST_INSERT_AFTER m1 4 (fst b) a)"
    have "read32 m1 (fst b) = snd b" "fst b \<noteq> 0"
      using inv1 bs by (auto simp: freelist_inv_def blocks_ok_def block_ok_def)
    then have "free_pages fl a s m = Inr m2"
      using a0 fp step by (simp add: free_pages_def al Let_def ra LIST_FIRST_def m2_def flip: m1_def)
    moreover note free_insert [OF inv1 [unfolded bs] ok [unfolded bs] ra m2_def ins [unfolded bs]]
    ultimately show ?thesis
      using same_outside_trans [OF out1, of _ m2]
      by (auto simp: bs owned_def Un_assoc Un_left_commute intro: same_outside_mono)
  qed
qed

lemma find_map_fst:
  "\<forall>b \<in> set bs. rd (fst b) = snd b \<Longrightarrow>
   find (\<lambda>p. sz \<le> rd p) (map fst bs) = map_option fst (find (\<lambda>b. sz \<le> snd b) bs)"
  by (induction bs) auto

lemma find_Some_split:
  "find P bs = Some b \<Longrightarrow> \<exists>xs ys. bs = xs @ b # ys \<and> P b \<and> (\<forall>x \<in> set xs. \<not> P x)"
proof (induction bs)
  case (Cons c bs)
  show ?case
  proof (cases "P c")
    case True
    with Cons.prems show ?thesis by (metis append_Nil empty_iff empty_set find.simps(2) option.inject)
  next
    case False
    with Cons obtain xs ys where "bs = xs @ b # ys" "P b" "\<forall>x \<in> set xs. \<not> P x" by auto
    with False show ?thesis by (intro exI [of _ "c # xs"] exI [of _ ys]) simp
  qed
qed simp

lemma find_SomeE:
  assumes "find P bs = Some b"
  obtains xs ys where "bs = xs @ b # ys" and "b \<notin> set xs" and "P b" and "remove1 b bs = xs @ ys"
proof -
  from find_Some_split [OF assms] obtain xs ys
    where *: "bs = xs @ b # ys" "P b" "\<forall>x \<in> set xs. \<not> P x" by blast
  then have "b \<notin> set xs" by blast
  with * show thesis using that [of xs ys] by (simp add: remove1_append)
qed

lemma split_block:
  assumes ok: "block_ok fl (a, s)" and r: "aligned 4096 r" "r < s"
  shows "block_ok fl (a + r, s - r)"
    and "block_apart (a, s) c \<Longrightarrow> block_ok fl c \<Longrightarrow> block_apart (a + r, s - r) c"
    and "block_span (a, s) = span a (unat r) \<union> block_span (a + r, s - r)"
    and "span a (unat r) \<inter> block_span (a + r, s - r) = {}"
proof -
  have u: "unat (s - r) = unat s - unat r" "unat r < unat s"
    using r(2) by (simp_all add: u32_sub_small word_less_nat_alt word_le_nat_alt)
  have ua: "unat (a + r) = unat a + unat r"
    using ok u(2) by (simp add: block_ok_def u32_add_small)
  have ap: "apart (a + r) (unat (s - r)) b k" if "apart a (unat s) b k" "0 < k" for b k
    using apart_sub [OF that(1), of r "unat (s - r)" 0 k] that(2) u by simp
  have "a + r \<noteq> 0"
    using ok ua by (auto simp: block_ok_def word_unat_eq_iff [where 'a = 32])
  moreover have "s - r \<noteq> 0" using u by (auto simp: word_unat_eq_iff [where 'a = 32])
  ultimately show "block_ok fl (a + r, s - r)"
    using ok r(1) u ua ap [of fl 4]
    by (auto simp: block_ok_def aligned_add aligned_diff apart_sym [of fl])
  show "block_apart (a + r, s - r) c" if "block_apart (a, s) c" "block_ok fl c"
    using that ap [of "fst c" "unat (snd c)"] block_size_ge [OF that(2)] by (simp add: block_apart_def)
  show "block_span (a, s) = span a (unat r) \<union> block_span (a + r, s - r)"
    using span_split [of r "unat s" a] u by (simp add: block_span_def)
  show "span a (unat r) \<inter> block_span (a + r, s - r) = {}"
    using span_split_disjoint [of r "unat s" a] u unat_lt32 [of s] by (simp add: block_span_def)
qed

lemma remove_block:
  assumes inv: "freelist_inv fl m (xs @ b # ys)"
  shows "freelist_inv fl (LIST_REMOVE m 4 (fst b)) (xs @ ys)"
    and "read32 (LIST_REMOVE m 4 (fst b)) (fst b) = snd b"
    and "same_outside (owned fl (xs @ b # ys)) m (LIST_REMOVE m 4 (fst b))"
proof -
  let ?m = "LIST_REMOVE m 4 (fst b)" and ?bs = "xs @ b # ys"
  have ok: "blocks_ok fl ?bs" and d: "dlist m 4 fl (map fst xs @ fst b # map fst ys)"
    and sz: "\<forall>c \<in> set ?bs. read32 m (fst c) = snd c"
    using inv by (auto simp: freelist_inv_def)
  have cells: "sep_cells (dlcells 4 fl (map fst xs @ fst b # map fst ys))"
    using sep_nodes_dlcells [OF blocks_nodes [OF ok], of 4] by simp
  have out: "same_outside (cellspan (dlcells 4 fl (map fst ?bs))) m ?m"
    using LIST_REMOVE_outside [OF d cells] by simp
  have rd: "read32 ?m (fst c) = snd c" if "c \<in> set ?bs" for c
    using same_outside_read32 [OF out size_cell_apart [OF ok that]] sz that by auto
  then show "read32 ?m (fst b) = snd b" by simp
  show "freelist_inv fl ?m (xs @ ys)"
    using LIST_REMOVE_dlist [OF d cells] rd ok by (auto simp: freelist_inv_def blocks_ok_append)
  show "same_outside (owned fl ?bs) m ?m"
    using out cells_owned [OF ok] by (rule same_outside_mono)
qed

lemma alloc_pages_refines:
  assumes inv: "freelist_inv fl m bs" and sz: "sz \<noteq> 0"
  shows "\<exists>m'. alloc_pages fl sz m = Inr (fst (alloc_spec sz bs), m') \<and>
    freelist_inv fl m' (snd (alloc_spec sz bs)) \<and> same_outside (owned fl bs) m m'"
proof (cases "find (\<lambda>b. sz \<le> snd b) bs")
  case None
  then show ?thesis
    using inv dl.foreach_find_holds [of m 4 fl "map fst bs" "\<lambda>p. sz \<le> read32 m p"]
    by (simp add: alloc_pages_def alloc_spec_def LIST_FIRST_def freelist_inv_def find_map_fst)
next
  case (Some b)
  then obtain xs ys where bs: "bs = xs @ b # ys" and le: "sz \<le> snd b" and rem: "remove1 b bs = xs @ ys"
    by (rule find_SomeE)
  have ok: "blocks_ok fl bs" and bok: "block_ok fl b"
    using inv bs by (auto simp: freelist_inv_def blocks_ok_def)
  define m1 where "m1 = LIST_REMOVE m 4 (fst b)"
  define r where "r = pg_roundup sz"
  note rb = remove_block [OF inv [unfolded bs], folded m1_def bs]
  have alloc: "alloc_pages fl sz m = (if r < snd b
      then bindE (free_pages fl (fst b + r) (snd b - r) m1) (\<lambda>m. Inr (fst b, m)) else Inr (fst b, m1))"
    using inv Some bok rb(2) dl.foreach_find_holds [of m 4 fl "map fst bs" "\<lambda>p. sz \<le> read32 m p"]
    by (simp add: alloc_pages_def LIST_FIRST_def freelist_inv_def find_map_fst block_ok_def r_def
        Let_def flip: m1_def)
  have spec: "alloc_spec sz bs =
      (fst b, if r < snd b then ins_free (fst b + r, snd b - r) (xs @ ys) else xs @ ys)"
    using Some rem by (cases b) (simp add: alloc_spec_def r_def Let_def)
  show ?thesis
  proof (cases "r < snd b")
    case False
    then show ?thesis using rb by (simp add: alloc spec)
  next
    case True
    note sp = split_block [of fl "fst b" "snd b" r]
    have "aligned 4096 r" by (simp add: r_def)
    then have "blocks_ok fl ((fst b + r, snd b - r) # xs @ ys)"
      using sp(1,2) True ok bok bs
      by (auto simp: blocks_ok_append blocks_ok_def sorted_wrt_append block_apart_sym [of _ b])
    from free_pages_refines [OF rb(1) this] obtain m2 where
      "free_pages fl (fst b + r) (snd b - r) m1 = Inr m2"
      "freelist_inv fl m2 (ins_free (fst b + r, snd b - r) (xs @ ys))"
      "same_outside (owned fl ((fst b + r, snd b - r) # xs @ ys)) m1 m2" by blast
    moreover have "owned fl ((fst b + r, snd b - r) # xs @ ys) \<subseteq> owned fl bs"
      using sp(3) True bok \<open>aligned 4096 r\<close> by (auto simp: owned_def bs)
    ultimately show ?thesis
      using True same_outside_trans [OF rb(3), of _ m2]
      by (auto simp: alloc spec intro: same_outside_mono)
  qed
qed

section \<open>What the abstract allocator guarantees\<close>

definition free_bytes :: "blocks \<Rightarrow> nat" where
  "free_bytes bs = (\<Sum>b\<leftarrow>bs. unat (snd b))"

lemma free_bytes_simps [simp]: "free_bytes [] = 0" "free_bytes (b # bs) = unat (snd b) + free_bytes bs"
  "free_bytes (bs @ cs) = free_bytes bs + free_bytes cs"
  by (simp_all add: free_bytes_def)

lemma ins_free_nonempty: "bs \<noteq> [] \<Longrightarrow> ins_free n bs \<noteq> []"
  using set_ins_free [of bs n] by force

lemma free_bytes_ins_free: "bs \<noteq> [] \<Longrightarrow> free_bytes (ins_free n bs) = unat (snd n) + free_bytes bs"
  by (induction n bs rule: ins_free.induct) auto

lemma owned_ins_free: "bs \<noteq> [] \<Longrightarrow> owned fl (ins_free n bs) = owned fl bs \<union> block_span n"
  by (auto simp: owned_def set_ins_free)

lemma sorted_ins_free: "sorted (map snd bs) \<Longrightarrow> sorted (map snd (ins_free n bs))"
proof (induction n bs rule: ins_free.induct)
  case (3 n b c bs)
  then show ?case using set_ins_free [of "c # bs" n] by (auto simp: not_le)
qed auto

text \<open>The block a successful allocation takes, and what becomes of the list.\<close>

lemma alloc_spec_cases:
  assumes ok: "blocks_ok fl bs" 
  shows "(\<forall>b \<in> set bs. \<not> sz \<le> snd b) \<and> alloc_spec sz bs = (0, bs) \<or>
    (\<exists>xs b ys. bs = xs @ b # ys \<and> (\<forall>x \<in> set xs. \<not> sz \<le> snd x) \<and> sz \<le> snd b \<and> block_ok fl b \<and>
       pg_roundup sz \<le> snd b \<and>
       alloc_spec sz bs = (fst b, if pg_roundup sz < snd b
          then ins_free (fst b + pg_roundup sz, snd b - pg_roundup sz) (xs @ ys) else xs @ ys))"
proof (cases "find (\<lambda>b. sz \<le> snd b) bs")
  case None
  then have "alloc_spec sz bs = (0, bs)" by (simp add: alloc_spec_def)
  moreover have "\<forall>b \<in> set bs. \<not> sz \<le> snd b" using None by (auto simp: find_None_iff)
  ultimately show ?thesis by blast
next
  case (Some b)
  from find_Some_split [OF this] obtain xs ys
    where *: "bs = xs @ b # ys" "sz \<le> snd b" "\<forall>x \<in> set xs. \<not> sz \<le> snd x" by blast
  then have "remove1 b bs = xs @ ys" by (auto simp: remove1_append)
  moreover have bok: "block_ok fl b" using ok * by (auto simp: blocks_ok_def)
  ultimately have "alloc_spec sz bs = (fst b, if pg_roundup sz < snd b
          then ins_free (fst b + pg_roundup sz, snd b - pg_roundup sz) (xs @ ys) else xs @ ys)"
    using Some by (cases b) (simp add: alloc_spec_def Let_def)
  moreover have "pg_roundup sz \<le> snd b" using bok *(2) by (simp add: block_ok_def pg_roundup_le)
  ultimately show ?thesis using * bok by blast
qed

lemma alloc_spec_region:
  assumes ok: "blocks_ok fl bs" and a: "alloc_spec sz bs = (a, bs')" "a \<noteq> 0"
  shows "aligned 4096 a" and "span a (unat (pg_roundup sz)) \<subseteq> (\<Union>b \<in> set bs. block_span b)"
    and "span a (unat (pg_roundup sz)) \<inter> owned fl bs' = {}" and "owned fl bs' \<subseteq> owned fl bs"
proof -
  let ?r = "pg_roundup sz"
  from alloc_spec_cases [OF ok, of sz] a obtain xs b ys where
      bs: "bs = xs @ b # ys" and bok: "block_ok fl b" and r: "?r \<le> snd b" and ab: "a = fst b"
      and bs': "bs' = (if ?r < snd b then ins_free (a + ?r, snd b - ?r) (xs @ ys) else xs @ ys)"
    by (auto split: if_splits)
  note sp = split_block [of fl a "snd b" ?r]
  have b: "b = (a, snd b)" using ab by simp
  show "aligned 4096 a" using bok ab by (simp add: block_ok_def)
  have sub: "span a (unat ?r) \<subseteq> block_span b"
    using r ab by (auto simp: block_span_def word_le_nat_alt intro!: span_mono)
  then show "span a (unat ?r) \<subseteq> (\<Union>b \<in> set bs. block_span b)" by (auto simp: bs)
  have "block_span b \<inter> owned fl (xs @ ys) = {}"
    using ok bok apart_span
    by (fastforce simp: bs owned_def block_span_def block_apart_def block_ok_def blocks_ok_append
        apart_sym [of fl] apart_sym [of _ _ "fst b"])
  moreover have "owned fl bs' \<subseteq> owned fl (xs @ ys) \<union> (if ?r < snd b then block_span (a + ?r, snd b - ?r) else {})"
    by (cases "xs @ ys = []") (auto simp: bs' owned_ins_free)
  moreover have "owned fl bs = owned fl (xs @ ys) \<union> block_span b"
    by (auto simp: bs owned_def)
  moreover have "?r < snd b \<Longrightarrow> block_span b = span a (unat ?r) \<union> block_span (a + ?r, snd b - ?r)"
    and "?r < snd b \<Longrightarrow> span a (unat ?r) \<inter> block_span (a + ?r, snd b - ?r) = {}"
    using sp(3,4) bok b by auto
  ultimately show "span a (unat ?r) \<inter> owned fl bs' = {}" and "owned fl bs' \<subseteq> owned fl bs"
    using sub by (cases "?r < snd b"; auto)+
qed

section \<open>The interface to the rest of the kernel\<close>

text \<open>The page allocator implements the contract \<open>page_source\<close>.\<close>

definition freelist_owns :: "u32 \<Rightarrow> mem \<Rightarrow> u32 set \<Rightarrow> bool" where
  "freelist_owns fl m S \<longleftrightarrow> (\<exists>bs. freelist_inv fl m bs \<and> S = owned fl bs)"

lemma alloc_pages_facts:
  assumes inv: "freelist_inv fl m bs" and sz: "sz \<noteq> 0"
  obtains a m' bs' where "alloc_pages fl sz m = Inr (a, m')" and "alloc_spec sz bs = (a, bs')"
    and "freelist_inv fl m' bs'" and "same_outside (owned fl bs) m m'"
  using alloc_pages_refines [OF inv sz] that by (metis prod.collapse)

text \<open>Its stock is the number of blocks on the free list: a block serves at least one page.\<close>

definition freelist_stock :: "u32 \<Rightarrow> mem \<Rightarrow> nat" where
  "freelist_stock fl m = (THE n. \<exists>bs. freelist_inv fl m bs \<and> n = length bs)"

lemma freelist_stock_eq:
  assumes "freelist_inv fl m bs"
  shows "freelist_stock fl m = length bs"
  unfolding freelist_stock_def
proof (rule the_equality)
  show "\<exists>bs'. freelist_inv fl m bs' \<and> length bs = length bs'" using assms by blast
  show "n = length bs" if "\<exists>bs. freelist_inv fl m bs \<and> n = length bs" for n
  proof -
    from that obtain bs' where "freelist_inv fl m bs'" "n = length bs'" by blast
    moreover from this assms have "map fst bs' = map fst bs"
      using slist_unique [OF dlist_sseg dlist_sseg] unfolding freelist_inv_def by blast
    ultimately show ?thesis by (metis length_map)
  qed
qed

lemma length_ins_free: "length (ins_free n bs) = (if bs = [] then 0 else Suc (length bs))"
  by (induction n bs rule: ins_free.induct) auto

lemma alloc_spec_stock:
  assumes "blocks_ok fl bs" and "alloc_spec sz bs = (a, bs')"
  shows "length bs \<le> Suc (length bs')" and "a = 0 \<Longrightarrow> sz \<le> 0x1000 \<Longrightarrow> bs = []"
proof -
  show "length bs \<le> Suc (length bs')"
    using alloc_spec_cases [OF assms(1), of sz] assms(2) by (auto simp: length_ins_free split: if_splits)
  show "bs = []" if "a = 0" "sz \<le> 0x1000"
  proof (rule ccontr)
    assume "bs \<noteq> []"
    then have "\<exists>b \<in> set bs. sz \<le> snd b"
      using assms(1) block_size_ge [of fl "hd bs"] that(2) by (cases bs) (auto simp: word_le_nat_alt)
    then show False using alloc_spec_cases [OF assms(1), of sz] assms(2) that(1) by (auto simp: block_ok_def)
  qed
qed

interpretation pages: page_source "alloc_pages fl" "freelist_owns fl" "freelist_stock fl" for fl
proof unfold_locales
  fix m S and sz :: u32
  assume "freelist_owns fl m S" and sz: "sz \<noteq> 0"
  then obtain bs where inv: "freelist_inv fl m bs" and S: "S = owned fl bs"
    by (auto simp: freelist_owns_def)
  from alloc_pages_facts [OF inv sz] obtain a m' bs' where
    *: "alloc_pages fl sz m = Inr (a, m')" "alloc_spec sz bs = (a, bs')"
      "freelist_inv fl m' bs'" "same_outside (owned fl bs) m m'" .
  have ok: "blocks_ok fl bs" using inv by (simp add: freelist_inv_def)
  have "owned fl bs' \<subseteq> owned fl bs"
    using alloc_spec_cases [OF ok, of sz] alloc_spec_region(4) [OF ok *(2)] *(2)
    by (auto simp: block_ok_def)
  moreover have "span a (unat (pg_roundup sz)) \<subseteq> owned fl bs" if "a \<noteq> 0"
    using alloc_spec_region(2) [OF ok *(2) that] by (auto simp: owned_def)
  ultimately show "\<exists>a m' S'. alloc_pages fl sz m = Inr (a, m') \<and> freelist_owns fl m' S' \<and> S' \<subseteq> S \<and>
         same_outside S m m' \<and>
         (a \<noteq> 0 \<longrightarrow> span a (unat (pg_roundup sz)) \<subseteq> S \<and> span a (unat (pg_roundup sz)) \<inter> S' = {})"
    using * S alloc_spec_region(3) [OF ok *(2)] by (auto simp: freelist_owns_def)
next
  fix m S a m' and sz :: u32
  assume "freelist_owns fl m S" and sz: "sz \<noteq> 0" and al: "alloc_pages fl sz m = Inr (a, m')"
  then obtain bs where inv: "freelist_inv fl m bs" by (auto simp: freelist_owns_def)
  from alloc_pages_facts [OF inv sz] al obtain bs' where "alloc_spec sz bs = (a, bs')" by auto
  with inv show "aligned 4096 a"
    using alloc_spec_region(1) [of fl bs sz a bs'] by (cases "a = 0") (auto simp: freelist_inv_def)
next
  fix m S T m'
  assume "freelist_owns fl m S" "same_outside T m m'" "T \<inter> S = {}"
  then show "freelist_owns fl m' S" by (auto simp: freelist_owns_def dest: freelist_inv_frame)
next
  fix m S a m' and sz :: u32
  assume "freelist_owns fl m S" and sz: "sz \<noteq> 0" and al: "alloc_pages fl sz m = Inr (a, m')"
  then obtain bs where inv: "freelist_inv fl m bs" by (auto simp: freelist_owns_def)
  from alloc_pages_facts [OF inv sz] al obtain bs' where "alloc_spec sz bs = (a, bs')" "freelist_inv fl m' bs'" by auto
  with inv show "freelist_stock fl m \<le> Suc (freelist_stock fl m')"
    using alloc_spec_stock(1) [of fl bs sz a bs'] by (simp add: freelist_stock_eq freelist_inv_def)
next
  fix m S m'
  assume "freelist_owns fl m S" and al: "alloc_pages fl 0x1000 m = Inr (0, m')"
  then obtain bs where inv: "freelist_inv fl m bs" by (auto simp: freelist_owns_def)
  from alloc_pages_facts [OF inv, of "0x1000"] al obtain bs' where "alloc_spec 0x1000 bs = (0, bs')" by auto
  with inv have "bs = []" using alloc_spec_stock(2) [of fl bs "0x1000" 0 bs'] by (simp add: freelist_inv_def)
  with freelist_stock_eq [OF inv] show "freelist_stock fl m = 0" by simp
next
  fix m S T m'
  assume "freelist_owns fl m S" "same_outside T m m'" "T \<inter> S = {}"
  then obtain bs where "freelist_inv fl m bs" "freelist_inv fl m' bs" by (auto simp: freelist_owns_def dest: freelist_inv_frame)
  then show "freelist_stock fl m' = freelist_stock fl m" by (simp add: freelist_stock_eq)
qed

lemma alloc_pages_none:
  assumes inv: "freelist_inv fl m bs" and n: "\<forall>b \<in> set bs. \<not> sz \<le> snd b"
  shows "alloc_pages fl sz m = Inr (0, m)"
proof -
  have "find (\<lambda>b. sz \<le> snd b) bs = None" using n by (auto simp: find_None_iff)
  then show ?thesis
    using inv dl.foreach_find_holds [of m 4 fl "map fst bs" "\<lambda>p. sz \<le> read32 m p"]
    by (simp add: alloc_pages_def LIST_FIRST_def freelist_inv_def find_map_fst)
qed

text \<open>The part of a block that an allocation takes is a block too.\<close>

lemma lower_block:
  assumes ok: "block_ok fl (a, s)" and r: "aligned 4096 r" "r \<noteq> 0" "r \<le> s"
  shows "block_ok fl (a, r)" and "block_apart (a, s) c \<Longrightarrow> block_apart (a, r) c"
    and "block_apart (a, r) (a + r, s - r) \<or> r = s"
proof -
  have u: "unat r \<le> unat s" using r(3) by (simp add: word_le_nat_alt)
  then show "block_ok fl (a, r)" using ok r by (auto simp: block_ok_def intro: apart_mono)
  show "block_apart (a, s) c \<Longrightarrow> block_apart (a, r) c"
    using u by (auto simp: block_apart_def intro: apart_mono)
  have "apart a (unat r) (a + r) (unat (s - r))" if "r \<noteq> s"
  proof -
    have "unat r < unat s" using u that by (auto simp: word_unat_eq_iff le_less)
    then show ?thesis
      using r span_split_disjoint [of r "unat s" a] unat_lt32 [of s]
      by (subst apart_iff_span) (auto simp: unat_gt_0 u32_sub_small)
  qed
  then show "block_apart (a, r) (a + r, s - r) \<or> r = s" by (auto simp: block_apart_def)
qed

lemma pg_roundup_nonzero:
  assumes "sz \<noteq> 0" and "sz \<le> s" and "aligned 4096 s"
  shows "pg_roundup sz \<noteq> 0"
proof -
  have "pg_roundup s = s" using assms(3) by (rule pg_roundup_id)
  have "unat s \<le> 0xFFFFF000"
  proof -
    from assms(3) obtain k where k: "unat s = 4096 * k" by (auto simp: aligned_def)
    moreover have "k < 1048576" using k unat_lt32 [of s] by linarith
    ultimately show ?thesis by simp
  qed
  then have "unat sz \<le> unat (pg_roundup sz)"
    using assms(2) by (intro pg_roundup_bounds) (simp add: word_le_nat_alt)
  then show ?thesis using assms(1) by (auto simp: unat_eq_0)
qed

lemma free_pages_roundup: "free_pages fl a sz m = free_pages fl a (pg_roundup sz) m"
  by (simp add: free_pages_def pg_roundup_id)

text \<open>The block an allocation takes is apart from what stays on the list; from a list of one block nothing stays.\<close>

lemma alloc_taken_block:
  assumes ok: "blocks_ok fl bs" and sz: "sz \<noteq> 0" and "\<exists>b \<in> set bs. sz \<le> snd b" and a: "alloc_spec sz bs = (a, bs')"
  shows "blocks_ok fl ((a, pg_roundup sz) # bs')" and "length bs < 2 \<Longrightarrow> bs' = []"
proof -
  let ?r = "pg_roundup sz"
  from alloc_spec_cases [OF ok, of sz] a assms(3) obtain xs s ys where
      bs: "bs = xs @ (a, s) # ys" and bok: "block_ok fl (a, s)" and r: "?r \<le> s" "sz \<le> s"
      and bs': "bs' = (if ?r < s then ins_free (a + ?r, s - ?r) (xs @ ys) else xs @ ys)"
    by auto
  show "length bs < 2 \<Longrightarrow> bs' = []" by (cases xs) (auto simp: bs bs')
  have r0: "?r \<noteq> 0" using pg_roundup_nonzero [OF sz r(2)] bok by (simp add: block_ok_def)
  note lo = lower_block [OF bok _ r0 r(1)] and hi = split_block [OF bok, of ?r]
  have others: "blocks_ok fl (xs @ ys)" "\<And>c. c \<in> set (xs @ ys) \<Longrightarrow> block_apart (a, s) c"
      "\<And>c. c \<in> set (xs @ ys) \<Longrightarrow> block_ok fl c"
    using ok bs by (auto simp: blocks_ok_append block_apart_sym blocks_ok_def sorted_wrt_append)
  have "?r < s \<Longrightarrow> blocks_ok fl ((a + ?r, s - ?r) # xs @ ys)"
    using others hi(1,2) by simp
  then have "blocks_ok fl bs'" using others(1) blocks_ok_ins_free by (simp add: bs')
  moreover have "\<forall>c \<in> set (xs @ ys). block_apart (a, ?r) c" using lo(2) others(2) by simp
  then have "\<forall>c \<in> set bs'. block_apart (a, ?r) c"
    using lo(3) by (cases "xs @ ys = []") (auto simp: bs' set_ins_free)
  ultimately show "blocks_ok fl ((a, ?r) # bs')" using lo(1) by simp
qed

lemma alloc_free_blocks:
  assumes ok: "blocks_ok fl bs" and sz: "sz \<noteq> 0" and len: "2 \<le> length bs" and "\<exists>b \<in> set bs. sz \<le> snd b"
    and a: "alloc_spec sz bs = (a, bs')"
  shows "bs' \<noteq> []" and "blocks_ok fl ((a, pg_roundup sz) # bs')"
    and "free_bytes bs' + unat (pg_roundup sz) = free_bytes bs"
    and "owned fl bs' \<union> block_span (a, pg_roundup sz) = owned fl bs"
proof -
  let ?r = "pg_roundup sz"
  from alloc_spec_cases [OF ok, of sz] a assms(4) obtain xs s ys where
      bs: "bs = xs @ (a, s) # ys" and bok: "block_ok fl (a, s)" and r: "?r \<le> s" "sz \<le> s"
      and bs': "bs' = (if ?r < s then ins_free (a + ?r, s - ?r) (xs @ ys) else xs @ ys)"
    by auto
  have ne: "xs @ ys \<noteq> []" using len bs by (cases xs) auto
  note hi = split_block [OF bok, of ?r]
  show "bs' \<noteq> []" using ne ins_free_nonempty [OF ne] by (auto simp: bs')
  show "blocks_ok fl ((a, ?r) # bs')" by (rule alloc_taken_block(1) [OF ok sz assms(4) a])
  show "free_bytes bs' + unat ?r = free_bytes bs"
    using r(1) by (auto simp: bs' bs free_bytes_ins_free [OF ne] u32_sub_small word_le_nat_alt
        word_less_nat_alt not_less word_unat_eq_iff [of "pg_roundup sz"])
  show "owned fl bs' \<union> block_span (a, ?r) = owned fl bs"
  proof (cases "?r < s")
    case True
    then have "owned fl bs' = owned fl (xs @ ys) \<union> block_span (a + ?r, s - ?r)"
      by (simp add: bs' owned_ins_free [OF ne])
    then show ?thesis using hi(3) True by (auto simp: bs owned_def block_span_def [of "(a, ?r)"])
  next
    case False
    then have "?r = s" using r(1) by simp
    then show ?thesis by (auto simp: bs' bs owned_def)
  qed
qed

section \<open>Properties\<close>

text \<open>A concrete free list: the head at 0x100, a block of one page and one of four.\<close>

definition demo_blocks :: blocks where
  "demo_blocks = [(0x2000, 0x1000), (0x8000, 0x4000)]"

definition demo_freelist :: mem where
  "demo_freelist = write32 (write32 (write32 (write32 (write32 (write32 (write32 (\<lambda>_. 0)
     0x100 0x2000) 0x2000 0x1000) 0x2004 0x8000) 0x2008 0x100) 0x8000 0x4000) 0x8004 0) 0x8008 0x2004"

lemma demo_freelist_inv: "freelist_inv 0x100 demo_freelist demo_blocks"
  by (simp add: freelist_inv_def demo_freelist_def demo_blocks_def dlist_def block_ok_def
      block_apart_def aligned_def mem_simps apart_def)

text \<open>C1: \<^verbatim>\<open>alloc_pages\<close> on a well-formed free list always returns. If some block is
  large enough it returns a page-aligned, non-null address whose rounded-up range was free and is
  no longer owned by the allocator; otherwise it returns NULL and changes nothing. Memory outside
  the allocator's own is untouched and the free list stays well formed.\<close>

theorem alloc_pages_correct:
  assumes "freelist_inv fl m bs" and "sz \<noteq> 0"
  shows "\<exists>a m' bs'. alloc_pages fl sz m = Inr (a, m') \<and> freelist_inv fl m' bs' \<and>
    same_outside (owned fl bs) m m' \<and>
    (if \<exists>b \<in> set bs. sz \<le> snd b
     then a \<noteq> 0 \<and> aligned 4096 a \<and>
       span a (unat (pg_roundup sz)) \<subseteq> (\<Union>b \<in> set bs. block_span b) \<and>
       span a (unat (pg_roundup sz)) \<inter> owned fl bs' = {} \<and> owned fl bs' \<subseteq> owned fl bs
     else a = 0 \<and> m' = m)"
proof (cases "\<exists>b \<in> set bs. sz \<le> snd b")
  case True
  from alloc_pages_facts [OF assms] obtain a m' bs' where
    *: "alloc_pages fl sz m = Inr (a, m')" "alloc_spec sz bs = (a, bs')"
      "freelist_inv fl m' bs'" "same_outside (owned fl bs) m m'" .
  have ok: "blocks_ok fl bs" using assms(1) by (simp add: freelist_inv_def)
  have "a \<noteq> 0"
    using alloc_spec_cases [OF ok, of sz] *(2) True by (auto simp: block_ok_def)
  with * True alloc_spec_region [OF ok *(2)] show ?thesis by auto
next
  case False
  with assms alloc_pages_none [of fl m bs sz] show ?thesis by auto
qed

theorem alloc_pages_correct_witness:
  "freelist_inv 0x100 demo_freelist demo_blocks \<and> (0x1800 :: u32) \<noteq> 0 \<and>
   (\<exists>a m' bs'. alloc_pages 0x100 0x1800 demo_freelist = Inr (a, m') \<and> a \<noteq> 0 \<and>
      freelist_inv 0x100 m' bs' \<and> span a (unat (pg_roundup 0x1800)) \<inter> owned 0x100 bs' = {})"
  using demo_freelist_inv alloc_pages_correct [OF demo_freelist_inv, of "0x1800"]
  by (fastforce simp: demo_blocks_def)

text \<open>C7: on a free list sorted by size, \<^verbatim>\<open>alloc_pages\<close> takes a block of the least
  sufficient size, and the list stays sorted.\<close>

theorem alloc_pages_best_fit:
  assumes "freelist_inv fl m bs" and "sz \<noteq> 0" and "sorted (map snd bs)" and "\<exists>b \<in> set bs. sz \<le> snd b"
  shows "\<exists>a s m' bs'. alloc_pages fl sz m = Inr (a, m') \<and> (a, s) \<in> set bs \<and> sz \<le> s \<and>
    (\<forall>b \<in> set bs. sz \<le> snd b \<longrightarrow> s \<le> snd b) \<and> freelist_inv fl m' bs' \<and> sorted (map snd bs')"
proof -
  from alloc_pages_facts [OF assms(1,2)] obtain a m' bs' where
    *: "alloc_pages fl sz m = Inr (a, m')" "alloc_spec sz bs = (a, bs')" "freelist_inv fl m' bs'" .
  have ok: "blocks_ok fl bs" using assms(1) by (simp add: freelist_inv_def)
  from alloc_spec_cases [OF ok, of sz] *(2) assms(4) obtain xs b ys where
      bs: "bs = xs @ b # ys" and fit: "\<forall>x \<in> set xs. \<not> sz \<le> snd x" "sz \<le> snd b" and ab: "a = fst b"
      and bs': "bs' = (if pg_roundup sz < snd b
        then ins_free (fst b + pg_roundup sz, snd b - pg_roundup sz) (xs @ ys) else xs @ ys)"
    by auto
  have "sorted (map snd (xs @ ys))" using assms(3) by (simp add: bs sorted_append)
  then have "sorted (map snd bs')" by (simp add: bs' sorted_ins_free)
  moreover have "\<forall>c \<in> set bs. sz \<le> snd c \<longrightarrow> snd b \<le> snd c"
    using assms(3) fit by (auto simp: bs sorted_append)
  ultimately show ?thesis using * fit(2) ab bs by (metis in_set_conv_decomp prod.collapse)
qed

theorem alloc_pages_best_fit_witness:
  "sorted (map snd demo_blocks) \<and>
   (\<exists>a s m' bs'. alloc_pages 0x100 0x1000 demo_freelist = Inr (a, m') \<and> (a, s) \<in> set demo_blocks \<and>
      s = 0x1000 \<and> freelist_inv 0x100 m' bs' \<and> sorted (map snd bs'))"
proof -
  have "sorted (map snd demo_blocks)" "\<exists>b \<in> set demo_blocks. (0x1000 :: u32) \<le> snd b"
    by (simp_all add: demo_blocks_def)
  with alloc_pages_best_fit [OF demo_freelist_inv _ this]
  show ?thesis by (auto simp: demo_blocks_def)
qed

text \<open>C4: freeing what was just allocated. When another block is free, allocating takes exactly the rounded-up number of
  bytes from the free list, and freeing the block gives the allocator back exactly the memory it owned before. When
  the block is cut from the only one on the list, both what is left of it and the freed block are lost: the list is empty
  and stays empty.\<close>

theorem alloc_free_roundtrip:
  assumes "freelist_inv fl m bs" and "sz \<noteq> 0" and "\<exists>b \<in> set bs. sz \<le> snd b"
  shows "\<exists>a m1 m2 bs1 bs2. alloc_pages fl sz m = Inr (a, m1) \<and> freelist_inv fl m1 bs1 \<and>
    free_pages fl a sz m1 = Inr m2 \<and> freelist_inv fl m2 bs2 \<and>
    (if 2 \<le> length bs
     then free_bytes bs1 + unat (pg_roundup sz) = free_bytes bs \<and> free_bytes bs2 = free_bytes bs \<and> owned fl bs2 = owned fl bs
     else bs1 = [] \<and> bs2 = [])"
proof -
  from alloc_pages_facts [OF assms(1,2)] obtain a m1 bs1 where
    *: "alloc_pages fl sz m = Inr (a, m1)" "alloc_spec sz bs = (a, bs1)" "freelist_inv fl m1 bs1" .
  have ok: "blocks_ok fl bs" using assms(1) by (simp add: freelist_inv_def)
  note ab = alloc_taken_block [OF ok assms(2,3) *(2)]
  from free_pages_refines [OF *(3) ab(1)] obtain m2 where
    m2: "free_pages fl a sz m1 = Inr m2" "freelist_inv fl m2 (ins_free (a, pg_roundup sz) bs1)"
    by (metis free_pages_roundup)
  show ?thesis
  proof (cases "2 \<le> length bs")
    case True
    note ab = alloc_free_blocks [OF ok assms(2) True assms(3) *(2)]
    have "free_bytes (ins_free (a, pg_roundup sz) bs1) = free_bytes bs"
        "owned fl (ins_free (a, pg_roundup sz) bs1) = owned fl bs"
      using ab(3,4) by (simp_all add: free_bytes_ins_free [OF ab(1)] owned_ins_free [OF ab(1)])
    with True * m2 ab(3) show ?thesis by auto
  next
    case False
    with ab(2) have "bs1 = []" by auto
    with False * m2 show ?thesis by auto
  qed
qed

theorem alloc_free_roundtrip_witness:
  "\<exists>a m1 m2 bs1 bs2. alloc_pages 0x100 0x1800 demo_freelist = Inr (a, m1) \<and>
     free_bytes bs1 = 0x3000 \<and> freelist_inv 0x100 m1 bs1 \<and>
     free_pages 0x100 a 0x1800 m1 = Inr m2 \<and> freelist_inv 0x100 m2 bs2 \<and> free_bytes bs2 = 0x5000"
proof -
  have l: "2 \<le> length demo_blocks" and "\<exists>b \<in> set demo_blocks. (0x1800 :: u32) \<le> snd b"
    by (simp_all add: demo_blocks_def)
  note rt = alloc_free_roundtrip [OF demo_freelist_inv _ this(2)]
  have "pg_roundup 0x1800 = 0x2000" "free_bytes demo_blocks = 0x5000"
    by (simp_all add: pg_roundup_def roundup_def demo_blocks_def)
  with rt l show ?thesis by fastforce
qed

text \<open>C6: \<^verbatim>\<open>free_pages\<close> of a block disjoint from the free list returns, keeps the list well formed and writes only to the list and
  to the block. To a list that is not empty it adds exactly that block, and a list sorted by size stays sorted; to an empty
  list it adds nothing, because it inserts only inside a loop over the list: the block is lost.\<close>

theorem free_pages_correct:
  assumes "freelist_inv fl m bs" and "blocks_ok fl ((a, s) # bs)"
  shows "\<exists>m' bs'. free_pages fl a s m = Inr m' \<and> freelist_inv fl m' bs' \<and>
    (if bs = [] then bs' = []
     else owned fl bs' = owned fl bs \<union> block_span (a, s) \<and> free_bytes bs' = free_bytes bs + unat s) \<and>
    same_outside (owned fl ((a, s) # bs)) m m' \<and>
    (sorted (map snd bs) \<longrightarrow> sorted (map snd bs'))"
proof -
  from free_pages_refines [OF assms] obtain m' where
    "free_pages fl a s m = Inr m'" "freelist_inv fl m' (ins_free (a, s) bs)" "same_outside (owned fl ((a, s) # bs)) m m'" by blast
  then show ?thesis
    using owned_ins_free [of bs fl "(a, s)"] free_bytes_ins_free [of bs "(a, s)"] sorted_ins_free [of bs "(a, s)"]
    by (intro exI [of _ m'] exI [of _ "ins_free (a, s) bs"]) auto
qed

theorem free_pages_correct_witness:
  "blocks_ok 0x100 ((0x4000, 0x2000) # demo_blocks) \<and>
   (\<exists>m' bs'. free_pages 0x100 0x4000 0x2000 demo_freelist = Inr m' \<and>
      freelist_inv 0x100 m' bs' \<and> free_bytes bs' = 0x7000)"
proof -
  have "blocks_ok 0x100 ((0x4000, 0x2000) # demo_blocks)"
    by (simp add: demo_blocks_def block_ok_def block_apart_def aligned_def apart_def)
  moreover have "demo_blocks \<noteq> []" "free_bytes demo_blocks = 0x5000" by (simp_all add: demo_blocks_def)
  ultimately show ?thesis
    using free_pages_correct [OF demo_freelist_inv, of "0x4000" "0x2000"] by fastforce
qed

text \<open>When the free list holds a single block, an allocation of any part of it leaves
  the list empty: the remainder is lost, because \<^verbatim>\<open>free_pages\<close> inserts nothing into an empty list,
  and every later allocation returns NULL.\<close>

theorem alloc_pages_last_block_leaks:
  assumes "freelist_inv fl m [(a, s)]" and "sz \<noteq> 0" and "sz \<le> s"
  shows "\<exists>m'. alloc_pages fl sz m = Inr (a, m') \<and> freelist_inv fl m' [] \<and>
    (\<forall>n. n \<noteq> 0 \<longrightarrow> alloc_pages fl n m' = Inr (0, m'))"
proof -
  from alloc_pages_facts [OF assms(1,2)] obtain a' m' bs' where
    *: "alloc_pages fl sz m = Inr (a', m')" "alloc_spec sz [(a, s)] = (a', bs')" "freelist_inv fl m' bs'" .
  have "a' = a" "bs' = []" using *(2) assms(3) by (auto simp: alloc_spec_def Let_def split: if_splits)
  with * alloc_pages_none [of fl m' "[]"] show ?thesis by auto
qed

theorem alloc_pages_last_block_leaks_witness:
  "\<exists>m m'. freelist_inv 0x100 m [(0x8000, 0x4000)] \<and> alloc_pages 0x100 0x1000 m = Inr (0x8000, m') \<and>
     alloc_pages 0x100 0x1000 m' = Inr (0, m')"
proof -
  define m :: mem where "m = write32 (write32 (write32 (write32 (\<lambda>_. 0)
     0x100 0x8000) 0x8000 0x4000) 0x8004 0) 0x8008 0x100"
  have "freelist_inv 0x100 m [(0x8000, 0x4000)]"
    by (simp add: freelist_inv_def m_def dlist_def block_ok_def aligned_def mem_simps apart_def)
  then show ?thesis
    using alloc_pages_last_block_leaks [of "0x100" m "0x8000" "0x4000" "0x1000"] by fastforce
qed

end
