(* ===== verification/Slob.thy ===== *)
theory Slob
  imports Page_Alloc
begin

text \<open>
  The kernel heap of \<^verbatim>\<open>kernel/mem.c\<close>: \<^verbatim>\<open>kmalloc\<close> and \<^verbatim>\<open>kfree\<close> over a singly-linked list of free
  chunks (\<^verbatim>\<open>struct sblock\<close>: the size at offset 0, the \<^verbatim>\<open>SLIST_ENTRY\<close> at offset 4), with a
  16-bit size tag in front of every allocated chunk. \<open>heap_inv\<close> relates memory to a list of
  address-size pairs, \<open>take_chunk\<close> and \<open>free_spec\<close> say what the operations do to that list
  (the latter including the two ways in which \<^verbatim>\<open>kfree\<close> goes wrong), and the heap implements the
  allocator contract \<open>mem_source\<close>.
\<close>

section \<open>The operations\<close>

text \<open>\<^verbatim>\<open>kfree\<close> reads the local variable \<^verbatim>\<open>tmp\<close> before anything was stored in it when the freed
  chunk ends where the first free chunk begins, and dereferences \<^verbatim>\<open>n\<close> when the loop ran off the end
  of the list; both are error values here. \<open>foreach_safe\<close> returns \<open>None\<close> for a \<^verbatim>\<open>tmp\<close> that the loop
  never assigned.\<close>

definition kmalloc :: "u32 \<Rightarrow> u32 \<Rightarrow> mem \<Rightarrow> (u32 \<times> mem) res" where
  "kmalloc heap sz m =
     (let sz = sz + 2;
          sz = roundup sz 8 in
      if \<not> sz < 0x1000 then Inl AssertFail
      else bindE (ends (foreach_find m 4 (\<lambda>p. sz \<le> read32 m p) (SLIST_FIRST m heap))) (\<lambda>p.
        if p = 0 then Inr (0, m)
        else let m = (if sz < read32 m p
                      then let s = p + sz;
                               m = write32 m s (read32 m p - sz) in
                           SLIST_INSERT_AFTER m 4 p s
                      else m) in
          bindE (SLIST_REMOVE m 4 heap p) (\<lambda>m.
            let hdr = p;
                m = write16 m hdr (ucast sz) in
            Inr (hdr + 2, m))))"

definition kfree :: "u32 \<Rightarrow> u32 \<Rightarrow> mem \<Rightarrow> mem res" where
  "kfree heap a m =
     (let p = a - 2;
          m = write32 m p (ucast (read16 m p));
          n = SLIST_FIRST m heap in
      if p < n
      then if p + read32 m p = n
           then bindE (SLIST_REMOVE m 4 heap n) (\<lambda>m. Inl UninitRead)
           else Inr (SLIST_INSERT_HEAD m 4 heap p)
      else bindE (ends (foreach_safe m 4 (\<lambda>n tmp. n < p \<and> p < tmp) None n)) (\<lambda>(n, tmp).
        if n = 0 then Inl NullDeref
        else let (p, m) = (if n + read32 m n = p
                           then (n, write32 m n (read32 m n + read32 m p))
                           else (p, SLIST_INSERT_AFTER m 4 n p)) in
          case tmp of
            None \<Rightarrow> Inl UninitRead
          | Some tmp \<Rightarrow>
              if p + read32 m p = tmp
              then bindE (SLIST_REMOVE m 4 heap tmp) (\<lambda>m.
                Inr (write32 m p (read32 m p + read32 m tmp)))
              else Inr m))"

section \<open>The abstract heap\<close>

text \<open>First fit: the first chunk that is large enough is cut, its upper part stays in its place.\<close>

fun take_chunk :: "u32 \<Rightarrow> blocks \<Rightarrow> u32 \<times> blocks" where
  "take_chunk r [] = (0, [])"
| "take_chunk r ((a, s) # hs) =
     (if r \<le> s then (a, if r < s then (a + r, s - r) # hs else hs)
      else (let (x, hs') = take_chunk r hs in (x, (a, s) # hs')))"

definition chunk_ok :: "u32 \<Rightarrow> u32 \<times> u32 \<Rightarrow> bool" where
  "chunk_ok hp b \<longleftrightarrow> aligned 8 (fst b) \<and> aligned 8 (snd b) \<and> fst b \<noteq> 0 \<and> snd b \<noteq> 0 \<and>
     unat (fst b) + unat (snd b) \<le> 2 ^ 32 \<and> apart hp 4 (fst b) (unat (snd b))"

definition chunks_ok :: "u32 \<Rightarrow> blocks \<Rightarrow> bool" where
  "chunks_ok hp hs \<longleftrightarrow> (\<forall>b \<in> set hs. chunk_ok hp b) \<and> sorted_wrt block_apart hs"

definition heap_inv :: "u32 \<Rightarrow> mem \<Rightarrow> blocks \<Rightarrow> bool" where
  "heap_inv hp m hs \<longleftrightarrow> slist m 4 hp (map fst hs) \<and> chunks_ok hp hs \<and>
     (\<forall>b \<in> set hs. read32 m (fst b) = snd b)"

section \<open>Allocation refines the abstract heap\<close>

lemma chunk_size_ge: "chunk_ok hp b \<Longrightarrow> 8 \<le> unat (snd b)"
  by (auto simp: chunk_ok_def aligned_def unat_gt_0 dest!: mod_0_imp_dvd intro: dvd_imp_le)

lemma chunks_ok_append:
  "chunks_ok hp (bs @ cs) \<longleftrightarrow> chunks_ok hp bs \<and> chunks_ok hp cs \<and>
     (\<forall>b \<in> set bs. \<forall>c \<in> set cs. block_apart b c)"
  by (auto simp: chunks_ok_def sorted_wrt_append)

lemma chunks_ok_Cons [simp]:
  "chunks_ok hp (b # bs) \<longleftrightarrow> chunk_ok hp b \<and> (\<forall>c \<in> set bs. block_apart b c) \<and> chunks_ok hp bs"
  by (auto simp: chunks_ok_def)

lemma chunks_ok_Nil [simp]: "chunks_ok hp []"
  by (simp add: chunks_ok_def)

lemma chunks_ok_pair:
  "chunks_ok hp bs \<Longrightarrow> b \<in> set bs \<Longrightarrow> c \<in> set bs \<Longrightarrow> b \<noteq> c \<Longrightarrow> block_apart b c"
  by (induction bs) (auto simp: block_apart_sym)

lemma chunks_nodes: "chunks_ok hp bs \<Longrightarrow> sep_nodes 8 hp (map fst bs)"
proof (induction bs)
  case (Cons b bs)
  have ge: "8 \<le> unat (snd c)" if "c \<in> set (b # bs)" for c
    using Cons.prems that chunk_size_ge [of hp c] by (auto simp: chunks_ok_def)
  have "apart hp 4 (fst b) 8"
    using Cons.prems ge [of b] by (auto simp: chunk_ok_def intro: apart_mono)
  moreover have "apart (fst b) 8 (fst c) 8" if "c \<in> set bs" for c
    using Cons.prems that ge [of b] ge [of c] by (auto simp: block_apart_def intro: apart_mono)
  ultimately show ?case using Cons by auto
qed simp

lemma slcells_owned:
  assumes "chunks_ok hp bs"
  shows "cellspan (slcells 4 hp (map fst bs)) \<subseteq> owned hp bs"
proof -
  have "span (fst b + 4) 4 \<subseteq> block_span b" if "b \<in> set bs" for b
    using assms that chunk_size_ge [of hp b] span_sub [of 4 4 "unat (snd b)" "fst b"]
    by (auto simp: chunks_ok_def block_span_def)
  then show ?thesis by (fastforce simp: cellspan_def set_slcells owned_def)
qed

lemma chunk_cell_apart:
  assumes "chunks_ok hp bs" and "b \<in> set bs"
  shows "span (fst b) 4 \<inter> cellspan (slcells 4 hp (map fst bs)) = {}"
proof -
  have ge: "8 \<le> unat (snd c)" if "c \<in> set bs" for c
    using assms(1) that chunk_size_ge [of hp c] by (auto simp: chunks_ok_def)
  have "apart (fst b) 4 hp 4"
    using assms ge [OF assms(2)]
    by (auto simp: chunks_ok_def chunk_ok_def apart_sym [of _ _ hp] intro: apart_mono)
  moreover have "apart (fst b) 4 (fst c + 4) 4" if "c \<in> set bs" for c
  proof (cases "b = c")
    case True
    then show ?thesis by (simp add: apart_def)
  next
    case False
    then show ?thesis
      using chunks_ok_pair [OF assms that] ge [OF that] ge [OF assms(2)]
        apart_sub [of "fst b" "unat (snd b)" "fst c" "unat (snd c)" 0 4 4 4]
      by (simp add: block_apart_def)
  qed
  ultimately have "apart (fst b) 4 k 4" if "k \<in> set (slcells 4 hp (map fst bs))" for k
    using that by (auto simp: set_slcells)
  then show ?thesis by (auto simp: cellspan_def dest: apart_span)
qed

lemma chunk_head_owned: "chunk_ok hp b \<Longrightarrow> b \<in> set bs \<Longrightarrow> span (fst b) 4 \<subseteq> owned hp bs"
  using chunk_size_ge [of hp b] span_mono [of 4 "unat (snd b)" "fst b"]
  by (auto simp: owned_def block_span_def)

lemma heap_inv_frame:
  assumes inv: "heap_inv hp m bs" and out: "same_outside S m m'" and d: "S \<inter> owned hp bs = {}"
  shows "heap_inv hp m' bs"
proof -
  have ok: "chunks_ok hp bs" using inv by (simp add: heap_inv_def)
  have "span c 4 \<inter> S = {}" if "c \<in> set (slcells 4 hp (map fst bs))" for c
    using d slcells_owned [OF ok] that by (auto simp: cellspan_def)
  then have "slist m' 4 hp (map fst bs)"
    using inv slist_cong [of 4 hp "map fst bs" m' m] same_outside_read32 [OF out]
    by (simp add: heap_inv_def)
  moreover have "read32 m' (fst b) = snd b" if "b \<in> set bs" for b
  proof -
    have "span (fst b) 4 \<inter> S = {}"
      using d chunk_head_owned [of hp b bs] ok that by (auto simp: chunks_ok_def)
    then show ?thesis using inv that same_outside_read32 [OF out] by (simp add: heap_inv_def)
  qed
  ultimately show ?thesis using ok by (simp add: heap_inv_def)
qed

lemma remove_chunk:
  assumes sl: "slist m 4 hp (map fst (xs @ b # ys))" and ok: "chunks_ok hp (xs @ b # ys)"
    and sz: "\<forall>c \<in> set (xs @ ys). read32 m (fst c) = snd c"
  shows "\<exists>m'. SLIST_REMOVE m 4 hp (fst b) = Inr m' \<and> heap_inv hp m' (xs @ ys) \<and>
    same_outside (cellspan (slcells 4 hp (map fst (xs @ b # ys)))) m m'"
proof -
  let ?m = "write32 m (lastlink 4 hp (map fst xs)) (first0 (map fst ys))"
  let ?cells = "slcells 4 hp (map fst xs @ fst b # map fst ys)"
  have sn: "sep_nodes 8 hp (map fst xs @ fst b # map fst ys)" using chunks_nodes [OF ok] by simp
  have cells: "sep_cells ?cells" using sep_nodes_slcells [OF sn] by simp
  have "fst b \<notin> set (map fst xs)" using sep_nodes_distinct [OF sn] by simp
  with sl have "SLIST_REMOVE m 4 hp (fst b) = Inr ?m"
    using SLIST_REMOVE_eq [of m 4 hp "map fst xs" "fst b" "map fst ys"] by simp
  moreover have "slist ?m 4 hp (map fst (xs @ ys))"
    using SLIST_REMOVE_slist [of m 4 hp "map fst xs" "fst b" "map fst ys"] sl cells by simp
  moreover have out: "same_outside (cellspan ?cells) m ?m"
    by (rule same_outside_write32_in) (auto simp: cellspan_def slcells_def)
  moreover have "read32 ?m (fst c) = snd c" if "c \<in> set (xs @ ys)" for c
    using same_outside_read32 [OF out, of "fst c"] chunk_cell_apart [OF ok, of c] sz that by auto
  moreover have "chunks_ok hp (xs @ ys)" using ok by (auto simp: chunks_ok_append)
  ultimately show ?thesis by (auto simp: heap_inv_def)
qed

lemma split_chunk:
  assumes ok: "chunk_ok hp (a, s)" and r: "aligned 8 r" "r \<noteq> 0" "r < s"
  shows "chunk_ok hp (a, r)" and "chunk_ok hp (a + r, s - r)" and "block_apart (a, r) (a + r, s - r)"
    and "block_apart (a, s) c \<Longrightarrow> chunk_ok hp c \<Longrightarrow> block_apart (a, r) c \<and> block_apart (a + r, s - r) c"
    and "block_span (a, s) = block_span (a, r) \<union> block_span (a + r, s - r)"
proof -
  have u: "unat (s - r) = unat s - unat r" "unat r < unat s"
    using r(3) by (simp_all add: u32_sub_small word_less_nat_alt word_le_nat_alt)
  have ua: "unat (a + r) = unat a + unat r"
    using ok u(2) by (simp add: chunk_ok_def u32_add_small)
  have ap: "apart a (unat r) b k \<and> apart (a + r) (unat (s - r)) b k" if "apart a (unat s) b k" "0 < k" for b k
    using apart_sub [OF that(1), of r "unat (s - r)" 0 k] apart_mono [OF that(1), of "unat r" k] that(2) u
    by simp
  show "chunk_ok hp (a, r)" using ok r u by (auto simp: chunk_ok_def intro: apart_mono)
  have "a + r \<noteq> 0"
    using ok ua by (auto simp: chunk_ok_def word_unat_eq_iff [where 'a = 32])
  moreover have "s - r \<noteq> 0" using u by (auto simp: word_unat_eq_iff [where 'a = 32])
  ultimately show "chunk_ok hp (a + r, s - r)"
    using ok r(1) u ua ap [of hp 4]
    by (auto simp: chunk_ok_def aligned_add aligned_diff apart_sym [of hp])
  show "block_apart (a, r) (a + r, s - r)"
    using u r(2) span_split_disjoint [of r "unat s" a] unat_lt32 [of s]
    by (simp add: block_apart_def apart_iff_span unat_gt_0 del: apart_shift)
  show "block_apart (a, r) c \<and> block_apart (a + r, s - r) c" if "block_apart (a, s) c" "chunk_ok hp c"
    using that ap [of "fst c" "unat (snd c)"] chunk_size_ge [OF that(2)] by (simp add: block_apart_def)
  show "block_span (a, s) = block_span (a, r) \<union> block_span (a + r, s - r)"
    using span_split [of r "unat s" a] u by (simp add: block_span_def)
qed

lemma chunks_ok_move: "chunks_ok fl (bs @ b # cs) \<longleftrightarrow> chunks_ok fl (b # bs @ cs)"
  by (auto simp: chunks_ok_append block_apart_sym)

lemma link_after:
  assumes sl: "slist m0 4 hp (map fst (xs @ (a, r) # ys))" and new: "chunks_ok hp (xs @ (a, r) # n # ys)"
    and m1: "m1 = SLIST_INSERT_AFTER m0 4 a (fst n)"
  shows "slist m1 4 hp (map fst (xs @ (a, r) # n # ys))"
    and "c \<in> set (xs @ (a, r) # n # ys) \<Longrightarrow> read32 m1 (fst c) = read32 m0 (fst c)"
    and "same_outside (owned hp (xs @ (a, r) # n # ys)) m0 m1"
proof -
  let ?new = "xs @ (a, r) # n # ys"
  have "sep_nodes 8 hp (fst n # map fst xs @ a # map fst ys)"
    using chunks_nodes [of hp "n # (xs @ [(a, r)]) @ ys"] new chunks_ok_move [of hp "xs @ [(a, r)]" n ys]
    by simp
  then have "sep_cells ((fst n + 4) # slcells 4 hp (map fst xs @ a # map fst ys))"
    by (rule sep_nodes_snew) simp
  moreover have "fst n \<noteq> 0" using new by (auto simp: chunks_ok_def chunk_ok_def)
  ultimately show "slist m1 4 hp (map fst ?new)"
    using SLIST_INSERT_AFTER_slist [of m0 4 hp "map fst xs" a "map fst ys" "fst n"] sl by (simp add: m1)
  have out: "same_outside (cellspan (slcells 4 hp (map fst ?new))) m0 m1"
    unfolding m1 SLIST_INSERT_AFTER_def Let_def
    by (intro same_outside_write32_in same_outside_refl) (auto simp: cellspan_def set_slcells)
  then show "same_outside (owned hp ?new) m0 m1" by (rule same_outside_mono [OF _ slcells_owned [OF new]])
  show "read32 m1 (fst c) = read32 m0 (fst c)" if "c \<in> set ?new"
    using same_outside_read32 [OF out chunk_cell_apart [OF new that]] .
qed

lemma insert_chunk:
  assumes inv: "heap_inv hp m (xs @ (a, s) # ys)" and r: "aligned 8 r" "r \<noteq> 0" "r < s"
    and m1: "m1 = SLIST_INSERT_AFTER (write32 m (a + r) (s - r)) 4 a (a + r)"
  shows "slist m1 4 hp (map fst (xs @ (a, r) # (a + r, s - r) # ys))"
    and "chunks_ok hp (xs @ (a, r) # (a + r, s - r) # ys)"
    and "\<forall>c \<in> set (xs @ (a + r, s - r) # ys). read32 m1 (fst c) = snd c"
    and "same_outside (owned hp (xs @ (a, s) # ys)) m m1"
proof -
  let ?n = "(a + r, s - r)" and ?m0 = "write32 m (a + r) (s - r)"
  let ?new = "xs @ (a, r) # ?n # ys" and ?cells = "slcells 4 hp (map fst xs @ a # map fst ys)"
  have ok: "chunks_ok hp (xs @ (a, s) # ys)" and aok: "chunk_ok hp (a, s)"
    and sl: "slist m 4 hp (map fst xs @ a # map fst ys)"
    using inv by (auto simp: heap_inv_def chunks_ok_append)
  note sp = split_chunk [OF aok r]
  show new: "chunks_ok hp ?new"
    using ok sp(1-3) sp(4) by (auto simp: chunks_ok_append chunks_ok_def sorted_wrt_append block_apart_sym)
  have sub: "set ?cells \<subseteq> set (slcells 4 hp (map fst ?new))" by (auto simp: set_slcells)
  have n0: "span (a + r) 4 \<inter> cellspan (slcells 4 hp (map fst ?new)) = {}"
    using chunk_cell_apart [OF new, of ?n] by simp
  have "span (a + r) 4 \<inter> cellspan ?cells = {}" using n0 sub by (auto simp: cellspan_def)
  then have "slist ?m0 4 hp (map fst (xs @ (a, r) # ys))"
    using slist_frame [OF sl same_outside_write32] by simp
  moreover have "m1 = SLIST_INSERT_AFTER ?m0 4 a (fst ?n)" by (simp add: m1)
  ultimately have "slist m1 4 hp (map fst ?new) \<and> (\<forall>c \<in> set ?new. read32 m1 (fst c) = read32 ?m0 (fst c)) \<and>
      same_outside (owned hp ?new) ?m0 m1"
    using link_after [OF _ new] by blast
  then have link: "slist m1 4 hp (map fst ?new)" "\<forall>c \<in> set ?new. read32 m1 (fst c) = read32 ?m0 (fst c)"
      "same_outside (owned hp ?new) ?m0 m1" by blast+
  show "slist m1 4 hp (map fst ?new)" by (rule link(1))
  have "read32 ?m0 (fst c) = snd c" if "c \<in> set (xs @ ys)" for c
  proof -
    have c: "chunk_ok hp c" "block_apart ?n c"
      using new that by (auto simp: chunks_ok_append chunks_ok_def sorted_wrt_append block_apart_sym)
    then have "apart (a + r) 4 (fst c) 4"
      using chunk_size_ge [OF sp(2)] chunk_size_ge [OF c(1)] by (auto simp: block_apart_def intro: apart_mono)
    then show ?thesis using inv that by (auto simp: heap_inv_def mem_simps)
  qed
  then show "\<forall>c \<in> set (xs @ ?n # ys). read32 m1 (fst c) = snd c" using link(2) by auto
  have own: "owned hp ?new = owned hp (xs @ (a, s) # ys)" using sp(5) by (auto simp: owned_def)
  have "same_outside (span (a + r) 4 \<union> owned hp ?new) m m1"
    using same_outside_trans [OF same_outside_write32 link(3)] .
  then show "same_outside (owned hp (xs @ (a, s) # ys)) m m1"
    using chunk_head_owned [OF sp(2), of ?new] own by (simp add: Un_absorb1)
qed

text \<open>The size of the chunk that holds \<open>sz\<close> bytes and the tag.\<close>

definition chunk_size :: "u32 \<Rightarrow> u32" where
  "chunk_size sz = roundup (sz + 2) 8"

lemma chunk_size_facts:
  assumes "sz \<le> 0xFF6"
  shows "aligned 8 (chunk_size sz)" and "unat sz + 2 \<le> unat (chunk_size sz)"
    and "chunk_size sz < 0x1000" and "chunk_size sz \<noteq> 0"
proof -
  have sz: "unat sz \<le> 0xFF6" using assms by (simp add: word_le_nat_alt)
  then have s2: "unat (sz + 2) = unat sz + 2" by (simp add: u32_add_small)
  show al: "aligned 8 (chunk_size sz)"
    using aligned_roundup [of 8 "sz + 2"] by (simp add: chunk_size_def)
  have "unat (chunk_size sz) = unat (sz + 2) +
      (if unat (sz + 2) mod 8 = 0 then 0 else 8 - unat (sz + 2) mod 8)"
    using unat_roundup [of 8 "sz + 2"] sz s2 by (simp add: chunk_size_def)
  then have u: "unat sz + 2 \<le> unat (chunk_size sz)" "unat (chunk_size sz) < unat sz + 10"
    using s2 by (auto split: if_splits)
  then show "unat sz + 2 \<le> unat (chunk_size sz)" and "chunk_size sz \<noteq> 0"
    by (auto simp: unat_eq_0 [symmetric] simp del: unat_eq_0)
  obtain k where k: "unat (chunk_size sz) = 8 * k" using al by (auto simp: aligned_def)
  then have "8 * k < 0x1000" using u sz by linarith
  then show "chunk_size sz < 0x1000" using k by (simp add: word_less_nat_alt)
qed

lemma take_chunk_split:
  "\<forall>x \<in> set xs. \<not> r \<le> snd x \<Longrightarrow> r \<le> s \<Longrightarrow>
   take_chunk r (xs @ (a, s) # ys) = (a, xs @ (if r < s then (a + r, s - r) # ys else ys))"
  by (induction xs) (auto split: prod.splits)

lemma take_chunk_none: "\<forall>x \<in> set hs. \<not> r \<le> snd x \<Longrightarrow> take_chunk r hs = (0, hs)"
  by (induction r hs rule: take_chunk.induct) auto

lemma kmalloc_find:
  assumes "heap_inv hp m hs" and "sz \<le> 0xFF6"
  shows "kmalloc hp sz m = (case find (\<lambda>b. chunk_size sz \<le> snd b) hs of
      None \<Rightarrow> Inr (0, m)
    | Some b \<Rightarrow> bindE (SLIST_REMOVE (if chunk_size sz < snd b
          then SLIST_INSERT_AFTER (write32 m (fst b + chunk_size sz) (snd b - chunk_size sz)) 4
            (fst b) (fst b + chunk_size sz)
          else m) 4 hp (fst b)) (\<lambda>m. Inr (fst b + 2, write16 m (fst b) (ucast (chunk_size sz)))))"
proof -
  have rd: "\<forall>b \<in> set hs. read32 m (fst b) = snd b" and sl: "slist m 4 hp (map fst hs)"
    and nn: "\<forall>b \<in> set hs. fst b \<noteq> 0"
    using assms(1) by (auto simp: heap_inv_def chunks_ok_def chunk_ok_def)
  have "find (\<lambda>b. chunk_size sz \<le> snd b) hs = Some b \<Longrightarrow> b \<in> set hs" for b
    by (metis find_Some_iff nth_mem)
  then show ?thesis
    using sl.foreach_find_holds [OF sl, of "\<lambda>p. chunk_size sz \<le> read32 m p"]
      chunk_size_facts(3) [OF assms(2)] rd nn
    by (auto simp: kmalloc_def Let_def SLIST_FIRST_def find_map_fst [OF rd] simp flip: chunk_size_def
        split: option.splits)
qed

lemma kmalloc_finish:
  assumes sl: "slist m1 4 hp (map fst (xs @ (a, r) # ys))" and ok: "chunks_ok hp (xs @ (a, r) # ys)"
    and sz: "\<forall>c \<in> set (xs @ ys). read32 m1 (fst c) = snd c"
  shows "\<exists>m'. SLIST_REMOVE m1 4 hp a = Inr m' \<and> heap_inv hp (write16 m' a w) (xs @ ys) \<and>
    same_outside (owned hp (xs @ (a, r) # ys)) m1 (write16 m' a w)"
proof -
  obtain m' where m': "SLIST_REMOVE m1 4 hp a = Inr m'" "heap_inv hp m' (xs @ ys)"
    "same_outside (cellspan (slcells 4 hp (map fst (xs @ (a, r) # ys)))) m1 m'"
    using remove_chunk [OF sl ok sz] by auto
  have a: "chunk_ok hp (a, r)" using ok by (auto simp: chunks_ok_def)
  have sub: "span a 2 \<subseteq> block_span (a, r)"
    using chunk_size_ge [OF a] span_mono [of 2 "unat r" a] by (simp add: block_span_def)
  have "block_span (a, r) \<inter> owned hp (xs @ ys) = {}"
  proof -
    have "block_apart (a, r) c" if "c \<in> set (xs @ ys)" for c
      using ok that chunks_ok_move [of hp xs "(a, r)" ys] by auto
    moreover have "apart a (unat r) hp 4" using a by (simp add: chunk_ok_def apart_sym)
    ultimately show ?thesis
      by (fastforce simp: owned_def block_span_def block_apart_def dest!: apart_span)
  qed
  then have "heap_inv hp (write16 m' a w) (xs @ ys)"
    using heap_inv_frame [OF m'(2) same_outside_write16 [of a m' w]] sub by blast
  moreover have "same_outside (owned hp (xs @ (a, r) # ys)) m1 (write16 m' a w)"
  proof (rule same_outside_mono [OF same_outside_trans [OF m'(3) same_outside_write16]])
    show "cellspan (slcells 4 hp (map fst (xs @ (a, r) # ys))) \<union> span a 2
        \<subseteq> owned hp (xs @ (a, r) # ys)"
      using slcells_owned [OF ok] sub by (auto simp: owned_def)
  qed
  ultimately show ?thesis using m'(1) by blast
qed

lemma kmalloc_refines:
  assumes inv: "heap_inv hp m hs" and sz: "sz \<le> 0xFF6"
    and some: "find (\<lambda>b. chunk_size sz \<le> snd b) hs = Some b"
  shows "\<exists>m' rest. kmalloc hp sz m = Inr (fst b + 2, m') \<and>
    take_chunk (chunk_size sz) hs = (fst b, rest) \<and>
    heap_inv hp m' rest \<and> chunks_ok hp ((fst b, chunk_size sz) # rest) \<and>
    read16 m' (fst b) = ucast (chunk_size sz) \<and> same_outside (owned hp hs) m m'"
proof -
  let ?r = "chunk_size sz"
  note r = chunk_size_facts [OF sz]
  obtain xs a s ys where hs: "hs = xs @ (a, s) # ys" "b = (a, s)" "?r \<le> s"
      "\<forall>x \<in> set xs. \<not> ?r \<le> snd x"
    using find_Some_split [OF some] by (cases b) auto
  show ?thesis
  proof (cases "?r < s")
    case True
    let ?ys = "(a + ?r, s - ?r) # ys"
    let ?m1 = "SLIST_INSERT_AFTER (write32 m (a + ?r) (s - ?r)) 4 a (a + ?r)"
    note ins = insert_chunk [OF inv [unfolded hs(1)] r(1) r(4) True refl]
    obtain m' where m': "SLIST_REMOVE ?m1 4 hp a = Inr m'" "heap_inv hp (write16 m' a (ucast ?r)) (xs @ ?ys)"
      "same_outside (owned hp (xs @ (a, ?r) # ?ys)) ?m1 (write16 m' a (ucast ?r))"
      using kmalloc_finish [OF ins(1-3), of "ucast ?r"] by blast
    have "owned hp (xs @ (a, ?r) # ?ys) = owned hp hs"
      using split_chunk(5) [of hp a s ?r] True r inv hs(1)
      by (auto simp: owned_def heap_inv_def chunks_ok_def)
    with ins(4) m'(3) have "same_outside (owned hp hs) m (write16 m' a (ucast ?r))"
      using same_outside_trans hs(1) by (metis sup.idem)
    then show ?thesis
      using m' ins(2) True hs kmalloc_find [OF inv sz] some chunks_ok_move [of hp xs "(a, ?r)" ?ys]
        take_chunk_split [OF hs(4,3)]
      by (auto simp: mem_simps)
  next
    case False
    then have rs: "?r = s" using hs(3) by simp
    have h: "slist m 4 hp (map fst (xs @ (a, ?r) # ys))" "chunks_ok hp (xs @ (a, ?r) # ys)"
      "\<forall>c \<in> set (xs @ ys). read32 m (fst c) = snd c"
      using inv rs hs(1) by (auto simp: heap_inv_def)
    obtain m' where m': "SLIST_REMOVE m 4 hp a = Inr m'" "heap_inv hp (write16 m' a (ucast ?r)) (xs @ ys)"
      "same_outside (owned hp (xs @ (a, ?r) # ys)) m (write16 m' a (ucast ?r))"
      using kmalloc_finish [OF h, of "ucast ?r"] by blast
    then show ?thesis
      using h(2) False hs kmalloc_find [OF inv sz] some chunks_ok_move [of hp xs "(a, ?r)" ys]
        take_chunk_split [OF hs(4,3)] rs
      by (auto simp: mem_simps)
  qed
qed


section \<open>Freeing\<close>

lemma grow_chunk:
  assumes inv: "heap_inv hp m (xs @ (a, s) # ys)" and ok: "chunks_ok hp (xs @ (a, s') # ys)"
  shows "heap_inv hp (write32 m a s') (xs @ (a, s') # ys)"
proof -
  have out: "same_outside (span a 4) m (write32 m a s')" by (rule same_outside_write32)
  have "span a 4 \<inter> cellspan (slcells 4 hp (map fst (xs @ (a, s) # ys))) = {}"
    using chunk_cell_apart [OF ok, of "(a, s')"] by simp
  then have "slist (write32 m a s') 4 hp (map fst (xs @ (a, s') # ys))"
    using slist_frame [OF _ out] inv by (simp add: heap_inv_def)
  moreover have "read32 (write32 m a s') (fst c) = snd c" if c: "c \<in> set (xs @ ys)" for c
  proof -
    have "block_apart (a, s') c" "chunk_ok hp c" "chunk_ok hp (a, s')"
      using ok c chunks_ok_move [of hp xs "(a, s')" ys] by (auto simp: chunks_ok_def)
    then have "apart a 4 (fst c) 4"
      using chunk_size_ge [of hp c] chunk_size_ge [of hp "(a, s')"]
      by (auto simp: block_apart_def intro: apart_mono)
    then show ?thesis using inv c by (auto simp: heap_inv_def mem_simps)
  qed
  ultimately show ?thesis using ok by (auto simp: heap_inv_def)
qed

lemma merge_chunks:
  assumes "chunk_ok hp (a, s)" and "chunk_ok hp (a + s, t)"
  shows "unat (s + t) = unat s + unat t" and "chunk_ok hp (a, s + t)"
    and "block_span (a, s + t) = block_span (a, s) \<union> block_span (a + s, t)"
    and "block_apart (a, s) c \<Longrightarrow> block_apart (a + s, t) c \<Longrightarrow> chunk_ok hp c \<Longrightarrow> block_apart (a, s + t) c"
proof -
  have "unat (a + s) \<noteq> 0" "unat a \<noteq> 0" using assms by (auto simp: chunk_ok_def unat_eq_0)
  then have ua: "unat (a + s) = unat a + unat s" "0 < unat a"
    using assms(1) by (auto simp: chunk_ok_def u32_add mod_if split: if_splits)
  have le: "unat a + (unat s + unat t) \<le> 2 ^ 32" using assms(2) ua by (simp add: chunk_ok_def)
  then show u: "unat (s + t) = unat s + unat t" using ua(2) by (simp add: u32_add_small)
  show sp: "block_span (a, s + t) = block_span (a, s) \<union> block_span (a + s, t)"
    using span_split [of s "unat (s + t)" a] u by (simp add: block_span_def)
  have pos: "0 < unat s" "0 < unat t" using assms by (auto simp: chunk_ok_def unat_gt_0)
  have ap: "apart a (unat (s + t)) b k" if "apart a (unat s) b k" "apart (a + s) (unat t) b k" "0 < k" for b k
    using that sp pos u by (auto simp: apart_iff_span block_span_def simp del: apart_shift)
  have "apart hp 4 a (unat (s + t))"
    using ap [of hp 4] assms by (auto simp: chunk_ok_def apart_sym)
  moreover have "s + t \<noteq> 0" using u pos by (auto simp: unat_eq_0 [symmetric])
  ultimately show "chunk_ok hp (a, s + t)"
    using assms le u by (auto simp: chunk_ok_def aligned_add)
  show "block_apart (a, s + t) c"
    if "block_apart (a, s) c" "block_apart (a + s, t) c" "chunk_ok hp c"
    using that ap chunk_size_ge [of hp c] by (auto simp: block_apart_def)
qed

lemma merge_neighbours:
  assumes "chunks_ok hp (xs @ (a, s) # (b, t) # ys)" and "a + s = b"
  shows "chunks_ok hp (xs @ (a, s + t) # ys)"
    and "owned hp (xs @ (a, s + t) # ys) = owned hp (xs @ (a, s) # (b, t) # ys)"
    and "free_bytes (xs @ (a, s + t) # ys) = free_bytes (xs @ (a, s) # (b, t) # ys)"
proof -
  have ab: "chunk_ok hp (a, s)" "chunk_ok hp (a + s, t)" using assms by (auto simp: chunks_ok_def)
  note mg = merge_chunks [OF this]
  have "block_apart (a, s + t) c" if "c \<in> set (xs @ ys)" for c
    using assms that
    by (intro mg(4)) (auto simp: chunks_ok_append chunks_ok_def sorted_wrt_append block_apart_sym)
  then show "chunks_ok hp (xs @ (a, s + t) # ys)"
    using assms(1) mg(2) by (auto simp: chunks_ok_append block_apart_sym)
  show "owned hp (xs @ (a, s + t) # ys) = owned hp (xs @ (a, s) # (b, t) # ys)"
    using mg(3) assms(2) by (auto simp: owned_def)
  show "free_bytes (xs @ (a, s + t) # ys) = free_bytes (xs @ (a, s) # (b, t) # ys)"
    using mg(1) by simp
qed

text \<open>A chunk \<open>c\<close> freed between the neighbours \<open>n\<close> and \<open>q\<close> is joined with those it touches.\<close>

definition coalesce :: "u32 \<times> u32 \<Rightarrow> u32 \<times> u32 \<Rightarrow> u32 \<times> u32 \<Rightarrow> blocks" where
  "coalesce n c q =
     (let (init, l) = (if fst n + snd n = fst c then ([], (fst n, snd n + snd c)) else ([n], c)) in
      init @ (if fst l + snd l = fst q then [(fst l, snd l + snd q)] else [l, q]))"

fun place :: "u32 \<times> u32 \<Rightarrow> blocks \<Rightarrow> blocks res" where
  "place c (n # q # hs) =
     (if fst n < fst c \<and> fst c < fst q then Inr (coalesce n c q @ hs)
      else bindE (place c (q # hs)) (\<lambda>r. Inr (n # r)))"
| "place c _ = Inl NullDeref"

definition free_spec :: "u32 \<times> u32 \<Rightarrow> blocks \<Rightarrow> blocks res" where
  "free_spec c hs =
     (if hs \<noteq> [] \<and> fst c < fst (hd hs)
      then if fst c + snd c = fst (hd hs) then Inl UninitRead else Inr (c # hs)
      else place c hs)"

lemma place_find:
  "case find_pair (\<lambda>n tmp. n < fst c \<and> fst c < tmp) (map fst hs) of
     None \<Rightarrow> place c hs = Inl NullDeref
   | Some (n, q) \<Rightarrow> \<exists>xs s s' ys. hs = xs @ (n, s) # (q, s') # ys \<and>
       place c hs = Inr (xs @ coalesce (n, s) c (q, s') @ ys)"
proof (induction c hs rule: place.induct)
  case (1 c n q hs)
  show ?case
  proof (cases "fst n < fst c \<and> fst c < fst q")
    case True
    then show ?thesis by (cases n; cases q) (auto intro!: exI [of _ "[]"])
  next
    case False
    note IH = 1 [OF False]
    show ?thesis
    proof (cases "find_pair (\<lambda>n tmp. n < fst c \<and> fst c < tmp) (map fst (q # hs))")
      case None
      then have "place c (q # hs) = Inl NullDeref" using IH by simp
      then show ?thesis using None False by (auto split: if_splits)
    next
      case (Some nq)
      then obtain a b xs s s' ys where nq: "nq = (a, b)" "q # hs = xs @ (a, s) # (b, s') # ys"
          "place c (q # hs) = Inr (xs @ coalesce (a, s) c (b, s') @ ys)"
        using IH by (cases nq) auto
      then have "n # q # hs = (n # xs) @ (a, s) # (b, s') # ys" by simp
      moreover have "place c (n # q # hs) = Inr ((n # xs) @ coalesce (a, s) c (b, s') @ ys)"
        using False nq(3) by auto
      moreover have "find_pair (\<lambda>n tmp. n < fst c \<and> fst c < tmp) (map fst (n # q # hs)) = Some (a, b)"
        using Some False nq(1) by (auto split: if_splits)
      ultimately show ?thesis by (simp only: option.case prod.case) blast
    qed
  qed
qed auto

lemma unfree_chunk:
  assumes inv: "heap_inv hp m hs" and c: "chunks_ok hp ((p, t) # hs)"
  shows "heap_inv hp (write32 m p t) hs" and "read32 (write32 m p t) p = t"
    and "same_outside (owned hp ((p, t) # hs)) m (write32 m p t)"
proof -
  have sub: "span p 4 \<subseteq> block_span (p, t)"
    using c chunk_size_ge [of hp "(p, t)"] span_mono [of 4 "unat t" p] by (simp add: block_span_def)
  have "block_span (p, t) \<inter> owned hp hs = {}"
    using c by (fastforce simp: owned_def block_span_def block_apart_def chunk_ok_def apart_sym [of hp]
        dest!: apart_span)
  then show "heap_inv hp (write32 m p t) hs"
    using heap_inv_frame [OF inv same_outside_write32] sub by blast
  show "read32 (write32 m p t) p = t" by simp
  show "same_outside (owned hp ((p, t) # hs)) m (write32 m p t)"
    by (rule same_outside_mono [OF same_outside_write32]) (use sub in \<open>auto simp: owned_def\<close>)
qed

lemma merge_next:
  assumes inv: "heap_inv hp m (xs @ (p, t) # (q, s) # ys)" and adj: "p + t = q"
  shows "\<exists>m'. SLIST_REMOVE m 4 hp q = Inr m' \<and>
    heap_inv hp (write32 m' p (read32 m' p + read32 m' q)) (xs @ (p, t + s) # ys) \<and>
    same_outside (owned hp (xs @ (p, t) # (q, s) # ys)) m (write32 m' p (read32 m' p + read32 m' q))"
proof -
  let ?old = "xs @ (p, t) # (q, s) # ys"
  have ok: "chunks_ok hp ?old" using inv by (simp add: heap_inv_def)
  have h: "slist m 4 hp (map fst ((xs @ [(p, t)]) @ (q, s) # ys))" "chunks_ok hp ((xs @ [(p, t)]) @ (q, s) # ys)"
      "\<forall>c \<in> set ((xs @ [(p, t)]) @ ys). read32 m (fst c) = snd c"
    using inv by (auto simp: heap_inv_def)
  from remove_chunk [OF h] obtain m' where m': "SLIST_REMOVE m 4 hp q = Inr m'"
      "heap_inv hp m' (xs @ (p, t) # ys)" "same_outside (cellspan (slcells 4 hp (map fst ?old))) m m'"
    by auto
  have rp: "read32 m' p = t" using m'(2) by (auto simp: heap_inv_def)
  have rq: "read32 m' q = s"
    using same_outside_read32 [OF m'(3), of q] chunk_cell_apart [OF ok, of "(q, s)"] inv
    by (auto simp: heap_inv_def)
  have "heap_inv hp (write32 m' p (t + s)) (xs @ (p, t + s) # ys)"
    using grow_chunk [OF m'(2)] merge_neighbours(1) [OF ok adj] by blast
  moreover have "same_outside (owned hp ?old) m (write32 m' p (t + s))"
  proof (rule same_outside_mono [OF same_outside_trans [OF m'(3) same_outside_write32]])
    show "cellspan (slcells 4 hp (map fst ?old)) \<union> span p 4 \<subseteq> owned hp ?old"
      using slcells_owned [OF ok] chunk_head_owned [of hp "(p, t)" ?old] ok by (auto simp: chunks_ok_def)
  qed
  ultimately show ?thesis using m'(1) rp rq by auto
qed

lemma owned_move: "owned hp (xs @ b # ys) = owned hp (b # xs @ ys)"
  by (auto simp: owned_def)

lemma left_stage:
  assumes inv: "heap_inv hp m (xs @ (n, s) # ys)" and c: "chunks_ok hp ((p, t) # xs @ (n, s) # ys)"
    and rp: "read32 m p = t"
    and pm: "(p', m1) = (if n + read32 m n = p then (n, write32 m n (read32 m n + read32 m p))
      else (p, SLIST_INSERT_AFTER m 4 n p))"
    and st: "(init, (p'', t')) = (if n + s = p then ([], (n, s + t)) else ([(n, s)], (p, t)))"
  shows "p' = p'' \<and> heap_inv hp m1 (xs @ init @ (p', t') # ys) \<and>
    same_outside (owned hp ((p, t) # xs @ (n, s) # ys)) m m1 \<and>
    owned hp (xs @ init @ (p', t') # ys) = owned hp ((p, t) # xs @ (n, s) # ys) \<and>
    free_bytes (xs @ init @ (p', t') # ys) = unat t + free_bytes (xs @ (n, s) # ys)"
proof -
  have rn: "read32 m n = s" using inv by (auto simp: heap_inv_def)
  have all: "chunks_ok hp (xs @ (n, s) # (p, t) # ys)"
    using c chunks_ok_move [of hp "xs @ [(n, s)]" "(p, t)" ys] by simp
  have own: "owned hp (xs @ (n, s) # (p, t) # ys) = owned hp ((p, t) # xs @ (n, s) # ys)"
    by (auto simp: owned_def)
  show ?thesis
  proof (cases "n + s = p")
    case True
    note mg = merge_neighbours [OF all True]
    have "same_outside (owned hp ((p, t) # xs @ (n, s) # ys)) m (write32 m n (s + t))"
    proof (rule same_outside_mono [OF same_outside_write32])
      show "span n 4 \<subseteq> owned hp ((p, t) # xs @ (n, s) # ys)"
        using chunk_head_owned [of hp "(n, s)" "(p, t) # xs @ (n, s) # ys"] c by (auto simp: chunks_ok_def)
    qed
    then show ?thesis
      using pm st True rn rp grow_chunk [OF inv mg(1)] mg(2,3) own by simp
  next
    case False
    let ?m = "SLIST_INSERT_AFTER m 4 n p"
    have sl: "slist m 4 hp (map fst (xs @ (n, s) # ys))" using inv by (simp add: heap_inv_def)
    have l: "slist ?m 4 hp (map fst (xs @ (n, s) # (p, t) # ys))"
      "\<forall>c \<in> set (xs @ (n, s) # (p, t) # ys). read32 ?m (fst c) = read32 m (fst c)"
      "same_outside (owned hp (xs @ (n, s) # (p, t) # ys)) m ?m"
      using link_after [OF sl all] by auto
    have "read32 m (fst c) = snd c" if "c \<in> set (xs @ (n, s) # (p, t) # ys)" for c
      using that inv rp by (auto simp: heap_inv_def)
    with l(2) have "\<forall>c \<in> set (xs @ (n, s) # (p, t) # ys). read32 ?m (fst c) = snd c" by simp
    with l(1) all have "heap_inv hp ?m (xs @ (n, s) # (p, t) # ys)" unfolding heap_inv_def by blast
    then show ?thesis using pm st False rn l(3) own by simp
  qed
qed

lemma push_chunk:
  assumes inv: "heap_inv hp m hs" and c: "chunks_ok hp ((p, t) # hs)" and rp: "read32 m p = t"
  shows "heap_inv hp (SLIST_INSERT_HEAD m 4 hp p) ((p, t) # hs)"
    and "same_outside (owned hp ((p, t) # hs)) m (SLIST_INSERT_HEAD m 4 hp p)"
proof -
  have "sep_nodes 8 hp (p # map fst hs)" and "p \<noteq> 0"
    using chunks_nodes [OF c] c by (simp_all add: chunk_ok_def)
  then have "slist (SLIST_INSERT_HEAD m 4 hp p) 4 hp (map fst ((p, t) # hs))"
    using SLIST_INSERT_HEAD_slist [of m 4 hp "map fst hs" p] sep_nodes_snew [of 8 hp p "map fst hs" 4] inv
    by (simp add: heap_inv_def)
  moreover have out: "same_outside (cellspan (slcells 4 hp (map fst ((p, t) # hs)))) m (SLIST_INSERT_HEAD m 4 hp p)"
    unfolding SLIST_INSERT_HEAD_def Let_def
    by (intro same_outside_write32_in same_outside_refl) (auto simp: cellspan_def set_slcells)
  moreover have "read32 (SLIST_INSERT_HEAD m 4 hp p) (fst b) = snd b" if "b \<in> set ((p, t) # hs)" for b
    using same_outside_read32 [OF out chunk_cell_apart [OF c that]] inv that rp by (auto simp: heap_inv_def)
  ultimately show "heap_inv hp (SLIST_INSERT_HEAD m 4 hp p) ((p, t) # hs)"
    using c unfolding heap_inv_def by blast
  show "same_outside (owned hp ((p, t) # hs)) m (SLIST_INSERT_HEAD m 4 hp p)"
    by (rule same_outside_mono [OF out slcells_owned [OF c]])
qed

text \<open>The part of \<^verbatim>\<open>kfree\<close> after its loop has found the place.\<close>

definition kfree_join :: "u32 \<Rightarrow> u32 \<Rightarrow> u32 \<Rightarrow> u32 \<Rightarrow> mem \<Rightarrow> mem res" where
  "kfree_join heap n tmp p m =
     (let (p, m) = (if n + read32 m n = p then (n, write32 m n (read32 m n + read32 m p))
                    else (p, SLIST_INSERT_AFTER m 4 n p)) in
      if p + read32 m p = tmp
      then bindE (SLIST_REMOVE m 4 heap tmp) (\<lambda>m. Inr (write32 m p (read32 m p + read32 m tmp)))
      else Inr m)"

lemma kfree_join_refines:
  assumes inv: "heap_inv hp m hs" and hs: "hs = xs @ (n, s) # (q, s') # ys"
    and c: "chunks_ok hp ((p, t) # hs)" and rp: "read32 m p = t"
  shows "\<exists>m'. kfree_join hp n q p m = Inr m' \<and> heap_inv hp m' (xs @ coalesce (n, s) (p, t) (q, s') @ ys) \<and>
    same_outside (owned hp ((p, t) # hs)) m m' \<and>
    owned hp (xs @ coalesce (n, s) (p, t) (q, s') @ ys) = owned hp ((p, t) # hs) \<and>
    free_bytes (xs @ coalesce (n, s) (p, t) (q, s') @ ys) = unat t + free_bytes hs"
proof -
  let ?pm = "if n + read32 m n = p then (n, write32 m n (read32 m n + read32 m p))
    else (p, SLIST_INSERT_AFTER m 4 n p)"
  let ?st = "if n + s = p then ([], (n, s + t)) else ([(n, s)], (p, t))"
  obtain p' m1 init t' p'' where pm: "(p', m1) = ?pm" "(init, (p'', t')) = ?st"
    by (metis surj_pair)
  have ls: "p' = p''" "heap_inv hp m1 ((xs @ init) @ (p', t') # (q, s') # ys)"
      "same_outside (owned hp ((p, t) # hs)) m m1"
      "owned hp ((xs @ init) @ (p', t') # (q, s') # ys) = owned hp ((p, t) # hs)"
      "free_bytes ((xs @ init) @ (p', t') # (q, s') # ys) = unat t + free_bytes hs"
    using left_stage [OF inv [unfolded hs] c [unfolded hs] rp pm] hs by auto
  have kf: "kfree_join hp n q p m = (if p' + read32 m1 p' = q
      then bindE (SLIST_REMOVE m1 4 hp q) (\<lambda>m. Inr (write32 m p' (read32 m p' + read32 m q)))
      else Inr m1)"
    using pm(1) [symmetric] by (simp only: kfree_join_def Let_def prod.case)
  have co: "coalesce (n, s) (p, t) (q, s') = init @ (if p' + t' = q then [(p', t' + s')] else [(p', t'), (q, s')])"
    using pm(2) ls(1) by (auto simp: coalesce_def split: if_splits)
  have rp': "read32 m1 p' = t'" using ls(2) by (auto simp: heap_inv_def)
  show ?thesis
  proof (cases "p' + t' = q")
    case True
    have ok: "chunks_ok hp ((xs @ init) @ (p', t') # (q, s') # ys)" using ls(2) by (simp add: heap_inv_def)
    obtain m2 where m2: "SLIST_REMOVE m1 4 hp q = Inr m2"
      "heap_inv hp (write32 m2 p' (read32 m2 p' + read32 m2 q)) ((xs @ init) @ (p', t' + s') # ys)"
      "same_outside (owned hp ((p, t) # hs)) m1 (write32 m2 p' (read32 m2 p' + read32 m2 q))"
      using merge_next [OF ls(2) True] ls(4) by auto
    have "same_outside (owned hp ((p, t) # hs)) m (write32 m2 p' (read32 m2 p' + read32 m2 q))"
      using same_outside_trans [OF ls(3) m2(3)] by simp
    with m2 merge_neighbours [OF ok True] True ls(4,5) show ?thesis by (simp add: co kf rp')
  next
    case False
    with rp' have "p' + read32 m1 p' \<noteq> q" by simp
    with ls False show ?thesis by (simp add: co kf)
  qed
qed

lemma kfree_refines:
  assumes inv: "heap_inv hp m hs" and c: "chunks_ok hp ((p, t) # hs)"
    and tag: "read16 m p = ucast t" and t: "t < 0x10000"
  shows "case free_spec (p, t) hs of
      Inl e \<Rightarrow> kfree hp (p + 2) m = Inl e
    | Inr hs' \<Rightarrow> \<exists>m'. kfree hp (p + 2) m = Inr m' \<and> heap_inv hp m' hs' \<and>
        same_outside (owned hp ((p, t) # hs)) m m' \<and> owned hp hs' = owned hp ((p, t) # hs) \<and>
        free_bytes hs' = unat t + free_bytes hs"
proof -
  let ?m0 = "write32 m p t" and ?P = "\<lambda>n tmp. n < p \<and> p < tmp"
  note m0 = unfree_chunk [OF inv c]
  have ut: "ucast (read16 m p) = t" using t by (simp add: tag ucast16_32)
  have sl: "slist ?m0 4 hp (map fst hs)" using m0(1) by (simp add: heap_inv_def)
  have first: "SLIST_FIRST ?m0 hp = first0 (map fst hs)"
    using slist_first [OF sl] by (simp add: SLIST_FIRST_def)
  have loop: "foreach_safe ?m0 4 ?P None (first0 (map fst hs)) = Some (case find_pair ?P (map fst hs) of
      None \<Rightarrow> (0, if hs = [] then None else Some 0) | Some (x, tmp) \<Rightarrow> (x, Some tmp))"
    using sl.foreach_safe_holds [OF sl, of ?P None] slist_first [OF sl] by simp
  show ?thesis
  proof (cases "hs \<noteq> [] \<and> p < fst (hd hs)")
    case True
    then obtain h hs' where hs: "hs = h # hs'" "p < fst h" by (cases hs) auto
    have "\<exists>m'. SLIST_REMOVE ?m0 4 hp (fst h) = Inr m'"
      using remove_chunk [of ?m0 hp "[]" h hs'] m0(1) hs(1) by (auto simp: heap_inv_def)
    moreover have "same_outside (owned hp ((p, t) # hs)) m (SLIST_INSERT_HEAD ?m0 4 hp p)"
      using same_outside_trans [OF m0(3) push_chunk(2) [OF m0(1) c m0(2)]] by simp
    ultimately show ?thesis
      using hs first push_chunk(1) [OF m0(1) c m0(2)] by (auto simp: kfree_def free_spec_def Let_def ut)
  next
    case False
    then have np: "\<not> p < first0 (map fst hs)" by (cases hs) auto
    have spec: "free_spec (p, t) hs = place (p, t) hs" using False by (auto simp: free_spec_def)
    show ?thesis
    proof (cases "find_pair ?P (map fst hs)")
      case None
      then have "kfree hp (p + 2) m = Inl NullDeref"
        using np loop by (simp add: kfree_def Let_def ut first)
      then show ?thesis using None place_find [of "(p, t)" hs] spec by simp
    next
      case (Some nq)
      then obtain n q xs s s' ys where nq: "nq = (n, q)" "hs = xs @ (n, s) # (q, s') # ys"
          "place (p, t) hs = Inr (xs @ coalesce (n, s) (p, t) (q, s') @ ys)"
        using place_find [of "(p, t)" hs] by (cases nq) auto
      have "n \<noteq> 0" using inv nq(2) by (auto simp: heap_inv_def chunks_ok_def chunk_ok_def)
      then have "kfree hp (p + 2) m = kfree_join hp n q p ?m0"
        using np loop Some by (simp add: kfree_def kfree_join_def Let_def ut first nq(1))
      with kfree_join_refines [OF m0(1) nq(2) c m0(2)] show ?thesis
        using same_outside_trans [OF m0(3)] by (auto simp: spec nq(3)) (metis sup.idem)
    qed
  qed
qed

section \<open>Address order and coalescing\<close>

definition coalesced :: "blocks \<Rightarrow> bool" where
  "coalesced hs \<longleftrightarrow> sorted_wrt (\<lambda>b c. unat (fst b) + unat (snd b) < unat (fst c)) hs"

lemma coalesced_append:
  "coalesced (xs @ ys) \<longleftrightarrow> coalesced xs \<and> coalesced ys \<and>
     (\<forall>b \<in> set xs. \<forall>c \<in> set ys. unat (fst b) + unat (snd b) < unat (fst c))"
  by (simp add: coalesced_def sorted_wrt_append)

lemma coalesced_Cons [simp]:
  "coalesced (b # bs) \<longleftrightarrow> (\<forall>c \<in> set bs. unat (fst b) + unat (snd b) < unat (fst c)) \<and> coalesced bs"
  by (simp add: coalesced_def)

lemma place_between:
  "\<forall>x \<in> set xs. \<not> fst c < fst x \<Longrightarrow> fst n < fst c \<Longrightarrow> fst c < fst q \<Longrightarrow>
   place c (xs @ n # q # ys) = Inr (xs @ coalesce n c q @ ys)"
proof (induction xs)
  case (Cons x xs)
  then have IH: "place c (xs @ n # q # ys) = Inr (xs @ coalesce n c q @ ys)" by simp
  obtain z zs where z: "xs @ n # q # ys = z # zs" "\<not> fst c < fst z"
    using Cons.prems by (cases xs) auto
  with IH obtain w ws where "zs = w # ws" by (cases zs) (auto simp: Cons_eq_append_conv)
  with IH z show ?case by simp
qed simp

lemma place_decompose:
  "place c hs = Inr hs' \<Longrightarrow> \<exists>xs n q ys. hs = xs @ n # q # ys \<and> hs' = xs @ coalesce n c q @ ys \<and>
     fst n < fst c \<and> fst c < fst q"
proof (induction c hs arbitrary: hs' rule: place.induct)
  case (1 c n q hs)
  show ?case
  proof (cases "fst n < fst c \<and> fst c < fst q")
    case True
    with 1 show ?thesis by (intro exI [of _ "[]"]) auto
  next
    case False
    with "1.prems" obtain r where r: "place c (q # hs) = Inr r" "hs' = n # r" by (auto simp: bindE_eq_Inr)
    from "1.IH" [OF False r(1)] obtain xs n' q' ys where
      "q # hs = xs @ n' # q' # ys \<and> r = xs @ coalesce n' c q' @ ys \<and> fst n' < fst c \<and> fst c < fst q'"
      by blast
    with r(2) show ?thesis by (intro exI [of _ "n # xs"] exI) auto
  qed
qed auto

lemma apart_ordered:
  assumes "chunk_ok hp b" and "chunk_ok hp c" and "block_apart b c" and "fst b < fst c"
  shows "unat (fst b) + unat (snd b) \<le> unat (fst c)"
proof -
  have "unat (snd b) \<le> unat (fst c - fst b)" using assms(3) by (simp add: block_apart_def apart_def)
  then show ?thesis using assms(4) by (simp add: u32_sub_small word_less_nat_alt word_le_nat_alt)
qed

lemma chunk_end:
  assumes "chunk_ok hp b" and "chunk_ok hp c" and "unat (fst b) + unat (snd b) \<le> unat (fst c)"
  shows "fst b + snd b = fst c \<longleftrightarrow> unat (fst b) + unat (snd b) = unat (fst c)"
  using assms by (auto simp: u32_add_small word_unat_eq_iff le_less_trans [OF _ unat_lt32])

lemma coalesce_ends:
  assumes ok: "chunk_ok hp n" "chunk_ok hp c" "chunk_ok hp q" "block_apart n c" "block_apart c q"
    and o: "fst n < fst c" "fst c < fst q"
  shows "coalesced (coalesce n c q)"
    and "d \<in> set (coalesce n c q) \<Longrightarrow> unat (fst n) \<le> unat (fst d) \<and>
      unat (fst d) + unat (snd d) \<le> unat (fst q) + unat (snd q)"
proof -
  have nc: "unat (fst n) + unat (snd n) \<le> unat (fst c)" and cq: "unat (fst c) + unat (snd c) \<le> unat (fst q)"
    using apart_ordered ok o by blast+
  note e = chunk_end [OF ok(1,2) nc] chunk_end [OF ok(2,3) cq]
  have mcq: "unat (snd c + snd q) = unat (snd c) + unat (snd q)" if "fst c + snd c = fst q"
    using merge_chunks(1) [of hp "fst c" "snd c" "snd q"] ok that by simp
  have mnc: "chunk_ok hp (fst n, snd n + snd c)" "unat (snd n + snd c) = unat (snd n) + unat (snd c)"
      "fst n + (snd n + snd c) = fst c + snd c" if "fst n + snd n = fst c"
    using merge_chunks(1,2) [of hp "fst n" "snd n" "snd c"] ok that add.assoc [of "fst n" "snd n" "snd c"]
    by simp_all
  have mncq: "unat (snd n + snd c + snd q) = unat (snd n) + unat (snd c) + unat (snd q)"
    if "fst n + snd n = fst c" "fst c + snd c = fst q"
    using merge_chunks(1) [OF mnc(1) [OF that(1)], of "snd q"] ok(3) mnc(2,3) that by simp
  have "0 < unat (snd n)" "0 < unat (snd c)" "0 < unat (snd q)"
    using chunk_size_ge ok(1-3) by fastforce+
  with nc cq e mcq mnc mncq o show "coalesced (coalesce n c q)"
    and "d \<in> set (coalesce n c q) \<Longrightarrow> unat (fst n) \<le> unat (fst d) \<and>
      unat (fst d) + unat (snd d) \<le> unat (fst q) + unat (snd q)"
    by (cases "fst n + snd n = fst c"; cases "fst c + snd c = fst q";
        force simp: coalesce_def coalesced_def)+
qed

lemma free_spec_coalesced:
  assumes "coalesced hs" and "chunks_ok hp (c # hs)" and "free_spec c hs = Inr hs'"
  shows "coalesced hs'"
proof (cases "hs \<noteq> [] \<and> fst c < fst (hd hs)")
  case True
  then obtain h hs1 where h: "hs = h # hs1" "fst c < fst h" by (cases hs) auto
  have "unat (fst c) + unat (snd c) \<le> unat (fst h)"
    using apart_ordered [of hp c h] assms(2) h by simp
  moreover have "fst c + snd c \<noteq> fst h" "hs' = c # hs"
    using assms(3) h by (auto simp: free_spec_def split: if_splits)
  ultimately have "unat (fst c) + unat (snd c) < unat (fst h)"
    using chunk_end [of hp c h] assms(2) h(1) by simp
  then show ?thesis using assms(1) h \<open>hs' = c # hs\<close> by fastforce
next
  case False
  then have "place c hs = Inr hs'" using assms(3) by (auto simp: free_spec_def)
  then obtain xs n q ys where d: "hs = xs @ n # q # ys" "hs' = xs @ coalesce n c q @ ys"
      "fst n < fst c" "fst c < fst q"
    using place_decompose by blast
  have ok: "chunk_ok hp n" "chunk_ok hp c" "chunk_ok hp q" "block_apart n c" "block_apart c q"
    using assms(2) d(1) by (auto simp: chunks_ok_append block_apart_sym)
  note ce = coalesce_ends [OF ok d(3,4)]
  have "unat (fst x) + unat (snd x) < unat (fst y)" if "x \<in> set xs" "y \<in> set (coalesce n c q)" for x y
    using assms(1) that ce(2) [OF that(2)] by (fastforce simp: d(1) coalesced_append)
  moreover have "unat (fst x) + unat (snd x) < unat (fst y)" if "x \<in> set (coalesce n c q)" "y \<in> set ys" for x y
    using assms(1) that ce(2) [OF that(1)] by (fastforce simp: d(1) coalesced_append)
  ultimately show ?thesis
    using assms(1) ce(1) unfolding d by (auto simp: coalesced_append)
qed

lemma take_chunk_coalesced:
  assumes "coalesced (xs @ (a, s) # ys)" and "chunk_ok hp (a, s)" and "r < s" and "r \<noteq> 0"
  shows "coalesced (xs @ (a + r, s - r) # ys)"
proof -
  have "unat r < unat s" and "unat (s - r) = unat s - unat r"
    using assms(3) by (simp_all add: u32_sub_small word_less_nat_alt word_le_nat_alt)
  moreover have "unat (a + r) = unat a + unat r"
    using assms(2) calculation by (simp add: chunk_ok_def u32_add_small)
  ultimately show ?thesis using assms(1) by (fastforce simp: coalesced_append)
qed

lemma fits_find: "(\<exists>b \<in> set hs. r \<le> snd b) \<longleftrightarrow> (\<exists>b. find (\<lambda>b. r \<le> snd b) hs = Some b)"
  by (cases "find (\<lambda>b. r \<le> snd b) hs") (auto simp: find_None_iff dest: find_Some_split)

lemma taken_owned:
  assumes "chunks_ok hp (c # hs)"
  shows "block_span c \<inter> owned hp hs = {}"
  using assms by (fastforce simp: owned_def block_span_def block_apart_def chunk_ok_def apart_sym [of hp]
      dest!: apart_span)

lemma take_chunk_owned:
  assumes "chunks_ok hp hs" and "find (\<lambda>b. r \<le> snd b) hs = Some b" and "aligned 8 r" and "r \<noteq> 0"
    and "take_chunk r hs = (fst b, rest)"
  shows "owned hp hs = owned hp ((fst b, r) # rest)" and "free_bytes hs = unat r + free_bytes rest"
    and "coalesced hs \<Longrightarrow> coalesced rest"
proof -
  obtain xs a s ys where hs: "hs = xs @ (a, s) # ys" "b = (a, s)" "r \<le> s"
      "\<forall>x \<in> set xs. \<not> r \<le> snd x"
    using find_Some_split [OF assms(2)] by (cases b) auto
  then have rest: "rest = xs @ (if r < s then (a + r, s - r) # ys else ys)"
    using assms(5) take_chunk_split [OF hs(4,3)] by simp
  have ok: "chunk_ok hp (a, s)" using assms(1) hs(1) by (auto simp: chunks_ok_def)
  have "owned hp hs = owned hp ((fst b, r) # rest) \<and> free_bytes hs = unat r + free_bytes rest \<and>
      (coalesced hs \<longrightarrow> coalesced rest)"
  proof (cases "r < s")
    case True
    have "unat s = unat r + unat (s - r)"
      using hs(3) by (simp add: u32_sub_small word_le_nat_alt)
    then show ?thesis
      using split_chunk(5) [OF ok assms(3,4) True] take_chunk_coalesced [OF _ ok True assms(4)] True hs rest
      by (auto simp: owned_def)
  next
    case False
    then show ?thesis using hs rest by (auto simp: owned_def coalesced_append)
  qed
  then show "owned hp hs = owned hp ((fst b, r) # rest)" and "free_bytes hs = unat r + free_bytes rest"
    and "coalesced hs \<Longrightarrow> coalesced rest" by blast+
qed

section \<open>The heap as an allocator\<close>

definition heap_owns :: "u32 \<Rightarrow> mem \<Rightarrow> u32 set \<Rightarrow> bool" where
  "heap_owns hp m S \<longleftrightarrow> (\<exists>hs. heap_inv hp m hs \<and> S = owned hp hs)"

lemma payload_span:
  assumes "sz \<le> 0xFF6"
  shows "span (a + 2) (unat sz) \<subseteq> block_span (a, chunk_size sz)"
  using span_sub [of 2 "unat sz" "unat (chunk_size sz)" a] chunk_size_facts(2) [OF assms]
  by (simp add: block_span_def)

lemma kmalloc_none:
  assumes "heap_inv hp m hs" and "sz \<le> 0xFF6" and "find (\<lambda>b. chunk_size sz \<le> snd b) hs = None"
  shows "kmalloc hp sz m = Inr (0, m)"
  using kmalloc_find [OF assms(1,2)] assms(3) by simp

interpretation chunks: mem_source "kmalloc hp" "heap_owns hp" "\<lambda>sz. sz \<le> 0xFF6" unat for hp
proof unfold_locales
  fix m S and sz :: u32
  assume "heap_owns hp m S" and sz: "sz \<le> 0xFF6"
  then obtain hs where inv: "heap_inv hp m hs" and S: "S = owned hp hs" by (auto simp: heap_owns_def)
  show "\<exists>a m' S'. kmalloc hp sz m = Inr (a, m') \<and> heap_owns hp m' S' \<and> S' \<subseteq> S \<and> same_outside S m m' \<and>
      (a \<noteq> 0 \<longrightarrow> span a (unat sz) \<subseteq> S \<and> span a (unat sz) \<inter> S' = {})"
  proof (cases "find (\<lambda>b. chunk_size sz \<le> snd b) hs")
    case None
    then show ?thesis using kmalloc_none [OF inv sz] inv S by (auto simp: heap_owns_def)
  next
    case (Some b)
    from kmalloc_refines [OF inv sz Some] obtain m' rest where
      *: "kmalloc hp sz m = Inr (fst b + 2, m')" "take_chunk (chunk_size sz) hs = (fst b, rest)"
        "heap_inv hp m' rest" "chunks_ok hp ((fst b, chunk_size sz) # rest)" "same_outside S m m'"
      by (auto simp: S)
    have "owned hp hs = owned hp ((fst b, chunk_size sz) # rest)"
      using take_chunk_owned(1) [OF _ Some _ _ *(2)] inv chunk_size_facts(1,4) [OF sz]
      by (simp add: heap_inv_def)
    moreover have "owned hp rest \<subseteq> owned hp ((fst b, chunk_size sz) # rest)" by (auto simp: owned_def)
    moreover have "block_span (fst b, chunk_size sz) \<subseteq> owned hp ((fst b, chunk_size sz) # rest)"
      by (auto simp: owned_def)
    ultimately show ?thesis
      using * taken_owned [OF *(4)] payload_span [OF sz, of "fst b"] S
      by (intro exI [of _ "fst b + 2"] exI [of _ m'] exI [of _ "owned hp rest"]) (auto simp: heap_owns_def)
  qed
next
  fix m S T m'
  assume "heap_owns hp m S" "same_outside T m m'" "T \<inter> S = {}"
  then show "heap_owns hp m' S" by (auto simp: heap_owns_def dest: heap_inv_frame)
qed

text \<open>A request that the first chunk can hold with something to spare is cut from it.\<close>

lemma kmalloc_first:
  assumes inv: "heap_inv hp m ((a, s) # hs)" and sz: "sz \<le> 0xFF6" and fits: "chunk_size sz < s"
  obtains m' where "kmalloc hp sz m = Inr (a + 2, m')"
    and "heap_inv hp m' ((a + chunk_size sz, s - chunk_size sz) # hs)"
    and "same_outside (owned hp ((a, s) # hs)) m m'"
    and "span (a + 2) (unat sz) \<subseteq> owned hp ((a, s) # hs)"
    and "span (a + 2) (unat sz) \<inter> owned hp ((a + chunk_size sz, s - chunk_size sz) # hs) = {}"
    and "owned hp ((a + chunk_size sz, s - chunk_size sz) # hs) \<subseteq> owned hp ((a, s) # hs)"
    and "a + 2 \<noteq> 0"
proof -
  let ?r = "chunk_size sz"
  let ?rest = "(a + ?r, s - ?r) # hs"
  have f: "find (\<lambda>b. ?r \<le> snd b) ((a, s) # hs) = Some (a, s)" using less_imp_le [OF fits] by simp
  have tc: "take_chunk ?r ((a, s) # hs) = (a, ?rest)" using fits less_imp_le [OF fits] by simp
  from kmalloc_refines [OF inv sz f] tc obtain m' where m': "kmalloc hp sz m = Inr (a + 2, m')" "heap_inv hp m' ?rest"
      "chunks_ok hp ((a, ?r) # ?rest)" "same_outside (owned hp ((a, s) # hs)) m m'" by auto
  have ok: "chunks_ok hp ((a, s) # hs)" using inv by (simp add: heap_inv_def)
  have o: "owned hp ((a, s) # hs) = owned hp ((a, ?r) # ?rest)"
    using take_chunk_owned(1) [OF ok f chunk_size_facts(1,4) [OF sz]] tc by simp
  have p: "span (a + 2) (unat sz) \<subseteq> block_span (a, ?r)" by (rule payload_span [OF sz])
  have "aligned 8 a" using ok by (simp add: chunk_ok_def)
  then have "a \<noteq> - 2" by (auto simp: aligned_def)
  then have "a + 2 \<noteq> 0" by (metis add_diff_cancel_right' diff_0)
  moreover have c: "block_span (a, ?r) \<subseteq> owned hp ((a, ?r) # ?rest)" "owned hp ?rest \<subseteq> owned hp ((a, ?r) # ?rest)"
    by (auto simp: owned_def)
  moreover have "span (a + 2) (unat sz) \<inter> owned hp ?rest = {}" using p taken_owned [OF m'(3)] by auto
  ultimately show thesis using that [OF m'(1,2,4)] p unfolding o by blast
qed

section \<open>Properties\<close>

text \<open>What \<open>free_spec\<close> makes of a chunk that \<open>take_chunk\<close> just took.\<close>

lemma find_first_fit: "\<forall>x \<in> set xs. \<not> r \<le> snd x \<Longrightarrow> r \<le> s \<Longrightarrow> find (\<lambda>b. r \<le> snd b) (xs @ (a, s) # ys) = Some (a, s)"
  by (induction xs) auto

lemma place_last: "\<forall>x \<in> set hs. fst x < fst c \<Longrightarrow> place c hs = Inl NullDeref"
  by (induction c hs rule: place.induct) auto

lemma not_adjacent: "unat a + unat s < unat b \<Longrightarrow> a + s \<noteq> b \<and> a < b"
  for a b s :: u32
  using u32_add_small [of a s] unat_lt32 [of b] by (auto simp: word_less_nat_alt)

lemma free_spec_taken:
  assumes "heap_inv hp m (xs @ (a, s) # ys)" and "coalesced (xs @ (a, s) # ys)" and "r \<le> s" and "r \<noteq> 0"
  shows "free_spec (a, r) (xs @ (if r < s then [(a + r, s - r)] else []) @ ys) =
    (if xs = [] \<and> r < s then Inl UninitRead else if ys = [] \<and> r = s then Inl NullDeref else Inr (xs @ (a, s) # ys))"
proof -
  have ar: "a < a + r" if "r < s"
    using assms(1,4) that
    by (auto simp: heap_inv_def chunks_ok_def chunk_ok_def word_less_nat_alt u32_add_small unat_gt_0)
  have below: "fst x + snd x \<noteq> a \<and> fst x < a" if "x \<in> set xs" for x
    using assms(2) that by (intro not_adjacent) (auto simp: coalesced_append)
  have above: "a + s \<noteq> fst x \<and> a < fst x" if "x \<in> set ys" for x
    using assms(2) that by (intro not_adjacent) (auto simp: coalesced_append)
  have rs: "r < s \<or> r = s" using assms(3) by auto
  show ?thesis
  proof (cases xs rule: rev_cases)
    case Nil
    then show ?thesis using rs ar above by (cases ys) (auto simp: free_spec_def)
  next
    case (snoc zs n)
    have n: "fst n + snd n \<noteq> a" "fst n < a" and zs: "\<forall>x \<in> set zs. \<not> a < fst x"
      using below by (auto simp: snoc dest: less_asym)
    have "xs \<noteq> []" using snoc by simp
    then obtain x xs' where x: "xs = x # xs'" by (meson neq_Nil_conv)
    then have hd: "free_spec (a, r) (xs @ ns) = place (a, r) (xs @ ns)" for ns
      using below [of x] by (auto simp: free_spec_def dest: less_asym)
    have pl: "place (a, r) (xs @ q # qs) = Inr (zs @ coalesce n (a, r) q @ qs)" if "a < fst q" for q qs
      using place_between [of zs "(a, r)" n q qs] zs n(2) that by (simp add: snoc)
    have co: "coalesce n (a, r) q = (if a + r = fst q then [n, (a, r + snd q)] else [n, (a, r), q])" for q
      using n(1) by (simp add: coalesce_def)
    show ?thesis
    proof (cases "r < s")
      case True
      then show ?thesis using hd [of "(a + r, s - r) # ys"] pl [of "(a + r, s - r)" ys] ar co by (auto simp: snoc)
    next
      case False
      then have r: "r = s" using rs by simp
      show ?thesis
      proof (cases ys)
        case Nil
        have "place (a, r) xs = Inl NullDeref" by (rule place_last) (use below in auto)
        then show ?thesis using hd [of "[]"] r Nil by (simp add: snoc)
      next
        case (Cons q qs)
        then show ?thesis using hd [of ys] pl [of q qs] above [of q] co [of q] r by (simp add: snoc)
      qed
    qed
  qed
qed

text \<open>A small heap, for concrete instances: its head at 0x100, three free chunks.\<close>

definition demo_chunks :: blocks where
  "demo_chunks = [(0x2000, 0x10), (0x2100, 0x40), (0x3000, 0x100)]"

definition demo_heap :: mem where
  "demo_heap = write32 (write32 (write32 (write32 (write32 (write32 (write32 (\<lambda>_. 0)
     0x100 0x2000) 0x2000 0x10) 0x2004 0x2100) 0x2100 0x40) 0x2104 0x3000) 0x3000 0x100) 0x3004 0"

lemma demo_heap_inv: "heap_inv 0x100 demo_heap demo_chunks"
  by (simp add: heap_inv_def demo_heap_def demo_chunks_def slist_def chunk_ok_def
      block_apart_def aligned_def mem_simps apart_def)

lemma chunk_size_values: "chunk_size 0x20 = 0x28" "chunk_size 4 = 8"
  by (simp_all add: chunk_size_def roundup_def)

text \<open>C2: \<^verbatim>\<open>kmalloc\<close> of at most 0xFF6 bytes on a well-formed heap always returns. If a free chunk can
  hold the request and its tag, the result points behind the 16-bit tag of a chunk cut from a free
  one: disjoint from what stays free, large enough, tagged with its size, and with it the remaining
  free chunks make up exactly the former free memory. Otherwise the result is NULL and nothing
  changes. Memory outside the heap is untouched; a coalesced heap stays coalesced.\<close>

theorem kmalloc_correct:
  assumes "heap_inv hp m hs" and "sz \<le> 0xFF6"
  shows "\<exists>x m' rest. kmalloc hp sz m = Inr (x, m') \<and> heap_inv hp m' rest \<and>
    same_outside (owned hp hs) m m' \<and> (coalesced hs \<longrightarrow> coalesced rest) \<and>
    (if \<exists>b \<in> set hs. chunk_size sz \<le> snd b
     then (x - 2) \<in> fst ` set hs \<and> chunks_ok hp ((x - 2, chunk_size sz) # rest) \<and>
       owned hp hs = owned hp ((x - 2, chunk_size sz) # rest) \<and>
       free_bytes hs = unat (chunk_size sz) + free_bytes rest \<and>
       read16 m' (x - 2) = ucast (chunk_size sz) \<and>
       span x (unat sz) \<subseteq> block_span (x - 2, chunk_size sz)
     else x = 0 \<and> m' = m \<and> rest = hs)"
proof (cases "find (\<lambda>b. chunk_size sz \<le> snd b) hs")
  case None
  then show ?thesis using assms kmalloc_none [OF assms None] fits_find [where hs = hs] by auto
next
  case (Some b)
  from kmalloc_refines [OF assms Some] obtain m' rest where
    *: "kmalloc hp sz m = Inr (fst b + 2, m')" "take_chunk (chunk_size sz) hs = (fst b, rest)"
      "heap_inv hp m' rest" "chunks_ok hp ((fst b, chunk_size sz) # rest)"
      "read16 m' (fst b) = ucast (chunk_size sz)" "same_outside (owned hp hs) m m'"
    by blast
  have ok: "chunks_ok hp hs" using assms(1) by (simp add: heap_inv_def)
  note t = take_chunk_owned [OF ok Some chunk_size_facts(1,4) [OF assms(2)] *(2)]
  have "\<exists>b \<in> set hs. chunk_size sz \<le> snd b" and "b \<in> set hs"
    using Some fits_find find_Some_split [OF Some] by auto
  then show ?thesis using * t payload_span [OF assms(2), of "fst b"] by auto
qed

theorem kmalloc_correct_witness:
  "heap_inv 0x100 demo_heap demo_chunks \<and>
   (\<exists>x m' rest. kmalloc 0x100 0x20 demo_heap = Inr (x, m') \<and> heap_inv 0x100 m' rest \<and>
      free_bytes demo_chunks = 0x28 + free_bytes rest \<and> read16 m' (x - 2) = 0x28)"
proof -
  have "\<exists>b \<in> set demo_chunks. chunk_size 0x20 \<le> snd b" by (simp add: demo_chunks_def chunk_size_values)
  then show ?thesis
    using kmalloc_correct [OF demo_heap_inv, of "0x20"] demo_heap_inv by (auto simp: chunk_size_values)
qed

text \<open>C3: \<^verbatim>\<open>kfree\<close> of a tagged chunk does to the free list what \<open>free_spec\<close> says: the chunk is
  inserted at its place by address and joined with the neighbours it touches, the free memory grows
  by exactly the chunk, nothing else changes and a coalesced list stays coalesced; where
  \<open>free_spec\<close> is an error (a chunk that touches the first free chunk from below, or lies behind the
  last one) \<^verbatim>\<open>kfree\<close> runs into that error.\<close>

theorem kfree_correct:
  assumes "heap_inv hp m hs" and "chunks_ok hp ((p, t) # hs)"
    and "read16 m p = ucast t" and "t < 0x10000"
  shows "case free_spec (p, t) hs of
      Inl e \<Rightarrow> kfree hp (p + 2) m = Inl e
    | Inr hs' \<Rightarrow> \<exists>m'. kfree hp (p + 2) m = Inr m' \<and> heap_inv hp m' hs' \<and>
        same_outside (owned hp ((p, t) # hs)) m m' \<and> owned hp hs' = owned hp ((p, t) # hs) \<and>
        free_bytes hs' = unat t + free_bytes hs \<and> (coalesced hs \<longrightarrow> coalesced hs')"
  using kfree_refines [OF assms] free_spec_coalesced [OF _ assms(2)] by (auto split: sum.splits)

theorem kfree_correct_witness:
  "\<exists>m'. kfree 0x100 0x2012 (write16 demo_heap 0x2010 0xF0) = Inr m' \<and>
     heap_inv 0x100 m' [(0x2000, 0x140), (0x3000, 0x100)]"
proof -
  have ok: "chunks_ok 0x100 ((0x2010, 0xF0) # demo_chunks)"
    by (simp add: demo_chunks_def chunk_ok_def block_apart_def aligned_def apart_def)
  have "span 0x2010 2 \<inter> owned 0x100 demo_chunks = {}"
    using taken_owned [OF ok] span_mono [of 2 "0xF0" "0x2010"] by (auto simp: block_span_def)
  then have "heap_inv 0x100 (write16 demo_heap 0x2010 0xF0) demo_chunks"
    by (rule heap_inv_frame [OF demo_heap_inv same_outside_write16])
  moreover have "free_spec (0x2010, 0xF0) demo_chunks = Inr [(0x2000, 0x140), (0x3000, 0x100)]"
    by (simp add: free_spec_def demo_chunks_def coalesce_def)
  ultimately show ?thesis
    using ok kfree_correct [of "0x100" "write16 demo_heap 0x2010 0xF0" demo_chunks "0x2010" "0xF0"] by auto
qed

text \<open>C5: freeing what was just allocated, on a heap whose free chunks are in order and not adjacent. Let \<open>(a, s)\<close> be the first free chunk that
  can hold the request. \<^verbatim>\<open>kfree\<close> restores the list of free chunks, except in two cases: when the allocation was cut from the first chunk of
  the list it reads the uninitialised \<^verbatim>\<open>tmp\<close>, and when it took the last chunk of the list as a whole it finds no
  chunk behind the freed one and dereferences a null pointer.\<close>

theorem kmalloc_kfree_roundtrip:
  assumes "heap_inv hp m (xs @ (a, s) # ys)" and "coalesced (xs @ (a, s) # ys)" and "sz \<le> 0xFF6"
    and "chunk_size sz \<le> s" and "\<forall>x \<in> set xs. snd x < chunk_size sz"
  shows "\<exists>m1. kmalloc hp sz m = Inr (a + 2, m1) \<and>
    (if xs = [] \<and> chunk_size sz < s then kfree hp (a + 2) m1 = Inl UninitRead
     else if ys = [] \<and> chunk_size sz = s then kfree hp (a + 2) m1 = Inl NullDeref
     else \<exists>m2. kfree hp (a + 2) m1 = Inr m2 \<and> heap_inv hp m2 (xs @ (a, s) # ys))"
proof -
  let ?r = "chunk_size sz" and ?hs = "xs @ (a, s) # ys"
  note r = chunk_size_facts [OF assms(3)]
  have fit: "\<forall>x \<in> set xs. \<not> ?r \<le> snd x" using assms(5) by (simp add: not_le)
  from kmalloc_refines [OF assms(1,3) find_first_fit [OF fit assms(4)]] obtain m1 rest where
    km: "kmalloc hp sz m = Inr (a + 2, m1)" "take_chunk ?r ?hs = (a, rest)" "heap_inv hp m1 rest"
      "chunks_ok hp ((a, ?r) # rest)" "read16 m1 a = ucast ?r"
    by auto
  have rest: "rest = xs @ (if ?r < s then [(a + ?r, s - ?r)] else []) @ ys"
    using km(2) take_chunk_split [OF fit assms(4)] by auto
  have "free_spec (a, ?r) rest =
      (if xs = [] \<and> ?r < s then Inl UninitRead else if ys = [] \<and> ?r = s then Inl NullDeref else Inr ?hs)"
    unfolding rest by (rule free_spec_taken [OF assms(1,2,4) r(4)])
  moreover have "?r < 0x10000" using r(3) by (simp add: word_less_nat_alt)
  ultimately show ?thesis using kfree_refines [OF km(3-5)] km(1) by (auto split: if_splits)
qed

theorem kmalloc_kfree_roundtrip_witness:
  "\<exists>m1 m2. kmalloc 0x100 0x20 demo_heap = Inr (0x2102, m1) \<and> kfree 0x100 0x2102 m1 = Inr m2 \<and>
     heap_inv 0x100 m2 demo_chunks"
proof -
  have d: "demo_chunks = [hd demo_chunks] @ (0x2100, 0x40) # [(0x3000, 0x100)]" by (simp add: demo_chunks_def)
  show ?thesis
    using kmalloc_kfree_roundtrip [of "0x100" demo_heap "[hd demo_chunks]" "0x2100" "0x40" "[(0x3000, 0x100)]" "0x20"] demo_heap_inv
    unfolding d [symmetric] by (simp add: demo_chunks_def coalesced_def chunk_size_values)
qed

text \<open>C8: an allocation cut from the first free chunk can not be freed again: \<^verbatim>\<open>kfree\<close> of the
  pointer \<^verbatim>\<open>kmalloc\<close> returned reads the uninitialised \<^verbatim>\<open>tmp\<close>. On the heap as \<^verbatim>\<open>init_mem\<close> leaves it,
  one chunk of 64 KiB, this is every allocation.\<close>

theorem kfree_of_split_first_chunk_undefined:
  assumes "heap_inv hp m ((a, s) # hs)" and "sz \<le> 0xFF6" and "chunk_size sz < s"
  shows "\<exists>m'. kmalloc hp sz m = Inr (a + 2, m') \<and> kfree hp (a + 2) m' = Inl UninitRead"
proof -
  let ?r = "chunk_size sz"
  note r = chunk_size_facts [OF assms(2)]
  have b: "find (\<lambda>b. ?r \<le> snd b) ((a, s) # hs) = Some (a, s)"
    using assms(3) by (simp add: less_imp_le)
  from kmalloc_refines [OF assms(1,2) b] obtain m1 rest where
    km: "kmalloc hp sz m = Inr (a + 2, m1)" "take_chunk ?r ((a, s) # hs) = (a, rest)" "heap_inv hp m1 rest"
      "chunks_ok hp ((a, ?r) # rest)" "read16 m1 a = ucast ?r"
    by auto
  have "a < a + ?r"
    using assms(1,3) r(4)
    by (auto simp: heap_inv_def chunk_ok_def word_less_nat_alt u32_add_small unat_gt_0)
  moreover have "rest = (a + ?r, s - ?r) # hs" using km(2) assms(3) by (simp add: less_imp_le)
  ultimately have "free_spec (a, ?r) rest = Inl UninitRead" by (simp add: free_spec_def)
  moreover have "?r < 0x10000" using r(3) by (simp add: word_less_nat_alt)
  ultimately show ?thesis using kfree_refines [OF km(3-5)] km(1) by auto
qed

theorem kfree_of_split_first_chunk_undefined_witness:
  "\<exists>m'. kmalloc 0x100 4 demo_heap = Inr (0x2002, m') \<and> kfree 0x100 0x2002 m' = Inl UninitRead"
proof -
  have "heap_inv 0x100 demo_heap ((0x2000, 0x10) # tl demo_chunks)"
    using demo_heap_inv by (simp add: demo_chunks_def)
  from kfree_of_split_first_chunk_undefined [OF this, of 4] show ?thesis by (simp add: chunk_size_values)
qed

end
