(* ===== verification/Memmap.thy ===== *)
theory Memmap
  imports Memory
begin

text \<open>
  The physical memory map of \<^verbatim>\<open>kernel/paging.c\<close>: \<^verbatim>\<open>add_memmap\<close> and \<^verbatim>\<open>cut_memmap\<close> on the table of
  32 regions in \<^verbatim>\<open>struct kinfo\<close>, with the records of \<^verbatim>\<open>sys/multiboot.h\<close> and \<^verbatim>\<open>trunix/trunix.h\<close>.
  \<open>avail\<close> is the set of physical addresses the table offers, and the lemmas say what the two
  operations do to it. Both loops run over the slots of the table; the loop of \<^verbatim>\<open>cut_memmap\<close> may
  visit regions that \<^verbatim>\<open>add_memmap\<close> has put behind it, and reads \<^verbatim>\<open>mmap_n\<close> afresh in every round.
\<close>

section \<open>Data\<close>

record multiboot_mmap_entry =
  mme_size :: u32
  mme_addr :: u64
  mme_len :: u64
  mme_type :: u32

record multiboot_info =
  mbi_flags :: u32
  mem_lower :: u32
  mem_upper :: u32
  boot_device :: u32
  cmdline :: u32
  mods_count :: u32
  mods_addr :: u32
  mbi_u :: "u32 \<times> u32 \<times> u32 \<times> u32"
  mmap_length :: u32
  mmap_addr :: u32
  drives_length :: u32
  drives_addr :: u32
  config_table :: u32
  boot_loader_name :: u32
  apm_table :: u32
  vbe_control_info :: u32
  vbe_mode_info :: u32
  vbe_mode :: u16
  vbe_interface_seg :: u16
  vbe_interface_off :: u16
  vbe_interface_len :: u16
  framebuffer_addr :: u64
  framebuffer_pitch :: u32
  framebuffer_width :: u32
  framebuffer_height :: u32
  framebuffer_bpp :: u8
  framebuffer_type :: u8
  framebuffer_colors :: "u32 \<times> u32"

record kinfo =
  mbi :: multiboot_info
  memmap :: "multiboot_mmap_entry list"
  mmap_n :: nat
  mmap_len :: u32
  mem_high_phys :: u32
  free_pde_start :: u32
  initrd_start :: u32
  initrd_end :: u32
  ino_n :: u32
  ino_tbl :: u32
  dir_tbl :: u32

definition MAXMEMMAP :: nat where
  "MAXMEMMAP = 32"

definition MULTIBOOT_MEMORY_AVAILABLE :: u32 where
  "MULTIBOOT_MEMORY_AVAILABLE = 1"

text \<open>The static \<^verbatim>\<open>struct kinfo k\<close> of \<^verbatim>\<open>init.c\<close> starts out zeroed.\<close>

definition zero_mbi :: multiboot_info where
  "zero_mbi = \<lparr> mbi_flags = 0, mem_lower = 0, mem_upper = 0, boot_device = 0, cmdline = 0,
     mods_count = 0, mods_addr = 0, mbi_u = (0, 0, 0, 0), mmap_length = 0, mmap_addr = 0,
     drives_length = 0, drives_addr = 0, config_table = 0, boot_loader_name = 0, apm_table = 0,
     vbe_control_info = 0, vbe_mode_info = 0, vbe_mode = 0, vbe_interface_seg = 0,
     vbe_interface_off = 0, vbe_interface_len = 0, framebuffer_addr = 0, framebuffer_pitch = 0,
     framebuffer_width = 0, framebuffer_height = 0, framebuffer_bpp = 0, framebuffer_type = 0,
     framebuffer_colors = (0, 0) \<rparr>"

definition empty_entry :: multiboot_mmap_entry where
  "empty_entry = \<lparr> mme_size = 0, mme_addr = 0, mme_len = 0, mme_type = 0 \<rparr>"

definition kinfo0 :: kinfo where
  "kinfo0 = \<lparr> mbi = zero_mbi, memmap = replicate MAXMEMMAP empty_entry, mmap_n = 0, mmap_len = 0,
     mem_high_phys = 0, free_pde_start = 0, initrd_start = 0, initrd_end = 0, ino_n = 0, ino_tbl = 0,
     dir_tbl = 0 \<rparr>"

section \<open>The memory map\<close>

function add_memmap_from :: "kinfo \<Rightarrow> u64 \<Rightarrow> u64 \<Rightarrow> nat \<Rightarrow> kinfo res" where
  "add_memmap_from k addr len m =
     (if m < MAXMEMMAP
      then if mme_len (memmap k ! m) \<noteq> 0 then add_memmap_from k addr len (m + 1)
           else let e = (memmap k ! m)\<lparr> mme_addr := addr, mme_len := len,
                          mme_type := MULTIBOOT_MEMORY_AVAILABLE \<rparr>;
                    k = k\<lparr> memmap := (memmap k)[m := e] \<rparr>;
                    k = (if mmap_n k \<le> m then k\<lparr> mmap_n := m + 1 \<rparr> else k);
                    highmark = ucast (addr + len) :: u32;
                    k = (if mem_high_phys k < highmark then k\<lparr> mem_high_phys := highmark \<rparr> else k) in
             Inr k
      else Inl (Panic ''no available memmap slot''))"
  by pat_completeness auto
termination
  by (relation "measure (\<lambda>(k, addr, len, m). MAXMEMMAP - m)") auto

declare add_memmap_from.simps [simp del]

definition add_memmap :: "kinfo \<Rightarrow> u64 \<Rightarrow> u64 \<Rightarrow> kinfo res" where
  "add_memmap k addr len =
     (if len = 0 then Inr k
      else let addr = ucast (pg_roundup (ucast addr));
               len = ucast (pg_rounddown (ucast len)) in
        add_memmap_from k addr len 0)"

function cut_memmap_from :: "kinfo \<Rightarrow> u32 \<Rightarrow> u32 \<Rightarrow> nat \<Rightarrow> kinfo res" where
  "cut_memmap_from k start endp m =
     (if m < mmap_n k
      then if MAXMEMMAP \<le> m then Inl OutOfRange
      else let e = memmap k ! m;
               mme_start = ucast (mme_addr e) :: u32;
               mme_end = ucast (mme_addr e + mme_len e) :: u32;
               cut_start = (if start < mme_start then mme_start else start);
               cut_end = (if mme_end < endp then mme_end else endp) in
        if cut_end \<le> cut_start then cut_memmap_from k start endp (m + 1)
        else bindE (let k = k\<lparr> memmap := (memmap k)[m := e\<lparr> mme_addr := 0, mme_len := 0 \<rparr>] \<rparr> in
                    if mme_start < cut_start then add_memmap k (ucast mme_start) (ucast (cut_start - mme_start))
                    else Inr k) (\<lambda>k.
             bindE (if cut_end < mme_end then add_memmap k (ucast cut_end) (ucast (mme_end - cut_end))
                    else Inr k) (\<lambda>k.
               cut_memmap_from k start endp (m + 1)))
      else Inr k)"
  by pat_completeness auto
termination
  by (relation "measure (\<lambda>(k, start, endp, m). MAXMEMMAP - m)") auto

declare cut_memmap_from.simps [simp del]

definition cut_memmap :: "kinfo \<Rightarrow> u32 \<Rightarrow> u32 \<Rightarrow> kinfo res" where
  "cut_memmap k start endp = cut_memmap_from k (pg_rounddown start) (pg_roundup endp) 0"

section \<open>What the map offers\<close>

definition region :: "multiboot_mmap_entry \<Rightarrow> nat set" where
  "region e = {unat (mme_addr e) ..< unat (mme_addr e) + unat (mme_len e)}"

definition avail :: "kinfo \<Rightarrow> nat set" where
  "avail k = (\<Union>e \<in> set (memmap k). region e)"

definition entry_ok :: "multiboot_mmap_entry \<Rightarrow> bool" where
  "entry_ok e \<longleftrightarrow> 4096 dvd unat (mme_addr e) \<and> 4096 dvd unat (mme_len e) \<and>
     unat (mme_addr e) + unat (mme_len e) < 2 ^ 32"

definition memmap_ok :: "kinfo \<Rightarrow> bool" where
  "memmap_ok k \<longleftrightarrow> length (memmap k) = MAXMEMMAP \<and> (\<forall>e \<in> set (memmap k). entry_ok e) \<and>
     mmap_n k \<le> MAXMEMMAP \<and> (\<forall>i. mmap_n k \<le> i \<longrightarrow> i < MAXMEMMAP \<longrightarrow> mme_len (memmap k ! i) = 0)"

definition free_slots :: "kinfo \<Rightarrow> nat" where
  "free_slots k = card {i. i < MAXMEMMAP \<and> mme_len (memmap k ! i) = 0}"

lemma add_memmap_from_finds:
  assumes "j < MAXMEMMAP" and "mme_len (memmap k ! j) = 0"
    and "\<forall>i. m \<le> i \<longrightarrow> i < j \<longrightarrow> mme_len (memmap k ! i) \<noteq> 0" and "m \<le> j"
  shows "add_memmap_from k addr len m = add_memmap_from k addr len j"
  using assms
proof (induction "j - m" arbitrary: m)
  case (Suc n)
  then have "mme_len (memmap k ! m) \<noteq> 0" "m < MAXMEMMAP" by auto
  then have "add_memmap_from k addr len m = add_memmap_from k addr len (m + 1)"
    by (subst add_memmap_from.simps) simp
  also have "\<dots> = add_memmap_from k addr len j" using Suc by (intro Suc.hyps(1)) auto
  finally show ?case .
qed simp


text \<open>\<^verbatim>\<open>add_memmap\<close> of a page-aligned region fills the first free slot with it.\<close>

definition fill_slot :: "kinfo \<Rightarrow> nat \<Rightarrow> u64 \<Rightarrow> u64 \<Rightarrow> kinfo" where
  "fill_slot k j addr len = k\<lparr> memmap := (memmap k)[j := (memmap k ! j)\<lparr> mme_addr := addr, mme_len := len,
       mme_type := MULTIBOOT_MEMORY_AVAILABLE \<rparr>], mmap_n := max (mmap_n k) (j + 1),
     mem_high_phys := max (mem_high_phys k) (ucast (addr + len)) \<rparr>"

lemma add_memmap_from_first:
  assumes "0 < free_slots k"
  obtains j where "j < MAXMEMMAP" and "mme_len (memmap k ! j) = 0"
    and "\<And>addr len. add_memmap_from k addr len 0 = Inr (fill_slot k j addr len)"
proof -
  let ?P = "\<lambda>i. i < MAXMEMMAP \<and> mme_len (memmap k ! i) = 0"
  have "\<exists>i. ?P i" using assms by (auto simp: free_slots_def card_gt_0_iff)
  then obtain j where *: "?P j" "\<And>i. i < j \<Longrightarrow> \<not> ?P i"
    using exists_least_iff [of ?P] by blast
  have "add_memmap_from k addr len 0 = Inr (fill_slot k j addr len)" for addr len
  proof -
    have "add_memmap_from k addr len 0 = add_memmap_from k addr len j"
      using * by (intro add_memmap_from_finds) auto
    also have "\<dots> = Inr (fill_slot k j addr len)"
      using * by (subst add_memmap_from.simps) (auto simp: Let_def fill_slot_def max_def not_le)
    finally show ?thesis .
  qed
  with * show thesis using that by blast
qed

lemma pg_rounding_u64:
  assumes "4096 dvd unat (x :: u64)" and "unat x < 4294967296"
  shows "ucast (pg_roundup (ucast x)) = x" and "ucast (pg_rounddown (ucast x)) = x"
proof -
  have u: "unat (ucast x :: u32) = unat x" using assms(2) by (simp add: unat_u64_u32)
  then have al: "aligned 4096 (ucast x)" using assms(1) by (simp add: aligned_def dvd_eq_mod_eq_0)
  have "ucast (ucast x :: u32) = x" by (simp add: word_unat_eq_iff unat_u32_u64 u)
  then show "ucast (pg_roundup (ucast x)) = x" "ucast (pg_rounddown (ucast x)) = x"
    using al by (simp_all add: pg_roundup_id pg_rounddown_id)
qed

text \<open>The slots whose region meets a range, and so the ones \<^verbatim>\<open>cut_memmap\<close> still has to cut.\<close>

definition dirty :: "kinfo \<Rightarrow> nat set \<Rightarrow> nat set" where
  "dirty k C = {i. i < MAXMEMMAP \<and> region (memmap k ! i) \<inter> C \<noteq> {}}"

lemma finite_dirty [simp]: "finite (dirty k C)"
  by (simp add: dirty_def)

lemma avail_nth: "length (memmap k) = MAXMEMMAP \<Longrightarrow> avail k = (\<Union>i < MAXMEMMAP. region (memmap k ! i))"
  by (force simp: avail_def in_set_conv_nth)

lemma empty_region: "mme_len e = 0 \<Longrightarrow> region e = {}"
  by (simp add: region_def)

lemma fill_slot_facts:
  assumes ok: "memmap_ok k" and j: "j < MAXMEMMAP" "mme_len (memmap k ! j) = 0"
    and al: "4096 dvd unat addr" "4096 dvd unat len" "unat addr + unat len < 2 ^ 32" and len: "len \<noteq> 0"
  defines "R \<equiv> {unat addr ..< unat addr + unat len}" and "k' \<equiv> fill_slot k j addr len"
  shows "memmap_ok k'" and "avail k' = avail k \<union> R" and "free_slots k = free_slots k' + 1"
    and "R \<inter> C = {} \<Longrightarrow> dirty k' C = dirty k C"
proof -
  have nth: "memmap k' ! i = (if i = j then (memmap k ! j)\<lparr> mme_addr := addr, mme_len := len,
      mme_type := MULTIBOOT_MEMORY_AVAILABLE \<rparr> else memmap k ! i)" if "i < MAXMEMMAP" for i
    using ok j that by (simp add: k'_def fill_slot_def memmap_ok_def)
  have len': "length (memmap k') = MAXMEMMAP" using ok by (simp add: k'_def fill_slot_def memmap_ok_def)
  have reg: "region (memmap k' ! i) = (if i = j then R else region (memmap k ! i))" if "i < MAXMEMMAP" for i
    using nth [OF that] by (simp add: region_def R_def)
  have rj: "region (memmap k ! j) = {}" using j(2) by (rule empty_region)
  have "entry_ok e" if "e \<in> set (memmap k')" for e
    using that ok al set_update_subset_insert [of "memmap k" j]
    by (fastforce simp: k'_def fill_slot_def memmap_ok_def entry_ok_def)
  moreover have "mmap_n k' = max (mmap_n k) (j + 1)" by (simp add: k'_def fill_slot_def)
  ultimately show "memmap_ok k'" using len' ok j nth by (auto simp: memmap_ok_def)
  show "avail k' = avail k \<union> R"
    using avail_nth [OF len'] avail_nth [of k] ok reg rj j(1) by (fastforce simp: memmap_ok_def)
  have "{i. i < MAXMEMMAP \<and> mme_len (memmap k ! i) = 0}
      = insert j {i. i < MAXMEMMAP \<and> mme_len (memmap k' ! i) = 0}"
    using j nth len by (auto split: if_splits)
  moreover have "j \<notin> {i. i < MAXMEMMAP \<and> mme_len (memmap k' ! i) = 0}" using nth len by auto
  ultimately show "free_slots k = free_slots k' + 1" by (simp add: free_slots_def)
  show "dirty k' C = dirty k C" if "R \<inter> C = {}"
    using that reg rj by (auto simp: dirty_def split: if_splits)
qed

lemma add_memmap_piece:
  assumes "memmap_ok k" and "0 < free_slots k"
    and al: "4096 dvd unat addr" "4096 dvd unat len" "unat addr + unat len < 2 ^ 32" "len \<noteq> 0"
  shows "\<exists>k'. add_memmap k addr len = Inr k' \<and> memmap_ok k' \<and>
    avail k' = avail k \<union> {unat addr ..< unat addr + unat len} \<and> free_slots k = free_slots k' + 1 \<and>
    (\<forall>C. {unat addr ..< unat addr + unat len} \<inter> C = {} \<longrightarrow> dirty k' C = dirty k C)"
proof -
  obtain j where j: "j < MAXMEMMAP" "mme_len (memmap k ! j) = 0"
      "\<And>addr len. add_memmap_from k addr len 0 = Inr (fill_slot k j addr len)"
    using add_memmap_from_first [OF assms(2)] by blast
  have "add_memmap k addr len = Inr (fill_slot k j addr len)"
    using al j(3) by (simp add: add_memmap_def pg_rounding_u64)
  then show ?thesis using fill_slot_facts [OF assms(1) j(1,2) al] by blast
qed

lemma piece_facts:
  assumes "aligned 4096 x" and "aligned 4096 y" and "x < (y :: u32)"
  shows "4096 dvd unat (ucast x :: u64)" and "4096 dvd unat (ucast (y - x) :: u64)"
    and "unat (ucast x :: u64) + unat (ucast (y - x) :: u64) = unat y" and "ucast (y - x) \<noteq> (0 :: u64)"
  using assms by (auto simp: unat_u32_u64 aligned_def u32_sub_small word_less_nat_alt word_le_nat_alt
      word_unat_eq_iff dvd_eq_mod_eq_0 [symmetric])

lemma maybe_add:
  assumes "memmap_ok k" and "0 < free_slots k" and "aligned 4096 x" "aligned 4096 y"
    and "{unat x ..< unat y} \<inter> C = {}"
  shows "\<exists>k'. (if x < y then add_memmap k (ucast x) (ucast (y - x)) else Inr k) = Inr k' \<and> memmap_ok k' \<and>
    avail k' = avail k \<union> {unat x ..< unat y} \<and> free_slots k \<le> free_slots k' + 1 \<and> dirty k' C = dirty k C"
proof (cases "x < y")
  case True
  note p = piece_facts [OF assms(3,4) True]
  have "unat (ucast x :: u64) + unat (ucast (y - x) :: u64) < 2 ^ 32" using p(3) by simp
  from add_memmap_piece [OF assms(1,2) p(1,2) this p(4)] show ?thesis
    using True assms(5) p(3) unat_u32_u64 [of x] by auto
next
  case False
  then show ?thesis using assms(1) by (auto simp: word_less_nat_alt)
qed

definition clear_slot :: "kinfo \<Rightarrow> nat \<Rightarrow> kinfo" where
  "clear_slot k m = k\<lparr> memmap := (memmap k)[m := (memmap k ! m)\<lparr> mme_addr := 0, mme_len := 0 \<rparr>] \<rparr>"

lemma clear_slot_facts:
  assumes ok: "memmap_ok k" and m: "m < MAXMEMMAP" and ne: "region (memmap k ! m) \<noteq> {}"
  shows "memmap_ok (clear_slot k m)" and "avail k = avail (clear_slot k m) \<union> region (memmap k ! m)"
    and "free_slots (clear_slot k m) = free_slots k + 1"
    and "dirty (clear_slot k m) C = dirty k C - {m}"
proof -
  let ?k = "clear_slot k m"
  have nth: "memmap ?k ! i = (if i = m then (memmap k ! m)\<lparr> mme_addr := 0, mme_len := 0 \<rparr> else memmap k ! i)"
    if "i < MAXMEMMAP" for i
    using ok that by (simp add: clear_slot_def memmap_ok_def)
  have len: "length (memmap ?k) = MAXMEMMAP" using ok by (simp add: clear_slot_def memmap_ok_def)
  have reg: "region (memmap ?k ! i) = (if i = m then {} else region (memmap k ! i))" if "i < MAXMEMMAP" for i
    using nth [OF that] by (simp add: region_def)
  have "entry_ok e" if "e \<in> set (memmap ?k)" for e
    using that ok set_update_subset_insert [of "memmap k" m]
    by (fastforce simp: clear_slot_def memmap_ok_def entry_ok_def)
  moreover have "mmap_n ?k = mmap_n k" by (simp add: clear_slot_def)
  ultimately show "memmap_ok ?k" using len ok nth by (auto simp: memmap_ok_def)
  show "avail k = avail ?k \<union> region (memmap k ! m)"
    using avail_nth [OF len] avail_nth [of k] ok reg m by (auto simp: memmap_ok_def split: if_splits)
  have "{i. i < MAXMEMMAP \<and> mme_len (memmap ?k ! i) = 0}
      = insert m {i. i < MAXMEMMAP \<and> mme_len (memmap k ! i) = 0}"
    using m nth by (auto split: if_splits)
  moreover have "m \<notin> {i. i < MAXMEMMAP \<and> mme_len (memmap k ! i) = 0}" using ne empty_region by auto
  ultimately show "free_slots ?k = free_slots k + 1" by (simp add: free_slots_def)
  show "dirty ?k C = dirty k C - {m}" using reg by (auto simp: dirty_def split: if_splits)
qed

lemma cut_step:
  fixes start endp :: u32
  assumes ok: "memmap_ok k" and m: "m < MAXMEMMAP" and al: "aligned 4096 start" "aligned 4096 endp"
    and few: "card (dirty k {unat start ..< unat endp}) \<le> free_slots k"
  defines "C \<equiv> {unat start ..< unat endp}" and "e \<equiv> memmap k ! m"
  defines "s \<equiv> ucast (mme_addr e) :: u32" and "t \<equiv> ucast (mme_addr e + mme_len e) :: u32"
  defines "cs \<equiv> if start < s then s else start" and "ce \<equiv> if t < endp then t else endp"
  shows "ce \<le> cs \<Longrightarrow> m \<notin> dirty k C"
    and "\<not> ce \<le> cs \<Longrightarrow> \<exists>k1 k2.
      (if s < cs then add_memmap (clear_slot k m) (ucast s) (ucast (cs - s)) else Inr (clear_slot k m)) = Inr k1 \<and>
      (if ce < t then add_memmap k1 (ucast ce) (ucast (t - ce)) else Inr k1) = Inr k2 \<and>
      memmap_ok k2 \<and> avail k - C \<subseteq> avail k2 \<and> avail k2 \<subseteq> avail k \<and>
      dirty k2 C = dirty k C - {m} \<and> card (dirty k2 C) \<le> free_slots k2 \<and>
      free_slots k \<le> free_slots k2 + 1 \<and> m \<in> dirty k C"
proof -
  note few = few [folded C_def]
  have eok: "entry_ok e" using ok m by (simp add: memmap_ok_def e_def)
  have s: "unat s = unat (mme_addr e)" using eok by (simp add: s_def entry_ok_def unat_u64_u32)
  have t: "unat t = unat (mme_addr e) + unat (mme_len e)"
    using eok by (simp add: t_def entry_ok_def unat_u64_u32 unat_word_ariths)
  have reg: "region e = {unat s ..< unat t}" using s t by (simp add: region_def)
  have alst: "aligned 4096 s" "aligned 4096 t"
    using eok s t by (auto simp: aligned_def entry_ok_def simp flip: dvd_eq_mod_eq_0)
  then have alc: "aligned 4096 cs" "aligned 4096 ce" using al by (auto simp: cs_def ce_def)
  have cs: "unat cs = max (unat s) (unat start)" and ce: "unat ce = min (unat t) (unat endp)"
    by (auto simp: cs_def ce_def word_less_nat_alt)
  show "m \<notin> dirty k C" if "ce \<le> cs"
    using that cs ce reg by (auto simp: dirty_def e_def [symmetric] C_def word_le_nat_alt)
  assume "\<not> ce \<le> cs"
  then have lt: "unat cs < unat ce" by (simp add: word_le_nat_alt)
  then have ne: "region (memmap k ! m) \<noteq> {}" and dm: "m \<in> dirty k C"
    using cs ce reg m by (auto simp: dirty_def e_def [symmetric] C_def)
  note cl = clear_slot_facts [OF ok m ne]
  have cd: "card (dirty k C) = card (dirty k C - {m}) + 1"
    using dm by (metis Suc_eq_plus1 card.remove finite_dirty)
  have d1: "{unat s ..< unat cs} \<inter> C = {}" using cs by (simp add: C_def max_def)
  have d2: "{unat ce ..< unat t} \<inter> C = {}" using ce by (simp add: C_def min_def)
  have "0 < free_slots (clear_slot k m)" by (simp add: cl(3))
  from maybe_add [OF cl(1) this alst(1) alc(1) d1] obtain k1 where k1:
    "(if s < cs then add_memmap (clear_slot k m) (ucast s) (ucast (cs - s)) else Inr (clear_slot k m)) = Inr k1"
    "memmap_ok k1" "avail k1 = avail (clear_slot k m) \<union> {unat s ..< unat cs}"
    "free_slots (clear_slot k m) \<le> free_slots k1 + 1" "dirty k1 C = dirty (clear_slot k m) C" by blast
  have "0 < free_slots k1" using k1(4) cl(3) few cd by linarith
  from maybe_add [OF k1(2) this alc(2) alst(2) d2] obtain k2 where k2:
    "(if ce < t then add_memmap k1 (ucast ce) (ucast (t - ce)) else Inr k1) = Inr k2"
    "memmap_ok k2" "avail k2 = avail k1 \<union> {unat ce ..< unat t}"
    "free_slots k1 \<le> free_slots k2 + 1" "dirty k2 C = dirty k1 C" by blast
  have "unat s \<le> unat cs" "unat cs \<le> unat ce" "unat ce \<le> unat t"
    using cs ce lt by simp_all
  then have "region e = {unat s ..< unat cs} \<union> {unat cs ..< unat ce} \<union> {unat ce ..< unat t}"
    by (simp only: reg ivl_disj_un_two(3) order_trans)
  moreover have "{unat cs ..< unat ce} \<subseteq> C" using cs ce by (auto simp: C_def)
  moreover have "avail k = avail (clear_slot k m) \<union> region e"
    "avail k2 = avail (clear_slot k m) \<union> {unat s ..< unat cs} \<union> {unat ce ..< unat t}"
    using cl(2) k1(3) k2(3) by (simp_all add: e_def)
  ultimately have "avail k - C \<subseteq> avail k2" "avail k2 \<subseteq> avail k" by blast+
  moreover have "dirty k2 C = dirty k C - {m}" using k1(5) k2(5) cl(4) by simp
  moreover have "card (dirty k2 C) \<le> free_slots k2"
    using k1(4) k2(4) cl(3) few cd calculation(3) by simp
  moreover have "free_slots k \<le> free_slots k2 + 1" using k1(4) k2(4) cl(3) by simp
  ultimately show "\<exists>k1 k2.
      (if s < cs then add_memmap (clear_slot k m) (ucast s) (ucast (cs - s)) else Inr (clear_slot k m)) = Inr k1 \<and>
      (if ce < t then add_memmap k1 (ucast ce) (ucast (t - ce)) else Inr k1) = Inr k2 \<and>
      memmap_ok k2 \<and> avail k - C \<subseteq> avail k2 \<and> avail k2 \<subseteq> avail k \<and>
      dirty k2 C = dirty k C - {m} \<and> card (dirty k2 C) \<le> free_slots k2 \<and>
      free_slots k \<le> free_slots k2 + 1 \<and> m \<in> dirty k C"
    using k1(1) k2(1,2) dm by blast
qed

lemma cut_memmap_from_correct:
  fixes start endp :: u32
  assumes "memmap_ok k" and al: "aligned 4096 start" "aligned 4096 endp"
    and "card (dirty k {unat start ..< unat endp}) \<le> free_slots k"
    and "\<forall>i \<in> dirty k {unat start ..< unat endp}. m \<le> i"
  shows "\<exists>k'. cut_memmap_from k start endp m = Inr k' \<and> memmap_ok k' \<and>
    avail k' = avail k - {unat start ..< unat endp} \<and>
    free_slots k \<le> free_slots k' + card (dirty k {unat start ..< unat endp})"
  using assms(1,4,5)
proof (induction "MAXMEMMAP - m" arbitrary: k m rule: less_induct)
  case less
  let ?C = "{unat start ..< unat endp}"
  show ?case
  proof (cases "m < mmap_n k")
    case False
    have "i \<notin> dirty k ?C" for i
      using less.prems(1,3) False empty_region [of "memmap k ! i"]
      by (fastforce simp: memmap_ok_def dirty_def)
    then have "avail k \<inter> ?C = {}"
      using avail_nth [of k] less.prems(1) by (fastforce simp: dirty_def memmap_ok_def)
    then show ?thesis
      using False less.prems(1) by (subst cut_memmap_from.simps) (auto simp: Diff_triv)
  next
    case True
    then have m: "m < MAXMEMMAP" using less.prems(1) by (simp add: memmap_ok_def)
    note st = cut_step [OF less.prems(1) m al less.prems(2)]
    let ?e = "memmap k ! m"
    let ?s = "ucast (mme_addr ?e) :: u32" and ?t = "ucast (mme_addr ?e + mme_len ?e) :: u32"
    let ?cs = "if start < ?s then ?s else start" and ?ce = "if ?t < endp then ?t else endp"
    show ?thesis
    proof (cases "?ce \<le> ?cs")
      case skip: True
      have "\<forall>i \<in> dirty k ?C. m + 1 \<le> i"
        using st(1) [OF skip] less.prems(3) by (metis Suc_eq_plus1 Suc_leI le_neq_implies_less)
      from less.hyps [OF _ less.prems(1,2) this] m True skip show ?thesis
        by (subst cut_memmap_from.simps) (simp add: Let_def)
    next
      case cut: False
      from st(2) [OF cut] obtain k1 k2 where k:
        "(if ?s < ?cs then add_memmap (clear_slot k m) (ucast ?s) (ucast (?cs - ?s)) else Inr (clear_slot k m)) = Inr k1"
        "(if ?ce < ?t then add_memmap k1 (ucast ?ce) (ucast (?t - ?ce)) else Inr k1) = Inr k2"
        "memmap_ok k2" "avail k - ?C \<subseteq> avail k2" "avail k2 \<subseteq> avail k"
        "dirty k2 ?C = dirty k ?C - {m}" "card (dirty k2 ?C) \<le> free_slots k2"
        "free_slots k \<le> free_slots k2 + 1" "m \<in> dirty k ?C" by blast
      have cd: "card (dirty k ?C) = card (dirty k2 ?C) + 1"
        using k(6,9) by (metis Suc_eq_plus1 card.remove finite_dirty)
      have eq: "cut_memmap_from k start endp m = cut_memmap_from k2 start endp (m + 1)"
        using True m cut k(1,2)
        by (subst cut_memmap_from.simps) (simp only: Let_def not_less [symmetric] if_False if_True
            not_not clear_slot_def bindE_simps not_True_eq_False)
      have "\<forall>i \<in> dirty k2 ?C. m + 1 \<le> i"
        using k(6) less.prems(3) by (metis DiffE Suc_eq_plus1 Suc_leI insertI1 le_neq_implies_less)
      moreover have "MAXMEMMAP - (m + 1) < MAXMEMMAP - m" using m by simp
      ultimately obtain k' where k': "cut_memmap_from k2 start endp (m + 1) = Inr k'" "memmap_ok k'"
          "avail k' = avail k2 - ?C" "free_slots k2 \<le> free_slots k' + card (dirty k2 ?C)"
        using less.hyps [OF _ k(3,7), of "m + 1"] by blast
      have "avail k' = avail k - ?C" using k(4,5) k'(3) by blast
      moreover have "free_slots k \<le> free_slots k' + card (dirty k ?C)" using k(8) k'(4) cd by linarith
      ultimately show ?thesis using eq k'(1,2) by auto
    qed
  qed
qed

definition used_slots :: "kinfo \<Rightarrow> nat" where
  "used_slots k = card {i. i < MAXMEMMAP \<and> mme_len (memmap k ! i) \<noteq> 0}"

lemma slots: "free_slots k + used_slots k = MAXMEMMAP" "card (dirty k C) \<le> used_slots k"
proof -
  have "{i. i < MAXMEMMAP \<and> mme_len (memmap k ! i) = 0} \<union> {i. i < MAXMEMMAP \<and> mme_len (memmap k ! i) \<noteq> 0}
      = {..< MAXMEMMAP}" by auto
  moreover have "{i. i < MAXMEMMAP \<and> mme_len (memmap k ! i) = 0} \<inter> {i. i < MAXMEMMAP \<and> mme_len (memmap k ! i) \<noteq> 0}
      = {}" by auto
  ultimately show "free_slots k + used_slots k = MAXMEMMAP"
    by (simp add: free_slots_def used_slots_def flip: card_Un_disjoint)
  show "card (dirty k C) \<le> used_slots k"
    unfolding used_slots_def by (rule card_mono) (auto simp: dirty_def region_def)
qed

lemma cut_memmap_range:
  assumes "memmap_ok k" and "2 * used_slots k \<le> MAXMEMMAP"
  shows "\<exists>k'. cut_memmap k start endp = Inr k' \<and> memmap_ok k' \<and>
    avail k' = avail k - {unat (pg_rounddown start) ..< unat (pg_roundup endp)} \<and>
    used_slots k' \<le> 2 * used_slots k"
proof -
  let ?C = "{unat (pg_rounddown start) ..< unat (pg_roundup endp)}"
  have "card (dirty k ?C) \<le> free_slots k"
    using slots(1) [of k] slots(2) [of k ?C] assms(2) by linarith
  then obtain k' where "cut_memmap k start endp = Inr k'" "memmap_ok k'" "avail k' = avail k - ?C"
      "free_slots k \<le> free_slots k' + card (dirty k ?C)"
    using cut_memmap_from_correct [OF assms(1) aligned_pg_rounddown aligned_pg_roundup, of start endp 0]
    by (auto simp: cut_memmap_def)
  then show ?thesis using slots(1) [of k] slots(1) [of k'] slots(2) [of k ?C] by auto
qed

lemma add_memmap_from_full:
  "\<forall>i. m \<le> i \<longrightarrow> i < MAXMEMMAP \<longrightarrow> mme_len (memmap k ! i) \<noteq> 0 \<Longrightarrow>
   add_memmap_from k addr len m = Inl (Panic ''no available memmap slot'')"
proof (induction "MAXMEMMAP - m" arbitrary: m)
  case 0
  then show ?case by (subst add_memmap_from.simps) simp
next
  case (Suc n)
  then have "mme_len (memmap k ! m) \<noteq> 0" "m < MAXMEMMAP" by auto
  then have "add_memmap_from k addr len m = add_memmap_from k addr len (m + 1)"
    by (subst add_memmap_from.simps) simp
  then show ?case using Suc.hyps(1) [of "m + 1"] Suc.hyps(2) Suc.prems by simp
qed

lemma rounded_entry:
  fixes addr len :: u64
  assumes "unat addr + unat len < 2 ^ 32 - 4096" and "4096 \<le> unat len"
  defines "a \<equiv> ucast (pg_roundup (ucast addr)) :: u64" and "l \<equiv> ucast (pg_rounddown (ucast len)) :: u64"
  shows "4096 dvd unat a" and "4096 dvd unat l" and "unat a + unat l < 2 ^ 32" and "l \<noteq> 0"
    and "unat a = unat addr + (if unat addr mod 4096 = 0 then 0 else 4096 - unat addr mod 4096)"
    and "unat l = unat len - unat len mod 4096"
proof -
  have ua: "unat (ucast addr :: u32) = unat addr" and ul: "unat (ucast len :: u32) = unat len"
    using assms(1) by (simp_all add: unat_u64_u32)
  show a: "unat a = unat addr + (if unat addr mod 4096 = 0 then 0 else 4096 - unat addr mod 4096)"
    using assms(1) unat_roundup [of "0x1000" "ucast addr"]
    by (simp add: a_def unat_u32_u64 pg_roundup_def ua)
  show l: "unat l = unat len - unat len mod 4096"
    using unat_rounddown [of "ucast len" "0x1000"] by (simp add: l_def unat_u32_u64 pg_rounddown_def ul)
  show "4096 dvd unat a" "4096 dvd unat l"
    using aligned_pg_roundup [of "ucast addr"] aligned_pg_rounddown [of "ucast len"]
    by (simp_all add: a_def l_def unat_u32_u64 aligned_def dvd_eq_mod_eq_0)
  show "unat a + unat l < 2 ^ 32" using a l assms(1) by (simp split: if_splits)
  have "0 < unat l" using l assms(2) by (simp add: less_le_trans [OF mod_less_divisor])
  then show "l \<noteq> 0" by auto
qed

lemma add_memmap_effect:
  assumes "memmap_ok k" and "unat addr + unat len < 2 ^ 32 - 4096" and "4096 \<le> unat len"
  defines "a \<equiv> unat addr + (if unat addr mod 4096 = 0 then 0 else 4096 - unat addr mod 4096)"
    and "l \<equiv> unat len - unat len mod 4096"
  shows "if 0 < free_slots k
    then \<exists>k'. add_memmap k addr len = Inr k' \<and> memmap_ok k' \<and> avail k' = avail k \<union> {a ..< a + l} \<and>
      free_slots k = free_slots k' + 1
    else add_memmap k addr len = Inl (Panic ''no available memmap slot'')"
proof (cases "0 < free_slots k")
  case True
  note r = rounded_entry [OF assms(2,3)]
  obtain j where j: "j < MAXMEMMAP" "mme_len (memmap k ! j) = 0"
      "\<And>addr len. add_memmap_from k addr len 0 = Inr (fill_slot k j addr len)"
    using add_memmap_from_first [OF True] by blast
  have "len \<noteq> 0" using assms(3) by auto
  then show ?thesis
    using fill_slot_facts [OF assms(1) j(1,2) r(1-4)] r(5,6) True j(3)
    by (simp add: add_memmap_def a_def l_def)
next
  case False
  then have "\<forall>i. i < MAXMEMMAP \<longrightarrow> mme_len (memmap k ! i) \<noteq> 0" by (auto simp: free_slots_def card_gt_0_iff)
  moreover have "len \<noteq> 0" using assms(3) by auto
  ultimately show ?thesis using False add_memmap_from_full [of 0 k] by (simp add: add_memmap_def)
qed

section \<open>Properties\<close>

lemma kinfo0_ok: "memmap_ok kinfo0" "free_slots kinfo0 = 32" "avail kinfo0 = {}" "dirty kinfo0 C = {}"
proof -
  have "{i. i < MAXMEMMAP \<and> mme_len (memmap kinfo0 ! i) = 0} = {..< 32}"
    by (auto simp: kinfo0_def empty_entry_def MAXMEMMAP_def)
  then show "free_slots kinfo0 = 32" by (simp add: free_slots_def)
  show "memmap_ok kinfo0" "avail kinfo0 = {}" "dirty kinfo0 C = {}"
    by (auto simp: memmap_ok_def kinfo0_def empty_entry_def entry_ok_def avail_def region_def dirty_def)
qed

text \<open>A machine with 7 MiB from 1 MiB on.\<close>

definition demo_map :: kinfo where
  "demo_map = fill_slot kinfo0 0 0x100000 0x700000"

lemma demo_map_ok: "memmap_ok demo_map" "avail demo_map = {0x100000 ..< 0x800000}"
  "free_slots demo_map = 31" "used_slots demo_map = 1"
proof -
  have j: "0 < MAXMEMMAP" "mme_len (memmap kinfo0 ! 0) = 0"
    by (simp_all add: MAXMEMMAP_def kinfo0_def empty_entry_def)
  have al: "4096 dvd unat (0x100000 :: u64)" "4096 dvd unat (0x700000 :: u64)"
    "unat (0x100000 :: u64) + unat (0x700000 :: u64) < 2 ^ 32" "(0x700000 :: u64) \<noteq> 0" by simp_all
  note f = fill_slot_facts [OF kinfo0_ok(1) j al]
  show "memmap_ok demo_map" "avail demo_map = {0x100000 ..< 0x800000}" "free_slots demo_map = 31"
    using f(1-3) kinfo0_ok(2,3) by (simp_all add: demo_map_def)
  then show "used_slots demo_map = 1" using slots(1) [of demo_map] by (simp add: MAXMEMMAP_def)
qed

text \<open>\<^verbatim>\<open>add_memmap\<close> of a region of at least a page below 4 GiB fills exactly one free slot with the
  region from the page-rounded address on, of the length rounded down, and panics when no slot is
  free.\<close>

theorem add_memmap_correct:
  assumes "memmap_ok k" and "unat addr + unat len < 2 ^ 32 - 4096" and "4096 \<le> unat len"
  defines "a \<equiv> unat addr + (if unat addr mod 4096 = 0 then 0 else 4096 - unat addr mod 4096)"
    and "l \<equiv> unat len - unat len mod 4096"
  shows "if 0 < free_slots k
    then \<exists>k'. add_memmap k addr len = Inr k' \<and> memmap_ok k' \<and> avail k' = avail k \<union> {a ..< a + l} \<and>
      free_slots k = free_slots k' + 1
    else add_memmap k addr len = Inl (Panic ''no available memmap slot'')"
  unfolding a_def l_def by (rule add_memmap_effect [OF assms(1-3)])

theorem add_memmap_correct_witness:
  "\<exists>k'. add_memmap demo_map 0x1000800 0x2000 = Inr k' \<and> memmap_ok k' \<and>
     avail k' = {0x100000 ..< 0x800000} \<union> {0x1001000 ..< 0x1003000}"
  using add_memmap_correct [OF demo_map_ok(1), of "0x1000800" "0x2000"]
  by (auto simp: demo_map_ok)

text \<open>When the address is not page aligned and the length is a multiple of the page size,
  \<^verbatim>\<open>add_memmap\<close> records a region that reaches past the end of the one it was given: the address is
  rounded up but the length is not shortened.\<close>

theorem add_memmap_past_the_end:
  assumes "memmap_ok k" and "0 < free_slots k" and "unat addr + unat len < 2 ^ 32 - 4096"
    and "4096 dvd unat len" and "0 < unat len" and "\<not> 4096 dvd unat addr"
  shows "\<exists>k'. add_memmap k addr len = Inr k' \<and> unat addr + unat len \<in> avail k'"
proof -
  have "4096 \<le> unat len" using assms(4,5) by (simp add: dvd_imp_le)
  moreover have "0 < unat addr mod 4096" using assms(6) by (simp add: dvd_eq_mod_eq_0)
  ultimately show ?thesis
    using add_memmap_effect [OF assms(1,3)] assms(2,4) by (auto simp: dvd_eq_mod_eq_0)
qed

theorem add_memmap_past_the_end_witness:
  "\<exists>k'. add_memmap demo_map 0x1000800 0x2000 = Inr k' \<and> 0x1002800 \<in> avail k'"
  using add_memmap_past_the_end [OF demo_map_ok(1), of "0x1000800" "0x2000"]
  by (simp add: demo_map_ok)

text \<open>C11: \<^verbatim>\<open>cut_memmap\<close> returns and takes exactly the pages that meet the given range out of the
  available memory, splitting the entries it has to, as long as the map is at most half full.\<close>

theorem cut_memmap_correct:
  assumes "memmap_ok k" and "2 * used_slots k \<le> MAXMEMMAP"
  shows "\<exists>k'. cut_memmap k start endp = Inr k' \<and> memmap_ok k' \<and>
    avail k' = avail k - {unat (pg_rounddown start) ..< unat (pg_roundup endp)} \<and>
    used_slots k' \<le> 2 * used_slots k"
  using cut_memmap_range [OF assms] .

theorem cut_memmap_correct_witness:
  "\<exists>k'. cut_memmap demo_map 0x400000 0x456789 = Inr k' \<and>
     avail k' = {0x100000 ..< 0x400000} \<union> {0x457000 ..< 0x800000}"
proof -
  have "pg_rounddown 0x400000 = 0x400000" "pg_roundup 0x456789 = 0x457000"
    by (simp_all add: pg_rounddown_def rounddown_def pg_roundup_def roundup_def)
  moreover have "{0x100000 ..< 0x800000} - {0x400000 ..< 0x457000} =
      {0x100000 ..< 0x400000} \<union> {0x457000 ..< 0x800000 :: nat}" by auto
  ultimately show ?thesis
    using cut_memmap_correct [OF demo_map_ok(1), of "0x400000" "0x456789"]
    by (auto simp: demo_map_ok MAXMEMMAP_def)
qed

end
