(* ===== verification/Fonts.thy ===== *)
theory Fonts
  imports Prelude
begin

text \<open>
  The two bitmap fonts of the console, \<^verbatim>\<open>drivers/video/console/misc-fixed-8x13B.c\<close> and
  \<^verbatim>\<open>drivers/video/console/unifont-8x16.c\<close>: tables of 128 glyphs, one byte per row, the leftmost pixel
  in the most significant bit. A C initialiser with designators leaves the glyphs it does not name
  zero; \<open>font_table\<close> is that rule. The tables are cut into groups of glyphs, in source order.
\<close>

definition font_table :: "nat \<Rightarrow> (nat \<times> u8 list) list \<Rightarrow> u8 list list" where
  "font_table h gs = map (\<lambda>i. case map_of gs i of Some rows \<Rightarrow> rows | None \<Rightarrow> replicate h 0) [0..<128]"

section \<open>misc-fixed, 8 by 13 pixels, bold\<close>

definition misc_fixed_8x13B_0 :: "(nat \<times> u8 list) list" where
  "misc_fixed_8x13B_0 = [
    (0, [0x00, 0xAA, 0xAA, 0x00, 0x82, 0x82, 0x00, 0x82, 0x82, 0x00, 0xAA, 0xAA, 0x00]),
    (32, [0x00, 0x00, 0x00, 0x00, 0x00, 0x00, 0x00, 0x00, 0x00, 0x00, 0x00, 0x00, 0x00]),
    (33, [0x00, 0x18, 0x18, 0x18, 0x18, 0x18, 0x18, 0x18, 0x00, 0x18, 0x18, 0x00, 0x00]),
    (34, [0x00, 0x6C, 0x6C, 0x6C, 0x6C, 0x00, 0x00, 0x00, 0x00, 0x00, 0x00, 0x00, 0x00]),
    (35, [0x00, 0x00, 0x6C, 0x6C, 0xFE, 0xFE, 0x6C, 0xFE, 0xFE, 0x6C, 0x6C, 0x00, 0x00]),
    (36, [0x00, 0x10, 0x7C, 0xD6, 0xD0, 0xF0, 0x7C, 0x1E, 0x16, 0xD6, 0x7C, 0x10, 0x00]),
    (37, [0x00, 0xE6, 0xA6, 0xEC, 0x18, 0x18, 0x30, 0x30, 0x6E, 0xCA, 0xCE, 0x00, 0x00]),
    (38, [0x00, 0x00, 0x00, 0x00, 0x78, 0xCC, 0xCC, 0x78, 0xCE, 0xCC, 0x7E, 0x00, 0x00]),
    (39, [0x00, 0x18, 0x18, 0x18, 0x18, 0x00, 0x00, 0x00, 0x00, 0x00, 0x00, 0x00, 0x00])]"

definition misc_fixed_8x13B_40 :: "(nat \<times> u8 list) list" where
  "misc_fixed_8x13B_40 = [
    (40, [0x00, 0x0C, 0x18, 0x30, 0x30, 0x60, 0x60, 0x60, 0x30, 0x30, 0x18, 0x0C, 0x00]),
    (41, [0x00, 0x60, 0x30, 0x18, 0x18, 0x0C, 0x0C, 0x0C, 0x18, 0x18, 0x30, 0x60, 0x00]),
    (42, [0x00, 0x00, 0x00, 0x10, 0x10, 0xFE, 0x38, 0x38, 0x6C, 0x44, 0x00, 0x00, 0x00]),
    (43, [0x00, 0x00, 0x00, 0x18, 0x18, 0x7E, 0x7E, 0x18, 0x18, 0x00, 0x00, 0x00, 0x00]),
    (44, [0x00, 0x00, 0x00, 0x00, 0x00, 0x00, 0x00, 0x3C, 0x1C, 0x1C, 0x18, 0x30, 0x00]),
    (45, [0x00, 0x00, 0x00, 0x00, 0x00, 0x00, 0x7E, 0x00, 0x00, 0x00, 0x00, 0x00, 0x00]),
    (46, [0x00, 0x00, 0x00, 0x00, 0x00, 0x00, 0x00, 0x00, 0x18, 0x3C, 0x18, 0x00, 0x00]),
    (47, [0x00, 0x02, 0x06, 0x06, 0x0C, 0x18, 0x30, 0x60, 0xC0, 0xC0, 0x80, 0x00, 0x00]),
    (48, [0x00, 0x38, 0x6C, 0xC6, 0xC6, 0xC6, 0xC6, 0xC6, 0xC6, 0x6C, 0x38, 0x00, 0x00])]"

definition misc_fixed_8x13B_49 :: "(nat \<times> u8 list) list" where
  "misc_fixed_8x13B_49 = [
    (49, [0x00, 0x18, 0x38, 0x78, 0x18, 0x18, 0x18, 0x18, 0x18, 0x18, 0x7E, 0x00, 0x00]),
    (50, [0x00, 0x7C, 0xC6, 0xC6, 0x06, 0x0C, 0x18, 0x30, 0x60, 0xC0, 0xFE, 0x00, 0x00]),
    (51, [0x00, 0xFE, 0x06, 0x0C, 0x18, 0x3C, 0x06, 0x06, 0x06, 0xC6, 0x7C, 0x00, 0x00]),
    (52, [0x00, 0x0C, 0x1C, 0x3C, 0x6C, 0xCC, 0xCC, 0xFE, 0x0C, 0x0C, 0x0C, 0x00, 0x00]),
    (53, [0x00, 0xFE, 0xC0, 0xC0, 0xFC, 0xE6, 0x06, 0x06, 0x06, 0xC6, 0x7C, 0x00, 0x00]),
    (54, [0x00, 0x3C, 0x60, 0xC0, 0xC0, 0xFC, 0xE6, 0xC6, 0xC6, 0xE6, 0x7C, 0x00, 0x00]),
    (55, [0x00, 0xFE, 0x06, 0x06, 0x0C, 0x18, 0x18, 0x30, 0x30, 0x30, 0x30, 0x00, 0x00]),
    (56, [0x00, 0x7C, 0xC6, 0xC6, 0xC6, 0x7C, 0xC6, 0xC6, 0xC6, 0xC6, 0x7C, 0x00, 0x00]),
    (57, [0x00, 0x7C, 0xCE, 0xC6, 0xC6, 0xCE, 0x7E, 0x06, 0x06, 0x0C, 0x78, 0x00, 0x00])]"

definition misc_fixed_8x13B_58 :: "(nat \<times> u8 list) list" where
  "misc_fixed_8x13B_58 = [
    (58, [0x00, 0x00, 0x00, 0x18, 0x3C, 0x18, 0x00, 0x00, 0x18, 0x3C, 0x18, 0x00, 0x00]),
    (59, [0x00, 0x00, 0x00, 0x18, 0x3C, 0x18, 0x00, 0x3C, 0x1C, 0x1C, 0x18, 0x30, 0x00]),
    (60, [0x00, 0x00, 0x06, 0x0C, 0x18, 0x30, 0x60, 0x30, 0x18, 0x0C, 0x06, 0x00, 0x00]),
    (61, [0x00, 0x00, 0x00, 0x00, 0x00, 0x7E, 0x00, 0x00, 0x7E, 0x00, 0x00, 0x00, 0x00]),
    (62, [0x00, 0x00, 0x60, 0x30, 0x18, 0x0C, 0x06, 0x0C, 0x18, 0x30, 0x60, 0x00, 0x00]),
    (63, [0x00, 0x7C, 0xC6, 0xC6, 0x06, 0x0C, 0x18, 0x18, 0x00, 0x18, 0x18, 0x00, 0x00]),
    (64, [0x00, 0x00, 0x7C, 0xFE, 0xCE, 0xDE, 0xD2, 0xD2, 0xDE, 0xE0, 0x7E, 0x00, 0x00]),
    (65, [0x00, 0x38, 0x7C, 0xC6, 0xC6, 0xC6, 0xFE, 0xC6, 0xC6, 0xC6, 0xC6, 0x00, 0x00]),
    (66, [0x00, 0xFC, 0x66, 0x66, 0x66, 0x7C, 0x66, 0x66, 0x66, 0x66, 0xFC, 0x00, 0x00])]"

definition misc_fixed_8x13B_67 :: "(nat \<times> u8 list) list" where
  "misc_fixed_8x13B_67 = [
    (67, [0x00, 0x7C, 0xE6, 0xC6, 0xC0, 0xC0, 0xC0, 0xC0, 0xC6, 0xE6, 0x7C, 0x00, 0x00]),
    (68, [0x00, 0xFC, 0x66, 0x66, 0x66, 0x66, 0x66, 0x66, 0x66, 0x66, 0xFC, 0x00, 0x00]),
    (69, [0x00, 0xFE, 0xC0, 0xC0, 0xC0, 0xF8, 0xC0, 0xC0, 0xC0, 0xC0, 0xFE, 0x00, 0x00]),
    (70, [0x00, 0xFE, 0xC0, 0xC0, 0xC0, 0xF8, 0xC0, 0xC0, 0xC0, 0xC0, 0xC0, 0x00, 0x00]),
    (71, [0x00, 0x7C, 0xC6, 0xC6, 0xC0, 0xC0, 0xC0, 0xCE, 0xC6, 0xC6, 0x7C, 0x00, 0x00]),
    (72, [0x00, 0xC6, 0xC6, 0xC6, 0xC6, 0xFE, 0xC6, 0xC6, 0xC6, 0xC6, 0xC6, 0x00, 0x00]),
    (73, [0x00, 0x3C, 0x18, 0x18, 0x18, 0x18, 0x18, 0x18, 0x18, 0x18, 0x3C, 0x00, 0x00]),
    (74, [0x00, 0x0E, 0x06, 0x06, 0x06, 0x06, 0x06, 0x06, 0xC6, 0xC6, 0x7C, 0x00, 0x00]),
    (75, [0x00, 0xC6, 0xC6, 0xCC, 0xD8, 0xF0, 0xF0, 0xD8, 0xCC, 0xC6, 0xC6, 0x00, 0x00])]"

definition misc_fixed_8x13B_76 :: "(nat \<times> u8 list) list" where
  "misc_fixed_8x13B_76 = [
    (76, [0x00, 0xC0, 0xC0, 0xC0, 0xC0, 0xC0, 0xC0, 0xC0, 0xC0, 0xC2, 0xFE, 0x00, 0x00]),
    (77, [0x00, 0xC6, 0xC6, 0xEE, 0xFE, 0xD6, 0xC6, 0xC6, 0xC6, 0xC6, 0xC6, 0x00, 0x00]),
    (78, [0x00, 0xC6, 0xC6, 0xE6, 0xE6, 0xF6, 0xDE, 0xCE, 0xCE, 0xC6, 0xC6, 0x00, 0x00]),
    (79, [0x00, 0x7C, 0xC6, 0xC6, 0xC6, 0xC6, 0xC6, 0xC6, 0xC6, 0xC6, 0x7C, 0x00, 0x00]),
    (80, [0x00, 0xFC, 0xC6, 0xC6, 0xC6, 0xC6, 0xFC, 0xC0, 0xC0, 0xC0, 0xC0, 0x00, 0x00]),
    (81, [0x00, 0x7C, 0xC6, 0xC6, 0xC6, 0xC6, 0xC6, 0xC6, 0xC6, 0xDE, 0x7C, 0x06, 0x00]),
    (82, [0x00, 0xFC, 0xC6, 0xC6, 0xC6, 0xFC, 0xF8, 0xCC, 0xCC, 0xC6, 0xC6, 0x00, 0x00]),
    (83, [0x00, 0x7C, 0xC6, 0xC6, 0xC0, 0x7C, 0x06, 0x06, 0xC6, 0xC6, 0x7C, 0x00, 0x00]),
    (84, [0x00, 0x7E, 0x18, 0x18, 0x18, 0x18, 0x18, 0x18, 0x18, 0x18, 0x18, 0x00, 0x00])]"

definition misc_fixed_8x13B_85 :: "(nat \<times> u8 list) list" where
  "misc_fixed_8x13B_85 = [
    (85, [0x00, 0xC6, 0xC6, 0xC6, 0xC6, 0xC6, 0xC6, 0xC6, 0xC6, 0xC6, 0x7C, 0x00, 0x00]),
    (86, [0x00, 0xC6, 0xC6, 0xC6, 0xC6, 0x44, 0x6C, 0x6C, 0x38, 0x38, 0x10, 0x00, 0x00]),
    (87, [0x00, 0xC6, 0xC6, 0xC6, 0xC6, 0xC6, 0xC6, 0xD6, 0xD6, 0xFE, 0x6C, 0x00, 0x00]),
    (88, [0x00, 0xC6, 0xC6, 0x6C, 0x6C, 0x38, 0x38, 0x6C, 0x6C, 0xC6, 0xC6, 0x00, 0x00]),
    (89, [0x00, 0x66, 0x66, 0x66, 0x3C, 0x3C, 0x18, 0x18, 0x18, 0x18, 0x18, 0x00, 0x00]),
    (90, [0x00, 0xFE, 0x06, 0x06, 0x0C, 0x18, 0x30, 0x60, 0xC0, 0xC0, 0xFE, 0x00, 0x00]),
    (91, [0x00, 0x7C, 0x60, 0x60, 0x60, 0x60, 0x60, 0x60, 0x60, 0x60, 0x60, 0x7C, 0x00]),
    (92, [0x00, 0x80, 0xC0, 0xC0, 0x60, 0x30, 0x18, 0x0C, 0x06, 0x06, 0x02, 0x00, 0x00]),
    (93, [0x00, 0x7C, 0x0C, 0x0C, 0x0C, 0x0C, 0x0C, 0x0C, 0x0C, 0x0C, 0x0C, 0x7C, 0x00])]"

definition misc_fixed_8x13B_94 :: "(nat \<times> u8 list) list" where
  "misc_fixed_8x13B_94 = [
    (94, [0x00, 0x10, 0x38, 0x6C, 0xC6, 0x00, 0x00, 0x00, 0x00, 0x00, 0x00, 0x00, 0x00]),
    (95, [0x00, 0x00, 0x00, 0x00, 0x00, 0x00, 0x00, 0x00, 0x00, 0x00, 0x00, 0xFE, 0x00]),
    (96, [0x00, 0x30, 0x18, 0x0C, 0x00, 0x00, 0x00, 0x00, 0x00, 0x00, 0x00, 0x00, 0x00]),
    (97, [0x00, 0x00, 0x00, 0x00, 0x7C, 0x06, 0x7E, 0xC6, 0xC6, 0xCE, 0x76, 0x00, 0x00]),
    (98, [0x00, 0xC0, 0xC0, 0xC0, 0xDC, 0xE6, 0xC6, 0xC6, 0xC6, 0xE6, 0xDC, 0x00, 0x00]),
    (99, [0x00, 0x00, 0x00, 0x00, 0x7C, 0xE6, 0xC0, 0xC0, 0xC0, 0xE6, 0x7C, 0x00, 0x00]),
    (100, [0x00, 0x06, 0x06, 0x06, 0x76, 0xCE, 0xC6, 0xC6, 0xC6, 0xCE, 0x76, 0x00, 0x00]),
    (101, [0x00, 0x00, 0x00, 0x00, 0x7C, 0xC6, 0xC6, 0xFE, 0xC0, 0xC6, 0x7C, 0x00, 0x00]),
    (102, [0x00, 0x3C, 0x66, 0x60, 0x60, 0x60, 0xFC, 0x60, 0x60, 0x60, 0x60, 0x00, 0x00])]"

definition misc_fixed_8x13B_103 :: "(nat \<times> u8 list) list" where
  "misc_fixed_8x13B_103 = [
    (103, [0x00, 0x00, 0x00, 0x00, 0x7E, 0xCC, 0xCC, 0xCC, 0x78, 0xF0, 0x7C, 0xC6, 0x7C]),
    (104, [0x00, 0xC0, 0xC0, 0xC0, 0xDC, 0xE6, 0xC6, 0xC6, 0xC6, 0xC6, 0xC6, 0x00, 0x00]),
    (105, [0x00, 0x00, 0x18, 0x18, 0x00, 0x38, 0x18, 0x18, 0x18, 0x18, 0x3C, 0x00, 0x00]),
    (106, [0x00, 0x00, 0x06, 0x06, 0x00, 0x0E, 0x06, 0x06, 0x06, 0x06, 0xC6, 0xC6, 0x7C]),
    (107, [0x00, 0xC0, 0xC0, 0xC0, 0xCC, 0xD8, 0xF0, 0xF0, 0xD8, 0xCC, 0xC6, 0x00, 0x00]),
    (108, [0x00, 0x38, 0x18, 0x18, 0x18, 0x18, 0x18, 0x18, 0x18, 0x18, 0x3C, 0x00, 0x00]),
    (109, [0x00, 0x00, 0x00, 0x00, 0x6C, 0xFE, 0xD6, 0xD6, 0xC6, 0xC6, 0xC6, 0x00, 0x00]),
    (110, [0x00, 0x00, 0x00, 0x00, 0xDC, 0xE6, 0xC6, 0xC6, 0xC6, 0xC6, 0xC6, 0x00, 0x00]),
    (111, [0x00, 0x00, 0x00, 0x00, 0x7C, 0xC6, 0xC6, 0xC6, 0xC6, 0xC6, 0x7C, 0x00, 0x00])]"

definition misc_fixed_8x13B_112 :: "(nat \<times> u8 list) list" where
  "misc_fixed_8x13B_112 = [
    (112, [0x00, 0x00, 0x00, 0x00, 0xDC, 0xE6, 0xC6, 0xC6, 0xC6, 0xE6, 0xDC, 0xC0, 0xC0]),
    (113, [0x00, 0x00, 0x00, 0x00, 0x76, 0xCE, 0xC6, 0xC6, 0xC6, 0xCE, 0x76, 0x06, 0x06]),
    (114, [0x00, 0x00, 0x00, 0x00, 0xDC, 0xE6, 0xC0, 0xC0, 0xC0, 0xC0, 0xC0, 0x00, 0x00]),
    (115, [0x00, 0x00, 0x00, 0x00, 0x7C, 0xC6, 0x60, 0x38, 0x0C, 0xC6, 0x7C, 0x00, 0x00]),
    (116, [0x00, 0x60, 0x60, 0x60, 0x60, 0xFC, 0x60, 0x60, 0x60, 0x66, 0x3C, 0x00, 0x00]),
    (117, [0x00, 0x00, 0x00, 0x00, 0xC6, 0xC6, 0xC6, 0xC6, 0xC6, 0xCE, 0x76, 0x00, 0x00]),
    (118, [0x00, 0x00, 0x00, 0x00, 0xC6, 0xC6, 0xC6, 0xC6, 0x6C, 0x6C, 0x38, 0x00, 0x00]),
    (119, [0x00, 0x00, 0x00, 0x00, 0xC6, 0xC6, 0xC6, 0xD6, 0xD6, 0xFE, 0x6C, 0x00, 0x00]),
    (120, [0x00, 0x00, 0x00, 0x00, 0xC6, 0xC6, 0x6C, 0x38, 0x6C, 0xC6, 0xC6, 0x00, 0x00])]"

definition misc_fixed_8x13B_121 :: "(nat \<times> u8 list) list" where
  "misc_fixed_8x13B_121 = [
    (121, [0x00, 0x00, 0x00, 0x00, 0xC6, 0xC6, 0xC6, 0xC6, 0xCE, 0x76, 0x06, 0xC6, 0x7C]),
    (122, [0x00, 0x00, 0x00, 0x00, 0xFE, 0x0C, 0x18, 0x30, 0x60, 0xC0, 0xFE, 0x00, 0x00]),
    (123, [0x00, 0x1E, 0x30, 0x30, 0x30, 0x18, 0x70, 0x18, 0x30, 0x30, 0x30, 0x1E, 0x00]),
    (124, [0x00, 0x18, 0x18, 0x18, 0x18, 0x18, 0x18, 0x18, 0x18, 0x18, 0x18, 0x00, 0x00]),
    (125, [0x00, 0x78, 0x0C, 0x0C, 0x0C, 0x18, 0x0E, 0x18, 0x0C, 0x0C, 0x0C, 0x78, 0x00]),
    (126, [0x00, 0x00, 0x72, 0xFE, 0x9C, 0x00, 0x00, 0x00, 0x00, 0x00, 0x00, 0x00, 0x00])]"

definition misc_fixed_8x13B_glyphs :: "(nat \<times> u8 list) list" where
  "misc_fixed_8x13B_glyphs =
     misc_fixed_8x13B_0 @ misc_fixed_8x13B_40 @ misc_fixed_8x13B_49 @ misc_fixed_8x13B_58 @
     misc_fixed_8x13B_67 @ misc_fixed_8x13B_76 @ misc_fixed_8x13B_85 @ misc_fixed_8x13B_94 @
     misc_fixed_8x13B_103 @ misc_fixed_8x13B_112 @ misc_fixed_8x13B_121"

definition misc_fixed_8x13B :: "u8 list list" where
  "misc_fixed_8x13B = font_table 13 misc_fixed_8x13B_glyphs"

section \<open>Unifont, 8 by 16 pixels\<close>

definition unifont_8x16_32 :: "(nat \<times> u8 list) list" where
  "unifont_8x16_32 = [
    (32, [0x00, 0x00, 0x00, 0x00, 0x00, 0x00, 0x00, 0x00, 0x00, 0x00, 0x00, 0x00, 0x00, 0x00, 0x00, 0x00]),
    (33, [0x00, 0x00, 0x00, 0x00, 0x08, 0x08, 0x08, 0x08, 0x08, 0x08, 0x08, 0x00, 0x08, 0x08, 0x00, 0x00]),
    (34, [0x00, 0x00, 0x22, 0x22, 0x22, 0x22, 0x00, 0x00, 0x00, 0x00, 0x00, 0x00, 0x00, 0x00, 0x00, 0x00]),
    (35, [0x00, 0x00, 0x00, 0x00, 0x12, 0x12, 0x12, 0x7E, 0x24, 0x24, 0x7E, 0x48, 0x48, 0x48, 0x00, 0x00]),
    (36, [0x00, 0x00, 0x00, 0x00, 0x08, 0x3E, 0x49, 0x48, 0x38, 0x0E, 0x09, 0x49, 0x3E, 0x08, 0x00, 0x00]),
    (37, [0x00, 0x00, 0x00, 0x00, 0x31, 0x4A, 0x4A, 0x34, 0x08, 0x08, 0x16, 0x29, 0x29, 0x46, 0x00, 0x00]),
    (38, [0x00, 0x00, 0x00, 0x00, 0x1C, 0x22, 0x22, 0x14, 0x18, 0x29, 0x45, 0x42, 0x46, 0x39, 0x00, 0x00])]"

definition unifont_8x16_39 :: "(nat \<times> u8 list) list" where
  "unifont_8x16_39 = [
    (39, [0x00, 0x00, 0x08, 0x08, 0x08, 0x08, 0x00, 0x00, 0x00, 0x00, 0x00, 0x00, 0x00, 0x00, 0x00, 0x00]),
    (40, [0x00, 0x00, 0x00, 0x04, 0x08, 0x08, 0x10, 0x10, 0x10, 0x10, 0x10, 0x10, 0x08, 0x08, 0x04, 0x00]),
    (41, [0x00, 0x00, 0x00, 0x20, 0x10, 0x10, 0x08, 0x08, 0x08, 0x08, 0x08, 0x08, 0x10, 0x10, 0x20, 0x00]),
    (42, [0x00, 0x00, 0x00, 0x00, 0x00, 0x00, 0x08, 0x49, 0x2A, 0x1C, 0x2A, 0x49, 0x08, 0x00, 0x00, 0x00]),
    (43, [0x00, 0x00, 0x00, 0x00, 0x00, 0x00, 0x08, 0x08, 0x08, 0x7F, 0x08, 0x08, 0x08, 0x00, 0x00, 0x00]),
    (44, [0x00, 0x00, 0x00, 0x00, 0x00, 0x00, 0x00, 0x00, 0x00, 0x00, 0x00, 0x00, 0x18, 0x08, 0x08, 0x10]),
    (45, [0x00, 0x00, 0x00, 0x00, 0x00, 0x00, 0x00, 0x00, 0x00, 0x3C, 0x00, 0x00, 0x00, 0x00, 0x00, 0x00])]"

definition unifont_8x16_46 :: "(nat \<times> u8 list) list" where
  "unifont_8x16_46 = [
    (46, [0x00, 0x00, 0x00, 0x00, 0x00, 0x00, 0x00, 0x00, 0x00, 0x00, 0x00, 0x00, 0x18, 0x18, 0x00, 0x00]),
    (47, [0x00, 0x00, 0x00, 0x00, 0x02, 0x02, 0x04, 0x08, 0x08, 0x10, 0x10, 0x20, 0x40, 0x40, 0x00, 0x00]),
    (48, [0x00, 0x00, 0x00, 0x00, 0x18, 0x24, 0x42, 0x46, 0x4A, 0x52, 0x62, 0x42, 0x24, 0x18, 0x00, 0x00]),
    (49, [0x00, 0x00, 0x00, 0x00, 0x08, 0x18, 0x28, 0x08, 0x08, 0x08, 0x08, 0x08, 0x08, 0x3E, 0x00, 0x00]),
    (50, [0x00, 0x00, 0x00, 0x00, 0x3C, 0x42, 0x42, 0x02, 0x0C, 0x10, 0x20, 0x40, 0x40, 0x7E, 0x00, 0x00]),
    (51, [0x00, 0x00, 0x00, 0x00, 0x3C, 0x42, 0x42, 0x02, 0x1C, 0x02, 0x02, 0x42, 0x42, 0x3C, 0x00, 0x00]),
    (52, [0x00, 0x00, 0x00, 0x00, 0x04, 0x0C, 0x14, 0x24, 0x44, 0x44, 0x7E, 0x04, 0x04, 0x04, 0x00, 0x00])]"

definition unifont_8x16_53 :: "(nat \<times> u8 list) list" where
  "unifont_8x16_53 = [
    (53, [0x00, 0x00, 0x00, 0x00, 0x7E, 0x40, 0x40, 0x40, 0x7C, 0x02, 0x02, 0x02, 0x42, 0x3C, 0x00, 0x00]),
    (54, [0x00, 0x00, 0x00, 0x00, 0x1C, 0x20, 0x40, 0x40, 0x7C, 0x42, 0x42, 0x42, 0x42, 0x3C, 0x00, 0x00]),
    (55, [0x00, 0x00, 0x00, 0x00, 0x7E, 0x02, 0x02, 0x04, 0x04, 0x04, 0x08, 0x08, 0x08, 0x08, 0x00, 0x00]),
    (56, [0x00, 0x00, 0x00, 0x00, 0x3C, 0x42, 0x42, 0x42, 0x3C, 0x42, 0x42, 0x42, 0x42, 0x3C, 0x00, 0x00]),
    (57, [0x00, 0x00, 0x00, 0x00, 0x3C, 0x42, 0x42, 0x42, 0x3E, 0x02, 0x02, 0x02, 0x04, 0x38, 0x00, 0x00]),
    (58, [0x00, 0x00, 0x00, 0x00, 0x00, 0x00, 0x18, 0x18, 0x00, 0x00, 0x00, 0x18, 0x18, 0x00, 0x00, 0x00]),
    (59, [0x00, 0x00, 0x00, 0x00, 0x00, 0x00, 0x18, 0x18, 0x00, 0x00, 0x00, 0x18, 0x08, 0x08, 0x10, 0x00])]"

definition unifont_8x16_60 :: "(nat \<times> u8 list) list" where
  "unifont_8x16_60 = [
    (60, [0x00, 0x00, 0x00, 0x00, 0x00, 0x02, 0x04, 0x08, 0x10, 0x20, 0x10, 0x08, 0x04, 0x02, 0x00, 0x00]),
    (61, [0x00, 0x00, 0x00, 0x00, 0x00, 0x00, 0x00, 0x7E, 0x00, 0x00, 0x00, 0x7E, 0x00, 0x00, 0x00, 0x00]),
    (62, [0x00, 0x00, 0x00, 0x00, 0x00, 0x40, 0x20, 0x10, 0x08, 0x04, 0x08, 0x10, 0x20, 0x40, 0x00, 0x00]),
    (63, [0x00, 0x00, 0x00, 0x00, 0x3C, 0x42, 0x42, 0x02, 0x04, 0x08, 0x08, 0x00, 0x08, 0x08, 0x00, 0x00]),
    (64, [0x00, 0x00, 0x00, 0x00, 0x1C, 0x22, 0x4A, 0x56, 0x52, 0x52, 0x52, 0x4E, 0x20, 0x1E, 0x00, 0x00]),
    (65, [0x00, 0x00, 0x00, 0x00, 0x18, 0x24, 0x24, 0x42, 0x42, 0x7E, 0x42, 0x42, 0x42, 0x42, 0x00, 0x00]),
    (66, [0x00, 0x00, 0x00, 0x00, 0x7C, 0x42, 0x42, 0x42, 0x7C, 0x42, 0x42, 0x42, 0x42, 0x7C, 0x00, 0x00])]"

definition unifont_8x16_67 :: "(nat \<times> u8 list) list" where
  "unifont_8x16_67 = [
    (67, [0x00, 0x00, 0x00, 0x00, 0x3C, 0x42, 0x42, 0x40, 0x40, 0x40, 0x40, 0x42, 0x42, 0x3C, 0x00, 0x00]),
    (68, [0x00, 0x00, 0x00, 0x00, 0x78, 0x44, 0x42, 0x42, 0x42, 0x42, 0x42, 0x42, 0x44, 0x78, 0x00, 0x00]),
    (69, [0x00, 0x00, 0x00, 0x00, 0x7E, 0x40, 0x40, 0x40, 0x7C, 0x40, 0x40, 0x40, 0x40, 0x7E, 0x00, 0x00]),
    (70, [0x00, 0x00, 0x00, 0x00, 0x7E, 0x40, 0x40, 0x40, 0x7C, 0x40, 0x40, 0x40, 0x40, 0x40, 0x00, 0x00]),
    (71, [0x00, 0x00, 0x00, 0x00, 0x3C, 0x42, 0x42, 0x40, 0x40, 0x4E, 0x42, 0x42, 0x46, 0x3A, 0x00, 0x00]),
    (72, [0x00, 0x00, 0x00, 0x00, 0x42, 0x42, 0x42, 0x42, 0x7E, 0x42, 0x42, 0x42, 0x42, 0x42, 0x00, 0x00]),
    (73, [0x00, 0x00, 0x00, 0x00, 0x3E, 0x08, 0x08, 0x08, 0x08, 0x08, 0x08, 0x08, 0x08, 0x3E, 0x00, 0x00])]"

definition unifont_8x16_74 :: "(nat \<times> u8 list) list" where
  "unifont_8x16_74 = [
    (74, [0x00, 0x00, 0x00, 0x00, 0x1F, 0x04, 0x04, 0x04, 0x04, 0x04, 0x04, 0x44, 0x44, 0x38, 0x00, 0x00]),
    (75, [0x00, 0x00, 0x00, 0x00, 0x42, 0x44, 0x48, 0x50, 0x60, 0x60, 0x50, 0x48, 0x44, 0x42, 0x00, 0x00]),
    (76, [0x00, 0x00, 0x00, 0x00, 0x40, 0x40, 0x40, 0x40, 0x40, 0x40, 0x40, 0x40, 0x40, 0x7E, 0x00, 0x00]),
    (77, [0x00, 0x00, 0x00, 0x00, 0x42, 0x42, 0x66, 0x66, 0x5A, 0x5A, 0x42, 0x42, 0x42, 0x42, 0x00, 0x00]),
    (78, [0x00, 0x00, 0x00, 0x00, 0x42, 0x62, 0x62, 0x52, 0x52, 0x4A, 0x4A, 0x46, 0x46, 0x42, 0x00, 0x00]),
    (79, [0x00, 0x00, 0x00, 0x00, 0x3C, 0x42, 0x42, 0x42, 0x42, 0x42, 0x42, 0x42, 0x42, 0x3C, 0x00, 0x00]),
    (80, [0x00, 0x00, 0x00, 0x00, 0x7C, 0x42, 0x42, 0x42, 0x7C, 0x40, 0x40, 0x40, 0x40, 0x40, 0x00, 0x00])]"

definition unifont_8x16_81 :: "(nat \<times> u8 list) list" where
  "unifont_8x16_81 = [
    (81, [0x00, 0x00, 0x00, 0x00, 0x3C, 0x42, 0x42, 0x42, 0x42, 0x42, 0x42, 0x5A, 0x66, 0x3C, 0x03, 0x00]),
    (82, [0x00, 0x00, 0x00, 0x00, 0x7C, 0x42, 0x42, 0x42, 0x7C, 0x48, 0x44, 0x44, 0x42, 0x42, 0x00, 0x00]),
    (83, [0x00, 0x00, 0x00, 0x00, 0x3C, 0x42, 0x42, 0x40, 0x30, 0x0C, 0x02, 0x42, 0x42, 0x3C, 0x00, 0x00]),
    (84, [0x00, 0x00, 0x00, 0x00, 0x7F, 0x08, 0x08, 0x08, 0x08, 0x08, 0x08, 0x08, 0x08, 0x08, 0x00, 0x00]),
    (85, [0x00, 0x00, 0x00, 0x00, 0x42, 0x42, 0x42, 0x42, 0x42, 0x42, 0x42, 0x42, 0x42, 0x3C, 0x00, 0x00]),
    (86, [0x00, 0x00, 0x00, 0x00, 0x41, 0x41, 0x41, 0x22, 0x22, 0x22, 0x14, 0x14, 0x08, 0x08, 0x00, 0x00]),
    (87, [0x00, 0x00, 0x00, 0x00, 0x42, 0x42, 0x42, 0x42, 0x5A, 0x5A, 0x66, 0x66, 0x42, 0x42, 0x00, 0x00])]"

definition unifont_8x16_88 :: "(nat \<times> u8 list) list" where
  "unifont_8x16_88 = [
    (88, [0x00, 0x00, 0x00, 0x00, 0x42, 0x42, 0x24, 0x24, 0x18, 0x18, 0x24, 0x24, 0x42, 0x42, 0x00, 0x00]),
    (89, [0x00, 0x00, 0x00, 0x00, 0x41, 0x41, 0x22, 0x22, 0x14, 0x08, 0x08, 0x08, 0x08, 0x08, 0x00, 0x00]),
    (90, [0x00, 0x00, 0x00, 0x00, 0x7E, 0x02, 0x02, 0x04, 0x08, 0x10, 0x20, 0x40, 0x40, 0x7E, 0x00, 0x00]),
    (91, [0x00, 0x00, 0x00, 0x0E, 0x08, 0x08, 0x08, 0x08, 0x08, 0x08, 0x08, 0x08, 0x08, 0x08, 0x0E, 0x00]),
    (92, [0x00, 0x00, 0x00, 0x00, 0x40, 0x40, 0x20, 0x10, 0x10, 0x08, 0x08, 0x04, 0x02, 0x02, 0x00, 0x00]),
    (93, [0x00, 0x00, 0x00, 0x70, 0x10, 0x10, 0x10, 0x10, 0x10, 0x10, 0x10, 0x10, 0x10, 0x10, 0x70, 0x00]),
    (94, [0x00, 0x00, 0x18, 0x24, 0x42, 0x00, 0x00, 0x00, 0x00, 0x00, 0x00, 0x00, 0x00, 0x00, 0x00, 0x00])]"

definition unifont_8x16_95 :: "(nat \<times> u8 list) list" where
  "unifont_8x16_95 = [
    (95, [0x00, 0x00, 0x00, 0x00, 0x00, 0x00, 0x00, 0x00, 0x00, 0x00, 0x00, 0x00, 0x00, 0x00, 0x7F, 0x00]),
    (96, [0x00, 0x20, 0x10, 0x08, 0x00, 0x00, 0x00, 0x00, 0x00, 0x00, 0x00, 0x00, 0x00, 0x00, 0x00, 0x00]),
    (97, [0x00, 0x00, 0x00, 0x00, 0x00, 0x00, 0x3C, 0x42, 0x02, 0x3E, 0x42, 0x42, 0x46, 0x3A, 0x00, 0x00]),
    (98, [0x00, 0x00, 0x00, 0x40, 0x40, 0x40, 0x5C, 0x62, 0x42, 0x42, 0x42, 0x42, 0x62, 0x5C, 0x00, 0x00]),
    (99, [0x00, 0x00, 0x00, 0x00, 0x00, 0x00, 0x3C, 0x42, 0x40, 0x40, 0x40, 0x40, 0x42, 0x3C, 0x00, 0x00]),
    (100, [0x00, 0x00, 0x00, 0x02, 0x02, 0x02, 0x3A, 0x46, 0x42, 0x42, 0x42, 0x42, 0x46, 0x3A, 0x00, 0x00]),
    (101, [0x00, 0x00, 0x00, 0x00, 0x00, 0x00, 0x3C, 0x42, 0x42, 0x7E, 0x40, 0x40, 0x42, 0x3C, 0x00, 0x00])]"

definition unifont_8x16_102 :: "(nat \<times> u8 list) list" where
  "unifont_8x16_102 = [
    (102, [0x00, 0x00, 0x00, 0x0C, 0x10, 0x10, 0x10, 0x7C, 0x10, 0x10, 0x10, 0x10, 0x10, 0x10, 0x00, 0x00]),
    (103, [0x00, 0x00, 0x00, 0x00, 0x00, 0x02, 0x3A, 0x44, 0x44, 0x44, 0x38, 0x20, 0x3C, 0x42, 0x42, 0x3C]),
    (104, [0x00, 0x00, 0x00, 0x40, 0x40, 0x40, 0x5C, 0x62, 0x42, 0x42, 0x42, 0x42, 0x42, 0x42, 0x00, 0x00]),
    (105, [0x00, 0x00, 0x00, 0x08, 0x08, 0x00, 0x18, 0x08, 0x08, 0x08, 0x08, 0x08, 0x08, 0x3E, 0x00, 0x00]),
    (106, [0x00, 0x00, 0x00, 0x04, 0x04, 0x00, 0x0C, 0x04, 0x04, 0x04, 0x04, 0x04, 0x04, 0x04, 0x48, 0x30]),
    (107, [0x00, 0x00, 0x00, 0x40, 0x40, 0x40, 0x44, 0x48, 0x50, 0x60, 0x50, 0x48, 0x44, 0x42, 0x00, 0x00]),
    (108, [0x00, 0x00, 0x00, 0x18, 0x08, 0x08, 0x08, 0x08, 0x08, 0x08, 0x08, 0x08, 0x08, 0x3E, 0x00, 0x00])]"

definition unifont_8x16_109 :: "(nat \<times> u8 list) list" where
  "unifont_8x16_109 = [
    (109, [0x00, 0x00, 0x00, 0x00, 0x00, 0x00, 0x76, 0x49, 0x49, 0x49, 0x49, 0x49, 0x49, 0x49, 0x00, 0x00]),
    (110, [0x00, 0x00, 0x00, 0x00, 0x00, 0x00, 0x5C, 0x62, 0x42, 0x42, 0x42, 0x42, 0x42, 0x42, 0x00, 0x00]),
    (111, [0x00, 0x00, 0x00, 0x00, 0x00, 0x00, 0x3C, 0x42, 0x42, 0x42, 0x42, 0x42, 0x42, 0x3C, 0x00, 0x00]),
    (112, [0x00, 0x00, 0x00, 0x00, 0x00, 0x00, 0x5C, 0x62, 0x42, 0x42, 0x42, 0x42, 0x62, 0x5C, 0x40, 0x40]),
    (113, [0x00, 0x00, 0x00, 0x00, 0x00, 0x00, 0x3A, 0x46, 0x42, 0x42, 0x42, 0x42, 0x46, 0x3A, 0x02, 0x02]),
    (114, [0x00, 0x00, 0x00, 0x00, 0x00, 0x00, 0x5C, 0x62, 0x42, 0x40, 0x40, 0x40, 0x40, 0x40, 0x00, 0x00]),
    (115, [0x00, 0x00, 0x00, 0x00, 0x00, 0x00, 0x3C, 0x42, 0x40, 0x30, 0x0C, 0x02, 0x42, 0x3C, 0x00, 0x00])]"

definition unifont_8x16_116 :: "(nat \<times> u8 list) list" where
  "unifont_8x16_116 = [
    (116, [0x00, 0x00, 0x00, 0x00, 0x10, 0x10, 0x10, 0x7C, 0x10, 0x10, 0x10, 0x10, 0x10, 0x0C, 0x00, 0x00]),
    (117, [0x00, 0x00, 0x00, 0x00, 0x00, 0x00, 0x42, 0x42, 0x42, 0x42, 0x42, 0x42, 0x46, 0x3A, 0x00, 0x00]),
    (118, [0x00, 0x00, 0x00, 0x00, 0x00, 0x00, 0x42, 0x42, 0x42, 0x24, 0x24, 0x24, 0x18, 0x18, 0x00, 0x00]),
    (119, [0x00, 0x00, 0x00, 0x00, 0x00, 0x00, 0x41, 0x49, 0x49, 0x49, 0x49, 0x49, 0x49, 0x36, 0x00, 0x00]),
    (120, [0x00, 0x00, 0x00, 0x00, 0x00, 0x00, 0x42, 0x42, 0x24, 0x18, 0x18, 0x24, 0x42, 0x42, 0x00, 0x00]),
    (121, [0x00, 0x00, 0x00, 0x00, 0x00, 0x00, 0x42, 0x42, 0x42, 0x42, 0x42, 0x26, 0x1A, 0x02, 0x02, 0x3C]),
    (122, [0x00, 0x00, 0x00, 0x00, 0x00, 0x00, 0x7E, 0x02, 0x04, 0x08, 0x10, 0x20, 0x40, 0x7E, 0x00, 0x00])]"

definition unifont_8x16_123 :: "(nat \<times> u8 list) list" where
  "unifont_8x16_123 = [
    (123, [0x00, 0x00, 0x00, 0x0C, 0x10, 0x10, 0x08, 0x08, 0x10, 0x20, 0x10, 0x08, 0x08, 0x10, 0x10, 0x0C]),
    (124, [0x00, 0x00, 0x08, 0x08, 0x08, 0x08, 0x08, 0x08, 0x08, 0x08, 0x08, 0x08, 0x08, 0x08, 0x08, 0x08]),
    (125, [0x00, 0x00, 0x00, 0x30, 0x08, 0x08, 0x10, 0x10, 0x08, 0x04, 0x08, 0x10, 0x10, 0x08, 0x08, 0x30]),
    (126, [0x00, 0x00, 0x00, 0x31, 0x49, 0x46, 0x00, 0x00, 0x00, 0x00, 0x00, 0x00, 0x00, 0x00, 0x00, 0x00])]"

definition unifont_8x16_glyphs :: "(nat \<times> u8 list) list" where
  "unifont_8x16_glyphs =
     unifont_8x16_32 @ unifont_8x16_39 @ unifont_8x16_46 @ unifont_8x16_53 @
     unifont_8x16_60 @ unifont_8x16_67 @ unifont_8x16_74 @ unifont_8x16_81 @
     unifont_8x16_88 @ unifont_8x16_95 @ unifont_8x16_102 @ unifont_8x16_109 @
     unifont_8x16_116 @ unifont_8x16_123"

definition unifont_8x16 :: "u8 list list" where
  "unifont_8x16 = font_table 16 unifont_8x16_glyphs"

lemmas misc_fixed_groups = misc_fixed_8x13B_glyphs_def
  misc_fixed_8x13B_0_def misc_fixed_8x13B_40_def misc_fixed_8x13B_49_def misc_fixed_8x13B_58_def
  misc_fixed_8x13B_67_def misc_fixed_8x13B_76_def misc_fixed_8x13B_85_def misc_fixed_8x13B_94_def
  misc_fixed_8x13B_103_def misc_fixed_8x13B_112_def misc_fixed_8x13B_121_def

lemmas unifont_groups = unifont_8x16_glyphs_def
  unifont_8x16_32_def unifont_8x16_39_def unifont_8x16_46_def unifont_8x16_53_def
  unifont_8x16_60_def unifont_8x16_67_def unifont_8x16_74_def unifont_8x16_81_def
  unifont_8x16_88_def unifont_8x16_95_def unifont_8x16_102_def unifont_8x16_109_def
  unifont_8x16_116_def unifont_8x16_123_def

text \<open>A font is legible when its glyphs have one height, the printable characters have
  different glyphs, and only the space is blank among them.\<close>

definition legible :: "nat \<Rightarrow> u8 list list \<Rightarrow> bool" where
  "legible h font \<longleftrightarrow> length font = 128 \<and> list_all (\<lambda>g. length g = h) font \<and>
     distinct (take 95 (drop 32 font)) \<and> font ! 32 = replicate h 0"

text \<open>A glyph as one number, so that comparing two glyphs is comparing two numerals.\<close>

definition glyph_code :: "u8 list \<Rightarrow> nat" where
  "glyph_code g = foldl (\<lambda>a b. a * 256 + unat b) 0 g"

lemma font_table_nth:
  "i < 128 \<Longrightarrow> font_table h gs ! i = (case map_of gs i of Some rows \<Rightarrow> rows | None \<Rightarrow> replicate h 0)"
  by (simp add: font_table_def)

lemma font_table_heights:
  assumes "list_all (\<lambda>(i, g). length g = h) gs"
  shows "list_all (\<lambda>g. length g = h) (font_table h gs)"
  using assms by (auto simp: font_table_def list_all_iff split: option.splits dest: map_of_SomeD)

lemma distinct_map_distinct_snd:
  assumes "distinct (map snd gs)" and "(i, g) \<in> set gs" and "(j, g) \<in> set gs"
  shows "i = j"
  using assms by (induction gs) force+

lemma take_drop_nth: "a + k \<le> length xs \<Longrightarrow> take k (drop a xs) = map ((!) xs) [a..<a + k]"
  by (intro nth_equalityI) auto

lemma font_table_distinct:
  assumes "distinct (map glyph_code (map snd gs))" and "{32..<127} \<subseteq> fst ` set gs"
  shows "distinct (take 95 (drop 32 (font_table h gs)))"
proof -
  have snd: "distinct (map snd gs)" using assms(1) by (rule distinct_map [THEN iffD1, THEN conjunct1])
  have entry: "\<exists>g. (i, g) \<in> set gs \<and> font_table h gs ! i = g" if i: "32 \<le> i" "i < 127" for i
  proof -
    have "i \<in> fst ` set gs" using subsetD [OF assms(2), of i] i by simp
    then obtain g where "map_of gs i = Some g" by (metis map_of_eq_None_iff not_None_eq)
    then show ?thesis using i by (auto simp: font_table_nth dest: map_of_SomeD)
  qed
  have inj: "inj_on ((!) (font_table h gs)) {32..<127}"
    unfolding inj_on_def using entry distinct_map_distinct_snd [OF snd] by (metis atLeastLessThan_iff)
  have "32 + 95 \<le> length (font_table h gs)" by (simp add: font_table_def)
  then show ?thesis using inj distinct_upt [of 32 127]
    by (simp only: take_drop_nth distinct_map set_upt) simp
qed

lemma font_table_legible:
  assumes "list_all (\<lambda>(i, g). length g = h) gs" and "distinct (map glyph_code (map snd gs))"
    and "{32..<127} \<subseteq> fst ` set gs" and "map_of gs 32 = Some (replicate h 0)"
  shows "legible h (font_table h gs)"
  using font_table_heights [OF assms(1)] font_table_distinct [OF assms(2,3)] assms(4)
  by (simp add: legible_def font_table_nth) (simp add: font_table_def)

lemma misc_fixed_characters: "map fst misc_fixed_8x13B_glyphs = 0 # [32..<127]"
  by (simp add: misc_fixed_groups upt_rec_numeral)

lemma unifont_characters: "map fst unifont_8x16_glyphs = [32..<127]"
  by (simp add: unifont_groups upt_rec_numeral)

lemma misc_fixed_legible: "legible 13 misc_fixed_8x13B"
  unfolding misc_fixed_8x13B_def
proof (rule font_table_legible)
  show "list_all (\<lambda>(i, g). length g = 13) misc_fixed_8x13B_glyphs" by (simp add: misc_fixed_groups)
  show "distinct (map glyph_code (map snd misc_fixed_8x13B_glyphs))" by (simp add: misc_fixed_groups glyph_code_def)
  show "{32..<127} \<subseteq> fst ` set misc_fixed_8x13B_glyphs"
    using arg_cong [OF misc_fixed_characters, of set] by (simp only: set_map list.set set_upt) blast
  show "map_of misc_fixed_8x13B_glyphs 32 = Some (replicate 13 0)"
    by (simp add: misc_fixed_groups numeral_eq_Suc)
qed

lemma unifont_legible: "legible 16 unifont_8x16"
  unfolding unifont_8x16_def
proof (rule font_table_legible)
  show "list_all (\<lambda>(i, g). length g = 16) unifont_8x16_glyphs" by (simp add: unifont_groups)
  show "distinct (map glyph_code (map snd unifont_8x16_glyphs))" by (simp add: unifont_groups glyph_code_def)
  show "{32..<127} \<subseteq> fst ` set unifont_8x16_glyphs"
    using arg_cong [OF unifont_characters, of set] by (simp only: set_map set_upt)
  show "map_of unifont_8x16_glyphs 32 = Some (replicate 16 0)"
    by (simp add: unifont_groups numeral_eq_Suc)
qed

end
