(* ===== verification/Cstring.thy ===== *)
theory Cstring
  imports Memory
begin

text \<open>
  The string functions of \<^verbatim>\<open>kernel/string.c\<close> on bytes in memory. \<^verbatim>\<open>char\<close> is signed on this
  target. The loops of \<^verbatim>\<open>strcmp\<close> and \<^verbatim>\<open>strlen\<close> have no bound, so they are partial functions and
  are proved to end on terminated strings (\<open>cstr m a s\<close>: the bytes \<open>s\<close>, none of them zero, and a
  terminator at \<open>a\<close>). The C library has copies of the same functions; only its \<^verbatim>\<open>strlcpy\<close> differs.
\<close>

section \<open>The operations\<close>

definition uchar :: "u8 \<Rightarrow> int" where "uchar c = uint c"
definition schar :: "u8 \<Rightarrow> int" where "schar c = sint c"

fun memcmp_loop :: "mem \<Rightarrow> u32 \<Rightarrow> u32 \<Rightarrow> nat \<Rightarrow> int" where
  "memcmp_loop m s1 s2 0 = 0"
| "memcmp_loop m s1 s2 (Suc n) =
     (if m s1 = m s2 then memcmp_loop m (s1 + 1) (s2 + 1) n else uchar (m s1) - uchar (m s2))"

definition memcmp :: "mem \<Rightarrow> u32 \<Rightarrow> u32 \<Rightarrow> u32 \<Rightarrow> int" where
  "memcmp m s1 s2 n = memcmp_loop m s1 s2 (unat n)"

partial_function (option) strcmp :: "mem \<Rightarrow> u32 \<Rightarrow> u32 \<Rightarrow> int option" where
  "strcmp m s1 s2 =
     (if m s1 \<noteq> 0 \<and> m s2 \<noteq> 0
      then if m s1 = m s2 then strcmp m (s1 + 1) (s2 + 1) else Some (schar (m s1) - schar (m s2))
      else Some (schar (m s1) - schar (m s2)))"

partial_function (option) strlen_loop :: "mem \<Rightarrow> u32 \<Rightarrow> u32 \<Rightarrow> u32 option" where
  "strlen_loop m s n = (if m s \<noteq> 0 then strlen_loop m (s + 1) (n + 1) else Some n)"

definition strlen :: "mem \<Rightarrow> u32 \<Rightarrow> u32 option" where
  "strlen m s = strlen_loop m s 0"

fun strncpy_loop :: "u32 \<Rightarrow> u32 \<Rightarrow> nat \<Rightarrow> mem \<Rightarrow> mem" where
  "strncpy_loop dst src 0 m = m"
| "strncpy_loop dst src (Suc n) m =
     (if m src = 0 then m else strncpy_loop (dst + 1) (src + 1) n (m(dst := m src)))"

definition strncpy :: "u32 \<Rightarrow> u32 \<Rightarrow> u32 \<Rightarrow> mem \<Rightarrow> u32 \<times> mem" where
  "strncpy dst src len m = (dst, strncpy_loop dst src (unat len) m)"

fun strlcpy_loop :: "u32 \<Rightarrow> u32 \<Rightarrow> nat \<Rightarrow> mem \<Rightarrow> mem" where
  "strlcpy_loop dst src 0 m = m"
| "strlcpy_loop dst src (Suc n) m =
     (let m = m(dst := m src) in
      if m src = 0 then m else strlcpy_loop (dst + 1) (src + 1) n m)"

definition strlcpy :: "u32 \<Rightarrow> u32 \<Rightarrow> u32 \<Rightarrow> mem \<Rightarrow> u32 \<times> mem" where
  "strlcpy dst src len m = (len, strlcpy_loop dst src (unat len) m)"

fun strncmp_loop :: "mem \<Rightarrow> u32 \<Rightarrow> u32 \<Rightarrow> nat \<Rightarrow> int" where
  "strncmp_loop m s1 s2 0 = 0"
| "strncmp_loop m s1 s2 (Suc n) =
     (if m s1 \<noteq> m s2 then uchar (m s1) - uchar (m s2)
      else if m s1 = 0 then 0
      else strncmp_loop m (s1 + 1) (s2 + 1) n)"

definition strncmp :: "mem \<Rightarrow> u32 \<Rightarrow> u32 \<Rightarrow> u32 \<Rightarrow> int" where
  "strncmp m s1 s2 len = strncmp_loop m s1 s2 (unat len)"

text \<open>The copies in \<^verbatim>\<open>lib/libc/string\<close>.\<close>

definition libc_memcmp :: "mem \<Rightarrow> u32 \<Rightarrow> u32 \<Rightarrow> u32 \<Rightarrow> int" where
  "libc_memcmp m s1 s2 n = memcmp_loop m s1 s2 (unat n)"

definition libc_strlen :: "mem \<Rightarrow> u32 \<Rightarrow> u32 option" where
  "libc_strlen m s = strlen_loop m s 0"

definition libc_strncpy :: "u32 \<Rightarrow> u32 \<Rightarrow> u32 \<Rightarrow> mem \<Rightarrow> u32 \<times> mem" where
  "libc_strncpy dst src len m = (dst, strncpy_loop dst src (unat len) m)"

definition libc_strncmp :: "mem \<Rightarrow> u32 \<Rightarrow> u32 \<Rightarrow> u32 \<Rightarrow> int" where
  "libc_strncmp m s1 s2 len = strncmp_loop m s1 s2 (unat len)"

definition libc_strcmp :: "mem \<Rightarrow> u32 \<Rightarrow> u32 \<Rightarrow> int option" where
  "libc_strcmp m s1 s2 = strcmp m s1 s2"

fun copy_loop :: "u32 \<Rightarrow> u32 \<Rightarrow> nat \<Rightarrow> mem \<Rightarrow> mem" where
  "copy_loop dst src 0 m = m"
| "copy_loop dst src (Suc n) m = copy_loop (dst + 1) (src + 1) n (m(dst := m src))"

definition libc_strlcpy :: "u32 \<Rightarrow> u32 \<Rightarrow> u32 \<Rightarrow> mem \<Rightarrow> (u32 \<times> mem) res" where
  "libc_strlcpy dst src len m =
     bindE (ends (strlen_loop m src 0)) (\<lambda>sz.
       let i = (if sz < len then sz else len);
           m = copy_loop dst src (unat i) m in
       Inr (sz, m(dst + i := 0)))"

section \<open>Strings in memory\<close>

fun bytes_at :: "mem \<Rightarrow> u32 \<Rightarrow> u8 list \<Rightarrow> bool" where
  "bytes_at m a [] \<longleftrightarrow> True"
| "bytes_at m a (c # cs) \<longleftrightarrow> m a = c \<and> bytes_at m (a + 1) cs"

definition cstr :: "mem \<Rightarrow> u32 \<Rightarrow> u8 list \<Rightarrow> bool" where
  "cstr m a s \<longleftrightarrow> 0 \<notin> set s \<and> bytes_at m a (s @ [0])"

lemma cstr_Nil [simp]: "cstr m a [] \<longleftrightarrow> m a = 0"
  by (auto simp: cstr_def)

lemma cstr_Cons [simp]: "cstr m a (c # s) \<longleftrightarrow> m a = c \<and> c \<noteq> 0 \<and> cstr m (a + 1) s"
  by (auto simp: cstr_def)

text \<open>The order of strings by their signed characters, the terminator counting as zero.\<close>

fun slex :: "u8 list \<Rightarrow> u8 list \<Rightarrow> bool" where
  "slex s [] \<longleftrightarrow> (case s of [] \<Rightarrow> False | c # _ \<Rightarrow> schar c < 0)"
| "slex [] (d # t) \<longleftrightarrow> 0 < schar d"
| "slex (c # s) (d # t) \<longleftrightarrow> schar c < schar d \<or> c = d \<and> slex s t"

lemma schar_simps [simp]: "schar 0 = 0" "schar c = schar d \<longleftrightarrow> c = d" "schar c = 0 \<longleftrightarrow> c = 0"
  by (auto simp: schar_def signed_word_eqI)

lemma uchar_eq [simp]: "uchar c = uchar d \<longleftrightarrow> c = d"
  by (simp add: uchar_def word_uint_eq_iff)

lemma bytes_at_frame:
  assumes "same_outside T m m'" and "span a (length s) \<inter> T = {}"
  shows "bytes_at m' a s \<longleftrightarrow> bytes_at m a s"
  using assms(2)
proof (induction s arbitrary: a)
  case (Cons c s)
  have "a \<in> span a (length (c # s))" by (simp add: span_def)
  then have "m' a = m a" using assms(1) Cons.prems by (auto simp: same_outside_def)
  moreover have "span (a + 1) (length s) \<subseteq> span a (length (c # s))" by (rule span_sub) simp
  then have "span (a + 1) (length s) \<inter> T = {}" using Cons.prems by blast
  ultimately show ?case using Cons.IH by simp
qed simp

lemma cstr_frame:
  "same_outside T m m' \<Longrightarrow> span a (length s + 1) \<inter> T = {} \<Longrightarrow> cstr m' a s \<longleftrightarrow> cstr m a s"
  using bytes_at_frame [of T m m' a "s @ [0]"] by (simp add: cstr_def)

lemma same_outside_upd: "same_outside (span a 1) m (m(a := v))"
  by (simp add: same_outside_def span_def)

lemma span_Suc: "span a (Suc n) = insert a (span (a + 1) n)"
proof -
  have "span a 1 = {a}" by (auto simp: span_def unat_eq_0)
  then show ?thesis using span_split [of 1 "Suc n" a] by simp
qed

lemma not_in_next: "Suc n < 2 ^ 32 \<Longrightarrow> a \<notin> span (a + 1) n"
  by (simp add: span_def unsigned_minus_1_eq_mask mask_eq_exp_minus_1)

lemma strlen_loop_counts: "cstr m a s \<Longrightarrow> strlen_loop m a n = Some (n + of_nat (length s))"
proof (induction s arbitrary: a n)
  case Nil
  then show ?case by (subst strlen_loop.simps) simp
next
  case (Cons c s)
  then have "strlen_loop m a n = strlen_loop m (a + 1) (n + 1)" by (subst strlen_loop.simps) simp
  then show ?case using Cons by (simp add: algebra_simps)
qed

lemma strlen_correct: "cstr m a s \<Longrightarrow> strlen m a = Some (of_nat (length s))"
  using strlen_loop_counts [of m a s 0] by (simp add: strlen_def)

lemma strlcpy_loop_copies:
  assumes "cstr m src s" and "span dst n \<inter> span src (length s + 1) = {}" and "n < 2 ^ 32"
  shows "same_outside (span dst n) m (strlcpy_loop dst src n m) \<and>
    (if length s < n then cstr (strlcpy_loop dst src n m) dst s
     else bytes_at (strlcpy_loop dst src n m) dst (take n s))"
  using assms
proof (induction n arbitrary: dst src s m)
  case (Suc n)
  let ?m = "m(dst := m src)"
  have dn: "dst \<noteq> src" using Suc.prems(2) by (auto simp: span_Suc)
  have out1: "same_outside (span dst 1) m ?m" by (rule same_outside_upd)
  show ?case
  proof (cases s)
    case Nil
    then have "strlcpy_loop dst src (Suc n) m = ?m" using Suc.prems(1) dn by simp
    moreover have "same_outside (span dst (Suc n)) m ?m"
      using out1 span_mono [of 1 "Suc n" dst] by (simp add: same_outside_mono)
    ultimately show ?thesis using Nil Suc.prems(1) by simp
  next
    case (Cons c s')
    have "cstr m (src + 1) s'" "c = m src" "c \<noteq> 0" using Suc.prems(1) Cons by auto
    moreover have d: "span (dst + 1) n \<inter> span (src + 1) (length s' + 1) = {}"
      "span (src + 1) (length s' + 1) \<inter> span dst 1 = {}"
      using Suc.prems(2) Cons by (auto simp: span_Suc)
    ultimately have c1: "cstr ?m (src + 1) s'" using cstr_frame [OF out1] by blast
    let ?r = "strlcpy_loop (dst + 1) (src + 1) n ?m"
    have eq: "strlcpy_loop dst src (Suc n) m = ?r" using \<open>c = m src\<close> \<open>c \<noteq> 0\<close> dn by simp
    have "n < 2 ^ 32" using Suc.prems(3) by simp
    note ih = conjunct1 [OF Suc.IH [OF c1 d(1) this]] conjunct2 [OF Suc.IH [OF c1 d(1) this]]
    have "?r dst = ?m dst"
      using ih(1) not_in_next [OF Suc.prems(3)] unfolding same_outside_def by blast
    then have "?r dst = c" using \<open>c = m src\<close> by simp
    moreover have "same_outside (span dst (Suc n)) m ?r"
      using same_outside_trans [OF out1 ih(1)] by (rule same_outside_mono) (auto simp: span_Suc)
    ultimately show ?thesis unfolding eq using ih(2) Cons \<open>c \<noteq> 0\<close> by simp
  qed
qed (simp add: same_outside_def)

lemma strlcpy_loop_outside: "same_outside (span dst n) m (strlcpy_loop dst src n m)"
proof (induction n arbitrary: dst src m)
  case (Suc n)
  let ?m = "m(dst := m src)"
  have one: "same_outside (span dst (Suc n)) m ?m" by (simp add: same_outside_def span_Suc)
  have "same_outside (span dst (Suc n)) ?m (strlcpy_loop (dst + 1) (src + 1) n ?m)"
    by (rule same_outside_mono [OF Suc]) (auto simp: span_Suc)
  then show ?case using same_outside_trans [OF one, of "span dst (Suc n)"] one by (simp add: Let_def)
qed simp

lemma bytes_at_nth: "bytes_at m a s \<longleftrightarrow> (\<forall>i < length s. m (a + of_nat i) = s ! i)"
proof (induction s arbitrary: a)
  case (Cons c s)
  show ?case by (simp add: Cons All_less_Suc2 add.assoc)
qed simp

lemma cstr_end: "cstr m a t \<Longrightarrow> m (a + of_nat (length t)) = 0"
  by (auto simp: cstr_def bytes_at_nth nth_append)

lemma memcmp_loop_eq: "memcmp_loop m a b n = 0 \<longleftrightarrow> (\<forall>i < n. m (a + of_nat i) = m (b + of_nat i))"
proof (induction n arbitrary: a b)
  case (Suc n)
  show ?case by (simp add: Suc All_less_Suc2 add.assoc)
qed simp

lemma memcmp_correct: "memcmp m a b n = 0 \<longleftrightarrow> (\<forall>i < unat n. m (a + of_nat i) = m (b + of_nat i))"
  by (simp add: memcmp_def memcmp_loop_eq)

lemma strncmp_loop_eq:
  "cstr m a s \<Longrightarrow> cstr m b t \<Longrightarrow> strncmp_loop m a b n = 0 \<longleftrightarrow> take n s = take n t"
proof (induction n arbitrary: a b s t)
  case (Suc n)
  then show ?case by (cases s; cases t) auto
qed simp

lemma strncmp_correct:
  "cstr m a s \<Longrightarrow> cstr m b t \<Longrightarrow> strncmp m a b len = 0 \<longleftrightarrow> take (unat len) s = take (unat len) t"
  by (simp add: strncmp_def strncmp_loop_eq)

lemma strcmp_orders:
  assumes "cstr m a s" and "cstr m b t"
  shows "\<exists>r. strcmp m a b = Some r \<and> (r = 0 \<longleftrightarrow> s = t) \<and> (r < 0 \<longleftrightarrow> slex s t)"
  using assms
proof (induction s t arbitrary: a b rule: slex.induct)
  case (1 s)
  then show ?case by (cases s) (subst strcmp.simps, force)+
next
  case (2 d t)
  then show ?case by (subst strcmp.simps) force
next
  case (3 c s d t)
  show ?case
  proof (cases "c = d")
    case True
    then have "strcmp m a b = strcmp m (a + 1) (b + 1)" using 3 by (subst strcmp.simps) simp
    then show ?thesis using 3 True by simp
  next
    case False
    then show ?thesis using 3 by (subst strcmp.simps) force
  qed
qed

section \<open>Properties\<close>

definition demo_strings :: mem where
  "demo_strings = (\<lambda>_. 0)(0x100 := 97, 0x101 := 98, 0x200 := 97, 0x201 := 99, 0x301 := 7)"

lemma demo_cstr: "cstr demo_strings 0x100 [97, 98]" "cstr demo_strings 0x200 [97, 99]"
  by (simp_all add: demo_strings_def)

text \<open>C14: \<^verbatim>\<open>strcmp\<close> of two strings returns; the result is zero exactly when the strings are equal and
  negative exactly when the first is smaller, comparing characters as signed values.\<close>

theorem strcmp_correct:
  assumes "cstr m a s" and "cstr m b t"
  shows "\<exists>r. strcmp m a b = Some r \<and> (r = 0 \<longleftrightarrow> s = t) \<and> (r < 0 \<longleftrightarrow> slex s t)"
  by (rule strcmp_orders [OF assms])

theorem strcmp_correct_witness: "\<exists>r. strcmp demo_strings 0x100 0x200 = Some r \<and> r \<noteq> 0 \<and> r < 0"
proof -
  have "slex [97, 98] [97, 99]" by (simp add: schar_def)
  then show ?thesis using strcmp_correct [OF demo_cstr] by auto
qed

text \<open>The kernel's \<^verbatim>\<open>strlcpy\<close> writes only to the destination; it copies the whole string with its
  terminator when it fits, and exactly \<^verbatim>\<open>len\<close> characters when it does not; it returns \<^verbatim>\<open>len\<close>.\<close>

theorem strlcpy_correct:
  assumes "cstr m src s" and "span dst (unat len) \<inter> span src (length s + 1) = {}"
  shows "\<exists>m'. strlcpy dst src len m = (len, m') \<and> same_outside (span dst (unat len)) m m' \<and>
    (if length s < unat len then cstr m' dst s else bytes_at m' dst (take (unat len) s))"
  using strlcpy_loop_copies [OF assms] by (simp add: strlcpy_def)

theorem strlcpy_correct_witness:
  "\<exists>m'. strlcpy 0x300 0x100 8 demo_strings = (8, m') \<and> cstr m' 0x300 [97, 98]"
proof -
  have "span 0x300 (unat (8 :: u32)) \<inter> span 0x100 (length [97 :: u8, 98] + 1) = {}"
    using apart_span [of "0x300" 8 "0x100" 3] by (simp add: apart_def numeral_3_eq_3)
  from strlcpy_correct [OF demo_cstr(1) this] show ?thesis by auto
qed

text \<open>A string truncated by the kernel's \<^verbatim>\<open>strlcpy\<close> is not terminated within the destination.\<close>

theorem strlcpy_truncates_unterminated:
  assumes "cstr m src s" and "span dst (unat len) \<inter> span src (length s + 1) = {}"
    and "unat len \<le> length s" and "m (dst + len) \<noteq> 0"
  shows "\<not> (\<exists>t. length t \<le> unat len \<and> cstr (snd (strlcpy dst src len m)) dst t)"
proof
  let ?m = "snd (strlcpy dst src len m)"
  assume "\<exists>t. length t \<le> unat len \<and> cstr ?m dst t"
  then obtain t where t: "cstr ?m dst t" and le: "length t \<le> unat len" by blast
  have out: "same_outside (span dst (unat len)) m ?m" and b: "bytes_at ?m dst (take (unat len) s)"
    using strlcpy_loop_copies [OF assms(1,2)] assms(3) by (auto simp: strlcpy_def)
  have nz: "0 \<notin> set s" using assms(1) by (simp add: cstr_def)
  have z: "?m (dst + of_nat (length t)) = 0" by (rule cstr_end [OF t])
  show False
  proof (cases "length t = unat len")
    case True
    have "dst + len \<notin> span dst (unat len)" by (simp add: span_def)
    then have "?m (dst + len) = m (dst + len)" using out by (simp add: same_outside_def)
    with True z assms(4) show False by simp
  next
    case False
    then have "s ! length t = 0" using le b z assms(3) by (simp add: bytes_at_nth)
    then show False using nz False le assms(3) by (metis le_neq_implies_less less_le_trans nth_mem)
  qed
qed

theorem strlcpy_truncates_unterminated_witness:
  "\<not> (\<exists>t. length t \<le> 1 \<and> cstr (snd (strlcpy 0x300 0x100 1 demo_strings)) 0x300 t)"
proof -
  have "span 0x300 (unat (1 :: u32)) \<inter> span 0x100 (length [97 :: u8, 98] + 1) = {}"
    using apart_span [of "0x300" 1 "0x100" 3] by (simp add: apart_def numeral_3_eq_3)
  from strlcpy_truncates_unterminated [OF demo_cstr(1) this] show ?thesis by (simp add: demo_strings_def)
qed

end
