(* ===== verification/Console.thy ===== *)
theory Console
  imports Fonts Cstring
begin

text \<open>
  The console of \<^verbatim>\<open>drivers/video/console/console.c\<close>: characters drawn into a frame buffer, two screen
  pixels per font pixel in either direction, and the cursor \<^verbatim>\<open>x\<close>, \<^verbatim>\<open>y\<close> that \<^verbatim>\<open>fbcon_write\<close> keeps in
  static variables. The frame buffer is described by a \<^verbatim>\<open>struct fbdev\<close> in memory (address at offset
  0, pitch at 4, width at 8, height at 12, bits per pixel at 16), which is read for every pixel.
  \<open>pixel\<close> reads the screen back, and \<open>displays\<close> says that a cell of the screen shows a character.
\<close>

section \<open>The operations\<close>

definition FONT :: "u8 list list" where "FONT = misc_fixed_8x13B"
definition FONT_H :: nat where "FONT_H = 13"
definition FONT_W :: nat where "FONT_W = 8"
definition SCALE :: int where "SCALE = 2"
definition CELL_W :: int where "CELL_W = int FONT_W * SCALE"
definition CELL_H :: int where "CELL_H = int FONT_H * SCALE"

definition COORD :: "mem \<Rightarrow> u32 \<Rightarrow> int \<Rightarrow> int \<Rightarrow> u32" where
  "COORD m fb x y = read32 m fb +
     (word_of_int y * read32 m (fb + 4) + word_of_int x * (ucast (m (fb + 16)) div 8))"

text \<open>The character is a signed one: an index of 128 or more is negative and lies outside the font.\<close>

definition put_pixel :: "u32 \<Rightarrow> u8 \<Rightarrow> nat \<Rightarrow> nat \<Rightarrow> int \<Rightarrow> int \<Rightarrow> mem \<Rightarrow> mem" where
  "put_pixel fb c x y sx sy m =
     write32 m (COORD m fb sx sy)
       (if FONT ! unat c ! y AND push_bit (FONT_W - 1 - x mod FONT_W) 1 \<noteq> 0 then 0xFFFFFFFF else 0)"

definition fbconchar :: "u32 \<Rightarrow> int \<Rightarrow> int \<Rightarrow> u8 \<Rightarrow> mem \<Rightarrow> mem res" where
  "fbconchar fb xpos ypos c m =
     (if 128 \<le> c then Inl OutOfRange
      else Inr (fold (\<lambda>y. fold (\<lambda>x m.
        let px = SCALE * int x + xpos * CELL_W;
            py = SCALE * int y + ypos * CELL_H in
        fold (\<lambda>sx. fold (\<lambda>sy. put_pixel fb c x y sx sy) [py .. py + SCALE - 1]) [px .. px + SCALE - 1] m)
        [0 ..< FONT_W]) [0 ..< FONT_H] m))"

record cursor =
  cur_x :: int
  cur_y :: int

fun fbcon_write_loop :: "u32 \<Rightarrow> int \<Rightarrow> nat \<Rightarrow> u32 \<Rightarrow> cursor \<Rightarrow> mem \<Rightarrow> (cursor \<times> mem) res" where
  "fbcon_write_loop fb cols 0 buf s m = Inr (s, m)"
| "fbcon_write_loop fb cols (Suc n) buf s m =
     (if cols < cur_x s \<or> m buf = 0x0A
      then fbcon_write_loop fb cols n (buf + 1) (s\<lparr> cur_y := cur_y s + 1, cur_x := 0 \<rparr>) m
      else if m buf = 0x08 \<and> 0 < cur_x s
      then fbcon_write_loop fb cols n (buf + 1) (s\<lparr> cur_x := cur_x s - 1 \<rparr>) m
      else bindE (fbconchar fb (cur_x s) (cur_y s) (m buf) m)
             (fbcon_write_loop fb cols n (buf + 1) (s\<lparr> cur_x := cur_x s + 1 \<rparr>)))"

definition fbcon_write :: "u32 \<Rightarrow> u32 \<Rightarrow> u32 \<Rightarrow> cursor \<Rightarrow> mem \<Rightarrow> (int \<times> cursor \<times> mem) res" where
  "fbcon_write file buf sz s m =
     (if read32 m (file + 8) = 0 then Inr (- 1, s, m)
      else let fb = read32 m (read32 m (file + 8) + 4);
               cols = sint (read32 m (fb + 8) div word_of_int CELL_W) in
        bindE (fbcon_write_loop fb cols (unat sz) buf s m) (\<lambda>(s, m). Inr (0, s, m)))"

definition fbcon_close :: "u32 \<Rightarrow> u32 \<Rightarrow> int" where
  "fbcon_close inode file = - 1"

definition fbcon_read :: "u32 \<Rightarrow> u32 \<Rightarrow> u32 \<Rightarrow> int" where
  "fbcon_read file buf sz = - 1"

section \<open>Pixels\<close>

text \<open>A screen: where the frame buffer is, how long a line of it is in bytes, and how many lines it has.
  A frame buffer of 32 bits per pixel that does not wrap around the address space and does not
  contain its own description.\<close>

record screen =
  scr_fb :: u32
  scr_addr :: u32
  scr_pitch :: nat
  scr_lines :: nat

definition screen_span :: "screen \<Rightarrow> u32 set" where
  "screen_span scr = span (scr_addr scr) (scr_pitch scr * scr_lines scr)"

definition screen_ok :: "screen \<Rightarrow> mem \<Rightarrow> bool" where
  "screen_ok scr m \<longleftrightarrow> read32 m (scr_fb scr) = scr_addr scr \<and> unat (read32 m (scr_fb scr + 4)) = scr_pitch scr \<and>
     m (scr_fb scr + 16) = 32 \<and> unat (scr_addr scr) + scr_pitch scr * scr_lines scr \<le> 2 ^ 32 \<and>
     span (scr_fb scr) 20 \<inter> screen_span scr = {}"

definition on_screen :: "screen \<Rightarrow> int \<times> int \<Rightarrow> bool" where
  "on_screen scr p \<longleftrightarrow> 0 \<le> fst p \<and> 4 * fst p + 4 \<le> int (scr_pitch scr) \<and> 0 \<le> snd p \<and> snd p < int (scr_lines scr)"

definition pixel_at :: "screen \<Rightarrow> int \<times> int \<Rightarrow> u32" where
  "pixel_at scr p = scr_addr scr + of_nat (nat (snd p) * scr_pitch scr + 4 * nat (fst p))"

definition pixel :: "screen \<Rightarrow> mem \<Rightarrow> int \<times> int \<Rightarrow> u32" where
  "pixel scr m p = read32 m (pixel_at scr p)"

definition cell :: "int \<Rightarrow> int \<Rightarrow> (int \<times> int) set" where
  "cell xpos ypos = {(sx, sy). xpos * CELL_W \<le> sx \<and> sx < xpos * CELL_W + CELL_W \<and>
     ypos * CELL_H \<le> sy \<and> sy < ypos * CELL_H + CELL_H}"

text \<open>The colour the glyph of \<open>c\<close> gives to a pixel of the cell, counted from its upper left corner.\<close>

definition glyph_colour :: "u8 \<Rightarrow> int \<Rightarrow> int \<Rightarrow> u32" where
  "glyph_colour c i j = (if bit (FONT ! unat c ! nat (j div SCALE)) (FONT_W - 1 - nat (i div SCALE)) then 0xFFFFFFFF else 0)"

definition displays :: "screen \<Rightarrow> mem \<Rightarrow> int \<Rightarrow> int \<Rightarrow> u8 \<Rightarrow> bool" where
  "displays scr m xpos ypos c \<longleftrightarrow>
     (\<forall>(sx, sy) \<in> cell xpos ypos. pixel scr m (sx, sy) = glyph_colour c (sx - xpos * CELL_W) (sy - ypos * CELL_H))"

lemma pixel_offset:
  assumes "on_screen scr p"
  shows "nat (snd p) * scr_pitch scr + 4 * nat (fst p) + 4 \<le> scr_pitch scr * scr_lines scr"
proof -
  have "4 * nat (fst p) + 4 \<le> scr_pitch scr" "nat (snd p) + 1 \<le> scr_lines scr"
    using assms by (auto simp: on_screen_def)
  then have "scr_pitch scr * (nat (snd p) + 1) \<le> scr_pitch scr * scr_lines scr" by (intro mult_le_mono2)
  then show ?thesis using \<open>4 * nat (fst p) + 4 \<le> scr_pitch scr\<close> by (simp add: algebra_simps)
qed

lemma pixel_order:
  assumes "on_screen scr p" and "on_screen scr q" and "snd p < snd q \<or> snd p = snd q \<and> fst p < fst q"
  shows "nat (snd p) * scr_pitch scr + 4 * nat (fst p) + 4 \<le> nat (snd q) * scr_pitch scr + 4 * nat (fst q)"
proof (cases "snd p < snd q")
  case True
  then have "nat (snd p) + 1 \<le> nat (snd q)" using assms by (auto simp: on_screen_def)
  then have "(nat (snd p) + 1) * scr_pitch scr \<le> nat (snd q) * scr_pitch scr" by (rule mult_le_mono1)
  moreover have "4 * nat (fst p) + 4 \<le> scr_pitch scr" using assms(1) by (auto simp: on_screen_def)
  ultimately show ?thesis by simp
next
  case False
  then show ?thesis using assms by (auto simp: on_screen_def)
qed

lemma offset_apart:
  assumes "a + 4 \<le> b" and "b + 4 \<le> n" and "unat (s :: u32) + n \<le> 2 ^ 32"
  shows "apart (s + of_nat a) 4 (s + of_nat b) 4"
  using assms by (intro apart_of_nat) auto

lemma pixels_apart:
  assumes "screen_ok scr m" and "on_screen scr p" and "on_screen scr q" and "p \<noteq> q"
  shows "apart (pixel_at scr p) 4 (pixel_at scr q) 4"
proof -
  have b: "unat (scr_addr scr) + scr_pitch scr * scr_lines scr \<le> 2 ^ 32"
    using assms(1) by (simp add: screen_ok_def)
  consider "snd p < snd q \<or> snd p = snd q \<and> fst p < fst q" | "snd q < snd p \<or> snd q = snd p \<and> fst q < fst p"
    using assms(4) by (metis linorder_cases prod.collapse)
  then show ?thesis
  proof cases
    case 1
    show ?thesis unfolding pixel_at_def
      by (rule offset_apart [OF pixel_order [OF assms(2,3) 1] pixel_offset [OF assms(3)] b])
  next
    case 2
    show ?thesis unfolding pixel_at_def
      by (subst apart_sym) (rule offset_apart [OF pixel_order [OF assms(3,2) 2] pixel_offset [OF assms(2)] b])
  qed
qed

lemma pixel_in_screen: "on_screen scr p \<Longrightarrow> span (pixel_at scr p) 4 \<subseteq> screen_span scr"
  unfolding pixel_at_def screen_span_def by (rule span_of_nat [OF pixel_offset])

lemma screen_ok_frame:
  assumes "screen_ok scr m" and "same_outside (screen_span scr) m m'"
  shows "screen_ok scr m'"
proof -
  let ?fb = "scr_fb scr"
  have d: "span ?fb 20 \<inter> screen_span scr = {}" using assms(1) by (simp add: screen_ok_def)
  have "?fb + 16 \<in> span ?fb 20" by (simp add: span_def)
  then have "span ?fb 4 \<inter> screen_span scr = {}" "span (?fb + 4) 4 \<inter> screen_span scr = {}" "?fb + 16 \<notin> screen_span scr"
    using d span_sub [of 0 4 20 ?fb] span_sub [of 4 4 20 ?fb] by auto
  then show ?thesis using assms same_outside_read32 [OF assms(2)]
    by (simp add: screen_ok_def same_outside_def)
qed

text \<open>Drawing: \<open>paints scr S col m m'\<close> says that \<open>m'\<close> is \<open>m\<close> with the pixels of \<open>S\<close> coloured by \<open>col\<close>.\<close>

definition paints :: "screen \<Rightarrow> (int \<times> int) set \<Rightarrow> (int \<times> int \<Rightarrow> u32) \<Rightarrow> mem \<Rightarrow> mem \<Rightarrow> bool" where
  "paints scr S col m m' \<longleftrightarrow> same_outside (screen_span scr) m m' \<and>
     (\<forall>p. on_screen scr p \<longrightarrow> pixel scr m' p = (if p \<in> S then col p else pixel scr m p))"

lemma paints_trans:
  "paints scr S col m m1 \<Longrightarrow> paints scr T col m1 m2 \<Longrightarrow> paints scr (S \<union> T) col m m2"
  using same_outside_trans [of "screen_span scr" m m1 "screen_span scr" m2] by (auto simp: paints_def)

lemma paints_fold:
  assumes "screen_ok scr m" and "\<And>i m. i \<in> set is \<Longrightarrow> screen_ok scr m \<Longrightarrow> paints scr (S i) col m (f i m)"
  shows "paints scr (\<Union>i \<in> set is. S i) col m (fold f is m)"
  using assms
proof (induction "is" arbitrary: m)
  case Nil
  then show ?case by (simp add: paints_def)
next
  case (Cons i js)
  have p: "paints scr (S i) col m (f i m)" using Cons.prems by simp
  then have "screen_ok scr (f i m)" using screen_ok_frame [OF Cons.prems(1)] by (simp add: paints_def)
  then have "paints scr (\<Union>i \<in> set js. S i) col (f i m) (fold f js (f i m))" using Cons.IH Cons.prems(2) by simp
  then show ?case using paints_trans [OF p] by simp
qed

lemma COORD_pixel:
  assumes "screen_ok scr m" and "0 \<le> sx" and "0 \<le> sy"
  shows "COORD m (scr_fb scr) sx sy = pixel_at scr (sx, sy)"
proof -
  have a: "read32 m (scr_fb scr) = scr_addr scr" and p: "unat (read32 m (scr_fb scr + 4)) = scr_pitch scr"
    and b: "m (scr_fb scr + 16) = 32" using assms(1) by (simp_all add: screen_ok_def)
  have p': "read32 m (scr_fb scr + 4) = of_nat (scr_pitch scr)" unfolding p [symmetric] by simp
  have n: "word_of_int sx = (of_nat (nat sx) :: u32)" "word_of_int sy = (of_nat (nat sy) :: u32)"
    using assms(2,3) by simp_all
  have "ucast (32 :: u8) div 8 = (4 :: u32)" by simp
  then show ?thesis unfolding COORD_def pixel_at_def a p' b n
    by (simp only: of_nat_add of_nat_mult fst_conv snd_conv of_nat_numeral mult.commute)
qed

lemma put_pixel_paints:
  assumes "screen_ok scr m" and "on_screen scr (sx, sy)" and "j < FONT_H" and "i < FONT_W"
    and "col (sx, sy) = (if bit (FONT ! unat c ! j) (FONT_W - 1 - i) then 0xFFFFFFFF else 0)"
  shows "paints scr {(sx, sy)} col m (put_pixel (scr_fb scr) c i j sx sy m)"
proof -
  let ?a = "pixel_at scr (sx, sy)"
  have "put_pixel (scr_fb scr) c i j sx sy m = write32 m ?a (col (sx, sy))"
    using assms by (simp add: put_pixel_def COORD_pixel on_screen_def and_exp_eq_0_iff_not_bit push_bit_of_1)
  moreover have "same_outside (screen_span scr) m (write32 m ?a (col (sx, sy)))"
    by (rule same_outside_mono [OF same_outside_write32 pixel_in_screen [OF assms(2)]])
  moreover have "pixel scr (write32 m ?a v) p = pixel scr m p" if "on_screen scr p" "p \<noteq> (sx, sy)" for p v
    using pixels_apart [OF assms(1,2) that(1)] that(2) by (simp add: pixel_def mem_simps)
  ultimately show ?thesis by (auto simp: paints_def pixel_def)
qed

definition cell_colour :: "u8 \<Rightarrow> int \<Rightarrow> int \<Rightarrow> int \<times> int \<Rightarrow> u32" where
  "cell_colour c xpos ypos = (\<lambda>(sx, sy). glyph_colour c (sx - xpos * CELL_W) (sy - ypos * CELL_H))"

lemmas cell_sizes = CELL_W_def CELL_H_def FONT_W_def FONT_H_def SCALE_def

lemma cell_union:
  "(\<Union>j \<in> set [0 ..< FONT_H]. \<Union>i \<in> set [0 ..< FONT_W].
      \<Union>sx \<in> set [SCALE * int i + xpos * CELL_W .. SCALE * int i + xpos * CELL_W + SCALE - 1].
      \<Union>sy \<in> set [SCALE * int j + ypos * CELL_H .. SCALE * int j + ypos * CELL_H + SCALE - 1]. {(sx, sy)})
   = cell xpos ypos" (is "?U = _")
proof
  show "?U \<subseteq> cell xpos ypos" by (auto simp: cell_def cell_sizes)
  show "cell xpos ypos \<subseteq> ?U"
  proof
    fix p assume "p \<in> cell xpos ypos"
    then obtain sx sy where p: "p = (sx, sy)" "xpos * CELL_W \<le> sx" "sx < xpos * CELL_W + CELL_W"
        "ypos * CELL_H \<le> sy" "sy < ypos * CELL_H + CELL_H" by (auto simp: cell_def)
    define i j where "i = nat ((sx - xpos * CELL_W) div SCALE)" and "j = nat ((sy - ypos * CELL_H) div SCALE)"
    have "i < FONT_W" "j < FONT_H" "SCALE * int i + xpos * CELL_W \<le> sx" "sx \<le> SCALE * int i + xpos * CELL_W + SCALE - 1"
        "SCALE * int j + ypos * CELL_H \<le> sy" "sy \<le> SCALE * int j + ypos * CELL_H + SCALE - 1"
      using p by (auto simp: i_def j_def cell_sizes)
    then show "p \<in> ?U" unfolding p(1) by (auto simp: Bex_def)
  qed
qed

lemma fbconchar_paints:
  assumes "screen_ok scr m" and "c < 128" and "\<forall>p \<in> cell xpos ypos. on_screen scr p"
  shows "\<exists>m'. fbconchar (scr_fb scr) xpos ypos c m = Inr m' \<and>
    paints scr (cell xpos ypos) (cell_colour c xpos ypos) m m'"
proof -
  have pix: "paints scr {(sx, sy)} (cell_colour c xpos ypos) m (put_pixel (scr_fb scr) c i j sx sy m)"
    if "screen_ok scr m" "j \<in> set [0 ..< FONT_H]" "i \<in> set [0 ..< FONT_W]"
      "sx \<in> set [SCALE * int i + xpos * CELL_W .. SCALE * int i + xpos * CELL_W + SCALE - 1]"
      "sy \<in> set [SCALE * int j + ypos * CELL_H .. SCALE * int j + ypos * CELL_H + SCALE - 1]" for i j sx sy m
  proof (rule put_pixel_paints)
    have "(sx, sy) \<in> cell xpos ypos" using that cell_union [of ypos xpos] by blast
    then show "on_screen scr (sx, sy)" using assms(3) by blast
    have "(sx - xpos * CELL_W) div SCALE = int i" "(sy - ypos * CELL_H) div SCALE = int j"
      using that(4,5) by (auto simp: SCALE_def)
    then show "cell_colour c xpos ypos (sx, sy) =
        (if bit (FONT ! unat c ! j) (FONT_W - 1 - i) then 0xFFFFFFFF else 0)"
      by (simp add: cell_colour_def glyph_colour_def)
  qed (use that in auto)
  have "paints scr (cell xpos ypos) (cell_colour c xpos ypos) m (fold (\<lambda>y. fold (\<lambda>x m.
        fold (\<lambda>sx. fold (\<lambda>sy. put_pixel (scr_fb scr) c x y sx sy)
            [SCALE * int y + ypos * CELL_H .. SCALE * int y + ypos * CELL_H + SCALE - 1])
          [SCALE * int x + xpos * CELL_W .. SCALE * int x + xpos * CELL_W + SCALE - 1] m)
        [0 ..< FONT_W]) [0 ..< FONT_H] m)"
    unfolding cell_union [symmetric] by (intro paints_fold assms(1) pix)
  then show ?thesis using assms(2) by (simp add: fbconchar_def Let_def not_le)
qed

section \<open>A line of text\<close>

definition line_cells :: "int \<Rightarrow> int \<Rightarrow> nat \<Rightarrow> (int \<times> int) set" where
  "line_cells x0 y0 n = (\<Union>i < n. cell (x0 + int i) y0)"

definition printable :: "u8 \<Rightarrow> bool" where
  "printable c \<longleftrightarrow> 32 \<le> c \<and> c < 127"

lemma line_cells_Suc: "line_cells x0 y0 (Suc n) = cell x0 y0 \<union> line_cells (x0 + 1) y0 n"
  by (auto simp: line_cells_def lessThan_Suc_eq_insert_0 algebra_simps)

lemma paints_cong: "paints scr S col m m' \<Longrightarrow> \<forall>p \<in> S. col p = col' p \<Longrightarrow> paints scr S col' m m'"
  by (simp add: paints_def)

lemma fbcon_write_loop_text:
  assumes "screen_ok scr m" and "bytes_at m buf s" and "span buf (length s) \<inter> screen_span scr = {}"
    and "\<forall>c \<in> set s. printable c" and "cur_x st + int (length s) \<le> cols"
    and "\<forall>p \<in> line_cells (cur_x st) (cur_y st) (length s). on_screen scr p"
    and "\<forall>i < length s. \<forall>p \<in> cell (cur_x st + int i) (cur_y st). col p = cell_colour (s ! i) (cur_x st + int i) (cur_y st) p"
  shows "\<exists>m'. fbcon_write_loop (scr_fb scr) cols (length s) buf st m =
      Inr (st\<lparr> cur_x := cur_x st + int (length s) \<rparr>, m') \<and>
    paints scr (line_cells (cur_x st) (cur_y st) (length s)) col m m'"
  using assms
proof (induction s arbitrary: buf st m)
  case Nil
  then show ?case by (simp add: paints_def line_cells_def)
next
  case (Cons c s)
  let ?st = "st\<lparr> cur_x := cur_x st + 1 \<rparr>"
  have c: "m buf = c" "bytes_at m (buf + 1) s" "32 \<le> c" "c < 127" using Cons.prems by (auto simp: printable_def)
  then have "\<not> (cols < cur_x st \<or> m buf = 0x0A)" "\<not> (m buf = 0x08 \<and> 0 < cur_x st)" "c < 128"
    using Cons.prems(5) by (auto simp: u32_order)
  moreover have on: "\<forall>p \<in> cell (cur_x st) (cur_y st). on_screen scr p"
    using Cons.prems(6) by (simp add: line_cells_Suc)
  ultimately obtain m1 where m1: "fbconchar (scr_fb scr) (cur_x st) (cur_y st) c m = Inr m1"
      "paints scr (cell (cur_x st) (cur_y st)) (cell_colour c (cur_x st) (cur_y st)) m m1"
    using fbconchar_paints [OF Cons.prems(1) _ on] by blast
  have p1: "paints scr (cell (cur_x st) (cur_y st)) col m m1"
    using paints_cong [OF m1(2)] Cons.prems(7) [rule_format, of 0] by simp
  have so: "same_outside (screen_span scr) m m1" using m1(2) by (simp add: paints_def)
  have sp: "span (buf + 1) (length s) \<inter> screen_span scr = {}"
    using Cons.prems(3) span_sub [of 1 "length s" "length (c # s)" buf] by auto
  have "\<exists>m'. fbcon_write_loop (scr_fb scr) cols (length s) (buf + 1) ?st m1 =
      Inr (?st\<lparr> cur_x := cur_x ?st + int (length s) \<rparr>, m') \<and>
    paints scr (line_cells (cur_x ?st) (cur_y ?st) (length s)) col m1 m'"
  proof (rule Cons.IH)
    show "screen_ok scr m1" by (rule screen_ok_frame [OF Cons.prems(1) so])
    show "bytes_at m1 (buf + 1) s" using bytes_at_frame [OF so sp] c(2) by simp
    show "\<forall>i < length s. \<forall>p \<in> cell (cur_x ?st + int i) (cur_y ?st).
        col p = cell_colour (s ! i) (cur_x ?st + int i) (cur_y ?st) p"
      using Cons.prems(7) by (auto simp: algebra_simps dest: spec [of _ "Suc _"])
  qed (use Cons.prems sp in \<open>auto simp: line_cells_Suc\<close>)
  then show ?case
    using \<open>\<not> (cols < _ \<or> _)\<close> \<open>\<not> (_ \<and> 0 < _)\<close> c(1) m1(1) paints_trans [OF p1]
    by (auto simp: line_cells_Suc algebra_simps)
qed

lemma cell_at: "p \<in> cell xpos ypos \<longleftrightarrow> fst p div CELL_W = xpos \<and> snd p div CELL_H = ypos"
  by (cases p) (auto simp: cell_def cell_sizes)

lemma line_on_screen:
  assumes "0 \<le> x0" and "0 \<le> y0" and "x0 + int n \<le> w div CELL_W" and "4 * w \<le> int (scr_pitch scr)"
    and "(y0 + 1) * CELL_H \<le> int (scr_lines scr)" and "p \<in> line_cells x0 y0 n"
  shows "on_screen scr p"
proof -
  obtain i where i: "i < n" "p \<in> cell (x0 + int i) y0" using assms(6) by (auto simp: line_cells_def)
  then have p: "(x0 + int i) * 16 \<le> fst p" "fst p < (x0 + int i) * 16 + 16" "y0 * 26 \<le> snd p" "snd p < y0 * 26 + 26"
    by (auto simp: cell_def cell_sizes)
  define q where "q = w div 16"
  have "x0 + int i + 1 \<le> q" using assms(3) i(1) by (simp add: cell_sizes q_def)
  moreover have "q * 16 \<le> w" by (simp add: q_def)
  ultimately have "fst p + 1 \<le> w" using p(2) by (simp add: algebra_simps)
  moreover have "0 \<le> fst p" "0 \<le> snd p" using p assms(1,2) by auto
  moreover have "snd p < int (scr_lines scr)" using p(4) assms(5) by (simp add: cell_sizes)
  ultimately show ?thesis using assms(4) by (simp add: on_screen_def)
qed

lemma columns: "sint (w div word_of_int CELL_W :: u32) = uint w div CELL_W"
proof -
  have "uint w < 4294967296" using uint_lt2p [of w] by simp
  then have "uint w div 16 < 2147483648" by linarith
  moreover have "0 \<le> uint w div 16" by (simp add: pos_imp_zdiv_nonneg_iff)
  ultimately have "signed_take_bit 31 (uint w div 16) = uint w div 16"
    by (intro signed_take_bit_int_eq_self) simp_all
  then show ?thesis by (simp add: cell_sizes sint_uint uint_div_distrib)
qed

definition line_colour :: "u8 list \<Rightarrow> int \<Rightarrow> int \<times> int \<Rightarrow> u32" where
  "line_colour s x0 p = cell_colour (s ! nat (fst p div CELL_W - x0)) (fst p div CELL_W) (snd p div CELL_H) p"

text \<open>A console with a line of four characters, on a screen of 64 by 26 pixels.\<close>

definition demo_screen :: screen where
  "demo_screen = \<lparr> scr_fb = 0x1000, scr_addr = 0x2000, scr_pitch = 256, scr_lines = 26 \<rparr>"

definition demo_console :: mem where
  "demo_console = write32 (write32 (write32 (write32 (write32
     ((\<lambda>_. 0)(0x1010 := 32, 0x300 := 0x48, 0x301 := 0x69))
     0x108 0x200) 0x204 0x1000) 0x1000 0x2000) 0x1004 256) 0x1008 64"

lemma demo_console_reads:
  "read32 demo_console 0x108 = 0x200" "read32 demo_console 0x204 = 0x1000" "read32 demo_console 0x1000 = 0x2000"
  "read32 demo_console 0x1004 = 256" "read32 demo_console 0x1008 = 64" "demo_console 0x1010 = 32"
  "demo_console 0x300 = 0x48" "demo_console 0x301 = 0x69"
  by (simp_all add: demo_console_def mem_simps apart_def)

lemma demo_screen_ok: "screen_ok demo_screen demo_console" "span 0x300 2 \<inter> screen_span demo_screen = {}"
proof -
  have "apart 0x1000 20 0x2000 6656" "apart 0x300 2 0x2000 6656" by (simp_all add: apart_def)
  then have "span 0x1000 20 \<inter> span 0x2000 6656 = {}" "span 0x300 2 \<inter> span 0x2000 6656 = {}" by (simp_all add: apart_span)
  then show "screen_ok demo_screen demo_console" "span 0x300 2 \<inter> screen_span demo_screen = {}"
    using demo_console_reads by (simp_all add: screen_ok_def screen_span_def demo_screen_def)
qed

lemma fbcon_write_shows:
  assumes "screen_ok scr m" and "read32 m (file + 8) = con" and "con \<noteq> 0" and "read32 m (con + 4) = scr_fb scr"
    and "4 * uint (read32 m (scr_fb scr + 8)) \<le> int (scr_pitch scr)"
    and "0 \<le> cur_x st" and "cur_x st + int (length s) \<le> uint (read32 m (scr_fb scr + 8)) div CELL_W"
    and "0 \<le> cur_y st" and "(cur_y st + 1) * CELL_H \<le> int (scr_lines scr)"
    and "bytes_at m buf s" and "span buf (length s) \<inter> screen_span scr = {}"
    and "\<forall>c \<in> set s. printable c" and "length s < 2 ^ 32"
  shows "\<exists>m'. fbcon_write file buf (of_nat (length s)) st m = Inr (0, st\<lparr> cur_x := cur_x st + int (length s) \<rparr>, m') \<and>
    (\<forall>i < length s. displays scr m' (cur_x st + int i) (cur_y st) (s ! i)) \<and>
    (\<forall>p. on_screen scr p \<longrightarrow> p \<notin> line_cells (cur_x st) (cur_y st) (length s) \<longrightarrow> pixel scr m' p = pixel scr m p) \<and>
    same_outside (screen_span scr) m m'"
proof -
  let ?w = "uint (read32 m (scr_fb scr + 8))" and ?col = "line_colour s (cur_x st)"
  have on: "\<forall>p \<in> line_cells (cur_x st) (cur_y st) (length s). on_screen scr p"
    using line_on_screen [OF assms(6,8,7,5,9)] by blast
  have col: "?col p = cell_colour (s ! i) (cur_x st + int i) (cur_y st) p"
    if "p \<in> cell (cur_x st + int i) (cur_y st)" for i p
    using that by (simp add: line_colour_def cell_at)
  obtain m' where m': "fbcon_write_loop (scr_fb scr) (?w div CELL_W) (length s) buf st m =
        Inr (st\<lparr> cur_x := cur_x st + int (length s) \<rparr>, m')"
      "paints scr (line_cells (cur_x st) (cur_y st) (length s)) ?col m m'"
    using fbcon_write_loop_text [OF assms(1,10,11,12,7) on, of ?col] col by auto
  have "displays scr m' (cur_x st + int i) (cur_y st) (s ! i)" if "i < length s" for i
  proof -
    have "pixel scr m' p = ?col p" if "p \<in> cell (cur_x st + int i) (cur_y st)" for p
    proof -
      have "p \<in> line_cells (cur_x st) (cur_y st) (length s)" using that \<open>i < length s\<close> by (auto simp: line_cells_def)
      then show ?thesis using m'(2) on unfolding paints_def by (metis (full_types))
    qed
    then show ?thesis using col by (auto simp: displays_def cell_colour_def)
  qed
  moreover have "unat (of_nat (length s) :: u32) = length s" using assms(13) by (simp add: unat_of_nat)
  ultimately show ?thesis
    using m' assms(2-4) by (intro exI [of _ m']) (simp add: fbcon_write_def columns paints_def)
qed

text \<open>Reading the screen back: the first printable character whose glyph a cell shows. Different printable characters have
  different glyphs, so there is at most one.\<close>

definition printables :: "u8 list" where
  "printables = map of_nat [32 ..< 127]"

definition read_cell :: "screen \<Rightarrow> mem \<Rightarrow> int \<Rightarrow> int \<Rightarrow> u8 option" where
  "read_cell scr m xpos ypos = find (displays scr m xpos ypos) printables"

lemma set_printables: "set printables = {c. printable c}"
proof -
  have "c \<in> of_nat ` {32 ..< 127}" if "printable c" for c :: u8
    using that by (intro image_eqI [of _ _ "unat c"]) (auto simp: printable_def word_le_nat_alt word_less_nat_alt)
  then show ?thesis
    unfolding printables_def set_map set_upt by (auto simp: printable_def word_le_nat_alt word_less_nat_alt unat_of_nat)
qed

lemma displays_bits:
  assumes "displays scr m xpos ypos c" and "displays scr m xpos ypos d" and "i < FONT_W" and "j < FONT_H"
  shows "bit (FONT ! unat c ! j) (FONT_W - 1 - i) = bit (FONT ! unat d ! j) (FONT_W - 1 - i)"
proof -
  let ?p = "(xpos * CELL_W + SCALE * int i, ypos * CELL_H + SCALE * int j)"
  have "?p \<in> cell xpos ypos" using assms(3,4) by (simp add: cell_def cell_sizes)
  with assms(1,2) have "glyph_colour c (SCALE * int i) (SCALE * int j) = glyph_colour d (SCALE * int i) (SCALE * int j)"
    by (fastforce simp: displays_def)
  then show ?thesis by (simp add: glyph_colour_def SCALE_def split: if_splits)
qed

lemma glyph_inj:
  assumes "FONT ! unat c = FONT ! unat d" and "printable c" and "printable d"
  shows "c = d"
proof -
  have f: "length FONT = 128" "distinct (take 95 (drop 32 FONT))" using misc_fixed_legible by (simp_all add: FONT_def legible_def)
  have u: "32 \<le> unat x" "unat x < 127" if "printable x" for x using that by (simp_all add: printable_def word_le_nat_alt word_less_nat_alt)
  have n: "take 95 (drop 32 FONT) ! (unat x - 32) = FONT ! unat x" if "printable x" for x using u [OF that] f(1) by simp
  have "unat c - 32 = unat d - 32"
    using nth_eq_iff_index_eq [OF f(2), of "unat c - 32" "unat d - 32"] n [OF assms(2)] n [OF assms(3)] assms(1) u [OF assms(2)] u [OF assms(3)] f(1) by simp
  then show ?thesis using u [OF assms(2)] u [OF assms(3)] by (simp add: word_unat_eq_iff)
qed

lemma displays_unique:
  assumes "displays scr m xpos ypos c" and "displays scr m xpos ypos d" and "printable c" and "printable d"
  shows "c = d"
proof (rule glyph_inj [OF _ assms(3,4)])
  have h: "length (FONT ! unat x) = FONT_H" if "printable x" for x
  proof -
    have "unat x < length FONT" using that misc_fixed_legible by (simp add: FONT_def legible_def printable_def word_less_nat_alt)
    then show ?thesis using misc_fixed_legible by (simp add: FONT_def FONT_H_def legible_def list_all_length)
  qed
  show "FONT ! unat c = FONT ! unat d"
  proof (rule nth_equalityI)
    fix j assume "j < length (FONT ! unat c)"
    then have j: "j < FONT_H" using h [OF assms(3)] by simp
    show "FONT ! unat c ! j = FONT ! unat d ! j"
    proof (rule bit_eqI)
      fix n assume "possible_bit TYPE(8 word) n"
      then have n: "n < 8" by simp
      then show "bit (FONT ! unat c ! j) n = bit (FONT ! unat d ! j) n"
        using displays_bits [OF assms(1,2), of "7 - n" j] j by (simp add: FONT_W_def)
    qed
  qed (simp add: h assms(3,4))
qed

lemma read_cell_displays:
  assumes "displays scr m xpos ypos c" and "printable c"
  shows "read_cell scr m xpos ypos = Some c"
proof -
  have "read_cell scr m xpos ypos \<noteq> None" using assms set_printables by (auto simp: read_cell_def find_None_iff)
  then obtain d where d: "read_cell scr m xpos ypos = Some d" by auto
  then have "displays scr m xpos ypos d" "d \<in> set printables" by (auto simp: read_cell_def find_Some_iff)
  then show ?thesis using d displays_unique [OF assms(1) _ assms(2)] set_printables by simp
qed

section \<open>Properties\<close>

text \<open>C20: \<^verbatim>\<open>fbcon_write\<close> of printable characters that fit on the rest of the line returns 0, moves the
  cursor behind them, makes the screen cell of each show the glyph of its character, and changes
  no other pixel of the screen and no memory outside of it.\<close>

theorem fbcon_write_displays:
  assumes "screen_ok scr m" and "read32 m (file + 8) = con" and "con \<noteq> 0" and "read32 m (con + 4) = scr_fb scr"
    and "4 * uint (read32 m (scr_fb scr + 8)) \<le> int (scr_pitch scr)"
    and "0 \<le> cur_x st" and "cur_x st + int (length s) \<le> uint (read32 m (scr_fb scr + 8)) div CELL_W"
    and "0 \<le> cur_y st" and "(cur_y st + 1) * CELL_H \<le> int (scr_lines scr)"
    and "bytes_at m buf s" and "span buf (length s) \<inter> screen_span scr = {}"
    and "\<forall>c \<in> set s. printable c" and "length s < 2 ^ 32"
  shows "\<exists>m'. fbcon_write file buf (of_nat (length s)) st m = Inr (0, st\<lparr> cur_x := cur_x st + int (length s) \<rparr>, m') \<and>
    (\<forall>i < length s. displays scr m' (cur_x st + int i) (cur_y st) (s ! i)) \<and>
    (\<forall>p. on_screen scr p \<longrightarrow> p \<notin> line_cells (cur_x st) (cur_y st) (length s) \<longrightarrow> pixel scr m' p = pixel scr m p) \<and>
    same_outside (screen_span scr) m m'"
  by (rule fbcon_write_shows [OF assms])

lemma all_less_two: "(\<forall>i < Suc (Suc 0). P i) \<longleftrightarrow> P 0 \<and> P 1"
  by (auto simp: less_Suc_eq)

theorem fbcon_write_displays_witness:
  "\<exists>m'. fbcon_write 0x100 0x300 2 \<lparr> cur_x = 1, cur_y = 0 \<rparr> demo_console = Inr (0, \<lparr> cur_x = 3, cur_y = 0 \<rparr>, m') \<and>
     displays demo_screen m' 1 0 0x48 \<and> displays demo_screen m' 2 0 0x69"
proof -
  let ?st = "\<lparr> cur_x = 1, cur_y = 0 \<rparr>" and ?s = "[0x48, 0x69 :: u8]"
  have "\<exists>m'. fbcon_write 0x100 0x300 (of_nat (length ?s)) ?st demo_console =
      Inr (0, ?st\<lparr> cur_x := cur_x ?st + int (length ?s) \<rparr>, m') \<and>
    (\<forall>i < length ?s. displays demo_screen m' (cur_x ?st + int i) (cur_y ?st) (?s ! i)) \<and>
    (\<forall>p. on_screen demo_screen p \<longrightarrow> p \<notin> line_cells (cur_x ?st) (cur_y ?st) (length ?s) \<longrightarrow>
      pixel demo_screen m' p = pixel demo_screen demo_console p) \<and>
    same_outside (screen_span demo_screen) demo_console m'"
    by (rule fbcon_write_displays [where con = "0x200"])
      (use demo_screen_ok demo_screen_ok(2) [unfolded numeral_2_eq_2] in
        \<open>simp_all add: demo_console_reads demo_screen_def cell_sizes printable_def\<close>)
  then obtain m' where "fbcon_write 0x100 0x300 2 ?st demo_console = Inr (0, \<lparr> cur_x = 3, cur_y = 0 \<rparr>, m')"
      "\<forall>i < 2. displays demo_screen m' (1 + int i) 0 (?s ! i)" by auto
  then show ?thesis by (intro exI [of _ m']) (simp add: numeral_2_eq_2 all_less_two)
qed

text \<open>C38: what is written can be read: of a screen on which \<^verbatim>\<open>fbcon_write\<close> has put a line of printable characters, the line can be told from
  its pixels, cell by cell, whatever the screen showed before.\<close>

theorem fbcon_write_readable:
  assumes "screen_ok scr m" and "read32 m (file + 8) = con" and "con \<noteq> 0" and "read32 m (con + 4) = scr_fb scr"
    and "4 * uint (read32 m (scr_fb scr + 8)) \<le> int (scr_pitch scr)"
    and "0 \<le> cur_x st" and "cur_x st + int (length s) \<le> uint (read32 m (scr_fb scr + 8)) div CELL_W"
    and "0 \<le> cur_y st" and "(cur_y st + 1) * CELL_H \<le> int (scr_lines scr)"
    and "bytes_at m buf s" and "span buf (length s) \<inter> screen_span scr = {}"
    and "\<forall>c \<in> set s. printable c" and "length s < 2 ^ 32"
  shows "\<exists>m'. fbcon_write file buf (of_nat (length s)) st m = Inr (0, st\<lparr> cur_x := cur_x st + int (length s) \<rparr>, m') \<and>
    map (\<lambda>i. read_cell scr m' (cur_x st + int i) (cur_y st)) [0 ..< length s] = map Some s"
proof -
  obtain m' where m': "fbcon_write file buf (of_nat (length s)) st m = Inr (0, st\<lparr> cur_x := cur_x st + int (length s) \<rparr>, m')"
      "\<forall>i < length s. displays scr m' (cur_x st + int i) (cur_y st) (s ! i)"
    using fbcon_write_shows [OF assms] by blast
  have "read_cell scr m' (cur_x st + int i) (cur_y st) = Some (s ! i)" if "i < length s" for i
    using read_cell_displays m'(2) assms(12) that by simp
  then have "map (\<lambda>i. read_cell scr m' (cur_x st + int i) (cur_y st)) [0 ..< length s] = map Some s" by (intro nth_equalityI) simp_all
  with m'(1) show ?thesis by blast
qed

theorem fbcon_write_readable_witness:
  "\<exists>m'. fbcon_write 0x100 0x300 2 \<lparr> cur_x = 1, cur_y = 0 \<rparr> demo_console = Inr (0, \<lparr> cur_x = 3, cur_y = 0 \<rparr>, m') \<and>
     [read_cell demo_screen m' 1 0, read_cell demo_screen m' 2 0] = [Some 0x48, Some 0x69]"
proof -
  let ?st = "\<lparr> cur_x = 1, cur_y = 0 \<rparr>" and ?s = "[0x48, 0x69 :: u8]"
  have "\<exists>m'. fbcon_write 0x100 0x300 (of_nat (length ?s)) ?st demo_console =
      Inr (0, ?st\<lparr> cur_x := cur_x ?st + int (length ?s) \<rparr>, m') \<and>
    map (\<lambda>i. read_cell demo_screen m' (cur_x ?st + int i) (cur_y ?st)) [0 ..< length ?s] = map Some ?s"
    by (rule fbcon_write_readable [where con = "0x200"])
      (use demo_screen_ok demo_screen_ok(2) [unfolded numeral_2_eq_2] in
        \<open>simp_all add: demo_console_reads demo_screen_def cell_sizes printable_def\<close>)
  then show ?thesis by simp
qed

text \<open>A character written when the cursor stands behind the last column is lost: the cursor goes to
  the next line and nothing is drawn, whatever the character. The column with the number \<^verbatim>\<open>cols\<close>,
  which no longer lies on the screen as a whole, is drawn to before that.\<close>

theorem fbcon_write_loses_wrapped:
  assumes "read32 m (file + 8) \<noteq> 0"
    and "sint (read32 m (read32 m (read32 m (file + 8) + 4) + 8) div 16) < cur_x st"
  shows "fbcon_write file buf 1 st m = Inr (0, st\<lparr> cur_x := 0, cur_y := cur_y st + 1 \<rparr>, m)"
  using assms by (simp add: fbcon_write_def Let_def cell_sizes)

theorem fbcon_write_loses_wrapped_witness:
  "fbcon_write 0x100 0x300 1 \<lparr> cur_x = 5, cur_y = 0 \<rparr> demo_console = Inr (0, \<lparr> cur_x = 0, cur_y = 1 \<rparr>, demo_console)"
  using fbcon_write_loses_wrapped [of demo_console "0x100" "\<lparr> cur_x = 5, cur_y = 0 \<rparr>" "0x300"]
  by (simp add: demo_console_reads)

end
