(* ===== verification/Devices.thy ===== *)
theory Devices
  imports Slob Memmap Console
begin

text \<open>
  The device drivers besides the console's drawing: the frame buffer of
  \<^verbatim>\<open>drivers/video/fbdev/fbdev.c\<close>, the memory devices of \<^verbatim>\<open>drivers/char/mem.c\<close> and the keyboard of
  \<^verbatim>\<open>drivers/hid/keyboard.c\<close>. A \<^verbatim>\<open>struct file\<close> has its \<^verbatim>\<open>ops\<close> at offset 0, the inode at 4 and the
  driver's data at 8; a \<^verbatim>\<open>struct fbdev\<close> has 28 bytes (address 0, pitch 4, width 8, height 12, bits
  per pixel 16, type 17, a union at 20). An operation returns its result and the memory.
\<close>

section \<open>The frame buffer\<close>

definition MULTIBOOT_FRAMEBUFFER_TYPE_INDEXED :: u8 where "MULTIBOOT_FRAMEBUFFER_TYPE_INDEXED = 0"
definition MULTIBOOT_FRAMEBUFFER_TYPE_RGB :: u8 where "MULTIBOOT_FRAMEBUFFER_TYPE_RGB = 1"

text \<open>\<open>framebuffer_colors\<close> are the two words of the union in \<^verbatim>\<open>struct multiboot_info\<close>: a palette
  address and a 16-bit count, or six bytes.\<close>

definition fbdev_open :: "u32 \<Rightarrow> kinfo \<Rightarrow> u32 \<Rightarrow> u32 \<Rightarrow> mem \<Rightarrow> (int \<times> mem) res" where
  "fbdev_open heap k inode file m =
     (let b = mbi k in
      bindE (kmalloc heap 28 m) (\<lambda>(fb, m).
        if fb = 0 then Inl NullDeref
        else let m = write32 m fb (ucast (framebuffer_addr b));
                 m = write32 m (fb + 4) (framebuffer_pitch b);
                 m = write32 m (fb + 8) (framebuffer_width b);
                 m = write32 m (fb + 12) (framebuffer_height b);
                 m = m(fb + 16 := framebuffer_bpp b);
                 m = m(fb + 17 := framebuffer_type b);
                 m = write32 m (fb + 20) 0;
                 m = write16 m (fb + 24) 0;
                 (c, d) = framebuffer_colors b;
                 m = (if m (fb + 17) = MULTIBOOT_FRAMEBUFFER_TYPE_INDEXED
                      then write16 (write32 m (fb + 20) c) (fb + 24) (ucast d)
                      else if m (fb + 17) = MULTIBOOT_FRAMEBUFFER_TYPE_RGB
                      then m(fb + 20 := ucast c, fb + 21 := ucast (drop_bit 8 c), fb + 22 := ucast (drop_bit 16 c),
                        fb + 23 := ucast (drop_bit 24 c), fb + 24 := ucast d, fb + 25 := ucast (drop_bit 8 d))
                      else m);
                 m = write32 m (file + 8) fb in
          Inr (0, m)))"

definition fbdev_close :: "u32 \<Rightarrow> u32 \<Rightarrow> int" where
  "fbdev_close inode file = - 1"

definition fbdev_read :: "u32 \<Rightarrow> u32 \<Rightarrow> u32 \<Rightarrow> mem \<Rightarrow> int \<times> mem" where
  "fbdev_read file buf sz m =
     (if read32 m (file + 8) = 0 then (- 1, m)
      else (sint sz, memcpy m buf (read32 m (read32 m (file + 8))) sz))"

definition fbdev_write :: "u32 \<Rightarrow> u32 \<Rightarrow> u32 \<Rightarrow> mem \<Rightarrow> int \<times> mem" where
  "fbdev_write file buf sz m =
     (if read32 m (file + 8) = 0 then (- 1, m)
      else (sint sz, memcpy m (read32 m (read32 m (file + 8))) buf sz))"

definition fbdev_mmap :: "u32 \<Rightarrow> u32 \<Rightarrow> mem \<Rightarrow> int \<times> mem" where
  "fbdev_mmap file vm m =
     (if read32 m (file + 8) = 0 then (- 1, m)
      else (0, write32 m (vm + 4) (read32 m (read32 m (file + 8)))))"

section \<open>Memory devices and the keyboard\<close>

definition memory_open :: "u32 \<Rightarrow> u32 \<Rightarrow> int" where "memory_open inode file = 0"
definition memory_close :: "u32 \<Rightarrow> u32 \<Rightarrow> int" where "memory_close inode file = - 1"
definition memory_read :: "u32 \<Rightarrow> u32 \<Rightarrow> u32 \<Rightarrow> int" where "memory_read file buf sz = - 1"
definition memory_write :: "u32 \<Rightarrow> u32 \<Rightarrow> u32 \<Rightarrow> int" where "memory_write file buf sz = 0"
definition null_read :: "u32 \<Rightarrow> u32 \<Rightarrow> u32 \<Rightarrow> int" where "null_read file buf sz = - 1"
definition null_write :: "u32 \<Rightarrow> u32 \<Rightarrow> u32 \<Rightarrow> int" where "null_write file buf sz = sint sz"

definition zero_read :: "u32 \<Rightarrow> u32 \<Rightarrow> u32 \<Rightarrow> mem \<Rightarrow> int \<times> mem" where
  "zero_read file buf sz m = (sint sz, memset m buf 0 sz)"

definition zero_write :: "u32 \<Rightarrow> u32 \<Rightarrow> u32 \<Rightarrow> int" where "zero_write file buf sz = sint sz"

text \<open>\<^verbatim>\<open>kbd_open\<close> has no \<^verbatim>\<open>return\<close>: its result is not defined.\<close>

definition kbd_open :: "u32 \<Rightarrow> u32 \<Rightarrow> int res" where "kbd_open inode file = Inl UninitRead"
definition kbd_close :: "u32 \<Rightarrow> u32 \<Rightarrow> int" where "kbd_close inode file = - 1"
definition kbd_read :: "u32 \<Rightarrow> u32 \<Rightarrow> u32 \<Rightarrow> int" where "kbd_read file buf sz = - 1"
definition kbd_write :: "u32 \<Rightarrow> u32 \<Rightarrow> u32 \<Rightarrow> int" where "kbd_write file buf sz = 0"

section \<open>What an opened frame buffer looks like\<close>

definition describes :: "mem \<Rightarrow> u32 \<Rightarrow> multiboot_info \<Rightarrow> bool" where
  "describes m fb b \<longleftrightarrow> read32 m fb = ucast (framebuffer_addr b) \<and> read32 m (fb + 4) = framebuffer_pitch b \<and>
     read32 m (fb + 8) = framebuffer_width b \<and> read32 m (fb + 12) = framebuffer_height b \<and>
     m (fb + 16) = framebuffer_bpp b \<and> m (fb + 17) = framebuffer_type b"

definition put_fbdev :: "kinfo \<Rightarrow> u32 \<Rightarrow> mem \<Rightarrow> mem" where
  "put_fbdev k fb m =
     (let b = mbi k;
          m = write32 m fb (ucast (framebuffer_addr b));
          m = write32 m (fb + 4) (framebuffer_pitch b);
          m = write32 m (fb + 8) (framebuffer_width b);
          m = write32 m (fb + 12) (framebuffer_height b);
          m = m(fb + 16 := framebuffer_bpp b);
          m = m(fb + 17 := framebuffer_type b);
          m = write32 m (fb + 20) 0;
          m = write16 m (fb + 24) 0;
          (c, d) = framebuffer_colors b in
      if m (fb + 17) = MULTIBOOT_FRAMEBUFFER_TYPE_INDEXED
      then write16 (write32 m (fb + 20) c) (fb + 24) (ucast d)
      else if m (fb + 17) = MULTIBOOT_FRAMEBUFFER_TYPE_RGB
      then m(fb + 20 := ucast c, fb + 21 := ucast (drop_bit 8 c), fb + 22 := ucast (drop_bit 16 c),
        fb + 23 := ucast (drop_bit 24 c), fb + 24 := ucast d, fb + 25 := ucast (drop_bit 8 d))
      else m)"

lemma fbdev_open_put:
  "fbdev_open heap k inode file m =
     bindE (kmalloc heap 28 m) (\<lambda>(fb, m).
       if fb = 0 then Inl NullDeref else Inr (0, write32 (put_fbdev k fb m) (file + 8) fb))"
  unfolding fbdev_open_def put_fbdev_def Let_def
  by (cases "framebuffer_colors (mbi k)") (auto intro!: arg_cong [of _ _ "bindE _"] ext)

lemma read8_write16_apart [mem_simps]: "apart a 2 b 1 \<Longrightarrow> write16 m a v b = m b"
proof -
  assume "apart a 2 b 1"
  moreover have "b \<in> span b 1" by (simp add: span_def)
  ultimately have "b \<notin> span a 2" using apart_span by blast
  then show ?thesis using same_outside_write16 [of a m v] by (simp add: same_outside_def)
qed

lemma read32_upd_apart [mem_simps]: "apart a 1 b 4 \<Longrightarrow> read32 (m(a := v)) b = read32 m b"
  by (rule same_outside_read32 [OF same_outside_upd]) (simp add: apart_span apart_sym [of b])

lemma put_fbdev_describes: "describes (put_fbdev k fb m) fb (mbi k)"
  unfolding put_fbdev_def describes_def
  by (simp add: Let_def mem_simps apart_def split: prod.split)

lemma put_fbdev_outside: "same_outside (span fb 28) m (put_fbdev k fb m)"
proof -
  let ?S = "span fb 28"
  have u: "same_outside ?S m (m1(fb + j := v))" if "same_outside ?S m m1" "unat j < 28" for m1 j v
    using that span_def by (auto simp: same_outside_def span_def)
  have w32: "same_outside ?S m (write32 m1 (fb + j) v)" if "same_outside ?S m m1" "unat j + 4 \<le> 28" for m1 j v
    by (rule same_outside_write32_in [OF that(1) span_sub [OF that(2)]])
  have w32': "same_outside ?S m (write32 m1 fb v)" if "same_outside ?S m m1" for m1 v using w32 [OF that, of 0] by simp
  have w16: "same_outside ?S m (write16 m1 (fb + j) v)" if "same_outside ?S m m1" "unat j + 2 \<le> 28" for m1 j v
    using that(1) same_outside_write16 [of "fb + j" m1 v] span_sub [OF that(2), of fb] by (auto simp: same_outside_def)
  show ?thesis by (simp add: put_fbdev_def Let_def u w32 w32' w16 split: prod.split)
qed

lemma fbdev_open_opens:
  assumes inv: "heap_inv hp m ((a, s) # hs)" and s: "32 < s" and f: "span (file + 8) 4 \<inter> owned hp ((a, s) # hs) = {}"
  obtains m' where "fbdev_open hp k inode file m = Inr (0, m')" and "heap_inv hp m' ((a + 32, s - 32) # hs)"
    and "read32 m' (file + 8) = a + 2" and "describes m' (a + 2) (mbi k)"
    and "same_outside (span (file + 8) 4 \<union> owned hp ((a, s) # hs)) m m'"
    and "owned hp ((a + 32, s - 32) # hs) \<subseteq> owned hp ((a, s) # hs)"
proof -
  have c: "chunk_size 28 = 32" by (simp add: chunk_size_def roundup_def)
  obtain m1 where m1: "kmalloc hp 28 m = Inr (a + 2, m1)" "heap_inv hp m1 ((a + 32, s - 32) # hs)"
      "same_outside (owned hp ((a, s) # hs)) m m1" "span (a + 2) 28 \<subseteq> owned hp ((a, s) # hs)"
      "span (a + 2) 28 \<inter> owned hp ((a + 32, s - 32) # hs) = {}"
      "owned hp ((a + 32, s - 32) # hs) \<subseteq> owned hp ((a, s) # hs)" "a + 2 \<noteq> 0"
    using kmalloc_first [OF inv, of 28] s c by (auto simp: c)
  let ?m2 = "put_fbdev k (a + 2) m1"
  let ?m' = "write32 ?m2 (file + 8) (a + 2)"
  have o2: "same_outside (span (a + 2) 28) m1 ?m2" by (rule put_fbdev_outside)
  have i2: "heap_inv hp ?m2 ((a + 32, s - 32) # hs)" by (rule heap_inv_frame [OF m1(2) o2 m1(5)])
  have "heap_inv hp ?m' ((a + 32, s - 32) # hs)"
    by (rule heap_inv_frame [OF i2 same_outside_write32]) (use f m1(6) in blast)
  moreover have "describes ?m' (a + 2) (mbi k)"
  proof -
    have d: "span (a + 2) 28 \<inter> span (file + 8) 4 = {}" using f m1(4) by blast
    have r: "read32 ?m' (a + 2 + j) = read32 ?m2 (a + 2 + j)" if "unat j + 4 \<le> 28" for j
      by (rule same_outside_read32 [OF same_outside_write32]) (use span_sub [OF that, of "a + 2"] d in blast)
    have b: "?m' (a + 2 + j) = ?m2 (a + 2 + j)" if "unat j < 28" for j
    proof -
      have "a + 2 + j \<in> span (a + 2) 28" using that by (simp add: span_def)
      then show ?thesis using d same_outside_write32 [of "file + 8" ?m2 "a + 2"] by (auto simp: same_outside_def)
    qed
    show ?thesis using put_fbdev_describes [of k "a + 2" m1] r [of 0] r [of 4] r [of 8] r [of 12] b [of 16] b [of 17]
      unfolding describes_def by simp
  qed
  moreover have "same_outside (span (file + 8) 4 \<union> owned hp ((a, s) # hs)) m ?m'"
    using m1(3,4) o2 same_outside_write32 [of "file + 8" ?m2 "a + 2"] by (auto simp: same_outside_def)
  moreover have "fbdev_open hp k inode file m = Inr (0, ?m')" using m1(1,7) by (simp add: fbdev_open_put)
  ultimately show thesis using that [of ?m'] m1(6) by simp
qed

end
