(* ===== verification/Initrd.thy ===== *)
theory Initrd
  imports Slob Memmap Cstring
begin

text \<open>
  The initial ramdisk: \<^verbatim>\<open>oct2int\<close> and \<^verbatim>\<open>load_initrd\<close> of \<^verbatim>\<open>kernel/fs.c\<close>, which reads a \<^verbatim>\<open>ustar\<close> archive and
  fills the inode and directory tables. A directory entry (\<^verbatim>\<open>struct dirent\<close>) has 132 bytes, the
  inode number at offset 0 and the name at 4; a \<^verbatim>\<open>struct inode\<close> has 36 bytes (\<^verbatim>\<open>uid\<close> at 0, \<^verbatim>\<open>gid\<close> at
  2, \<^verbatim>\<open>mode\<close> at 4, \<^verbatim>\<open>nlink\<close> at 6, \<^verbatim>\<open>major\<close> at 8, \<^verbatim>\<open>minor\<close> at 12, \<^verbatim>\<open>type\<close> at 16, \<^verbatim>\<open>size\<close> at 20, \<^verbatim>\<open>id\<close> at 24,
  \<^verbatim>\<open>addr\<close> at 28, \<^verbatim>\<open>m_time\<close> at 32). \<open>ustar\<close> is the address of the string literal \<^verbatim>\<open>"ustar\00000"\<close>, the
  magic number and version of a header. The reference is the list \<open>headers\<close> of the blocks of the
  archive that start with that magic number.
\<close>

section \<open>The operations\<close>

definition DIRSIZ :: u32 where "DIRSIZ = 128"
definition ROOT_INO :: u32 where "ROOT_INO = 2"

fun oct2int_loop :: "mem \<Rightarrow> u32 \<Rightarrow> nat \<Rightarrow> u32 \<Rightarrow> u32" where
  "oct2int_loop m c 0 n = n"
| "oct2int_loop m c (Suc len) n =
     (if m c = 0 then n
      else oct2int_loop m (c + 1) len (push_bit 3 n + (ucast (m c) - 0x30)))"

definition oct2int :: "mem \<Rightarrow> u32 \<Rightarrow> u32 \<Rightarrow> u32" where
  "oct2int m str len = oct2int_loop m str (unat len) 0"

text \<open>The \<^verbatim>\<open>enum\<close> of file types and the \<^verbatim>\<open>switch\<close> on the type flag, which leaves the type as it is for any
  other flag.\<close>

datatype vtype = V_FILE | V_LINK | V_CHAR | V_BLK | V_DIR | V_FIFO

fun vtype_code :: "vtype \<Rightarrow> u32" where
  "vtype_code V_FILE = 0"
| "vtype_code V_LINK = 1"
| "vtype_code V_CHAR = 2"
| "vtype_code V_BLK = 3"
| "vtype_code V_DIR = 4"
| "vtype_code V_FIFO = 5"

definition type_of_flag :: "u8 \<Rightarrow> vtype option" where
  "type_of_flag c =
     (if c = 0x30 \<or> c = 0 \<or> c = 0x31 then Some V_FILE
      else if c = 0x32 then Some V_LINK
      else if c = 0x33 then Some V_CHAR
      else if c = 0x34 then Some V_BLK
      else if c = 0x35 then Some V_DIR
      else if c = 0x36 then Some V_FIFO
      else None)"

definition load_entry :: "u32 \<Rightarrow> u32 \<Rightarrow> u32 \<Rightarrow> u32 \<Rightarrow> mem \<Rightarrow> mem" where
  "load_entry ino dir i p m =
     (let d = dir + 132 * i;
          ip = ino + 36 * i;
          m = write32 m d i;
          m = snd (strlcpy (d + 4) (p + 1) DIRSIZ m);
          m = write16 m (ip + 4) (ucast (oct2int m (p + 100) 6));
          m = write16 m ip (ucast (oct2int m (p + 108) 6));
          m = write16 m (ip + 2) (ucast (oct2int m (p + 116) 6));
          m = write32 m (ip + 20) (oct2int m (p + 124) 11);
          m = write32 m (ip + 32) (oct2int m (p + 136) 11);
          m = (case type_of_flag (m (p + 156)) of Some t \<Rightarrow> write32 m (ip + 16) (vtype_code t) | None \<Rightarrow> m);
          m = write32 m (ip + 8) (oct2int m (p + 329) 6) in
      if 0 < read32 m (ip + 20) then write32 m (ip + 28) (p + 512) else write32 m (ip + 28) 0)"

text \<open>The loop over the blocks of the archive; it need not end when the archive reaches the end of the
  address space. The tables are not checked for NULL.\<close>

partial_function (option) load_loop :: "u32 \<Rightarrow> u32 \<Rightarrow> u32 \<Rightarrow> u32 \<Rightarrow> u32 \<Rightarrow> u32 \<Rightarrow> mem \<Rightarrow> (u32 \<times> mem) res option" where
  "load_loop ustar ino dir tar_end p i m =
     (if p < tar_end
      then if memcmp m ustar (p + 257) 8 \<noteq> 0 then load_loop ustar ino dir tar_end (p + 512) i m
           else if ino = 0 \<or> dir = 0 then Some (Inl NullDeref)
           else load_loop ustar ino dir tar_end (p + 512) (i + 1) (load_entry ino dir i p m)
      else Some (Inr (i, m)))"

definition load_initrd :: "u32 \<Rightarrow> u32 \<Rightarrow> kinfo \<Rightarrow> mem \<Rightarrow> (kinfo \<times> mem) res" where
  "load_initrd freelist ustar k m =
     (let len = initrd_end k - initrd_start k;
          tar = p2v (initrd_start k) in
      bindE (alloc_pages freelist 0x2000 m) (\<lambda>(ino, m).
      bindE (alloc_pages freelist 0x2000 m) (\<lambda>(dir, m).
      let k = k\<lparr> ino_tbl := ino, dir_tbl := dir \<rparr> in
      bindE (ends (load_loop ustar ino dir (tar + len) tar ROOT_INO m)) (\<lambda>r.
      bindE r (\<lambda>(i, m). Inr (k\<lparr> ino_n := i \<rparr>, m))))))"

section \<open>Octal numbers\<close>

text \<open>The octal digits of a number, most significant first, in a field of a given width.\<close>

fun octal :: "nat \<Rightarrow> nat \<Rightarrow> nat list" where
  "octal 0 v = []"
| "octal (Suc w) v = octal w (v div 8) @ [v mod 8]"

definition octal_field :: "nat \<Rightarrow> nat \<Rightarrow> u8 list" where
  "octal_field w v = map (\<lambda>d. of_nat (0x30 + d)) (octal w v)"

lemma length_octal [simp]: "length (octal w v) = w"
  by (induction w arbitrary: v) auto

lemma octal_lt: "d \<in> set (octal w v) \<Longrightarrow> d < 8"
  by (induction w arbitrary: v) auto

lemma oct_digit:
  fixes d :: nat assumes "d < 8"
  shows "of_nat (0x30 + d) \<noteq> (0 :: u8)" and "ucast (of_nat (0x30 + d) :: u8) - 0x30 = (of_nat d :: u32)"
proof -
  have "d = 0 \<or> d = 1 \<or> d = 2 \<or> d = 3 \<or> d = 4 \<or> d = 5 \<or> d = 6 \<or> d = 7" using assms by linarith
  then show "of_nat (0x30 + d) \<noteq> (0 :: u8)" "ucast (of_nat (0x30 + d) :: u8) - 0x30 = (of_nat d :: u32)"
    by (elim disjE; simp)+
qed

lemma oct2int_loop_digits:
  assumes "\<forall>d \<in> set ds. d < 8" and "bytes_at m a (map (\<lambda>d. of_nat (0x30 + d)) ds)"
  shows "oct2int_loop m a (length ds) n = foldl (\<lambda>n d. push_bit 3 n + of_nat d) n ds"
  using assms
proof (induction ds arbitrary: a n)
  case (Cons d ds)
  then show ?case using oct_digit [of d] by (simp del: of_nat_add)
qed simp

lemma foldl_octal: "v < 8 ^ w \<Longrightarrow> foldl (\<lambda>n d. push_bit 3 n + of_nat d) 0 (octal w v) = (of_nat v :: u32)"
proof (induction w arbitrary: v)
  case (Suc w)
  then have "v div 8 < 8 ^ w" by (simp add: less_mult_imp_div_less)
  then have "foldl (\<lambda>n d. push_bit 3 n + of_nat d) 0 (octal (Suc w) v) = push_bit 3 (of_nat (v div 8)) + (of_nat (v mod 8) :: u32)"
    by (simp add: Suc.IH)
  also have "\<dots> = of_nat (v div 8 * 8 + v mod 8)" by (simp only: of_nat_add of_nat_mult of_nat_numeral push_bit_eq_mult) simp
  finally show ?case by simp
qed simp

lemma oct2int_field:
  assumes "v < 8 ^ unat w" and "bytes_at m a (octal_field (unat w) v)"
  shows "oct2int m a w = of_nat v"
  using oct2int_loop_digits [of "octal (unat w) v" m a 0] octal_lt [of _ "unat w" v] assms foldl_octal [OF assms(1)]
  by (simp add: oct2int_def octal_field_def)

lemma oct2int_frame:
  assumes "same_outside T m m'" and "span a (unat w) \<inter> T = {}"
  shows "oct2int m' a w = oct2int m a w"
proof -
  have "oct2int_loop m' a k n = oct2int_loop m a k n" if "span a k \<inter> T = {}" for a k n
    using that
  proof (induction k arbitrary: a n)
    case (Suc k)
    then have "m' a = m a" using assms(1) by (auto simp: same_outside_def span_Suc)
    moreover have "span (a + 1) k \<inter> T = {}" using Suc.prems by (auto simp: span_Suc)
    ultimately show ?case using Suc.IH by simp
  qed simp
  then show ?thesis using assms(2) by (simp add: oct2int_def)
qed

section \<open>One header\<close>

text \<open>What a header says of a file, and what an inode says of it.\<close>

record file_info =
  fi_mode :: u16
  fi_uid :: u16
  fi_gid :: u16
  fi_size :: u32
  fi_time :: u32
  fi_major :: u32
  fi_addr :: u32

definition header_info :: "mem \<Rightarrow> u32 \<Rightarrow> file_info" where
  "header_info m p = \<lparr> fi_mode = ucast (oct2int m (p + 100) 6), fi_uid = ucast (oct2int m (p + 108) 6),
     fi_gid = ucast (oct2int m (p + 116) 6), fi_size = oct2int m (p + 124) 11, fi_time = oct2int m (p + 136) 11,
     fi_major = oct2int m (p + 329) 6, fi_addr = (if oct2int m (p + 124) 11 = 0 then 0 else p + 512) \<rparr>"

definition inode_info :: "mem \<Rightarrow> u32 \<Rightarrow> file_info" where
  "inode_info m ip = \<lparr> fi_mode = read16 m (ip + 4), fi_uid = read16 m ip, fi_gid = read16 m (ip + 2),
     fi_size = read32 m (ip + 20), fi_time = read32 m (ip + 32), fi_major = read32 m (ip + 8),
     fi_addr = read32 m (ip + 28) \<rparr>"

text \<open>The table entries with number \<open>i\<close> say what the header at \<open>p\<close> of the archive says.\<close>

definition entry_loaded :: "mem \<Rightarrow> mem \<Rightarrow> u32 \<Rightarrow> u32 \<Rightarrow> u32 \<Rightarrow> u32 \<Rightarrow> bool" where
  "entry_loaded m0 m ino dir i p \<longleftrightarrow>
     read32 m (dir + 132 * i) = i \<and>
     (\<forall>s. cstr m0 (p + 1) s \<longrightarrow> length s < 128 \<longrightarrow> cstr m (dir + 132 * i + 4) s) \<and>
     inode_info m (ino + 36 * i) = header_info m0 p \<and>
     (\<forall>t. type_of_flag (m0 (p + 156)) = Some t \<longrightarrow> read32 m (ino + 36 * i + 16) = vtype_code t)"

lemma entry_loaded_name:
  "entry_loaded m0 m ino dir i p \<Longrightarrow> cstr m0 (p + 1) s \<Longrightarrow> length s < 128 \<Longrightarrow> cstr m (dir + 132 * i + 4) s"
  by (simp add: entry_loaded_def)

definition entry_span :: "u32 \<Rightarrow> u32 \<Rightarrow> u32 \<Rightarrow> u32 set" where
  "entry_span ino dir i = span (dir + 132 * i) 132 \<union> span (ino + 36 * i) 36"

lemma same_outside_step: "same_outside T m m1 \<Longrightarrow> same_outside S m1 m2 \<Longrightarrow> S \<subseteq> T \<Longrightarrow> same_outside T m m2"
  by (auto simp: same_outside_def)

lemma write16_in: "same_outside T m m1 \<Longrightarrow> unat j + 2 \<le> n \<Longrightarrow> span a n \<subseteq> T \<Longrightarrow> same_outside T m (write16 m1 (a + j) v)"
  by (rule same_outside_step [OF _ same_outside_write16]) (use span_sub [of j 2 n a] in auto)

lemma write32_in: "same_outside T m m1 \<Longrightarrow> unat j + 4 \<le> n \<Longrightarrow> span a n \<subseteq> T \<Longrightarrow> same_outside T m (write32 m1 (a + j) v)"
  by (rule same_outside_step [OF _ same_outside_write32]) (use span_sub [of j 4 n a] in auto)

text \<open>The nine writes to an inode, from values that were read beforehand.\<close>

definition put_inode :: "u32 \<Rightarrow> file_info \<Rightarrow> vtype option \<Rightarrow> mem \<Rightarrow> mem" where
  "put_inode ip f t m =
     (let m = write16 m (ip + 4) (fi_mode f);
          m = write16 m ip (fi_uid f);
          m = write16 m (ip + 2) (fi_gid f);
          m = write32 m (ip + 20) (fi_size f);
          m = write32 m (ip + 32) (fi_time f);
          m = (case t of Some t \<Rightarrow> write32 m (ip + 16) (vtype_code t) | None \<Rightarrow> m);
          m = write32 m (ip + 8) (fi_major f) in
      write32 m (ip + 28) (fi_addr f))"

lemma put_inode_outside: "same_outside (span ip 36) m (put_inode ip f t m)"
proof -
  have o: "same_outside (span ip 36) m (write16 m1 (ip + j) v)"
    if "same_outside (span ip 36) m m1" "unat j + 2 \<le> 36" for m1 j v using write16_in [OF that] by simp
  have o4: "same_outside (span ip 36) m (write32 m1 (ip + j) v)"
    if "same_outside (span ip 36) m m1" "unat j + 4 \<le> 36" for m1 j v using write32_in [OF that] by simp
  have o0: "same_outside (span ip 36) m (write16 m1 ip v)" if "same_outside (span ip 36) m m1" for m1 v
    using o [OF that, of 0] by simp
  show ?thesis by (cases t) (simp_all add: put_inode_def o o4 o0)
qed

lemma put_inode_info:
  "inode_info (put_inode ip f t m) ip = f"
  "t = Some v \<Longrightarrow> read32 (put_inode ip f t m) (ip + 16) = vtype_code v"
  by (cases t; simp add: put_inode_def inode_info_def mem_simps apart_def)+

lemma load_entry_put:
  assumes "span p 512 \<inter> entry_span ino dir i = {}"
  shows "load_entry ino dir i p m =
    put_inode (ino + 36 * i) (header_info m p) (type_of_flag (m (p + 156)))
      (snd (strlcpy (dir + 132 * i + 4) (p + 1) DIRSIZ (write32 m (dir + 132 * i) i)))"
proof -
  define T d ip where "T = entry_span ino dir i" and "d = dir + 132 * i" and "ip = ino + 36 * i"
  have oct: "oct2int m' (p + j) w = oct2int m (p + j) w" if "same_outside T m m'" "unat j + unat w \<le> 512" for m' j w
    by (rule oct2int_frame [OF that(1)]) (use assms span_sub [OF that(2), of p] in \<open>auto simp: T_def\<close>)
  have flag: "m' (p + 156) = m (p + 156)" if "same_outside T m m'" for m'
  proof -
    have "p + 156 \<in> span p 512" by (simp add: span_def)
    then show ?thesis using assms that by (auto simp: same_outside_def T_def)
  qed
  have T: "span d 132 \<subseteq> T" "span ip 36 \<subseteq> T" by (auto simp: T_def entry_span_def d_def ip_def)
  have w16: "same_outside T m (write16 m1 (ip + j) v)" if "same_outside T m m1" "unat j + 2 \<le> 36" for m1 j v
    by (rule write16_in [OF that T(2)])
  have w32: "same_outside T m (write32 m1 (ip + j) v)" if "same_outside T m m1" "unat j + 4 \<le> 36" for m1 j v
    by (rule write32_in [OF that T(2)])
  define m2 where "m2 = snd (strlcpy (d + 4) (p + 1) DIRSIZ (write32 m d i))"
  have m2: "same_outside T m m2"
    unfolding m2_def strlcpy_def snd_conv
    by (rule same_outside_step [OF write32_in [OF same_outside_refl, of 0 132, simplified] strlcpy_loop_outside])
      (use T(1) span_sub [of 4 128 132 d] in \<open>auto simp: DIRSIZ_def\<close>)
  define h where "h = header_info m p"
  define m3 where "m3 = write16 m2 (ip + 4) (fi_mode h)"
  define m4 where "m4 = write16 m3 ip (fi_uid h)"
  define m5 where "m5 = write16 m4 (ip + 2) (fi_gid h)"
  define m6 where "m6 = write32 m5 (ip + 20) (fi_size h)"
  define m7 where "m7 = write32 m6 (ip + 32) (fi_time h)"
  define m8 where "m8 = (case type_of_flag (m (p + 156)) of Some t \<Rightarrow> write32 m7 (ip + 16) (vtype_code t) | None \<Rightarrow> m7)"
  have m3': "same_outside T m m3" unfolding m3_def by (rule w16 [OF m2]) simp
  have m4': "same_outside T m m4" unfolding m4_def using w16 [OF m3', of 0] by simp
  have m5': "same_outside T m m5" unfolding m5_def by (rule w16 [OF m4']) simp
  have m6': "same_outside T m m6" unfolding m6_def by (rule w32 [OF m5']) simp
  have m7': "same_outside T m m7" unfolding m7_def by (rule w32 [OF m6']) simp
  have m8': "same_outside T m m8" unfolding m8_def using w32 [OF m7', of 16] m7' by (simp split: option.split)
  have size: "read32 (write32 m8 (ip + 8) v) (ip + 20) = fi_size h" for v
    by (simp add: m8_def m7_def m6_def mem_simps apart_def split: option.split)
  have put: "put_inode ip h (type_of_flag (m (p + 156))) m2 =
      write32 (write32 m8 (ip + 8) (fi_major h)) (ip + 28) (fi_addr h)"
    unfolding put_inode_def Let_def m8_def m7_def m6_def m5_def m4_def m3_def by (rule refl)
  have "load_entry ino dir i p m = write32 (write32 m8 (ip + 8) (fi_major h)) (ip + 28) (fi_addr h)"
  proof -
    have e3: "write16 m2 (ip + 4) (ucast (oct2int m2 (p + 100) 6)) = m3" by (simp add: m3_def h_def header_info_def oct [OF m2])
    have e4: "write16 m3 ip (ucast (oct2int m3 (p + 108) 6)) = m4" by (simp add: m4_def h_def header_info_def oct [OF m3'])
    have e5: "write16 m4 (ip + 2) (ucast (oct2int m4 (p + 116) 6)) = m5" by (simp add: m5_def h_def header_info_def oct [OF m4'])
    have e6: "write32 m5 (ip + 20) (oct2int m5 (p + 124) 11) = m6" by (simp add: m6_def h_def header_info_def oct [OF m5'])
    have e7: "write32 m6 (ip + 32) (oct2int m6 (p + 136) 11) = m7" by (simp add: m7_def h_def header_info_def oct [OF m6'])
    have e8: "(case type_of_flag (m7 (p + 156)) of Some t \<Rightarrow> write32 m7 (ip + 16) (vtype_code t) | None \<Rightarrow> m7) = m8"
      by (simp add: m8_def flag [OF m7'])
    have e9: "oct2int m8 (p + 329) 6 = fi_major h" by (simp add: h_def header_info_def oct [OF m8'])
    have "fi_addr h = (if 0 < fi_size h then p + 512 else 0)" by (simp add: h_def header_info_def word_gt_0)
    then show ?thesis
      by (simp only: load_entry_def Let_def d_def [symmetric] ip_def [symmetric] m2_def [symmetric] e3 e4 e5 e6 e7 e8 e9 size split: if_split) simp
  qed
  then show ?thesis using put by (simp add: m2_def d_def ip_def h_def)
qed

lemma load_entry_loads:
  assumes "span p 512 \<inter> entry_span ino dir i = {}" and "span (dir + 132 * i) 132 \<inter> span (ino + 36 * i) 36 = {}"
  shows "same_outside (entry_span ino dir i) m (load_entry ino dir i p m)"
    and "entry_loaded m (load_entry ino dir i p m) ino dir i p"
proof -
  let ?d = "dir + 132 * i" and ?ip = "ino + 36 * i" and ?m1 = "write32 m (dir + 132 * i) i"
  define m2 where "m2 = snd (strlcpy (?d + 4) (p + 1) DIRSIZ ?m1)"
  let ?m' = "put_inode ?ip (header_info m p) (type_of_flag (m (p + 156))) m2"
  have eq: "load_entry ino dir i p m = ?m'" unfolding m2_def by (rule load_entry_put [OF assms(1)])
  have s12: "same_outside (span (?d + 4) 128) ?m1 m2"
    unfolding m2_def using strlcpy_loop_outside [of "?d + 4" 128 ?m1 "p + 1"] by (simp add: strlcpy_def DIRSIZ_def)
  have s2: "same_outside (span ?ip 36) m2 ?m'" by (rule put_inode_outside)
  have sd: "span (?d + 4) 128 \<subseteq> span ?d 132" "span ?d 4 \<subseteq> span ?d 132"
    using span_sub [of 4 128 132 ?d] span_sub [of 0 4 132 ?d] by auto
  have "same_outside (span ?d 132) m m2"
    by (rule same_outside_step [OF same_outside_mono [OF same_outside_write32 sd(2)] s12 sd(1)])
  then show "same_outside (entry_span ino dir i) m (load_entry ino dir i p m)"
    unfolding eq entry_span_def by (rule same_outside_trans [OF _ s2])
  have "read32 ?m' ?d = read32 m2 ?d" by (rule same_outside_read32 [OF s2]) (use assms(2) sd in auto)
  also have "\<dots> = read32 ?m1 ?d" by (rule same_outside_read32 [OF s12]) (simp add: apart_span apart_def)
  finally have r: "read32 ?m' ?d = i" by simp
  have "cstr ?m' (?d + 4) s" if s: "cstr m (p + 1) s" "length s < 128" for s
  proof -
    have sp: "span (p + 1) (length s + 1) \<subseteq> span p 512" by (rule span_sub) (use s(2) in simp)
    have "cstr ?m1 (p + 1) s"
      using cstr_frame [OF same_outside_write32, of "p + 1" s ?d m i] s(1) sp assms(1) sd
      by (auto simp: entry_span_def)
    then have "cstr m2 (?d + 4) s"
      using strlcpy_loop_copies [of ?m1 "p + 1" s "?d + 4" 128] s(2) sp assms(1) sd
      by (auto simp: entry_span_def m2_def strlcpy_def DIRSIZ_def)
    moreover have "span (?d + 4) (length s + 1) \<subseteq> span ?d 132" by (rule span_sub) (use s(2) in simp)
    ultimately show ?thesis using cstr_frame [OF s2, of "?d + 4" s] assms(2) by blast
  qed
  then show "entry_loaded m (load_entry ino dir i p m) ino dir i p"
    unfolding eq entry_loaded_def using r by (simp add: put_inode_info)
qed

section \<open>The whole archive\<close>

definition ustar_magic :: "u8 list" where
  "ustar_magic = [0x75, 0x73, 0x74, 0x61, 0x72, 0x00, 0x30, 0x30]"

lemma length_ustar_magic [simp]: "length ustar_magic = 8"
  by (simp add: ustar_magic_def)

fun headers :: "mem \<Rightarrow> u32 \<Rightarrow> nat \<Rightarrow> u32 list" where
  "headers m p 0 = []"
| "headers m p (Suc n) = (if bytes_at m (p + 257) ustar_magic then [p] else []) @ headers m (p + 512) n"

definition entries_span :: "u32 \<Rightarrow> u32 \<Rightarrow> nat \<Rightarrow> nat \<Rightarrow> u32 set" where
  "entries_span ino dir i k = (\<Union>j \<in> {i ..< i + k}. entry_span ino dir (of_nat j))"

lemma memcmp_magic:
  assumes "bytes_at m ustar ustar_magic"
  shows "memcmp m ustar b 8 = 0 \<longleftrightarrow> bytes_at m b ustar_magic"
  using assms by (auto simp: memcmp_correct bytes_at_nth ustar_magic_def)

lemma headers_frame:
  assumes "same_outside T m m'" and "span p (512 * n) \<inter> T = {}"
  shows "headers m' p n = headers m p n"
  using assms(2)
proof (induction n arbitrary: p)
  case (Suc n)
  have "span (p + 257) (length ustar_magic) \<subseteq> span p (512 * Suc n)" "span (p + 512) (512 * n) \<subseteq> span p (512 * Suc n)"
    by (rule span_sub, simp)+
  then have "span (p + 257) (length ustar_magic) \<inter> T = {}" "span (p + 512) (512 * n) \<inter> T = {}" using Suc.prems by blast+
  then show ?case using bytes_at_frame [OF assms(1)] Suc.IH by simp
qed simp

lemma headers_in: "h \<in> set (headers m p n) \<Longrightarrow> span h 512 \<subseteq> span p (512 * n)"
proof (induction n arbitrary: p)
  case (Suc n)
  have "span p 512 \<subseteq> span p (512 * Suc n)" "span (p + 512) (512 * n) \<subseteq> span p (512 * Suc n)"
    using span_mono [of 512 "512 * Suc n" p] span_sub [of 512 "512 * n" "512 * Suc n" p] by auto
  then show ?case using Suc by (fastforce split: if_splits)
qed simp

lemma header_info_frame:
  assumes "same_outside T m m'" and "span p 512 \<inter> T = {}"
  shows "header_info m' p = header_info m p" and "m' (p + 156) = m (p + 156)"
    and "length s < 128 \<Longrightarrow> cstr m' (p + 1) s \<longleftrightarrow> cstr m (p + 1) s"
proof -
  have "oct2int m' (p + j) w = oct2int m (p + j) w" if "unat j + unat w \<le> 512" for j w
    by (rule oct2int_frame [OF assms(1)]) (use assms(2) span_sub [OF that, of p] in auto)
  then show "header_info m' p = header_info m p" by (simp add: header_info_def)
  have "p + 156 \<in> span p 512" by (simp add: span_def)
  then show "m' (p + 156) = m (p + 156)" using assms by (auto simp: same_outside_def)
  assume "length s < 128"
  then have "span (p + 1) (length s + 1) \<subseteq> span p 512" by (intro span_sub) simp
  then show "cstr m' (p + 1) s \<longleftrightarrow> cstr m (p + 1) s" using cstr_frame [OF assms(1)] assms(2) by blast
qed

lemma entry_loaded_source:
  assumes "same_outside T m0 m1" and "span p 512 \<inter> T = {}"
  shows "entry_loaded m1 m ino dir i p \<longleftrightarrow> entry_loaded m0 m ino dir i p"
  using header_info_frame [OF assms] by (auto simp: entry_loaded_def)

lemma entry_loaded_frame:
  assumes "same_outside T m m'" and "entry_span ino dir i \<inter> T = {}" and "entry_loaded m0 m ino dir i p"
  shows "entry_loaded m0 m' ino dir i p"
proof -
  let ?d = "dir + 132 * i" and ?ip = "ino + 36 * i"
  have d: "span ?d 132 \<inter> T = {}" "span ?ip 36 \<inter> T = {}" using assms(2) by (auto simp: entry_span_def)
  have r32: "read32 m' (?ip + j) = read32 m (?ip + j)" if "unat j + 4 \<le> 36" for j
    by (rule same_outside_read32 [OF assms(1)]) (use span_sub [OF that, of ?ip] d in auto)
  have r16: "read16 m' (?ip + j) = read16 m (?ip + j)" if "unat j + 2 \<le> 36" for j
    by (rule same_outside_read16 [OF assms(1)]) (use span_sub [OF that, of ?ip] d in auto)
  have "inode_info m' ?ip = inode_info m ?ip"
    using r16 [of 4] r16 [of 0] r16 [of 2] r32 [of 20] r32 [of 32] r32 [of 8] r32 [of 28] by (simp add: inode_info_def)
  moreover have "read32 m' ?d = read32 m ?d"
    by (rule same_outside_read32 [OF assms(1)]) (use span_sub [of 0 4 132 ?d] d in auto)
  moreover have "cstr m' (?d + 4) s \<longleftrightarrow> cstr m (?d + 4) s" if "length s < 128" for s
    by (rule cstr_frame [OF assms(1)]) (use span_sub [of 4 "length s + 1" 132 ?d] that d in auto)
  ultimately show ?thesis using assms(3) r32 [of 16] by (simp add: entry_loaded_def)
qed

definition fs_tables :: "u32 \<Rightarrow> u32 \<Rightarrow> u32 set" where
  "fs_tables ino dir = span ino 0x2000 \<union> span dir 0x2000"

text \<open>A table of 0x2000 bytes has room for 62 directory entries.\<close>

lemma entry_in_tables: "j < 62 \<Longrightarrow> entry_span ino dir (of_nat j) \<subseteq> fs_tables ino dir"
  using span_of_nat [of "132 * j" 132 "0x2000" dir] span_of_nat [of "36 * j" 36 "0x2000" ino]
  by (auto simp: entry_span_def fs_tables_def)

lemma entries_disjoint:
  assumes "i < 62" and "j < 62" and "i \<noteq> j" and "span ino 0x2000 \<inter> span dir 0x2000 = {}"
  shows "entry_span ino dir (of_nat i) \<inter> entry_span ino dir (of_nat j) = {}"
proof -
  have d: "span (dir + 132 * of_nat i) 132 \<inter> span (dir + 132 * of_nat j) 132 = {}"
    using apart_span [OF elements_apart [of i j 132 "0x2000" dir]] assms by simp
  have n: "span (ino + 36 * of_nat i) 36 \<inter> span (ino + 36 * of_nat j) 36 = {}"
    using apart_span [OF elements_apart [of i j 36 "0x2000" ino]] assms by simp
  have "span (dir + 132 * of_nat k) 132 \<subseteq> span dir 0x2000" "span (ino + 36 * of_nat k) 36 \<subseteq> span ino 0x2000"
    if "k < 62" for k
    using that span_of_nat [of "132 * k" 132 "0x2000" dir] span_of_nat [of "36 * k" 36 "0x2000" ino] by simp_all
  from this [OF assms(1)] this [OF assms(2)] d n assms(4) show ?thesis by (auto simp: entry_span_def)
qed

lemma entries_span_Suc: "entries_span ino dir i (Suc k) = entry_span ino dir (of_nat i) \<union> entries_span ino dir (Suc i) k"
proof -
  have "{i ..< i + Suc k} = insert i {Suc i ..< Suc i + k}" by auto
  then show ?thesis by (simp add: entries_span_def)
qed

lemma entries_in_tables: "i + k \<le> 62 \<Longrightarrow> entries_span ino dir i k \<subseteq> fs_tables ino dir"
  unfolding entries_span_def by (intro UN_least entry_in_tables) simp

lemma entries_span_disjoint:
  assumes "Suc i + k \<le> 62" and "span ino 0x2000 \<inter> span dir 0x2000 = {}"
  shows "entry_span ino dir (of_nat i) \<inter> entries_span ino dir (Suc i) k = {}"
proof -
  have "entry_span ino dir (of_nat i) \<inter> entry_span ino dir (of_nat j) = {}" if "j \<in> {Suc i ..< Suc i + k}" for j
    using that assms(1) by (intro entries_disjoint [OF _ _ _ assms(2)]) auto
  then show ?thesis unfolding entries_span_def by blast
qed

lemma load_loop_loads:
  assumes "unat p + 512 * n < 2 ^ 32" and "unat tar_end \<le> unat p + 512 * n" and "n \<noteq> 0 \<longrightarrow> unat p + 512 * n < unat tar_end + 512"
    and "ino \<noteq> 0" and "dir \<noteq> 0" and "span ino 0x2000 \<inter> span dir 0x2000 = {}"
    and "bytes_at m ustar ustar_magic" and "span ustar 8 \<inter> fs_tables ino dir = {}"
    and "span p (512 * n) \<inter> fs_tables ino dir = {}" and "i + length (headers m p n) \<le> 62"
  shows "\<exists>m'. load_loop ustar ino dir tar_end p (of_nat i) m = Some (Inr (of_nat (i + length (headers m p n)), m')) \<and>
    same_outside (entries_span ino dir i (length (headers m p n))) m m' \<and>
    (\<forall>j < length (headers m p n). entry_loaded m m' ino dir (of_nat (i + j)) (headers m p n ! j))"
  using assms(1-3,7,9,10)
proof (induction n arbitrary: p i m)
  case 0
  then have "\<not> p < tar_end" by (simp add: word_less_nat_alt)
  then show ?case by (subst load_loop.simps) simp
next
  case (Suc n)
  have lt: "p < tar_end" using Suc.prems(3) by (simp add: word_less_nat_alt)
  have p': "unat (p + 512) = unat p + 512" using Suc.prems(1) by (simp add: u32_add)
  have sp: "span p 512 \<subseteq> span p (512 * Suc n)" "span (p + 512) (512 * n) \<subseteq> span p (512 * Suc n)"
    using span_mono [of 512 "512 * Suc n" p] span_sub [of 512 "512 * n" "512 * Suc n" p] by auto
  have arch: "span (p + 512) (512 * n) \<inter> fs_tables ino dir = {}" "span p 512 \<inter> fs_tables ino dir = {}"
    using sp Suc.prems(5) by blast+
  show ?case
  proof (cases "bytes_at m (p + 257) ustar_magic")
    case False
    then have hs: "headers m p (Suc n) = headers m (p + 512) n" by simp
    have "load_loop ustar ino dir tar_end p (of_nat i) m = load_loop ustar ino dir tar_end (p + 512) (of_nat i) m"
      using lt False memcmp_magic [OF Suc.prems(4)] by (subst load_loop.simps) simp
    then show ?thesis
      unfolding hs using Suc.IH [of "p + 512" m i] Suc.prems p' arch hs by (simp add: algebra_simps)
  next
    case True
    let ?m1 = "load_entry ino dir (of_nat i) p m"
    have hs: "headers m p (Suc n) = p # headers m (p + 512) n" using True by simp
    have i: "i < 62" using Suc.prems(6) hs by simp
    have e: "entry_span ino dir (of_nat i) \<subseteq> fs_tables ino dir" by (rule entry_in_tables [OF i])
    have dn: "span (dir + 132 * of_nat i) 132 \<inter> span (ino + 36 * of_nat i) 36 = {}"
      using assms(6) i span_of_nat [of "132 * i" 132 "0x2000" dir] span_of_nat [of "36 * i" 36 "0x2000" ino] by auto
    have pe: "span p 512 \<inter> entry_span ino dir (of_nat i) = {}" using e arch(2) by blast
    note l = load_entry_loads [OF pe dn, of m]
    have h1: "headers ?m1 (p + 512) n = headers m (p + 512) n"
      by (rule headers_frame [OF l(1)]) (use e arch(1) in blast)
    have u1: "bytes_at ?m1 ustar ustar_magic"
      using bytes_at_frame [OF l(1), of ustar ustar_magic] Suc.prems(4) assms(8) e by auto
    obtain m' where m': "load_loop ustar ino dir tar_end (p + 512) (of_nat (Suc i)) ?m1 =
          Some (Inr (of_nat (Suc i + length (headers m (p + 512) n)), m'))"
        "same_outside (entries_span ino dir (Suc i) (length (headers m (p + 512) n))) ?m1 m'"
        "\<forall>j < length (headers m (p + 512) n). entry_loaded ?m1 m' ino dir (of_nat (Suc i + j)) (headers m (p + 512) n ! j)"
      using Suc.IH [of "p + 512" ?m1 "Suc i"] Suc.prems p' arch hs h1 u1 by (auto simp: algebra_simps)
    have "load_loop ustar ino dir tar_end p (of_nat i) m = load_loop ustar ino dir tar_end (p + 512) (of_nat (Suc i)) ?m1"
      using lt True memcmp_magic [OF Suc.prems(4)] assms(4,5) by (subst load_loop.simps) (simp add: add.commute)
    moreover have "same_outside (entries_span ino dir i (length (headers m p (Suc n)))) m m'"
      unfolding hs list.size entries_span_Suc add_Suc_right add_0_right by (rule same_outside_trans [OF l(1) m'(2)])
    moreover have "entry_loaded m m' ino dir (of_nat (i + j)) (headers m p (Suc n) ! j)"
      if j: "j < length (headers m p (Suc n))" for j
    proof (cases j)
      case 0
      have "entry_span ino dir (of_nat i) \<inter> entries_span ino dir (Suc i) (length (headers m (p + 512) n)) = {}"
        using entries_span_disjoint [OF _ assms(6)] Suc.prems(6) hs by simp
      then show ?thesis using entry_loaded_frame [OF m'(2) _ l(2)] 0 hs by simp
    next
      case (Suc j')
      then have j': "j' < length (headers m (p + 512) n)" using j hs by simp
      have "span (headers m (p + 512) n ! j') 512 \<inter> entry_span ino dir (of_nat i) = {}"
        using headers_in [OF nth_mem [OF j']] arch(1) e by blast
      then have "entry_loaded m m' ino dir (of_nat (Suc i + j')) (headers m (p + 512) n ! j')"
        using m'(3) j' entry_loaded_source [OF l(1)] by blast
      then show ?thesis using Suc hs by simp
    qed
    ultimately show ?thesis using m'(1) hs by (intro exI [of _ m']) simp
  qed
qed

text \<open>The number of blocks in an archive of a given length.\<close>

definition archive_blocks :: "kinfo \<Rightarrow> nat" where
  "archive_blocks k = (unat (initrd_end k - initrd_start k) + 511) div 512"

definition archive :: "kinfo \<Rightarrow> u32" where
  "archive k = p2v (initrd_start k)"

text \<open>An archive of two blocks, the first the header of an empty regular file with the name \<^verbatim>\<open>./a\<close>.\<close>

definition demo_archive :: mem where
  "demo_archive = write32 (write32 (write32 (write32 (write32 (write32 (write32 ((\<lambda>_. 0)
     (0x80000200 := 0x75, 0x80000201 := 0x73, 0x80000202 := 0x74, 0x80000203 := 0x61, 0x80000204 := 0x72,
      0x80000206 := 0x30, 0x80000207 := 0x30, 0x80100000 := 0x2E, 0x80100001 := 0x2F, 0x80100002 := 0x61,
      0x80100101 := 0x75, 0x80100102 := 0x73, 0x80100103 := 0x74, 0x80100104 := 0x61, 0x80100105 := 0x72,
      0x80100107 := 0x30, 0x80100108 := 0x30))
     0x80000100 0x80002000) 0x80002000 0x2000) 0x80002004 0x80004000) 0x80002008 0x80000100)
     0x80004000 0x2000) 0x80004004 0) 0x80004008 0x80002004"

definition demo_tables :: blocks where
  "demo_tables = [(0x80002000, 0x2000), (0x80004000, 0x2000)]"

lemma demo_archive_bytes:
  "bytes_at demo_archive 0x80000200 ustar_magic" "bytes_at demo_archive 0x80100101 ustar_magic"
  "\<not> bytes_at demo_archive 0x80100301 ustar_magic" "cstr demo_archive 0x80100001 [0x2F, 0x61]"
  by (simp_all add: demo_archive_def ustar_magic_def read8_write32_apart apart_def)

lemma demo_archive_inv: "freelist_inv 0x80000100 demo_archive demo_tables"
  by (simp add: freelist_inv_def demo_archive_def demo_tables_def dlist_def block_ok_def
      block_apart_def aligned_def mem_simps apart_def)

lemma demo_tables_alloc:
  "alloc_spec 0x2000 demo_tables = (0x80002000, [(0x80004000, 0x2000)])"
  "alloc_spec 0x2000 [(0x80004000, 0x2000)] = (0x80004000, [])"
  by (simp_all add: alloc_spec_def demo_tables_def pg_roundup_def roundup_def)

lemma demo_tables_apart:
  "span 0x80100000 0x400 \<inter> owned 0x80000100 demo_tables = {}" "span 0x80000200 8 \<inter> owned 0x80000100 demo_tables = {}"
proof -
  have a: "apart 0x80100000 0x400 0x80000100 4" "apart 0x80100000 0x400 0x80002000 0x2000"
    "apart 0x80100000 0x400 0x80004000 0x2000" "apart 0x80000200 8 0x80000100 4"
    "apart 0x80000200 8 0x80002000 0x2000" "apart 0x80000200 8 0x80004000 0x2000" by (simp_all add: apart_def)
  show "span 0x80100000 0x400 \<inter> owned 0x80000100 demo_tables = {}"
    using apart_span [OF a(1)] apart_span [OF a(2)] apart_span [OF a(3)]
    by (auto simp: owned_def demo_tables_def block_span_def)
  show "span 0x80000200 8 \<inter> owned 0x80000100 demo_tables = {}"
    using apart_span [OF a(4)] apart_span [OF a(5)] apart_span [OF a(6)]
    by (auto simp: owned_def demo_tables_def block_span_def)
qed

section \<open>Properties\<close>

text \<open>\<^verbatim>\<open>oct2int\<close> of a field that holds a number in octal digits is that number.\<close>

theorem oct2int_roundtrip:
  assumes "v < 8 ^ unat w" and "bytes_at m a (octal_field (unat w) v)"
  shows "oct2int m a w = of_nat v"
  by (rule oct2int_field [OF assms])

theorem oct2int_roundtrip_witness:
  "oct2int ((\<lambda>_. 0)(0x100 := 0x36, 0x101 := 0x34, 0x102 := 0x34)) 0x100 3 = 420"
proof -
  have "bytes_at ((\<lambda>_. 0)(0x100 := 0x36, 0x101 := 0x34, 0x102 := 0x34)) 0x100 (octal_field (unat (3 :: u32)) 420)"
    by (simp add: octal_field_def, simp add: numeral_3_eq_3)
  then show ?thesis using oct2int_roundtrip [of 420 3] by simp
qed

text \<open>C18: with memory for the two tables and at most 60 headers in the archive, \<^verbatim>\<open>load_initrd\<close> returns with
  one inode and one directory entry per header, numbered from \<^verbatim>\<open>ROOT_INO\<close> on in the order of the
  archive: the name is that of the header without its first character, and mode, owner, size,
  time, type, device number and data address are those of the header. It changes nothing outside
  of the memory of the page allocator.\<close>

theorem load_initrd_correct:
  assumes "freelist_inv fl m bs"
    and "alloc_spec 0x2000 bs = (ino, bs1)" and "ino \<noteq> 0" and "alloc_spec 0x2000 bs1 = (dir, bs2)" and "dir \<noteq> 0"
    and "unat (archive k) + 512 * archive_blocks k < 2 ^ 32"
    and "span (archive k) (512 * archive_blocks k) \<inter> owned fl bs = {}"
    and "bytes_at m ustar ustar_magic" and "span ustar 8 \<inter> owned fl bs = {}"
    and "hs = headers m (archive k) (archive_blocks k)" and "length hs \<le> 60"
  shows "\<exists>m'. load_initrd fl ustar k m =
      Inr (k\<lparr> ino_tbl := ino, dir_tbl := dir, ino_n := of_nat (2 + length hs) \<rparr>, m') \<and>
    freelist_inv fl m' bs2 \<and> same_outside (owned fl bs) m m' \<and>
    (\<forall>j < length hs. entry_loaded m m' ino dir (of_nat (2 + j)) (hs ! j))"
proof -
  let ?tar = "archive k" and ?n = "archive_blocks k" and ?len = "initrd_end k - initrd_start k"
  obtain m1 where m1: "alloc_pages fl 0x2000 m = Inr (ino, m1)" "freelist_inv fl m1 bs1" "same_outside (owned fl bs) m m1"
    using alloc_pages_refines [OF assms(1), of "0x2000"] assms(2) by auto
  obtain m2 where m2: "alloc_pages fl 0x2000 m1 = Inr (dir, m2)" "freelist_inv fl m2 bs2" "same_outside (owned fl bs1) m1 m2"
    using alloc_pages_refines [OF m1(2), of "0x2000"] assms(4) by auto
  have r: "pg_roundup 0x2000 = 0x2000" by (simp add: pg_roundup_def roundup_def)
  have ok: "blocks_ok fl bs" "blocks_ok fl bs1" using assms(1) m1(2) by (simp_all add: freelist_inv_def)
  have sub: "(\<Union>b \<in> set cs. block_span b) \<subseteq> owned fl cs" for cs by (auto simp: owned_def)
  note i = alloc_spec_region [OF ok(1) assms(2,3), unfolded r]
    and d = alloc_spec_region [OF ok(2) assms(4,5), unfolded r]
  have tab: "span ino 0x2000 \<subseteq> owned fl bs" "span dir 0x2000 \<subseteq> owned fl bs1" "span ino 0x2000 \<inter> owned fl bs1 = {}"
      "span dir 0x2000 \<inter> owned fl bs2 = {}" "owned fl bs1 \<subseteq> owned fl bs" "owned fl bs2 \<subseteq> owned fl bs1"
    using i d sub [of bs] sub [of bs1] by auto
  then have tab': "fs_tables ino dir \<subseteq> owned fl bs" "fs_tables ino dir \<inter> owned fl bs2 = {}" "span ino 0x2000 \<inter> span dir 0x2000 = {}"
    by (auto simp: fs_tables_def)
  have so: "same_outside (owned fl bs) m m2" by (rule same_outside_step [OF m1(3) m2(3) tab(5)])
  have hs: "headers m2 ?tar ?n = hs" using headers_frame [OF so assms(7)] assms(10) by simp
  have u: "bytes_at m2 ustar ustar_magic" using bytes_at_frame [OF so, of ustar ustar_magic] assms(8,9) by simp
  have len: "unat (?tar + ?len) \<le> unat ?tar + 512 * ?n" "?n \<noteq> 0 \<longrightarrow> unat ?tar + 512 * ?n < unat (?tar + ?len) + 512"
    using assms(6) by (auto simp: archive_blocks_def u32_add)
  obtain m' where m': "load_loop ustar ino dir (?tar + ?len) ?tar (of_nat 2) m2 = Some (Inr (of_nat (2 + length hs), m'))"
      "same_outside (entries_span ino dir 2 (length hs)) m2 m'"
      "\<forall>j < length hs. entry_loaded m2 m' ino dir (of_nat (2 + j)) (hs ! j)"
    using load_loop_loads [OF assms(6) len assms(3,5) tab'(3) u, of 2] hs assms(7,9,11) tab'(1) by fastforce
  have "entries_span ino dir 2 (length hs) \<subseteq> fs_tables ino dir" using assms(11) by (intro entries_in_tables) simp
  then have E: "entries_span ino dir 2 (length hs) \<subseteq> owned fl bs" "entries_span ino dir 2 (length hs) \<inter> owned fl bs2 = {}"
    using tab' by blast+
  have "entry_loaded m m' ino dir (of_nat (2 + j)) (hs ! j)" if "j < length hs" for j
  proof -
    have "span (hs ! j) 512 \<inter> owned fl bs = {}"
      using headers_in [of "hs ! j" m ?tar ?n] that assms(7,10) nth_mem by blast
    then show ?thesis using m'(3) that entry_loaded_source [OF so] by blast
  qed
  moreover have "freelist_inv fl m' bs2" by (rule freelist_inv_frame [OF m2(2) m'(2) E(2)])
  moreover have "load_initrd fl ustar k m = Inr (k\<lparr> ino_tbl := ino, dir_tbl := dir, ino_n := of_nat (2 + length hs) \<rparr>, m')"
    using m1(1) m2(1) m'(1) by (simp add: load_initrd_def archive_def ROOT_INO_def)
  ultimately show ?thesis using same_outside_step [OF so m'(2) E(1)] by blast
qed

theorem load_initrd_correct_witness:
  "\<exists>m'. load_initrd 0x80000100 0x80000200 (kinfo0\<lparr> initrd_start := 0x100000, initrd_end := 0x100400 \<rparr>) demo_archive =
      Inr (kinfo0\<lparr> initrd_start := 0x100000, initrd_end := 0x100400, ino_tbl := 0x80002000, dir_tbl := 0x80004000,
        ino_n := 3 \<rparr>, m') \<and> cstr m' 0x8000410C [0x2F, 0x61]"
proof -
  let ?k = "kinfo0\<lparr> initrd_start := 0x100000, initrd_end := 0x100400 \<rparr>"
  have k: "archive ?k = 0x80100000" "archive_blocks ?k = 2"
    by (simp_all add: archive_def archive_blocks_def p2v_def KERNEL_OFFSET_def)
  have hs: "headers demo_archive 0x80100000 2 = [0x80100000]"
    using demo_archive_bytes by (simp add: numeral_2_eq_2)
  have "\<exists>m'. load_initrd 0x80000100 0x80000200 ?k demo_archive =
      Inr (?k\<lparr> ino_tbl := 0x80002000, dir_tbl := 0x80004000, ino_n := of_nat (2 + length [0x80100000 :: u32]) \<rparr>, m') \<and>
    freelist_inv 0x80000100 m' [] \<and> same_outside (owned 0x80000100 demo_tables) demo_archive m' \<and>
    (\<forall>j < length [0x80100000 :: u32].
       entry_loaded demo_archive m' 0x80002000 0x80004000 (of_nat (2 + j)) ([0x80100000] ! j))"
    by (rule load_initrd_correct [OF demo_archive_inv demo_tables_alloc(1) _ demo_tables_alloc(2)])
      (use k hs demo_archive_bytes(1) demo_tables_apart in \<open>simp_all\<close>)
  then obtain m' where m': "load_initrd 0x80000100 0x80000200 ?k demo_archive =
        Inr (?k\<lparr> ino_tbl := 0x80002000, dir_tbl := 0x80004000, ino_n := 3 \<rparr>, m')"
      "entry_loaded demo_archive m' 0x80002000 0x80004000 2 0x80100000" by auto
  have "cstr m' 0x8000410C [0x2F, 0x61]"
    using entry_loaded_name [OF m'(2), of "[0x2F, 0x61]"] demo_archive_bytes(4) by simp
  then show ?thesis using m'(1) by blast
qed

end
