(* ===== verification/Fs.thy ===== *)
theory Fs
  imports Devices Initrd
begin

text \<open>
  Files: \<^verbatim>\<open>file_open\<close>, \<^verbatim>\<open>sys_open\<close>, \<^verbatim>\<open>sys_read\<close> and \<^verbatim>\<open>sys_write\<close> of \<^verbatim>\<open>kernel/fs.c\<close> with the device switch
  \<^verbatim>\<open>cdevs\<close>, and \<^verbatim>\<open>fbcon_open\<close> of \<^verbatim>\<open>drivers/video/console/console.c\<close>, which opens \<^verbatim>\<open>/dev/fb\<close>. Opening is
  recursive (a console opens a file, which may be a console again), so it has a bound on the
  depth, the first argument of \<open>file_open\<close>; a depth of two is enough when \<^verbatim>\<open>/dev/fb\<close> is a frame
  buffer. A process (\<^verbatim>\<open>struct proc\<close>) has its table of open files at offset 24 and its state behind
  it at offset 88.
\<close>

section \<open>The operations\<close>

text \<open>Addresses the linker fixes: static variables, functions and string literals.\<close>

record link =
  l_freelist :: u32
  l_heap :: u32
  l_queue :: u32
  l_ustar :: u32
  l_devfb :: u32
  l_init :: u32
  l_console :: u32
  l_trapret :: u32
  l_forkret :: u32
  l_scheduler :: u32

datatype major_ids = CONSOLE | FRAMEBUFFER | MEMORY

fun major_code :: "major_ids \<Rightarrow> u32" where
  "major_code CONSOLE = 0"
| "major_code FRAMEBUFFER = 1"
| "major_code MEMORY = 2"

text \<open>The table \<^verbatim>\<open>cdevs\<close> has two entries; every other device number reads outside of it.\<close>

definition cdevs :: "u32 \<Rightarrow> major_ids res" where
  "cdevs n = (if n = major_code CONSOLE then Inr CONSOLE
     else if n = major_code FRAMEBUFFER then Inr FRAMEBUFFER else Inl OutOfRange)"

definition MAXFILES :: nat where "MAXFILES = 16"

function find_file :: "kinfo \<Rightarrow> u32 \<Rightarrow> mem \<Rightarrow> u32 \<Rightarrow> u32 option res" where
  "find_file k path m i =
     (if i < ino_n k
      then bindE (ends (strcmp m path (dir_tbl k + 132 * i + 4))) (\<lambda>r.
        if r = 0 then Inr (Some i) else find_file k path m (i + 1))
      else Inr None)"
  by pat_completeness auto
termination
  by (relation "measure (\<lambda>(k, path, m, i). unat (ino_n k) - unat i)")
    (auto simp: u32_succ, simp add: word_less_nat_alt)

declare find_file.simps [simp del]

definition fbcon_open :: "(u32 \<Rightarrow> mem \<Rightarrow> (u32 \<times> mem) res) \<Rightarrow> link \<Rightarrow> u32 \<Rightarrow> u32 \<Rightarrow> mem \<Rightarrow> (int \<times> mem) res" where
  "fbcon_open open_file L inode file m =
     bindE (kmalloc (l_heap L) 8 m) (\<lambda>(c, m).
     let m = write32 m (file + 8) c in
     bindE (alloc_pages (l_freelist L) 0x1000 m) (\<lambda>(buf, m).
     if read32 m (file + 8) = 0 then Inl NullDeref
     else let m = write32 m (read32 m (file + 8)) buf in
       bindE (open_file (l_devfb L) m) (\<lambda>(fb, m).
       if fb = 0 then Inl AssertFail
       else let m = write32 m (read32 m (file + 8) + 4) (read32 m (fb + 8)) in
         Inr (0, m))))"

definition cdev_open :: "(u32 \<Rightarrow> mem \<Rightarrow> (u32 \<times> mem) res) \<Rightarrow> link \<Rightarrow> kinfo \<Rightarrow> u32 \<Rightarrow> u32 \<Rightarrow> mem \<Rightarrow> (int \<times> mem) res" where
  "cdev_open open_file L k inode file m =
     bindE (cdevs (read32 m (inode + 8))) (\<lambda>d.
       case d of
         CONSOLE \<Rightarrow> fbcon_open open_file L inode file m
       | FRAMEBUFFER \<Rightarrow> fbdev_open (l_heap L) k inode file m
       | MEMORY \<Rightarrow> Inl OutOfRange)"

fun file_open :: "nat \<Rightarrow> link \<Rightarrow> kinfo \<Rightarrow> u32 \<Rightarrow> mem \<Rightarrow> (u32 \<times> mem) res" where
  "file_open 0 L k path m = Inl Diverges"
| "file_open (Suc n) L k path m =
     bindE (find_file k path m ROOT_INO) (\<lambda>r.
       case r of
         None \<Rightarrow> Inr (0, m)
       | Some i \<Rightarrow>
           bindE (kmalloc (l_heap L) 12 m) (\<lambda>(f, m).
           if f = 0 then Inl AssertFail
           else let m = write32 m (f + 4) (ino_tbl k + 36 * read32 m (dir_tbl k + 132 * i)) in
             bindE (cdev_open (file_open n L k) L k (read32 m (f + 4)) f m) (\<lambda>(r, m).
             Inr (f, m))))"

text \<open>The search for a free descriptor reads one entry too many, which is the state of the process.\<close>

function free_fd :: "mem \<Rightarrow> u32 \<Rightarrow> nat \<Rightarrow> nat option" where
  "free_fd m p fd =
     (if read32 m (p + 24 + 4 * of_nat fd) \<noteq> 0
      then if MAXFILES \<le> fd then None else free_fd m p (fd + 1)
      else Some fd)"
  by pat_completeness auto
termination
  by (relation "measure (\<lambda>(m, p, fd). Suc MAXFILES - fd)") auto

declare free_fd.simps [simp del]

definition sys_open :: "nat \<Rightarrow> link \<Rightarrow> kinfo \<Rightarrow> u32 \<Rightarrow> u32 \<Rightarrow> mem \<Rightarrow> (int \<times> mem) res" where
  "sys_open n L k p path m =
     (if p = 0 then Inl AssertFail
      else bindE (find_file k path m ROOT_INO) (\<lambda>r.
        case r of
          None \<Rightarrow> Inr (- 1, m)
        | Some i \<Rightarrow>
            (case free_fd m p 0 of
               None \<Rightarrow> Inr (- 1, m)
             | Some fd \<Rightarrow>
                 bindE (kmalloc (l_heap L) 12 m) (\<lambda>(f, m).
                 let m = write32 m (p + 24 + 4 * of_nat fd) f in
                 if f = 0 then Inl NullDeref
                 else let m = write32 m (f + 4) (ino_tbl k + 36 * read32 m (dir_tbl k + 132 * i)) in
                   bindE (cdev_open (file_open n L k) L k (read32 m (f + 4)) f m) (\<lambda>(r, m).
                   Inr (int fd, m))))))"

text \<open>Reading and writing dispatch on the device of the file; the result of the driver is dropped. The
  cursor is the console's.\<close>

definition sys_read :: "u32 \<Rightarrow> u32 \<Rightarrow> u32 \<Rightarrow> u32 \<Rightarrow> mem \<Rightarrow> (int \<times> mem) res" where
  "sys_read p fd buf count m =
     (let f = read32 m (p + 24 + 4 * fd) in
      if f = 0 then Inr (- 1, m)
      else bindE (cdevs (read32 m (read32 m (f + 4) + 8))) (\<lambda>d.
        case d of
          CONSOLE \<Rightarrow> let r = fbcon_read f buf count in Inr (0, m)
        | FRAMEBUFFER \<Rightarrow> let (r, m) = fbdev_read f buf count m in Inr (0, m)
        | MEMORY \<Rightarrow> Inl OutOfRange))"

definition sys_write :: "u32 \<Rightarrow> u32 \<Rightarrow> u32 \<Rightarrow> u32 \<Rightarrow> cursor \<Rightarrow> mem \<Rightarrow> (int \<times> cursor \<times> mem) res" where
  "sys_write p fd buf count s m =
     (let f = read32 m (p + 24 + 4 * fd) in
      if f = 0 then Inr (- 1, s, m)
      else bindE (cdevs (read32 m (read32 m (f + 4) + 8))) (\<lambda>d.
        case d of
          CONSOLE \<Rightarrow> bindE (fbcon_write f buf count s m) (\<lambda>(r, s, m). Inr (0, s, m))
        | FRAMEBUFFER \<Rightarrow> let (r, m) = fbdev_write f buf count m in Inr (0, s, m)
        | MEMORY \<Rightarrow> Inl OutOfRange))"

section \<open>Looking up a name\<close>

definition named :: "mem \<Rightarrow> kinfo \<Rightarrow> u32 \<Rightarrow> u8 list \<Rightarrow> bool" where
  "named m k i s \<longleftrightarrow> cstr m (dir_tbl k + 132 * i + 4) s"

definition names_ok :: "mem \<Rightarrow> kinfo \<Rightarrow> bool" where
  "names_ok m k \<longleftrightarrow> (\<forall>i < ino_n k. ROOT_INO \<le> i \<longrightarrow> (\<exists>s. named m k i s))"

definition first_named :: "mem \<Rightarrow> kinfo \<Rightarrow> u32 \<Rightarrow> u8 list \<Rightarrow> u32 option \<Rightarrow> bool" where
  "first_named m k a s r \<longleftrightarrow>
     (case r of
        None \<Rightarrow> \<forall>i. a \<le> i \<longrightarrow> i < ino_n k \<longrightarrow> \<not> named m k i s
      | Some i \<Rightarrow> a \<le> i \<and> i < ino_n k \<and> named m k i s \<and> (\<forall>j. a \<le> j \<longrightarrow> j < i \<longrightarrow> \<not> named m k j s))"

lemma cstr_unique: "cstr m a s \<Longrightarrow> cstr m a t \<Longrightarrow> s = t"
proof (induction s arbitrary: a t)
  case Nil
  then show ?case by (cases t) auto
next
  case (Cons c s)
  then show ?case by (cases t) auto
qed

lemma first_named_Suc:
  assumes "a < ino_n k" and "\<not> named m k a s" and "first_named m k (a + 1) s r"
  shows "first_named m k a s r"
proof -
  have le: "a + 1 \<le> i \<or> i = a" if "a \<le> i" for i
    using that assms(1) u32_succ [OF assms(1)] by (auto simp: word_le_nat_alt word_unat_eq_iff)
  have ge: "a \<le> i" if "a + 1 \<le> i" for i
    using that u32_succ [OF assms(1)] by (simp add: word_le_nat_alt)
  show ?thesis
    using assms(2,3) le ge by (cases r) (auto simp: first_named_def)
qed

lemma find_file_first:
  assumes "cstr m path s" and "names_ok m k" and "ROOT_INO \<le> a"
  shows "\<exists>r. find_file k path m a = Inr r \<and> first_named m k a s r"
  using assms
proof (induction k path m a rule: find_file.induct)
  case (1 k path m a)
  show ?case
  proof (cases "a < ino_n k")
    case False
    then show ?thesis by (subst find_file.simps) (auto simp: first_named_def)
  next
    case True
    obtain t where t: "named m k a t" using "1.prems" True by (auto simp: names_ok_def)
    then obtain r where r: "strcmp m path (dir_tbl k + 132 * a + 4) = Some r" "r = 0 \<longleftrightarrow> s = t"
      using strcmp_orders [OF "1.prems"(1)] by (auto simp: named_def)
    show ?thesis
    proof (cases "r = 0")
      case True
      then show ?thesis using \<open>a < ino_n k\<close> r t by (subst find_file.simps) (auto simp: first_named_def)
    next
      case False
      have "ROOT_INO \<le> a + 1" using "1.prems"(3) u32_succ [OF True] by (simp add: word_le_nat_alt)
      then obtain q where q: "find_file k path m (a + 1) = Inr q" "first_named m k (a + 1) s q"
        using "1.IH" [OF True, of r] r False "1.prems" by auto
      have "\<not> named m k a s" using t r False cstr_unique by (auto simp: named_def)
      then have "first_named m k a s q" using first_named_Suc [OF True _ q(2)] by blast
      then show ?thesis using True r False q(1) by (subst find_file.simps) simp
    qed
  qed
qed

lemma first_named_unique: "first_named m k a s r \<Longrightarrow> first_named m k a s r' \<Longrightarrow> r = r'"
  by (cases r; cases r') (auto simp: first_named_def, meson linorder_less_linear)

section \<open>Descriptors\<close>

definition ofile :: "mem \<Rightarrow> u32 \<Rightarrow> nat \<Rightarrow> u32" where
  "ofile m p fd = read32 m (p + 24 + 4 * of_nat fd)"

lemma free_fd_from:
  assumes "a \<le> fd" and "fd \<le> MAXFILES" and "ofile m p fd = 0" and "\<forall>j. a \<le> j \<longrightarrow> j < fd \<longrightarrow> ofile m p j \<noteq> 0"
  shows "free_fd m p a = Some fd"
  using assms
proof (induction "fd - a" arbitrary: a)
  case 0
  then show ?case by (subst free_fd.simps) (simp add: ofile_def)
next
  case (Suc n)
  then have "ofile m p a \<noteq> 0" "\<not> MAXFILES \<le> a" by auto
  moreover have "free_fd m p (a + 1) = Some fd" using Suc by (intro Suc.hyps(1)) auto
  ultimately show ?case by (subst free_fd.simps) (simp add: ofile_def)
qed

lemma ofile_slot: "fd \<le> MAXFILES \<Longrightarrow> span (p + 24 + 4 * of_nat fd) 4 \<subseteq> span p 104"
  using span_of_nat [of "24 + 4 * fd" 4 104 p] by (simp add: MAXFILES_def add.assoc)

lemma find_file_at:
  assumes "cstr m path s" and "names_ok m k" and "first_named m k ROOT_INO s r"
  shows "find_file k path m ROOT_INO = Inr r"
  using find_file_first [OF assms(1,2) order_refl] first_named_unique [OF assms(3)] by auto

text \<open>The steps of \<^verbatim>\<open>sys_open\<close> before the driver is called.\<close>

lemma sys_open_file:
  assumes inv: "heap_inv (l_heap L) m ((a, s) # hs)" and s: "16 < s" and H: "H = owned (l_heap L) ((a, s) # hs)"
    and path: "cstr m path name" "names_ok m k" "first_named m k ROOT_INO name (Some i)"
    and p: "p \<noteq> 0" "fd \<le> MAXFILES" "ofile m p fd = 0" "\<forall>j < fd. ofile m p j \<noteq> 0" "span p 104 \<inter> H = {}"
    and dir: "span (dir_tbl k + 132 * i) 4 \<inter> (span p 104 \<union> H) = {}"
    and ip: "ip = ino_tbl k + 36 * read32 m (dir_tbl k + 132 * i)" "span (ip + 8) 4 \<inter> (span p 104 \<union> H) = {}"
  obtains m3 where "sys_open n L k p path m = bindE (cdev_open (file_open n L k) L k ip (a + 2) m3) (\<lambda>(r, m). Inr (int fd, m))"
    and "heap_inv (l_heap L) m3 ((a + 16, s - 16) # hs)" and "read32 m3 (ip + 8) = read32 m (ip + 8)"
    and "ofile m3 p fd = a + 2" and "read32 m3 (a + 2 + 4) = ip" and "a + 2 \<noteq> 0"
    and "span (a + 2) 12 \<subseteq> H" and "span (a + 2) 12 \<inter> owned (l_heap L) ((a + 16, s - 16) # hs) = {}"
    and "owned (l_heap L) ((a + 16, s - 16) # hs) \<subseteq> H"
    and "same_outside (span (p + 24 + 4 * of_nat fd) 4 \<union> H) m m3"
proof -
  let ?pa = "p + 24 + 4 * of_nat fd"
  have c: "chunk_size 12 = 16" by (simp add: chunk_size_def roundup_def)
  obtain m1 where m1: "kmalloc (l_heap L) 12 m = Inr (a + 2, m1)" "heap_inv (l_heap L) m1 ((a + 16, s - 16) # hs)"
      "same_outside H m m1" "span (a + 2) 12 \<subseteq> H" "span (a + 2) 12 \<inter> owned (l_heap L) ((a + 16, s - 16) # hs) = {}"
      "owned (l_heap L) ((a + 16, s - 16) # hs) \<subseteq> H" "a + 2 \<noteq> 0"
    using kmalloc_first [OF inv, of 12] s c by (auto simp: c H)
  let ?m2 = "write32 m1 ?pa (a + 2)"
  let ?m3 = "write32 ?m2 (a + 2 + 4) ip"
  have slot: "span ?pa 4 \<subseteq> span p 104" by (rule ofile_slot [OF p(2)])
  have f4: "span (a + 2 + 4) 4 \<subseteq> span (a + 2) 12" by (rule span_sub) simp
  have o2: "same_outside (span ?pa 4 \<union> H) m ?m2"
    using m1(3) same_outside_write32 [of ?pa m1 "a + 2"] by (auto simp: same_outside_def)
  have o3: "same_outside (span ?pa 4 \<union> H) m ?m3"
    by (rule same_outside_step [OF o2 same_outside_write32]) (use f4 m1(4) in blast)
  have d: "read32 ?m2 (dir_tbl k + 132 * i) = read32 m (dir_tbl k + 132 * i)"
    by (rule same_outside_read32 [OF o2]) (use dir slot in blast)
  have "heap_inv (l_heap L) ?m2 ((a + 16, s - 16) # hs)"
    by (rule heap_inv_frame [OF m1(2) same_outside_write32]) (use slot p(5) m1(6) in blast)
  then have "heap_inv (l_heap L) ?m3 ((a + 16, s - 16) # hs)"
    by (rule heap_inv_frame [OF _ same_outside_write32]) (use f4 m1(5) in blast)
  moreover have "read32 ?m3 (ip + 8) = read32 m (ip + 8)"
    by (rule same_outside_read32 [OF o3]) (use ip(2) slot in blast)
  moreover have "ofile ?m3 p fd = a + 2"
  proof -
    have "read32 ?m3 ?pa = read32 ?m2 ?pa"
      by (rule same_outside_read32 [OF same_outside_write32]) (use slot f4 m1(4) p(5) in blast)
    then show ?thesis by (simp add: ofile_def)
  qed
  moreover have "sys_open n L k p path m = bindE (cdev_open (file_open n L k) L k ip (a + 2) ?m3) (\<lambda>(r, m). Inr (int fd, m))"
    using find_file_at [OF path] free_fd_from [of 0 fd m p] p m1(1,7) d ip(1) by (simp add: sys_open_def Let_def)
  ultimately show thesis using that [of ?m3] m1(4-7) o3 by simp
qed

lemma sys_open_opens:
  assumes "heap_inv (l_heap L) m ((a, s) # hs)" and "48 < s" and "H = owned (l_heap L) ((a, s) # hs)"
    and "cstr m path name" and "names_ok m k" and "first_named m k ROOT_INO name (Some i)"
    and "p \<noteq> 0" and "fd \<le> MAXFILES" and "ofile m p fd = 0" and "\<forall>j < fd. ofile m p j \<noteq> 0" and "span p 104 \<inter> H = {}"
    and "span (dir_tbl k + 132 * i) 4 \<inter> (span p 104 \<union> H) = {}"
    and "ip = ino_tbl k + 36 * read32 m (dir_tbl k + 132 * i)" and "span (ip + 8) 4 \<inter> (span p 104 \<union> H) = {}"
    and "read32 m (ip + 8) = major_code FRAMEBUFFER"
  shows "\<exists>m' f hs'. sys_open n L k p path m = Inr (int fd, m') \<and> heap_inv (l_heap L) m' hs' \<and>
    ofile m' p fd = f \<and> f \<noteq> 0 \<and> span f 12 \<subseteq> H - owned (l_heap L) hs' \<and> read32 m' (f + 4) = ip \<and>
    describes m' (read32 m' (f + 8)) (mbi k) \<and> same_outside (span (p + 24 + 4 * of_nat fd) 4 \<union> H) m m'"
proof -
  let ?f = "a + 2" and ?hp = "l_heap L" and ?pa = "p + 24 + 4 * of_nat fd"
  have "16 < s" using assms(2) by (rule less_trans [rotated]) simp
  from sys_open_file [OF assms(1) this assms(3-14), of n] obtain m3 where
    m3: "sys_open n L k p path m = bindE (cdev_open (file_open n L k) L k ip ?f m3) (\<lambda>(r, m). Inr (int fd, m))"
      "heap_inv ?hp m3 ((a + 16, s - 16) # hs)" "read32 m3 (ip + 8) = read32 m (ip + 8)"
      "ofile m3 p fd = ?f" "read32 m3 (?f + 4) = ip" "?f \<noteq> 0" "span ?f 12 \<subseteq> H"
      "span ?f 12 \<inter> owned ?hp ((a + 16, s - 16) # hs) = {}" "owned ?hp ((a + 16, s - 16) # hs) \<subseteq> H"
      "same_outside (span ?pa 4 \<union> H) m m3" .
  have f: "span (?f + 8) 4 \<subseteq> span ?f 12" "span (?f + 4) 4 \<subseteq> span ?f 12" by (rule span_sub, simp)+
  have "32 < s - 16" using assms(2) by unat_arith
  moreover have "span (?f + 8) 4 \<inter> owned ?hp ((a + 16, s - 16) # hs) = {}" using f m3(8) by blast
  ultimately obtain m' where m': "fbdev_open ?hp k ip ?f m3 = Inr (0, m')" "heap_inv ?hp m' ((a + 16 + 32, s - 16 - 32) # hs)"
      "read32 m' (?f + 8) = a + 16 + 2" "describes m' (a + 16 + 2) (mbi k)"
      "same_outside (span (?f + 8) 4 \<union> owned ?hp ((a + 16, s - 16) # hs)) m3 m'"
      "owned ?hp ((a + 16 + 32, s - 16 - 32) # hs) \<subseteq> owned ?hp ((a + 16, s - 16) # hs)"
    using fbdev_open_opens [OF m3(2)] by blast
  have "read32 m' (?f + 4) = ip"
    using same_outside_read32 [OF m'(5), of "?f + 4"] m3(5,8) f(2) apart_span [of "?f + 4" 4 "?f + 8" 4]
    by (auto simp: apart_def)
  moreover have "ofile m' p fd = ofile m3 p fd" unfolding ofile_def
    by (rule same_outside_read32 [OF m'(5)]) (use m3(7,9) f(1) ofile_slot [OF assms(8), of p] assms(11) in blast)
  moreover have "same_outside (span ?pa 4 \<union> H) m m'"
    by (rule same_outside_step [OF m3(10) m'(5)]) (use f(1) m3(7,9) in blast)
  moreover have "span ?f 12 \<inter> owned ?hp ((a + 16 + 32, s - 16 - 32) # hs) = {}"
    using m3(8) m'(6) by blast
  moreover have "sys_open n L k p path m = Inr (int fd, m')"
    using m3(1,3) m'(1) assms(15) by (simp add: cdev_open_def cdevs_def)
  ultimately show ?thesis using m' m3(4,6,7)
    by (intro exI [of _ m'] exI [of _ ?f] exI [of _ "(a + 16 + 32, s - 16 - 32) # hs"]) auto
qed

section \<open>Properties\<close>

text \<open>A process without open files, a directory with one entry \<^verbatim>\<open>/f\<close> for a frame buffer, and a heap.\<close>

definition demo_fs :: mem where
  "demo_fs = write32 (write32 (write32 (write32 (write32 ((\<lambda>_. 0)
     (0x8002010C := 0x2F, 0x8002010D := 0x66, 0x80050000 := 0x2F, 0x80050001 := 0x66))
     0x80000200 0x80010000) 0x80010000 0x100) 0x80010004 0) 0x80020108 2) 0x80030050 1"

definition demo_link :: link where
  "demo_link = \<lparr> l_freelist = 0x80000100, l_heap = 0x80000200, l_queue = 0x80000300, l_ustar = 0x80000400,
     l_devfb = 0x80000410, l_init = 0x80000420, l_console = 0x80000430, l_trapret = 0x80400000,
     l_forkret = 0x80400010, l_scheduler = 0x80400020 \<rparr>"

definition demo_kinfo :: kinfo where
  "demo_kinfo = kinfo0\<lparr> ino_n := 3, dir_tbl := 0x80020000, ino_tbl := 0x80030000 \<rparr>"

text \<open>The same process with sixteen open files.\<close>

definition demo_full :: mem where
  "demo_full = write32 (write32 (write32 (write32 (write32 ((\<lambda>x. if x - 0x80040018 < 64 then 1 else 0)
     (0x8002010C := 0x2F, 0x8002010D := 0x66, 0x80050000 := 0x2F, 0x80050001 := 0x66))
     0x80000200 0x80010000) 0x80010000 0x100) 0x80010004 0) 0x80020108 2) 0x80030050 1"

lemma demo_fs_heap:
  "heap_inv 0x80000200 demo_fs [(0x80010000, 0x100)]" "heap_inv 0x80000200 demo_full [(0x80010000, 0x100)]"
  by (simp_all add: heap_inv_def demo_fs_def demo_full_def slist_def chunk_ok_def aligned_def mem_simps apart_def)

lemma demo_fs_names:
  "cstr demo_fs 0x80050000 [0x2F, 0x66]" "named demo_fs demo_kinfo 2 [0x2F, 0x66]"
  "cstr demo_full 0x80050000 [0x2F, 0x66]" "named demo_full demo_kinfo 2 [0x2F, 0x66]"
  by (simp_all add: demo_fs_def demo_full_def demo_kinfo_def named_def read8_write32_apart apart_def)

lemma demo_fs_reads:
  "read32 demo_fs 0x80020108 = 2" "read32 demo_fs 0x80030050 = 1" "read32 demo_fs 0x80040018 = 0"
  "read32 demo_full 0x80020108 = 2" "read32 demo_full 0x80030050 = 1" "read32 demo_full 0x80040058 = 0"
  by (simp_all add: demo_fs_def demo_full_def mem_simps apart_def, simp_all add: read32_def)

lemma two_below_three: "(i :: u32) < 3 \<Longrightarrow> 2 \<le> i \<Longrightarrow> i = 2"
  by unat_arith

lemma first_named_two:
  assumes "named m k 2 s" and "ino_n k = 3"
  shows "names_ok m k" and "first_named m k ROOT_INO s (Some 2)"
  using assms two_below_three by (auto simp: names_ok_def first_named_def ROOT_INO_def)

lemma demo_fs_apart:
  "span 0x80040000 104 \<inter> owned 0x80000200 [(0x80010000, 0x100)] = {}"
  "span 0x80020108 4 \<inter> (span 0x80040000 104 \<union> owned 0x80000200 [(0x80010000, 0x100)]) = {}"
  "span 0x80030050 4 \<inter> (span 0x80040000 104 \<union> owned 0x80000200 [(0x80010000, 0x100)]) = {}"
proof -
  have a: "apart 0x80040000 104 0x80000200 4" "apart 0x80040000 104 0x80010000 256" "apart 0x80020108 4 0x80040000 104"
    "apart 0x80020108 4 0x80000200 4" "apart 0x80020108 4 0x80010000 256" "apart 0x80030050 4 0x80040000 104"
    "apart 0x80030050 4 0x80000200 4" "apart 0x80030050 4 0x80010000 256" by (simp_all add: apart_def)
  show "span 0x80040000 104 \<inter> owned 0x80000200 [(0x80010000, 0x100)] = {}"
    using apart_span [OF a(1)] apart_span [OF a(2)] by (auto simp: owned_def block_span_def)
  show "span 0x80020108 4 \<inter> (span 0x80040000 104 \<union> owned 0x80000200 [(0x80010000, 0x100)]) = {}"
    using apart_span [OF a(3)] apart_span [OF a(4)] apart_span [OF a(5)] by (auto simp: owned_def block_span_def)
  show "span 0x80030050 4 \<inter> (span 0x80040000 104 \<union> owned 0x80000200 [(0x80010000, 0x100)]) = {}"
    using apart_span [OF a(6)] apart_span [OF a(7)] apart_span [OF a(8)] by (auto simp: owned_def block_span_def)
qed

text \<open>C19: opening a name that leads to a frame buffer device, in a process with a free descriptor, returns
  the lowest free descriptor; the descriptor refers to a new file on the heap with the inode of
  the first directory entry of that name, and the file's data describe the frame buffer of the
  boot loader. Nothing else changes but the heap.\<close>

theorem sys_open_framebuffer:
  assumes "heap_inv (l_heap L) m ((a, s) # hs)" and "48 < s" and "H = owned (l_heap L) ((a, s) # hs)"
    and "cstr m path name" and "names_ok m k" and "first_named m k ROOT_INO name (Some i)"
    and "p \<noteq> 0" and "fd < MAXFILES" and "ofile m p fd = 0" and "\<forall>j < fd. ofile m p j \<noteq> 0" and "span p 104 \<inter> H = {}"
    and "span (dir_tbl k + 132 * i) 4 \<inter> (span p 104 \<union> H) = {}"
    and "ip = ino_tbl k + 36 * read32 m (dir_tbl k + 132 * i)" and "span (ip + 8) 4 \<inter> (span p 104 \<union> H) = {}"
    and "read32 m (ip + 8) = major_code FRAMEBUFFER"
  shows "\<exists>m' f hs'. sys_open n L k p path m = Inr (int fd, m') \<and> heap_inv (l_heap L) m' hs' \<and>
    ofile m' p fd = f \<and> f \<noteq> 0 \<and> span f 12 \<subseteq> H - owned (l_heap L) hs' \<and> read32 m' (f + 4) = ip \<and>
    describes m' (read32 m' (f + 8)) (mbi k) \<and> same_outside (span (p + 24 + 4 * of_nat fd) 4 \<union> H) m m'"
  by (rule sys_open_opens [OF assms(1-7) less_imp_le [OF assms(8)] assms(9-15)])

theorem sys_open_framebuffer_witness:
  "\<exists>m'. sys_open 2 demo_link demo_kinfo 0x80040000 0x80050000 demo_fs = Inr (0, m') \<and>
     describes m' (read32 m' (ofile m' 0x80040000 0 + 8)) (mbi demo_kinfo)"
proof -
  note n = first_named_two [OF demo_fs_names(2)]
  have k: "dir_tbl demo_kinfo = 0x80020000" "ino_tbl demo_kinfo = 0x80030000" "ino_n demo_kinfo = 3" "l_heap demo_link = 0x80000200"
    by (simp_all add: demo_kinfo_def demo_link_def)
  show ?thesis
    using sys_open_framebuffer [OF demo_fs_heap(1) [folded k(4)] _ refl demo_fs_names(1) n, of "0x80040000" 0 "0x80030048" 2]
      demo_fs_apart demo_fs_reads
    by (fastforce simp: k MAXFILES_def ofile_def)
qed

text \<open>C37: when all sixteen descriptors of a running process are taken, \<^verbatim>\<open>sys_open\<close> does not fail: it returns
  the descriptor 16 and stores the pointer to the new file in the state of the process.\<close>

theorem sys_open_overwrites_state:
  assumes "heap_inv (l_heap L) m ((a, s) # hs)" and "48 < s" and "H = owned (l_heap L) ((a, s) # hs)"
    and "cstr m path name" and "names_ok m k" and "first_named m k ROOT_INO name (Some i)"
    and "p \<noteq> 0" and "\<forall>j < MAXFILES. ofile m p j \<noteq> 0" and "read32 m (p + 88) = 0" and "span p 104 \<inter> H = {}"
    and "span (dir_tbl k + 132 * i) 4 \<inter> (span p 104 \<union> H) = {}"
    and "ip = ino_tbl k + 36 * read32 m (dir_tbl k + 132 * i)" and "span (ip + 8) 4 \<inter> (span p 104 \<union> H) = {}"
    and "read32 m (ip + 8) = major_code FRAMEBUFFER"
  shows "\<exists>m'. sys_open n L k p path m = Inr (16, m') \<and> read32 m' (p + 88) \<noteq> 0 \<and> span (read32 m' (p + 88)) 12 \<subseteq> H"
proof -
  have st: "ofile m' p MAXFILES = read32 m' (p + 88)" for m' by (simp add: ofile_def MAXFILES_def add.commute)
  show ?thesis
    using sys_open_opens [OF assms(1-7) order_refl _ assms(8,10-14), of n] assms(9) unfolding st
    by (auto simp: MAXFILES_def)
qed

theorem sys_open_overwrites_state_witness:
  "\<exists>m'. sys_open 2 demo_link demo_kinfo 0x80040000 0x80050000 demo_full = Inr (16, m') \<and> read32 m' 0x80040058 \<noteq> 0"
proof -
  note n = first_named_two [OF demo_fs_names(4)]
  have k: "dir_tbl demo_kinfo = 0x80020000" "ino_tbl demo_kinfo = 0x80030000" "ino_n demo_kinfo = 3" "l_heap demo_link = 0x80000200"
    by (simp_all add: demo_kinfo_def demo_link_def)
  have "\<forall>j \<in> {0, 1, 2, 3, 4, 5, 6, 7, 8, 9, 10, 11, 12, 13, 14, 15 :: nat}. ofile demo_full 0x80040000 j \<noteq> 0"
    by (simp add: ofile_def demo_full_def mem_simps apart_def, simp add: read32_def)
  moreover have "j \<in> {0, 1, 2, 3, 4, 5, 6, 7, 8, 9, 10, 11, 12, 13, 14, 15}" if "j < MAXFILES" for j
    using that unfolding MAXFILES_def by (simp only: insert_iff empty_iff) presburger
  ultimately have "ofile demo_full 0x80040000 j \<noteq> 0" if "j < MAXFILES" for j using that by blast
  then show ?thesis
    using sys_open_overwrites_state [OF demo_fs_heap(2) [folded k(4)] _ refl demo_fs_names(3) n, of "0x80040000" "0x80030048" 2]
      demo_fs_apart demo_fs_reads
    by (fastforce simp: k)
qed

end
