(* ===== verification/Boot.thy ===== *)
theory Boot
  imports Memmap
begin

text \<open>
  Start-up: the identity mapping of \<^verbatim>\<open>kernel/paging.c\<close>, the switch to paging of
  \<^verbatim>\<open>kernel/pg_utils.S\<close> and \<^verbatim>\<open>init_trunix\<close> of \<^verbatim>\<open>kernel/init.c\<close>, which builds the memory map from the
  boot loader's information and reserves what is in use. The page directory lies in memory at
  \<open>pagedir\<close>; \<open>mmu\<close> is the translation the processor makes from it (4 MiB and 4 KiB pages), the
  specification the mappings are measured against. \<open>unpaged_end\<close> is the linker symbol
  \<^verbatim>\<open>_kernel_unpaged_end\<close>.
\<close>

section \<open>Page directories and the processor\<close>

definition PG_P :: u32 where "PG_P = 0x0001"
definition PG_RW :: u32 where "PG_RW = 0x0002"
definition PG_US :: u32 where "PG_US = 0x0004"
definition PG_PSE :: u32 where "PG_PSE = 0x0080"
definition PG_G :: u32 where "PG_G = 0x0100"

definition pg_clear :: "u32 \<Rightarrow> mem \<Rightarrow> mem" where
  "pg_clear pagedir m = memsetl m pagedir 0 1024"

definition pg_identity :: "kinfo \<Rightarrow> u32 \<Rightarrow> mem \<Rightarrow> mem" where
  "pg_identity k pagedir m =
     (let fb = ucast (framebuffer_addr (mbi k)) :: u32;
          fbsz = roundup (framebuffer_pitch (mbi k) * framebuffer_height (mbi k)) 0x400000;
          fbndx = drop_bit 22 fb;
          fbndx_end = drop_bit 22 (fb + fbsz);
          m = fold (\<lambda>i m.
                let m = write32 m (pagedir + 4 * of_nat i) (push_bit 22 (of_nat i) OR PG_PSE OR PG_RW OR PG_P) in
                if drop_bit 22 KERNEL_OFFSET \<le> of_nat i
                then write32 m (pagedir + 4 * of_nat i)
                       ((push_bit 22 (of_nat i) + KERNEL_OFFSET) OR PG_G OR PG_PSE OR PG_RW OR PG_P)
                else m) [0 ..< 1024] m in
      fold (\<lambda>i m. write32 m (pagedir + 4 * of_nat i) (push_bit 22 (of_nat i) OR PG_PSE OR PG_RW OR PG_P OR PG_RW))
        [unat fbndx ..< unat fbndx_end] m)"

record cpu =
  cr0 :: u32
  cr3 :: u32
  cr4 :: u32

definition vm_enable_paging :: "u32 \<Rightarrow> cpu \<Rightarrow> cpu" where
  "vm_enable_paging pd c = c\<lparr> cr3 := pd, cr4 := cr4 c OR 0x90, cr0 := cr0 c OR 0x80010000 \<rparr>"

text \<open>What the processor does with a page directory.\<close>

definition mmu :: "mem \<Rightarrow> u32 \<Rightarrow> u32 \<Rightarrow> u32 option" where
  "mmu m pd va =
     (let pde = read32 m (pd + 4 * drop_bit 22 va) in
      if pde AND PG_P = 0 then None
      else if pde AND PG_PSE \<noteq> 0 then Some (pde AND 0xFFC00000 OR va AND 0x3FFFFF)
      else let pte = read32 m ((pde AND 0xFFFFF000) + 4 * (drop_bit 12 va AND 0x3FF)) in
        if pte AND PG_P = 0 then None
        else Some (pte AND 0xFFFFF000 OR va AND 0xFFF))"

definition kernel_physical_base :: u32 where
  "kernel_physical_base = 0x00400000"

function pg_clear_identity_from :: "u32 \<Rightarrow> u32 \<Rightarrow> nat \<Rightarrow> mem \<Rightarrow> mem" where
  "pg_clear_identity_from unpaged_end pagedir i m =
     (if i < 1024
      then if unat (drop_bit 22 kernel_physical_base) < i \<or>
              i < unat (drop_bit 22 (KERNEL_OFFSET + unpaged_end))
           then pg_clear_identity_from unpaged_end pagedir (i + 1) m
           else pg_clear_identity_from unpaged_end pagedir (i + 2) (write32 m (pagedir + 4 * of_nat i) 0)
      else m)"
  by pat_completeness auto
termination
  by (relation "measure (\<lambda>(unpaged_end, pagedir, i, m). 1024 - i)") auto

declare pg_clear_identity_from.simps [simp del]

definition pg_clear_identity :: "u32 \<Rightarrow> cpu \<Rightarrow> mem \<Rightarrow> u32 \<times> mem" where
  "pg_clear_identity unpaged_end c m =
     (let pagedir = p2v (cr3 c) in (pagedir, pg_clear_identity_from unpaged_end pagedir 0 m))"

definition pg_enable :: "u32 \<Rightarrow> cpu \<Rightarrow> cpu" where
  "pg_enable pagedir c = vm_enable_paging pagedir c"

section \<open>Start-up\<close>

definition MULTIBOOT_BOOTLOADER_MAGIC :: u32 where
  "MULTIBOOT_BOOTLOADER_MAGIC = 0x2BADB002"

text \<open>The fields of \<^verbatim>\<open>struct multiboot_info\<close> at their offsets.\<close>

definition read_mbi :: "mem \<Rightarrow> u32 \<Rightarrow> multiboot_info" where
  "read_mbi m a = \<lparr> mbi_flags = read32 m a, mem_lower = read32 m (a + 4), mem_upper = read32 m (a + 8),
     boot_device = read32 m (a + 12), cmdline = read32 m (a + 16), mods_count = read32 m (a + 20),
     mods_addr = read32 m (a + 24),
     mbi_u = (read32 m (a + 28), read32 m (a + 32), read32 m (a + 36), read32 m (a + 40)),
     mmap_length = read32 m (a + 44), mmap_addr = read32 m (a + 48), drives_length = read32 m (a + 52),
     drives_addr = read32 m (a + 56), config_table = read32 m (a + 60), boot_loader_name = read32 m (a + 64),
     apm_table = read32 m (a + 68), vbe_control_info = read32 m (a + 72), vbe_mode_info = read32 m (a + 76),
     vbe_mode = read16 m (a + 80), vbe_interface_seg = read16 m (a + 82), vbe_interface_off = read16 m (a + 84),
     vbe_interface_len = read16 m (a + 86), framebuffer_addr = read64 m (a + 88),
     framebuffer_pitch = read32 m (a + 96), framebuffer_width = read32 m (a + 100),
     framebuffer_height = read32 m (a + 104), framebuffer_bpp = m (a + 108), framebuffer_type = m (a + 109),
     framebuffer_colors = (read32 m (a + 112), read32 m (a + 116)) \<rparr>"

text \<open>The loop over the boot loader's map advances by the size field of each entry, so on a malformed
  map it need not end.\<close>

partial_function (option) scan_mmap :: "mem \<Rightarrow> u32 \<Rightarrow> u32 \<Rightarrow> u32 \<Rightarrow> kinfo \<Rightarrow> kinfo res option" where
  "scan_mmap mem base len m k =
     (if m < len
      then let mmap = base + m;
               r = (if read32 mem (mmap + 20) = MULTIBOOT_MEMORY_AVAILABLE
                    then add_memmap k (read64 mem (mmap + 4)) (read64 mem (mmap + 12)) else Inr k) in
        if isl r then Some r
        else scan_mmap mem base len (m + (read32 mem mmap + 4)) (projr r)
      else Some (Inr k))"

text \<open>\<^verbatim>\<open>FLAGS\<close> is not parenthesised, so \<^verbatim>\<open>mb_info->flags & FLAGS\<close> is
  \<^verbatim>\<open>(mb_info->flags & 0x40) | 0x1000\<close>.\<close>

definition init_trunix :: "u32 \<Rightarrow> u32 \<Rightarrow> u32 \<Rightarrow> u32 \<Rightarrow> mem \<Rightarrow> cpu \<Rightarrow> kinfo \<Rightarrow> (kinfo option \<times> mem \<times> cpu) res" where
  "init_trunix unpaged_end pagedir mb_info magic m c k =
     (if magic \<noteq> MULTIBOOT_BOOTLOADER_MAGIC then Inr (None, m, c)
      else if (read32 m mb_info AND 0x40) OR 0x1000 = 0 then Inr (None, m, c)
      else let mb = read_mbi m mb_info;
               k = k\<lparr> mbi := mb \<rparr> in
        bindE (ends (scan_mmap m (mmap_addr mb) (mmap_length mb) 0 k)) (\<lambda>r. bindE r (\<lambda>k.
        bindE (cut_memmap k kernel_physical_base unpaged_end) (\<lambda>k.
        bindE (cut_memmap k 0x0000 0x1000) (\<lambda>k.
        let fs = mods_addr mb;
            k = k\<lparr> initrd_start := read32 m fs, initrd_end := read32 m (fs + 4) \<rparr> in
        bindE (cut_memmap k (initrd_start k) (initrd_end k)) (\<lambda>k.
        let m = pg_clear pagedir m;
            m = pg_identity k pagedir m;
            c = pg_enable pagedir c in
        Inr (Some k, m, c)))))))"

section \<open>Tables\<close>

lemma slot_apart:
  assumes "i < 1024" and "j < 1024" and "i \<noteq> j"
  shows "apart (b + 4 * of_nat i) 4 (b + 4 * of_nat j :: u32) 4"
proof -
  have u: "unat (4 * of_nat i :: u32) = 4 * i" "unat (4 * of_nat j :: u32) = 4 * j"
    using assms(1,2) by (simp_all add: unat_word_ariths unat_of_nat)
  have "unat (4 * of_nat j - 4 * of_nat i :: u32) = (if i \<le> j then 4 * j - 4 * i else 4 * j + 4294967296 - 4 * i)"
    "unat (4 * of_nat i - 4 * of_nat j :: u32) = (if j \<le> i then 4 * i - 4 * j else 4 * i + 4294967296 - 4 * j)"
    using u by (simp_all add: u32_sub)
  then show ?thesis using assms by (cases "i \<le> j"; simp add: apart_def; linarith)
qed

lemma fold_table:
  assumes "i < 1024" and "\<forall>j \<in> set js. j < 1024"
    and "\<And>j m. j \<in> set js \<Longrightarrow> \<exists>m'. g j m = write32 m' (b + 4 * of_nat j) (f j) \<and>
      (\<forall>i. i < 1024 \<longrightarrow> i \<noteq> j \<longrightarrow> read32 m' (b + 4 * of_nat i) = read32 m (b + 4 * of_nat i))"
  shows "read32 (fold g js m) (b + 4 * of_nat i) = (if i \<in> set js then f i else read32 m (b + 4 * of_nat i))"
  using assms(2,3)
proof (induction js arbitrary: m)
  case (Cons j js)
  obtain m' where m': "g j m = write32 m' (b + 4 * of_nat j) (f j)"
      "\<forall>i. i < 1024 \<longrightarrow> i \<noteq> j \<longrightarrow> read32 m' (b + 4 * of_nat i) = read32 m (b + 4 * of_nat i)"
    using Cons.prems(2) [of j m] by auto
  have "read32 (g j m) (b + 4 * of_nat i) = (if i = j then f i else read32 m (b + 4 * of_nat i))"
    using m' slot_apart [of j i b] Cons.prems(1) assms(1) by (auto simp: mem_simps)
  moreover have "read32 (fold g js (g j m)) (b + 4 * of_nat i)
      = (if i \<in> set js then f i else read32 (g j m) (b + 4 * of_nat i))"
    using Cons.prems by (intro Cons.IH) auto
  ultimately show ?case by (auto split: if_splits)
qed simp

lemmas pg_flags = PG_P_def PG_RW_def PG_US_def PG_PSE_def PG_G_def

definition identity_pde :: "nat \<Rightarrow> u32" where
  "identity_pde i = push_bit 22 (of_nat i) OR 0x83"

definition kernel_pde :: "nat \<Rightarrow> u32" where
  "kernel_pde i = (push_bit 22 (of_nat i) + 0x80000000) OR 0x183"

lemma koffset: "KERNEL_OFFSET = 0x80000000" "drop_bit 22 KERNEL_OFFSET = 0x200"
  by (simp_all add: KERNEL_OFFSET_def)

lemma unat_drop22: "unat (drop_bit 22 (x :: u32)) = unat x div 4194304"
  by (simp only: unat_drop_bit_eq) (simp add: drop_bit_eq_div)

lemma pd_index: "unat (drop_bit 22 (x :: u32)) < 1024"
  unfolding unat_drop22 using unat_lt32 [of x] by (intro less_mult_imp_div_less) simp

lemma pg_identity_entry:
  fixes k pagedir
  defines "fb \<equiv> ucast (framebuffer_addr (mbi k)) :: u32"
  defines "lo \<equiv> unat (drop_bit 22 fb)"
    and "hi \<equiv> unat (drop_bit 22 (fb + roundup (framebuffer_pitch (mbi k) * framebuffer_height (mbi k)) 0x400000))"
  assumes i: "i < 1024"
  shows "read32 (pg_identity k pagedir m) (pagedir + 4 * of_nat i) =
    (if lo \<le> i \<and> i < hi then identity_pde i else if i < 512 then identity_pde i else kernel_pde i)"
proof -
  have hi: "hi \<le> 1024"
    using pd_index [of "fb + roundup (framebuffer_pitch (mbi k) * framebuffer_height (mbi k)) 0x400000"]
    unfolding hi_def by (rule less_imp_le)
  let ?g = "\<lambda>i m. let m = write32 m (pagedir + 4 * of_nat i) (push_bit 22 (of_nat i) OR PG_PSE OR PG_RW OR PG_P) in
                if drop_bit 22 KERNEL_OFFSET \<le> of_nat i
                then write32 m (pagedir + 4 * of_nat i)
                       ((push_bit 22 (of_nat i) + KERNEL_OFFSET) OR PG_G OR PG_PSE OR PG_RW OR PG_P)
                else m"
  let ?f = "\<lambda>i. if i < 512 then identity_pde i else kernel_pde i"
  have le: "drop_bit 22 KERNEL_OFFSET \<le> (of_nat j :: u32) \<longleftrightarrow> \<not> j < 512" if "j < 1024" for j
    using that by (simp add: koffset word_le_nat_alt unat_of_nat not_less)
  have "read32 (fold ?g [0 ..< 1024] m) (pagedir + 4 * of_nat i) =
      (if i \<in> set [0 ..< 1024] then ?f i else read32 m (pagedir + 4 * of_nat i))"
  proof (rule fold_table [OF i])
    fix j m assume "j \<in> set [0 ..< 1024]"
    then have j: "j < 1024" by simp
    let ?m = "if j < 512 then m else write32 m (pagedir + 4 * of_nat j) (push_bit 22 (of_nat j) OR PG_PSE OR PG_RW OR PG_P)"
    show "\<exists>m'. ?g j m = write32 m' (pagedir + 4 * of_nat j) (?f j) \<and>
      (\<forall>i. i < 1024 \<longrightarrow> i \<noteq> j \<longrightarrow> read32 m' (pagedir + 4 * of_nat i) = read32 m (pagedir + 4 * of_nat i))"
      using slot_apart [OF j, of _ pagedir] le [OF j]
      by (intro exI [of _ ?m]) (auto simp: Let_def identity_pde_def kernel_pde_def pg_flags koffset(1) or.assoc mem_simps)
  qed simp
  moreover have "read32 (fold (\<lambda>i m. write32 m (pagedir + 4 * of_nat i)
        (push_bit 22 (of_nat i) OR PG_PSE OR PG_RW OR PG_P OR PG_RW)) [lo ..< hi] m') (pagedir + 4 * of_nat i) =
      (if i \<in> set [lo ..< hi] then identity_pde i else read32 m' (pagedir + 4 * of_nat i))" for m'
    using hi by (intro fold_table [OF i]) (auto simp: identity_pde_def pg_flags or.assoc)
  ultimately show ?thesis
    using i by (simp add: pg_identity_def Let_def lo_def hi_def fb_def)
qed

lemma big_page: "((push_bit 22 x :: u32) OR f) AND 0xFFC00000 = push_bit 22 x" if "drop_bit 22 f = 0"
proof -
  have m: "(0xFFC00000 :: u32) = NOT (mask 22)" by (simp add: mask_eq_exp_minus_1)
  have "\<not> bit f n" if "22 \<le> n" for n
  proof -
    have "bit f n \<longleftrightarrow> bit (drop_bit 22 f) (n - 22)" using that by (simp add: bit_simps)
    then show ?thesis using \<open>drop_bit 22 f = 0\<close> by simp
  qed
  then show ?thesis unfolding m by (intro bit_word_eqI) (auto simp: bit_simps)
qed

lemma page_split: "push_bit 22 (drop_bit 22 va) OR (va AND 0x3FFFFF) = (va :: u32)"
proof -
  have m: "(0x3FFFFF :: u32) = mask 22" by (simp add: mask_eq_exp_minus_1)
  show ?thesis unfolding m by (intro bit_word_eqI) (auto simp: bit_simps)
qed

lemma unat_page: "unat (push_bit 22 (drop_bit 22 (x :: u32))) = unat x div 4194304 * 4194304"
proof -
  have "unat x div 4194304 * 4194304 < 4294967296"
    using unat_lt32 [of x] div_times_less_eq_dividend [of "unat x" 4194304] by linarith
  then show ?thesis
    by (simp add: push_bit_eq_mult unat_word_ariths unat_drop22)
qed

lemma v2p_take: "v2p x = take_bit 31 x"
proof -
  have "NOT KERNEL_OFFSET = mask 31" by (simp add: koffset mask_eq_exp_minus_1)
  then show ?thesis by (simp add: v2p_def take_bit_eq_mask)
qed

lemma v2p_offset: "v2p va AND 0x3FFFFF = va AND 0x3FFFFF"
proof -
  have m: "(0x3FFFFF :: u32) = mask 22" by (simp add: mask_eq_exp_minus_1)
  show ?thesis unfolding m v2p_take by (intro bit_word_eqI) (auto simp: bit_simps)
qed

lemma unat_v2p: "unat (v2p x) = unat x mod 2147483648"
proof -
  have "unat (v2p x) = take_bit 31 (unat x)" by (simp add: v2p_take unsigned_take_bit_eq)
  then show ?thesis by (simp add: take_bit_eq_mod)
qed

lemma v2p_low: "va < 0x80000000 \<Longrightarrow> v2p va = va"
  by (simp add: word_unat_eq_iff unat_v2p word_less_nat_alt)

lemma v2p_page:
  assumes "0x80000000 \<le> va"
  shows "push_bit 22 (drop_bit 22 va) + 0x80000000 = push_bit 22 (drop_bit 22 (v2p va))"
proof -
  obtain q where q: "unat va = q + 512 * 4194304"
    using assms le_Suc_ex [of "512 * 4194304" "unat va"] by (auto simp: word_le_nat_alt)
  then have ql: "q < 2147483648" using unat_lt32 [of va] by linarith
  have "(q + 512 * 4194304) div 4194304 = 512 + q div 4194304" by (rule div_mult_self1) simp
  then have "(q + 512 * 4194304) div 4194304 * 4194304 = q div 4194304 * 4194304 + 2147483648"
    by (simp only:) simp
  moreover have "q div 4194304 * 4194304 < 2147483648"
    using ql div_times_less_eq_dividend [of q 4194304] by linarith
  moreover have "unat (v2p va) = q" using q ql by (simp add: unat_v2p)
  ultimately show ?thesis
    unfolding word_unat_eq_iff u32_add unat_page q by simp
qed

section \<open>What is mapped where\<close>

lemma mmu_big_page:
  assumes "read32 m (pd + 4 * drop_bit 22 va) = push_bit 22 p OR f" and "drop_bit 22 f = 0"
    and "(push_bit 22 p OR f) AND PG_P \<noteq> 0" and "(push_bit 22 p OR f) AND PG_PSE \<noteq> 0"
  shows "mmu m pd va = Some (push_bit 22 p OR va AND 0x3FFFFF)"
  using assms by (simp add: mmu_def big_page)

lemma big_page_present: "(push_bit 22 x OR 0x83 :: u32) AND PG_P \<noteq> 0" "(push_bit 22 x OR 0x83 :: u32) AND PG_PSE \<noteq> 0"
  "(push_bit 22 x OR 0x183 :: u32) AND PG_P \<noteq> 0" "(push_bit 22 x OR 0x183 :: u32) AND PG_PSE \<noteq> 0"
  by (simp_all add: pg_flags bit.conj_disj_distrib2)

text \<open>C13: after \<^verbatim>\<open>pg_identity\<close> every virtual address is mapped: an address of a 4 MiB page of the
  framebuffer to itself, any other one to the address without the kernel offset (so the lower half
  to itself and the upper half to the lower half of physical memory).\<close>

theorem pg_identity_maps:
  fixes k pagedir va
  defines "fb \<equiv> ucast (framebuffer_addr (mbi k)) :: u32"
  defines "lo \<equiv> drop_bit 22 fb"
    and "hi \<equiv> drop_bit 22 (fb + roundup (framebuffer_pitch (mbi k) * framebuffer_height (mbi k)) 0x400000)"
  shows "mmu (pg_identity k pagedir m) pagedir va =
    Some (if lo \<le> drop_bit 22 va \<and> drop_bit 22 va < hi then va else v2p va)"
proof -
  let ?i = "unat (drop_bit 22 va)"
  have half: "va < 0x80000000 \<longleftrightarrow> ?i < 512"
    unfolding unat_drop22 by (simp add: word_less_nat_alt div_less_iff_less_mult)
  have e: "read32 (pg_identity k pagedir m) (pagedir + 4 * drop_bit 22 va) =
    (if lo \<le> drop_bit 22 va \<and> drop_bit 22 va < hi then identity_pde ?i
     else if va < 0x80000000 then identity_pde ?i else kernel_pde ?i)"
    using pg_identity_entry [OF pd_index [of va], of k pagedir m] half
    by (simp add: fb_def lo_def hi_def word_le_nat_alt word_less_nat_alt)
  show ?thesis
  proof (cases "(lo \<le> drop_bit 22 va \<and> drop_bit 22 va < hi) \<or> va < 0x80000000")
    case True
    then have "read32 (pg_identity k pagedir m) (pagedir + 4 * drop_bit 22 va) = push_bit 22 (drop_bit 22 va) OR 0x83"
      using e by (auto simp: identity_pde_def)
    from mmu_big_page [OF this _ big_page_present(1,2)] show ?thesis
      using True by (auto simp: page_split v2p_low)
  next
    case False
    then have "read32 (pg_identity k pagedir m) (pagedir + 4 * drop_bit 22 va)
        = push_bit 22 (drop_bit 22 (v2p va)) OR 0x183"
      using e v2p_page [of va] by (auto simp: kernel_pde_def not_less)
    from mmu_big_page [OF this _ big_page_present(3,4)] show ?thesis
      using False page_split [of "v2p va"] by (auto simp: v2p_offset)
  qed
qed

text \<open>\<^verbatim>\<open>pg_clear_identity\<close> unmaps at most one 4 MiB page, the one of the physical kernel base, and
  only when the unpaged part of the kernel ends in it; every other entry of the identity mapping
  stays.\<close>

theorem pg_clear_identity_clears:
  fixes unpaged_end c
  defines "top_pde \<equiv> drop_bit 22 (KERNEL_OFFSET + unpaged_end)"
  assumes "1 \<le> top_pde"
  shows "pg_clear_identity unpaged_end c m =
    (p2v (cr3 c), if top_pde = 1 then write32 m (p2v (cr3 c) + 4) 0 else m)"
proof -
  let ?L = "\<lambda>i m. pg_clear_identity_from unpaged_end (p2v (cr3 c)) i m"
  have b: "unat (drop_bit 22 kernel_physical_base) = 1" by (simp add: kernel_physical_base_def)
  have tail: "2 \<le> i \<Longrightarrow> ?L i m = m" for i m
  proof (induction "1024 - i" arbitrary: i)
    case 0
    then show ?case by (subst pg_clear_identity_from.simps) simp
  next
    case (Suc n)
    then show ?case by (subst pg_clear_identity_from.simps) (simp add: b)
  qed
  have l: "1 \<le> unat top_pde" "top_pde = 1 \<longleftrightarrow> \<not> 1 < unat top_pde"
    using assms(2) by (auto simp: word_le_nat_alt word_unat_eq_iff)
  have "?L 0 m = ?L 1 m"
    using l(1) by (subst pg_clear_identity_from.simps) (simp add: top_pde_def)
  also have "\<dots> = (if top_pde = 1 then write32 m (p2v (cr3 c) + 4) 0 else m)"
    using l(2) tail by (subst pg_clear_identity_from.simps) (simp add: b top_pde_def numeral_2_eq_2)
  finally show ?thesis by (simp add: pg_clear_identity_def Let_def)
qed

theorem pg_clear_identity_clears_witness:
  "pg_clear_identity 0x80456000 \<lparr> cr0 = 0, cr3 = 0x403000, cr4 = 0 \<rparr> (\<lambda>_. 1) =
     (0x80403000, write32 (\<lambda>_. 1) 0x80403004 0)"
proof -
  have "p2v 0x403000 = 0x80403000" by (simp add: p2v_def koffset)
  then show ?thesis
    using pg_clear_identity_clears [of "0x80456000" "\<lparr> cr0 = 0, cr3 = 0x403000, cr4 = 0 \<rparr>" "\<lambda>_. 1"]
    by (simp add: koffset)
qed

lemma flags_nonzero: "(x AND 0x40) OR 0x1000 \<noteq> (0 :: u32)"
proof
  assume "(x AND 0x40) OR 0x1000 = 0"
  moreover have "((x AND 0x40) OR 0x1000) AND 0x1000 = 0x1000"
    by (simp add: bit.conj_disj_distrib2 and.assoc)
  ultimately show False by simp
qed

lemma avail_mbi [simp]: "avail (k\<lparr> initrd_start := x, initrd_end := y \<rparr>) = avail k"
  "memmap_ok (k\<lparr> initrd_start := x, initrd_end := y \<rparr>) = memmap_ok k"
  "used_slots (k\<lparr> initrd_start := x, initrd_end := y \<rparr>) = used_slots k"
  by (simp_all add: avail_def memmap_ok_def used_slots_def)

text \<open>Memory as a boot loader may leave it: the information at 0x1000, one module, one region.\<close>

definition demo_boot :: mem where
  "demo_boot = write32 (write32 (write32 (write32 (write32 (write32 (write32 (write32 (write32
     (write32 (write32 (write32 (\<lambda>_. 0) 0x1000 0x1240) 0x1018 0x2000) 0x102C 24) 0x1030 0x3000)
     0x2000 0x500000) 0x2004 0x501000) 0x3000 20) 0x3004 0x100000) 0x3008 0) 0x300C 0x700000) 0x3010 0)
     0x3014 1"

lemma demo_boot_reads:
  "mods_addr (read_mbi demo_boot 0x1000) = 0x2000" "mmap_length (read_mbi demo_boot 0x1000) = 24"
  "mmap_addr (read_mbi demo_boot 0x1000) = 0x3000"
  "read32 demo_boot 0x2000 = 0x500000" "read32 demo_boot 0x2004 = 0x501000"
  "read32 demo_boot 0x3000 = 20" "read64 demo_boot 0x3004 = 0x100000" "read64 demo_boot 0x300C = 0x700000"
  "read32 demo_boot 0x3014 = 1"
  by (simp_all add: demo_boot_def read_mbi_def read64_def mem_simps apart_def)

lemma demo_boot_scan:
  "\<exists>k1. scan_mmap demo_boot 0x3000 24 0 (kinfo0\<lparr> mbi := b \<rparr>) = Some (Inr k1) \<and> memmap_ok k1 \<and>
     used_slots k1 = 1 \<and> avail k1 = {0x100000 ..< 0x800000}"
proof -
  have k0: "memmap_ok (kinfo0\<lparr> mbi := b \<rparr>)" "free_slots (kinfo0\<lparr> mbi := b \<rparr>) = 32"
    "avail (kinfo0\<lparr> mbi := b \<rparr>) = {}"
    using kinfo0_ok by (simp_all add: memmap_ok_def free_slots_def avail_def)
  obtain k1 where k1: "add_memmap (kinfo0\<lparr> mbi := b \<rparr>) 0x100000 0x700000 = Inr k1" "memmap_ok k1"
      "avail k1 = {0x100000 ..< 0x800000}" "free_slots k1 = 31"
    using add_memmap_effect [OF k0(1), of "0x100000" "0x700000"] k0(2,3) by auto
  then have "used_slots k1 = 1" using slots(1) [of k1] by (simp add: MAXMEMMAP_def)
  moreover have "scan_mmap demo_boot 0x3000 24 0 (kinfo0\<lparr> mbi := b \<rparr>) = Some (Inr k1)"
    using k1(1) demo_boot_reads
    by (subst scan_mmap.simps, subst scan_mmap.simps) (simp add: MULTIBOOT_MEMORY_AVAILABLE_def)
  ultimately show ?thesis using k1 by blast
qed

text \<open>C12: \<^verbatim>\<open>init_trunix\<close> returns, and the memory it offers afterwards is what the boot loader's map
  offers less the pages of the unpaged kernel, the first page and the pages of the initial ramdisk;
  paging is on with the directory \<^verbatim>\<open>pg_identity\<close> built.\<close>

theorem init_trunix_reserves:
  fixes m mb_info unpaged_end
  defines "mb \<equiv> read_mbi m mb_info"
  defines "reserved \<equiv> {unat (pg_rounddown kernel_physical_base) ..< unat (pg_roundup unpaged_end)} \<union> {0 ..< 4096} \<union>
     {unat (pg_rounddown (read32 m (mods_addr mb))) ..< unat (pg_roundup (read32 m (mods_addr mb + 4)))}"
  assumes scan: "scan_mmap m (mmap_addr mb) (mmap_length mb) 0 (kinfo0\<lparr> mbi := mb \<rparr>) = Some (Inr k1)"
    and ok: "memmap_ok k1" and few: "8 * used_slots k1 \<le> MAXMEMMAP"
  shows "\<exists>k' m' c'. init_trunix unpaged_end pagedir mb_info MULTIBOOT_BOOTLOADER_MAGIC m c kinfo0 = Inr (Some k', m', c') \<and>
    memmap_ok k' \<and> avail k' = avail k1 - reserved \<and> cr3 c' = pagedir \<and>
    m' = pg_identity k' pagedir (pg_clear pagedir m)"
proof -
  have page0: "pg_rounddown 0 = 0" "pg_roundup 0x1000 = 0x1000"
    by (simp_all add: pg_rounddown_def rounddown_def pg_roundup_def roundup_def)
  obtain k2 where k2: "cut_memmap k1 kernel_physical_base unpaged_end = Inr k2" "memmap_ok k2"
      "avail k2 = avail k1 - {unat (pg_rounddown kernel_physical_base) ..< unat (pg_roundup unpaged_end)}"
      "used_slots k2 \<le> 2 * used_slots k1"
    using cut_memmap_range [OF ok, of kernel_physical_base unpaged_end] few by auto
  obtain k3 where k3: "cut_memmap k2 0 0x1000 = Inr k3" "memmap_ok k3"
      "avail k3 = avail k2 - {0 ..< 4096}" "used_slots k3 \<le> 2 * used_slots k2"
    using cut_memmap_range [OF k2(2), of 0 "0x1000"] few k2(4) by (auto simp: page0)
  let ?k3 = "k3\<lparr> initrd_start := read32 m (mods_addr mb), initrd_end := read32 m (mods_addr mb + 4) \<rparr>"
  obtain k4 where k4: "cut_memmap ?k3 (read32 m (mods_addr mb)) (read32 m (mods_addr mb + 4)) = Inr k4" "memmap_ok k4"
      "avail k4 = avail k3 - {unat (pg_rounddown (read32 m (mods_addr mb))) ..< unat (pg_roundup (read32 m (mods_addr mb + 4)))}"
    using cut_memmap_range [of ?k3 "read32 m (mods_addr mb)" "read32 m (mods_addr mb + 4)"] k3(2,4) few k2(4) by auto
  have "init_trunix unpaged_end pagedir mb_info MULTIBOOT_BOOTLOADER_MAGIC m c kinfo0 =
      Inr (Some k4, pg_identity k4 pagedir (pg_clear pagedir m), pg_enable pagedir c)"
    using scan k2(1) k3(1) k4(1) by (simp add: init_trunix_def Let_def mb_def flags_nonzero)
  moreover have "avail k4 = avail k1 - reserved"
    unfolding k4(3) k3(3) k2(3) reserved_def by blast
  ultimately show ?thesis using k4(2) by (auto simp: pg_enable_def vm_enable_paging_def)
qed

theorem init_trunix_reserves_witness:
  "\<exists>k' m' c'. init_trunix 0x456000 0x400000 0x1000 MULTIBOOT_BOOTLOADER_MAGIC demo_boot
       \<lparr> cr0 = 0, cr3 = 0, cr4 = 0 \<rparr> kinfo0 = Inr (Some k', m', c') \<and>
     avail k' = {0x100000 ..< 0x400000} \<union> {0x456000 ..< 0x500000} \<union> {0x501000 ..< 0x800000}"
proof -
  obtain k1 where k1: "scan_mmap demo_boot 0x3000 24 0 (kinfo0\<lparr> mbi := read_mbi demo_boot 0x1000 \<rparr>) = Some (Inr k1)"
    "memmap_ok k1" "used_slots k1 = 1" "avail k1 = {0x100000 ..< 0x800000}"
    using demo_boot_scan by blast
  have r: "pg_rounddown kernel_physical_base = 0x400000" "pg_roundup 0x456000 = 0x456000"
    "pg_rounddown 0x500000 = 0x500000" "pg_roundup 0x501000 = 0x501000"
    by (simp_all add: kernel_physical_base_def pg_rounddown_def rounddown_def pg_roundup_def roundup_def)
  have "{0x100000 ..< 0x800000} - ({0x400000 ..< 0x456000} \<union> {0 ..< 4096} \<union> {0x500000 ..< 0x501000}) =
    {0x100000 ..< 0x400000} \<union> {0x456000 ..< 0x500000} \<union> {0x501000 ..< 0x800000 :: nat}" by auto
  then show ?thesis
    using init_trunix_reserves [of demo_boot "0x1000" k1 "0x456000" "0x400000"] k1 r
    by (fastforce simp: demo_boot_reads MAXMEMMAP_def)
qed

text \<open>\<^verbatim>\<open>init_trunix\<close> returns NULL exactly when the magic number is wrong; it never refuses a boot
  loader that supplies no memory map or framebuffer.\<close>

theorem init_trunix_ignores_flags:
  "init_trunix unpaged_end pagedir mb_info magic m c k = Inr (None, m', c') \<longleftrightarrow>
     magic \<noteq> MULTIBOOT_BOOTLOADER_MAGIC \<and> m' = m \<and> c' = c"
  by (auto simp: init_trunix_def Let_def flags_nonzero bindE_eq_Inr)

end
