(* ===== verification/Sched.thy ===== *)
theory Sched
  imports Fs Boot
begin

text \<open>
  The scheduler of \<^verbatim>\<open>kernel/proc.c\<close> (\<^verbatim>\<open>enqueue\<close>, \<^verbatim>\<open>dequeue\<close>, \<^verbatim>\<open>yield\<close>, \<^verbatim>\<open>scheduler\<close>, \<^verbatim>\<open>sys_exit\<close>) and the
  context switch of \<^verbatim>\<open>kernel/switch.S\<close>. The scheduler and the processes are coroutines that switch at
  \<^verbatim>\<open>switch_to\<close>, so the body of the scheduler's loop is two operations: \<open>sched_pick\<close> up to the switch
  to the process and \<open>sched_return\<close> behind it; \<open>yield\<close> is what a process does before it switches
  back. \<open>kstep\<close> is the step relation they make up, with the events of a process (being preempted by
  the timer, exiting, forking, doing anything else) as labels. The specification \<open>astep\<close> is the same
  machine over a plain list of processes and their states; \<open>sched_rel\<close> relates the two.

  A \<^verbatim>\<open>struct proc\<close> has 104 bytes: \<^verbatim>\<open>pid\<close> at offset 0, \<^verbatim>\<open>cr3\<close> at 4, \<^verbatim>\<open>kstack\<close> at 8, \<^verbatim>\<open>mmap_base\<close> at 12,
  \<^verbatim>\<open>context\<close> at 16, \<^verbatim>\<open>tf\<close> at 20, \<^verbatim>\<open>ofile\<close> at 24, \<^verbatim>\<open>state\<close> at 88, \<^verbatim>\<open>parent\<close> at 92, \<^verbatim>\<open>entries\<close> at 96.
\<close>

section \<open>The operations\<close>

datatype pstate = RUNNING | READY | SLEEPING | BLOCKED | DEAD

fun pstate_code :: "pstate \<Rightarrow> u32" where
  "pstate_code RUNNING = 0"
| "pstate_code READY = 1"
| "pstate_code SLEEPING = 2"
| "pstate_code BLOCKED = 3"
| "pstate_code DEAD = 4"

text \<open>The memory, the static variables of \<^verbatim>\<open>proc.c\<close>, the control registers, the two fields of the task
  state segment the kernel uses and the interrupt flag.\<close>

record kernel =
  km :: mem
  curthread :: u32
  idle :: u32
  kcpu :: cpu
  tss_esp0 :: u32
  tss_ss0 :: u32
  kif :: bool

definition proc_state :: "mem \<Rightarrow> u32 \<Rightarrow> u32" where
  "proc_state m p = read32 m (p + 88)"

definition set_state :: "u32 \<Rightarrow> pstate \<Rightarrow> mem \<Rightarrow> mem" where
  "set_state p st m = write32 m (p + 88) (pstate_code st)"

definition cli :: "kernel \<Rightarrow> kernel" where
  "cli s = s\<lparr> kif := False \<rparr>"

definition write_cr3 :: "u32 \<Rightarrow> kernel \<Rightarrow> kernel" where
  "write_cr3 v s = (if cr3 (kcpu s) = v then s else s\<lparr> kcpu := (kcpu s)\<lparr> cr3 := v \<rparr> \<rparr>)"

definition enqueue :: "link \<Rightarrow> u32 \<Rightarrow> mem \<Rightarrow> mem" where
  "enqueue L task m = TAILQ_INSERT_TAIL m 96 (l_queue L) task"

definition yield :: "kernel \<Rightarrow> kernel" where
  "yield s =
     (let s = cli s in
      if proc_state (km s) (curthread s) = pstate_code RUNNING
      then s\<lparr> km := set_state (curthread s) READY (km s) \<rparr> else s)"

definition dequeue :: "kernel \<Rightarrow> kernel" where
  "dequeue s =
     (let s = cli s;
          s = s\<lparr> km := set_state (curthread s) DEAD (km s) \<rparr> in
      yield s)"

definition sys_exit :: "u32 \<Rightarrow> kernel \<Rightarrow> kernel res" where
  "sys_exit stat s =
     (let s = cli s in
      if read32 (km s) (curthread s) = 1 then Inl (Panic ''init process exiting'')
      else let s = s\<lparr> km := set_state (curthread s) DEAD (km s) \<rparr> in
        Inr (yield s))"

definition sched_pick :: "link \<Rightarrow> kernel \<Rightarrow> (u32 option \<times> kernel) res" where
  "sched_pick L s =
     (let s = cli s in
      bindE (ends (foreach_find (km s) 96 (\<lambda>p. proc_state (km s) p = pstate_code READY)
                     (TAILQ_FIRST (km s) (l_queue L)))) (\<lambda>p.
        if p = 0 then Inr (None, s\<lparr> kif := True \<rparr>)
        else let s = s\<lparr> curthread := p \<rparr>;
                 s = s\<lparr> km := TAILQ_REMOVE (km s) 96 (l_queue L) p \<rparr>;
                 s = s\<lparr> km := set_state (curthread s) RUNNING (km s) \<rparr>;
                 s = write_cr3 (read32 (km s) (curthread s + 4)) s;
                 s = s\<lparr> tss_esp0 := curthread s \<rparr> in
          Inr (Some p, s)))"

definition sched_return :: "link \<Rightarrow> u32 \<Rightarrow> kernel \<Rightarrow> kernel" where
  "sched_return L p s = s\<lparr> km := TAILQ_INSERT_TAIL (km s) 96 (l_queue L) p \<rparr>"

section \<open>The queue of processes\<close>

text \<open>What the scheduler relies on: a queue in memory that holds a list of processes, insertion at the
  tail and removal, which write only to the links, and the search for an element.\<close>

locale run_queue =
  fixes holds :: "mem \<Rightarrow> u32 list \<Rightarrow> bool" and links :: "u32 list \<Rightarrow> u32 set" and nodes :: "u32 list \<Rightarrow> bool"
    and ins :: "mem \<Rightarrow> u32 \<Rightarrow> mem" and del :: "mem \<Rightarrow> u32 \<Rightarrow> mem" and search :: "mem \<Rightarrow> (u32 \<Rightarrow> bool) \<Rightarrow> u32 option"
  assumes ins_holds: "holds m ps \<Longrightarrow> nodes (p # ps) \<Longrightarrow> p \<noteq> 0 \<Longrightarrow> holds (ins m p) (ps @ [p])"
    and ins_outside: "holds m ps \<Longrightarrow> nodes (p # ps) \<Longrightarrow> same_outside (links (p # ps)) m (ins m p)"
    and del_holds: "holds m (xs @ p # ys) \<Longrightarrow> nodes (xs @ p # ys) \<Longrightarrow> holds (del m p) (xs @ ys)"
    and del_outside: "holds m (xs @ p # ys) \<Longrightarrow> nodes (xs @ p # ys) \<Longrightarrow> same_outside (links (xs @ p # ys)) m (del m p)"
    and holds_frame: "holds m ps \<Longrightarrow> same_outside T m m' \<Longrightarrow> T \<inter> links ps = {} \<Longrightarrow> holds m' ps"
    and search_holds: "holds m ps \<Longrightarrow> search m P = Some (case find P ps of None \<Rightarrow> 0 | Some p \<Rightarrow> p)"
    and holds_nonnull: "holds m ps \<Longrightarrow> 0 \<notin> set ps"
begin

text \<open>Removing an element and putting it back at the end makes a round trip.\<close>

lemma rotate:
  assumes "holds m (xs @ p # ys)" and "nodes (xs @ p # ys)" and "nodes (p # xs @ ys)"
  shows "holds (ins (del m p) p) (xs @ ys @ [p])"
  using ins_holds [OF del_holds [OF assms(1,2)] assms(3)] holds_nonnull [OF assms(1)] by simp

end

definition proc_links :: "u32 \<Rightarrow> u32 list \<Rightarrow> u32 set" where
  "proc_links q ps = span q 8 \<union> (\<Union>p \<in> set ps. span (p + 96) 8)"

definition proc_nodes :: "u32 \<Rightarrow> u32 list \<Rightarrow> bool" where
  "proc_nodes q ps \<longleftrightarrow> (\<forall>p \<in> set ps. apart q 8 p 104) \<and> sorted_wrt (\<lambda>x y. apart x 104 y 104) ps"

lemma proc_nodes_Cons [simp]:
  "proc_nodes q (p # ps) \<longleftrightarrow> apart q 8 p 104 \<and> (\<forall>x \<in> set ps. apart p 104 x 104) \<and> proc_nodes q ps"
  by (auto simp: proc_nodes_def)

lemma proc_nodes_Nil [simp]: "proc_nodes q []"
  by (simp add: proc_nodes_def)

lemma proc_nodes_append [simp]:
  "proc_nodes q (xs @ ys) \<longleftrightarrow> proc_nodes q xs \<and> proc_nodes q ys \<and> (\<forall>x \<in> set xs. \<forall>y \<in> set ys. apart x 104 y 104)"
  by (auto simp: proc_nodes_def sorted_wrt_append)

lemma proc_nodes_sep: "proc_nodes q ps \<Longrightarrow> sep_nodes 104 q ps"
  by (auto simp: proc_nodes_def sep_nodes_def intro: apart_mono)

lemma proc_cells:
  assumes "proc_nodes q ps"
  shows "sep_cells ((q + 4) # dlcells 96 q ps)"
proof -
  have "sep_cells (dlcells 96 q ps)" by (rule sep_nodes_dlcells [OF proc_nodes_sep [OF assms]]) simp
  moreover have "apart (q + 4) 4 c 4" if "c \<in> set (dlcells 96 q ps)" for c
  proof -
    have "c = q \<or> (\<exists>p \<in> set ps. c = p + 96 \<or> c = p + 100)" using that by (auto simp: set_dlcells add.assoc)
    moreover have "apart (q + 4) 4 q 4" by (simp add: apart_def)
    moreover have "apart (q + 4) 4 (p + j) 4" if "p \<in> set ps" "unat j + 4 \<le> 104" for p j
      using that assms apart_sub [of q 8 p 104 4 4 j 4] by (auto simp: proc_nodes_def)
    ultimately show ?thesis by auto
  qed
  ultimately show ?thesis by simp
qed

lemma proc_cells_new:
  assumes "proc_nodes q (p # ps)"
  shows "sep_cells ((p + 96) # (p + 96 + 4) # (q + 4) # dlcells 96 q ps)"
proof -
  have "sep_cells ((p + 96) # (p + 96 + 4) # dlcells 96 q ps)"
    by (rule sep_nodes_new [OF proc_nodes_sep [OF assms]]) simp
  moreover have "apart (p + 96) 4 (q + 4) 4" "apart (p + 96 + 4) 4 (q + 4) 4"
    using assms apart_sub [of p 104 q 8 96 4 4 4] apart_sub [of p 104 q 8 100 4 4 4]
    by (simp_all add: apart_sym [of q] add.assoc)
  ultimately show ?thesis using proc_cells [of q ps] assms by simp
qed

lemma cells_links: "cellspan ((q + 4) # dlcells 96 q ps) \<subseteq> proc_links q ps"
proof -
  have q: "span q 4 \<subseteq> span q 8" "span (q + 4) 4 \<subseteq> span q 8" using span_sub [of 0 4 8 q] span_sub [of 4 4 8 q] by auto
  have n: "span (p + 96) 4 \<subseteq> span (p + 96) 8" "span (p + 96 + 4) 4 \<subseteq> span (p + 96) 8" for p
    using span_sub [of 0 4 8 "p + 96"] span_sub [of 4 4 8 "p + 96"] by auto
  have "span c 4 \<subseteq> proc_links q ps" if c: "c \<in> set ((q + 4) # dlcells 96 q ps)" for c
  proof -
    consider "c = q + 4 \<or> c = q" | p where "p \<in> set ps" "c = p + 96 \<or> c = p + 96 + 4"
      using c unfolding list.set set_dlcells by blast
    then show ?thesis
    proof cases
      case 1
      then have "span c 4 \<subseteq> span q 8" using q by metis
      then show ?thesis by (auto simp: proc_links_def)
    next
      case 2
      then have "span c 4 \<subseteq> span (p + 96) 8" using n [of p] by metis
      then show ?thesis using 2(1) by (auto simp: proc_links_def)
    qed
  qed
  then show ?thesis by (auto simp: cellspan_def)
qed

lemma TAILQ_INSERT_TAIL_outside:
  assumes "tailq m 96 q ps" and "proc_nodes q (p # ps)"
  shows "same_outside (proc_links q (p # ps)) m (TAILQ_INSERT_TAIL m 96 q p)"
proof -
  have c: "sep_cells ((p + 96) # (p + 96 + 4) # (q + 4) # dlcells 96 q ps)" by (rule proc_cells_new [OF assms(2)])
  have "same_outside (cellspan ((p + 96) # (p + 96 + 4) # (q + 4) # dlcells 96 q ps)) m (TAILQ_INSERT_TAIL m 96 q p)"
    using assms(1) c
    by (auto simp: list_defs TAILQ_INSERT_TAIL_def cellspan_def mem_simps intro!: same_outside_write32_in)
  moreover have "span (p + 96) 4 \<subseteq> span (p + 96) 8" "span (p + 96 + 4) 4 \<subseteq> span (p + 96) 8"
    using span_sub [of 0 4 8 "p + 96"] span_sub [of 4 4 8 "p + 96"] by auto
  then have "cellspan ((p + 96) # (p + 96 + 4) # (q + 4) # dlcells 96 q ps) \<subseteq> proc_links q (p # ps)"
    using cells_links [of q ps] by (auto simp: cellspan_def proc_links_def)
  ultimately show ?thesis by (rule same_outside_mono)
qed

lemma TAILQ_REMOVE_outside:
  assumes "tailq m 96 q (xs @ p # ys)" and "proc_nodes q (xs @ p # ys)"
  shows "same_outside (proc_links q (xs @ p # ys)) m (TAILQ_REMOVE m 96 q p)"
proof -
  have "same_outside (cellspan ((q + 4) # dlcells 96 q (xs @ p # ys))) m (TAILQ_REMOVE m 96 q p)"
    using assms(1) proc_cells [OF assms(2)]
    by (cases ys) (auto simp: list_defs TAILQ_REMOVE_def cellspan_def mem_simps intro!: same_outside_write32_in)
  then show ?thesis using cells_links by (rule same_outside_mono)
qed

lemma tailq_frame:
  assumes "tailq m 96 q ps" and "same_outside T m m'" and "T \<inter> proc_links q ps = {}"
  shows "tailq m' 96 q ps"
proof -
  have c: "T \<inter> cellspan ((q + 4) # dlcells 96 q ps) = {}" using cells_links [of q ps] assms(3) by blast
  then have "dlist m' 96 q ps" using assms(1) by (intro dlist_frame [OF _ assms(2)]) (auto simp: tailq_def cellspan_def)
  moreover have "read32 m' (q + 4) = read32 m (q + 4)"
    by (rule same_outside_read32 [OF assms(2)]) (use c in \<open>auto simp: cellspan_def\<close>)
  ultimately show ?thesis using assms(1) by (simp add: tailq_def)
qed

interpretation procs: run_queue "\<lambda>m. tailq m 96 q" "proc_links q" "proc_nodes q" "\<lambda>m. TAILQ_INSERT_TAIL m 96 q"
    "\<lambda>m. TAILQ_REMOVE m 96 q" "\<lambda>m P. foreach_find m 96 P (TAILQ_FIRST m q)" for q
proof unfold_locales
  show "tailq (TAILQ_INSERT_TAIL m 96 q p) 96 q (ps @ [p])" if "tailq m 96 q ps" "proc_nodes q (p # ps)" "p \<noteq> 0" for m ps p
    by (rule TAILQ_INSERT_TAIL_tailq [OF that(1) proc_cells_new [OF that(2)] that(3)])
  show "tailq (TAILQ_REMOVE m 96 q p) 96 q (xs @ ys)" if "tailq m 96 q (xs @ p # ys)" "proc_nodes q (xs @ p # ys)" for m xs p ys
    by (rule TAILQ_REMOVE_tailq [OF that(1) proc_cells [OF that(2)]])
  show "foreach_find m 96 P (TAILQ_FIRST m q) = Some (case find P ps of None \<Rightarrow> 0 | Some p \<Rightarrow> p)" if "tailq m 96 q ps" for m ps P
    unfolding TAILQ_FIRST_def by (rule tq.foreach_find_holds [OF that])
  show "0 \<notin> set ps" if "tailq m 96 q ps" for m ps
    using tq.nonnull [OF that] by auto
qed (fact TAILQ_INSERT_TAIL_outside TAILQ_REMOVE_outside tailq_frame)+

section \<open>The machine and its specification\<close>

datatype mode = Scheduling | Running u32 | Halted

datatype event = Dispatch u32 | Idle | Preempt | Exit | Fork u32 | Work

text \<open>The memory the scheduler depends on: the head of the queue and of every process its identifier, its
  state and its links.\<close>

definition sched_cells :: "u32 \<Rightarrow> u32 list \<Rightarrow> u32 set" where
  "sched_cells q ps = span q 8 \<union> (\<Union>p \<in> set ps. span p 4 \<union> span (p + 88) 16)"

text \<open>A running process, and the kernel on its behalf, may change any memory but these cells (\<open>k_work\<close>); a new process is enqueued once its
  structure is filled in (\<open>k_fork\<close>). That the cells are left alone is an assumption about what runs between two scheduling steps: the code
  violates it when \<^verbatim>\<open>sys_open\<close> stores a file behind the last descriptor, over the state of the process, and
  \<open>overwritten_state_halts\<close> below shows what follows. \<open>Halted\<close> is the inner loop of \<^verbatim>\<open>sti\<close> and \<^verbatim>\<open>hlt\<close>; what a timer interrupt does to
  the scheduler's own stack there depends on the compiler's stack frames, so the machine ends in it.\<close>

inductive kstep :: "link \<Rightarrow> mode \<times> kernel \<Rightarrow> event \<Rightarrow> mode \<times> kernel \<Rightarrow> bool" for L where
  k_dispatch: "sched_pick L s = Inr (Some p, s') \<Longrightarrow> kstep L (Scheduling, s) (Dispatch p) (Running p, s')"
| k_idle: "sched_pick L s = Inr (None, s') \<Longrightarrow> kstep L (Scheduling, s) Idle (Halted, s')"
| k_preempt: "kstep L (Running p, s) Preempt (Scheduling, sched_return L p (yield s))"
| k_exit: "sys_exit stat s = Inr s' \<Longrightarrow> kstep L (Running p, s) Exit (Scheduling, sched_return L p s')"
| k_work: "tailq (km s) 96 (l_queue L) ps \<Longrightarrow> same_outside T (km s) m' \<Longrightarrow> T \<inter> sched_cells (l_queue L) (p # ps) = {} \<Longrightarrow>
    kstep L (Running p, s) Work (Running p, s\<lparr> km := m' \<rparr>)"
| k_fork: "tailq (km s) 96 (l_queue L) ps \<Longrightarrow> same_outside T (km s) m' \<Longrightarrow> T \<inter> sched_cells (l_queue L) (p # ps) = {} \<Longrightarrow>
    proc_nodes (l_queue L) (n # p # ps) \<Longrightarrow> n \<noteq> 0 \<Longrightarrow> proc_state m' n = pstate_code READY \<Longrightarrow> read32 m' n \<noteq> 1 \<Longrightarrow>
    kstep L (Running p, s) (Fork n) (Running p, s\<lparr> km := enqueue L n m' \<rparr>)"

type_synonym run_list = "(u32 \<times> pstate) list"

inductive astep :: "u32 \<Rightarrow> mode \<times> run_list \<Rightarrow> event \<Rightarrow> mode \<times> run_list \<Rightarrow> bool" for init where
  a_dispatch: "\<forall>x \<in> set xs. snd x \<noteq> READY \<Longrightarrow>
    astep init (Scheduling, xs @ (p, READY) # ys) (Dispatch p) (Running p, xs @ ys)"
| a_idle: "\<forall>x \<in> set qs. snd x \<noteq> READY \<Longrightarrow> astep init (Scheduling, qs) Idle (Halted, qs)"
| a_preempt: "astep init (Running p, qs) Preempt (Scheduling, qs @ [(p, READY)])"
| a_exit: "p \<noteq> init \<Longrightarrow> astep init (Running p, qs) Exit (Scheduling, qs @ [(p, DEAD)])"
| a_work: "astep init (Running p, qs) Work (Running p, qs)"
| a_fork: "n \<notin> set (p # map fst qs) \<Longrightarrow> astep init (Running p, qs) (Fork n) (Running p, qs @ [(n, READY)])"

fun running :: "mode \<Rightarrow> u32 list" where
  "running (Running p) = [p]"
| "running _ = []"

definition procs_ok :: "u32 \<Rightarrow> mem \<Rightarrow> u32 \<Rightarrow> u32 list \<Rightarrow> bool" where
  "procs_ok q m init ps \<longleftrightarrow> proc_nodes q ps \<and> init \<in> set ps \<and> (\<forall>p \<in> set ps. p \<noteq> 0 \<and> (read32 m p = 1 \<longleftrightarrow> p = init))"

definition states_ok :: "mem \<Rightarrow> run_list \<Rightarrow> bool" where
  "states_ok m qs \<longleftrightarrow> (\<forall>(p, st) \<in> set qs. st \<in> {READY, DEAD} \<and> proc_state m p = pstate_code st)"

definition sched_rel :: "link \<Rightarrow> u32 \<Rightarrow> mode \<times> kernel \<Rightarrow> mode \<times> run_list \<Rightarrow> bool" where
  "sched_rel L init c a \<longleftrightarrow>
     (case (c, a) of ((md, s), (md', qs)) \<Rightarrow>
        md = md' \<and> tailq (km s) 96 (l_queue L) (map fst qs) \<and>
        procs_ok (l_queue L) (km s) init (running md @ map fst qs) \<and> states_ok (km s) qs \<and>
        (\<forall>p. md = Running p \<longrightarrow> curthread s = p \<and> tss_esp0 s = p \<and> proc_state (km s) p = pstate_code RUNNING))"

inductive_cases kstep_cases: "kstep L c e c'"

lemma pstate_code_eq [simp]: "pstate_code a = pstate_code b \<longleftrightarrow> a = b"
  by (cases a; cases b) auto

lemma pstate_code_numerals [simp]: "(1 = pstate_code a) = (a = READY)" "(0 = pstate_code a) = (a = RUNNING)"
  by (cases a; simp)+

section \<open>What the operations leave alone\<close>

definition proc_fields :: "u32 \<Rightarrow> u32 set" where
  "proc_fields p = span p 4 \<union> span (p + 88) 4"

lemma fields_frame:
  assumes "same_outside T m m'" and "T \<inter> proc_fields p = {}"
  shows "read32 m' p = read32 m p" and "proc_state m' p = proc_state m p"
  unfolding proc_state_def
  by (rule same_outside_read32 [OF assms(1)], use assms(2) in \<open>auto simp: proc_fields_def\<close>)+

lemma fields_in: "proc_fields p \<subseteq> span p 104" "span (p + 88) 4 \<subseteq> span p 104" "span (p + 96) 8 \<subseteq> span p 104"
  using span_sub [of 0 4 104 p] span_sub [of 88 4 104 p] span_sub [of 96 8 104 p] by (auto simp: proc_fields_def)

lemma own_fields: "span (p + 96) 8 \<inter> proc_fields p = {}" "span (p + 88) 4 \<inter> span p 4 = {}"
  "span (p + 88) 4 \<inter> span (p + 96) 8 = {}"
proof -
  have a: "apart (p + 96) 8 p 4" "apart (p + 96) 8 (p + 88) 4" "apart (p + 88) 4 p 4" "apart (p + 88) 4 (p + 96) 8"
    by (simp_all add: apart_def)
  from apart_span [OF a(1)] apart_span [OF a(2)] show "span (p + 96) 8 \<inter> proc_fields p = {}"
    by (auto simp: proc_fields_def)
  from apart_span [OF a(3)] apart_span [OF a(4)]
  show "span (p + 88) 4 \<inter> span p 4 = {}" "span (p + 88) 4 \<inter> span (p + 96) 8 = {}" by auto
qed

lemma node_pair: "proc_nodes q ps \<Longrightarrow> x \<in> set ps \<Longrightarrow> y \<in> set ps \<Longrightarrow> x \<noteq> y \<Longrightarrow> span x 104 \<inter> span y 104 = {}"
proof (induction ps)
  case (Cons z ps)
  then show ?case using apart_span by (metis Int_commute proc_nodes_Cons set_ConsD)
qed simp

lemma node_head: "proc_nodes q ps \<Longrightarrow> x \<in> set ps \<Longrightarrow> span q 8 \<inter> span x 104 = {}"
  using apart_span by (auto simp: proc_nodes_def)

lemma links_fields:
  assumes "proc_nodes q ps" and "x \<in> set ps"
  shows "proc_links q ps \<inter> proc_fields x = {}"
proof -
  have "span (y + 96) 8 \<inter> proc_fields x = {}" if "y \<in> set ps" for y
    using own_fields(1) [of x] node_pair [OF assms(1) that assms(2)] fields_in(1) [of x] fields_in(3) [of y]
    by (cases "y = x") auto
  then show ?thesis using node_head [OF assms] fields_in(1) [of x] by (auto simp: proc_links_def)
qed

lemma state_links:
  assumes "proc_nodes q ps" and "x \<in> set ps"
  shows "span (x + 88) 4 \<inter> proc_links q ps = {}"
proof -
  have "span (x + 88) 4 \<inter> span (y + 96) 8 = {}" if "y \<in> set ps" for y
    using own_fields(3) [of x] node_pair [OF assms(1) that assms(2)] fields_in(2) [of x] fields_in(3) [of y]
    by (cases "y = x") auto
  then show ?thesis using node_head [OF assms] fields_in(2) [of x] by (auto simp: proc_links_def)
qed

lemma set_state_outside: "same_outside (span (p + 88) 4) m (set_state p st m)"
  unfolding set_state_def by (rule same_outside_write32)

lemma set_state_self [simp]: "proc_state (set_state p st m) p = pstate_code st"
  by (simp add: set_state_def proc_state_def)

lemma set_state_other:
  assumes "proc_nodes q ps" and "p \<in> set ps" and "x \<in> set ps"
  shows "read32 (set_state p st m) x = read32 m x" and "x \<noteq> p \<Longrightarrow> proc_state (set_state p st m) x = proc_state m x"
proof -
  have d: "span (p + 88) 4 \<inter> proc_fields x = {}" if "x \<noteq> p"
    using node_pair [OF assms(1,2,3)] that fields_in(1) [of x] fields_in(2) [of p] by auto
  show "x \<noteq> p \<Longrightarrow> proc_state (set_state p st m) x = proc_state m x"
    using fields_frame(2) [OF set_state_outside d] by simp
  show "read32 (set_state p st m) x = read32 m x"
    using fields_frame(1) [OF set_state_outside d] same_outside_read32 [OF set_state_outside, of p p st m] own_fields(2) [of p]
    by (cases "x = p") auto
qed

lemma procs_ok_cong:
  "procs_ok q m init ps \<Longrightarrow> \<forall>p \<in> set ps. read32 m' p = read32 m p \<Longrightarrow> procs_ok q m' init ps"
  by (simp add: procs_ok_def)

lemma states_ok_cong:
  "states_ok m qs \<Longrightarrow> \<forall>p \<in> fst ` set qs. proc_state m' p = proc_state m p \<Longrightarrow> states_ok m' qs"
  by (fastforce simp: states_ok_def)


lemma tailq_unique: "tailq m f q xs \<Longrightarrow> tailq m f q ys \<Longrightarrow> xs = ys"
  using slist_unique [OF dlist_sseg dlist_sseg] by (auto simp: tailq_def)

lemma proc_nodes_distinct: "proc_nodes q ps \<Longrightarrow> distinct ps"
  using sep_nodes_distinct [OF proc_nodes_sep] by simp

lemma proc_nodes_move: "proc_nodes q (xs @ p # ys) \<longleftrightarrow> proc_nodes q (p # xs @ ys)"
  by (auto simp: apart_sym)

lemma links_step:
  assumes "same_outside (proc_links q ps) m m'" and "proc_nodes q ps" and "x \<in> set ps"
  shows "read32 m' x = read32 m x" and "proc_state m' x = proc_state m x"
  by (rule fields_frame [OF assms(1) links_fields [OF assms(2,3)]])+

lemma set_state_tailq:
  assumes "tailq m 96 q qs" and "proc_nodes q ps" and "set qs \<subseteq> set ps" and "p \<in> set ps"
  shows "tailq (set_state p st m) 96 q qs"
proof (rule tailq_frame [OF assms(1) set_state_outside])
  have "proc_links q qs \<subseteq> proc_links q ps" using assms(3) by (auto simp: proc_links_def)
  then show "span (p + 88) 4 \<inter> proc_links q qs = {}" using state_links [OF assms(2,4)] by blast
qed

text \<open>The running process is put back at the end of the queue, in its new state.\<close>

lemma put_back:
  fixes q p qs st
  defines "ps \<equiv> p # map fst qs"
  assumes "tailq m 96 q (map fst qs)" and "procs_ok q m init ps" and "states_ok m qs" and "st \<in> {READY, DEAD}"
  shows "tailq (TAILQ_INSERT_TAIL (set_state p st m) 96 q p) 96 q (map fst (qs @ [(p, st)]))"
    and "procs_ok q (TAILQ_INSERT_TAIL (set_state p st m) 96 q p) init (map fst (qs @ [(p, st)]))"
    and "states_ok (TAILQ_INSERT_TAIL (set_state p st m) 96 q p) (qs @ [(p, st)])"
proof -
  let ?m = "set_state p st m" and ?m' = "TAILQ_INSERT_TAIL (set_state p st m) 96 q p"
  have n: "proc_nodes q ps" and p: "p \<noteq> 0" using assms(3) by (auto simp: procs_ok_def ps_def)
  have t: "tailq ?m 96 q (map fst qs)" by (rule set_state_tailq [OF assms(2) n]) (auto simp: ps_def)
  from procs.ins_holds [OF t n [unfolded ps_def] p] show "tailq ?m' 96 q (map fst (qs @ [(p, st)]))" by simp
  have o: "same_outside (proc_links q ps) ?m ?m'"
    using procs.ins_outside [OF t n [unfolded ps_def]] by (simp add: ps_def)
  have pid: "read32 ?m' x = read32 m x" if "x \<in> set ps" for x
    using links_step(1) [OF o n that] set_state_other(1) [OF n _ that, of p] by (simp add: ps_def)
  have "procs_ok q m init (map fst qs @ [p])"
    using assms(3) proc_nodes_move [of q "map fst qs" p "[]"] by (auto simp: procs_ok_def ps_def)
  then show "procs_ok q ?m' init (map fst (qs @ [(p, st)]))"
    using procs_ok_cong [of q m init _ ?m'] pid by (auto simp: ps_def)
  have "proc_state ?m' x = proc_state m x" if "x \<in> fst ` set qs" for x
  proof -
    have "x \<in> set ps" "x \<noteq> p" using that proc_nodes_distinct [OF n] by (auto simp: ps_def)
    then show ?thesis using links_step(2) [OF o n] set_state_other(2) [OF n _ \<open>x \<in> set ps\<close>, of p] by (simp add: ps_def)
  qed
  then have "states_ok ?m' qs" using states_ok_cong [OF assms(4)] by blast
  moreover have "proc_state ?m' p = pstate_code st" using links_step(2) [OF o n, of p] by (simp add: ps_def)
  ultimately show "states_ok ?m' (qs @ [(p, st)])" using assms(5) by (auto simp: states_ok_def)
qed

text \<open>The scheduler takes the first process that is ready.\<close>

lemma find_ready:
  assumes "states_ok m qs"
  shows "find (\<lambda>p. proc_state m p = pstate_code READY) (map fst qs) = map_option fst (find (\<lambda>x. snd x = READY) qs)"
  using assms by (induction qs) (auto simp: states_ok_def)

lemma find_splits:
  "case find P xs of None \<Rightarrow> \<forall>x \<in> set xs. \<not> P x | Some x \<Rightarrow> P x \<and> (\<exists>us vs. xs = us @ x # vs \<and> (\<forall>u \<in> set us. \<not> P u))"
proof (induction xs)
  case (Cons y ys)
  show ?case
  proof (cases "P y")
    case False
    with Cons show ?thesis
      by (auto split: option.splits) (metis Cons_eq_appendI set_ConsD)
  qed (auto intro: exI [of _ "[]"])
qed simp

lemma take_out:
  fixes q p xs ys
  defines "ps \<equiv> map fst (xs @ (p, READY) # ys)" and "m' \<equiv> \<lambda>m. set_state p RUNNING (TAILQ_REMOVE m 96 q p)"
  assumes "tailq m 96 q ps" and "procs_ok q m init ps" and "states_ok m (xs @ (p, READY) # ys)"
  shows "tailq (m' m) 96 q (map fst (xs @ ys))" and "procs_ok q (m' m) init (p # map fst (xs @ ys))"
    and "states_ok (m' m) (xs @ ys)" and "proc_state (m' m) p = pstate_code RUNNING"
proof -
  let ?m = "TAILQ_REMOVE m 96 q p"
  have ps: "ps = map fst xs @ p # map fst ys" by (simp add: ps_def)
  have n: "proc_nodes q ps" and p: "p \<in> set ps" using assms(4) by (auto simp: procs_ok_def ps)
  have o: "same_outside (proc_links q ps) m ?m"
    using procs.del_outside [OF assms(3) [unfolded ps] n [unfolded ps]] by (simp add: ps)
  have "tailq ?m 96 q (map fst xs @ map fst ys)" by (rule procs.del_holds [OF assms(3) [unfolded ps] n [unfolded ps]])
  from set_state_tailq [OF this n _ p] show "tailq (m' m) 96 q (map fst (xs @ ys))" by (auto simp: m'_def ps)
  have pid: "read32 (m' m) x = read32 m x" if "x \<in> set ps" for x
    using links_step(1) [OF o n that] set_state_other(1) [OF n p that] by (simp add: m'_def)
  have "procs_ok q m init (p # map fst (xs @ ys))"
    using assms(4) proc_nodes_move [of q "map fst xs" p "map fst ys"] by (auto simp: procs_ok_def ps)
  then show "procs_ok q (m' m) init (p # map fst (xs @ ys))"
    by (rule procs_ok_cong) (use pid in \<open>auto simp: ps\<close>)
  have "states_ok m (xs @ ys)" using assms(5) by (auto simp: states_ok_def)
  moreover have "proc_state (m' m) x = proc_state m x" if "x \<in> fst ` set (xs @ ys)" for x
  proof -
    have "x \<in> set ps" "x \<noteq> p" using that proc_nodes_distinct [OF n] by (auto simp: ps)
    then show ?thesis using links_step(2) [OF o n] set_state_other(2) [OF n p] by (simp add: m'_def)
  qed
  ultimately show "states_ok (m' m) (xs @ ys)" using states_ok_cong by blast
  show "proc_state (m' m) p = pstate_code RUNNING" by (simp add: m'_def)
qed

section \<open>The simulation\<close>

lemma sched_relD:
  assumes "sched_rel L init (md, s) (md', qs)"
  shows "md' = md" "tailq (km s) 96 (l_queue L) (map fst qs)" "procs_ok (l_queue L) (km s) init (running md @ map fst qs)"
    "states_ok (km s) qs" "md = Running p \<Longrightarrow> curthread s = p \<and> tss_esp0 s = p \<and> proc_state (km s) p = pstate_code RUNNING"
  using assms by (auto simp: sched_rel_def)

lemma sched_pick_eq:
  assumes "sched_rel L init (Scheduling, s) (Scheduling, qs)"
  shows "sched_pick L s =
    (case find (\<lambda>x. snd x = READY) qs of
       None \<Rightarrow> Inr (None, s\<lparr> kif := True \<rparr>)
     | Some (p, _) \<Rightarrow> let m' = set_state p RUNNING (TAILQ_REMOVE (km s) 96 (l_queue L) p) in
         Inr (Some p, (write_cr3 (read32 m' (p + 4)) (s\<lparr> kif := False, curthread := p, km := m' \<rparr>))\<lparr> tss_esp0 := p \<rparr>))"
proof -
  have f: "foreach_find (km s) 96 (\<lambda>p. proc_state (km s) p = pstate_code READY) (TAILQ_FIRST (km s) (l_queue L)) =
      Some (case find (\<lambda>x. snd x = READY) qs of None \<Rightarrow> 0 | Some x \<Rightarrow> fst x)"
    unfolding procs.search_holds [OF sched_relD(2) [OF assms]] find_ready [OF sched_relD(4) [OF assms]]
    by (simp split: option.splits)
  show ?thesis
  proof (cases "find (\<lambda>x. snd x = READY) qs")
    case None
    then show ?thesis using f by (simp add: sched_pick_def cli_def)
  next
    case (Some x)
    then have "x \<in> set qs" using find_splits [of qs "\<lambda>x. snd x = READY"] by auto
    then have "fst x \<noteq> 0" using sched_relD(3) [OF assms] by (auto simp: procs_ok_def)
    then show ?thesis using f Some
      by (cases x) (simp add: sched_pick_def cli_def Let_def write_cr3_def)
  qed
qed

lemma find_first: "\<forall>x \<in> set xs. \<not> P x \<Longrightarrow> P y \<Longrightarrow> find P (xs @ y # ys) = Some y"
  by (induction xs) auto

lemma write_cr3_fields [simp]:
  "km (write_cr3 v s) = km s" "curthread (write_cr3 v s) = curthread s" "tss_esp0 (write_cr3 v s) = tss_esp0 s"
  by (simp_all add: write_cr3_def)

lemma dispatch_rel:
  assumes "sched_rel L init (Scheduling, s) (Scheduling, xs @ (p, READY) # ys)" and "\<forall>x \<in> set xs. snd x \<noteq> READY"
  shows "\<exists>s'. sched_pick L s = Inr (Some p, s') \<and> sched_rel L init (Running p, s') (Running p, xs @ ys)"
  using sched_pick_eq [OF assms(1)] find_first [of xs "\<lambda>x. snd x = READY" "(p, READY)" ys] assms(2)
    take_out [of "km s" "l_queue L" xs p ys init] sched_relD [OF assms(1)]
  by (simp add: Let_def sched_rel_def)

lemma idle_rel:
  assumes "sched_rel L init (Scheduling, s) (Scheduling, qs)" and "\<forall>x \<in> set qs. snd x \<noteq> READY"
  shows "sched_pick L s = Inr (None, s\<lparr> kif := True \<rparr>) \<and> sched_rel L init (Halted, s\<lparr> kif := True \<rparr>) (Halted, qs)"
proof -
  have "find (\<lambda>x. snd x = READY) qs = None" using assms(2) by (auto simp: find_None_iff)
  then show ?thesis using sched_pick_eq [OF assms(1)] sched_relD [OF assms(1)] by (simp add: sched_rel_def)
qed

lemma preempt_rel:
  assumes "sched_rel L init (Running p, s) (Running p, qs)"
  shows "sched_rel L init (Scheduling, sched_return L p (yield s)) (Scheduling, qs @ [(p, READY)])"
  using sched_relD [OF assms] put_back [of "km s" "l_queue L" qs init p READY]
  by (simp add: sched_rel_def sched_return_def yield_def cli_def Let_def)

lemma exit_rel:
  assumes "sched_rel L init (Running p, s) (Running p, qs)"
  shows "sys_exit stat s = (if p = init then Inl (Panic ''init process exiting'')
      else Inr (s\<lparr> kif := False, km := set_state p DEAD (km s) \<rparr>))"
    and "sched_rel L init (Scheduling, sched_return L p (s\<lparr> kif := False, km := set_state p DEAD (km s) \<rparr>)) (Scheduling, qs @ [(p, DEAD)])"
proof -
  show "sys_exit stat s = (if p = init then Inl (Panic ''init process exiting'')
      else Inr (s\<lparr> kif := False, km := set_state p DEAD (km s) \<rparr>))"
    using sched_relD [OF assms] by (auto simp: sys_exit_def yield_def cli_def procs_ok_def Let_def)
  show "sched_rel L init (Scheduling, sched_return L p (s\<lparr> kif := False, km := set_state p DEAD (km s) \<rparr>)) (Scheduling, qs @ [(p, DEAD)])"
    using sched_relD [OF assms] put_back [of "km s" "l_queue L" qs init p DEAD]
    by (simp add: sched_rel_def sched_return_def)
qed

lemma sched_cells_cover:
  assumes "T \<inter> sched_cells q ps = {}"
  shows "T \<inter> proc_links q ps = {}" and "x \<in> set ps \<Longrightarrow> T \<inter> proc_fields x = {}"
proof -
  have s: "span (p + 88) 4 \<subseteq> span (p + 88) 16" "span (p + 96) 8 \<subseteq> span (p + 88) 16" for p
    using span_sub [of 0 4 16 "p + 88"] span_sub [of 8 8 16 "p + 88"] by (auto simp: add.assoc)
  have "proc_links q ps \<subseteq> sched_cells q ps" using s by (fastforce simp: proc_links_def sched_cells_def)
  then show "T \<inter> proc_links q ps = {}" using assms by blast
  have "proc_fields x \<subseteq> sched_cells q ps" if "x \<in> set ps"
    using s that by (fastforce simp: proc_fields_def sched_cells_def)
  then show "x \<in> set ps \<Longrightarrow> T \<inter> proc_fields x = {}" using assms by blast
qed

lemma work_rel:
  assumes "sched_rel L init (Running p, s) (Running p, qs)" and "same_outside T (km s) m'"
    and "T \<inter> sched_cells (l_queue L) (p # map fst qs) = {}"
  shows "sched_rel L init (Running p, s\<lparr> km := m' \<rparr>) (Running p, qs)"
proof -
  note d = sched_relD [OF assms(1)] and c = sched_cells_cover [OF assms(3)]
  have f: "read32 m' x = read32 (km s) x" "proc_state m' x = proc_state (km s) x" if "x \<in> set (p # map fst qs)" for x
    by (rule fields_frame [OF assms(2) c(2) [OF that]])+
  have "proc_links (l_queue L) (map fst qs) \<subseteq> proc_links (l_queue L) (p # map fst qs)" by (auto simp: proc_links_def)
  then have "tailq m' 96 (l_queue L) (map fst qs)" using tailq_frame [OF d(2) assms(2)] c(1) by blast
  moreover have "procs_ok (l_queue L) m' init (p # map fst qs)"
    by (rule procs_ok_cong [OF d(3) [simplified]]) (use f(1) in auto)
  moreover have "states_ok m' qs" by (rule states_ok_cong [OF d(4)]) (use f(2) in auto)
  ultimately show ?thesis using d(5) f(2) [of p] by (simp add: sched_rel_def)
qed

lemma fork_rel:
  assumes "sched_rel L init (Running p, s) (Running p, qs)" and "proc_nodes (l_queue L) (n # p # map fst qs)" and "n \<noteq> 0"
    and "proc_state (km s) n = pstate_code READY" and "read32 (km s) n \<noteq> 1"
  shows "sched_rel L init (Running p, s\<lparr> km := enqueue L n (km s) \<rparr>) (Running p, qs @ [(n, READY)])"
proof -
  let ?m = "enqueue L n (km s)" and ?ps = "n # map fst qs" and ?q = "l_queue L"
  note d = sched_relD [OF assms(1)]
  have n: "proc_nodes ?q ?ps" using assms(2) by auto
  have t: "tailq ?m 96 ?q (map fst qs @ [n])" unfolding enqueue_def by (rule procs.ins_holds [OF d(2) n assms(3)])
  have "proc_links ?q ?ps \<subseteq> proc_links ?q (n # p # map fst qs)" by (auto simp: proc_links_def)
  with procs.ins_outside [OF d(2) n] have o: "same_outside (proc_links ?q (n # p # map fst qs)) (km s) ?m"
    unfolding enqueue_def by (rule same_outside_mono)
  have f: "read32 ?m x = read32 (km s) x" "proc_state ?m x = proc_state (km s) x" if "x \<in> set (n # p # map fst qs)" for x
    by (rule links_step [OF o assms(2) that])+
  have "procs_ok ?q (km s) init (p # map fst qs @ [n])"
    using d(3) assms(2,3,5) proc_nodes_distinct [OF assms(2)] proc_nodes_move [of ?q "p # map fst qs" n "[]"] by (auto simp: procs_ok_def)
  then have "procs_ok ?q ?m init (p # map fst qs @ [n])" by (rule procs_ok_cong) (use f(1) in auto)
  moreover have "states_ok ?m qs" by (rule states_ok_cong [OF d(4)]) (use f(2) in auto)
  then have "states_ok ?m (qs @ [(n, READY)])" using f(2) [of n] assms(4) by (auto simp: states_ok_def)
  ultimately show ?thesis using t d(5) f(2) [of p] by (simp add: sched_rel_def)
qed

section \<open>What the scheduler guarantees\<close>

definition demo_procs :: mem where
  "demo_procs = write32 (write32 (write32 (write32 (write32 (write32 (write32 (write32 (write32 (write32 (\<lambda>_. 0)
     0x80000300 0x80060000) 0x80000304 0x80070060)
     0x80060000 1) 0x80060058 1) 0x80060060 0x80070000) 0x80060064 0x80000300)
     0x80070000 2) 0x80070058 1) 0x80070060 0) 0x80070064 0x80060060"

definition demo_kernel :: kernel where
  "demo_kernel = \<lparr> km = demo_procs, curthread = 0x80050000, idle = 0x80050000, kcpu = \<lparr> cr0 = 0, cr3 = 0, cr4 = 0 \<rparr>,
     tss_esp0 = 0, tss_ss0 = 16, kif = True \<rparr>"

abbreviation demo_list :: run_list where
  "demo_list \<equiv> [(0x80060000, READY), (0x80070000, READY)]"

lemma demo_procs_queue: "tailq demo_procs 96 0x80000300 (map fst demo_list)"
  by (simp add: tailq_def dlist_def demo_procs_def mem_simps apart_def)

lemma demo_procs_ok: "procs_ok 0x80000300 demo_procs 0x80060000 (map fst demo_list)"
  by (simp add: procs_ok_def demo_procs_def mem_simps apart_def)

lemma demo_states_ok: "states_ok demo_procs demo_list"
  by (simp add: states_ok_def demo_procs_def proc_state_def mem_simps apart_def)

lemma demo_sched_rel: "sched_rel demo_link 0x80060000 (Scheduling, demo_kernel) (Scheduling, demo_list)"
  using demo_procs_queue demo_procs_ok demo_states_ok by (simp add: sched_rel_def demo_kernel_def demo_link_def)

lemma demo_dispatch: "\<exists>s. kstep demo_link (Scheduling, demo_kernel) (Dispatch 0x80060000) (Running 0x80060000, s)"
  using dispatch_rel [of demo_link "0x80060000" demo_kernel "[]" "0x80060000" "[(0x80070000, READY)]"] demo_sched_rel
  by (auto intro: k_dispatch)

lemma kstep_simulated:
  assumes "sched_rel L init c a" and "kstep L c e c'"
  shows "\<exists>a'. astep init a e a' \<and> sched_rel L init c' a'"
proof -
  obtain md s qs where c: "c = (md, s)" and a: "a = (md, qs)"
    using assms(1) by (cases c; cases a) (auto simp: sched_rel_def)
  note r = assms(1) [unfolded c a]
  from assms(2) [unfolded c] show ?thesis
  proof cases
    case (k_dispatch p s')
    note r = r [unfolded k_dispatch]
    from find_splits [of qs "\<lambda>x. snd x = READY"] sched_pick_eq [OF r] k_dispatch
    obtain xs ys where "qs = xs @ (p, READY) # ys" "\<forall>x \<in> set xs. snd x \<noteq> READY"
      by (auto split: option.splits simp: Let_def)
    then show ?thesis using dispatch_rel [of L init s xs p ys] r k_dispatch a by (auto intro: astep.intros)
  next
    case (k_idle s')
    note r = r [unfolded k_idle]
    from find_splits [of qs "\<lambda>x. snd x = READY"] sched_pick_eq [OF r] k_idle
    have "\<forall>x \<in> set qs. snd x \<noteq> READY" by (auto split: option.splits simp: Let_def)
    then show ?thesis using idle_rel [OF r] k_idle a by (auto intro: astep.intros)
  next
    case (k_preempt p)
    then show ?thesis using preempt_rel [of L init p s qs] r a by (auto intro: astep.intros)
  next
    case (k_exit stat s' p)
    then show ?thesis using exit_rel [of L init p s qs] r a by (auto split: if_splits intro: astep.intros)
  next
    case (k_work ps T m' p)
    have "ps = map fst qs" using tailq_unique [OF k_work(4) sched_relD(2) [OF r]] .
    then show ?thesis using work_rel [of L init p s qs T m'] k_work r a by (auto intro: astep.intros)
  next
    case (k_fork ps T m' p n)
    have ps: "ps = map fst qs" using tailq_unique [OF k_fork(4) sched_relD(2) [OF r]] .
    have "n \<notin> set (p # map fst qs)" using proc_nodes_distinct [OF k_fork(7)] ps by simp
    moreover have "sched_rel L init (Running p, s\<lparr> km := m' \<rparr>) (Running p, qs)"
      using work_rel [of L init p s qs T m'] k_fork r ps by simp
    from fork_rel [OF this] have "sched_rel L init c' (Running p, qs @ [(n, READY)])" using k_fork ps by simp
    ultimately show ?thesis using a k_fork(1,2) a_fork by metis
  qed
qed

text \<open>C32: conversely the kernel is never stuck: whatever the list machine can do of scheduling (dispatch,
  going idle, preemption, exit of a process other than init), the code does, without a null pointer or an
  endless search, and to a corresponding state.\<close>

theorem sched_progress:
  assumes "sched_rel L init c a" and "astep init a e a'" and "e \<noteq> Work" and "\<forall>n. e \<noteq> Fork n"
  shows "\<exists>c'. kstep L c e c' \<and> sched_rel L init c' a'"
proof -
  obtain md s qs where c: "c = (md, s)" and a: "a = (md, qs)"
    using assms(1) by (cases c; cases a) (auto simp: sched_rel_def)
  note r = assms(1) [unfolded c a]
  from assms(2) [unfolded a] show ?thesis
  proof cases
    case (a_dispatch xs p ys)
    then show ?thesis using dispatch_rel [of L init s xs p ys] r c by (auto intro: kstep.intros)
  next
    case a_idle
    then show ?thesis using idle_rel [of L init s qs] r c by (auto intro: kstep.intros)
  next
    case (a_preempt p)
    then show ?thesis using preempt_rel [of L init p s qs] r c by (auto intro: kstep.intros)
  next
    case (a_exit p)
    then show ?thesis using exit_rel [of L init p s qs] r c by (auto intro: k_exit [where stat = 0])
  qed (use assms(3,4) in auto)
qed

theorem sched_progress_witness:
  "\<exists>c. kstep demo_link (Scheduling, demo_kernel) (Dispatch 0x80060000) c \<and>
     sched_rel demo_link 0x80060000 c (Running 0x80060000, [(0x80070000, READY)])"
  using sched_progress [OF demo_sched_rel a_dispatch [of "[]" "0x80060000" "0x80060000" "[(0x80070000, READY)]", simplified]]
  by simp

section \<open>Runs\<close>

inductive krun :: "link \<Rightarrow> mode \<times> kernel \<Rightarrow> event list \<Rightarrow> mode \<times> kernel \<Rightarrow> bool" for L where
  krun_nil: "krun L c [] c"
| krun_cons: "kstep L c e c' \<Longrightarrow> krun L c' es c'' \<Longrightarrow> krun L c (e # es) c''"

inductive arun :: "u32 \<Rightarrow> mode \<times> run_list \<Rightarrow> event list \<Rightarrow> mode \<times> run_list \<Rightarrow> bool" for init where
  arun_nil: "arun init a [] a"
| arun_cons: "astep init a e a' \<Longrightarrow> arun init a' es a'' \<Longrightarrow> arun init a (e # es) a''"

text \<open>C17: the scheduler implements the abstract machine: whatever the kernel does from a state that
  represents a list of processes (dispatch one, go idle, be preempted, exit, fork, run, in any order), the
  list machine does too, event by event, and at the end the two states correspond, the queue in memory, its
  links and the state fields of the processes included.\<close>

theorem sched_simulation:
  assumes "krun L c es c'" and "sched_rel L init c a"
  shows "\<exists>a'. arun init a es a' \<and> sched_rel L init c' a'"
  using assms
proof (induction arbitrary: a rule: krun.induct)
  case (krun_cons c e c' es c'')
  then show ?case using kstep_simulated arun_cons by metis
qed (blast intro: arun_nil)

lemma demo_krun:
  "\<exists>s. krun demo_link (Scheduling, demo_kernel) [Dispatch 0x80060000, Preempt] (Scheduling, s)"
  using demo_dispatch by (meson k_preempt krun_cons krun_nil)

theorem sched_simulation_witness:
  "\<exists>s a. krun demo_link (Scheduling, demo_kernel) [Dispatch 0x80060000, Preempt] (Scheduling, s) \<and>
     arun 0x80060000 (Scheduling, demo_list) [Dispatch 0x80060000, Preempt] a \<and>
     sched_rel demo_link 0x80060000 (Scheduling, s) a"
  using demo_krun sched_simulation [OF _ demo_sched_rel] by blast

text \<open>What every step of the list machine keeps holds along every run of the kernel. The events that are
  still to come are an argument of the invariant.\<close>

locale sched_invariant =
  fixes init :: u32 and I :: "event list \<Rightarrow> mode \<times> run_list \<Rightarrow> bool"
  assumes kept: "astep init a e a' \<Longrightarrow> I (e # es) a \<Longrightarrow> I es a'"
begin

lemma run_invariant: "krun L c es c' \<Longrightarrow> sched_rel L init c a \<Longrightarrow> I es a \<Longrightarrow> \<exists>a'. sched_rel L init c' a' \<and> I [] a'"
proof (induction arbitrary: a rule: krun.induct)
  case (krun_cons c e c' es c'')
  then show ?case using kstep_simulated kept by metis
qed blast

end

definition init_lives :: "u32 \<Rightarrow> event list \<Rightarrow> mode \<times> run_list \<Rightarrow> bool" where
  "init_lives init es a \<longleftrightarrow> fst a = Running init \<or> fst a = Scheduling \<and> (init, READY) \<in> set (snd a) \<or>
     (\<exists>p. fst a = Running p) \<and> (init, READY) \<in> set (snd a)"

interpretation alive: sched_invariant init "init_lives init" for init
proof unfold_locales
  show "init_lives init es a'" if "astep init a e a'" "init_lives init (e # es) a" for a e a' es
    using that by (cases rule: astep.cases) (auto simp: init_lives_def)
qed

text \<open>C33: the kernel never ends up in the loop that only waits for interrupts (which never looks at the
  queue again): in every run in which the processes change the cells of the scheduler only by yielding, exiting and forking, as long as init has not
  exited, which panics, there is a process that is ready whenever the scheduler runs.\<close>

theorem scheduler_never_halts:
  assumes "sched_rel L init (Scheduling, s) (Scheduling, qs)" and "(init, READY) \<in> set qs"
    and "krun L (Scheduling, s) es (md, s')"
  shows "md \<noteq> Halted"
  using alive.run_invariant [OF assms(3,1)] assms(2) by (fastforce simp: init_lives_def sched_rel_def)

theorem scheduler_never_halts_witness:
  "\<exists>md s. krun demo_link (Scheduling, demo_kernel) [Dispatch 0x80060000, Preempt] (md, s) \<and> md \<noteq> Halted"
proof -
  obtain s where r: "krun demo_link (Scheduling, demo_kernel) [Dispatch 0x80060000, Preempt] (Scheduling, s)"
    using demo_krun by blast
  have "Scheduling \<noteq> Halted" by (rule scheduler_never_halts [OF demo_sched_rel _ r]) simp
  with r show ?thesis by blast
qed

text \<open>C39: the restriction of \<open>k_work\<close> matters. When something other than the scheduler overwrites the state of the running process, as \<^verbatim>\<open>sys_open\<close> does with the
  address of a file when all descriptors are in use, and no other process is ready, the kernel halts at the next timer
  interrupt, even if the process is init: it is neither running nor ready any more.\<close>

theorem overwritten_state_halts:
  assumes "sched_rel L init (Running p, s) (Running p, qs)" and "\<forall>x \<in> set qs. snd x \<noteq> READY"
    and "v \<noteq> pstate_code RUNNING" and "v \<noteq> pstate_code READY"
  shows "\<exists>s1 s2. kstep L (Running p, s\<lparr> km := write32 (km s) (p + 88) v \<rparr>) Preempt (Scheduling, s1) \<and>
    kstep L (Scheduling, s1) Idle (Halted, s2)"
proof -
  let ?q = "l_queue L" and ?m = "write32 (km s) (p + 88) v" and ?ps = "p # map fst qs"
  let ?m' = "TAILQ_INSERT_TAIL ?m 96 ?q p"
  note d = sched_relD [OF assms(1)]
  have n: "proc_nodes ?q ?ps" and p: "p \<noteq> 0" using d(3) by (auto simp: procs_ok_def)
  have o: "same_outside (span (p + 88) 4) (km s) ?m" by (rule same_outside_write32)
  have "span (p + 88) 4 \<inter> proc_links ?q (map fst qs) = {}" using state_links [OF n, of p] by (auto simp: proc_links_def)
  then have t: "tailq ?m 96 ?q (map fst qs)" by (rule tailq_frame [OF d(2) o])
  have t': "tailq ?m' 96 ?q (map fst qs @ [p])" by (rule procs.ins_holds [OF t n p])
  have st: "proc_state ?m' x = proc_state ?m x" if "x \<in> set ?ps" for x by (rule links_step(2) [OF procs.ins_outside [OF t n] n that])
  have "proc_state ?m x = proc_state (km s) x" if "x \<in> set (map fst qs)" for x
  proof (rule fields_frame(2) [OF o])
    have "x \<noteq> p" using that proc_nodes_distinct [OF n] by auto
    then show "span (p + 88) 4 \<inter> proc_fields x = {}"
      using node_pair [OF n, of p x] that fields_in(1) [of x] fields_in(2) [of p] by auto
  qed
  moreover have "proc_state (km s) x \<noteq> pstate_code READY" if "x \<in> set (map fst qs)" for x
  proof -
    from that obtain st where st: "(x, st) \<in> set qs" by auto
    then have "proc_state (km s) x = pstate_code st" using d(4) by (auto simp: states_ok_def)
    moreover have "st \<noteq> READY" using bspec [OF assms(2) st] by simp
    ultimately show ?thesis by (metis pstate_code_eq)
  qed
  moreover have v: "proc_state ?m p = v" by (simp add: proc_state_def)
  ultimately have "proc_state ?m' x \<noteq> pstate_code READY" if "x \<in> set ?ps" for x
    using that st [OF that] assms(4) by (cases "x = p") simp_all
  then have "find (\<lambda>x. proc_state ?m' x = pstate_code READY) (map fst qs @ [p]) = None"
    unfolding find_None_iff by auto
  then have search: "foreach_find ?m' 96 (\<lambda>x. proc_state ?m' x = pstate_code READY) (TAILQ_FIRST ?m' ?q) = Some 0"
    using procs.search_holds [OF t'] by simp
  let ?s1 = "sched_return L p (yield (s\<lparr> km := ?m \<rparr>))"
  have "km ?s1 = ?m'" using d(5) v assms(3) by (simp add: sched_return_def yield_def cli_def Let_def)
  then have "sched_pick L ?s1 = Inr (None, ?s1\<lparr> kif := True \<rparr>)" using search by (simp add: sched_pick_def cli_def Let_def)
  then show ?thesis using k_preempt [of L p "s\<lparr> km := ?m \<rparr>"] k_idle by blast
qed

text \<open>Init alone, and running.\<close>

lemma demo_init_alone:
  "\<exists>s. sched_rel demo_link 0x80060000 (Running 0x80060000, s) (Running 0x80060000, [(0x80070000, DEAD)])"
proof -
  obtain s where s: "sched_rel demo_link 0x80060000 (Running 0x80060000, s) (Running 0x80060000, [(0x80070000, READY)])"
    using dispatch_rel [of demo_link "0x80060000" demo_kernel "[]" "0x80060000" "[(0x80070000, READY)]"] demo_sched_rel by auto
  from preempt_rel [OF s] have a: "sched_rel demo_link 0x80060000 (Scheduling, sched_return demo_link 0x80060000 (yield s))
      (Scheduling, [] @ (0x80070000, READY) # [(0x80060000, READY)])" by simp
  obtain s1 where s1: "sched_rel demo_link 0x80060000 (Running 0x80070000, s1) (Running 0x80070000, [(0x80060000, READY)])"
    using dispatch_rel [OF a] by auto
  from exit_rel(2) [OF s1] have b: "sched_rel demo_link 0x80060000
      (Scheduling, sched_return demo_link 0x80070000 (s1\<lparr> kif := False, km := set_state 0x80070000 DEAD (km s1) \<rparr>))
      (Scheduling, [] @ (0x80060000, READY) # [(0x80070000, DEAD)])" by simp
  show ?thesis using dispatch_rel [OF b] by auto
qed

theorem overwritten_state_halts_witness:
  "\<exists>s s1 s2. kstep demo_link (Running 0x80060000, s\<lparr> km := write32 (km s) 0x80060058 0x80090000 \<rparr>) Preempt (Scheduling, s1) \<and>
     kstep demo_link (Scheduling, s1) Idle (Halted, s2)"
proof -
  obtain s where "sched_rel demo_link 0x80060000 (Running 0x80060000, s) (Running 0x80060000, [(0x80070000, DEAD)])"
    using demo_init_alone by blast
  from overwritten_state_halts [OF this, of "0x80090000"] show ?thesis by auto
qed

fun is_dispatch :: "event \<Rightarrow> bool" where
  "is_dispatch (Dispatch _) = True"
| "is_dispatch _ = False"

abbreviation ready_count :: "run_list \<Rightarrow> nat" where
  "ready_count xs \<equiv> length (filter (\<lambda>x. snd x = READY) xs)"

text \<open>The process \<open>p\<close> waits: with every process that is dispatched instead there is one fewer ahead of it.\<close>

definition waits :: "u32 \<Rightarrow> nat \<Rightarrow> nat \<Rightarrow> event list \<Rightarrow> mode \<times> run_list \<Rightarrow> bool" where
  "waits p n r es a \<longleftrightarrow> Dispatch p \<notin> set es \<and>
     (\<exists>xs ys. snd a = xs @ (p, READY) # ys \<and> n + ready_count xs = r + length (filter is_dispatch es))"

lemma first_ready:
  assumes "us @ (x, READY) # vs = xs @ (p, READY) # ys" and "\<forall>u \<in> set us. snd u \<noteq> READY" and "x \<noteq> p"
  shows "\<exists>zs. xs = us @ (x, READY) # zs \<and> vs = zs @ (p, READY) # ys"
  using assms by (auto simp: append_eq_append_conv2 append_eq_Cons_conv Cons_eq_append_conv)

lemma waits_dispatch:
  assumes "us @ (x, READY) # vs = xs @ (p, READY) # ys" and "\<forall>u \<in> set us. snd u \<noteq> READY" and "x \<noteq> p"
  shows "\<exists>zs. us @ vs = zs @ (p, READY) # ys \<and> ready_count xs = Suc (ready_count zs)"
  using first_ready [OF assms] by fastforce

interpretation waiting: sched_invariant init "waits p n r" for init p n r
proof unfold_locales
  show "waits p n r es a'" if "astep init a e a'" "waits p n r (e # es) a" for a e a' es
    using that
  proof (cases rule: astep.cases)
    case (a_dispatch us x vs)
    then show ?thesis using that(2) waits_dispatch [of us x vs _ p] by (fastforce simp: waits_def)
  qed (fastforce simp: waits_def)+
qed

text \<open>C31: the scheduler is fair: a process that is ready is dispatched after at most as many other dispatches
  as there are ready processes ahead of it in the queue, whatever the processes do in between.\<close>

theorem scheduler_fair:
  assumes "sched_rel L init c (md, xs @ (p, READY) # ys)" and "krun L c es c'"
    and "Dispatch p \<notin> set es"
  shows "length (filter is_dispatch es) \<le> ready_count xs"
proof -
  have "waits p (length (filter is_dispatch es)) (ready_count xs) es (md, xs @ (p, READY) # ys)"
    using assms(3) by (auto simp: waits_def)
  then obtain a where "waits p (length (filter is_dispatch es)) (ready_count xs) [] a"
    using waiting.run_invariant [OF assms(2,1)] by blast
  then show ?thesis by (auto simp: waits_def)
qed

theorem scheduler_fair_witness:
  "\<exists>s. krun demo_link (Scheduling, demo_kernel) [Dispatch 0x80060000, Preempt] (Scheduling, s) \<and>
     length (filter is_dispatch [Dispatch 0x80060000, Preempt]) \<le> ready_count [(0x80060000 :: u32, READY)]"
proof -
  have "sched_rel demo_link 0x80060000 (Scheduling, demo_kernel) (Scheduling, [(0x80060000, READY)] @ (0x80070000, READY) # [])"
    using demo_sched_rel by simp
  moreover obtain s where r: "krun demo_link (Scheduling, demo_kernel) [Dispatch 0x80060000, Preempt] (Scheduling, s)"
    using demo_krun by blast
  ultimately have "length (filter is_dispatch [Dispatch 0x80060000, Preempt]) \<le> ready_count [(0x80060000 :: u32, READY)]"
    by (rule scheduler_fair) simp
  with r show ?thesis by blast
qed

end
