(* ===== verification/Vm.thy ===== *)
theory Vm
  imports Slob Boot
begin

text \<open>
  Address spaces: \<^verbatim>\<open>copykvm\<close> and \<^verbatim>\<open>alloc_pt\<close> of \<^verbatim>\<open>kernel/mem.c\<close>. Both take the page allocator as an
  argument and are verified against its contract \<open>page_source\<close>, then instantiated with
  \<^verbatim>\<open>alloc_pages\<close>. \<open>user_page m pd q\<close> is the table entry the processor finds for the user page \<open>q\<close> in
  the directory at \<open>pd\<close>; \<open>pd_inv\<close> says that the directory and its tables are pages of their own,
  apart from each other and from the allocator's memory. The kernel sees physical memory through
  the offset mapping, so tables are reached at \<^verbatim>\<open>p2v\<close> of their physical addresses.
\<close>

section \<open>The operations\<close>

definition copykvm :: "(u32 \<Rightarrow> mem \<Rightarrow> (u32 \<times> mem) res) \<Rightarrow> u32 \<Rightarrow> mem \<Rightarrow> (u32 \<times> mem) res" where
  "copykvm alloc kpagedir m =
     bindE (alloc 0x1000 m) (\<lambda>(pd, m).
       if pd = 0 then Inl NullDeref
       else let m = memsetl m pd 0 1024;
                m = memcpyl m (pd + 4 * drop_bit 22 KERNEL_OFFSET) (kpagedir + 4 * drop_bit 22 KERNEL_OFFSET)
                      (1024 - drop_bit 22 KERNEL_OFFSET) in
         Inr (pd, m))"

text \<open>The loop of \<^verbatim>\<open>alloc_pt\<close>; its length is a multiple of the page size, so it makes one round per
  page. \<^verbatim>\<open>alloc_pages\<close> is not checked for NULL, and \<^verbatim>\<open>memsetl\<close> of the null pointer is an error.\<close>

fun alloc_pt_loop :: "(u32 \<Rightarrow> mem \<Rightarrow> (u32 \<times> mem) res) \<Rightarrow> u32 \<Rightarrow> u32 \<Rightarrow> nat \<Rightarrow> u32 \<Rightarrow> u32 \<Rightarrow> mem \<Rightarrow> mem res" where
  "alloc_pt_loop alloc pd flags 0 va pa m = Inr m"
| "alloc_pt_loop alloc pd flags (Suc n) va pa m =
     (let pde = drop_bit 22 va;
          pte = drop_bit 12 va AND 0x3FF in
      bindE (if read32 m (pd + 4 * pde) AND 1 = 0
             then bindE (alloc 0x1000 m) (\<lambda>(pt, m).
               if pt = 0 then Inl NullDeref
               else let m = memsetl m pt 0 1024;
                        m = write32 m (pd + 4 * pde) ((v2p pt AND 0xFFFFF000) OR flags) in
                 Inr (pt, m))
             else let pt = p2v (read32 m (pd + 4 * pde) AND 0xFFFFF000);
                      m = write32 m (pd + 4 * pde) (read32 m (pd + 4 * pde) OR flags) in
               Inr (pt, m))
        (\<lambda>(pt, m).
          let m = write32 m (pt + 4 * pte) ((pa AND 0xFFFFF000) OR flags) in
          alloc_pt_loop alloc pd flags n (va + 0x1000) (pa + 0x1000) m))"

definition alloc_pt :: "(u32 \<Rightarrow> mem \<Rightarrow> (u32 \<times> mem) res) \<Rightarrow> u32 \<Rightarrow> u32 \<Rightarrow> u32 \<Rightarrow> u32 \<Rightarrow> u32 \<Rightarrow> mem \<Rightarrow> mem res" where
  "alloc_pt alloc pd va pa len flags m =
     alloc_pt_loop alloc pd flags (unat (pg_roundup len) div 0x1000) (pg_rounddown va) (pg_rounddown pa) m"

section \<open>Page tables\<close>

definition pde :: "mem \<Rightarrow> u32 \<Rightarrow> nat \<Rightarrow> u32" where
  "pde m pd i = read32 m (pd + 4 * of_nat i)"

definition table :: "u32 \<Rightarrow> u32" where
  "table e = p2v (e AND 0xFFFFF000)"

definition present :: "u32 \<Rightarrow> bool" where
  "present e \<longleftrightarrow> e AND 1 \<noteq> 0"

definition lookup :: "mem \<Rightarrow> u32 \<Rightarrow> nat \<Rightarrow> nat \<Rightarrow> u32 option" where
  "lookup m pd i j =
     (if present (pde m pd i)
      then (let e = pde m (table (pde m pd i)) j in if present e then Some e else None) else None)"

definition tables :: "mem \<Rightarrow> u32 \<Rightarrow> u32 set" where
  "tables m pd = (\<Union>i \<in> {i. i < 512 \<and> present (pde m pd i)}. span (table (pde m pd i)) 4096)"

definition pd_inv :: "mem \<Rightarrow> u32 \<Rightarrow> u32 set \<Rightarrow> bool" where
  "pd_inv m pd S \<longleftrightarrow> span pd 4096 \<inter> S = {} \<and> tables m pd \<inter> (S \<union> span pd 4096) = {} \<and>
     (\<forall>i j. i < 512 \<longrightarrow> j < 512 \<longrightarrow> i \<noteq> j \<longrightarrow> present (pde m pd i) \<longrightarrow> present (pde m pd j) \<longrightarrow>
        span (table (pde m pd i)) 4096 \<inter> span (table (pde m pd j)) 4096 = {})"

lemma take12: "unat (take_bit 12 (x :: u32)) = unat x mod 4096"
  by (simp only: unsigned_take_bit_eq) (simp add: take_bit_eq_mod)

lemma frame_mask: "(0xFFFFF000 :: u32) = NOT (mask 12)"
  by (simp add: mask_eq_exp_minus_1)

lemma low12:
  assumes "f < 0x1000"
  shows "(x OR f) AND 0xFFFFF000 = x AND (0xFFFFF000 :: u32)"
proof -
  have "take_bit 12 f = f" using assms by (simp add: word_unat_eq_iff [where 'a = 32] take12 word_less_nat_alt)
  then have "\<not> bit f n" if "12 \<le> n" for n using that by (metis bit_take_bit_iff not_less)
  then show ?thesis unfolding frame_mask by (intro bit_word_eqI) (auto simp: bit_simps)
qed

lemma page_frame:
  assumes "aligned 4096 x"
  shows "x AND 0xFFFFF000 = x"
proof -
  have t: "take_bit 12 x = 0" using assms by (simp add: word_unat_eq_iff [where 'a = 32] take12 aligned_def)
  have "\<not> bit x n" if "n < 12" for n
  proof -
    have "bit x n \<longleftrightarrow> bit (take_bit 12 x) n" using that by (simp add: bit_simps)
    then show ?thesis by (simp add: t)
  qed
  then show ?thesis
    unfolding frame_mask by (intro bit_word_eqI) (auto simp: bit_simps simp flip: not_less)
qed

lemma p2v_v2p:
  assumes "0x80000000 \<le> x"
  shows "p2v (v2p x) = x"
proof -
  have "unat x div 2147483648 = 1"
    using assms unat_lt32 [of x] by (simp add: word_le_nat_alt div_nat_eqI)
  then have "bit (unat x) 31" by (simp add: bit_iff_odd)
  then have b: "bit x 31" by (simp add: bit_unsigned_iff)
  have "bit (push_bit 31 (1 :: u32)) n \<longleftrightarrow> n = 31" for n
    unfolding bit_push_bit_iff by (auto simp: bit_1_iff)
  moreover have "KERNEL_OFFSET = push_bit 31 1" by (simp add: koffset)
  ultimately have k: "bit KERNEL_OFFSET n \<longleftrightarrow> n = 31" for n by (simp only:)
  show ?thesis unfolding p2v_def v2p_def
    using b by (intro bit_word_eqI) (auto simp: bit_simps k)
qed

lemma cell_in: "j < 1024 \<Longrightarrow> span (b + 4 * of_nat j) 4 \<subseteq> span b 4096"
  by (rule span_sub) (simp add: unat_word_ariths unat_of_nat)

lemma pde_write: "i < 1024 \<Longrightarrow> j < 1024 \<Longrightarrow>
    pde (write32 m (b + 4 * of_nat i) v) b j = (if i = j then v else pde m b j)"
  using slot_apart [of i j b] by (auto simp: pde_def mem_simps)

lemma pde_outside:
  assumes "same_outside T m m'" and "span b 4096 \<inter> T = {}" and "j < 1024"
  shows "pde m' b j = pde m b j"
proof -
  have "span (b + 4 * of_nat j) 4 \<inter> T = {}" using cell_in [OF assms(3), of b] assms(2) by blast
  then show ?thesis using same_outside_read32 [OF assms(1)] by (simp add: pde_def)
qed

lemma pde_write_outside:
  assumes "span b 4096 \<inter> span c 4096 = {}" and "i < 1024" and "j < 1024"
  shows "pde (write32 m (c + 4 * of_nat i) v) b j = pde m b j"
  using pde_outside [OF same_outside_write32 [of "c + 4 * of_nat i" m v] _ assms(3), of b]
    cell_in [OF assms(2), of c] assms(1) by blast

lemma pd_invD:
  assumes "pd_inv m pd S" and "i < 512" and "present (pde m pd i)"
  shows "span (table (pde m pd i)) 4096 \<inter> S = {}" and "span (table (pde m pd i)) 4096 \<inter> span pd 4096 = {}"
  using assms by (auto simp: pd_inv_def tables_def)

text \<open>Once the directory entry is in place: writing the table entry.\<close>

lemma write_pte:
  assumes inv: "pd_inv m pd S" and i: "i < 512" "present (pde m pd i)" and j: "j < 1024" and v: "present v"
  defines "m' \<equiv> write32 m (table (pde m pd i) + 4 * of_nat j) v"
  shows "\<And>i'. i' < 1024 \<Longrightarrow> pde m' pd i' = pde m pd i'" and "tables m' pd = tables m pd" and "pd_inv m' pd S"
    and "i' < 512 \<Longrightarrow> j' < 1024 \<Longrightarrow> lookup m' pd i' j' = (if i' = i \<and> j' = j then Some v else lookup m pd i' j')"
    and "same_outside (tables m pd) m m'"
proof -
  let ?t = "table (pde m pd i)"
  note t = pd_invD [OF inv i]
  show same: "pde m' pd i' = pde m pd i'" if "i' < 1024" for i'
    unfolding m'_def using t(2) j that by (intro pde_write_outside) auto
  then show tb: "tables m' pd = tables m pd" by (auto simp: tables_def)
  show "pd_inv m' pd S" using inv same tb by (simp add: pd_inv_def)
  show "same_outside (tables m pd) m m'"
    unfolding m'_def using cell_in [OF j, of ?t] i
    by (intro same_outside_mono [OF same_outside_write32]) (auto simp: tables_def)
  show "lookup m' pd i' j' = (if i' = i \<and> j' = j then Some v else lookup m pd i' j')"
    if ij: "i' < 512" "j' < 1024"
  proof (cases "i' = i")
    case True
    then show ?thesis
      using same [of i] i j ij v pde_write [OF j ij(2), of m ?t v] by (auto simp: lookup_def m'_def Let_def)
  next
    case False
    have "pde m' (table (pde m pd i')) j' = pde m (table (pde m pd i')) j'" if "present (pde m pd i')"
      unfolding m'_def using inv False i ij that j by (intro pde_write_outside) (auto simp: pd_inv_def)
    then show ?thesis using same [of i'] ij False by (simp add: lookup_def)
  qed
qed

text \<open>A present entry gains the flags.\<close>

lemma refresh_pde:
  assumes inv: "pd_inv m pd S" and i: "i < 512" "present (pde m pd i)" and f: "f < 0x1000"
  defines "m' \<equiv> write32 m (pd + 4 * of_nat i) (pde m pd i OR f)"
  shows "pde m' pd i = pde m pd i OR f" and "\<And>i'. i' < 1024 \<Longrightarrow> i' \<noteq> i \<Longrightarrow> pde m' pd i' = pde m pd i'"
    and "present (pde m' pd i)" and "table (pde m' pd i) = table (pde m pd i)"
    and "tables m' pd = tables m pd" and "pd_inv m' pd S"
    and "i' < 512 \<Longrightarrow> j' < 1024 \<Longrightarrow> lookup m' pd i' j' = lookup m pd i' j'"
    and "same_outside (span pd 4096) m m'"
proof -
  show e: "pde m' pd i = pde m pd i OR f" using i pde_write [where b = pd and i = i] by (simp add: m'_def)
  show o: "pde m' pd i' = pde m pd i'" if "i' < 1024" "i' \<noteq> i" for i'
    using i that pde_write [where b = pd and i = i] by (simp add: m'_def)
  show t: "table (pde m' pd i) = table (pde m pd i)" by (simp add: e table_def low12 [OF f])
  show p: "present (pde m' pd i)"
    using i(2) by (auto simp: e present_def bit.conj_disj_distrib2 or_eq_0_iff)
  have all: "present (pde m' pd i') \<longleftrightarrow> present (pde m pd i')"
    "present (pde m pd i') \<Longrightarrow> table (pde m' pd i') = table (pde m pd i')" if "i' < 512" for i'
    using t p i o [of i'] that by (cases "i' = i"; simp)+
  show tb: "tables m' pd = tables m pd" using all by (auto simp: tables_def)
  then show "pd_inv m' pd S" using inv all by (simp add: pd_inv_def)
  show "same_outside (span pd 4096) m m'"
    unfolding m'_def using cell_in [of i pd] i by (intro same_outside_mono [OF same_outside_write32]) auto
  show "lookup m' pd i' j' = lookup m pd i' j'" if "i' < 512" "j' < 1024"
  proof -
    have "pde m' (table (pde m pd i')) j' = pde m (table (pde m pd i')) j'" if "present (pde m pd i')"
      unfolding m'_def using pd_invD(2) [OF inv \<open>i' < 512\<close> that] i \<open>j' < 1024\<close>
      by (intro pde_write_outside) auto
    then show ?thesis using all [OF that(1)] by (auto simp: lookup_def)
  qed
qed

text \<open>An absent entry gets a fresh, zeroed table.\<close>

lemma fresh_pde:
  assumes inv: "pd_inv m pd S" and i: "i < 512" "\<not> present (pde m pd i)" and f: "f < 0x1000" "present f"
    and m0: "same_outside S m m0" and pt: "aligned 4096 pt" "0x80000000 \<le> pt"
    and S': "span pt 4096 \<subseteq> S" "S' \<subseteq> S" "span pt 4096 \<inter> S' = {}"
  defines "m' \<equiv> write32 (memsetl m0 pt 0 1024) (pd + 4 * of_nat i) ((v2p pt AND 0xFFFFF000) OR f)"
  shows "\<And>i'. i' < 1024 \<Longrightarrow> i' \<noteq> i \<Longrightarrow> pde m' pd i' = pde m pd i'"
    and "present (pde m' pd i)" and "table (pde m' pd i) = pt"
    and "tables m' pd = tables m pd \<union> span pt 4096" and "pd_inv m' pd S'"
    and "i' < 512 \<Longrightarrow> j' < 1024 \<Longrightarrow> lookup m' pd i' j' = lookup m pd i' j'"
    and "same_outside (S \<union> span pd 4096) m m'" and "same_outside (span pd 4096 \<union> span pt 4096) m0 m'"
proof -
  let ?m1 = "memsetl m0 pt 0 1024" and ?v = "(v2p pt AND 0xFFFFF000) OR f"
  have pdS: "span pd 4096 \<inter> S = {}" using inv by (simp add: pd_inv_def)
  have m1: "same_outside (span pt 4096) m0 ?m1" using same_outside_memsetl [of pt 1024 m0 0] by simp
  have mm1: "same_outside S m ?m1"
    using same_outside_trans [OF m0 m1] S'(1) by (simp add: Un_absorb2)
  have wr: "same_outside (span pd 4096) ?m1 m'"
    unfolding m'_def using cell_in [of i pd] i by (intro same_outside_mono [OF same_outside_write32]) auto
  show "same_outside (S \<union> span pd 4096) m m'" using same_outside_trans [OF mm1 wr] .
  show "same_outside (span pd 4096 \<union> span pt 4096) m0 m'"
    using same_outside_trans [OF m1 wr] by (simp add: Un_commute)
  have base: "pde ?m1 pd i' = pde m pd i'" if "i' < 1024" for i'
    using pde_outside [OF mm1 pdS that] .
  show o: "pde m' pd i' = pde m pd i'" if "i' < 1024" "i' \<noteq> i" for i'
    using i that pde_write [where b = pd and i = i] base by (simp add: m'_def)
  have e: "pde m' pd i = ?v" using i pde_write [where b = pd and i = i] by (simp add: m'_def)
  have "aligned 4096 (v2p pt)"
    using pt(1) by (simp add: aligned_def unat_v2p mod_mod_cancel)
  then show t: "table (pde m' pd i) = pt"
    using pt(2) by (simp add: e table_def low12 [OF f(1)] page_frame p2v_v2p)
  show p: "present (pde m' pd i)" using f(2) by (auto simp: e present_def bit.conj_disj_distrib2 or_eq_0_iff)
  have other: "present (pde m' pd i') \<longleftrightarrow> i' = i \<or> present (pde m pd i')" if "i' < 512" for i'
    using p o [of i'] that by (cases "i' = i") auto
  have tab: "table (pde m' pd i') = (if i' = i then pt else table (pde m pd i'))" if "i' < 512" for i'
    using t o [of i'] that by auto
  show tb: "tables m' pd = tables m pd \<union> span pt 4096"
    using other tab i by (auto simp: tables_def split: if_splits)
  have ptd: "span pt 4096 \<inter> span pd 4096 = {}" using pdS S'(1) by blast
  have "span (table (pde m pd i')) 4096 \<inter> span pt 4096 = {}" if "i' < 512" "present (pde m pd i')" for i'
    using pd_invD(1) [OF inv that] S'(1) by blast
  note apart = this
  show "pd_inv m' pd S'"
    using inv S'(2,3) ptd apart other tab unfolding pd_inv_def tb
    by (auto simp: Int_commute split: if_splits)
  show "lookup m' pd i' j' = lookup m pd i' j'" if ij: "i' < 512" "j' < 1024"
  proof (cases "i' = i")
    case True
    have "pde ?m1 pt j' = 0" using read32_memsetl_inside [of j' 1024] ij(2) by (simp add: pde_def)
    moreover have "pde m' pt j' = pde ?m1 pt j'"
      unfolding m'_def using ptd i ij by (intro pde_write_outside) auto
    ultimately show ?thesis using True i p t by (simp add: lookup_def present_def)
  next
    case False
    have "pde m' (table (pde m pd i')) j' = pde m (table (pde m pd i')) j'" if pr: "present (pde m pd i')"
      using pde_outside [OF same_outside_trans [OF mm1 wr] _ ij(2), of "table (pde m pd i')"]
        pd_invD [OF inv ij(1) pr] by blast
    then show ?thesis using False o [of i'] ij by (simp add: lookup_def)
  qed
qed

definition user_page :: "mem \<Rightarrow> u32 \<Rightarrow> nat \<Rightarrow> u32 option" where
  "user_page m pd q = lookup m pd (q div 1024) (q mod 1024)"

definition high :: "u32 set" where
  "high = {x. 0x80000000 \<le> x}"

lemma mapped_step:
  fixes a :: u32
  assumes inv: "pd_inv m1 pd S'" and i: "i < 512" "present (pde m1 pd i)" and j: "j < 1024" and f: "present f"
    and same: "\<And>i' j'. i' < 512 \<Longrightarrow> j' < 1024 \<Longrightarrow> lookup m1 pd i' j' = lookup m pd i' j'"
    and up: "\<And>i'. i' < 1024 \<Longrightarrow> i' \<noteq> i \<Longrightarrow> pde m1 pd i' = pde m pd i'"
    and T: "same_outside T m m1" "tables m1 pd \<subseteq> T"
  defines "m2 \<equiv> write32 m1 (table (pde m1 pd i) + 4 * of_nat j) (a OR f)"
  shows "pd_inv m2 pd S' \<and> same_outside T m m2 \<and> tables m2 pd = tables m1 pd \<and>
    (\<forall>i' < 512. \<forall>j' < 1024. lookup m2 pd i' j' = (if i' = i \<and> j' = j then Some (a OR f) else lookup m pd i' j')) \<and>
    (\<forall>i'. 512 \<le> i' \<longrightarrow> i' < 1024 \<longrightarrow> pde m2 pd i' = pde m pd i') \<and>
    (\<forall>i' < 512. present (pde m2 pd i') \<longleftrightarrow> i' = i \<or> present (pde m pd i'))"
proof -
  have v: "present (a OR f)" using f by (auto simp: present_def bit.conj_disj_distrib2 or_eq_0_iff)
  note w = write_pte [OF inv i j v, folded m2_def]
  have "same_outside T m m2"
    using same_outside_trans [OF T(1) w(5)] T(2) by (simp add: Un_absorb2)
  moreover have "present (pde m2 pd i') \<longleftrightarrow> i' = i \<or> present (pde m pd i')" if "i' < 512" for i'
    using w(1) [of i'] up [of i'] i that by (cases "i' = i") auto
  ultimately show ?thesis using w(1-4) same up i(1) by auto
qed

lemma page_indices:
  fixes va :: u32
  shows "unat (drop_bit 22 va) = unat va div 4096 div 1024"
    and "unat (drop_bit 12 va AND 0x3FF) = unat va div 4096 mod 1024"
proof -
  show "unat (drop_bit 22 va) = unat va div 4096 div 1024"
    by (simp add: unat_drop22 div_mult2_eq [symmetric])
  have "drop_bit 12 va AND 0x3FF = take_bit 10 (drop_bit 12 va)"
    by (simp add: take_bit_eq_mask mask_eq_exp_minus_1)
  then have "unat (drop_bit 12 va AND 0x3FF) = take_bit 10 (drop_bit 12 (unat va))"
    by (simp only: unsigned_take_bit_eq unat_drop_bit_eq)
  then show "unat (drop_bit 12 va AND 0x3FF) = unat va div 4096 mod 1024"
    by (simp add: take_bit_eq_mod drop_bit_eq_div)
qed

lemma aligned_next: "aligned 4096 x \<Longrightarrow> aligned 4096 (x + 0x1000)"
  by (rule aligned_add) (simp_all add: aligned_def)

lemma next_page:
  assumes "aligned 4096 va" and "unat va div 4096 < 524288"
  shows "unat (va + 0x1000) div 4096 = unat va div 4096 + 1" and "aligned 4096 (va + 0x1000)"
proof -
  have "unat va < 4294963200" using assms(2) by (simp add: div_less_iff_less_mult)
  then have "unat (va + 0x1000) = unat va + 4096" by (simp add: u32_add_small)
  then show "unat (va + 0x1000) div 4096 = unat va div 4096 + 1" by simp
  show "aligned 4096 (va + 0x1000)" using assms(1) by (rule aligned_next)
qed

lemma page_index_eq:
  fixes q q' :: nat
  shows "q' div 1024 = q div 1024 \<and> q' mod 1024 = q mod 1024 \<longleftrightarrow> q' = q"
  by (metis div_mult_mod_eq)

text \<open>The directory entries that a range of \<open>n\<close> pages from the page \<open>q\<close> on needs and that are absent.\<close>

definition missing :: "mem \<Rightarrow> u32 \<Rightarrow> nat \<Rightarrow> nat \<Rightarrow> nat set" where
  "missing m pd q n = {i \<in> (\<lambda>q. q div 1024) ` {q ..< q + n}. \<not> present (pde m pd i)}"

lemma finite_missing [simp]: "finite (missing m pd q n)"
  by (simp add: missing_def)

lemma missing_step:
  assumes "\<forall>i' < 512. present (pde m' pd i') \<longleftrightarrow> i' = q div 1024 \<or> present (pde m pd i')" and "q + Suc n \<le> 524288"
  shows "missing m' pd (Suc q) n \<subseteq> missing m pd q (Suc n) - {q div 1024}"
    and "\<not> present (pde m pd (q div 1024)) \<Longrightarrow> q div 1024 \<in> missing m pd q (Suc n)"
proof -
  have "x div 1024 < 512" if "x < q + Suc n" for x using that assms(2) by (simp add: less_mult_imp_div_less)
  then show "missing m' pd (Suc q) n \<subseteq> missing m pd q (Suc n) - {q div 1024}"
    using assms(1) by (fastforce simp: missing_def)
  show "\<not> present (pde m pd (q div 1024)) \<Longrightarrow> q div 1024 \<in> missing m pd q (Suc n)" by (auto simp: missing_def)
qed

lemma card_step:
  assumes "A \<subseteq> B - {x}" and "\<not> P \<Longrightarrow> x \<in> B" and "finite B"
  shows "card A + (if P then 0 else 1 :: nat) \<le> card B"
proof -
  have "card A \<le> card (B - {x})" by (rule card_mono) (use assms in auto)
  moreover have "card (B - {x}) \<le> card B - (if P then 0 else 1)" "card (B - {x}) \<le> card B"
    using assms(2,3) by (auto simp: card_Diff_singleton_if)
  moreover have "\<not> P \<Longrightarrow> 0 < card B" using assms(2,3) by (auto simp: card_gt_0_iff)
  ultimately show ?thesis by (cases P) auto
qed

context page_source
begin

lemma alloc_pt_step:
  fixes va :: u32
  assumes own: "owns m S" and hi: "S \<subseteq> high" and inv: "pd_inv m pd S"
    and f: "f < 0x1000" "present f" and pa: "aligned 4096 pa"
  defines "i \<equiv> unat (drop_bit 22 va)" and "j \<equiv> unat (drop_bit 12 va AND 0x3FF)"
  assumes i: "i < 512" and j: "j < 1024"
  defines "T \<equiv> S \<union> span pd 4096 \<union> tables m pd"
  obtains (fail) "stock m = 0" and "\<not> present (pde m pd i)"
      and "alloc_pt_loop alloc pd f (Suc n) va pa m = Inl NullDeref"
  | (step) m' S' where
      "alloc_pt_loop alloc pd f (Suc n) va pa m = alloc_pt_loop alloc pd f n (va + 0x1000) (pa + 0x1000) m'"
      and "owns m' S'" and "S' \<subseteq> S" and "pd_inv m' pd S'" and "same_outside T m m'" and "tables m' pd \<subseteq> T"
      and "\<forall>i' < 512. \<forall>j' < 1024. lookup m' pd i' j' = (if i' = i \<and> j' = j then Some (pa OR f) else lookup m pd i' j')"
      and "\<forall>i'. 512 \<le> i' \<longrightarrow> i' < 1024 \<longrightarrow> pde m' pd i' = pde m pd i'"
      and "\<forall>i' < 512. present (pde m' pd i') \<longleftrightarrow> i' = i \<or> present (pde m pd i')"
      and "stock m \<le> stock m' + (if present (pde m pd i) then 0 else 1)"
proof (cases "present (pde m pd i)")
  case True
  let ?m1 = "write32 m (pd + 4 * of_nat i) (pde m pd i OR f)"
  let ?m2 = "write32 ?m1 (table (pde ?m1 pd i) + 4 * of_nat j) (pa OR f)"
  note r = refresh_pde [OF inv i True f(1)]
  have "alloc_pt_loop alloc pd f (Suc n) va pa m = alloc_pt_loop alloc pd f n (va + 0x1000) (pa + 0x1000) ?m2"
    using True r(4) by (simp add: Let_def i_def j_def pde_def present_def table_def page_frame [OF pa])
  moreover have mT: "same_outside T m ?m1" "tables ?m1 pd \<subseteq> T"
    using r(5) same_outside_mono [OF r(8), of T] by (auto simp: T_def)
  note st = mapped_step [OF r(6) i r(3) j f(2) r(7) r(2) mT, of pa]
  moreover have o: "same_outside (span pd 4096 \<union> tables m pd) m ?m2"
    using same_outside_trans [OF r(8) write_pte(5) [OF r(6) i r(3) j, of "pa OR f"]] f(2) r(5)
    by (auto simp: present_def bit.conj_disj_distrib2 or_eq_0_iff)
  have d: "(span pd 4096 \<union> tables m pd) \<inter> S = {}" using inv by (auto simp: pd_inv_def)
  note owns_frame [OF own o d] stock_frame [OF own o d]
  ultimately show thesis using step [of ?m2 S] mT(2) True by auto
next
  case False
  from alloc_page [OF own] obtain pt m0 S' where
    al: "alloc 0x1000 m = Inr (pt, m0)" "owns m0 S'" "S' \<subseteq> S" "same_outside S m m0" "aligned 4096 pt"
      "pt \<noteq> 0 \<longrightarrow> span pt 4096 \<subseteq> S \<and> span pt 4096 \<inter> S' = {}" "stock m \<le> Suc (stock m0)" "pt = 0 \<longrightarrow> stock m = 0" .
  show thesis
  proof (cases "pt = 0")
    case True
    then show thesis using fail al(1,8) False by (simp add: i_def pde_def present_def Let_def)
  next
    case pt: False
    have sp: "span pt 4096 \<subseteq> S" "span pt 4096 \<inter> S' = {}" using al(6) pt by auto
    have "pt \<in> span pt 4096" by (simp add: span_def)
    then have "0x80000000 \<le> pt" using sp(1) hi by (auto simp: high_def)
    let ?m1 = "write32 (memsetl m0 pt 0 1024) (pd + 4 * of_nat i) ((v2p pt AND 0xFFFFF000) OR f)"
    let ?m2 = "write32 ?m1 (table (pde ?m1 pd i) + 4 * of_nat j) (pa OR f)"
    note r = fresh_pde [OF inv i False f al(4,5) \<open>0x80000000 \<le> pt\<close> sp(1) al(3) sp(2)]
    have "alloc_pt_loop alloc pd f (Suc n) va pa m = alloc_pt_loop alloc pd f n (va + 0x1000) (pa + 0x1000) ?m2"
      using False r(3) al(1) pt by (simp add: Let_def i_def j_def pde_def present_def page_frame [OF pa])
    moreover have mT: "same_outside T m ?m1" "tables ?m1 pd \<subseteq> T"
      using r(4) same_outside_mono [OF r(7), of T] sp(1) by (auto simp: T_def)
    note st = mapped_step [OF r(5) i r(2) j f(2) r(6) r(1) mT, of pa]
    moreover have o: "same_outside ((span pd 4096 \<union> span pt 4096) \<union> tables ?m1 pd) m0 ?m2"
      using same_outside_trans [OF r(8) write_pte(5) [OF r(5) i r(2) j, of "pa OR f"]] f(2)
      by (auto simp: present_def bit.conj_disj_distrib2 or_eq_0_iff)
    have d: "(span pd 4096 \<union> span pt 4096 \<union> tables ?m1 pd) \<inter> S' = {}"
      using inv sp al(3) r(4) by (auto simp: pd_inv_def)
    note owns_frame [OF al(2) o d] stock_frame [OF al(2) o d]
    ultimately show thesis using step [of ?m2 S'] al(3,7) mT(2) False by auto
  qed
qed

lemma alloc_pt_loop_maps:
  fixes va pa :: u32
  assumes "owns m S" and hi: "S \<subseteq> high" and "pd_inv m pd S"
    and f: "f < 0x1000" "present f" and "aligned 4096 pa" and "aligned 4096 va"
    and "unat va div 4096 + n \<le> 524288"
  shows "(stock m < card (missing m pd (unat va div 4096) n) \<and> alloc_pt_loop alloc pd f n va pa m = Inl NullDeref) \<or>
    (\<exists>m' S'. alloc_pt_loop alloc pd f n va pa m = Inr m' \<and> owns m' S' \<and> S' \<subseteq> S \<and> pd_inv m' pd S' \<and>
      same_outside (S \<union> span pd 4096 \<union> tables m pd) m m' \<and> tables m' pd \<subseteq> S \<union> span pd 4096 \<union> tables m pd \<and>
      (\<forall>q < 524288. user_page m' pd q = (if unat va div 4096 \<le> q \<and> q < unat va div 4096 + n
         then Some ((pa + 4096 * of_nat (q - unat va div 4096)) OR f) else user_page m pd q)) \<and>
      (\<forall>i. 512 \<le> i \<longrightarrow> i < 1024 \<longrightarrow> pde m' pd i = pde m pd i) \<and>
      stock m \<le> stock m' + card (missing m pd (unat va div 4096) n))"
  using assms(1-3,6-8)
proof (induction n arbitrary: m S va pa)
  case 0
  then show ?case by (intro disjI2 exI [of _ m] exI [of _ S]) auto
next
  case (Suc n)
  let ?q = "unat va div 4096" and ?T = "S \<union> span pd 4096 \<union> tables m pd"
  note ix = page_indices [of va]
  have i: "unat (drop_bit 22 va) < 512" using Suc.prems(6) ix(1) by (simp add: less_mult_imp_div_less)
  have j: "unat (drop_bit 12 va AND 0x3FF) < 1024" using ix(2) by simp
  show ?case
  proof (rule alloc_pt_step [OF Suc.prems(1-3) f Suc.prems(4) i j, where n = n])
    assume "stock m = 0" "\<not> present (pde m pd (unat (drop_bit 22 va)))" "alloc_pt_loop alloc pd f (Suc n) va pa m = Inl NullDeref"
    moreover from this have "?q div 1024 \<in> missing m pd ?q (Suc n)" using ix(1) by (auto simp: missing_def)
    then have "0 < card (missing m pd ?q (Suc n))" by (auto simp: card_gt_0_iff)
    ultimately show ?case by (simp del: alloc_pt_loop.simps)
  next
    fix m1 S1
    assume st: "alloc_pt_loop alloc pd f (Suc n) va pa m = alloc_pt_loop alloc pd f n (va + 0x1000) (pa + 0x1000) m1"
      "owns m1 S1" "S1 \<subseteq> S" "pd_inv m1 pd S1" "same_outside ?T m m1" "tables m1 pd \<subseteq> ?T"
      "\<forall>i' < 512. \<forall>j' < 1024. lookup m1 pd i' j' = (if i' = unat (drop_bit 22 va) \<and> j' = unat (drop_bit 12 va AND 0x3FF)
         then Some (pa OR f) else lookup m pd i' j')"
      "\<forall>i'. 512 \<le> i' \<longrightarrow> i' < 1024 \<longrightarrow> pde m1 pd i' = pde m pd i'"
      "\<forall>i' < 512. present (pde m1 pd i') \<longleftrightarrow> i' = unat (drop_bit 22 va) \<or> present (pde m pd i')"
      "stock m \<le> stock m1 + (if present (pde m pd (unat (drop_bit 22 va))) then 0 else 1)"
    have one: "user_page m1 pd q = (if q = ?q then Some (pa OR f) else user_page m pd q)" if "q < 524288" for q
    proof -
      have "q div 1024 < 512" using that by (simp add: less_mult_imp_div_less)
      then show ?thesis using st(7) ix page_index_eq [of q ?q] by (auto simp: user_page_def)
    qed
    have va: "unat (va + 0x1000) div 4096 = ?q + 1" "aligned 4096 (va + 0x1000)"
      using next_page [OF Suc.prems(5)] Suc.prems(6) by simp_all
    have pa: "aligned 4096 (pa + 0x1000)" using Suc.prems(4) by (rule aligned_next)
    have n: "unat (va + 0x1000) div 4096 + n \<le> 524288" using va(1) Suc.prems(6) by simp
    have "S1 \<subseteq> high" using st(3) Suc.prems(2) by blast
    note IH = Suc.IH [OF st(2) this st(4) pa va(2) n]
    note mis = missing_step [OF st(9) [unfolded ix(1)] Suc.prems(6)]
    have used: "card (missing m1 pd (unat (va + 0x1000) div 4096) n) + stock m \<le> card (missing m pd ?q (Suc n)) + stock m1"
    proof -
      let ?P = "present (pde m pd (?q div 1024))"
      have "card (missing m1 pd (Suc ?q) n) + (if ?P then 0 else 1) \<le> card (missing m pd ?q (Suc n))"
        by (rule card_step [OF mis finite_missing])
      then show ?thesis using st(10) va(1) by (simp add: ix(1))
    qed
    from IH show ?case
    proof (elim disjE exE conjE)
      assume ih: "stock m1 < card (missing m1 pd (unat (va + 0x1000) div 4096) n)"
        "alloc_pt_loop alloc pd f n (va + 0x1000) (pa + 0x1000) m1 = Inl NullDeref"
      have "stock m < card (missing m pd ?q (Suc n))" using used ih(1) by linarith
      then show ?case using st(1) ih(2) by (simp del: alloc_pt_loop.simps)
    next
      fix m' S'
      assume ih: "alloc_pt_loop alloc pd f n (va + 0x1000) (pa + 0x1000) m1 = Inr m'" "owns m' S'" "S' \<subseteq> S1"
        "pd_inv m' pd S'" "same_outside (S1 \<union> span pd 4096 \<union> tables m1 pd) m1 m'"
        "tables m' pd \<subseteq> S1 \<union> span pd 4096 \<union> tables m1 pd"
        "\<forall>q < 524288. user_page m' pd q = (if unat (va + 0x1000) div 4096 \<le> q \<and> q < unat (va + 0x1000) div 4096 + n
           then Some ((pa + 0x1000 + 4096 * of_nat (q - unat (va + 0x1000) div 4096)) OR f) else user_page m1 pd q)"
        "\<forall>i. 512 \<le> i \<longrightarrow> i < 1024 \<longrightarrow> pde m' pd i = pde m1 pd i"
        "stock m1 \<le> stock m' + card (missing m1 pd (unat (va + 0x1000) div 4096) n)"
      have sub: "S1 \<union> span pd 4096 \<union> tables m1 pd \<subseteq> ?T" using st(3,6) by blast
      have "same_outside ?T m m'" using same_outside_trans [OF st(5) same_outside_mono [OF ih(5) sub]] by simp
      moreover have "user_page m' pd q = (if ?q \<le> q \<and> q < ?q + Suc n
          then Some ((pa + 4096 * of_nat (q - ?q)) OR f) else user_page m pd q)" if "q < 524288" for q
      proof (cases "?q < q \<and> q < ?q + Suc n")
        case True
        then have "pa + 0x1000 + 4096 * of_nat (q - (?q + 1)) = pa + 4096 * (of_nat (q - ?q) :: u32)"
          by (simp add: of_nat_diff algebra_simps)
        then show ?thesis using ih(7) that va(1) True by auto
      next
        case False
        then show ?thesis using ih(7) that va(1) one [OF that] by auto
      qed
      moreover have "stock m \<le> stock m' + card (missing m pd ?q (Suc n))" using used ih(9) by linarith
      ultimately show ?case
        using st(1,3,8) ih(1-4,6,8) sub by (intro disjI2 exI [of _ m'] exI [of _ S']) (auto simp del: alloc_pt_loop.simps)
    qed
  qed
qed

lemma copykvm_copies:
  assumes own: "owns m S" and kpd: "span kpagedir 4096 \<inter> S = {}"
  shows "(stock m = 0 \<and> copykvm alloc kpagedir m = Inl NullDeref) \<or>
    (\<exists>pd m' S'. copykvm alloc kpagedir m = Inr (pd, m') \<and> pd \<noteq> 0 \<and> aligned 4096 pd \<and> owns m' S' \<and> S' \<subseteq> S \<and>
      span pd 4096 \<subseteq> S \<and> pd_inv m' pd S' \<and> same_outside S m m' \<and>
      (\<forall>i < 1024. pde m' pd i = (if i < 512 then 0 else pde m kpagedir i)) \<and> stock m \<le> Suc (stock m') \<and>
      (\<exists>m0. alloc 0x1000 m = Inr (pd, m0) \<and> same_outside (span pd 4096) m0 m'))"
proof -
  from alloc_page [OF own] obtain pd m0 S' where
    al: "alloc 0x1000 m = Inr (pd, m0)" "owns m0 S'" "S' \<subseteq> S" "same_outside S m m0" "aligned 4096 pd"
      "pd \<noteq> 0 \<longrightarrow> span pd 4096 \<subseteq> S \<and> span pd 4096 \<inter> S' = {}" "stock m \<le> Suc (stock m0)" "pd = 0 \<longrightarrow> stock m = 0" .
  show ?thesis
  proof (cases "pd = 0")
    case True
    then show ?thesis using al(1,8) by (simp add: copykvm_def)
  next
    case False
    then have sp: "span pd 4096 \<subseteq> S" "span pd 4096 \<inter> S' = {}" using al(6) by auto
    let ?m1 = "memsetl m0 pd 0 1024" and ?m2 = "movsl_up 512 (pd + 0x800) (kpagedir + 0x800) (memsetl m0 pd 0 1024)"
    have eq: "copykvm alloc kpagedir m = Inr (pd, ?m2)"
      using al(1) False by (simp add: copykvm_def memcpyl_def koffset)
    have d: "span pd 4096 \<inter> span kpagedir 4096 = {}" using kpd sp(1) by blast
    have out1: "same_outside (span pd 4096) m0 ?m1" using same_outside_memsetl [of pd 1024 m0 0] by simp
    have mm1: "same_outside S m ?m1" using same_outside_trans [OF al(4) out1] sp(1) by (simp add: Un_absorb2)
    have hi: "span (pd + 0x800) 2048 \<subseteq> span pd 4096" "span (kpagedir + 0x800) 2048 \<subseteq> span kpagedir 4096"
      by (rule span_sub; simp)+
    then have "span (pd + 0x800) (4 * 512) \<inter> span (kpagedir + 0x800) (4 * 512) = {}" using d by auto
    from movsl_up_copies [OF this, of ?m1]
    have cp: "same_outside (span (pd + 0x800) 2048) ?m1 ?m2"
      "\<forall>k < 512. read32 ?m2 (pd + 0x800 + 4 * of_nat k) = read32 ?m1 (kpagedir + 0x800 + 4 * of_nat k)"
      by simp_all
    have lo: "pde ?m2 pd i = 0" if "i < 512" for i
    proof -
      have "span (pd + 4 * of_nat i) 4 \<subseteq> span pd 2048"
        using that by (intro span_sub) (simp add: unat_word_ariths unat_of_nat)
      moreover have "span pd 2048 \<inter> span (pd + 0x800) 2048 = {}"
        using span_split_disjoint [of "0x800" 4096 pd] by simp
      ultimately have "read32 ?m2 (pd + 4 * of_nat i) = read32 ?m1 (pd + 4 * of_nat i)"
        using same_outside_read32 [OF cp(1)] by blast
      then show ?thesis using that read32_memsetl_inside [of i 1024] by (simp add: pde_def)
    qed
    have up: "pde ?m2 pd i = pde m kpagedir i" if ii: "512 \<le> i" "i < 1024" for i
    proof -
      obtain k where k: "i = 512 + k" using le_Suc_ex [OF ii(1)] by blast
      have of: "x + 4 * of_nat i = x + 0x800 + 4 * of_nat k" for x :: u32
        unfolding k of_nat_add by (simp add: distrib_left add.assoc)
      have "k < 512" using k ii(2) by simp
      then have "pde ?m2 pd i = pde ?m1 kpagedir i" unfolding pde_def of using cp(2) by blast
      then show ?thesis using pde_outside [OF mm1 kpd ii(2)] by simp
    qed
    have out2: "same_outside (span pd 4096) m0 ?m2"
      using same_outside_trans [OF out1 same_outside_mono [OF cp(1) hi(1)]] by simp
    have "owns ?m2 S'" by (rule owns_frame [OF al(2) out2 sp(2)])
    moreover have "tables ?m2 pd = {}" using lo by (auto simp: tables_def present_def)
    then have "pd_inv ?m2 pd S'" using sp(2) lo by (simp add: pd_inv_def present_def)
    moreover have "same_outside S m ?m2"
      using same_outside_trans [OF al(4) out2] sp(1) by (simp add: Un_absorb2)
    moreover have "stock m \<le> Suc (stock ?m2)" using al(7) stock_frame [OF al(2) out2 sp(2)] by simp
    ultimately show ?thesis
      using eq False al(1,3,5) sp(1) lo up out2 by (intro disjI2 exI [of _ pd] exI [of _ ?m2] exI [of _ S']) auto
  qed
qed

end

section \<open>Properties\<close>

text \<open>A small kernel memory in the upper half: free pages from 0x80002000 on, a page directory at
  0x80001000.\<close>

definition demo_pages :: blocks where
  "demo_pages = [(0x80002000, 0x1000), (0x80008000, 0x4000)]"

definition demo_kmem :: mem where
  "demo_kmem = write32 (write32 (write32 (write32 (write32 (write32 (write32 (\<lambda>_. 0)
     0x80000100 0x80002000) 0x80002000 0x1000) 0x80002004 0x80008000) 0x80002008 0x80000100)
     0x80008000 0x4000) 0x80008004 0) 0x80008008 0x80002004"

lemma demo_kmem_inv: "freelist_inv 0x80000100 demo_kmem demo_pages"
  by (simp add: freelist_inv_def demo_kmem_def demo_pages_def dlist_def block_ok_def
      block_apart_def aligned_def mem_simps apart_def)

lemma span_high:
  assumes "0x80000000 \<le> a" and "unat a + n \<le> 2 ^ 32"
  shows "span a n \<subseteq> high"
proof
  fix x assume "x \<in> span a n"
  then have "unat (x - a) < n" by (simp add: span_def)
  then have "unat a \<le> unat x" using assms(2) unat_lt32 [of a] by (simp add: u32_sub split: if_splits)
  then show "x \<in> high" using assms(1) by (simp add: high_def word_le_nat_alt)
qed

lemma demo_kmem_owned: "owned 0x80000100 demo_pages \<subseteq> high" "span 0x80001000 4096 \<inter> owned 0x80000100 demo_pages = {}"
proof -
  have sp: "span 0x80000100 4 \<subseteq> high" "span 0x80002000 4096 \<subseteq> high" "span 0x80008000 16384 \<subseteq> high"
    by (rule span_high; simp)+
  then show "owned 0x80000100 demo_pages \<subseteq> high" by (auto simp: owned_def demo_pages_def block_span_def)
  have "blocks_ok 0x80000100 ((0x80001000, 0x1000) # demo_pages)"
    by (simp add: demo_pages_def block_ok_def block_apart_def aligned_def apart_def)
  from free_block_outside [OF this] show "span 0x80001000 4096 \<inter> owned 0x80000100 demo_pages = {}" by (simp add: block_span_def)
qed

lemma demo_kmem_pde:
  assumes "i < 1024"
  shows "pde demo_kmem 0x80001000 i = 0"
proof -
  let ?S = "owned 0x80000100 demo_pages"
  have sub: "span 0x80000100 4 \<subseteq> ?S" "span (0x80002000 + i) 4 \<subseteq> ?S" "span (0x80008000 + i) 4 \<subseteq> ?S"
    if "unat i \<le> 8" for i
    using span_sub [of i 4 4096 "0x80002000"] span_sub [of i 4 16384 "0x80008000"] that
    by (auto simp: owned_def demo_pages_def block_span_def)
  have "same_outside ?S (\<lambda>_. 0) demo_kmem"
    unfolding demo_kmem_def
    using sub [of 0] sub [of 4] sub [of 8] by (intro same_outside_write32_in same_outside_refl) simp_all
  from pde_outside [OF this demo_kmem_owned(2) assms] show ?thesis by (simp add: pde_def read32_def)
qed

lemma demo_kmem_pd: "tables demo_kmem 0x80001000 = {}" "pd_inv demo_kmem 0x80001000 (owned 0x80000100 demo_pages)"
  using demo_kmem_owned(2) demo_kmem_pde by (simp_all add: pd_inv_def tables_def present_def)

text \<open>\<^verbatim>\<open>alloc_pt\<close> in terms of what the page allocator owns.\<close>

lemma alloc_pt_maps:
  assumes "freelist_owns fl m S" and "S \<subseteq> high" and "pd_inv m pd S" and "flags < 0x1000" and "present flags"
    and "unat (pg_rounddown va) + unat (pg_roundup len) \<le> 2 ^ 31"
  defines "q0 \<equiv> unat (pg_rounddown va) div 4096" and "n \<equiv> unat (pg_roundup len) div 4096"
  shows "(freelist_stock fl m < card (missing m pd q0 n) \<and> alloc_pt (alloc_pages fl) pd va pa len flags m = Inl NullDeref) \<or>
    (\<exists>m' S'. alloc_pt (alloc_pages fl) pd va pa len flags m = Inr m' \<and> freelist_owns fl m' S' \<and> S' \<subseteq> S \<and> pd_inv m' pd S' \<and>
      same_outside (S \<union> span pd 4096 \<union> tables m pd) m m' \<and> tables m' pd \<subseteq> S \<union> span pd 4096 \<union> tables m pd \<and>
      (\<forall>q < 2 ^ 19. user_page m' pd q = (if q0 \<le> q \<and> q < q0 + n
         then Some ((pg_rounddown pa + 4096 * of_nat (q - q0)) OR flags) else user_page m pd q)) \<and>
      (\<forall>i. 512 \<le> i \<longrightarrow> i < 1024 \<longrightarrow> pde m' pd i = pde m pd i) \<and>
      freelist_stock fl m \<le> freelist_stock fl m' + card (missing m pd q0 n))"
proof -
  have "unat (pg_rounddown va) = 4096 * q0" "unat (pg_roundup len) = 4096 * n"
    using aligned_pg_rounddown [of va] aligned_pg_roundup [of len]
    by (simp_all only: aligned_def q0_def n_def mod_0_imp_dvd dvd_mult_div_cancel)
  then have fits: "unat (pg_rounddown va) div 4096 + n \<le> 524288" using assms(6) by (simp add: q0_def)
  have eq: "alloc_pt (alloc_pages fl) pd va pa len flags m =
      alloc_pt_loop (alloc_pages fl) pd flags n (pg_rounddown va) (pg_rounddown pa) m"
    by (simp add: alloc_pt_def n_def)
  have "(2 :: nat) ^ 19 = 524288" by simp
  with pages.alloc_pt_loop_maps [OF assms(1-5) aligned_pg_rounddown [of pa] aligned_pg_rounddown fits, folded eq, folded q0_def]
  show ?thesis by metis
qed

text \<open>C9: \<^verbatim>\<open>alloc_pt\<close> for a range of user addresses either maps every page of it to the consecutive
  physical pages from \<^verbatim>\<open>pa\<close> on with the given flags, allocating page tables as needed, and leaves
  every other page, the kernel half of the directory and all memory but the directory, its tables
  and the allocator's as they were; or it dereferences NULL, and then the free list has fewer blocks
  than page tables are missing.\<close>

theorem alloc_pt_correct:
  assumes "freelist_inv fl m bs" and "owned fl bs \<subseteq> high" and "pd_inv m pd (owned fl bs)"
    and "flags < 0x1000" and "present flags"
    and "unat (pg_rounddown va) + unat (pg_roundup len) \<le> 2 ^ 31"
  defines "q0 \<equiv> unat (pg_rounddown va) div 4096" and "n \<equiv> unat (pg_roundup len) div 4096"
  shows "(length bs < card (missing m pd q0 n) \<and> alloc_pt (alloc_pages fl) pd va pa len flags m = Inl NullDeref) \<or>
    (\<exists>m' bs'. alloc_pt (alloc_pages fl) pd va pa len flags m = Inr m' \<and> freelist_inv fl m' bs' \<and>
      owned fl bs' \<subseteq> owned fl bs \<and> pd_inv m' pd (owned fl bs') \<and>
      same_outside (owned fl bs \<union> span pd 4096 \<union> tables m pd) m m' \<and>
      (\<forall>q < 2 ^ 19. user_page m' pd q = (if q0 \<le> q \<and> q < q0 + n
         then Some ((pg_rounddown pa + 4096 * of_nat (q - q0)) OR flags) else user_page m pd q)) \<and>
      (\<forall>i. 512 \<le> i \<longrightarrow> i < 1024 \<longrightarrow> pde m' pd i = pde m pd i))"
  using alloc_pt_maps [of fl m "owned fl bs" pd flags va len pa] assms freelist_stock_eq [OF assms(1)]
  by (fastforce simp: freelist_owns_def q0_def n_def)

theorem alloc_pt_correct_witness:
  "\<exists>m'. alloc_pt (alloc_pages 0x80000100) 0x80001000 0x400000 0x300000 0x2000 7 demo_kmem = Inr m' \<and>
     user_page m' 0x80001000 0x401 = Some 0x301007"
proof -
  have r: "pg_rounddown 0x400000 = 0x400000" "pg_roundup 0x2000 = 0x2000" "pg_rounddown 0x300000 = 0x300000"
    by (simp_all add: pg_rounddown_def rounddown_def pg_roundup_def roundup_def)
  have "present 7" "(7 :: u32) < 0x1000" "unat (pg_rounddown 0x400000) + unat (pg_roundup 0x2000) \<le> 2 ^ 31"
    by (simp_all add: present_def r)
  note c = alloc_pt_correct [OF demo_kmem_inv demo_kmem_owned(1) demo_kmem_pd(2) this(2,1,3), of "0x300000", unfolded r]
  have "missing demo_kmem 0x80001000 1024 2 \<subseteq> {1}"
    by (auto simp: missing_def intro: div_nat_eqI)
  then have "card (missing demo_kmem 0x80001000 1024 2) \<le> card {1 :: nat}" by (intro card_mono) simp_all
  then have f: "\<not> length demo_pages < card (missing demo_kmem 0x80001000 1024 2)" by (simp add: demo_pages_def)
  obtain m' where m': "alloc_pt (alloc_pages 0x80000100) 0x80001000 0x400000 0x300000 0x2000 7 demo_kmem = Inr m'"
    "\<forall>q < 2 ^ 19. user_page m' 0x80001000 q = (if 1024 \<le> q \<and> q < 1026 then Some ((0x300000 + 4096 * of_nat (q - 1024)) OR 7)
       else user_page demo_kmem 0x80001000 q)" using c f by auto
  from m'(2) [rule_format, of "0x401"] have "user_page m' 0x80001000 0x401 = Some 0x301007" by simp
  with m'(1) show ?thesis by blast
qed

lemma no_user_pages:
  assumes "\<forall>i < 512. pde m pd i = 0" and "q < 2 ^ 19"
  shows "user_page m pd q = None"
proof -
  have "q div 1024 < 512" using assms(2) by (simp add: less_mult_imp_div_less)
  then show ?thesis using assms(1) by (simp add: user_page_def lookup_def present_def)
qed

text \<open>With a free page left, \<^verbatim>\<open>copykvm\<close> returns a fresh page directory that maps no user page and
  whose kernel half equals that of \<^verbatim>\<open>kpagedir\<close>; it is well formed for \<^verbatim>\<open>alloc_pt\<close>.\<close>

theorem copykvm_correct:
  assumes "freelist_inv fl m bs" and "bs \<noteq> []" and "span kpagedir 4096 \<inter> owned fl bs = {}"
  shows "\<exists>pd m' bs'. copykvm (alloc_pages fl) kpagedir m = Inr (pd, m') \<and> freelist_inv fl m' bs' \<and>
    owned fl bs' \<subseteq> owned fl bs \<and> span pd 4096 \<subseteq> owned fl bs \<and> pd_inv m' pd (owned fl bs') \<and>
    same_outside (owned fl bs) m m' \<and>
    (\<forall>i < 1024. pde m' pd i = (if i < 512 then 0 else pde m kpagedir i)) \<and>
    (\<forall>q < 2 ^ 19. user_page m' pd q = None)"
proof -
  have "freelist_owns fl m (owned fl bs)" using assms(1) by (auto simp: freelist_owns_def)
  from pages.copykvm_copies [OF this assms(3)] show ?thesis
  proof (elim disjE exE conjE)
    assume "freelist_stock fl m = 0"
    then show ?thesis using freelist_stock_eq [OF assms(1)] assms(2) by simp
  next
    fix pd m' S'
    assume *: "copykvm (alloc_pages fl) kpagedir m = Inr (pd, m')" "freelist_owns fl m' S'" "S' \<subseteq> owned fl bs"
      "span pd 4096 \<subseteq> owned fl bs" "pd_inv m' pd S'" "same_outside (owned fl bs) m m'"
      "\<forall>i < 1024. pde m' pd i = (if i < 512 then 0 else pde m kpagedir i)"
    then obtain bs' where "freelist_inv fl m' bs'" "S' = owned fl bs'" by (auto simp: freelist_owns_def)
    moreover have "user_page m' pd q = None" if "q < 2 ^ 19" for q
      by (rule no_user_pages [OF _ that]) (use *(7) in simp)
    ultimately show ?thesis using * by blast
  qed
qed

theorem copykvm_correct_witness:
  "\<exists>pd m'. copykvm (alloc_pages 0x80000100) 0x80001000 demo_kmem = Inr (pd, m') \<and>
     (\<forall>q < 2 ^ 19. user_page m' pd q = None)"
proof -
  have "demo_pages \<noteq> []" by (simp add: demo_pages_def)
  from copykvm_correct [OF demo_kmem_inv this demo_kmem_owned(2)] show ?thesis by blast
qed

end
