(* ===== verification/Init_Mem.thy ===== *)
theory Init_Mem
  imports Slob Memmap "HOL-Library.Multiset"
begin

text \<open>
  \<^verbatim>\<open>init_mem\<close> of \<^verbatim>\<open>kernel/mem.c\<close>: it makes the page allocator's free list from the memory map and
  the kernel heap from a first allocation of 64 KiB. A new block goes behind the first block that
  is larger, or behind the last one (\<open>ins_after\<close>), so the list it builds need not be sorted by size.
\<close>

section \<open>The operation\<close>

fun init_mem_loop :: "u32 \<Rightarrow> multiboot_mmap_entry list \<Rightarrow> mem \<Rightarrow> mem res" where
  "init_mem_loop freelist [] m = Inr m"
| "init_mem_loop freelist (e # es) m =
     (if mme_type e \<noteq> MULTIBOOT_MEMORY_AVAILABLE then init_mem_loop freelist es m
      else let p = p2v (ucast (mme_addr e));
               m = write32 m p (ucast (mme_len e)) in
        if LIST_EMPTY m freelist then init_mem_loop freelist es (LIST_INSERT_HEAD m 4 freelist p)
        else bindE (ends (foreach_safe m 4 (\<lambda>n tmp. read32 m p < read32 m n \<or> tmp = 0) None
                      (LIST_FIRST m freelist)))
               (\<lambda>(n, tmp). if n = 0 then Inl NullDeref
                  else init_mem_loop freelist es (LIST_INSERT_AFTER m 4 n p)))"

definition init_mem :: "u32 \<Rightarrow> u32 \<Rightarrow> kinfo \<Rightarrow> u32 \<Rightarrow> mem \<Rightarrow> (u32 \<times> mem) res" where
  "init_mem freelist heap k cr3 m =
     (let m = LIST_INIT m freelist in
      bindE (init_mem_loop freelist (take (mmap_n k) (memmap k)) m) (\<lambda>m.
      bindE (alloc_pages freelist 0x10000 m) (\<lambda>(sb, m).
        if sb = 0 then Inl NullDeref
        else let m = write32 m sb 0x10000;
                 m = SLIST_INIT m heap;
                 m = SLIST_INSERT_HEAD m 4 heap sb;
                 kpagedir = p2v cr3 in
          Inr (kpagedir, m))))"

section \<open>The free list it builds\<close>

fun ins_after :: "u32 \<times> u32 \<Rightarrow> blocks \<Rightarrow> blocks" where
  "ins_after n [] = [n]"
| "ins_after n [b] = [b, n]"
| "ins_after n (b # c # bs) = (if snd n < snd b then b # n # c # bs else b # ins_after n (c # bs))"

definition entry_block :: "multiboot_mmap_entry \<Rightarrow> u32 \<times> u32" where
  "entry_block e = (p2v (ucast (mme_addr e)), ucast (mme_len e))"

definition offered :: "multiboot_mmap_entry list \<Rightarrow> blocks" where
  "offered es = map entry_block (filter (\<lambda>e. mme_type e = MULTIBOOT_MEMORY_AVAILABLE) es)"

lemma mset_ins_after: "mset (ins_after n bs) = add_mset n (mset bs)"
  by (induction n bs rule: ins_after.induct) auto

lemma find_pair_ins_after:
  assumes "bs \<noteq> []" and "\<forall>b \<in> set bs. rd (fst b) = snd b \<and> fst b \<noteq> 0"
  shows "\<exists>xs b ys. bs = xs @ b # ys \<and>
    find_pair (\<lambda>n tmp. s < rd n \<or> tmp = 0) (map fst bs) = Some (fst b, first0 (map fst ys)) \<and>
    ins_after (a, s) bs = xs @ b # (a, s) # ys"
  using assms
proof (induction "(a, s)" bs rule: ins_after.induct)
  case (2 b)
  then show ?case by (intro exI [of _ "[]"] exI [of _ b]) simp
next
  case (3 b c bs)
  show ?case
  proof (cases "s < snd b")
    case True
    then show ?thesis using 3 by (intro exI [of _ "[]"] exI [of _ b] exI [of _ "c # bs"]) simp
  next
    case False
    have "\<forall>b \<in> set (c # bs). rd (fst b) = snd b \<and> fst b \<noteq> 0" using "3.prems" by simp
    note IH = "3.hyps" [simplified snd_conv, OF False _ this]
    obtain xs d ys where *: "c # bs = xs @ d # ys"
      "find_pair (\<lambda>n tmp. s < rd n \<or> tmp = 0) (map fst (c # bs)) = Some (fst d, first0 (map fst ys))"
      "ins_after (a, s) (c # bs) = xs @ d # (a, s) # ys"
      using IH by blast
    have "find_pair (\<lambda>n tmp. s < rd n \<or> tmp = 0) (map fst (b # c # bs)) = Some (fst d, first0 (map fst ys))"
      using *(2) False "3.prems" by simp
    moreover have "ins_after (a, s) (b # c # bs) = (b # xs) @ d # (a, s) # ys" using *(3) False by simp
    moreover have "b # c # bs = (b # xs) @ d # ys" using *(1) by simp
    ultimately show ?thesis by blast
  qed
qed simp

lemma first_block:
  assumes "freelist_inv fl m []" and "blocks_ok fl [(p, s)]" and "read32 m p = s"
  shows "freelist_inv fl (LIST_INSERT_HEAD m 4 fl p) [(p, s)]"
    and "same_outside (owned fl [(p, s)]) m (LIST_INSERT_HEAD m 4 fl p)"
proof -
  let ?m = "LIST_INSERT_HEAD m 4 fl p" and ?cs = "dlcells 4 fl (map fst [(p, s)])"
  have d: "dlist m 4 fl []" using assms(1) by (simp add: freelist_inv_def)
  then have z: "read32 m fl = 0" using slist_first [OF dlist_sseg] by fastforce
  have "sep_cells ((p + 4) # (p + 4 + 4) # dlcells 4 fl [])"
    using sep_nodes_new [of 12 fl p "[]" 4] blocks_nodes [OF assms(2)] by simp
  then have "dlist ?m 4 fl (map fst [(p, s)])"
    using LIST_INSERT_HEAD_dlist [OF d] assms(2) by (simp add: block_ok_def)
  moreover have out: "same_outside (cellspan ?cs) m ?m"
    using assms(2) unfolding LIST_INSERT_HEAD_def Let_def
    by (auto simp: z mem_simps cellspan_def set_dlcells block_ok_def intro!: same_outside_write32_in)
  moreover have "read32 ?m p = s"
    using same_outside_read32 [OF out] size_cell_apart [OF assms(2), of "(p, s)"] assms(3) by simp
  ultimately show "freelist_inv fl ?m [(p, s)]" using assms(2) by (simp add: freelist_inv_def)
  show "same_outside (owned fl [(p, s)]) m ?m"
    using out cells_owned [OF assms(2)] by (rule same_outside_mono)
qed

lemma init_mem_step:
  assumes inv: "freelist_inv fl m bs" and ok: "blocks_ok fl ((p, s) # bs)"
  defines "m1 \<equiv> write32 m p s"
  obtains m2 where "if LIST_EMPTY m1 fl then m2 = LIST_INSERT_HEAD m1 4 fl p
      else \<exists>n tmp. n \<noteq> 0 \<and> foreach_safe m1 4 (\<lambda>n tmp. read32 m1 p < read32 m1 n \<or> tmp = 0) None (LIST_FIRST m1 fl) = Some (n, tmp) \<and>
        m2 = LIST_INSERT_AFTER m1 4 n p"
    and "freelist_inv fl m2 (ins_after (p, s) bs)" and "same_outside (owned fl ((p, s) # bs)) m m2"
proof -
  have sub: "span p 4 \<subseteq> block_span (p, s)"
    using ok block_size_ge [of fl "(p, s)"] span_mono [of 4 "unat s" p] by (simp add: block_span_def)
  have out1: "same_outside (span p 4) m m1" unfolding m1_def by (rule same_outside_write32)
  have "block_span (p, s) \<inter> owned fl bs = {}" by (rule free_block_outside [OF ok])
  then have inv1: "freelist_inv fl m1 bs" using freelist_inv_frame [OF inv out1] sub by blast
  have rp: "read32 m1 p = s" by (simp add: m1_def)
  have d1: "dlist m1 4 fl (map fst bs)" using inv1 by (simp add: freelist_inv_def)
  have first: "read32 m1 fl = first0 (map fst bs)" using slist_first [OF dlist_sseg [OF d1]] .
  have out: "same_outside (owned fl ((p, s) # bs)) m m2" if "same_outside (owned fl ((p, s) # bs)) m1 m2" for m2
    using same_outside_trans [OF out1 that] sub by (auto simp: owned_def intro: same_outside_mono)
  show thesis
  proof (cases "bs = []")
    case True
    then have "freelist_inv fl m1 []" "blocks_ok fl [(p, s)]" using inv1 ok by auto
    note f = first_block [OF this rp]
    show thesis
      using that [of "LIST_INSERT_HEAD m1 4 fl p"] f out True first
      by (auto simp: LIST_EMPTY_def LIST_FIRST_def)
  next
    case False
    have "\<forall>b \<in> set bs. read32 m1 (fst b) = snd b \<and> fst b \<noteq> 0"
      using inv1 ok by (auto simp: freelist_inv_def blocks_ok_def block_ok_def)
    from find_pair_ins_after [OF False this, of s p] obtain xs b ys where bs: "bs = xs @ b # ys"
      and fp: "find_pair (\<lambda>n tmp. s < read32 m1 n \<or> tmp = 0) (map fst bs) = Some (fst b, first0 (map fst ys))"
      and ins: "ins_after (p, s) bs = xs @ b # (p, s) # ys" by blast
    have b0: "fst b \<noteq> 0" using ok bs by (auto simp: blocks_ok_def block_ok_def)
    have "first0 (map fst bs) \<noteq> 0" using False ok by (cases bs) (auto simp: block_ok_def)
    then have ne: "\<not> LIST_EMPTY m1 fl" using first by (simp add: LIST_EMPTY_def LIST_FIRST_def)
    have "foreach_safe m1 4 (\<lambda>n tmp. read32 m1 p < read32 m1 n \<or> tmp = 0) None (LIST_FIRST m1 fl)
        = Some (fst b, Some (first0 (map fst ys)))"
      using dl.foreach_safe_holds [OF d1, of "\<lambda>n tmp. s < read32 m1 n \<or> tmp = 0" None] fp
      by (simp add: rp LIST_FIRST_def)
    moreover have "freelist_inv fl (LIST_INSERT_AFTER m1 4 (fst b) p) (ins_after (p, s) bs)"
        "same_outside (owned fl ((p, s) # bs)) m1 (LIST_INSERT_AFTER m1 4 (fst b) p)"
      using free_insert [OF inv1 [unfolded bs] ok [unfolded bs] rp, of _ False] ins by (auto simp: bs)
    ultimately show thesis
      using that [of "LIST_INSERT_AFTER m1 4 (fst b) p"] out b0 ne by auto
  qed
qed

lemma init_mem_loop_builds:
  assumes "freelist_inv fl m bs" and "blocks_ok fl (offered es @ bs)"
  shows "\<exists>m' bs'. init_mem_loop fl es m = Inr m' \<and> freelist_inv fl m' bs' \<and>
    mset bs' = mset (offered es @ bs) \<and> same_outside (owned fl (offered es @ bs)) m m'"
  using assms
proof (induction es arbitrary: m bs)
  case Nil
  then show ?case by (auto simp: offered_def)
next
  case (Cons e es)
  show ?case
  proof (cases "mme_type e = MULTIBOOT_MEMORY_AVAILABLE")
    case False
    then show ?thesis using Cons by (simp add: offered_def)
  next
    case True
    obtain p s where ps: "entry_block e = (p, s)" by (cases "entry_block e")
    then have of: "offered (e # es) = (p, s) # offered es" using True by (simp add: offered_def)
    have all: "blocks_ok fl ((p, s) # offered es @ bs)" using Cons.prems(2) of by simp
    then have ok: "blocks_ok fl ((p, s) # bs)" by (auto simp: blocks_ok_append)
    obtain m2 where st: "if LIST_EMPTY (write32 m p s) fl then m2 = LIST_INSERT_HEAD (write32 m p s) 4 fl p
      else \<exists>n tmp. n \<noteq> 0 \<and> foreach_safe (write32 m p s) 4 (\<lambda>n tmp. read32 (write32 m p s) p < read32 (write32 m p s) n \<or> tmp = 0)
           None (LIST_FIRST (write32 m p s) fl) = Some (n, tmp) \<and> m2 = LIST_INSERT_AFTER (write32 m p s) 4 n p"
      and m2: "freelist_inv fl m2 (ins_after (p, s) bs)" "same_outside (owned fl ((p, s) # bs)) m m2"
      using init_mem_step [OF Cons.prems(1) ok] by blast
    have run: "init_mem_loop fl (e # es) m = init_mem_loop fl es m2"
      using True ps st by (auto simp: Let_def entry_block_def split: if_splits)
    have set: "set (ins_after (p, s) bs) = insert (p, s) (set bs)"
      using mset_ins_after [of "(p, s)" bs] by (metis set_mset_add_mset_insert set_mset_mset)
    have "blocks_ok fl (offered es @ ins_after (p, s) bs)"
      using all set m2(1) by (auto simp: blocks_ok_append freelist_inv_def block_apart_sym)
    from Cons.IH [OF m2(1) this] obtain m' bs' where ih: "init_mem_loop fl es m2 = Inr m'"
      "freelist_inv fl m' bs'" "mset bs' = mset (offered es @ ins_after (p, s) bs)"
      "same_outside (owned fl (offered es @ ins_after (p, s) bs)) m2 m'" by blast
    have "same_outside (owned fl (offered (e # es) @ bs)) m m'"
      using same_outside_trans [OF m2(2) ih(4)] set by (auto simp: of owned_def intro: same_outside_mono)
    then show ?thesis using run ih by (auto simp: of mset_ins_after)
  qed
qed

section \<open>Properties\<close>

lemma empty_freelist: "freelist_inv fl (LIST_INIT m fl) []"
  by (simp add: freelist_inv_def dlist_def LIST_INIT_def)

lemma heap_of_one_block:
  fixes m :: mem
  assumes ok: "chunk_ok hp (sb, 0x10000)"
  defines "m' \<equiv> SLIST_INSERT_HEAD (SLIST_INIT (write32 m sb 0x10000) hp) 4 hp sb"
  shows "heap_inv hp m' [(sb, 0x10000)]" and "same_outside (span hp 4 \<union> span sb 65536) m m'"
proof -
  let ?m1 = "write32 m sb 0x10000" and ?m2 = "SLIST_INIT (write32 m sb 0x10000) hp"
  have ap: "apart hp 4 sb 65536" using ok by (simp add: chunk_ok_def)
  have i2: "heap_inv hp ?m2 []" by (simp add: heap_inv_def slist_def SLIST_INIT_def)
  have c: "chunks_ok hp [(sb, 0x10000)]" using ok by simp
  have r: "read32 ?m2 sb = 0x10000"
    using apart_mono [OF ap, of 4 4] by (simp add: SLIST_INIT_def mem_simps)
  note p = push_chunk [OF i2 c r]
  show "heap_inv hp m' [(sb, 0x10000)]" using p(1) by (simp add: m'_def)
  have "same_outside (span sb 4 \<union> span hp 4) m ?m2"
    unfolding SLIST_INIT_def by (rule same_outside_trans [OF same_outside_write32 same_outside_write32])
  from same_outside_trans [OF this p(2)] show "same_outside (span hp 4 \<union> span sb 65536) m m'"
    using span_mono [of 4 65536 sb]
    by (auto simp: m'_def owned_def block_span_def intro: same_outside_mono)
qed

definition demo_map2 :: kinfo where
  "demo_map2 = demo_map\<lparr> mmap_n := 2, memmap := (memmap demo_map)[1 := \<lparr> mme_size = 20, mme_addr = 0x1000000, mme_len = 0x200000, mme_type = 1 \<rparr>] \<rparr>"

lemma take_two: "2 \<le> length xs \<Longrightarrow> take 2 xs = [xs ! 0, xs ! 1]"
  by (cases xs; cases "tl xs") auto

lemma demo_map2_offered: "offered (take (mmap_n demo_map2) (memmap demo_map2)) = [(0x80100000, 0x700000), (0x81000000, 0x200000)]"
proof -
  have n: "mmap_n demo_map2 = 2" by (simp add: demo_map2_def)
  have m: "memmap demo_map2 = (memmap demo_map)[1 := \<lparr> mme_size = 20, mme_addr = 0x1000000, mme_len = 0x200000, mme_type = 1 \<rparr>]"
    by (simp add: demo_map2_def)
  have l: "length (memmap demo_map) = 32" by (simp add: demo_map_def fill_slot_def kinfo0_def MAXMEMMAP_def)
  have e: "mme_addr (memmap demo_map ! 0) = 0x100000" "mme_len (memmap demo_map ! 0) = 0x700000" "mme_type (memmap demo_map ! 0) = 1"
    by (simp_all add: demo_map_def fill_slot_def kinfo0_def MAXMEMMAP_def MULTIBOOT_MEMORY_AVAILABLE_def)
  have "take 2 (memmap demo_map2) = [memmap demo_map ! 0, \<lparr> mme_size = 20, mme_addr = 0x1000000, mme_len = 0x200000, mme_type = 1 \<rparr>]"
    by (subst take_two) (simp_all add: m l)
  then show ?thesis
    unfolding n by (simp add: offered_def entry_block_def e p2v_def KERNEL_OFFSET_def MULTIBOOT_MEMORY_AVAILABLE_def)
qed



end
