(* ===== verification/Switch.thy ===== *)
theory Switch
  imports Memory
begin

text \<open>
  The context switch of \<^verbatim>\<open>kernel/switch.S\<close>, instruction by instruction over the registers and memory.
  \<open>call_switch_to\<close> is a call of \<^verbatim>\<open>switch_to\<close> from C: the arguments and the return address are pushed.
\<close>

section \<open>The processor\<close>

record regs =
  edi :: u32
  esi :: u32
  ebp :: u32
  esp :: u32
  ebx :: u32
  edx :: u32
  ecx :: u32
  eax :: u32
  gs :: u32
  fs :: u32
  es :: u32
  ds :: u32
  eip :: u32
  cs :: u32
  eflags :: u32
  ss :: u32

type_synonym machine = "regs \<times> mem"

definition push :: "u32 \<Rightarrow> machine \<Rightarrow> machine" where
  "push v = (\<lambda>(r, m). (r\<lparr> esp := esp r - 4 \<rparr>, write32 m (esp r - 4) v))"

text \<open>The value on the top of the stack is given to the update of a register.\<close>

definition pop :: "((u32 \<Rightarrow> u32) \<Rightarrow> regs \<Rightarrow> regs) \<Rightarrow> machine \<Rightarrow> machine" where
  "pop upd = (\<lambda>(r, m). (upd (\<lambda>_. read32 m (esp r)) (r\<lparr> esp := esp r + 4 \<rparr>), m))"

text \<open>The operations that the assembly code uses.\<close>

definition ret :: "machine \<Rightarrow> machine" where
  "ret = pop eip_update"

definition popal :: "machine \<Rightarrow> machine" where
  "popal s =
     (let s = pop edi_update s; s = pop esi_update s; s = pop ebp_update s;
          s = pop (\<lambda>_ r. r) s;
          s = pop ebx_update s; s = pop edx_update s; s = pop ecx_update s in
      pop eax_update s)"

text \<open>The kernel runs in ring 0: a return to an outer ring also takes the stack pointer and segment.\<close>

definition iret :: "machine \<Rightarrow> machine" where
  "iret s =
     (let s = pop eip_update s; s = pop cs_update s; s = pop eflags_update s in
      if cs (fst s) AND 3 = 0 then s
      else (case s of (r, m) \<Rightarrow> (r\<lparr> esp := read32 m (esp r), ss := read32 m (esp r + 4) \<rparr>, m)))"

section \<open>The operations\<close>

definition switch_to :: "machine \<Rightarrow> machine" where
  "switch_to s =
     (let s = (case s of (r, m) \<Rightarrow> (r\<lparr> eax := read32 m (esp r + 4) \<rparr>, m));
          s = (case s of (r, m) \<Rightarrow> (r\<lparr> edx := read32 m (esp r + 8) \<rparr>, m));
          s = push (ebx (fst s)) s; s = push (ebp (fst s)) s;
          s = push (esi (fst s)) s; s = push (edi (fst s)) s;
          s = (case s of (r, m) \<Rightarrow> (r, write32 m (eax r) (esp r)));
          s = (case s of (r, m) \<Rightarrow> (r\<lparr> esp := edx r \<rparr>, m));
          s = pop edi_update s; s = pop esi_update s;
          s = pop ebp_update s; s = pop ebx_update s in
      ret s)"

definition trapret :: "machine \<Rightarrow> machine" where
  "trapret s =
     (let s = popal s; s = pop gs_update s; s = pop fs_update s;
          s = pop es_update s; s = pop ds_update s in
      iret s)"

text \<open>\<^verbatim>\<open>forkret\<close> of \<^verbatim>\<open>kernel/proc.c\<close> only returns.\<close>

definition forkret :: "machine \<Rightarrow> machine" where
  "forkret s = ret s"

definition call_switch_to :: "u32 \<Rightarrow> u32 \<Rightarrow> u32 \<Rightarrow> machine \<Rightarrow> machine" where
  "call_switch_to prev next back s = switch_to (push back (push prev (push next s)))"

lemmas insn_defs = push_def pop_def ret_def popal_def iret_def switch_to_def trapret_def forkret_def call_switch_to_def Let_def

section \<open>The saved context\<close>

text \<open>A \<^verbatim>\<open>struct context\<close>: the registers a function has to preserve and the address to go on at.\<close>

definition context_at :: "mem \<Rightarrow> u32 \<Rightarrow> regs \<Rightarrow> u32 \<Rightarrow> bool" where
  "context_at m c r back \<longleftrightarrow> read32 m c = edi r \<and> read32 m (c + 4) = esi r \<and> read32 m (c + 8) = ebp r \<and>
     read32 m (c + 12) = ebx r \<and> read32 m (c + 16) = back"

lemma context_at_frame:
  assumes "context_at m c r back" and "same_outside T m m'" and "T \<inter> span c 20 = {}"
  shows "context_at m' c r back"
proof -
  have "read32 m' (c + i) = read32 m (c + i)" if "unat i + 4 \<le> 20" for i
    using same_outside_read32 [OF assms(2)] span_sub [OF that, of c] assms(3) by blast
  from this [of 0] this [of 4] this [of 8] this [of 12] this [of 16] assms(1) show ?thesis
    by (simp add: context_at_def)
qed

text \<open>The memory behind the switch: the arguments, the return address and the registers are on the stack
  of the caller, and the pointer to them is stored through the first argument.\<close>

definition saved :: "u32 \<Rightarrow> u32 \<Rightarrow> u32 \<Rightarrow> regs \<Rightarrow> mem \<Rightarrow> mem" where
  "saved prev new back r m =
     (let c = esp r - 28 in
      write32 (write32 (write32 (write32 (write32 (write32 (write32 (write32 m (c + 24) new) (c + 20) prev) (c + 16) back)
        (c + 12) (ebx r)) (c + 8) (ebp r)) (c + 4) (esi r)) c (edi r)) prev c)"

definition loaded :: "mem \<Rightarrow> u32 \<Rightarrow> regs \<Rightarrow> regs" where
  "loaded m c r = r\<lparr> edi := read32 m c, esi := read32 m (c + 4), ebp := read32 m (c + 8), ebx := read32 m (c + 12),
     eip := read32 m (c + 16), esp := c + 20 \<rparr>"

lemma call_switch_to_eq:
  "call_switch_to prev new back (r, m) =
     (loaded (saved prev new back r m) new (r\<lparr> eax := prev, edx := new \<rparr>), saved prev new back r m)"
proof -
  define c where "c = esp r - 28"
  have e: "esp r = c + 28" by (simp add: c_def)
  have s: "c + 28 - 4 = c + 24" "c + 24 - 4 = c + 20" "c + 20 - 4 = c + 16" "c + 16 - 4 = c + 12"
    "c + 12 - 4 = c + 8" "c + 8 - 4 = c + 4" "c + 4 - 4 = c" "c + 28 - 28 = c" by simp_all
  show ?thesis
    by (simp add: insn_defs e s saved_def loaded_def mem_simps apart_def add.assoc)
qed

lemma saved_outside: "same_outside (span (esp r - 28) 28 \<union> span prev 4) m (saved prev new back r m)"
proof -
  define c where "c = esp r - 28"
  have "span (c + i) 4 \<subseteq> span c 28 \<union> span prev 4" if "unat i + 4 \<le> 28" for i using span_sub [OF that, of c] by blast
  from this [of 0] this [of 4] this [of 8] this [of 12] this [of 16] this [of 20] this [of 24] show ?thesis
    by (auto simp: saved_def Let_def c_def [symmetric] intro!: same_outside_write32_in)
qed

lemma saved_context:
  assumes "span prev 4 \<inter> span (esp r - 28) 28 = {}"
  shows "read32 (saved prev new back r m) prev = esp r - 28" and "context_at (saved prev new back r m) (esp r - 28) r back"
proof -
  define c where "c = esp r - 28"
  show "read32 (saved prev new back r m) prev = esp r - 28" by (simp add: saved_def Let_def)
  define m' where "m' = write32 (write32 (write32 (write32 (write32 (write32 (write32 m (c + 24) new) (c + 20) prev) (c + 16) back)
        (c + 12) (ebx r)) (c + 8) (ebp r)) (c + 4) (esi r)) c (edi r)"
  have "context_at m' c r back" unfolding m'_def context_at_def by (simp add: mem_simps apart_def)
  moreover have "saved prev new back r m = write32 m' prev c" by (simp add: saved_def m'_def c_def Let_def)
  moreover have "span prev 4 \<inter> span c 20 = {}" using assms span_mono [of 20 28 c] by (auto simp: c_def)
  ultimately show "context_at (saved prev new back r m) (esp r - 28) r back"
    using context_at_frame [OF _ same_outside_write32] by (simp add: c_def)
qed

lemma loaded_context:
  assumes "context_at m c r back"
  shows "edi (loaded m c r') = edi r" "esi (loaded m c r') = esi r" "ebp (loaded m c r') = ebp r"
    "ebx (loaded m c r') = ebx r" "eip (loaded m c r') = back" "esp (loaded m c r') = c + 20"
  using assms by (simp_all add: loaded_def context_at_def)

text \<open>\<^verbatim>\<open>trapret\<close> to user mode loads the whole \<^verbatim>\<open>struct trapframe\<close> on the stack.\<close>

definition trap_regs :: "mem \<Rightarrow> u32 \<Rightarrow> regs" where
  "trap_regs m t = \<lparr> edi = read32 m t, esi = read32 m (t + 4), ebp = read32 m (t + 8), esp = read32 m (t + 60),
     ebx = read32 m (t + 16), edx = read32 m (t + 20), ecx = read32 m (t + 24), eax = read32 m (t + 28),
     gs = read32 m (t + 32), fs = read32 m (t + 36), es = read32 m (t + 40), ds = read32 m (t + 44),
     eip = read32 m (t + 48), cs = read32 m (t + 52), eflags = read32 m (t + 56), ss = read32 m (t + 64) \<rparr>"

lemma trapret_user:
  assumes "read32 m (esp r + 52) AND 3 \<noteq> 0"
  shows "trapret (r, m) = (trap_regs m (esp r), m)"
  using assms by (simp add: insn_defs trap_regs_def add.assoc)

text \<open>C30: switching away and back is a round trip: a thread that switched to another one and saved its context
  at \<open>pa\<close> goes on behind its call, with the registers a function has to preserve and its stack pointer as
  they were, whatever registers the other thread switches back with, as long as nobody wrote to the saved
  frame.\<close>

theorem switch_to_roundtrip:
  assumes "span pa 4 \<inter> span (esp r - 28) 28 = {}" and "call_switch_to pa c' back (r, m) = (r1, m1)"
    and "same_outside T m1 m2" and "T \<inter> (span (esp r - 28) 20 \<union> span pa 4) = {}"
    and "(span (esp rb - 28) 28 \<union> span pb 4) \<inter> span (esp r - 28) 20 = {}"
    and "call_switch_to pb (read32 m2 pa) back' (rb, m2) = (r3, m3)"
  shows "edi r3 = edi r \<and> esi r3 = esi r \<and> ebp r3 = ebp r \<and> ebx r3 = ebx r \<and> eip r3 = back \<and> esp r3 = esp r - 8"
proof -
  let ?c = "esp r - 28"
  let ?s = "saved pb ?c back' rb m2"
  have m1: "m1 = saved pa c' back r m" using assms(2) by (simp add: call_switch_to_eq)
  have T: "T \<inter> span ?c 20 = {}" "span pa 4 \<inter> T = {}" using assms(4) by (simp_all add: Int_Un_distrib Int_commute)
  have c: "read32 m2 pa = ?c"
    using same_outside_read32 [OF assms(3) T(2)] saved_context(1) [OF assms(1), of c' "back" m] by (simp add: m1)
  have "context_at m2 ?c r back"
    by (rule context_at_frame [OF _ assms(3) T(1)]) (simp add: m1 saved_context(2) [OF assms(1)])
  then have "context_at ?s ?c r back" by (rule context_at_frame [OF _ saved_outside assms(5)])
  moreover have "r3 = loaded ?s ?c (rb\<lparr> eax := pb, edx := ?c \<rparr>)" using assms(6) by (auto simp: call_switch_to_eq c)
  ultimately show ?thesis using loaded_context [of ?s ?c r "back" "rb\<lparr> eax := pb, edx := ?c \<rparr>"] by simp
qed

definition demo_regs :: regs where
  "demo_regs = \<lparr> edi = 1, esi = 2, ebp = 3, esp = 0x80002000, ebx = 4, edx = 0, ecx = 0, eax = 0, gs = 16, fs = 16, es = 16,
     ds = 16, eip = 0, cs = 8, eflags = 2, ss = 16 \<rparr>"

theorem switch_to_roundtrip_witness:
  "\<exists>r1 m1 r3 m3. call_switch_to 0x80000000 0x80003100 0x80400000 (demo_regs, \<lambda>_. 0) = (r1, m1) \<and>
     call_switch_to 0x80000010 (read32 m1 0x80000000) 0x80400100 (demo_regs\<lparr> esp := 0x80004000 \<rparr>, m1) = (r3, m3) \<and>
     ebx r3 = 4 \<and> eip r3 = 0x80400000 \<and> esp r3 = 0x80001FF8"
proof -
  obtain r1 m1 where a: "call_switch_to 0x80000000 0x80003100 0x80400000 (demo_regs, \<lambda>_. 0) = (r1, m1)" by fastforce
  obtain r3 m3 where b: "call_switch_to 0x80000010 (read32 m1 0x80000000) 0x80400100 (demo_regs\<lparr> esp := 0x80004000 \<rparr>, m1) = (r3, m3)"
    by fastforce
  have d: "span (0x80000000 :: u32) 4 \<inter> span (esp demo_regs - 28) 28 = {}"
    "(span (esp (demo_regs\<lparr> esp := 0x80004000 \<rparr>) - 28) 28 \<union> span 0x80000010 4) \<inter> span (esp demo_regs - 28) 20 = {}"
    by (simp_all add: demo_regs_def Int_Un_distrib2 apart_iff_span [symmetric] apart_def)
  from switch_to_roundtrip [OF d(1) a same_outside_refl _ d(2) b] have "ebx r3 = 4 \<and> eip r3 = 0x80400000 \<and> esp r3 = 0x80001FF8"
    by (auto simp: demo_regs_def)
  with a b show ?thesis by blast
qed

end
