(* ===== verification/Proc.thy ===== *)
theory Proc
  imports Sched Vm Init_Mem Switch
begin

text \<open>
  Processes: their creation, their address spaces, \<^verbatim>\<open>fork\<close>, \<^verbatim>\<open>execve\<close> and the ELF loader of
  \<^verbatim>\<open>kernel/proc.c\<close>, \<^verbatim>\<open>sys_mmap\<close> and \<^verbatim>\<open>sys_munmap\<close> of \<^verbatim>\<open>kernel/mem.c\<close> and \<^verbatim>\<open>kmain\<close> of
  \<^verbatim>\<open>kernel/main.c\<close>. A \<^verbatim>\<open>struct vm_region\<close> has 16 bytes (\<^verbatim>\<open>va\<close> 0, \<^verbatim>\<open>pa\<close> 4, \<^verbatim>\<open>len\<close> 8, the link 12), a
  \<^verbatim>\<open>struct proc_mmap\<close> 8 (the first region 0, \<^verbatim>\<open>sz\<close> 4), a \<^verbatim>\<open>struct trapframe\<close> 68 and a \<^verbatim>\<open>struct context\<close> 20.
  In \<^verbatim>\<open>struct elfhdr\<close> the magic number is at 0, \<^verbatim>\<open>entry\<close> at 24, \<^verbatim>\<open>ph_off\<close> at 28 and \<^verbatim>\<open>ph_n\<close> at 44; a
  \<^verbatim>\<open>struct proghdr\<close> has 32 bytes (\<^verbatim>\<open>type\<close> 0, \<^verbatim>\<open>off\<close> 4, \<^verbatim>\<open>va\<close> 8, \<^verbatim>\<open>filesz\<close> 16, \<^verbatim>\<open>memsz\<close> 20).
\<close>

section \<open>Threads\<close>

definition KSTACK_SIZE :: u32 where "KSTACK_SIZE = 0x1000"
definition STACK_SIZE :: u32 where "STACK_SIZE = 0x1000"
definition MMAP_LIMIT :: u32 where "MMAP_LIMIT = KERNEL_OFFSET - STACK_SIZE"
definition ELFMAGIC :: u32 where "ELFMAGIC = 0x464C457F"

definition alloc_thread :: "link \<Rightarrow> mem \<Rightarrow> (u32 \<times> mem) res" where
  "alloc_thread L m =
     bindE (alloc_pages (l_freelist L) KSTACK_SIZE m) (\<lambda>(kstack, m).
     if kstack = 0 then Inl AssertFail
     else let m = memset m kstack 0 KSTACK_SIZE;
              p = kstack + KSTACK_SIZE - 104;
              m = write32 m (p + 8) kstack;
              sp = p;
              sp = sp - 68;
              m = write32 m (p + 20) sp;
              sp = sp - 4;
              m = write32 m sp (l_trapret L);
              sp = sp - 20;
              m = write32 m (p + 16) sp;
              m = memset m (read32 m (p + 16)) 0 20;
              m = write32 m (read32 m (p + 16) + 16) (l_forkret L) in
       Inr (p, m))"

definition proc_create :: "link \<Rightarrow> mem \<Rightarrow> (u32 \<times> mem) res" where
  "proc_create L m =
     bindE (alloc_thread L m) (\<lambda>(p, m).
     let m = write32 m (read32 m (p + 20) + 32) (4 * 8 OR 3);
         m = write32 m (read32 m (p + 20) + 36) (4 * 8 OR 3);
         m = write32 m (read32 m (p + 20) + 40) (4 * 8 OR 3);
         m = write32 m (read32 m (p + 20) + 44) (4 * 8 OR 3);
         m = write32 m (read32 m (p + 20) + 52) (3 * 8 OR 3);
         m = write32 m (read32 m (p + 20) + 56) 0x0202;
         m = write32 m (read32 m (p + 20) + 64) (4 * 8 OR 3);
         m = set_state p READY m in
     Inr (p, m))"

definition kthread_create :: "link \<Rightarrow> u32 \<Rightarrow> mem \<Rightarrow> (u32 \<times> mem) res" where
  "kthread_create L entry m =
     bindE (alloc_thread L m) (\<lambda>(p, m).
     let m = write32 m (p + 4) 0;
         m = set_state p READY m;
         m = write32 m (read32 m (p + 20) + 32) (2 * 8 OR 0);
         m = write32 m (read32 m (p + 20) + 36) (2 * 8 OR 0);
         m = write32 m (read32 m (p + 20) + 44) (2 * 8 OR 0);
         m = write32 m (read32 m (p + 20) + 40) (2 * 8 OR 0);
         m = write32 m (read32 m (p + 20) + 48) entry;
         m = write32 m (read32 m (p + 20) + 52) (1 * 8 OR 0);
         m = write32 m (read32 m (p + 20) + 56) 0x0202 in
     Inr (p, m))"

section \<open>Address spaces\<close>

text \<open>The table of memory maps, one entry for each process identifier from 1 on.\<close>

definition GETMEMMAP :: "u32 \<Rightarrow> mem \<Rightarrow> u32 \<Rightarrow> u32" where
  "GETMEMMAP memtab m p = memtab + 8 * (read32 m p - 1)"

definition init_pmm :: "link \<Rightarrow> mem \<Rightarrow> (u32 \<times> mem) res" where
  "init_pmm L m =
     bindE (alloc_pages (l_freelist L) (8 * 128) m) (\<lambda>(memtab, m).
     if memtab = 0 then Inl AssertFail
     else Inr (memtab, fold (\<lambda>i m. SLIST_INIT m (memtab + 8 * of_nat i)) [0 ..< 128] m))"

partial_function (option) free_uvm_loop :: "link \<Rightarrow> u32 \<Rightarrow> u32 \<Rightarrow> u32 \<Rightarrow> mem \<Rightarrow> mem res option" where
  "free_uvm_loop L memtab p r m =
     (if r = 0 then Some (Inr m)
      else let tmp = read32 m (r + 12) in
        case bindE (SLIST_REMOVE m 12 (GETMEMMAP memtab m p) r) (\<lambda>m.
               free_pages (l_freelist L) (p2v (read32 m (r + 4))) (read32 m (r + 8)) m) of
          Inl e \<Rightarrow> Some (Inl e)
        | Inr m \<Rightarrow> free_uvm_loop L memtab p tmp m)"

definition free_uvm :: "link \<Rightarrow> u32 \<Rightarrow> u32 \<Rightarrow> mem \<Rightarrow> mem res" where
  "free_uvm L memtab p m =
     bindE (ends (free_uvm_loop L memtab p (SLIST_FIRST m (GETMEMMAP memtab m p)) m)) (\<lambda>r. r)"

definition proc_destroy :: "link \<Rightarrow> u32 \<Rightarrow> u32 \<Rightarrow> kernel \<Rightarrow> kernel res" where
  "proc_destroy L memtab kpagedir s =
     bindE (free_uvm L memtab (curthread s) (km s)) (\<lambda>m.
     let s = write_cr3 kpagedir (s\<lparr> km := m \<rparr>) in
     bindE (free_pages (l_freelist L) (read32 (km s) (curthread s + 4)) 0x1000 (km s)) (\<lambda>m.
     bindE (free_pages (l_freelist L) (read32 m (curthread s + 8)) KSTACK_SIZE m) (\<lambda>m.
     Inr (s\<lparr> km := m \<rparr>))))"

definition USER_PAGE :: u32 where "USER_PAGE = PG_US OR PG_RW OR PG_P"

section \<open>The ELF loader\<close>

text \<open>What a program header asks for: \<^verbatim>\<open>None\<close> for a header the loader refuses, \<^verbatim>\<open>Some False\<close> for one it skips.\<close>

definition segment_kind :: "mem \<Rightarrow> u32 \<Rightarrow> bool option" where
  "segment_kind m ph =
     (if read32 m ph = 1 then Some True
      else if read32 m ph = 2 \<or> read32 m ph = 3 then None
      else Some False)"

fun scan_segments :: "mem \<Rightarrow> nat \<Rightarrow> u32 \<Rightarrow> u32 \<Rightarrow> u32 \<Rightarrow> u32 \<Rightarrow> (u32 \<times> u32 \<times> u32) option" where
  "scan_segments m 0 ph mn mx n = Some (mn, mx, n)"
| "scan_segments m (Suc i) ph mn mx n =
     (case segment_kind m ph of
        None \<Rightarrow> None
      | Some False \<Rightarrow> scan_segments m i (ph + 32) mn mx n
      | Some True \<Rightarrow>
          let start = pg_rounddown (read32 m (ph + 8));
              stop = pg_roundup (read32 m (ph + 8) + read32 m (ph + 20)) in
          scan_segments m i (ph + 32) (if start < mn then start else mn) (if mx < stop then stop else mx) (n + 1))"

partial_function (option) drop_regions :: "u32 \<Rightarrow> u32 \<Rightarrow> u32 \<Rightarrow> mem \<Rightarrow> mem res option" where
  "drop_regions memtab p r m =
     (if r = 0 then Some (Inr m)
      else let tmp = read32 m (r + 12) in
        case SLIST_REMOVE m 12 (GETMEMMAP memtab m p) r of
          Inl e \<Rightarrow> Some (Inl e)
        | Inr m \<Rightarrow> drop_regions memtab p tmp m)"

definition load_segment :: "link \<Rightarrow> u32 \<Rightarrow> u32 \<Rightarrow> u32 \<Rightarrow> u32 \<Rightarrow> u32 \<Rightarrow> u32 \<Rightarrow> u32 \<Rightarrow> mem \<Rightarrow> mem res" where
  "load_segment L memtab p pd bin ph r mem_at m =
     (let m = write32 m r (read32 m (ph + 8));
          m = write32 m (r + 4) (v2p mem_at);
          m = write32 m (r + 8) (pg_roundup (read32 m (ph + 20) + (read32 m (ph + 8) AND 0xFFF)));
          m = SLIST_INSERT_HEAD m 12 (GETMEMMAP memtab m p) r;
          m = memmove m (mem_at + read32 m (ph + 8) mod 0x1000) (bin + read32 m (ph + 4)) (read32 m (ph + 16)) in
      alloc_pt (alloc_pages (l_freelist L)) pd (read32 m r) (read32 m (r + 4)) (read32 m (r + 8)) USER_PAGE m)"

text \<open>The second pass over the program headers. The result is \<^verbatim>\<open>None\<close> for a return of -1, or the number of
  regions used and the memory left for the stack. The number of headers is read once, before the loop; the code compares with \<^verbatim>\<open>elf->ph_n\<close> in
  every round, which is the same as long as the loader does not write over the file it loads.\<close>

fun load_segments :: "link \<Rightarrow> u32 \<Rightarrow> u32 \<Rightarrow> u32 \<Rightarrow> u32 \<Rightarrow> u32 \<Rightarrow> nat \<Rightarrow> u32 \<Rightarrow> u32 \<Rightarrow> u32 \<Rightarrow> mem \<Rightarrow> ((u32 \<times> u32) option \<times> mem) res" where
  "load_segments L memtab p pd bin regions 0 ph n mem_at m = Inr (Some (n, mem_at), m)"
| "load_segments L memtab p pd bin regions (Suc i) ph n mem_at m =
     (case segment_kind m ph of
        None \<Rightarrow> Inr (None, m)
      | Some False \<Rightarrow> load_segments L memtab p pd bin regions i (ph + 32) n mem_at m
      | Some True \<Rightarrow>
          if regions = 0 then Inl NullDeref
          else bindE (load_segment L memtab p pd bin ph (regions + 16 * n) mem_at m) (\<lambda>m.
            load_segments L memtab p pd bin regions i (ph + 32) (n + 1) (mem_at + pg_roundup (read32 m (ph + 20))) m))"

definition map_stack :: "link \<Rightarrow> u32 \<Rightarrow> u32 \<Rightarrow> u32 \<Rightarrow> u32 \<Rightarrow> u32 \<Rightarrow> mem \<Rightarrow> mem res" where
  "map_stack L memtab p pd r mem_at m =
     (let m = write32 m r (KERNEL_OFFSET - STACK_SIZE);
          m = write32 m (r + 4) (v2p mem_at);
          m = write32 m (r + 8) STACK_SIZE in
      bindE (alloc_pt (alloc_pages (l_freelist L)) pd (read32 m r) (read32 m (r + 4)) (read32 m (r + 8)) USER_PAGE m) (\<lambda>m.
      Inr (SLIST_INSERT_HEAD m 12 (GETMEMMAP memtab m p) r)))"

definition loadelf :: "link \<Rightarrow> kinfo \<Rightarrow> u32 \<Rightarrow> u32 \<Rightarrow> u32 \<Rightarrow> u32 \<Rightarrow> mem \<Rightarrow> (int \<times> mem) res" where
  "loadelf L k memtab kpagedir p path m =
     bindE (find_file k path m ROOT_INO) (\<lambda>r. case r of None \<Rightarrow> Inr (- 1, m) | Some i \<Rightarrow>
     let bin = read32 m (ino_tbl k + 36 * i + 28) in
     if read32 m bin \<noteq> ELFMAGIC then Inr (- 1, m)
     else bindE (copykvm (alloc_pages (l_freelist L)) kpagedir m) (\<lambda>(pd, m).
     let ph = bin + read32 m (bin + 28) in
     case scan_segments m (unat (read16 m (bin + 44))) ph 0xFFFFFFFF 0 0 of None \<Rightarrow> Inr (- 1, m) | Some (mn, mx, n) \<Rightarrow>
     bindE (ends (drop_regions memtab p (SLIST_FIRST m (GETMEMMAP memtab m p)) m)) (\<lambda>r. bindE r (\<lambda>m.
     let m = write32 m (p + 12) mx;
         sz = pg_roundup (mx - mn + STACK_SIZE) in
     bindE (alloc_pages (l_freelist L) sz m) (\<lambda>(mem_at, m).
     if mem_at = 0 then Inl NullDeref
     else let m = memset m mem_at 0 sz in
     bindE (kmalloc (l_heap L) (16 * (n + 1)) m) (\<lambda>(regions, m).
     let m = write32 m (GETMEMMAP memtab m p + 4) sz in
     bindE (load_segments L memtab p pd bin regions (unat (read16 m (bin + 44))) ph 0 mem_at m) (\<lambda>(r, m).
     case r of None \<Rightarrow> Inr (- 1, m) | Some (n, mem_at) \<Rightarrow>
     let m = write32 m (p + 4) (v2p pd);
         m = write32 m (read32 m (p + 20) + 48) (read32 m (bin + 24));
         m = write32 m (read32 m (p + 20) + 60) KERNEL_OFFSET in
     if regions = 0 then Inl NullDeref
     else bindE (map_stack L memtab p pd (regions + 16 * n) mem_at m) (\<lambda>m.
     Inr (0, m)))))))))"

section \<open>The system calls\<close>

text \<open>The static variables and globals besides the scheduler's: the next process identifier, the table of
  memory maps, the kernel's page directory and the boot information.\<close>

record system =
  sk :: kernel
  spid :: u32
  smemtab :: u32
  skpagedir :: u32
  sinfo :: kinfo

definition on_mem :: "(mem \<Rightarrow> ('a \<times> mem) res) \<Rightarrow> system \<Rightarrow> ('a \<times> system) res" where
  "on_mem f s = bindE (f (km (sk s))) (\<lambda>(x, m). Inr (x, s\<lparr> sk := (sk s)\<lparr> km := m \<rparr> \<rparr>))"

text \<open>The copy of one region for a child: the bytes the copy takes, and the new memory.\<close>

definition fork_region :: "link \<Rightarrow> u32 \<Rightarrow> u32 \<Rightarrow> u32 \<Rightarrow> u32 \<Rightarrow> u32 \<Rightarrow> mem \<Rightarrow> (u32 \<times> mem) res" where
  "fork_region L memtab n pd m1 mem_at m =
     bindE (kmalloc (l_heap L) 16 m) (\<lambda>(m2, m).
     if m2 = 0 then Inl NullDeref
     else let m = write32 m (m2 + 4) (v2p mem_at);
              m = write32 m m2 (read32 m m1);
              m = write32 m (m2 + 8) (read32 m (m1 + 8)) in
       bindE (alloc_pt (alloc_pages (l_freelist L)) pd (read32 m m2) (read32 m (m2 + 4)) (read32 m (m2 + 8)) USER_PAGE m) (\<lambda>m.
       let m = memmove m mem_at (p2v (read32 m (m1 + 4))) (read32 m (m1 + 8)) in
       Inr (pg_roundup (read32 m (m2 + 8)), SLIST_INSERT_HEAD m 12 (GETMEMMAP memtab m n) m2)))"

partial_function (option) fork_regions ::
    "link \<Rightarrow> u32 \<Rightarrow> u32 \<Rightarrow> u32 \<Rightarrow> u32 \<Rightarrow> u32 \<Rightarrow> mem \<Rightarrow> mem res option" where
  "fork_regions L memtab n pd m1 mem_at m =
     (if m1 = 0 then Some (Inr m)
      else case fork_region L memtab n pd m1 mem_at m of
          Inl e \<Rightarrow> Some (Inl e)
        | Inr (d, m) \<Rightarrow> fork_regions L memtab n pd (read32 m (m1 + 12)) (mem_at + d) m)"

text \<open>The loop over the open files has no bound; it ends at the first null pointer behind the table.\<close>

partial_function (option) fork_files :: "link \<Rightarrow> u32 \<Rightarrow> u32 \<Rightarrow> u32 \<Rightarrow> mem \<Rightarrow> mem res option" where
  "fork_files L cur n fd m =
     (if read32 m (cur + 24 + 4 * fd) = 0 then Some (Inr m)
      else case kmalloc (l_heap L) 12 m of
          Inl e \<Rightarrow> Some (Inl e)
        | Inr (f, m) \<Rightarrow>
            let m = write32 m (n + 24 + 4 * fd) f in
            if f = 0 then Some (Inl NullDeref)
            else fork_files L cur n (fd + 1) (copied m f (read32 m (cur + 24 + 4 * fd)) 12))"

definition sys_fork :: "link \<Rightarrow> system \<Rightarrow> (int \<times> system) res" where
  "sys_fork L s =
     (let cur = curthread (sk s); memtab = smemtab s in
      bindE (on_mem (proc_create L) s) (\<lambda>(n, s).
      if n = 0 then Inr (- 1, s)
      else let pid = spid s; s = s\<lparr> spid := spid s + 1 \<rparr> in
      bindE (on_mem (\<lambda>m. let m = write32 m n pid in
        alloc_pages (l_freelist L) (read32 m (GETMEMMAP memtab m cur + 4)) m) s) (\<lambda>(mem_at, s).
      if mem_at = 0 then Inr (- 1, s)
      else bindE (on_mem (\<lambda>m.
        bindE (copykvm (alloc_pages (l_freelist L)) (skpagedir s) m) (\<lambda>(pd, m).
        if pd = 0 then Inr (- 1, m)
        else bindE (ends (fork_regions L memtab n pd (SLIST_FIRST m (GETMEMMAP memtab m cur)) mem_at m)) (\<lambda>r. bindE r (\<lambda>m.
        let m = write32 m (n + 92) cur;
            m = write32 m (n + 4) (v2p pd);
            m = copied m (read32 m (n + 20)) (read32 m (cur + 20)) 68;
            m = write32 m (read32 m (n + 20) + 28) 0 in
        bindE (ends (fork_files L cur n 0 m)) (\<lambda>r. bindE r (\<lambda>m.
        let m = enqueue L n m in
        Inr (sint (read32 m n), m))))))) s) Inr)))"

text \<open>The copy of the process structure is a local variable; its address is \<open>loc\<close>.\<close>

definition sys_execve :: "link \<Rightarrow> u32 \<Rightarrow> u32 \<Rightarrow> system \<Rightarrow> (int option \<times> system) res" where
  "sys_execve L loc path s =
     (let cur = curthread (sk s) in
      bindE (on_mem (\<lambda>m. loadelf L (sinfo s) (smemtab s) (skpagedir s) loc path (copied m loc cur 104)) s) (\<lambda>(r, s).
      if r < 0 then Inr (Some (- 1), s)
      else let s = s\<lparr> sk := yield ((sk s)\<lparr> km := copied (km (sk s)) cur loc 104 \<rparr>) \<rparr> in
        Inr (None, s)))"

definition MAP_ANON :: u32 where "MAP_ANON = 1"

definition cdev_mmap :: "u32 \<Rightarrow> u32 \<Rightarrow> mem \<Rightarrow> (int \<times> mem) res" where
  "cdev_mmap f r m =
     bindE (cdevs (read32 m (read32 m (f + 4) + 8))) (\<lambda>d.
     case d of FRAMEBUFFER \<Rightarrow> Inr (fbdev_mmap f r m) | _ \<Rightarrow> Inl NullDeref)"

definition sys_mmap :: "link \<Rightarrow> u32 \<Rightarrow> u32 \<Rightarrow> u32 \<Rightarrow> u32 \<Rightarrow> u32 \<Rightarrow> mem \<Rightarrow> (u32 \<times> mem) res" where
  "sys_mmap L memtab p len flags fd m =
     (if len = 0 then Inr (0, m)
      else let len = pg_roundup len in
      if MMAP_LIMIT \<le> read32 m (p + 12) + len then Inr (0, m)
      else bindE (kmalloc (l_heap L) 16 m) (\<lambda>(r, m).
      bindE (if flags AND MAP_ANON \<noteq> 0
             then bindE (alloc_pages (l_freelist L) len m) (\<lambda>(page, m).
               if r = 0 \<or> page = 0 then Inl NullDeref
               else let m = write32 m (r + 4) (v2p page) in
                 Inr (True, memset m page 0 (pg_roundup len)))
             else let f = read32 m (p + 24 + 4 * fd) in
               if f = 0 then Inr (False, m)
               else if r = 0 then Inl NullDeref
               else bindE (cdev_mmap f r m) (\<lambda>(_, m). Inr (True, m))) (\<lambda>(go, m).
      if \<not> go then Inr (- 1, m)
      else let m = write32 m r (read32 m (p + 12));
               m = write32 m (p + 12) (read32 m (p + 12) + len);
               m = write32 m (r + 8) len;
               pd = p2v (read32 m (p + 4)) in
        bindE (alloc_pt (alloc_pages (l_freelist L)) pd (read32 m r) (read32 m (r + 4)) (read32 m (r + 8)) USER_PAGE m) (\<lambda>m.
        let m = SLIST_INSERT_HEAD m 12 (GETMEMMAP memtab m p) r in
        Inr (read32 m r, m)))))"

definition sys_munmap :: "u32 \<Rightarrow> u32 \<Rightarrow> mem \<Rightarrow> mem" where
  "sys_munmap addr len m = m"

section \<open>Starting the system\<close>

text \<open>\<open>n\<close> bounds the nesting of \<^verbatim>\<open>file_open\<close>; the console opens the frame buffer, so 2 is enough.\<close>

definition initsys :: "nat \<Rightarrow> link \<Rightarrow> system \<Rightarrow> system res" where
  "initsys n L s =
     bindE (on_mem (proc_create L) s) (\<lambda>(p, s).
     let s = s\<lparr> sk := (sk s)\<lparr> curthread := p, km := write32 (km (sk s)) p (spid s) \<rparr>, spid := spid s + 1 \<rparr> in
     if p = 0 then Inl AssertFail
     else bindE (on_mem (loadelf L (sinfo s) (smemtab s) (skpagedir s) p (l_init L)) s) (\<lambda>(r, s).
     if r < 0 then Inl AssertFail
     else bindE (on_mem (sys_open n L (sinfo s) p (l_console L)) s) (\<lambda>(_, s).
     bindE (on_mem (sys_open n L (sinfo s) p (l_console L)) s) (\<lambda>(_, s).
     bindE (on_mem (sys_open n L (sinfo s) p (l_console L)) s) (\<lambda>(_, s).
     Inr (s\<lparr> sk := (sk s)\<lparr> km := enqueue L p (km (sk s)) \<rparr> \<rparr>))))))"

text \<open>\<^verbatim>\<open>init_sched\<close> up to the call of \<^verbatim>\<open>scheduler\<close>, which does not return.\<close>

definition init_sched :: "link \<Rightarrow> system \<Rightarrow> system res" where
  "init_sched L s =
     bindE (on_mem (kthread_create L (l_scheduler L)) s) (\<lambda>(p, s).
     let s = s\<lparr> sk := (sk s)\<lparr> idle := p \<rparr> \<rparr>;
         s = s\<lparr> sk := (sk s)\<lparr> curthread := idle (sk s) \<rparr> \<rparr> in
     Inr (s\<lparr> sk := (sk s)\<lparr> tss_ss0 := 2 * 8 OR 0 \<rparr> \<rparr>))"

text \<open>\<^verbatim>\<open>kmain\<close>. The descriptor tables and the serial port are set up by assembly code that does not touch the
  state of the model; the structure of the boot information is copied to the kernel's.\<close>

definition kmain :: "nat \<Rightarrow> link \<Rightarrow> u32 \<Rightarrow> kinfo option \<Rightarrow> kernel \<Rightarrow> system res" where
  "kmain n L unpaged_end kernel_info s =
     (case kernel_info of None \<Rightarrow> Inl AssertFail | Some k \<Rightarrow>
      let s = s\<lparr> km := snd (pg_clear_identity unpaged_end (kcpu s) (km s)) \<rparr> in
      bindE (init_mem (l_freelist L) (l_heap L) k (cr3 (kcpu s)) (km s)) (\<lambda>(kpagedir, m).
      bindE (load_initrd (l_freelist L) (l_ustar L) k m) (\<lambda>(k, m).
      bindE (init_pmm L m) (\<lambda>(memtab, m).
      bindE (initsys n L \<lparr> sk = s\<lparr> km := m \<rparr>, spid = 1, smemtab = memtab, skpagedir = kpagedir, sinfo = k \<rparr>) (\<lambda>s.
      init_sched L s)))))"

section \<open>A new process\<close>

lemma read32_memset_zero [mem_simps]:
  assumes "unat i + 4 \<le> unat n"
  shows "read32 (memset m a 0 n) (a + i) = 0"
proof -
  have "i + j < n" if "unat j < 4" for j
    using assms that unat_lt32 [of n] by (simp add: word_less_nat_alt unat_word_ariths)
  then have z: "memset m a 0 n (a + (i + j)) = 0" if "unat j < 4" for j using that by (simp add: memset_def)
  from z [of 0] z [of 1] z [of 2] z [of 3] show ?thesis by (simp add: read32_def add.assoc)
qed

text \<open>The page of a new thread: the process structure at its end, below it the trap frame, the address of
  \<^verbatim>\<open>trapret\<close> and the context.\<close>

definition thread_page :: "link \<Rightarrow> u32 \<Rightarrow> mem \<Rightarrow> mem" where
  "thread_page L k m =
     write32 (memset (write32 (write32 (write32 (write32 (memset m k 0 0x1000) (k + 0xFA0) k) (k + 0xFAC) (k + 0xF54))
       (k + 0xF50) (l_trapret L)) (k + 0xFA8) (k + 0xF3C)) (k + 0xF3C) 0 20) (k + 0xF4C) (l_forkret L)"

lemma alloc_thread_eq:
  "alloc_thread L m = bindE (alloc_pages (l_freelist L) 0x1000 m) (\<lambda>(k, m).
     if k = 0 then Inl AssertFail else Inr (k + 0xF98, thread_page L k m))"
proof (cases "alloc_pages (l_freelist L) 0x1000 m")
  case (Inr x)
  then obtain k m1 where a: "alloc_pages (l_freelist L) 0x1000 m = Inr (k, m1)" by (cases x) auto
  have e: "k + 0x1000 - 104 = k + 0xF98" "k + 0xF98 - 68 = k + 0xF54" "k + 0xF54 - 4 = k + 0xF50" "k + 0xF50 - 20 = k + 0xF3C"
    "k + 0xF98 + 8 = k + 0xFA0" "k + 0xF98 + 20 = k + 0xFAC" "k + 0xF98 + 16 = k + 0xFA8" "k + 0xF3C + 16 = k + 0xF4C"
    by simp_all
  have c: "read32 (memset m' (k + 0xF3C) 0 20) (k + 0xFA8) = read32 m' (k + 0xFA8)" for m'
    by (rule read32_memset_apart) (simp add: apart_def)
  show ?thesis
    unfolding alloc_thread_def KSTACK_SIZE_def a bindE_simps prod.case Let_def e c read32_write32_same
    by (simp add: thread_page_def)
qed (simp add: alloc_thread_def KSTACK_SIZE_def)

definition process_page :: "link \<Rightarrow> u32 \<Rightarrow> mem \<Rightarrow> mem" where
  "process_page L k m =
     write32 (write32 (write32 (write32 (write32 (write32 (write32 (write32 (thread_page L k m) (k + 0xF74) 0x23)
       (k + 0xF78) 0x23) (k + 0xF7C) 0x23) (k + 0xF80) 0x23) (k + 0xF88) 0x1B) (k + 0xF8C) 0x202) (k + 0xF94) 0x23) (k + 0xFF0) 1"

lemma thread_page_tf: "read32 (thread_page L k m) (k + 0xFAC) = k + 0xF54"
  by (simp add: thread_page_def mem_simps apart_def)

lemma proc_create_eq:
  "proc_create L m = bindE (alloc_pages (l_freelist L) 0x1000 m) (\<lambda>(k, m).
     if k = 0 then Inl AssertFail else Inr (k + 0xF98, process_page L k m))"
proof (cases "alloc_pages (l_freelist L) 0x1000 m")
  case (Inr x)
  then obtain k m1 where a: "alloc_pages (l_freelist L) 0x1000 m = Inr (k, m1)" by (cases x) auto
  have tf: "read32 (write32 m' (k + 0xF54 + i) v) (k + 0xFAC) = read32 m' (k + 0xFAC)" if "unat i < 68" for m' i v
  proof (rule read32_write32_apart)
    show "apart (k + 0xF54 + i) 4 (k + 0xFAC) 4" using apart_sub [of "k + 0xF54" 72 "k + 0xFAC" 4 i 4 0 4] that by (simp add: apart_def)
  qed
  show ?thesis
    using tf [of 32] tf [of 36] tf [of 40] tf [of 44] tf [of 52] tf [of 56]
    by (simp add: a proc_create_def alloc_thread_eq Let_def set_state_def process_page_def thread_page_tf add.assoc)
qed (simp add: proc_create_def alloc_thread_eq)

text \<open>What the loader fills in: the entry point and the stack pointer of the trap frame.\<close>

definition set_entry :: "u32 \<Rightarrow> u32 \<Rightarrow> u32 \<Rightarrow> mem \<Rightarrow> mem" where
  "set_entry entry stack p m =
     (let m = write32 m (read32 m (p + 20) + 48) entry in write32 m (read32 m (p + 20) + 60) stack)"

definition user_regs :: "u32 \<Rightarrow> u32 \<Rightarrow> regs" where
  "user_regs entry stack = \<lparr> edi = 0, esi = 0, ebp = 0, esp = stack, ebx = 0, edx = 0, ecx = 0, eax = 0,
     gs = 0x23, fs = 0x23, es = 0x23, ds = 0x23, eip = entry, cs = 0x1B, eflags = 0x202, ss = 0x23 \<rparr>"

definition started :: "link \<Rightarrow> u32 \<Rightarrow> u32 \<Rightarrow> u32 \<Rightarrow> mem \<Rightarrow> bool" where
  "started L entry stack k m \<longleftrightarrow> read32 m (k + 0xFA8) = k + 0xF3C \<and> read32 m (k + 0xF4C) = l_forkret L \<and>
     read32 m (k + 0xF50) = l_trapret L \<and> trap_regs m (k + 0xF54) = user_regs entry stack"

lemma process_page_started: "started L entry stack k (set_entry entry stack (k + 0xF98) (process_page L k m))"
proof -
  let ?m = "process_page L k m"
  have tf: "read32 ?m (k + 0xFAC) = k + 0xF54" by (simp add: process_page_def thread_page_def mem_simps apart_def)
  have s: "set_entry entry stack (k + 0xF98) ?m = write32 (write32 ?m (k + 0xF84) entry) (k + 0xF90) stack"
    by (simp add: set_entry_def Let_def add.assoc tf read32_write32_apart apart_def)
  show ?thesis
    unfolding s unfolding started_def trap_regs_def user_regs_def process_page_def thread_page_def
    by (simp add: mem_simps add.assoc apart_def)
qed

lemma started_frame:
  assumes "started L entry stack k m" and "same_outside T m m'" and "T \<inter> span k 0x1000 = {}"
  shows "started L entry stack k m'"
proof -
  have "read32 m' (k + i) = read32 m (k + i)" if "unat i + 4 \<le> 0x1000" for i
    using same_outside_read32 [OF assms(2)] span_sub [OF that, of k] assms(3) by blast
  then show ?thesis using assms(1) by (simp add: started_def trap_regs_def add.assoc)
qed

lemma started_runs:
  assumes "started L entry stack k m" and "(span (esp r - 28) 28 \<union> span prev 4) \<inter> span k 0x1000 = {}"
    and "call_switch_to prev (k + 0xF3C) at (r, m) = s"
  shows "eip (fst s) = l_forkret L" and "eip (fst (forkret s)) = l_trapret L"
    and "fst (trapret (forkret s)) = user_regs entry stack"
proof -
  let ?m = "saved prev (k + 0xF3C) at r m"
  have st: "started L entry stack k ?m" by (rule started_frame [OF assms(1) saved_outside assms(2)])
  have s: "s = (loaded ?m (k + 0xF3C) (r\<lparr> eax := prev, edx := k + 0xF3C \<rparr>), ?m)"
    using assms(3) by (simp add: call_switch_to_eq)
  show "eip (fst s) = l_forkret L" using st by (simp add: s loaded_def started_def add.assoc)
  have f: "forkret s = ((loaded ?m (k + 0xF3C) (r\<lparr> eax := prev, edx := k + 0xF3C \<rparr>))\<lparr> esp := k + 0xF54, eip := l_trapret L \<rparr>, ?m)"
    using st by (simp add: s loaded_def started_def forkret_def ret_def pop_def add.assoc)
  then show "eip (fst (forkret s)) = l_trapret L" by simp
  have "read32 ?m (k + 0xF54 + 52) = cs (trap_regs ?m (k + 0xF54))" by (simp add: trap_regs_def)
  then have "read32 ?m (k + 0xF54 + 52) AND 3 \<noteq> 0" using st by (simp add: started_def user_regs_def)
  then show "fst (trapret (forkret s)) = user_regs entry stack"
    using st by (simp add: f trapret_user started_def)
qed

lemma process_page_outside: "same_outside (span k 0x1000) m (process_page L k m)"
proof -
  have s: "span (k + i) 4 \<subseteq> span k 0x1000" if "unat i + 4 \<le> 0x1000" for i by (rule span_sub [OF that])
  have "same_outside (span k 0x1000) m (memset m' a 0 n)" if "same_outside (span k 0x1000) m m'" "span a (unat n) \<subseteq> span k 0x1000" for m' a n
    using same_outside_trans [OF that(1) same_outside_memset [of a n]] that(2) by (simp add: Un_absorb2)
  from this [where a = k and n = "0x1000"] this [where a = "k + 0xF3C" and n = 20] show ?thesis
    unfolding process_page_def thread_page_def
    by (simp add: same_outside_write32_in s span_sub)
qed

lemma alloc_pages_page:
  assumes "freelist_inv fl m bs" and "bs \<noteq> []"
  obtains k m1 bs' where "alloc_pages fl 0x1000 m = Inr (k, m1)" and "k \<noteq> 0" and "aligned 4096 k"
    and "freelist_inv fl m1 bs'" and "owned fl bs' \<subseteq> owned fl bs" and "same_outside (owned fl bs) m m1"
    and "span k 0x1000 \<subseteq> owned fl bs" and "span k 0x1000 \<inter> owned fl bs' = {}"
proof -
  have o: "freelist_owns fl m (owned fl bs)" using assms(1) by (auto simp: freelist_owns_def)
  from pages.alloc_page [OF o] obtain k m1 S' where
    k: "alloc_pages fl 0x1000 m = Inr (k, m1)" "freelist_owns fl m1 S'" "S' \<subseteq> owned fl bs" "same_outside (owned fl bs) m m1"
      "aligned 4096 k" "k \<noteq> 0 \<longrightarrow> span k 4096 \<subseteq> owned fl bs \<and> span k 4096 \<inter> S' = {}"
      "freelist_stock fl m \<le> Suc (freelist_stock fl m1)" "k = 0 \<longrightarrow> freelist_stock fl m = 0" .
  have "k \<noteq> 0" using k(8) freelist_stock_eq [OF assms(1)] assms(2) by auto
  moreover obtain bs' where "S' = owned fl bs'" "freelist_inv fl m1 bs'" using k(2) by (auto simp: freelist_owns_def)
  ultimately show thesis using that k by auto
qed

text \<open>C22: a new process gets a page of its own for its kernel stack and its structure, is ready, and when
  the scheduler first switches to it, it goes through \<^verbatim>\<open>forkret\<close> and \<^verbatim>\<open>trapret\<close> to user mode: at the entry point
  and on the stack the loader put into the trap frame, with the user segments, interrupts enabled and all
  general registers zero.\<close>

theorem proc_create_starts:
  assumes "freelist_inv (l_freelist L) m bs" and "bs \<noteq> []"
  shows "\<exists>p m1 bs' k. proc_create L m = Inr (p, m1) \<and> p = k + 0xF98 \<and> read32 m1 (p + 8) = k \<and> aligned 4096 k \<and>
    proc_state m1 p = pstate_code READY \<and> freelist_inv (l_freelist L) m1 bs' \<and>
    span k 0x1000 \<subseteq> owned (l_freelist L) bs \<and> span k 0x1000 \<inter> owned (l_freelist L) bs' = {} \<and>
    same_outside (owned (l_freelist L) bs) m m1 \<and>
    (\<forall>entry stack m2 r prev at s. m2 = set_entry entry stack p m1 \<longrightarrow>
       (span (esp r - 28) 28 \<union> span prev 4) \<inter> span k 0x1000 = {} \<longrightarrow>
       s = call_switch_to prev (read32 m2 (p + 16)) at (r, m2) \<longrightarrow>
       eip (fst s) = l_forkret L \<and> eip (fst (forkret s)) = l_trapret L \<and>
       fst (trapret (forkret s)) = user_regs entry stack)"
proof -
  from alloc_pages_page [OF assms] obtain k m0 bs' where
    k: "alloc_pages (l_freelist L) 0x1000 m = Inr (k, m0)" "k \<noteq> 0" "aligned 4096 k" "freelist_inv (l_freelist L) m0 bs'"
      "owned (l_freelist L) bs' \<subseteq> owned (l_freelist L) bs" "same_outside (owned (l_freelist L) bs) m m0"
      "span k 0x1000 \<subseteq> owned (l_freelist L) bs" "span k 0x1000 \<inter> owned (l_freelist L) bs' = {}" .
  let ?p = "k + 0xF98" and ?m = "process_page L k m0"
  have "read32 ?m (?p + 8) = k" "proc_state ?m ?p = pstate_code READY"
    by (simp_all add: process_page_def thread_page_def proc_state_def add.assoc mem_simps apart_def)
  moreover have "freelist_inv (l_freelist L) ?m bs'"
    by (rule freelist_inv_frame [OF k(4) process_page_outside]) (use k(8) in auto)
  moreover have "same_outside (owned (l_freelist L) bs) m ?m"
    using same_outside_trans [OF k(6) process_page_outside [of k m0 L]] k(7) by (simp add: Un_absorb2)
  moreover have "eip (fst s) = l_forkret L \<and> eip (fst (forkret s)) = l_trapret L \<and> fst (trapret (forkret s)) = user_regs entry stack"
    if m2: "m2 = set_entry entry stack ?p ?m" and d: "(span (esp r - 28) 28 \<union> span prev 4) \<inter> span k 0x1000 = {}"
      and s: "s = call_switch_to prev (read32 m2 (?p + 16)) at (r, m2)" for entry stack m2 r prev at s
  proof -
    have st: "started L entry stack k m2" using process_page_started m2 by simp
    then have "read32 m2 (?p + 16) = k + 0xF3C" by (simp add: started_def add.assoc)
    with started_runs [OF st d] s show ?thesis by simp
  qed
  ultimately show ?thesis using k(1,2,3,7,8) by (intro exI [of _ ?p] exI [of _ ?m] exI [of _ bs'] exI [of _ k]) (auto simp: proc_create_eq)
qed

lemma demo_switch_apart:
  assumes "span k n \<subseteq> owned 0x80000100 demo_pages"
  shows "(span (esp demo_regs - 28) 28 \<union> span 0x80000000 4) \<inter> span k n = {}"
proof -
  have a: "apart (esp demo_regs - 28) 28 0x80000100 4" "apart (esp demo_regs - 28) 28 0x80002000 0x1000"
    "apart (esp demo_regs - 28) 28 0x80008000 0x4000" "apart 0x80000000 4 0x80000100 4"
    "apart 0x80000000 4 0x80002000 0x1000" "apart 0x80000000 4 0x80008000 0x4000"
    by (simp_all add: apart_def demo_regs_def)
  have "(span (esp demo_regs - 28) 28 \<union> span 0x80000000 4) \<inter> owned 0x80000100 demo_pages = {}"
    using a [THEN apart_span] by (auto simp: owned_def demo_pages_def block_span_def)
  then show ?thesis using assms by blast
qed

theorem proc_create_starts_witness:
  "\<exists>p m1 s. proc_create demo_link demo_kmem = Inr (p, m1) \<and>
     s = call_switch_to 0x80000000 (read32 (set_entry 0x1000 0x80000000 p m1) (p + 16)) 0x80400100
       (demo_regs, set_entry 0x1000 0x80000000 p m1) \<and>
     eip (fst s) = 0x80400010 \<and> fst (trapret (forkret s)) = user_regs 0x1000 0x80000000"
proof -
  have l: "l_freelist demo_link = 0x80000100" "l_forkret demo_link = 0x80400010" by (simp_all add: demo_link_def)
  have "demo_pages \<noteq> []" by (simp add: demo_pages_def)
  from proc_create_starts [OF demo_kmem_inv [folded l(1)] this] obtain p m1 k where
    c: "proc_create demo_link demo_kmem = Inr (p, m1)" "span k 0x1000 \<subseteq> owned 0x80000100 demo_pages"
      "(span (esp demo_regs - 28) 28 \<union> span 0x80000000 4) \<inter> span k 0x1000 = {} \<Longrightarrow>
       s = call_switch_to 0x80000000 (read32 (set_entry 0x1000 0x80000000 p m1) (p + 16)) 0x80400100
         (demo_regs, set_entry 0x1000 0x80000000 p m1) \<Longrightarrow>
       eip (fst s) = 0x80400010 \<and> fst (trapret (forkret s)) = user_regs 0x1000 0x80000000" for s
    unfolding l by metis
  from c(1) c(3) [OF demo_switch_apart [OF c(2)] refl] show ?thesis by blast
qed

end
