(* ===== verification/Space.thy ===== *)
theory Space
  imports Proc
begin

text \<open>
  The address space of a process: \<open>space_ok\<close> says that the page allocator, the kernel heap, the page
  directory with its tables, the structure of the process and its list of regions are well formed and
  apart from each other. \<^verbatim>\<open>sys_mmap\<close> keeps it and extends the space by fresh pages.
\<close>

section \<open>The invariant\<close>

definition vm_set :: "mem \<Rightarrow> u32 \<Rightarrow> u32 set" where
  "vm_set m pd = span pd 4096 \<union> tables m pd"

definition proc_pd :: "mem \<Rightarrow> u32 \<Rightarrow> u32" where
  "proc_pd m p = p2v (read32 m (p + 4))"

definition regions_span :: "u32 list \<Rightarrow> u32 set" where
  "regions_span rs = (\<Union>x \<in> set rs. span x 16)"

definition space_ok :: "link \<Rightarrow> u32 \<Rightarrow> mem \<Rightarrow> u32 \<Rightarrow> blocks \<Rightarrow> blocks \<Rightarrow> u32 list \<Rightarrow> bool" where
  "space_ok L memtab m p bs hs rs \<longleftrightarrow>
     freelist_inv (l_freelist L) m bs \<and> owned (l_freelist L) bs \<subseteq> high \<and> heap_inv (l_heap L) m hs \<and>
     pd_inv m (proc_pd m p) (owned (l_freelist L) bs) \<and> aligned 4096 (read32 m (p + 12)) \<and>
     slist m 12 (GETMEMMAP memtab m p) rs \<and> sep_nodes 16 (GETMEMMAP memtab m p) rs \<and>
     sorted_wrt (\<lambda>A B. A \<inter> B = {}) [owned (l_freelist L) bs, owned (l_heap L) hs, vm_set m (proc_pd m p),
       span p 104, span (GETMEMMAP memtab m p) 8, regions_span rs]"

lemma vm_frame:
  assumes "pd_inv m pd S" and "same_outside T m m'" and "T \<inter> vm_set m pd = {}" and "S' \<subseteq> S"
  shows "pd_inv m' pd S'" and "vm_set m' pd = vm_set m pd" and "q < 2 ^ 19 \<Longrightarrow> user_page m' pd q = user_page m pd q"
    and "tables m' pd = tables m pd" and "k + n \<le> 2 ^ 19 \<Longrightarrow> missing m' pd k n = missing m pd k n"
proof -
  have e: "pde m' pd i = pde m pd i" if "i < 1024" for i
    by (rule pde_outside [OF assms(2) _ that]) (use assms(3) in \<open>auto simp: vm_set_def\<close>)
  then have p: "pde m' pd i = pde m pd i" if "i < 512" for i using that by simp
  then show t: "tables m' pd = tables m pd" by (auto simp: tables_def)
  then show "vm_set m' pd = vm_set m pd" by (simp add: vm_set_def)
  show "pd_inv m' pd S'" using assms(1,4) t p unfolding pd_inv_def by auto
  show "missing m' pd k n = missing m pd k n" if "k + n \<le> 2 ^ 19"
  proof -
    have "q div 1024 < 512" if "q \<in> {k ..< k + n}" for q using that \<open>k + n \<le> 2 ^ 19\<close> by (simp add: less_mult_imp_div_less)
    then show ?thesis using p unfolding missing_def by fastforce
  qed
  show "user_page m' pd q = user_page m pd q" if "q < 2 ^ 19"
  proof -
    have q: "q div 1024 < 512" using that by (simp add: less_mult_imp_div_less)
    have "pde m' (table (pde m pd (q div 1024))) (q mod 1024) = pde m (table (pde m pd (q div 1024))) (q mod 1024)"
      if "present (pde m pd (q div 1024))"
    proof (rule pde_outside [OF assms(2)])
      show "span (table (pde m pd (q div 1024))) 4096 \<inter> T = {}"
        using assms(3) q that by (auto simp: vm_set_def tables_def)
    qed simp
    then show ?thesis using p [OF q] by (simp add: user_page_def lookup_def Let_def)
  qed
qed

lemma regions_cells: "cellspan (slcells 12 h rs) \<subseteq> span h 8 \<union> regions_span rs"
proof -
  have "span h 4 \<subseteq> span h 8" by (rule span_mono) simp
  moreover have "span (x + 12) 4 \<subseteq> span x 16" for x using span_sub [of 12 4 16 x] by simp
  ultimately show ?thesis by (fastforce simp: cellspan_def set_slcells regions_span_def)
qed

text \<open>A change of memory that avoids the process, its directory and its regions.\<close>

lemma proc_frame:
  assumes "same_outside T m m'" and "T \<inter> (span p 4 \<union> span (p + 4) 4) = {}"
  shows "proc_pd m' p = proc_pd m p" and "GETMEMMAP memtab m' p = GETMEMMAP memtab m p"
proof -
  have "span p 4 \<inter> T = {}" "span (p + 4) 4 \<inter> T = {}" using assms(2) by (auto simp: Int_commute Int_Un_distrib)
  then have "read32 m' p = read32 m p" "read32 m' (p + 4) = read32 m (p + 4)"
    using same_outside_read32 [OF assms(1)] by auto
  then show "proc_pd m' p = proc_pd m p" "GETMEMMAP memtab m' p = GETMEMMAP memtab m p"
    by (simp_all add: proc_pd_def GETMEMMAP_def)
qed

section \<open>Anonymous mappings\<close>

definition mmap_fill :: "u32 \<Rightarrow> u32 \<Rightarrow> u32 \<Rightarrow> u32 \<Rightarrow> mem \<Rightarrow> mem" where
  "mmap_fill r page p len m =
     (let m = write32 m (r + 4) (v2p page);
          m = memset m page 0 len;
          m = write32 m r (read32 m (p + 12));
          m = write32 m (p + 12) (read32 m (p + 12) + len) in
      write32 m (r + 8) len)"

lemma byte_frame: "same_outside T m m' \<Longrightarrow> x \<notin> T \<Longrightarrow> m' x = m x"
  by (simp add: same_outside_def)

lemma mmap_fill_facts:
  fixes m :: mem
  assumes rg: "span r 16 \<inter> span page (unat len) = {}" and rp: "span r 16 \<inter> span p 104 = {}"
    and gp: "span page (unat len) \<inter> span p 104 = {}"
  defines "m' \<equiv> mmap_fill r page p len m"
  shows "read32 m' r = read32 m (p + 12)" and "read32 m' (r + 4) = v2p page" and "read32 m' (r + 8) = len"
    and "read32 m' (p + 12) = read32 m (p + 12) + len"
    and "\<forall>x \<in> span page (unat len). m' x = 0"
    and "same_outside (span r 16 \<union> span page (unat len) \<union> span (p + 12) 4) m m'"
proof -
  have R: "span (r + i) 4 \<subseteq> span r 16" if "unat i + 4 \<le> 16" for i by (rule span_sub [OF that])
  have P: "span (p + 12) 4 \<subseteq> span p 104" using span_sub [of 12 4 104 p] by simp
  define m1 where "m1 = memset (write32 m (r + 4) (v2p page)) page 0 len"
  have ap: "apart (r + i) 4 (p + 12) 4" if "unat i + 4 \<le> 16" for i
    using R [OF that] P rp by (auto simp: apart_iff_span)
  have o1: "same_outside (span (r + 4) 4 \<union> span page (unat len)) m m1"
    unfolding m1_def by (rule same_outside_trans [OF same_outside_write32 same_outside_memset])
  have b: "read32 m1 (p + 12) = read32 m (p + 12)"
    by (rule same_outside_read32 [OF o1]) (use R [of 4] P rp gp in \<open>auto\<close>)
  have m': "m' = write32 (write32 (write32 m1 r (read32 m (p + 12))) (p + 12) (read32 m (p + 12) + len)) (r + 8) len"
    using ap [of 0] by (simp add: m'_def mmap_fill_def Let_def m1_def [symmetric] b mem_simps)
  have "read32 m1 (r + 4) = v2p page"
  proof -
    have "span (r + 4) 4 \<inter> span page (unat len) = {}" using R [of 4] rg by auto
    then show ?thesis unfolding m1_def by (subst same_outside_read32 [OF same_outside_memset]) simp_all
  qed
  then show "read32 m' r = read32 m (p + 12)" "read32 m' (r + 4) = v2p page" "read32 m' (r + 8) = len"
    "read32 m' (p + 12) = read32 m (p + 12) + len"
    using ap [of 0] ap [of 4] ap [of 8] unfolding m'
    by (simp_all add: read32_write32_apart read32_write32_apart' apart_sym [of "p + 12"] apart_def [of 0] apart_def [of 4] apart_def [of 8])
  have o2: "same_outside (span r 4 \<union> span (p + 12) 4 \<union> span (r + 8) 4) m1 m'"
    unfolding m' by (rule same_outside_trans [OF same_outside_trans [OF same_outside_write32 same_outside_write32] same_outside_write32])
  show "same_outside (span r 16 \<union> span page (unat len) \<union> span (p + 12) 4) m m'"
    by (rule same_outside_mono [OF same_outside_trans [OF o1 o2]]) (use R [of 0] R [of 4] R [of 8] in auto)
  show "\<forall>x \<in> span page (unat len). m' x = 0"
  proof
    fix x assume x: "x \<in> span page (unat len)"
    then have "x \<notin> span r 4 \<union> span (p + 12) 4 \<union> span (r + 8) 4" using R [of 0] R [of 8] P rg gp by auto
    then have "m' x = m1 x" by (rule byte_frame [OF o2])
    also have "\<dots> = 0" using x by (auto simp: m1_def memset_def span_def word_less_nat_alt)
    finally show "m' x = 0" .
  qed
qed

lemma sys_mmap_anon_eq:
  assumes "flags AND MAP_ANON \<noteq> 0" and "len \<noteq> 0" and "\<not> MMAP_LIMIT \<le> read32 m (p + 12) + pg_roundup len"
    and "kmalloc (l_heap L) 16 m = Inr (r, m1)" and "r \<noteq> 0"
    and "alloc_pages (l_freelist L) (pg_roundup len) m1 = Inr (page, m2)"
  shows "sys_mmap L memtab p len flags fd m =
    (if page = 0 then Inl NullDeref
     else let m3 = mmap_fill r page p (pg_roundup len) m2 in
       bindE (alloc_pt (alloc_pages (l_freelist L)) (proc_pd m3 p) (read32 m3 r) (read32 m3 (r + 4)) (read32 m3 (r + 8)) USER_PAGE m3)
         (\<lambda>m. let m = SLIST_INSERT_HEAD m 12 (GETMEMMAP memtab m p) r in Inr (read32 m r, m)))"
  using assms by (simp add: sys_mmap_def mmap_fill_def proc_pd_def Let_def pg_roundup_id)

lemma SLIST_INSERT_HEAD_outside: "same_outside (span (r + f) 4 \<union> span h 4) m (SLIST_INSERT_HEAD m f h r)"
  unfolding SLIST_INSERT_HEAD_def Let_def by (rule same_outside_trans [OF same_outside_write32 same_outside_write32])

lemma user_page_flags: "USER_PAGE = 7"
  by (simp add: USER_PAGE_def PG_US_def PG_RW_def PG_P_def)

lemma disjoint_sub: "A \<inter> B = {} \<Longrightarrow> A' \<subseteq> A \<Longrightarrow> B' \<subseteq> B \<Longrightarrow> A' \<inter> B' = {}"
  by blast

text \<open>The parts of the invariant, one by one.\<close>

lemma space_okD:
  assumes "space_ok L memtab m p bs hs rs"
  shows "freelist_inv (l_freelist L) m bs" "owned (l_freelist L) bs \<subseteq> high" "heap_inv (l_heap L) m hs"
    "pd_inv m (proc_pd m p) (owned (l_freelist L) bs)" "aligned 4096 (read32 m (p + 12))"
    "slist m 12 (GETMEMMAP memtab m p) rs" "sep_nodes 16 (GETMEMMAP memtab m p) rs"
    "sorted_wrt (\<lambda>A B. A \<inter> B = {}) [owned (l_freelist L) bs, owned (l_heap L) hs, vm_set m (proc_pd m p),
       span p 104, span (GETMEMMAP memtab m p) 8, regions_span rs]"
  using assms unfolding space_ok_def by simp_all

text \<open>The invariant behind a change of memory: the allocators own less, the directory may have grown into
  what the page allocator owned, the process keeps its identifier and its directory, and a region taken
  from the heap is put in front of the list.\<close>

lemma space_okI:
  assumes ok: "space_ok L memtab m p bs hs rs"
    and fl: "freelist_inv (l_freelist L) m' bs'" "owned (l_freelist L) bs' \<subseteq> owned (l_freelist L) bs"
    and hp: "heap_inv (l_heap L) m' hs'" "owned (l_heap L) hs' \<subseteq> owned (l_heap L) hs"
    and pd: "proc_pd m' p = proc_pd m p" "pd_inv m' (proc_pd m p) (owned (l_freelist L) bs')"
      "tables m' (proc_pd m p) \<subseteq> owned (l_freelist L) bs \<union> vm_set m (proc_pd m p)"
    and tab: "GETMEMMAP memtab m' p = GETMEMMAP memtab m p" and base: "aligned 4096 (read32 m' (p + 12))"
    and lst: "slist m' 12 (GETMEMMAP memtab m p) (r # rs)"
    and r: "span r 16 \<subseteq> owned (l_heap L) hs" "span r 16 \<inter> owned (l_heap L) hs' = {}"
  shows "space_ok L memtab m' p bs' hs' (r # rs)"
proof -
  let ?h = "GETMEMMAP memtab m p" and ?pd = "proc_pd m p"
  note d = space_okD [OF ok]
  have dis: "owned (l_freelist L) bs \<inter> owned (l_heap L) hs = {}" "owned (l_freelist L) bs \<inter> vm_set m ?pd = {}"
    "owned (l_freelist L) bs \<inter> span p 104 = {}" "owned (l_freelist L) bs \<inter> span ?h 8 = {}" "owned (l_freelist L) bs \<inter> regions_span rs = {}"
    "owned (l_heap L) hs \<inter> vm_set m ?pd = {}" "owned (l_heap L) hs \<inter> span p 104 = {}" "owned (l_heap L) hs \<inter> span ?h 8 = {}"
    "owned (l_heap L) hs \<inter> regions_span rs = {}" "vm_set m ?pd \<inter> span p 104 = {}" "vm_set m ?pd \<inter> span ?h 8 = {}"
    "vm_set m ?pd \<inter> regions_span rs = {}" "span p 104 \<inter> span ?h 8 = {}" "span p 104 \<inter> regions_span rs = {}"
    "span ?h 8 \<inter> regions_span rs = {}" using d(8) by simp_all
  have vm: "vm_set m' ?pd \<subseteq> owned (l_freelist L) bs \<union> vm_set m ?pd" using pd(3) unfolding vm_set_def by blast
  have vF: "vm_set m' ?pd \<inter> owned (l_freelist L) bs' = {}"
    using pd(2) unfolding pd_inv_def vm_set_def Int_Un_distrib2 Int_Un_distrib by simp
  have vs: "vm_set m' ?pd \<inter> A = {}" if "owned (l_freelist L) bs \<inter> A = {}" "vm_set m ?pd \<inter> A = {}" for A
    by (rule disjoint_sub [OF _ vm order_refl]) (simp add: that Int_Un_distrib2)
  have 1: "owned (l_freelist L) bs' \<inter> A = {}" if "owned (l_freelist L) bs \<inter> A = {}" for A
    by (rule disjoint_sub [OF that fl(2) order_refl])
  have 2: "owned (l_heap L) hs' \<inter> A = {}" if "owned (l_heap L) hs \<inter> A = {}" for A
    by (rule disjoint_sub [OF that hp(2) order_refl])
  have 3: "span r 16 \<inter> A = {}" if "owned (l_heap L) hs \<inter> A = {}" for A
    by (rule disjoint_sub [OF that r(1) order_refl])
  have hV: "owned (l_heap L) hs \<inter> vm_set m' ?pd = {}"
    using vs [OF dis(1)] dis(6) by (simp add: Int_commute)
  have F'H: "owned (l_freelist L) bs' \<inter> owned (l_heap L) hs' = {}" by (rule disjoint_sub [OF dis(1) fl(2) hp(2)])
  have F'r: "owned (l_freelist L) bs' \<inter> span r 16 = {}" by (rule disjoint_sub [OF dis(1) fl(2) r(1)])
  have "sorted_wrt (\<lambda>A B. A \<inter> B = {}) [owned (l_freelist L) bs', owned (l_heap L) hs', vm_set m' ?pd,
       span p 104, span ?h 8, span r 16 \<union> regions_span rs]"
    unfolding sorted_wrt.simps list.set ball_simps Int_Un_distrib Un_empty
    using 1 [OF dis(3)] 1 [OF dis(4)] 1 [OF dis(5)] F'H 2 [OF hV] 2 [OF dis(7)] 2 [OF dis(8)] 2 [OF dis(9)]
      F'r 3 [OF hV] 3 [OF dis(7)] 3 [OF dis(8)] r(2) vF vs [OF dis(3,10)] vs [OF dis(4,11)] vs [OF dis(5,12)] dis(13-15)
    by (simp add: Int_commute)
  then have "sorted_wrt (\<lambda>A B. A \<inter> B = {}) [owned (l_freelist L) bs', owned (l_heap L) hs', vm_set m' ?pd,
       span p 104, span ?h 8, regions_span (r # rs)]" by (simp only: regions_span_def list.set UN_insert)
  moreover have "sep_nodes 16 ?h (r # rs)"
  proof -
    have "span ?h 4 \<subseteq> span ?h 8" by (rule span_mono) simp
    then have "apart ?h 4 r 16" using dis(8) r(1) by (auto simp: apart_iff_span)
    moreover have "apart r 16 y 16" if "y \<in> set rs" for y
      using dis(9) r(1) that by (auto simp: apart_iff_span regions_span_def)
    ultimately show ?thesis using d(7) by simp
  qed
  ultimately show ?thesis unfolding space_ok_def pd(1) tab using fl hp pd(2) base lst order_trans [OF fl(2) d(2)] by (intro conjI)
qed

lemma alloc_pages_fails:
  assumes "freelist_inv fl m bs" and "sz \<noteq> 0" and "alloc_pages fl sz m = Inr (0, m')"
  shows "\<forall>b \<in> set bs. \<not> sz \<le> snd b"
proof (rule ccontr)
  assume n: "\<not> ?thesis"
  from alloc_pages_facts [OF assms(1,2)] assms(3) obtain bs' where "alloc_spec sz bs = (0, bs')" by auto
  moreover have "blocks_ok fl bs" using assms(1) by (simp add: freelist_inv_def)
  ultimately show False using n alloc_spec_cases [of fl bs sz] assms(1) by (auto simp: block_ok_def blocks_ok_def)
qed

lemma mmap_prepare:
  fixes p :: u32 and len :: u32
  assumes ok: "space_ok L memtab m p bs ((a, s) # hs) rs" and s: "0x18 < s" and an: "flags AND MAP_ANON \<noteq> 0"
    and len: "len \<noteq> 0" "pg_roundup len \<noteq> 0" and lim: "\<not> MMAP_LIMIT \<le> read32 m (p + 12) + pg_roundup len"
  defines "F \<equiv> owned (l_freelist L) bs" and "H \<equiv> owned (l_heap L) ((a, s) # hs)" and "l \<equiv> pg_roundup len"
  obtains (none) "sys_mmap L memtab p len flags fd m = Inl NullDeref" and "\<forall>b \<in> set bs. \<not> l \<le> snd b"
  | (some) r page m3 S' hs' where
      "sys_mmap L memtab p len flags fd m = bindE (alloc_pt (alloc_pages (l_freelist L)) (proc_pd m p) (read32 m (p + 12)) (v2p page) l USER_PAGE m3)
         (\<lambda>m. let m = SLIST_INSERT_HEAD m 12 (GETMEMMAP memtab m p) r in Inr (read32 m r, m))"
      "freelist_owns (l_freelist L) m3 S'" "S' \<subseteq> F" "heap_inv (l_heap L) m3 hs'" "owned (l_heap L) hs' \<subseteq> H"
      "r \<noteq> 0" "span r 16 \<subseteq> H" "span r 16 \<inter> owned (l_heap L) hs' = {}"
      "aligned 4096 page" "span page (unat l) \<subseteq> F" "span page (unat l) \<inter> S' = {}"
      "same_outside (H \<union> F \<union> span (p + 12) 4) m m3"
      "read32 m3 r = read32 m (p + 12)" "read32 m3 (r + 4) = v2p page" "read32 m3 (r + 8) = l"
      "read32 m3 (p + 12) = read32 m (p + 12) + l" "\<forall>x \<in> span page (unat l). m3 x = 0"
      "length bs \<le> Suc (freelist_stock (l_freelist L) m3)"
proof -
  note d = space_okD [OF ok]
  have dis: "F \<inter> H = {}" "F \<inter> span p 104 = {}" "H \<inter> span p 104 = {}" using d(8) by (simp_all add: F_def H_def)
  have c: "chunk_size 16 = 0x18" by (simp add: chunk_size_def roundup_def)
  obtain m1 hs' where k: "kmalloc (l_heap L) 16 m = Inr (a + 2, m1)" "heap_inv (l_heap L) m1 hs'" "same_outside H m m1"
      "span (a + 2) 16 \<subseteq> H" "span (a + 2) 16 \<inter> owned (l_heap L) hs' = {}" "owned (l_heap L) hs' \<subseteq> H" "a + 2 \<noteq> 0"
    by (rule kmalloc_first [OF d(3), of 16]) (use s in \<open>auto simp: c H_def\<close>)
  let ?r = "a + 2"
  have f1: "freelist_inv (l_freelist L) m1 bs" by (rule freelist_inv_frame [OF d(1) k(3)]) (use dis(1) in \<open>auto simp: F_def\<close>)
  then have o1: "freelist_owns (l_freelist L) m1 F" by (auto simp: freelist_owns_def F_def)
  from pages.alloc_returns [OF o1 len(2)] obtain page m2 S' where
    g: "alloc_pages (l_freelist L) (pg_roundup len) m1 = Inr (page, m2)" "freelist_owns (l_freelist L) m2 S'" "S' \<subseteq> F" "same_outside F m1 m2"
      "page \<noteq> 0 \<Longrightarrow> span page (unat l) \<subseteq> F \<and> span page (unat l) \<inter> S' = {}" by (auto simp: l_def pg_roundup_id)
  note eq = sys_mmap_anon_eq [OF an len(1) lim k(1,7) g(1), of memtab fd, folded l_def]
  show thesis
  proof (cases "page = 0")
    case True
    then show thesis using none eq alloc_pages_fails [OF f1 len(2)] g(1) by (simp add: l_def)
  next
    case False
    define m3 where "m3 = mmap_fill ?r page p l m2"
    have pg: "span page (unat l) \<subseteq> F" "span page (unat l) \<inter> S' = {}" using g(5) False by auto
    note fill = mmap_fill_facts [of ?r page l p m2, folded m3_def]
    have rg: "span ?r 16 \<inter> span page (unat l) = {}" using disjoint_sub [OF dis(1) pg(1) k(4)] by (simp add: Int_commute)
    have rp: "span ?r 16 \<inter> span p 104 = {}" by (rule disjoint_sub [OF dis(3) k(4) order_refl])
    have gp: "span page (unat l) \<inter> span p 104 = {}" by (rule disjoint_sub [OF dis(2) pg(1) order_refl])
    note fill = fill [OF rg rp gp]
    have pp: "span (p + 12) 4 \<subseteq> span p 104" using span_sub [of 12 4 104 p] by simp
    have o2: "same_outside (H \<union> F) m m2" by (rule same_outside_trans [OF k(3) g(4)])
    have "read32 m2 (p + 12) = read32 m (p + 12)"
      by (rule same_outside_read32 [OF o2]) (use pp dis in auto)
    note fill = fill [unfolded this]
    have o3: "same_outside (H \<union> F \<union> span (p + 12) 4) m m3"
      by (rule same_outside_mono [OF same_outside_trans [OF o2 fill(6)]]) (use k(4) pg(1) in auto)
    have "proc_pd m3 p = proc_pd m p"
    proof (rule proc_frame [OF o3])
      have "span p 12 \<inter> span (p + 12) 4 = {}" by (rule apart_span) (simp add: apart_def)
      moreover have "span p 4 \<subseteq> span p 12" "span (p + 4) 4 \<subseteq> span p 12" "span p 12 \<subseteq> span p 104"
        using span_sub [of 0 4 12 p] span_sub [of 4 4 12 p] span_mono [of 12 104 p] by auto
      ultimately show "(H \<union> F \<union> span (p + 12) 4) \<inter> (span p 4 \<union> span (p + 4) 4) = {}" using dis by blast
    qed
    then have "sys_mmap L memtab p len flags fd m = bindE (alloc_pt (alloc_pages (l_freelist L)) (proc_pd m p) (read32 m (p + 12)) (v2p page) l USER_PAGE m3)
         (\<lambda>m. let m = SLIST_INSERT_HEAD m 12 (GETMEMMAP memtab m p) ?r in Inr (read32 m ?r, m))"
      using eq False fill(1-3) by (simp add: m3_def [symmetric])
    moreover have dS: "(span ?r 16 \<union> span page (unat l) \<union> span (p + 12) 4) \<inter> S' = {}" using g(3) dis k(4) pg(2) pp by blast
    note pages.owns_frame [OF g(2) fill(6) dS]
    moreover have "length bs \<le> Suc (freelist_stock (l_freelist L) m3)"
      using pages.stock_alloc [OF o1 len(2) g(1)] pages.stock_frame [OF g(2) fill(6) dS] freelist_stock_eq [OF f1] by simp
    moreover have "heap_inv (l_heap L) m3 hs'"
    proof (rule heap_inv_frame [OF k(2) same_outside_trans [OF g(4) fill(6)]])
      show "(F \<union> (span ?r 16 \<union> span page (unat l) \<union> span (p + 12) 4)) \<inter> owned (l_heap L) hs' = {}"
        using dis pg(1) k(5,6) pp by blast
    qed
    moreover have "aligned 4096 page" using pages.alloc_aligned [OF o1 len(2) g(1)] .
    ultimately show thesis using some [of page m3 ?r S' hs'] g(3) k(4-7) pg o3 fill by blast
  qed
qed

lemma mmap_fits:
  assumes "unat base + unat l < 0x7FFFF000" and "aligned 4096 base"
  shows "\<not> MMAP_LIMIT \<le> base + l" and "unat (pg_rounddown base) + unat l \<le> 2 ^ 31"
  using assms by (simp_all add: pg_rounddown_id MMAP_LIMIT_def KERNEL_OFFSET_def STACK_SIZE_def word_le_nat_alt u32_add_small)

text \<open>The last step of \<^verbatim>\<open>sys_mmap\<close>: the pages are mapped and the region is put on the list.\<close>

lemma mmap_finish:
  assumes ok: "space_ok L memtab m p bs hs rs"
    and m3: "freelist_owns (l_freelist L) m3 S'" "S' \<subseteq> owned (l_freelist L) bs" "heap_inv (l_heap L) m3 hs'" "owned (l_heap L) hs' \<subseteq> owned (l_heap L) hs"
      "same_outside (owned (l_heap L) hs \<union> owned (l_freelist L) bs \<union> span (p + 12) 4) m m3" "aligned 4096 (read32 m3 (p + 12))"
    and r: "r \<noteq> 0" "span r 16 \<subseteq> owned (l_heap L) hs" "span r 16 \<inter> owned (l_heap L) hs' = {}"
    and m4: "freelist_owns (l_freelist L) m4 S4" "S4 \<subseteq> S'" "pd_inv m4 (proc_pd m p) S4"
      "same_outside (S' \<union> span (proc_pd m p) 4096 \<union> tables m3 (proc_pd m p)) m3 m4"
      "tables m4 (proc_pd m p) \<subseteq> S' \<union> span (proc_pd m p) 4096 \<union> tables m3 (proc_pd m p)"
  defines "m5 \<equiv> SLIST_INSERT_HEAD m4 12 (GETMEMMAP memtab m4 p) r"
  shows "\<exists>bs'. S4 = owned (l_freelist L) bs' \<and> space_ok L memtab m5 p bs' hs' (r # rs)"
    and "same_outside (S' \<union> vm_set m (proc_pd m p) \<union> span (r + 12) 4 \<union> span (GETMEMMAP memtab m p) 4) m3 m5"
    and "\<forall>q < 2 ^ 19. user_page m3 (proc_pd m p) q = user_page m (proc_pd m p) q"
    and "\<forall>q < 2 ^ 19. user_page m5 (proc_pd m p) q = user_page m4 (proc_pd m p) q"
proof -
  let ?h = "GETMEMMAP memtab m p" and ?pd = "proc_pd m p" and ?F = "owned (l_freelist L) bs" and ?H = "owned (l_heap L) hs"
  let ?V = "vm_set m ?pd"
  note d = space_okD [OF ok]
  have dis: "?F \<inter> ?H = {}" "?F \<inter> ?V = {}" "?F \<inter> span p 104 = {}" "?F \<inter> span ?h 8 = {}" "?F \<inter> regions_span rs = {}"
    "?H \<inter> ?V = {}" "?H \<inter> span p 104 = {}" "?H \<inter> span ?h 8 = {}"
    "?H \<inter> regions_span rs = {}" "?V \<inter> span p 104 = {}" "?V \<inter> span ?h 8 = {}"
    "?V \<inter> regions_span rs = {}" "span p 104 \<inter> span ?h 8 = {}" "span p 104 \<inter> regions_span rs = {}"
    "span ?h 8 \<inter> regions_span rs = {}" using d(8) by simp_all
  have p4: "span p 4 \<subseteq> span p 104" "span (p + 4) 4 \<subseteq> span p 104" "span (p + 12) 4 \<subseteq> span p 104"
    using span_sub [of 0 4 104 p] span_sub [of 4 4 104 p] span_sub [of 12 4 104 p] by auto
  have p12: "span (p + 12) 4 \<inter> (span p 4 \<union> span (p + 4) 4) = {}"
    using apart_span [of "p + 12" 4 p 4] apart_span [of "p + 12" 4 "p + 4" 4] by (simp add: apart_def Int_Un_distrib)
  have T3: "(?H \<union> ?F \<union> span (p + 12) 4) \<inter> ?V = {}" using dis(2,6,10) p4(3) by blast
  note v3 = vm_frame [OF d(4) m3(5) T3 m3(2)]
  show "\<forall>q < 2 ^ 19. user_page m3 ?pd q = user_page m ?pd q" using v3(3) by blast
  have o4: "same_outside (S' \<union> ?V) m3 m4" using m4(4) unfolding v3(4) vm_set_def by (simp add: Un_assoc)
  have om: "same_outside (?H \<union> ?F \<union> span (p + 12) 4 \<union> ?V) m m4"
    by (rule same_outside_mono [OF same_outside_trans [OF m3(5) o4]]) (use m3(2) in blast)
  have "(?H \<union> ?F \<union> span (p + 12) 4 \<union> ?V) \<inter> (span p 4 \<union> span (p + 4) 4) = {}" using dis(3,7,10) p4(1,2) p12 by blast
  note p = proc_frame [OF om this]
  have m5: "m5 = SLIST_INSERT_HEAD m4 12 ?h r" by (simp add: m5_def p(2))
  have r12: "span (r + 12) 4 \<subseteq> span r 16" using span_sub [of 12 4 16 r] by simp
  have h4: "span ?h 4 \<subseteq> span ?h 8" by (rule span_mono) simp
  have o5: "same_outside (span (r + 12) 4 \<union> span ?h 4) m4 m5" unfolding m5 by (rule SLIST_INSERT_HEAD_outside)
  show "same_outside (S' \<union> ?V \<union> span (r + 12) 4 \<union> span ?h 4) m3 m5"
    using same_outside_trans [OF o4 o5] by (simp add: Un_assoc)
  have V4: "vm_set m4 ?pd \<subseteq> ?F \<union> ?V" using m4(5) m3(2) unfolding v3(4) vm_set_def by blast
  have T5: "(span (r + 12) 4 \<union> span ?h 4) \<inter> vm_set m4 ?pd = {}" using V4 r12 h4 r(2) dis(1,4,6,11) by blast
  note v5 = vm_frame [OF m4(3) o5 T5 order_refl]
  show "\<forall>q < 2 ^ 19. user_page m5 ?pd q = user_page m4 ?pd q" using v5(3) by blast
  have "(span (r + 12) 4 \<union> span ?h 4) \<inter> (span p 4 \<union> span (p + 4) 4) = {}" using r12 h4 r(2) dis(7,13) p4(1,2) by blast
  note p' = proc_frame [OF o5 this]
  have fl5: "freelist_owns (l_freelist L) m5 S4"
    by (rule pages.owns_frame [OF m4(1) o5]) (use r12 h4 r(2) dis(1,4) m4(2) m3(2) in blast)
  then obtain bs' where bs': "S4 = owned (l_freelist L) bs'" "freelist_inv (l_freelist L) m5 bs'" by (auto simp: freelist_owns_def)
  have sl: "slist m4 12 ?h rs"
    by (rule slist_frame [OF d(6) om]) (use regions_cells [of ?h rs] dis(4,5,8,9,11,12,13,14) p4(3) in blast)
  have sn: "sep_nodes 16 ?h (r # rs)"
  proof -
    have "apart ?h 4 r 16" using dis(8) r(2) h4 by (auto simp: apart_iff_span)
    moreover have "apart r 16 y 16" if "y \<in> set rs" for y
      using dis(9) r(2) that by (auto simp: apart_iff_span regions_span_def)
    ultimately show ?thesis using d(7) by simp
  qed
  have "heap_inv (l_heap L) m5 hs'"
    by (rule heap_inv_frame [OF m3(3) same_outside_trans [OF o4 o5]]) (use m3(2,4) dis(1,6,8) r(3) r12 h4 in blast)
  moreover have "aligned 4096 (read32 m5 (p + 12))"
  proof -
    have "span (p + 12) 4 \<inter> (S' \<union> ?V \<union> (span (r + 12) 4 \<union> span ?h 4)) = {}"
      using m3(2) p4(3) dis(3,7,10,13) r(2) r12 h4 by blast
    from same_outside_read32 [OF same_outside_trans [OF o4 o5] this] m3(6) show ?thesis by simp
  qed
  moreover have "tables m5 ?pd \<subseteq> ?F \<union> ?V" using V4 v5(4) by (simp add: vm_set_def)
  moreover have "slist m5 12 ?h (r # rs)" unfolding m5
    by (rule SLIST_INSERT_HEAD_slist [OF sl sep_nodes_snew [OF sn] r(1)]) simp
  ultimately have "space_ok L memtab m5 p bs' hs' (r # rs)"
    using bs' m4(2) m3(2,4) p p' v5(1) r(2,3) by (intro space_okI [OF ok bs'(2)]) simp_all
  with bs'(1) show "\<exists>bs'. S4 = owned (l_freelist L) bs' \<and> space_ok L memtab m5 p bs' hs' (r # rs)" by blast
qed

text \<open>What the last step leaves of the region, the process and the new pages.\<close>

lemma mmap_kept:
  fixes m :: mem and p :: u32
  assumes ok: "space_ok L memtab m p bs hs rs" and S: "S' \<subseteq> owned (l_freelist L) bs" and R: "span r 16 \<subseteq> owned (l_heap L) hs"
    and g: "span page n \<subseteq> owned (l_freelist L) bs" "span page n \<inter> S' = {}" "\<forall>x \<in> span page n. m3 x = 0"
    and o3: "same_outside (owned (l_heap L) hs \<union> owned (l_freelist L) bs \<union> span (p + 12) 4) m m3"
    and o5: "same_outside (S' \<union> vm_set m (proc_pd m p) \<union> span (r + 12) 4 \<union> span (GETMEMMAP memtab m p) 4) m3 m5"
  shows "unat i + 4 \<le> 12 \<Longrightarrow> read32 m5 (r + i) = read32 m3 (r + i)" and "read32 m5 (p + 12) = read32 m3 (p + 12)"
    and "proc_pd m5 p = proc_pd m p" and "\<forall>x \<in> span page n. m5 x = 0"
proof -
  let ?F = "owned (l_freelist L) bs" and ?H = "owned (l_heap L) hs" and ?h = "GETMEMMAP memtab m p" and ?V = "vm_set m (proc_pd m p)"
  let ?T = "S' \<union> ?V \<union> span (r + 12) 4 \<union> span ?h 4"
  have dis: "?F \<inter> ?H = {}" "?F \<inter> ?V = {}" "?H \<inter> ?V = {}" "?V \<inter> span p 104 = {}"
    "?F \<inter> span p 104 = {}" "?H \<inter> span p 104 = {}" "?F \<inter> span ?h 8 = {}" "?H \<inter> span ?h 8 = {}" "span p 104 \<inter> span ?h 8 = {}"
    using space_okD(8) [OF ok] by simp_all
  have sub: "S' \<subseteq> ?F" "span (r + 12) 4 \<subseteq> ?H" "span ?h 4 \<subseteq> span ?h 8"
    using S R span_sub [of 12 4 16 r] span_mono [of 4 8 ?h] by auto
  show "read32 m5 (r + i) = read32 m3 (r + i)" if i: "unat i + 4 \<le> 12"
  proof (rule same_outside_read32 [OF o5])
    have "apart r 12 (r + 12) 4" by (simp add: apart_def)
    then have "span (r + i) 4 \<inter> span (r + 12) 4 = {}" using span_sub [OF i, of r] apart_span by blast
    moreover have "span (r + i) 4 \<subseteq> ?H" using span_sub [of i 4 16 r] i R by auto
    ultimately show "span (r + i) 4 \<inter> ?T = {}" using sub dis(1,3,8) by blast
  qed
  have P: "span (p + j) 4 \<inter> ?T = {}" if "unat j + 4 \<le> 104" for j
    using span_sub [OF that, of p] sub dis(4,5,6,9) by blast
  show "read32 m5 (p + 12) = read32 m3 (p + 12)" by (rule same_outside_read32 [OF o5 P]) simp
  have "span (p + 12) 4 \<inter> span (p + 4) 4 = {}" "span (p + 4) 4 \<subseteq> span p 104"
    using apart_span [of "p + 12" 4 "p + 4" 4] span_sub [of 4 4 104 p] by (simp_all add: apart_def)
  then have "span (p + 4) 4 \<inter> (?H \<union> ?F \<union> span (p + 12) 4) = {}" using dis(5,6) by blast
  then have "read32 m3 (p + 4) = read32 m (p + 4)" by (rule same_outside_read32 [OF o3])
  then show "proc_pd m5 p = proc_pd m p" using same_outside_read32 [OF o5 P, of 4] by (simp add: proc_pd_def)
  show "\<forall>x \<in> span page n. m5 x = 0"
  proof
    fix x assume x: "x \<in> span page n"
    then have "x \<notin> ?T" using g(1,2) sub dis(1,2,7) by blast
    then show "m5 x = 0" using byte_frame [OF o5] g(3) x by simp
  qed
qed

text \<open>C21: an anonymous \<^verbatim>\<open>sys_mmap\<close> that fits below the stack either runs out of memory (and then
  dereferences NULL: no free block is long enough, or there are not more free blocks than page tables missing), or returns the old end of the process's mappings, where every page of the rounded-up
  length is mapped with user access to a frame of its own: memory that was free, is now zero and is no
  longer the allocator's. No other page of the process changes, the region is recorded in front of its list,
  the end of the mappings moves up, and the allocators, the page tables and the process stay well formed and
  apart from each other.\<close>

theorem sys_mmap_anonymous:
  fixes p :: u32 and len :: u32 and m :: mem
  assumes "space_ok L memtab m p bs ((a, s) # hs) rs" and "0x18 < s" and "flags AND MAP_ANON \<noteq> 0" and "len \<noteq> 0"
    and "len \<le> 0xFFFFF000" and "unat (read32 m (p + 12)) + unat (pg_roundup len) < 0x7FFFF000"
  defines "base \<equiv> read32 m (p + 12)" and "l \<equiv> pg_roundup len" and "pd \<equiv> proc_pd m p"
  defines "q0 \<equiv> unat base div 4096" and "n \<equiv> unat l div 4096"
  shows "(sys_mmap L memtab p len flags fd m = Inl NullDeref \<and>
      ((\<forall>b \<in> set bs. \<not> l \<le> snd b) \<or> length bs \<le> card (missing m pd q0 n))) \<or>
    (\<exists>m' bs' hs' r page. sys_mmap L memtab p len flags fd m = Inr (base, m') \<and>
      space_ok L memtab m' p bs' hs' (r # rs) \<and> read32 m' (p + 12) = base + l \<and> proc_pd m' p = pd \<and>
      read32 m' r = base \<and> read32 m' (r + 4) = v2p page \<and> read32 m' (r + 8) = l \<and>
      span page (unat l) \<subseteq> owned (l_freelist L) bs \<and> span page (unat l) \<inter> owned (l_freelist L) bs' = {} \<and>
      (\<forall>x \<in> span page (unat l). m' x = 0) \<and>
      (\<forall>q < 2 ^ 19. user_page m' pd q = (if q0 \<le> q \<and> q < q0 + n
         then Some ((v2p page + 4096 * of_nat (q - q0)) OR USER_PAGE) else user_page m pd q)))"
proof -
  note d = space_okD [OF assms(1)]
  have al: "pg_rounddown base = base" "pg_roundup l = l" using d(5) by (simp_all add: base_def l_def pg_rounddown_id pg_roundup_id)
  note fit = mmap_fits [OF assms(6) d(5), folded base_def l_def]
  have "unat len \<le> 0xFFFFF000" using assms(5) by (simp add: word_le_nat_alt)
  then have l0: "pg_roundup len \<noteq> 0" using pg_roundup_bounds(1) [of len] assms(4) by (auto simp: unat_eq_zero)
  show ?thesis
  proof (cases rule: mmap_prepare [OF assms(1-4) l0 fit(1) [unfolded base_def l_def], where fd = fd])
    case 1
    then show ?thesis by (simp add: l_def)
  next
    case (2 r page m3 S' hs')
    note some = this
    have dis: "owned (l_freelist L) bs \<inter> vm_set m pd = {}" "owned (l_heap L) ((a, s) # hs) \<inter> vm_set m pd = {}"
      "vm_set m pd \<inter> span p 104 = {}" using d(8) by (simp_all add: pd_def)
    have hi: "S' \<subseteq> high" using some(3) d(2) by blast
    have "span (p + 12) 4 \<subseteq> span p 104" using span_sub [of 12 4 104 p] by simp
    then have "(owned (l_heap L) ((a, s) # hs) \<union> owned (l_freelist L) bs \<union> span (p + 12) 4) \<inter> vm_set m pd = {}"
      using dis by blast
    note vm = vm_frame [OF d(4) [folded pd_def] some(12) this some(3)]
    note pdi = vm(1)
    have mis: "missing m3 pd q0 n = missing m pd q0 n"
    proof (rule vm(5))
      have "q0 + n \<le> (unat base + unat l) div 4096" unfolding q0_def n_def by linarith
      also have "\<dots> \<le> 2 ^ 31 div 4096" using fit(2) by (intro div_le_mono) (simp add: al)
      finally show "q0 + n \<le> 2 ^ 19" by simp
    qed
    have "aligned 4096 (v2p page)" using some(9) by (simp add: aligned_def unat_v2p mod_mod_cancel)
    then have v: "pg_rounddown (v2p page) = v2p page" by (rule pg_rounddown_id)
    have f: "USER_PAGE < 0x1000" "present USER_PAGE" by (simp_all add: user_page_flags present_def)
    have "unat (pg_rounddown base) + unat (pg_roundup l) \<le> 2 ^ 31" using fit(2) by (simp add: al)
    from alloc_pt_maps [OF some(2) hi pdi f this, of "v2p page", unfolded al v, folded q0_def n_def]
    show ?thesis
    proof (elim disjE exE conjE)
      assume "freelist_stock (l_freelist L) m3 < card (missing m3 pd q0 n)"
        "alloc_pt (alloc_pages (l_freelist L)) pd base (v2p page) l USER_PAGE m3 = Inl NullDeref"
      then show ?thesis using some(1,18) mis by (auto simp: base_def l_def pd_def)
    next
      fix m4 S4
      assume m4: "alloc_pt (alloc_pages (l_freelist L)) pd base (v2p page) l USER_PAGE m3 = Inr m4" "freelist_owns (l_freelist L) m4 S4" "S4 \<subseteq> S'"
        "pd_inv m4 pd S4" "same_outside (S' \<union> span pd 4096 \<union> tables m3 pd) m3 m4" "tables m4 pd \<subseteq> S' \<union> span pd 4096 \<union> tables m3 pd"
        "\<forall>q < 2 ^ 19. user_page m4 pd q = (if q0 \<le> q \<and> q < q0 + n
           then Some ((v2p page + 4096 * of_nat (q - q0)) OR USER_PAGE) else user_page m3 pd q)"
      have ab: "aligned 4096 (read32 m3 (p + 12))"
        using aligned_add [OF d(5) aligned_pg_roundup [of len]] some(16) by simp
      define m5 where "m5 = SLIST_INSERT_HEAD m4 12 (GETMEMMAP memtab m4 p) r"
      note fin = mmap_finish [OF assms(1) some(2-5,12) ab some(6-8) m4(2-6) [unfolded pd_def], folded m5_def pd_def]
      note keep = mmap_kept [OF assms(1) some(3,7,10,11,17,12) fin(2) [unfolded pd_def]]
      have u: "\<forall>q < 2 ^ 19. user_page m5 pd q = (if q0 \<le> q \<and> q < q0 + n
         then Some ((v2p page + 4096 * of_nat (q - q0)) OR USER_PAGE) else user_page m pd q)"
        using fin(3,4) m4(7) by simp
      obtain bs' where bs': "S4 = owned (l_freelist L) bs'" "space_ok L memtab m5 p bs' hs' (r # rs)" using fin(1) by blast
      have "sys_mmap L memtab p len flags fd m = Inr (base, m5)"
        using some(1,13) m4(1) keep(1) [of 0] by (simp add: base_def l_def pd_def m5_def)
      moreover have "span page (unat l) \<inter> owned (l_freelist L) bs' = {}" using some(11) m4(3) bs'(1) unfolding l_def by blast
      moreover have "read32 m5 (p + 12) = base + l" using keep(2) some(16) by (simp add: base_def l_def)
      ultimately show ?thesis using bs'(2) keep(3,4) u some(10,13-15) keep(1) [of 0] keep(1) [of 4] keep(1) [of 8] unfolding base_def l_def pd_def
        by (intro disjI2 exI [of _ m5] exI [of _ bs'] exI [of _ hs'] exI [of _ r] exI [of _ page]) simp
    qed
  qed
qed

text \<open>The small kernel memory with a heap and a process: its structure at 0x80040000, its mappings end at
  0x10000, the table of memory maps is at 0x80020000.\<close>

definition demo_space :: mem where
  "demo_space = write32 (write32 (write32 (write32 (write32 (write32 demo_kmem 0x80000200 0x80010000) 0x80010000 0x100)
     0x80040000 1) 0x80040004 0x1000) 0x8004000C 0x10000) 0x80010004 0"

abbreviation demo_outside :: "u32 set" where
  "demo_outside \<equiv> span 0x80000200 4 \<union> span 0x80010000 8 \<union> span 0x80040000 16"

lemma demo_space_outside: "same_outside demo_outside demo_kmem demo_space"
proof -
  have "span (0x80010000 + i) 4 \<subseteq> span 0x80010000 8" if "unat i + 4 \<le> 8" for i by (rule span_sub [OF that])
  from this [of 0] this [of 4]
  have a: "span 0x80010000 4 \<subseteq> demo_outside" "span 0x80010004 4 \<subseteq> demo_outside" by auto
  have "span (0x80040000 + i) 4 \<subseteq> span 0x80040000 16" if "unat i + 4 \<le> 16" for i by (rule span_sub [OF that])
  from this [of 0] this [of 4] this [of 12]
  have "span 0x80040000 4 \<subseteq> demo_outside" "span 0x80040004 4 \<subseteq> demo_outside" "span 0x8004000C 4 \<subseteq> demo_outside" by auto
  with a show ?thesis unfolding demo_space_def
    by (intro same_outside_write32_in same_outside_refl) (assumption | blast)+
qed

lemma demo_space_ok: "space_ok demo_link 0x80020000 demo_space 0x80040000 demo_pages [(0x80010000, 0x100)] []"
proof -
  let ?F = "owned 0x80000100 demo_pages" and ?H = "owned 0x80000200 [(0x80010000, 0x100)]"
  have l: "l_freelist demo_link = 0x80000100" "l_heap demo_link = 0x80000200" by (simp_all add: demo_link_def)
  have pr: "proc_pd demo_space 0x80040000 = 0x80001000" "GETMEMMAP 0x80020000 demo_space 0x80040000 = 0x80020000"
    "read32 demo_space (0x80040000 + 12) = 0x10000"
    by (simp_all add: proc_pd_def GETMEMMAP_def p2v_def KERNEL_OFFSET_def demo_space_def mem_simps apart_def)
  have F: "?F = span 0x80000100 4 \<union> span 0x80002000 0x1000 \<union> span 0x80008000 0x4000" "?H = span 0x80000200 4 \<union> span 0x80010000 0x100"
    by (auto simp: owned_def demo_pages_def block_span_def)
  have d: "apart a n b k \<Longrightarrow> span a n \<inter> span b k = {}" for a n b k by (rule apart_span)
  have out: "demo_outside \<inter> ?F = {}" unfolding F Int_Un_distrib Int_Un_distrib2 Un_empty
    by (intro conjI d) (simp_all add: apart_def)
  have vm: "vm_set demo_kmem 0x80001000 = span 0x80001000 4096" by (simp add: vm_set_def demo_kmem_pd)
  have "demo_outside \<inter> vm_set demo_kmem 0x80001000 = {}" unfolding vm Int_Un_distrib2 Un_empty
    by (intro conjI d) (simp_all add: apart_def)
  note v = vm_frame [OF demo_kmem_pd(2) demo_space_outside this order_refl]
  have "sorted_wrt (\<lambda>A B. A \<inter> B = {}) [?F, ?H, span 0x80001000 4096, span 0x80040000 104, span 0x80020000 8, regions_span []]"
    unfolding F sorted_wrt.simps list.set ball_simps Int_Un_distrib Int_Un_distrib2 Un_empty regions_span_def SUP_empty UN_empty
    by (intro conjI d TrueI) (simp_all add: apart_def)
  moreover have "freelist_inv 0x80000100 demo_space demo_pages" by (rule freelist_inv_frame [OF demo_kmem_inv demo_space_outside out])
  moreover have "heap_inv 0x80000200 demo_space [(0x80010000, 0x100)]"
    by (simp add: heap_inv_def demo_space_def slist_def chunk_ok_def aligned_def mem_simps apart_def)
  moreover have "slist demo_space 12 0x80020000 []"
    by (simp add: slist_def demo_space_def demo_kmem_def mem_simps apart_def) (simp add: read32_def)
  ultimately show ?thesis
    unfolding space_ok_def l pr using demo_kmem_owned(1) v(1,2) vm by (simp add: aligned_def)
qed

lemma demo_space_missing: "card (missing demo_space 0x80001000 0x10 2) \<le> 1"
proof -
  have "missing demo_space 0x80001000 0x10 2 \<subseteq> {0}" by (auto simp: missing_def)
  then show ?thesis using card_mono [of "{0 :: nat}"] by fastforce
qed

theorem sys_mmap_anonymous_witness:
  "\<exists>m' page. sys_mmap demo_link 0x80020000 0x80040000 0x1800 1 0 demo_space = Inr (0x10000, m') \<and>
     read32 m' 0x8004000C = 0x12000 \<and> user_page m' 0x80001000 0x11 = Some ((v2p page + 0x1000) OR 7)"
proof -
  have l: "pg_roundup 0x1800 = 0x2000" by (simp add: pg_roundup_def roundup_def)
  have pr: "proc_pd demo_space 0x80040000 = 0x80001000" "read32 demo_space 0x8004000C = 0x10000"
    by (simp_all add: proc_pd_def p2v_def KERNEL_OFFSET_def demo_space_def mem_simps apart_def)
  have p: "(0x18 :: u32) < 0x100" "(1 :: u32) AND MAP_ANON \<noteq> 0" "(0x1800 :: u32) \<noteq> 0" "(0x1800 :: u32) \<le> 0xFFFFF000"
    by (simp_all add: MAP_ANON_def)
  have "unat (read32 demo_space (0x80040000 + 12)) + unat (pg_roundup 0x1800) < 0x7FFFF000" by (simp add: pr l)
  note c = sys_mmap_anonymous [OF demo_space_ok p this, of 0]
  have n: "\<not> ((\<forall>b \<in> set demo_pages. \<not> pg_roundup 0x1800 \<le> snd b) \<or> length demo_pages \<le>
      card (missing demo_space (proc_pd demo_space 0x80040000) (unat (read32 demo_space (0x80040000 + 12)) div 4096) (unat (pg_roundup 0x1800) div 4096)))"
    using demo_space_missing by (simp add: demo_pages_def l pr)
  obtain m' page where m': "sys_mmap demo_link 0x80020000 0x80040000 0x1800 1 0 demo_space = Inr (read32 demo_space (0x80040000 + 12), m')"
      "read32 m' (0x80040000 + 12) = read32 demo_space (0x80040000 + 12) + pg_roundup 0x1800"
      "\<forall>q < 2 ^ 19. user_page m' (proc_pd demo_space 0x80040000) q =
         (if unat (read32 demo_space (0x80040000 + 12)) div 4096 \<le> q \<and>
             q < unat (read32 demo_space (0x80040000 + 12)) div 4096 + unat (pg_roundup 0x1800) div 4096
          then Some ((v2p page + 4096 * of_nat (q - unat (read32 demo_space (0x80040000 + 12)) div 4096)) OR USER_PAGE)
          else user_page demo_space (proc_pd demo_space 0x80040000) q)"
    using c n by blast
  from m'(3) [rule_format, of "0x11"] have "user_page m' 0x80001000 0x11 = Some ((v2p page + 0x1000) OR 7)"
    by (simp add: pr l user_page_flags)
  with m'(1,2) show ?thesis by (auto simp: pr l)
qed

end
