(* ===== verification/Teardown.thy ===== *)
theory Teardown
  imports Space
begin

text \<open>
  The end of an address space: \<^verbatim>\<open>free_uvm\<close> of \<^verbatim>\<open>kernel/proc.c\<close> walks the list of a process's memory
  regions while it takes each of them off the list and gives its pages back. The theorem says that the
  walk ends and where the pages are then.
\<close>

definition region_block :: "mem \<Rightarrow> u32 \<Rightarrow> u32 \<times> u32" where
  "region_block m r = (p2v (read32 m (r + 4)), read32 m (r + 8))"

text \<open>The regions of a process and the free blocks: all of the blocks are well formed and disjoint, and
  none of them contains the list of regions or the process identifier.\<close>

definition regions_ok :: "u32 \<Rightarrow> u32 \<Rightarrow> u32 \<Rightarrow> mem \<Rightarrow> u32 list \<Rightarrow> blocks \<Rightarrow> bool" where
  "regions_ok fl h p m rs bs \<longleftrightarrow> slist m 12 h rs \<and> sep_nodes 16 h rs \<and> apart h 4 p 4 \<and>
     blocks_ok fl (map (region_block m) rs @ bs) \<and>
     (span h 4 \<union> span p 4 \<union> regions_span rs) \<inter> owned fl (map (region_block m) rs @ bs) = {}"

lemma region_block_frame:
  assumes "same_outside T m m'" and "T \<inter> span r 16 = {}"
  shows "region_block m' r = region_block m r"
proof -
  have "read32 m' (r + i) = read32 m (r + i)" if "unat i + 4 \<le> 16" for i
    using same_outside_read32 [OF assms(1)] span_sub [OF that, of r] assms(2) by blast
  from this [of 4] this [of 8] show ?thesis by (simp add: region_block_def)
qed

lemma owned_append_block: "owned fl (xs @ b # bs) = owned fl (xs @ bs) \<union> block_span b"
  by (auto simp: owned_def)

lemma set_ins_free_sub: "set (ins_free b bs) \<subseteq> insert b (set bs)"
  using set_ins_free [of bs b] by (cases "bs = []") auto

lemma blocks_ok_replace:
  assumes "blocks_ok fl (b # xs @ bs)"
  shows "blocks_ok fl (xs @ ins_free b bs)"
proof -
  have "blocks_ok fl (b # bs)" using assms by (auto simp: blocks_ok_append)
  then show ?thesis
    using assms blocks_ok_ins_free [of fl b bs] set_ins_free_sub [of b bs]
    by (auto simp: blocks_ok_append block_apart_sym)
qed

lemma unlink_first:
  assumes "slist m 12 h (r # rs)" and "sep_nodes 16 h (r # rs)"
  shows "SLIST_REMOVE m 12 h r = Inr (write32 m h (first0 rs))" and "slist (write32 m h (first0 rs)) 12 h rs"
  using SLIST_REMOVE_eq [of m 12 h "[]" r rs] SLIST_REMOVE_slist [of m 12 h "[]" r rs]
    sep_nodes_slcells [OF assms(2), of 12] assms(1) by simp_all

lemma free_region:
  assumes inv: "freelist_inv fl m bs" and ok: "regions_ok fl h p m (r # rs) bs"
  obtains m' where "free_pages fl (fst (region_block m r)) (snd (region_block m r)) (write32 m h (first0 rs)) = Inr m'"
    and "freelist_inv fl m' (ins_free (region_block m r) bs)"
    and "regions_ok fl h p m' rs (ins_free (region_block m r) bs)"
    and "map (region_block m') rs = map (region_block m) rs"
    and "same_outside (span h 4 \<union> owned fl (region_block m r # bs)) m m'"
proof -
  let ?b = "region_block m r" and ?m1 = "write32 m h (first0 rs)"
  let ?all = "owned fl (map (region_block m) (r # rs) @ bs)"
  have sl: "slist m 12 h (r # rs)" and sn: "sep_nodes 16 h (r # rs)" and hp: "apart h 4 p 4"
    and bok: "blocks_ok fl (?b # map (region_block m) rs @ bs)"
    and dis: "(span h 4 \<union> span p 4 \<union> regions_span (r # rs)) \<inter> ?all = {}"
    using ok by (simp_all add: regions_ok_def)
  have sub: "owned fl (?b # bs) \<subseteq> ?all" "owned fl bs \<subseteq> ?all" by (auto simp: owned_def)
  have out1: "same_outside (span h 4) m ?m1" by (rule same_outside_write32)
  have inv1: "freelist_inv fl ?m1 bs"
    using freelist_inv_frame [OF inv out1] disjoint_sub [OF dis, of "span h 4" "owned fl bs"] sub by blast
  have "blocks_ok fl ((fst ?b, snd ?b) # bs)" using bok by (auto simp: blocks_ok_append)
  from free_pages_refines [OF inv1 this] obtain m' where
    m': "free_pages fl (fst ?b) (snd ?b) ?m1 = Inr m'" "freelist_inv fl m' (ins_free ?b bs)"
      "same_outside (owned fl (?b # bs)) ?m1 m'" by auto
  have out: "same_outside (span h 4 \<union> owned fl (?b # bs)) m m'"
    by (rule same_outside_trans [OF out1 m'(3)])
  have far: "owned fl (?b # bs) \<inter> span h 4 = {}" "owned fl (?b # bs) \<inter> regions_span (r # rs) = {}"
    using disjoint_sub [OF dis _ sub(1), of "span h 4"] disjoint_sub [OF dis _ sub(1), of "regions_span (r # rs)"]
    by (blast, blast)
  have cells: "owned fl (?b # bs) \<inter> cellspan (slcells 12 h rs) = {}"
  proof -
    have "span (x + 12) 4 \<subseteq> span x 16" for x :: u32 by (rule span_sub) simp
    then have "cellspan (slcells 12 h rs) \<subseteq> span h 4 \<union> regions_span (r # rs)"
      by (force simp: cellspan_def set_slcells regions_span_def)
    then show ?thesis using far by blast
  qed
  have "slist m' 12 h rs" by (rule slist_frame [OF unlink_first(2) [OF sl sn] m'(3) cells])
  moreover have rb: "region_block m' x = region_block m x" if "x \<in> set rs" for x
  proof (rule region_block_frame [OF out])
    have "span x 16 \<subseteq> regions_span (r # rs)" using that by (auto simp: regions_span_def)
    moreover have "span h 4 \<inter> span x 16 = {}" using sn that by (auto simp: sep_nodes_def dest!: apart_span bspec)
    ultimately show "(span h 4 \<union> owned fl (?b # bs)) \<inter> span x 16 = {}" using far(2) by blast
  qed
  then have mrb: "map (region_block m') rs = map (region_block m) rs" by simp
  moreover have "blocks_ok fl (map (region_block m) rs @ ins_free ?b bs)" by (rule blocks_ok_replace [OF bok])
  moreover have "owned fl (map (region_block m) rs @ ins_free ?b bs) \<subseteq> ?all"
    using set_ins_free_sub [of ?b bs] by (auto simp: owned_def)
  then have "(span h 4 \<union> span p 4 \<union> regions_span rs) \<inter> owned fl (map (region_block m) rs @ ins_free ?b bs) = {}"
    using disjoint_sub [OF dis, of "span h 4 \<union> span p 4 \<union> regions_span rs"] by (auto simp: regions_span_def)
  ultimately have "regions_ok fl h p m' rs (ins_free ?b bs)"
    unfolding regions_ok_def mrb using sn hp by simp
  then show ?thesis using that m'(1,2) mrb out by blast
qed

lemma free_uvm_loop_frees:
  assumes "freelist_inv (l_freelist L) m bs" and "regions_ok (l_freelist L) h p m rs bs"
    and "GETMEMMAP memtab m p = h"
  shows "\<exists>m' bs'. free_uvm_loop L memtab p (first0 rs) m = Some (Inr m') \<and> freelist_inv (l_freelist L) m' bs' \<and>
    slist m' 12 h [] \<and>
    (if bs = [] then bs' = []
     else owned (l_freelist L) bs' = owned (l_freelist L) (map (region_block m) rs @ bs) \<and>
       free_bytes bs' = free_bytes bs + (\<Sum>r\<leftarrow>rs. unat (snd (region_block m r)))) \<and>
    same_outside (span h 4 \<union> owned (l_freelist L) (map (region_block m) rs @ bs)) m m'"
  using assms
proof (induction rs arbitrary: m bs)
  case Nil
  then show ?case
    by (subst free_uvm_loop.simps) (auto simp: regions_ok_def)
next
  case (Cons r rs)
  let ?fl = "l_freelist L" and ?b = "region_block m r"
  have sl: "slist m 12 h (r # rs)" and sn: "sep_nodes 16 h (r # rs)"
    and dis: "(span h 4 \<union> span p 4 \<union> regions_span (r # rs)) \<inter> owned ?fl (map (region_block m) (r # rs) @ bs) = {}"
    and hp: "apart h 4 p 4"
    using Cons.prems(2) by (simp_all add: regions_ok_def)
  obtain m' where m': "free_pages ?fl (fst ?b) (snd ?b) (write32 m h (first0 rs)) = Inr m'"
      "freelist_inv ?fl m' (ins_free ?b bs)" "regions_ok ?fl h p m' rs (ins_free ?b bs)"
      "map (region_block m') rs = map (region_block m) rs" "same_outside (span h 4 \<union> owned ?fl (?b # bs)) m m'"
    using free_region [OF Cons.prems(1,2)] by blast
  have "span h 4 \<inter> span p 4 = {}" using apart_span [OF hp] .
  moreover have "owned ?fl (?b # bs) \<inter> span p 4 = {}"
    using disjoint_sub [OF dis, of "span p 4" "owned ?fl (?b # bs)"] by (auto simp: owned_def)
  ultimately have "read32 m' p = read32 m p"
    using same_outside_read32 [OF m'(5), of p] by blast
  then have gm: "GETMEMMAP memtab m' p = h" using Cons.prems(3) by (simp add: GETMEMMAP_def)
  have r0: "r \<noteq> 0" using slist_nonnull [OF sl] by auto
  have nx: "read32 m (r + 12) = first0 rs" using slist_next [of m 12 h "[]" r rs] sl by simp
  have "region_block (write32 m h (first0 rs)) r = region_block m r"
    using sn by (intro region_block_frame [OF same_outside_write32]) (simp add: apart_span apart_mono)
  then have step: "free_uvm_loop L memtab p (first0 (r # rs)) m = free_uvm_loop L memtab p (first0 rs) m'"
    using r0 m'(1) unlink_first(1) [OF sl sn] Cons.prems(3) nx
    by (subst free_uvm_loop.simps) (simp add: Let_def region_block_def)
  let ?all = "map (region_block m) (r # rs) @ bs"
  have own: "owned ?fl (map (region_block m) rs @ ins_free ?b bs) = owned ?fl ?all" if "bs \<noteq> []"
    using set_ins_free [OF that, of ?b] by (auto simp: owned_def)
  have sub: "owned ?fl (map (region_block m) rs @ ins_free ?b bs) \<subseteq> owned ?fl ?all"
    using set_ins_free_sub [of ?b bs] by (auto simp: owned_def)
  have sum: "(\<Sum>r\<leftarrow>rs. unat (snd (region_block m' r))) = (\<Sum>r\<leftarrow>rs. unat (snd (region_block m r)))"
    using arg_cong [OF m'(4), of "\<lambda>l. sum_list (map (unat \<circ> snd) l)"] by (simp add: comp_def)
  obtain m'' bs' where ih: "free_uvm_loop L memtab p (first0 rs) m' = Some (Inr m'')" "freelist_inv ?fl m'' bs'" "slist m'' 12 h []"
      "if ins_free ?b bs = [] then bs' = []
       else owned ?fl bs' = owned ?fl (map (region_block m) rs @ ins_free ?b bs) \<and>
         free_bytes bs' = free_bytes (ins_free ?b bs) + (\<Sum>r\<leftarrow>rs. unat (snd (region_block m r)))"
      "same_outside (span h 4 \<union> owned ?fl (map (region_block m) rs @ ins_free ?b bs)) m' m''"
    using Cons.IH [OF m'(2,3) gm, unfolded m'(4) sum] by blast
  have "if bs = [] then bs' = []
     else owned ?fl bs' = owned ?fl ?all \<and> free_bytes bs' = free_bytes bs + (\<Sum>r\<leftarrow>r # rs. unat (snd (region_block m r)))"
    using ih(4) own ins_free_nonempty [of bs ?b] free_bytes_ins_free [of bs ?b] by (cases "bs = []") auto
  moreover have "same_outside (span h 4 \<union> owned ?fl ?all) m m''"
    using same_outside_trans [OF m'(5) ih(5)] sub by (elim same_outside_mono) (auto simp: owned_def)
  ultimately show ?case unfolding step using ih(1-3) by blast
qed

section \<open>Properties\<close>

text \<open>C28: \<^verbatim>\<open>free_uvm\<close> terminates, although it walks a list that it takes apart: it ends with an empty list of
  regions and a well-formed free list, and writes to no memory but the free blocks and the pages of the regions. If the free list was not empty, it owns
  the pages of all the regions besides what it owned, with the bytes of all of them added up; if it was empty it stays
  empty, and the pages are lost.\<close>

theorem free_uvm_frees:
  assumes "freelist_inv (l_freelist L) m bs" and "regions_ok (l_freelist L) (GETMEMMAP memtab m p) p m rs bs"
  shows "\<exists>m' bs'. free_uvm L memtab p m = Inr m' \<and> slist m' 12 (GETMEMMAP memtab m p) [] \<and>
    freelist_inv (l_freelist L) m' bs' \<and>
    (if bs = [] then bs' = []
     else owned (l_freelist L) bs' = owned (l_freelist L) bs \<union> (\<Union>r \<in> set rs. block_span (region_block m r)) \<and>
       free_bytes bs' = free_bytes bs + (\<Sum>r\<leftarrow>rs. unat (snd (region_block m r)))) \<and>
    same_outside (span (GETMEMMAP memtab m p) 4 \<union> owned (l_freelist L) bs \<union> (\<Union>r \<in> set rs. block_span (region_block m r))) m m'"
proof -
  let ?fl = "l_freelist L" and ?h = "GETMEMMAP memtab m p"
  have f: "SLIST_FIRST m ?h = first0 rs"
    using assms(2) by (auto simp: regions_ok_def SLIST_FIRST_def intro: slist_first)
  have o: "owned ?fl (map (region_block m) rs @ bs) = owned ?fl bs \<union> (\<Union>r \<in> set rs. block_span (region_block m r))"
    by (auto simp: owned_def)
  obtain m' bs' where *: "free_uvm_loop L memtab p (first0 rs) m = Some (Inr m')" "freelist_inv ?fl m' bs'" "slist m' 12 ?h []"
      "if bs = [] then bs' = []
       else owned ?fl bs' = owned ?fl bs \<union> (\<Union>r \<in> set rs. block_span (region_block m r)) \<and>
         free_bytes bs' = free_bytes bs + (\<Sum>r\<leftarrow>rs. unat (snd (region_block m r)))"
      "same_outside (span ?h 4 \<union> owned ?fl bs \<union> (\<Union>r \<in> set rs. block_span (region_block m r))) m m'"
    using free_uvm_loop_frees [OF assms refl] unfolding o Un_assoc by blast
  moreover have "free_uvm L memtab p m = Inr m'" using *(1) f by (simp add: free_uvm_def)
  ultimately show ?thesis by blast
qed

text \<open>A process with one region of two pages.\<close>

definition demo_uvm :: mem where
  "demo_uvm = write32 (write32 (write32 (write32 (write32 demo_freelist 0x300 1) 0x400 0x500)
     0x504 (v2p 0x80004000)) 0x508 0x2000) 0x50C 0"

lemma demo_uvm_reads:
  "read32 demo_uvm 0x300 = 1" "slist demo_uvm 12 0x400 [0x500]" "region_block demo_uvm 0x500 = (0x80004000, 0x2000)"
  by (simp_all add: demo_uvm_def slist_def region_block_def v2p_def p2v_def KERNEL_OFFSET_def mem_simps apart_def)

lemma demo_uvm_outside: "same_outside (span 0x300 0x300) demo_freelist demo_uvm"
proof -
  have "span (0x300 + i) 4 \<subseteq> span (0x300 :: u32) 0x300" if "unat i + 4 \<le> 0x300" for i
    using that by (rule span_sub)
  from this [of 0] this [of "0x100"] this [of "0x204"] this [of "0x208"] this [of "0x20C"] show ?thesis
    unfolding demo_uvm_def by (intro same_outside_write32_in same_outside_refl) simp_all
qed

theorem free_uvm_frees_witness:
  "\<exists>m' bs'. free_uvm (demo_link\<lparr> l_freelist := 0x100 \<rparr>) 0x400 0x300 demo_uvm = Inr m' \<and>
     slist m' 12 0x400 [] \<and> freelist_inv 0x100 m' bs' \<and> free_bytes bs' = 0x7000"
proof -
  have d: "span 0x300 0x300 \<inter> owned 0x100 ((0x80004000, 0x2000) # demo_blocks) = {}"
    by (simp add: owned_def demo_blocks_def block_span_def Int_Un_distrib apart_iff_span [symmetric] apart_def)
  have inv: "freelist_inv 0x100 demo_uvm demo_blocks"
    using freelist_inv_frame [OF demo_freelist_inv demo_uvm_outside] d by (auto simp: owned_def)
  have g: "GETMEMMAP 0x400 demo_uvm 0x300 = 0x400" by (simp add: GETMEMMAP_def demo_uvm_reads)
  have "span 0x400 4 \<subseteq> span (0x300 :: u32) 0x300" "span 0x300 4 \<subseteq> span (0x300 :: u32) 0x300"
      "span 0x500 16 \<subseteq> span (0x300 :: u32) 0x300"
    using span_sub [of "0x100" 4 "0x300" "0x300"] span_sub [of "0x200" 16 "0x300" "0x300"] span_mono [of 4 "0x300"] by simp_all
  then have "(span 0x400 4 \<union> span 0x300 4 \<union> regions_span [0x500]) \<inter> owned 0x100 ((0x80004000, 0x2000) # demo_blocks) = {}"
    using d by (auto simp: regions_span_def)
  moreover have "blocks_ok 0x100 ((0x80004000, 0x2000) # demo_blocks)"
    by (simp add: demo_blocks_def block_ok_def block_apart_def aligned_def apart_def)
  ultimately have "regions_ok 0x100 0x400 0x300 demo_uvm [0x500] demo_blocks"
    using demo_uvm_reads by (simp add: regions_ok_def apart_def)
  moreover have "demo_blocks \<noteq> []" "free_bytes demo_blocks = 0x5000" by (simp_all add: demo_blocks_def)
  ultimately show ?thesis
    using free_uvm_frees [of "demo_link\<lparr> l_freelist := 0x100 \<rparr>" demo_uvm demo_blocks "0x400" "0x300" "[0x500]"] inv g demo_uvm_reads
    by fastforce
qed

end
