(* ===== verification/Syscall.thy ===== *)
theory Syscall
  imports Teardown
begin

text \<open>
  System calls as a process sees them: the stubs of the C library put the arguments into registers and
  execute \<^verbatim>\<open>int $0x80\<close>; the processor changes to the kernel stack of the task state segment, and
  \<^verbatim>\<open>INT_0x80\<close> of \<^verbatim>\<open>kernel/interrupt.S\<close> saves the registers, jumps through \<^verbatim>\<open>tbl_syscall\<close> and returns
  through \<^verbatim>\<open>end_syscall\<close>. The stack frames of the C functions are not part of memory here, as in
  the other theories; the arguments the assembly code pushes for them are.
\<close>

section \<open>Entry and return\<close>

definition pushal :: "machine \<Rightarrow> machine" where
  "pushal s =
     (let old = fst s; s = push (eax old) s; s = push (ecx old) s; s = push (edx old) s; s = push (ebx old) s;
          s = push (esp old) s; s = push (ebp old) s; s = push (esi old) s in
      push (edi old) s)"

text \<open>An interrupt in user mode, through a gate to the kernel's code segment.\<close>

definition interrupt :: "kernel \<Rightarrow> regs \<Rightarrow> machine" where
  "interrupt k r =
     (let s = (r\<lparr> esp := tss_esp0 k, ss := tss_ss0 k \<rparr>, km k);
          s = push (ss r) s; s = push (esp r) s; s = push (eflags r) s; s = push (cs r) s in
      push (eip r) s)"

definition INT_0x80_save :: "machine \<Rightarrow> machine" where
  "INT_0x80_save s =
     (let r = fst s; s = push (ds r) s; s = push (es r) s; s = push (fs r) s; s = push (gs r) s in
      pushal s)"

definition end_syscall :: "machine \<Rightarrow> machine" where
  "end_syscall s =
     (let s = popal s; s = pop gs_update s; s = pop fs_update s; s = pop es_update s; s = pop ds_update s in
      iret s)"

section \<open>The handlers\<close>

text \<open>The state a handler works on: the system with its memory, and the cursor of the console. A handler
  ends with a value for \<^verbatim>\<open>eax\<close> (\<^verbatim>\<open>Value\<close>), without one (\<^verbatim>\<open>Nothing\<close>), or with the processor given to the
  scheduler (\<^verbatim>\<open>Switched\<close>): the process has exited, or goes on from its new image.\<close>

datatype outcome = Value u32 | Nothing | Switched

type_synonym kstate = "system \<times> cursor"

definition smem :: "kstate \<Rightarrow> mem" where
  "smem s = km (sk (fst s))"

definition set_mem :: "mem \<Rightarrow> kstate \<Rightarrow> kstate" where
  "set_mem m s = ((fst s)\<lparr> sk := (sk (fst s))\<lparr> km := m \<rparr> \<rparr>, snd s)"

text \<open>The arguments of a C function, from the top of the stack.\<close>

definition arg :: "nat \<Rightarrow> machine \<Rightarrow> u32" where
  "arg i s = read32 (snd s) (esp (fst s) + 4 * of_nat i)"

definition with_mem :: "(mem \<Rightarrow> (int \<times> mem) res) \<Rightarrow> kstate \<Rightarrow> (outcome \<times> kstate) res" where
  "with_mem f s = bindE (f (smem s)) (\<lambda>(v, m). Inr (Value (word_of_int v), set_mem m s))"

text \<open>Behind the call of a C function the assembly code takes its arguments off the stack again.\<close>

definition addl_esp :: "u32 \<Rightarrow> machine \<Rightarrow> (outcome \<times> kstate) res \<Rightarrow> (outcome \<times> regs \<times> kstate) res" where
  "addl_esp n rm res = bindE res (\<lambda>(out, s). Inr (out, (fst rm)\<lparr> esp := esp (fst rm) + n \<rparr>, s))"

text \<open>\<^verbatim>\<open>tbl_syscall\<close> and the labels it refers to, up to the jump to \<^verbatim>\<open>end_syscall\<close>: what the handler leaves in \<^verbatim>\<open>eax\<close>, the registers (of which
  only the stack pointer matters, the others are restored from the stack) and the state. \<open>n\<close> bounds the nesting of \<^verbatim>\<open>file_open\<close> and \<open>loc\<close> is the address
  of the local variable of \<^verbatim>\<open>sys_execve\<close>. The jump goes through the word at \<^verbatim>\<open>tbl_syscall\<close> plus four times \<^verbatim>\<open>eax\<close>, a 32-bit
  address, so that the upper two bits of \<^verbatim>\<open>eax\<close> are lost. The table has ten entries; the number is not tested.\<close>

definition syscall_handler :: "nat \<Rightarrow> link \<Rightarrow> u32 \<Rightarrow> machine \<Rightarrow> kstate \<Rightarrow> (outcome \<times> regs \<times> kstate) res" where
  "syscall_handler n L loc rm s =
     (let r = fst rm; p = curthread (sk (fst s)); i = drop_bit 2 (4 * eax r) in
      if i = 0 then Inr (Nothing, r, set_mem (snd rm) s)
      else if i = 1 then
        let rm = push (ecx r) rm; s = set_mem (snd rm) s in
        addl_esp 4 rm (bindE (sys_exit (arg 0 rm) (sk (fst s))) (\<lambda>k. Inr (Switched, (fst s)\<lparr> sk := k \<rparr>, snd s)))
      else if i = 2 then
        let s = set_mem (snd rm) s in
        bindE (sys_fork L (fst s)) (\<lambda>(v, sy). Inr (Value (word_of_int v), r, sy, snd s))
      else if i = 3 then
        let rm = push (edx r) rm; rm = push (ecx r) rm; rm = push (ebx r) rm; s = set_mem (snd rm) s in
        addl_esp (3 * 4) rm (with_mem (sys_read p (arg 0 rm) (arg 1 rm) (arg 2 rm)) s)
      else if i = 4 then
        let rm = push (edx r) rm; rm = push (ecx r) rm; rm = push (ebx r) rm; s = set_mem (snd rm) s in
        addl_esp (3 * 4) rm (bindE (sys_write p (arg 0 rm) (arg 1 rm) (arg 2 rm) (snd s) (smem s)) (\<lambda>(v, c, m).
          Inr (Value (word_of_int v), fst (set_mem m s), c)))
      else if i = 5 then
        let rm = push (edx r) rm; rm = push (ecx r) rm; rm = push (ebx r) rm; s = set_mem (snd rm) s in
        addl_esp (3 * 4) rm (with_mem (sys_open n L (sinfo (fst s)) p (arg 0 rm)) s)
      else if i = 6 then Inr (Nothing, r, set_mem (snd rm) s)
      else if i = 7 then Inr (Nothing, r, set_mem (snd rm) s)
      else if i = 8 then
        let rm = push (edx r) rm; rm = push (ecx r) rm; rm = push (ebx r) rm; s = set_mem (snd rm) s in
        addl_esp (3 * 4) rm (bindE (sys_execve L loc (arg 0 rm) (fst s)) (\<lambda>(v, sy).
          Inr (case v of None \<Rightarrow> Switched | Some v \<Rightarrow> Value (word_of_int v), sy, snd s)))
      else if i = 9 then
        let rm = push (ecx r) rm; rm = push (edx r) rm; rm = push (ebx r) rm;
            rm = push (ebp r) rm; rm = push (esi r) rm; rm = push (edi r) rm; s = set_mem (snd rm) s in
        addl_esp (6 * 4) rm (bindE (sys_mmap L (smemtab (fst s)) p (arg 1 rm) (arg 3 rm) (arg 4 rm) (smem s)) (\<lambda>(v, m).
          Inr (Value v, set_mem m s)))
      else Inl OutOfRange)"

text \<open>The whole interrupt: the registers the process goes on with, or none when it was switched away.\<close>

definition INT_0x80 :: "nat \<Rightarrow> link \<Rightarrow> u32 \<Rightarrow> regs \<Rightarrow> kstate \<Rightarrow> (regs option \<times> kstate) res" where
  "INT_0x80 n L loc r s =
     (let rm = INT_0x80_save (interrupt (sk (fst s)) r) in
      bindE (syscall_handler n L loc rm (fst s\<lparr> sk := (sk (fst s))\<lparr> kif := False \<rparr> \<rparr>, snd s)) (\<lambda>(out, x, s).
        case out of
          Switched \<Rightarrow> Inr (None, s)
        | Nothing \<Rightarrow> Inr (Some (fst (end_syscall (x, smem s))), s)
        | Value v \<Rightarrow>
            let s = set_mem (write32 (smem s) (esp x + 7 * 4) v) s in
            Inr (Some (fst (end_syscall (x, smem s))), s)))"

section \<open>The stubs of the C library\<close>

text \<open>What a stub puts into the registers before \<^verbatim>\<open>int $0x80\<close>; the arguments are on the user stack, above
  the return address. \<open>m\<close> is the memory of the process.\<close>

definition stub_write :: "mem \<Rightarrow> regs \<Rightarrow> regs" where
  "stub_write m r = r\<lparr> eax := 4, edx := read32 m (esp r + 12), ecx := read32 m (esp r + 8), ebx := read32 m (esp r + 4) \<rparr>"

definition stub_open :: "mem \<Rightarrow> regs \<Rightarrow> regs" where
  "stub_open m r = r\<lparr> eax := 5, edx := read32 m (esp r + 12), ecx := read32 m (esp r + 8), ebx := read32 m (esp r + 4) \<rparr>"

definition stub_execve :: "mem \<Rightarrow> regs \<Rightarrow> regs" where
  "stub_execve m r = r\<lparr> eax := 8, edx := read32 m (esp r + 12), ecx := read32 m (esp r + 8), ebx := read32 m (esp r + 4) \<rparr>"

definition stub_fork :: "regs \<Rightarrow> regs" where
  "stub_fork r = r\<lparr> eax := 2 \<rparr>"

definition stub_exit :: "mem \<Rightarrow> regs \<Rightarrow> regs" where
  "stub_exit m r = r\<lparr> eax := 1, ecx := read32 m (esp r + 4) \<rparr>"

definition stub_mmap :: "machine \<Rightarrow> machine" where
  "stub_mmap s =
     (let old = fst s; s = push (ebp old) s; s = push (ebx old) s; s = push (esi old) s; s = push (edi old) s;
          r = fst s; m = snd s in
      (r\<lparr> eax := 9, ecx := read32 m (esp r + 40), edx := read32 m (esp r + 36), ebx := read32 m (esp r + 32),
         ebp := read32 m (esp r + 28), esi := read32 m (esp r + 24), edi := read32 m (esp r + 20) \<rparr>, m))"

section \<open>The trap frame\<close>

text \<open>The registers of the process are on the kernel stack as a \<^verbatim>\<open>struct trapframe\<close>; for a process the
  scheduler dispatched, whose structure is where the stack begins, that is the frame \<^verbatim>\<open>tf\<close> points to.\<close>

definition trap_frame :: "regs \<Rightarrow> u32 \<Rightarrow> mem \<Rightarrow> mem" where
  "trap_frame r t m =
     write32 (write32 (write32 (write32 (write32 (write32 (write32 (write32 (write32 (write32 (write32 (write32 (write32
       (write32 (write32 (write32 (write32 m (t + 64) (ss r)) (t + 60) (esp r)) (t + 56) (eflags r)) (t + 52) (cs r))
       (t + 48) (eip r)) (t + 44) (ds r)) (t + 40) (es r)) (t + 36) (fs r)) (t + 32) (gs r)) (t + 28) (eax r)) (t + 24) (ecx r))
       (t + 20) (edx r)) (t + 16) (ebx r)) (t + 12) (t + 32)) (t + 8) (ebp r)) (t + 4) (esi r)) t (edi r)"

lemma trap_frame_regs: "trap_regs (trap_frame r t m) t = r"
  by (simp add: trap_regs_def trap_frame_def mem_simps apart_def)

lemma trap_frame_outside: "same_outside (span t 68) m (trap_frame r t m)"
proof -
  have s: "span (t + i) 4 \<subseteq> span t 68" if "unat i + 4 \<le> 68" for i by (rule span_sub [OF that])
  then show ?thesis
    unfolding trap_frame_def using s [of 0] by (intro same_outside_write32_in same_outside_refl s) simp_all
qed

lemma entry_eq:
  assumes "t = tss_esp0 k - 68"
  shows "INT_0x80_save (interrupt k r) = (r\<lparr> esp := t, ss := tss_ss0 k \<rparr>, trap_frame r t (km k))"
proof -
  have e: "tss_esp0 k = t + 68" using assms by simp
  have s: "t + 68 - 4 = t + 64" "t + 64 - 4 = t + 60" "t + 60 - 4 = t + 56" "t + 56 - 4 = t + 52" "t + 52 - 4 = t + 48"
    "t + 48 - 4 = t + 44" "t + 44 - 4 = t + 40" "t + 40 - 4 = t + 36" "t + 36 - 4 = t + 32" "t + 32 - 4 = t + 28"
    "t + 28 - 4 = t + 24" "t + 24 - 4 = t + 20" "t + 20 - 4 = t + 16" "t + 16 - 4 = t + 12" "t + 12 - 4 = t + 8"
    "t + 8 - 4 = t + 4" "t + 4 - 4 = t" by simp_all
  show ?thesis
    by (simp add: interrupt_def INT_0x80_save_def pushal_def push_def Let_def e s trap_frame_def)
qed

lemma end_syscall_user:
  assumes "read32 m (esp r + 52) AND 3 \<noteq> 0"
  shows "end_syscall (r, m) = (trap_regs m (esp r), m)"
  using trapret_user [OF assms] by (simp add: end_syscall_def trapret_def)

lemma trap_regs_frame:
  assumes "same_outside T m m'" and "T \<inter> span t 68 = {}"
  shows "trap_regs m' t = trap_regs m t"
proof -
  have "read32 m' (t + i) = read32 m (t + i)" if "unat i + 4 \<le> 68" for i
    using same_outside_read32 [OF assms(1)] span_sub [OF that, of t] assms(2) by blast
  from this [of 0] this [of 4] this [of 8] this [of 16] this [of 20] this [of 24] this [of 28] this [of 32]
    this [of 36] this [of 40] this [of 44] this [of 48] this [of 52] this [of 56] this [of 60] this [of 64]
  show ?thesis by (simp add: trap_regs_def)
qed

lemma trap_regs_eax: "trap_regs (write32 m (t + 28) v) t = (trap_regs m t)\<lparr> eax := v \<rparr>"
  by (simp add: trap_regs_def mem_simps apart_def)

lemma table_index: "drop_bit 2 (4 * x) = take_bit 30 x"
  for x :: u32
proof -
  have e: "4 * x = push_bit 2 x" by (simp add: push_bit_eq_mult)
  show ?thesis unfolding e by (auto simp: bit_eq_iff bit_simps)
qed

lemma smem_set_mem [simp]: "smem (set_mem m s) = m"
  by (simp add: smem_def set_mem_def)

text \<open>Every handler takes off the stack what it pushed.\<close>

lemma handler_esp:
  assumes "syscall_handler n L loc rm s = Inr (out, x, s')"
  shows "esp x = esp (fst rm)"
  using assms
  by (cases rm) (auto simp: syscall_handler_def Let_def push_def addl_esp_def bindE_eq_Inr split: if_splits)

section \<open>Properties\<close>

text \<open>C27: a system call is a round trip: whatever a handler does outside the trap frame, the process goes on
  behind its \<^verbatim>\<open>int $0x80\<close> with all registers as they were, its stack and segments included, except for
  \<^verbatim>\<open>eax\<close>, which holds the value of the handler; a call without a handler changes no register. The entry of the table is chosen by the lower thirty bits
  of \<^verbatim>\<open>eax\<close> and the number is not tested: from 10 on the jump goes through memory behind the table.\<close>

theorem INT_0x80_roundtrip:
  assumes "t = tss_esp0 (sk (fst s)) - 68" and "cs r AND 3 \<noteq> 0"
    and "s0 = (fst s\<lparr> sk := (sk (fst s))\<lparr> kif := False \<rparr> \<rparr>, snd s)"
    and "rm = (r\<lparr> esp := t, ss := tss_ss0 (sk (fst s)) \<rparr>, trap_frame r t (smem s))"
  shows "(\<forall>v x s' T. syscall_handler n L loc rm s0 = Inr (Value v, x, s') \<longrightarrow> same_outside T (snd rm) (smem s') \<longrightarrow>
        T \<inter> span t 68 = {} \<longrightarrow> (\<exists>s''. INT_0x80 n L loc r s = Inr (Some (r\<lparr> eax := v \<rparr>), s'') \<and>
          same_outside (span (t + 28) 4) (smem s') (smem s''))) \<and>
    (take_bit 30 (eax r) \<in> {0, 6, 7} \<longrightarrow> (\<exists>s''. INT_0x80 n L loc r s = Inr (Some r, s'') \<and> same_outside (span t 68) (smem s) (smem s''))) \<and>
    (10 \<le> take_bit 30 (eax r) \<longrightarrow> INT_0x80 n L loc r s = Inl OutOfRange)"
proof (intro conjI allI impI)
  have rm: "INT_0x80_save (interrupt (sk (fst s)) r) = rm"
    using entry_eq [OF assms(1)] by (simp add: assms(4) smem_def)
  have f: "trap_regs (snd rm) t = r" by (simp add: assms(4) trap_frame_regs)
  have e: "esp (fst rm) = t" by (simp add: assms(4))
  have i: "drop_bit 2 (4 * eax (fst rm)) = take_bit 30 (eax r)" by (simp add: assms(4) table_index)
  note def = INT_0x80_def [of n L loc r s, folded assms(3), unfolded rm Let_def]
  have leave: "fst (end_syscall (x, m)) = trap_regs m t" if "cs (trap_regs m t) = cs r" "esp x = t" for m x
    using that assms(2) end_syscall_user [of m x] by (simp add: trap_regs_def)
  {
    fix v x s' T
    assume h: "syscall_handler n L loc rm s0 = Inr (Value v, x, s')" and out: "same_outside T (snd rm) (smem s')"
      and T: "T \<inter> span t 68 = {}"
    have x: "esp x = t" using handler_esp [OF h] e by simp
    have "trap_regs (write32 (smem s') (t + 28) v) t = r\<lparr> eax := v \<rparr>"
      using trap_regs_frame [OF out T] f by (simp add: trap_regs_eax)
    then have "INT_0x80 n L loc r s = Inr (Some (r\<lparr> eax := v \<rparr>), set_mem (write32 (smem s') (t + 28) v) s')"
      using leave [of "write32 (smem s') (t + 28) v" x] x by (simp add: def h)
    then show "\<exists>s''. INT_0x80 n L loc r s = Inr (Some (r\<lparr> eax := v \<rparr>), s'') \<and>
        same_outside (span (t + 28) 4) (smem s') (smem s'')"
      by (simp add: same_outside_write32)
  }
  show "\<exists>s''. INT_0x80 n L loc r s = Inr (Some r, s'') \<and> same_outside (span t 68) (smem s) (smem s'')"
    if "take_bit 30 (eax r) \<in> {0, 6, 7}"
  proof -
    have "syscall_handler n L loc rm s0 = Inr (Nothing, fst rm, set_mem (snd rm) s0)"
      using that i by (auto simp: syscall_handler_def Let_def)
    then have "INT_0x80 n L loc r s = Inr (Some r, set_mem (snd rm) s0)"
      using leave [of "snd rm" "fst rm"] f e by (simp add: def)
    moreover have "same_outside (span t 68) (smem s) (snd rm)" by (simp add: assms(4) trap_frame_outside)
    ultimately show ?thesis by simp
  qed
  show "INT_0x80 n L loc r s = Inl OutOfRange" if "10 \<le> take_bit 30 (eax r)"
  proof -
    have "take_bit 30 (eax r) \<notin> {0, 1, 2, 3, 4, 5, 6, 7, 8, 9}" using that by (auto simp: word_le_nat_alt)
    then have "syscall_handler n L loc rm s0 = Inl OutOfRange" using i by (simp add: syscall_handler_def)
    then show ?thesis by (simp add: def)
  qed
qed

text \<open>A process with no open files calls \<^verbatim>\<open>write\<close>.\<close>

definition demo_user :: regs where
  "demo_user = \<lparr> edi = 1, esi = 2, ebp = 3, esp = 0x7FFFFF00, ebx = 1, edx = 5, ecx = 0x400000, eax = 4, gs = 0x23, fs = 0x23,
     es = 0x23, ds = 0x23, eip = 0x400100, cs = 0x1B, eflags = 0x202, ss = 0x23 \<rparr>"

definition demo_kstate :: kstate where
  "demo_kstate = (\<lparr> sk = \<lparr> km = \<lambda>_. 0, curthread = 0x80005F98, idle = 0, kcpu = \<lparr> cr0 = 0, cr3 = 0, cr4 = 0 \<rparr>,
     tss_esp0 = 0x80005F98, tss_ss0 = 16, kif = True \<rparr>, spid = 2, smemtab = 0x80009000, skpagedir = 0, sinfo = demo_kinfo \<rparr>,
     \<lparr> cur_x = 0, cur_y = 0 \<rparr>)"

theorem INT_0x80_roundtrip_witness:
  "\<exists>s''. INT_0x80 2 demo_link 0x80005E00 demo_user demo_kstate = Inr (Some (demo_user\<lparr> eax := 0xFFFFFFFF \<rparr>), s'')"
proof -
  let ?s = demo_kstate and ?t = "0x80005F54 :: u32"
  define s0 where "s0 = (fst ?s\<lparr> sk := (sk (fst ?s))\<lparr> kif := False \<rparr> \<rparr>, snd ?s)"
  define tm where "tm = trap_frame demo_user ?t (smem ?s)"
  define rm where "rm = (demo_user\<lparr> esp := ?t, ss := tss_ss0 (sk (fst ?s)) \<rparr>, tm)"
  define m where "m = write32 (write32 (write32 tm 0x80005F50 5) 0x80005F4C 0x400000) 0x80005F48 1"
  have out: "same_outside (span 0x80005F48 12) (snd rm) m"
    using span_sub [of 8 4 12 "0x80005F48"] span_sub [of 4 4 12 "0x80005F48"] span_mono [of 4 12 "0x80005F48"]
    unfolding m_def rm_def snd_conv by (intro same_outside_write32_in same_outside_refl) simp_all
  have "read32 tm 0x80005FB4 = read32 (smem ?s) 0x80005FB4"
    unfolding tm_def
    by (rule same_outside_read32 [OF trap_frame_outside]) (simp add: apart_iff_span [symmetric] apart_def)
  also have "\<dots> = 0" by (simp add: demo_kstate_def smem_def read32_def)
  finally have f: "read32 m 0x80005FB4 = 0"
    by (simp add: m_def read32_write32_apart apart_def)
  have a: "read32 m 0x80005F48 = 1" "read32 m 0x80005F4C = 0x400000" "read32 m 0x80005F50 = 5"
    by (simp_all add: m_def read32_write32_apart apart_def)
  define x where "x = demo_user\<lparr> esp := ?t, ss := 16 \<rparr>"
  have r: "rm = (x, tm)" by (simp add: rm_def x_def demo_kstate_def)
  have p: "curthread (sk (fst s0)) = 0x80005F98" by (simp add: s0_def demo_kstate_def)
  have "sys_write 0x80005F98 1 0x400000 5 (snd s0) m = Inr (-1, snd s0, m)" using f by (simp add: sys_write_def)
  then have "syscall_handler 2 demo_link 0x80005E00 rm s0 = Inr (Value 0xFFFFFFFF, x, set_mem m s0)"
    using a by (simp add: syscall_handler_def r p demo_user_def x_def push_def arg_def addl_esp_def Let_def m_def [symmetric])
      (simp add: set_mem_def)
  moreover have "same_outside (span 0x80005F48 12) (snd rm) (smem (set_mem m s0))" using out by simp
  moreover have "span 0x80005F48 12 \<inter> span ?t 68 = {}" by (simp add: apart_iff_span [symmetric] apart_def)
  moreover have "?t = tss_esp0 (sk (fst ?s)) - 68" "cs demo_user AND 3 \<noteq> 0"
    by (simp_all add: demo_kstate_def demo_user_def)
  ultimately show ?thesis
    using INT_0x80_roundtrip [OF _ _ s0_def rm_def [unfolded tm_def], THEN conjunct1] by blast
qed

end
