(* ===== verification/Fork.thy ===== *)
theory Fork
  imports Syscall
begin

text \<open>
  \<^verbatim>\<open>fork\<close>: the child gets copies of the memory regions, the trap frame and the open files of its parent.
  \<open>clones\<close>, \<open>copies\<close> and \<open>forked_pages\<close> say what the loop over the regions is to leave behind: the list of
  the child's regions, the bytes of its memory and its translation of user pages. The invariant of the
  loop keeps the memory of the allocators, the child's page tables, the new block and everything that is
  only read apart from each other.
\<close>

section \<open>The reference\<close>

type_synonym vmr = "u32 \<times> u32 \<times> u32"

definition region_of :: "mem \<Rightarrow> u32 \<Rightarrow> vmr" where
  "region_of m r = (read32 m r, read32 m (r + 4), read32 m (r + 8))"

fun clones :: "vmr list \<Rightarrow> u32 \<Rightarrow> vmr list" where
  "clones [] a = []"
| "clones ((va, pa, len) # rs) a = (va, v2p a, len) # clones rs (a + pg_roundup len)"

fun copies :: "mem \<Rightarrow> mem \<Rightarrow> vmr list \<Rightarrow> u32 \<Rightarrow> bool" where
  "copies m m' [] a \<longleftrightarrow> True"
| "copies m m' ((va, pa, len) # rs) a \<longleftrightarrow>
     (\<forall>k. k < len \<longrightarrow> m' (a + k) = m (p2v pa + k)) \<and> copies m m' rs (a + pg_roundup len)"

definition first_page :: "u32 \<Rightarrow> nat" where
  "first_page va = unat (pg_rounddown va) div 4096"

definition page_count :: "u32 \<Rightarrow> nat" where
  "page_count len = unat (pg_roundup len) div 4096"

fun forked_pages :: "vmr list \<Rightarrow> u32 \<Rightarrow> (nat \<Rightarrow> u32 option) \<Rightarrow> nat \<Rightarrow> u32 option" where
  "forked_pages [] a f = f"
| "forked_pages ((va, pa, len) # rs) a f = forked_pages rs (a + pg_roundup len)
     (\<lambda>q. if first_page va \<le> q \<and> q < first_page va + page_count len
          then Some ((pg_rounddown (v2p a) + 4096 * of_nat (q - first_page va)) OR USER_PAGE) else f q)"

text \<open>At most so many page tables are needed.\<close>

fun table_need :: "vmr list \<Rightarrow> nat" where
  "table_need [] = 0"
| "table_need ((va, pa, len) # rs) =
     card ((\<lambda>q. q div 1024) ` {first_page va ..< first_page va + page_count len}) + table_need rs"

fun fits_in :: "vmr list \<Rightarrow> nat \<Rightarrow> bool" where
  "fits_in [] n \<longleftrightarrow> True"
| "fits_in ((va, pa, len) # rs) n \<longleftrightarrow>
     unat len \<le> 0xFFFFF000 \<and> unat (pg_rounddown va) + unat (pg_roundup len) \<le> 2 ^ 31 \<and>
     unat (pg_roundup len) \<le> n \<and> fits_in rs (n - unat (pg_roundup len))"

definition data_of :: "vmr \<Rightarrow> u32 set" where
  "data_of t = (case t of (va, pa, len) \<Rightarrow> span (p2v pa) (unat len))"

lemma region_of_frame:
  assumes "same_outside T m m'" and "T \<inter> span r 16 = {}"
  shows "region_of m' r = region_of m r" and "read32 m' (r + 12) = read32 m (r + 12)"
proof -
  have "read32 m' (r + i) = read32 m (r + i)" if "unat i + 4 \<le> 16" for i
    using same_outside_read32 [OF assms(1)] span_sub [OF that, of r] assms(2) by blast
  from this [of 0] this [of 4] this [of 8] this [of 12]
  show "region_of m' r = region_of m r" "read32 m' (r + 12) = read32 m (r + 12)" by (simp_all add: region_of_def)
qed

section \<open>One region\<close>

definition region_fill :: "u32 \<Rightarrow> u32 \<Rightarrow> u32 \<Rightarrow> u32 \<Rightarrow> mem \<Rightarrow> mem" where
  "region_fill c va pa len m = write32 (write32 (write32 m (c + 4) pa) c va) (c + 8) len"

lemma region_fill_facts:
  "read32 (region_fill c va pa len m) c = va" "read32 (region_fill c va pa len m) (c + 4) = pa"
  "read32 (region_fill c va pa len m) (c + 8) = len" "same_outside (span c 12) m (region_fill c va pa len m)"
proof -
  have "span (c + i) 4 \<subseteq> span c 12" if "unat i + 4 \<le> 12" for i by (rule span_sub [OF that])
  from this [of 0] this [of 4] this [of 8] show "same_outside (span c 12) m (region_fill c va pa len m)"
    unfolding region_fill_def by (intro same_outside_write32_in same_outside_refl) simp_all
qed (simp_all add: region_fill_def mem_simps apart_def)

lemma missing_bound: "card (missing m pd q n) \<le> card ((\<lambda>q. q div 1024) ` {q ..< q + n})"
  by (rule card_mono) (auto simp: missing_def)

lemma user_flags: "USER_PAGE < 0x1000" "present USER_PAGE"
  by (simp_all add: user_page_flags present_def)

lemma fork_region_copies:
  fixes r n pd mem_at hn :: u32
  assumes fo: "freelist_owns (l_freelist L) m S" and hi: "S \<subseteq> high" and pdi: "pd_inv m pd S"
    and hv: "heap_inv (l_heap L) m ((a, s) # hs)" and big: "0x18 < s"
    and rg: "region_of m r = (va, pa, len)" and fit: "unat (pg_rounddown va) + unat (pg_roundup len) \<le> 2 ^ 31"
    and gm: "GETMEMMAP memtab m n = hn"
    and R: "span r 16 \<subseteq> R" "data_of (va, pa, len) \<subseteq> R" "span n 4 \<subseteq> R"
  defines "H \<equiv> owned (l_heap L) ((a, s) # hs)" and "H' \<equiv> owned (l_heap L) ((a + 0x18, s - 0x18) # hs)" and "c \<equiv> a + 2"
  assumes dis: "sorted_wrt (\<lambda>A B. A \<inter> B = {}) [S, H, vm_set m pd, span mem_at (unat len), span hn 4, R]"
  obtains (fail) "fork_region L memtab n pd r mem_at m = Inl NullDeref"
      and "freelist_stock (l_freelist L) m < table_need [(va, pa, len)]"
  | (copy) m' S' where "fork_region L memtab n pd r mem_at m = Inr (pg_roundup len, m')"
      and "freelist_owns (l_freelist L) m' S'" and "S' \<subseteq> S" and "pd_inv m' pd S'" and "vm_set m' pd \<subseteq> S \<union> vm_set m pd"
      and "heap_inv (l_heap L) m' ((a + 0x18, s - 0x18) # hs)" and "H' \<subseteq> H" and "span c 16 \<subseteq> H" and "span c 16 \<inter> H' = {}"
      and "c \<noteq> 0" and "region_of m' c = (va, v2p mem_at, len)" and "read32 m' (c + 12) = read32 m hn" and "read32 m' hn = c"
      and "\<forall>k. k < len \<longrightarrow> m' (mem_at + k) = m (p2v pa + k)"
      and "\<forall>q < 2 ^ 19. user_page m' pd q = forked_pages [(va, pa, len)] mem_at (user_page m pd) q"
      and "same_outside (S \<union> H \<union> vm_set m pd \<union> span mem_at (unat len) \<union> span hn 4) m m'"
      and "freelist_stock (l_freelist L) m \<le> freelist_stock (l_freelist L) m' + table_need [(va, pa, len)]"
proof -
  let ?fl = "l_freelist L" and ?hp = "l_heap L" and ?V = "vm_set m pd" and ?M = "span mem_at (unat len)"
  let ?q = "first_page va" and ?n = "page_count len"
  have d: "S \<inter> H = {}" "S \<inter> ?V = {}" "S \<inter> ?M = {}" "S \<inter> span hn 4 = {}" "S \<inter> R = {}" "H \<inter> ?V = {}" "H \<inter> ?M = {}"
    "H \<inter> span hn 4 = {}" "H \<inter> R = {}" "?V \<inter> ?M = {}" "?V \<inter> span hn 4 = {}" "?V \<inter> R = {}" "?M \<inter> span hn 4 = {}"
    "?M \<inter> R = {}" "span hn 4 \<inter> R = {}" using dis by simp_all
  have cs: "chunk_size 16 = 0x18" by (simp add: chunk_size_def roundup_def)
  obtain m1 where k: "kmalloc ?hp 16 m = Inr (c, m1)" "heap_inv ?hp m1 ((a + 0x18, s - 0x18) # hs)" "same_outside H m m1"
      "span c 16 \<subseteq> H" "span c 16 \<inter> H' = {}" "H' \<subseteq> H" "c \<noteq> 0"
    by (rule kmalloc_first [OF hv, of 16]) (use big in \<open>auto simp: cs H_def H'_def c_def\<close>)
  have rd: "read32 m r = va" "read32 m (r + 4) = pa" "read32 m (r + 8) = len" using rg by (simp_all add: region_of_def)
  have c12: "span c 12 \<subseteq> span c 16" "span (c + 12) 4 \<subseteq> span c 16" using span_mono [of 12 16 c] span_sub [of 12 4 16 c] by simp_all
  define m2 where "m2 = region_fill c va (v2p mem_at) len m1"
  note f2 = region_fill_facts [where c = c and va = va and pa = "v2p mem_at" and len = len and m = m1, folded m2_def]
  have o2: "same_outside H m m2" by (rule same_outside_mono [OF same_outside_trans [OF k(3) f2(4)]]) (use k(4) c12 in blast)
  have fo2: "freelist_owns ?fl m2 S" by (rule pages.owns_frame [OF fo o2]) (use d in blast)
  have st2: "freelist_stock ?fl m2 = freelist_stock ?fl m" by (rule pages.stock_frame [OF fo o2]) (use d in blast)
  note vm2 = vm_frame [OF pdi o2 d(6) order_refl]
  have mis2: "missing m2 pd ?q ?n = missing m pd ?q ?n"
  proof (rule vm2(5))
    have "4096 * ?q + 4096 * ?n \<le> 2 ^ 31" using fit by (simp add: first_page_def page_count_def)
    then show "?q + ?n \<le> 2 ^ 19" by simp
  qed
  have ro: "read32 m' (r + i) = read32 m (r + i)"
    if "same_outside T m m'" "T \<inter> R = {}" "unat i + 4 \<le> 16" for T m' i
    using same_outside_read32 [OF that(1)] span_sub [OF that(3), of r] R(1) that(2) by blast
  have HW: "same_outside H m m'' \<Longrightarrow> span x 4 \<subseteq> span c 16 \<Longrightarrow> same_outside H m (write32 m'' x v)" for m'' x v
    using k(4) by (intro same_outside_write32_in) auto
  have step: "fork_region L memtab n pd r mem_at m =
      bindE (alloc_pt (alloc_pages ?fl) pd va (v2p mem_at) len USER_PAGE m2) (\<lambda>m.
        let m = memmove m mem_at (p2v (read32 m (r + 4))) (read32 m (r + 8)) in
        Inr (pg_roundup (read32 m (c + 8)), SLIST_INSERT_HEAD m 12 (GETMEMMAP memtab m n) c))"
  proof -
    let ?x = "write32 m1 (c + 4) (v2p mem_at)"
    have x: "same_outside H m ?x" by (rule HW [OF k(3)]) (use span_sub [of 4 4 16 c] in simp)
    have y: "same_outside H m (write32 ?x c va)" by (rule HW [OF x]) (use span_sub [of 0 4 16 c] in simp)
    have "read32 ?x r = va" "read32 (write32 ?x c va) (r + 8) = len"
      using ro [OF x d(9), of 0] ro [OF y d(9), of 8] rd by simp_all
    then show ?thesis
      using k(1,7) f2(1-3) by (simp add: fork_region_def Let_def m2_def region_fill_def)
  qed
  from alloc_pt_maps [OF fo2 hi vm2(1) user_flags fit, of "v2p mem_at", folded first_page_def page_count_def]
  show thesis
  proof (elim disjE exE conjE)
    assume "freelist_stock ?fl m2 < card (missing m2 pd ?q ?n)" "alloc_pt (alloc_pages ?fl) pd va (v2p mem_at) len USER_PAGE m2 = Inl NullDeref"
    then show thesis using fail step st2 mis2 missing_bound [of m pd ?q ?n] by simp
  next
    fix m3 S3
    assume p3: "alloc_pt (alloc_pages ?fl) pd va (v2p mem_at) len USER_PAGE m2 = Inr m3" "freelist_owns ?fl m3 S3" "S3 \<subseteq> S" "pd_inv m3 pd S3"
      "same_outside (S \<union> span pd 4096 \<union> tables m2 pd) m2 m3" "tables m3 pd \<subseteq> S \<union> span pd 4096 \<union> tables m2 pd"
      "\<forall>q < 2 ^ 19. user_page m3 pd q = (if ?q \<le> q \<and> q < ?q + ?n
         then Some ((pg_rounddown (v2p mem_at) + 4096 * of_nat (q - ?q)) OR USER_PAGE) else user_page m2 pd q)"
      "freelist_stock ?fl m2 \<le> freelist_stock ?fl m3 + card (missing m2 pd ?q ?n)"
    define m4 where "m4 = copied m3 mem_at (p2v pa) (unat len)"
    define m5 where "m5 = SLIST_INSERT_HEAD m4 12 hn c"
    have o3: "same_outside (S \<union> ?V) m2 m3" using p3(5) unfolding vm2(4) vm_set_def by (simp add: Un_assoc)
    have o4: "same_outside ?M m3 m4" unfolding m4_def by (rule same_outside_copied)
    have o5: "same_outside (span (c + 12) 4 \<union> span hn 4) m4 m5" unfolding m5_def by (rule SLIST_INSERT_HEAD_outside)
    have o03: "same_outside (H \<union> (S \<union> ?V)) m m3" by (rule same_outside_trans [OF o2 o3])
    have o04: "same_outside (H \<union> (S \<union> ?V) \<union> ?M) m m4" by (rule same_outside_trans [OF o03 o4])
    have o35: "same_outside (?M \<union> (span (c + 12) 4 \<union> span hn 4)) m3 m5" by (rule same_outside_trans [OF o4 o5])
    have o25: "same_outside (S \<union> ?V \<union> (?M \<union> (span (c + 12) 4 \<union> span hn 4))) m2 m5" by (rule same_outside_trans [OF o3 o35])
    have c12H: "span (c + 12) 4 \<subseteq> H" using c12 k(4) by blast
    let ?W = "?M \<union> (span (c + 12) 4 \<union> span hn 4)"
    have WS: "?W \<inter> S = {}" using d(1,3,4) c12H by blast
    have WV: "?W \<inter> ?V = {}" using d(6,10,11) c12H by blast
    have R3: "(H \<union> (S \<union> ?V)) \<inter> R = {}" using d(5,9,12) by blast
    have R4: "(H \<union> (S \<union> ?V) \<union> ?M) \<inter> R = {}" using R3 d(14) by blast
    have "memmove m3 mem_at (p2v pa) len = m4"
    proof -
      have "?M \<inter> span (p2v pa) (unat len) = {}" using d(14) R(2) by (auto simp: data_of_def)
      then have "apart mem_at (unat len) (p2v pa) (unat len)"
        by (cases "unat len = 0") (auto simp: apart_iff_span, simp add: apart_def)
      then show ?thesis by (simp add: memmove_copied m4_def)
    qed
    moreover have "GETMEMMAP memtab m4 n = hn"
    proof -
      have "read32 m4 n = read32 m n" using same_outside_read32 [OF o04, of n] R(3) R4 by blast
      then show ?thesis using gm by (simp add: GETMEMMAP_def)
    qed
    moreover have cr: "read32 m5 (c + i) = read32 m2 (c + i)" "read32 m4 (c + i) = read32 m2 (c + i)" if "unat i + 4 \<le> 12" for i
    proof -
      have i: "span (c + i) 4 \<subseteq> span c 12" by (rule span_sub [OF that])
      have "span c 12 \<inter> span (c + 12) 4 = {}" by (rule apart_span) (simp add: apart_def)
      then show "read32 m5 (c + i) = read32 m2 (c + i)"
        using i c12 k(4) d(1,6,7,8) by (intro same_outside_read32 [OF o25]) blast
      show "read32 m4 (c + i) = read32 m2 (c + i)"
        using i c12 k(4) d(1,6,7) by (intro same_outside_read32 [OF same_outside_trans [OF o3 o4]]) blast
    qed
    ultimately have eq: "fork_region L memtab n pd r mem_at m = Inr (pg_roundup len, m5)"
      using step p3(1) ro [OF o03 R3, of 4] ro [OF o03 R3, of 8] rd f2(3) cr(2) [of 8] by (simp add: Let_def m5_def)
    have "freelist_owns ?fl m5 S3" by (rule pages.owns_frame [OF p3(2) o35 disjoint_sub [OF WS order_refl p3(3)]])
    moreover have "freelist_stock ?fl m5 = freelist_stock ?fl m3"
      by (rule pages.stock_frame [OF p3(2) o35 disjoint_sub [OF WS order_refl p3(3)]])
    then have "freelist_stock ?fl m \<le> freelist_stock ?fl m5 + table_need [(va, pa, len)]"
      using p3(8) st2 mis2 missing_bound [of m pd ?q ?n] by simp
    moreover have V3: "vm_set m3 pd \<subseteq> S \<union> ?V" using p3(6) unfolding vm2(4) vm_set_def by blast
    have "?W \<inter> vm_set m3 pd = {}" by (rule disjoint_sub [OF _ order_refl V3]) (simp only: Int_Un_distrib [of ?W] WS WV Un_empty)
    note vm5 = vm_frame [OF p3(4) o35 this order_refl]
    moreover have "heap_inv ?hp m5 ((a + 0x18, s - 0x18) # hs)"
    proof (rule heap_inv_frame [OF k(2) same_outside_trans [OF f2(4) o25]])
      show "(span c 12 \<union> (S \<union> ?V \<union> (?M \<union> (span (c + 12) 4 \<union> span hn 4)))) \<inter> owned ?hp ((a + 0x18, s - 0x18) # hs) = {}"
        using k(5,6) c12 d(1,6,7,8) unfolding H'_def [symmetric] by blast
    qed
    moreover have "region_of m5 c = (va, v2p mem_at, len)"
      using cr(1) [of 0] cr(1) [of 4] cr(1) [of 8] f2(1-3) by (simp add: region_of_def)
    moreover have "read32 m5 hn = c" by (simp add: m5_def SLIST_INSERT_HEAD_def Let_def)
    moreover have "read32 m5 (c + 12) = read32 m hn"
    proof -
      have "read32 m4 hn = read32 m hn" using d(4,8,11,13) by (intro same_outside_read32 [OF o04]) blast
      moreover have "apart (c + 12) 4 hn 4" using c12H d(8) by (auto simp: apart_iff_span)
      ultimately show ?thesis by (simp add: m5_def SLIST_INSERT_HEAD_def Let_def read32_write32_apart' )
    qed
    moreover have "m5 (mem_at + k) = m (p2v pa + k)" if "k < len" for k
    proof -
      have kk: "unat k < unat len" using that by (simp add: word_less_nat_alt)
      then have in_M: "mem_at + k \<in> ?M" and in_D: "p2v pa + k \<in> R" using R(2) by (auto simp: span_def data_of_def)
      have "mem_at + k \<notin> span (c + 12) 4 \<union> span hn 4" using in_M d(7,13) c12H by blast
      then have "m5 (mem_at + k) = m4 (mem_at + k)" by (rule byte_frame [OF o5])
      also have "\<dots> = m3 (p2v pa + k)" using kk by (simp add: m4_def copied_def)
      also have "\<dots> = m (p2v pa + k)" by (rule byte_frame [OF o03]) (use in_D R3 in blast)
      finally show ?thesis .
    qed
    moreover have "\<forall>q < 2 ^ 19. user_page m5 pd q = forked_pages [(va, pa, len)] mem_at (user_page m pd) q"
      using vm5(3) p3(7) vm2(3) by simp
    moreover have "same_outside (S \<union> H \<union> ?V \<union> ?M \<union> span hn 4) m m5"
      by (rule same_outside_mono [OF same_outside_trans [OF o2 o25]]) (use c12H in blast)
    ultimately show thesis using copy [of m5 S3] eq p3(3) V3 k(4-7) by simp
  qed
qed

section \<open>All regions\<close>

text \<open>What holds at the head of the loop, with the regions \<open>rs\<close> still to copy to \<open>left\<close> bytes from \<open>mem_at\<close> and the
  regions \<open>ks\<close> already on the child's list. \<open>S0\<close>, \<open>H0\<close> and \<open>M0\<close> are the memory of the page allocator, the heap and
  the new block at the start of the loop, \<open>R\<close> is what the loop may only read.\<close>

definition fork_areas :: "u32 set \<Rightarrow> u32 set \<Rightarrow> u32 \<Rightarrow> u32 set \<Rightarrow> u32 \<Rightarrow> u32 set \<Rightarrow> bool" where
  "fork_areas S0 H0 pd M0 hn R \<longleftrightarrow> S0 \<subseteq> high \<and>
     sorted_wrt (\<lambda>A B. A \<inter> B = {}) [S0, H0, span pd 4096, M0, span hn 4, R]"

definition fork_inv :: "link \<Rightarrow> u32 \<Rightarrow> u32 \<Rightarrow> u32 \<Rightarrow> u32 \<Rightarrow> u32 set \<Rightarrow> u32 set \<Rightarrow> u32 set \<Rightarrow> u32 set \<Rightarrow> mem \<Rightarrow> u32 set \<Rightarrow> blocks \<Rightarrow>
    u32 \<Rightarrow> nat \<Rightarrow> u32 \<Rightarrow> u32 list \<Rightarrow> u32 list \<Rightarrow> bool" where
  "fork_inv L memtab n pd hn R S0 H0 M0 m S hs mem_at left lnk rs ks \<longleftrightarrow>
     freelist_owns (l_freelist L) m S \<and> S \<subseteq> S0 \<and> pd_inv m pd S \<and> tables m pd \<subseteq> S0 \<and>
     heap_inv (l_heap L) m hs \<and> owned (l_heap L) hs \<subseteq> H0 \<and> hs \<noteq> [] \<and> 0x18 * length rs < unat (snd (hd hs)) \<and>
     slist m 12 lnk rs \<and> span lnk 4 \<union> regions_span rs \<union> span n 4 \<union> (\<Union>r \<in> set rs. data_of (region_of m r)) \<subseteq> R \<and>
     fits_in (map (region_of m) rs) left \<and> left \<le> 2 ^ 32 \<and> span mem_at left \<subseteq> M0 \<and> GETMEMMAP memtab m n = hn \<and>
     slist m 12 hn ks \<and> sep_nodes 16 hn ks \<and> regions_span ks \<subseteq> H0 \<and> regions_span ks \<inter> owned (l_heap L) hs = {}"

lemma fork_inv_areas:
  assumes "fork_areas S0 H0 pd M0 hn R" and "fork_inv L memtab n pd hn R S0 H0 M0 m S hs mem_at left lnk (r # rs) ks"
    and "region_of m r = (va, pa, len)"
  shows "sorted_wrt (\<lambda>A B. A \<inter> B = {}) [S, owned (l_heap L) hs, vm_set m pd, span mem_at (unat len), span hn 4, R]"
    and "span mem_at (unat len) \<subseteq> M0" and "vm_set m pd \<subseteq> S0 \<union> span pd 4096"
    and "span (mem_at + pg_roundup len) (left - unat (pg_roundup len)) \<subseteq> span mem_at left"
    and "span mem_at (unat len) \<inter> span (mem_at + pg_roundup len) (left - unat (pg_roundup len)) = {}"
proof -
  have ar: "S0 \<inter> H0 = {}" "S0 \<inter> span pd 4096 = {}" "S0 \<inter> M0 = {}" "S0 \<inter> span hn 4 = {}" "S0 \<inter> R = {}"
    "H0 \<inter> span pd 4096 = {}" "H0 \<inter> M0 = {}" "H0 \<inter> span hn 4 = {}" "H0 \<inter> R = {}" "span pd 4096 \<inter> M0 = {}"
    "span pd 4096 \<inter> span hn 4 = {}" "span pd 4096 \<inter> R = {}" "M0 \<inter> span hn 4 = {}" "M0 \<inter> R = {}" "span hn 4 \<inter> R = {}"
    using assms(1) by (simp_all add: fork_areas_def)
  have i: "S \<subseteq> S0" "pd_inv m pd S" "tables m pd \<subseteq> S0" "owned (l_heap L) hs \<subseteq> H0" "span mem_at left \<subseteq> M0"
    "unat len \<le> 0xFFFFF000" "unat (pg_roundup len) \<le> left" "left \<le> 2 ^ 32"
    using assms(2,3) by (simp_all add: fork_inv_def)
  have le: "unat len \<le> unat (pg_roundup len)" using pg_roundup_bounds(1) [OF i(6)] .
  have sp: "span mem_at left = span mem_at (unat (pg_roundup len)) \<union> span (mem_at + pg_roundup len) (left - unat (pg_roundup len))"
    by (rule span_split [OF i(7)])
  then show "span (mem_at + pg_roundup len) (left - unat (pg_roundup len)) \<subseteq> span mem_at left" by blast
  have M: "span mem_at (unat len) \<subseteq> span mem_at (unat (pg_roundup len))" by (rule span_mono [OF le])
  then show M0: "span mem_at (unat len) \<subseteq> M0" using sp i(5) by blast
  show "span mem_at (unat len) \<inter> span (mem_at + pg_roundup len) (left - unat (pg_roundup len)) = {}"
    using span_split_disjoint [of "pg_roundup len" left mem_at] i(7,8) M by auto
  show V: "vm_set m pd \<subseteq> S0 \<union> span pd 4096" using i(3) by (auto simp: vm_set_def)
  have VS: "S \<inter> vm_set m pd = {}" using i(2) by (auto simp: pd_inv_def vm_set_def)
  have VX: "vm_set m pd \<inter> X = {}" if "S0 \<inter> X = {}" "span pd 4096 \<inter> X = {}" for X
    by (rule disjoint_sub [OF _ V order_refl]) (simp add: Int_Un_distrib2 that)
  have HV: "owned (l_heap L) hs \<inter> vm_set m pd = {}"
    by (rule disjoint_sub [OF _ i(4) V]) (use ar(1,6) in blast)
  have "span mem_at (unat len) \<inter> X = {}" if "M0 \<inter> X = {}" for X by (rule disjoint_sub [OF that M0 order_refl])
  moreover have "S \<inter> X = {}" if "S0 \<inter> X = {}" for X by (rule disjoint_sub [OF that i(1) order_refl])
  moreover have "owned (l_heap L) hs \<inter> X = {}" if "H0 \<inter> X = {}" for X by (rule disjoint_sub [OF that i(4) order_refl])
  moreover have "S \<inter> owned (l_heap L) hs = {}" by (rule disjoint_sub [OF ar(1) i(1,4)])
  moreover have "S \<inter> span mem_at (unat len) = {}" by (rule disjoint_sub [OF ar(3) i(1) M0])
  moreover have "owned (l_heap L) hs \<inter> span mem_at (unat len) = {}" by (rule disjoint_sub [OF ar(7) i(4) M0])
  moreover have "vm_set m pd \<inter> span mem_at (unat len) = {}"
    by (rule disjoint_sub [OF _ V M0]) (use ar(3,10) in blast)
  ultimately show "sorted_wrt (\<lambda>A B. A \<inter> B = {}) [S, owned (l_heap L) hs, vm_set m pd, span mem_at (unat len), span hn 4, R]"
    using VS HV VX ar by simp
qed

lemma slist_Cons: "slist m f l (x # xs) \<longleftrightarrow> read32 m l = x \<and> x \<noteq> 0 \<and> slist m f (x + f) xs"
  by (auto simp: slist_def)

text \<open>The cell that refers to a list may be another one, if the list stays as it is.\<close>

lemma slist_relink:
  assumes "slist m 12 l xs" and "read32 m' l' = read32 m l" and "same_outside T m m'" and "T \<inter> regions_span xs = {}"
  shows "slist m' 12 l' xs"
proof (cases xs)
  case Nil
  then show ?thesis using assms(1,2) by (simp add: slist_def)
next
  case (Cons x ys)
  have c: "span (y + 12) 4 \<subseteq> span y 16" for y using span_sub [of 12 4 16 y] by simp
  have "slist m 12 (x + 12) ys" using assms(1) Cons by (simp add: slist_Cons)
  then have "slist m' 12 (x + 12) ys"
    by (rule slist_frame [OF _ assms(3)]) (use assms(4) Cons c in \<open>fastforce simp: cellspan_def set_slcells regions_span_def\<close>)
  then show ?thesis using assms(1,2) Cons by (simp add: slist_Cons)
qed

lemma fork_inv_step:
  assumes ar: "fork_areas S0 H0 pd M0 hn R" and inv: "fork_inv L memtab n pd hn R S0 H0 M0 m S hs mem_at left lnk (r # rs) ks"
    and rg: "region_of m r = (va, pa, len)" and hs: "hs = (a, s) # hs0"
  obtains (fail) "fork_regions L memtab n pd r mem_at m = Some (Inl NullDeref)"
      and "freelist_stock (l_freelist L) m < table_need [(va, pa, len)]"
  | (copy) m' S' where "fork_regions L memtab n pd r mem_at m =
        fork_regions L memtab n pd (first0 rs) (mem_at + pg_roundup len) m'" and "S' \<subseteq> S"
      and "fork_inv L memtab n pd hn R S0 H0 M0 m' S' ((a + 0x18, s - 0x18) # hs0) (mem_at + pg_roundup len)
        (left - unat (pg_roundup len)) (r + 12) rs ((a + 2) # ks)"
      and "owned (l_heap L) ((a + 0x18, s - 0x18) # hs0) \<subseteq> owned (l_heap L) hs" and "span (a + 2) 16 \<subseteq> owned (l_heap L) hs"
      and "region_of m' (a + 2) = (va, v2p mem_at, len)" and "map (region_of m') rs = map (region_of m) rs"
      and "\<forall>k. k < len \<longrightarrow> m' (mem_at + k) = m (p2v pa + k)"
      and "\<forall>q < 2 ^ 19. user_page m' pd q = forked_pages [(va, pa, len)] mem_at (user_page m pd) q"
      and "same_outside (S0 \<union> owned (l_heap L) hs \<union> span pd 4096 \<union> span mem_at (unat len) \<union> span hn 4) m m'"
      and "freelist_stock (l_freelist L) m \<le> freelist_stock (l_freelist L) m' + table_need [(va, pa, len)]"
proof -
  let ?fl = "l_freelist L" and ?hp = "l_heap L" and ?c = "a + 2" and ?hs' = "(a + 0x18, s - 0x18) # hs0" and ?H = "owned (l_heap L) hs"
  let ?T = "S0 \<union> ?H \<union> span pd 4096 \<union> span mem_at (unat len) \<union> span hn 4"
  have i: "freelist_owns ?fl m S" "S \<subseteq> S0" "pd_inv m pd S" "tables m pd \<subseteq> S0" "heap_inv ?hp m ((a, s) # hs0)" "?H \<subseteq> H0"
    "0x18 * Suc (length rs) < unat s" "slist m 12 lnk (r # rs)" "span r 16 \<union> regions_span rs \<union> span n 4 \<subseteq> R"
    "data_of (va, pa, len) \<subseteq> R" "\<forall>x \<in> set rs. data_of (region_of m x) \<subseteq> R"
    "fits_in ((va, pa, len) # map (region_of m) rs) left" "left \<le> 2 ^ 32" "span mem_at left \<subseteq> M0" "GETMEMMAP memtab m n = hn"
    "slist m 12 hn ks" "sep_nodes 16 hn ks" "regions_span ks \<subseteq> H0" "regions_span ks \<inter> ?H = {}"
    using inv rg hs by (auto simp: fork_inv_def regions_span_def)
  note A = fork_inv_areas [OF ar inv rg]
  have hi: "S \<subseteq> high" using ar i(2) by (auto simp: fork_areas_def)
  have g: "S0 \<inter> H0 = {}" "H0 \<inter> span pd 4096 = {}" "H0 \<inter> M0 = {}" "H0 \<inter> span hn 4 = {}" "S0 \<inter> R = {}" "H0 \<inter> R = {}"
    "span pd 4096 \<inter> R = {}" "M0 \<inter> R = {}" "span hn 4 \<inter> R = {}" using ar by (simp_all add: fork_areas_def)
  have TR: "?T \<inter> R = {}" using g(5-9) A(2) i(6) by blast
  have r0: "r \<noteq> 0" and nx: "read32 m (r + 12) = first0 rs" and sl: "slist m 12 (r + 12) rs"
    using i(8) slist_first [of m 12 "r + 12" rs] by (simp_all add: slist_Cons)
  have big: "0x18 < s" using i(7) by (simp add: word_less_nat_alt)
  have us: "unat (s - 0x18) = unat s - 24" using big by (simp add: u32_sub word_less_nat_alt)
  have fit: "unat (pg_rounddown va) + unat (pg_roundup len) \<le> 2 ^ 31" using i(12) by simp
  have Rs: "span r 16 \<subseteq> R" "span n 4 \<subseteq> R" using i(9) by blast+
  show thesis
  proof (rule fork_region_copies [OF i(1) hi i(3,5) big rg fit i(15) Rs(1) i(10) Rs(2) A(1) [unfolded hs]])
    assume "fork_region L memtab n pd r mem_at m = Inl NullDeref" "freelist_stock ?fl m < table_need [(va, pa, len)]"
    then show thesis using fail r0 fork_regions.simps [of L memtab n pd r mem_at m] by simp
  next
    fix m' S'
    assume c: "fork_region L memtab n pd r mem_at m = Inr (pg_roundup len, m')" "freelist_owns ?fl m' S'" "S' \<subseteq> S" "pd_inv m' pd S'"
      "vm_set m' pd \<subseteq> S \<union> vm_set m pd" "heap_inv ?hp m' ?hs'" "owned ?hp ?hs' \<subseteq> owned ?hp ((a, s) # hs0)"
      "span ?c 16 \<subseteq> owned ?hp ((a, s) # hs0)" "span ?c 16 \<inter> owned ?hp ?hs' = {}" "?c \<noteq> 0" "region_of m' ?c = (va, v2p mem_at, len)"
      "read32 m' (?c + 12) = read32 m hn" "read32 m' hn = ?c" "\<forall>k. k < len \<longrightarrow> m' (mem_at + k) = m (p2v pa + k)"
      "\<forall>q < 2 ^ 19. user_page m' pd q = forked_pages [(va, pa, len)] mem_at (user_page m pd) q"
      "same_outside (S \<union> owned ?hp ((a, s) # hs0) \<union> vm_set m pd \<union> span mem_at (unat len) \<union> span hn 4) m m'"
      "freelist_stock ?fl m \<le> freelist_stock ?fl m' + table_need [(va, pa, len)]"
    have out: "same_outside ?T m m'"
      by (rule same_outside_mono [OF c(16)]) (use i(2) A(3) in \<open>auto simp: hs\<close>)
    have keep: "region_of m' x = region_of m x" "read32 m' (x + 12) = read32 m (x + 12)" if "span x 16 \<subseteq> R" for x
      using region_of_frame [OF out] TR that by blast+
    have rr: "span x 16 \<subseteq> R" if "x \<in> set rs" for x using i(9) that by (auto simp: regions_span_def)
    have map_eq: "map (region_of m') rs = map (region_of m) rs" using keep(1) rr by simp
    have "fork_regions L memtab n pd r mem_at m = fork_regions L memtab n pd (first0 rs) (mem_at + pg_roundup len) m'"
      using r0 c(1) nx keep(2) [OF Rs(1)] fork_regions.simps [of L memtab n pd r mem_at m] by simp
    moreover have "fork_inv L memtab n pd hn R S0 H0 M0 m' S' ?hs' (mem_at + pg_roundup len) (left - unat (pg_roundup len))
        (r + 12) rs (?c # ks)"
    proof -
      have "tables m' pd \<subseteq> S0"
      proof -
        have "tables m' pd \<inter> span pd 4096 = {}" using c(4) by (auto simp: pd_inv_def)
        then show ?thesis using c(5) i(2,4) unfolding vm_set_def by blast
      qed
      moreover have r12: "span (r + 12) 4 \<subseteq> R" using Rs(1) span_sub [of 12 4 16 r] by auto
      have "slist m' 12 (r + 12) rs"
        by (rule slist_relink [OF sl keep(2) [OF Rs(1)] out]) (use TR i(9) in blast)
      moreover have "read32 m' n = read32 m n" by (rule same_outside_read32 [OF out]) (use TR Rs(2) in blast)
      then have "GETMEMMAP memtab m' n = hn" using i(15) by (simp add: GETMEMMAP_def)
      moreover have ksT: "?T \<inter> regions_span ks = {}"
        using i(18,19) g(1-4) A(2) by blast
      have "slist m' 12 (?c + 12) ks" by (rule slist_relink [OF i(16) c(12) out ksT])
      then have "slist m' 12 hn (?c # ks)" using c(10,13) by (simp add: slist_Cons)
      moreover have "sep_nodes 16 hn (?c # ks)"
      proof -
        have cH: "span ?c 16 \<subseteq> ?H" using c(8) by (simp add: hs)
        have "apart hn 4 ?c 16" using cH i(6) g(4) by (auto simp: apart_iff_span)
        moreover have "apart ?c 16 y 16" if "y \<in> set ks" for y
          using cH i(19) that by (fastforce simp: apart_iff_span regions_span_def)
        ultimately show ?thesis using i(17) by simp
      qed
      moreover have "regions_span (?c # ks) \<subseteq> H0" "regions_span (?c # ks) \<inter> owned ?hp ?hs' = {}"
        using c(7-9) i(6,18,19) by (auto simp: regions_span_def hs)
      moreover have "(\<Union>x \<in> set rs. data_of (region_of m' x)) \<subseteq> R" using i(11) keep(1) [OF rr] by auto
      moreover have "span (mem_at + pg_roundup len) (left - unat (pg_roundup len)) \<subseteq> M0" using A(4) i(14) by blast
      moreover have "owned ?hp ?hs' \<subseteq> H0" using c(7) i(6) by (simp add: hs)
      moreover have "fits_in (map (region_of m') rs) (left - unat (pg_roundup len))" unfolding map_eq using i(12) by simp
      ultimately show ?thesis
        unfolding fork_inv_def using c(2-4,6) i(2,7,9,13) us r12 by auto
    qed
    ultimately show thesis using copy [of m' S'] c(3,7,8,11,14,15,17) map_eq out by (simp add: hs)
  qed
qed

lemma copies_frame:
  assumes "copies m1 m2 ts a" and "same_outside T m m1" and "T \<inter> R = {}" and "\<forall>t \<in> set ts. data_of t \<subseteq> R"
  shows "copies m m2 ts a"
  using assms(1,4)
proof (induction ts arbitrary: a)
  case (Cons t ts)
  obtain va pa len where t: "t = (va, pa, len)" by (cases t) auto
  have "m1 (p2v pa + k) = m (p2v pa + k)" if "k < len" for k
  proof (rule byte_frame [OF assms(2)])
    have "p2v pa + k \<in> data_of t" using that by (simp add: t data_of_def span_def word_less_nat_alt)
    then show "p2v pa + k \<notin> T" using Cons.prems(2) assms(3) by auto
  qed
  then show ?case using Cons by (simp add: t)
qed simp

lemma forked_pages_cong: "f q = g q \<Longrightarrow> forked_pages ts a f q = forked_pages ts a g q"
proof (induction ts a f arbitrary: g rule: forked_pages.induct)
  case (2 va pa len rs a f)
  show ?case unfolding forked_pages.simps by (rule 2(1)) (simp add: 2(2))
qed simp

lemma fork_regions_copies:
  assumes ar: "fork_areas S0 H0 pd M0 hn R" and inv: "fork_inv L memtab n pd hn R S0 H0 M0 m S ((a, s) # hs) mem_at left lnk rs ks"
  defines "ts \<equiv> map (region_of m) rs" and "H \<equiv> owned (l_heap L) ((a, s) # hs)"
  shows "(fork_regions L memtab n pd (first0 rs) mem_at m = Some (Inl NullDeref) \<and> freelist_stock (l_freelist L) m < table_need ts) \<or>
    (\<exists>m' S' b t left' at' lnk' js. fork_regions L memtab n pd (first0 rs) mem_at m = Some (Inr m') \<and> S' \<subseteq> S \<and>
      fork_inv L memtab n pd hn R S0 H0 M0 m' S' ((b, t) # hs) at' left' lnk' [] (rev js @ ks) \<and>
      owned (l_heap L) ((b, t) # hs) \<subseteq> H \<and> unat t + 0x18 * length rs = unat s \<and>
      map (region_of m') js = clones ts mem_at \<and> copies m m' ts mem_at \<and>
      (\<forall>q < 2 ^ 19. user_page m' pd q = forked_pages ts mem_at (user_page m pd) q) \<and>
      same_outside (S0 \<union> H \<union> span pd 4096 \<union> span mem_at left \<union> span hn 4) m m' \<and>
      freelist_stock (l_freelist L) m \<le> freelist_stock (l_freelist L) m' + table_need ts)"
  using inv unfolding ts_def H_def
proof (induction rs arbitrary: m S a s mem_at left lnk ks)
  case Nil
  have "fork_regions L memtab n pd (first0 []) mem_at m = Some (Inr m)" by (simp add: fork_regions.simps)
  then show ?case
    using Nil by (intro disjI2 exI [of _ m] exI [of _ S] exI [of _ a] exI [of _ s] exI [of _ left] exI [of _ mem_at] exI [of _ lnk]
      exI [of _ "[]"]) simp
next
  case (Cons r rs)
  obtain va pa len where rg: "region_of m r = (va, pa, len)" by (cases "region_of m r") auto
  let ?fl = "l_freelist L" and ?ts = "map (region_of m) rs" and ?H = "owned (l_heap L) ((a, s) # hs)"
  show ?case
  proof (rule fork_inv_step [OF ar Cons.prems rg refl])
    assume "fork_regions L memtab n pd r mem_at m = Some (Inl NullDeref)" "freelist_stock ?fl m < table_need [(va, pa, len)]"
    then show ?case using rg by simp
  next
    fix m1 S1
    let ?hs1 = "(a + 0x18, s - 0x18) # hs" and ?a1 = "mem_at + pg_roundup len" and ?l1 = "left - unat (pg_roundup len)"
    assume c: "fork_regions L memtab n pd r mem_at m = fork_regions L memtab n pd (first0 rs) ?a1 m1" "S1 \<subseteq> S"
      "fork_inv L memtab n pd hn R S0 H0 M0 m1 S1 ?hs1 ?a1 ?l1 (r + 12) rs ((a + 2) # ks)"
      "owned (l_heap L) ?hs1 \<subseteq> ?H" "span (a + 2) 16 \<subseteq> ?H"
      "region_of m1 (a + 2) = (va, v2p mem_at, len)" "map (region_of m1) rs = ?ts"
      "\<forall>k. k < len \<longrightarrow> m1 (mem_at + k) = m (p2v pa + k)"
      "\<forall>q < 2 ^ 19. user_page m1 pd q = forked_pages [(va, pa, len)] mem_at (user_page m pd) q"
      "same_outside (S0 \<union> ?H \<union> span pd 4096 \<union> span mem_at (unat len) \<union> span hn 4) m m1"
      "freelist_stock ?fl m \<le> freelist_stock ?fl m1 + table_need [(va, pa, len)]"
    let ?T1 = "S0 \<union> owned (l_heap L) ?hs1 \<union> span pd 4096 \<union> span ?a1 ?l1 \<union> span hn 4"
    note A = fork_inv_areas [OF ar Cons.prems rg]
    have i: "regions_span ((a + 2) # ks) \<subseteq> H0" "regions_span ((a + 2) # ks) \<inter> owned (l_heap L) ?hs1 = {}" "span ?a1 ?l1 \<subseteq> M0"
        "owned (l_heap L) ?hs1 \<subseteq> H0"
      using c(3) by (simp_all add: fork_inv_def)
    have p: "?H \<subseteq> H0" "\<forall>x \<in> set ?ts. data_of x \<subseteq> R" "0x18 < s" "unat len \<le> left"
      using Cons.prems rg pg_roundup_bounds(1) [of len] by (auto simp: fork_inv_def word_less_nat_alt)
    have g: "S0 \<inter> H0 = {}" "H0 \<inter> span pd 4096 = {}" "H0 \<inter> M0 = {}" "H0 \<inter> span hn 4 = {}" "S0 \<inter> M0 = {}"
      "span pd 4096 \<inter> M0 = {}" "M0 \<inter> span hn 4 = {}" "S0 \<inter> R = {}" "H0 \<inter> R = {}" "span pd 4096 \<inter> R = {}" "M0 \<inter> R = {}"
      "span hn 4 \<inter> R = {}" using ar by (simp_all add: fork_areas_def)
    have need: "table_need (map (region_of m) (r # rs)) = table_need [(va, pa, len)] + table_need ?ts" by (simp add: rg)
    from Cons.IH [OF c(3), unfolded c(7)] show ?case
    proof (elim disjE exE conjE)
      assume "fork_regions L memtab n pd (first0 rs) ?a1 m1 = Some (Inl NullDeref)" "freelist_stock ?fl m1 < table_need ?ts"
      then show ?case using c(1,11) unfolding need by simp
    next
      fix m' S' b t left' at' lnk' js
      assume h: "fork_regions L memtab n pd (first0 rs) ?a1 m1 = Some (Inr m')" "S' \<subseteq> S1"
        "fork_inv L memtab n pd hn R S0 H0 M0 m' S' ((b, t) # hs) at' left' lnk' [] (rev js @ (a + 2) # ks)"
        "owned (l_heap L) ((b, t) # hs) \<subseteq> owned (l_heap L) ?hs1" "unat t + 0x18 * length rs = unat (s - 0x18)"
        "map (region_of m') js = clones ?ts ?a1" "copies m1 m' ?ts ?a1"
        "\<forall>q < 2 ^ 19. user_page m' pd q = forked_pages ?ts ?a1 (user_page m1 pd) q" "same_outside ?T1 m1 m'"
        "freelist_stock ?fl m1 \<le> freelist_stock ?fl m' + table_need ?ts"
      have "?T1 \<inter> span (a + 2) 16 = {}"
      proof -
        have "span (a + 2) 16 \<subseteq> H0" "span (a + 2) 16 \<inter> owned (l_heap L) ?hs1 = {}" using i(1,2) by (auto simp: regions_span_def)
        then show ?thesis using g(1-4) i(3) by blast
      qed
      then have "region_of m' (a + 2) = (va, v2p mem_at, len)" using region_of_frame(1) [OF h(9)] c(6) by simp
      then have cl: "map (region_of m') ((a + 2) # js) = clones (map (region_of m) (r # rs)) mem_at" using h(6) by (simp add: rg)
      have "m' (mem_at + k) = m (p2v pa + k)" if k: "k < len" for k
      proof -
        have "mem_at + k \<in> span mem_at (unat len)" using k by (simp add: span_def word_less_nat_alt)
        then have "mem_at + k \<notin> ?T1" using A(2,5) i(4) g(3,5-7) by blast
        then show ?thesis using byte_frame [OF h(9)] c(8) k by simp
      qed
      moreover have "(S0 \<union> ?H \<union> span pd 4096 \<union> span mem_at (unat len) \<union> span hn 4) \<inter> R = {}"
        using g(8-12) p(1) A(2) by blast
      then have "copies m m' ?ts ?a1" using copies_frame [OF h(7) c(10) _ p(2)] by blast
      ultimately have cp: "copies m m' (map (region_of m) (r # rs)) mem_at" by (simp add: rg)
      have "user_page m' pd q = forked_pages (map (region_of m) (r # rs)) mem_at (user_page m pd) q" if "q < 2 ^ 19" for q
      proof -
        have "user_page m' pd q = forked_pages ?ts ?a1 (user_page m1 pd) q" using h(8) that by blast
        also have "\<dots> = forked_pages ?ts ?a1 (forked_pages [(va, pa, len)] mem_at (user_page m pd)) q"
          by (rule forked_pages_cong) (use c(9) that in blast)
        finally show ?thesis by (simp add: rg)
      qed
      moreover have "same_outside (S0 \<union> ?H \<union> span pd 4096 \<union> span mem_at left \<union> span hn 4) m m'"
        by (rule same_outside_mono [OF same_outside_trans [OF c(10) h(9)]])
          (use A(4) c(4) span_mono [OF p(4), of mem_at] in blast)
      moreover have "unat t + 0x18 * length (r # rs) = unat s" using h(5) p(3) by (simp add: u32_sub word_less_nat_alt)
      moreover have "freelist_stock ?fl m \<le> freelist_stock ?fl m' + table_need (map (region_of m) (r # rs))"
        unfolding need using h(10) c(11) by linarith
      moreover have "fork_inv L memtab n pd hn R S0 H0 M0 m' S' ((b, t) # hs) at' left' lnk' [] (rev ((a + 2) # js) @ ks)"
        using h(3) by simp
      moreover have "S' \<subseteq> S" "owned (l_heap L) ((b, t) # hs) \<subseteq> ?H" using h(2,4) c(2,4) by blast+
      moreover have "fork_regions L memtab n pd (first0 (r # rs)) mem_at m = Some (Inr m')" using c(1) h(1) by simp
      ultimately show ?case using cl cp by blast
    qed
  qed
qed

end
