(* ===== verification/Sys_Fork.thy ===== *)
theory Sys_Fork
  imports Fork
begin

text \<open>
  \<^verbatim>\<open>sys_fork\<close> as a whole: the loop over the open files, the steps before and after the two loops, and what
  the parent and the child find when it returns.
\<close>

section \<open>The open files\<close>

text \<open>\<open>ofiles m u xs\<close>: from the cell \<open>u\<close> on the table of open files holds \<open>xs\<close> and then a null pointer.\<close>

fun ofiles :: "mem \<Rightarrow> u32 \<Rightarrow> u32 list \<Rightarrow> bool" where
  "ofiles m u [] \<longleftrightarrow> read32 m u = 0"
| "ofiles m u (f # xs) \<longleftrightarrow> read32 m u = f \<and> f \<noteq> 0 \<and> ofiles m (u + 4) xs"

definition same_file :: "mem \<Rightarrow> mem \<Rightarrow> u32 \<Rightarrow> u32 \<Rightarrow> bool" where
  "same_file m m' f g \<longleftrightarrow> (\<forall>k < 12. m' (g + k) = m (f + k))"

definition files_span :: "u32 list \<Rightarrow> u32 set" where
  "files_span xs = (\<Union>f \<in> set xs. span f 12)"

lemma span4: "span v (4 * Suc n) = span v 4 \<union> span (v + 4) (4 * n)"
  using span_split [of 4 "4 * Suc n" v] by simp

lemma span4_disjoint: "4 * Suc n \<le> 2 ^ 32 \<Longrightarrow> span v 4 \<inter> span (v + 4) (4 * n) = {}"
  using span_split_disjoint [of 4 "4 * Suc n" v] by simp

lemma ofiles_frame:
  assumes "ofiles m u xs" and "same_outside T m m'" and "T \<inter> span u (4 * Suc (length xs)) = {}"
  shows "ofiles m' u xs"
  using assms(1,3)
proof (induction xs arbitrary: u)
  case Nil
  then show ?case using same_outside_read32 [OF assms(2), of u] by auto
next
  case (Cons f xs)
  have "span u 4 \<inter> T = {}" "T \<inter> span (u + 4) (4 * Suc (length xs)) = {}"
    using Cons.prems(2) span4 [of u "Suc (length xs)"] by auto
  then show ?case using Cons.IH [of "u + 4"] Cons.prems(1) same_outside_read32 [OF assms(2), of u] by simp
qed

lemma same_outside_sym: "same_outside T m m' \<Longrightarrow> same_outside T m' m"
  by (simp add: same_outside_def)

lemma same_file_frame:
  assumes "same_file m m' f g" and "same_outside T m m1" and "T \<inter> span f 12 = {}" and "same_outside U m' m2" and "U \<inter> span g 12 = {}"
  shows "same_file m1 m2 f g"
proof -
  have "x + k \<in> span x 12" if "k < 12" for x k :: u32 using that by (simp add: span_def word_less_nat_alt)
  then show ?thesis using assms unfolding same_file_def by (metis byte_frame disjoint_iff)
qed

lemma copied_same_file:
  assumes "span f 12 \<inter> span g 12 = {}"
  shows "same_file m (copied m g f 12) f g"
  unfolding same_file_def copied_def by (auto simp: word_less_nat_alt)

lemma fork_files_step:
  fixes n :: u32
  assumes hv: "heap_inv (l_heap L) m ((a, s) # hs)" and big: "0x10 < s" and f: "read32 m (cur + 24 + 4 * fd) = f" "f \<noteq> 0"
    and R: "span (cur + 24 + 4 * fd) 4 \<subseteq> R" "span f 12 \<subseteq> R"
  defines "H \<equiv> owned (l_heap L) ((a, s) # hs)" and "H' \<equiv> owned (l_heap L) ((a + 0x10, s - 0x10) # hs)" and "v \<equiv> n + 24 + 4 * fd"
  assumes d: "H \<inter> R = {}" "span v 4 \<inter> R = {}" "H \<inter> span v 4 = {}"
  obtains m' where "fork_files L cur n fd m = fork_files L cur n (fd + 1) m'"
    and "heap_inv (l_heap L) m' ((a + 0x10, s - 0x10) # hs)" and "H' \<subseteq> H" and "span (a + 2) 12 \<subseteq> H" and "span (a + 2) 12 \<inter> H' = {}"
    and "a + 2 \<noteq> 0" and "read32 m' v = a + 2" and "same_file m m' f (a + 2)" and "same_outside (H \<union> span v 4) m m'"
proof -
  let ?hp = "l_heap L" and ?c = "a + 2"
  have cs: "chunk_size 12 = 0x10" by (simp add: chunk_size_def roundup_def)
  obtain m1 where k: "kmalloc ?hp 12 m = Inr (?c, m1)" "heap_inv ?hp m1 ((a + 0x10, s - 0x10) # hs)" "same_outside H m m1"
      "span ?c 12 \<subseteq> H" "span ?c 12 \<inter> H' = {}" "H' \<subseteq> H" "?c \<noteq> 0"
    by (rule kmalloc_first [OF hv, of 12]) (use big in \<open>auto simp: cs H_def H'_def\<close>)
  define m2 where "m2 = write32 m1 v ?c"
  define m3 where "m3 = copied m2 ?c f 12"
  have o2: "same_outside (H \<union> span v 4) m m2" unfolding m2_def by (rule same_outside_trans [OF k(3) same_outside_write32])
  have o13: "same_outside (span v 4 \<union> span ?c 12) m1 m3"
    unfolding m2_def m3_def by (rule same_outside_trans [OF same_outside_write32 same_outside_copied])
  have o3: "same_outside (H \<union> span v 4) m m3"
    by (rule same_outside_mono [OF same_outside_trans [OF k(3) o13]]) (use k(4) in blast)
  have "read32 m2 (cur + 24 + 4 * fd) = f"
    using same_outside_read32 [OF o2, of "cur + 24 + 4 * fd"] R(1) d(1,2) f(1) by auto
  then have eq: "fork_files L cur n fd m = fork_files L cur n (fd + 1) m3"
    using f k(1,7) fork_files.simps [of L cur n fd m] by (simp add: Let_def m2_def m3_def v_def)
  have "heap_inv ?hp m3 ((a + 0x10, s - 0x10) # hs)"
    by (rule heap_inv_frame [OF k(2) o13]) (use k(5,6) d(3) in \<open>auto simp: H'_def\<close>)
  moreover have "read32 m3 v = ?c"
  proof -
    have "span v 4 \<inter> span ?c 12 = {}" using d(3) k(4) by blast
    then show ?thesis using same_outside_read32 [OF same_outside_copied, of v ?c 12 m2 f] by (simp add: m3_def m2_def)
  qed
  moreover have "same_file m m3 f ?c"
  proof -
    have "span f 12 \<inter> span ?c 12 = {}" using k(4) d(1) R(2) by blast
    then have "same_file m2 m3 f ?c" unfolding m3_def by (rule copied_same_file)
    moreover have "m2 (f + k) = m (f + k)" if "k < 12" for k
    proof (rule byte_frame [OF o2])
      have "f + k \<in> span f 12" using that by (simp add: span_def word_less_nat_alt)
      then show "f + k \<notin> H \<union> span v 4" using R(2) d(1,2) by blast
    qed
    ultimately show ?thesis by (simp add: same_file_def)
  qed
  ultimately show thesis using that [OF eq] k(4-7) o3 by blast
qed

lemma fork_files_copies:
  fixes n :: u32
  assumes "heap_inv (l_heap L) m ((a, s) # hs)" and "0x10 * length xs < unat s" and "length xs < 16"
    and "ofiles m (cur + 24 + 4 * fd) xs" and "span (cur + 24 + 4 * fd) (4 * Suc (length xs)) \<union> files_span xs \<subseteq> R"
    and "read32 m (n + 24 + 4 * fd + 4 * of_nat (length xs)) = 0"
    and "owned (l_heap L) ((a, s) # hs) \<inter> R = {}" and "span (n + 24 + 4 * fd) (4 * Suc (length xs)) \<inter> R = {}"
    and "owned (l_heap L) ((a, s) # hs) \<inter> span (n + 24 + 4 * fd) (4 * Suc (length xs)) = {}"
  shows "\<exists>m' ys. fork_files L cur n fd m = Some (Inr m') \<and> ofiles m' (n + 24 + 4 * fd) ys \<and> list_all2 (same_file m m') xs ys \<and>
    files_span ys \<subseteq> owned (l_heap L) ((a, s) # hs) \<and>
    same_outside (owned (l_heap L) ((a, s) # hs) \<union> span (n + 24 + 4 * fd) (4 * length xs)) m m'"
  using assms
proof (induction xs arbitrary: m a s fd)
  case Nil
  then have "fork_files L cur n fd m = Some (Inr m)" using fork_files.simps [of L cur n fd m] by simp
  then show ?case using Nil by (intro exI [of _ m] exI [of _ "[]"]) (simp add: files_span_def)
next
  case (Cons x xs)
  let ?u = "cur + 24 + 4 * fd" and ?v = "n + 24 + 4 * fd" and ?H = "owned (l_heap L) ((a, s) # hs)" and ?k = "Suc (length xs)"
  let ?hs = "(a + 0x10, s - 0x10) # hs" and ?c = "a + 2"
  let ?H' = "owned (l_heap L) ?hs"
  have e: "cur + 24 + 4 * (fd + 1) = ?u + 4" "n + 24 + 4 * (fd + 1) = ?v + 4" by simp_all
  have big: "0x10 < s" using Cons.prems(2) by (simp add: word_less_nat_alt)
  have sp: "span w (4 * Suc ?k) = span w 4 \<union> span (w + 4) (4 * ?k)" for w :: u32 by (rule span4)
  have p: "read32 m ?u = x" "x \<noteq> 0" "ofiles m (?u + 4) xs" "span ?u 4 \<subseteq> R" "span x 12 \<subseteq> R" "span (?u + 4) (4 * ?k) \<union> files_span xs \<subseteq> R"
    "?H \<inter> R = {}" "span ?v 4 \<inter> R = {}" "span (?v + 4) (4 * ?k) \<inter> R = {}" "?H \<inter> span ?v 4 = {}" "?H \<inter> span (?v + 4) (4 * ?k) = {}"
    using Cons.prems(4,5,7-9) unfolding list.size add_Suc_right add_0_right sp by (auto simp: files_span_def)
  obtain m1 where f: "fork_files L cur n fd m = fork_files L cur n (fd + 1) m1" "heap_inv (l_heap L) m1 ?hs" "?H' \<subseteq> ?H"
      "span ?c 12 \<subseteq> ?H" "span ?c 12 \<inter> ?H' = {}" "?c \<noteq> 0" "read32 m1 ?v = ?c" "same_file m m1 x ?c" "same_outside (?H \<union> span ?v 4) m m1"
    by (rule fork_files_step [OF Cons.prems(1) big p(1,2,4,5,7,8,10)])
  have dv: "span ?v 4 \<inter> span (?v + 4) (4 * ?k) = {}" by (rule span4_disjoint) (use Cons.prems(3) in simp)
  have z: "read32 m1 (?v + 4 + 4 * of_nat (length xs)) = 0"
  proof -
    have "span (?v + 4 + of_nat (4 * length xs)) 4 \<subseteq> span (?v + 4) (4 * ?k)" by (rule span_of_nat) simp
    then have "span (?v + 4 + 4 * of_nat (length xs)) 4 \<inter> (?H \<union> span ?v 4) = {}" using dv p(11) by auto
    then show ?thesis using same_outside_read32 [OF f(9)] Cons.prems(6) by (simp add: add.assoc)
  qed
  have o: "ofiles m1 (?u + 4) xs"
    by (rule ofiles_frame [OF p(3) f(9)]) (use p(6-8) in blast)
  have us: "16 * length xs < unat (s - 0x10)" using Cons.prems(2) big by (simp add: u32_sub word_less_nat_alt)
  have "\<exists>m' ys. fork_files L cur n (fd + 1) m1 = Some (Inr m') \<and> ofiles m' (?v + 4) ys \<and> list_all2 (same_file m1 m') xs ys \<and>
      files_span ys \<subseteq> ?H' \<and> same_outside (?H' \<union> span (?v + 4) (4 * length xs)) m1 m'"
    by (rule Cons.IH [of m1 "a + 0x10" "s - 0x10" "fd + 1", unfolded e, OF f(2) us _ o p(6) z _ p(9)])
      (use Cons.prems(3) f(3) p(7,11) in \<open>simp, blast, blast\<close>)
  then obtain m' ys where h: "fork_files L cur n (fd + 1) m1 = Some (Inr m')" "ofiles m' (?v + 4) ys" "list_all2 (same_file m1 m') xs ys"
      "files_span ys \<subseteq> ?H'" "same_outside (?H' \<union> span (?v + 4) (4 * length xs)) m1 m'" by blast
  have tl: "span (?v + 4) (4 * length xs) \<subseteq> span (?v + 4) (4 * ?k)" by (rule span_mono) simp
  have "read32 m' ?v = ?c"
  proof -
    have "span ?v 4 \<inter> ?H' = {}" using p(10) f(3) by blast
    then have "span ?v 4 \<inter> (?H' \<union> span (?v + 4) (4 * length xs)) = {}" using dv tl by blast
    then show ?thesis using same_outside_read32 [OF h(5)] f(7) by simp
  qed
  then have "ofiles m' ?v (?c # ys)" using f(6) h(2) by simp
  moreover have "same_file m m' x ?c"
  proof (rule same_file_frame [OF f(8) same_outside_refl [of "{}"] _ h(5)])
    have "span (?v + 4) (4 * length xs) \<inter> span ?c 12 = {}" using f(4) p(11) tl by blast
    then show "(?H' \<union> span (?v + 4) (4 * length xs)) \<inter> span ?c 12 = {}" using f(5) by blast
  qed simp
  moreover have "same_file m m' y z" if "y \<in> set xs" "same_file m1 m' y z" for y z
    by (rule same_file_frame [OF that(2) same_outside_sym [OF f(9)] _ same_outside_refl [of "{}"]])
      (use that(1) p(6-8) in \<open>auto simp: files_span_def\<close>)
  then have "list_all2 (same_file m m') xs ys" using list.rel_mono_strong [OF h(3)] by blast
  moreover have "files_span (?c # ys) \<subseteq> ?H" using f(3,4) h(4) by (auto simp: files_span_def)
  moreover have "same_outside (?H \<union> span ?v (4 * length (x # xs))) m m'"
    by (rule same_outside_mono [OF same_outside_trans [OF f(9) h(5)]]) (use f(3) span4 [of ?v "length xs"] in auto)
  ultimately show ?case using f(1) h(1) by (intro exI [of _ m'] exI [of _ "?c # ys"]) simp
qed

section \<open>The structure of the child\<close>

text \<open>What follows the loop over the regions: first the structure and the trap frame of the child, then the
  files, then the run queue.\<close>

definition child_frame :: "u32 \<Rightarrow> u32 \<Rightarrow> u32 \<Rightarrow> mem \<Rightarrow> mem" where
  "child_frame cur n pd m =
     (let m = write32 m (n + 92) cur;
          m = write32 m (n + 4) (v2p pd);
          m = copied m (read32 m (n + 20)) (read32 m (cur + 20)) 68 in
      write32 m (read32 m (n + 20) + 28) 0)"

definition fork_last :: "link \<Rightarrow> u32 \<Rightarrow> u32 \<Rightarrow> u32 \<Rightarrow> mem \<Rightarrow> (int \<times> mem) res" where
  "fork_last L cur n pd m =
     bindE (ends (fork_files L cur n 0 (child_frame cur n pd m))) (\<lambda>r. bindE r (\<lambda>m.
     let m = enqueue L n m in Inr (sint (read32 m n), m)))"

lemma child_frame_facts:
  fixes k cur pd :: u32
  assumes tf: "read32 m (k + 0xFAC) = k + 0xF54" and d: "span k 0x1000 \<inter> span (cur + 20) 4 = {}" "span k 0x1000 \<inter> span (read32 m (cur + 20)) 68 = {}"
  defines "m' \<equiv> child_frame cur (k + 0xF98) pd m"
  shows "same_outside (span (k + 0xF54) 68 \<union> span (k + 0xF9C) 4 \<union> span (k + 0xFF4) 4) m m'"
    and "trap_regs m' (k + 0xF54) = (trap_regs m (read32 m (cur + 20)))\<lparr> eax := 0 \<rparr>"
    and "read32 m' (k + 0xF9C) = v2p pd" and "read32 m' (k + 0xFF4) = cur"
proof -
  define t where "t = read32 m (cur + 20)"
  define m2 where "m2 = write32 (write32 m (k + 0xFF4) cur) (k + 0xF9C) (v2p pd)"
  define m3 where "m3 = copied m2 (k + 0xF54) t 68"
  have K: "span (k + i) j \<subseteq> span k 0x1000" if "unat i + j \<le> 0x1000" for i j by (rule span_sub [OF that])
  have o2: "same_outside (span (k + 0xFF4) 4 \<union> span (k + 0xF9C) 4) m m2"
    unfolding m2_def by (rule same_outside_trans [OF same_outside_write32 same_outside_write32])
  have o3: "same_outside (span (k + 0xF54) 68) m2 m3" unfolding m3_def by (rule same_outside_copied)
  have ok: "same_outside (span k 0x1000) m m2"
    by (rule same_outside_mono [OF o2]) (use K [of "0xFF4" 4] K [of "0xF9C" 4] in simp)
  have "read32 m2 (cur + 20) = t" using same_outside_read32 [OF ok, of "cur + 20"] d(1) by (simp add: t_def Int_commute)
  moreover have "read32 m2 (k + 0xFAC) = k + 0xF54" by (simp add: m2_def mem_simps apart_def tf)
  moreover from this have "read32 m3 (k + 0xFAC) = k + 0xF54" by (simp add: m3_def mem_simps apart_def)
  ultimately have m': "m' = write32 m3 (k + 0xF70) 0"
    by (simp add: m'_def child_frame_def Let_def add.assoc m2_def [symmetric] m3_def [symmetric])
  have "span (k + 0xF70) 4 \<subseteq> span (k + 0xF54) 68" using span_sub [of "0x1C" 4 68 "k + 0xF54"] by (simp add: add.assoc)
  then show "same_outside (span (k + 0xF54) 68 \<union> span (k + 0xF9C) 4 \<union> span (k + 0xFF4) 4) m m'"
    unfolding m' by (intro same_outside_write32_in same_outside_mono [OF same_outside_trans [OF o2 o3]]) auto
  show "read32 m' (k + 0xF9C) = v2p pd" "read32 m' (k + 0xFF4) = cur"
    unfolding m' m3_def m2_def by (simp_all add: mem_simps apart_def)
  have r: "read32 m3 (k + 0xF54 + i) = read32 m (t + i)" if "unat i + 4 \<le> 68" for i
  proof -
    have "read32 m3 (k + 0xF54 + i) = read32 m2 (t + i)" unfolding m3_def by (rule read32_copied_inside) (use that in simp_all)
    also have "\<dots> = read32 m (t + i)"
      using same_outside_read32 [OF ok, of "t + i"] span_sub [OF that, of t] d(2) by (auto simp: t_def)
    finally show ?thesis .
  qed
  show "trap_regs m' (k + 0xF54) = (trap_regs m (read32 m (cur + 20)))\<lparr> eax := 0 \<rparr>"
    unfolding t_def [symmetric] trap_regs_def m'
    using r [of 0] r [of 4] r [of 8] r [of 16] r [of 20] r [of 24] r [of 32] r [of 36] r [of 40] r [of 44] r [of 48] r [of 52] r [of 56]
      r [of 60] r [of 64]
    by (simp add: mem_simps apart_def add.assoc)
qed

definition queue_span :: "u32 \<Rightarrow> u32 list \<Rightarrow> u32 set" where
  "queue_span q ps = span q 8 \<union> (\<Union>p \<in> set ps. span p 104)"

lemma links_queue: "proc_links q ps \<subseteq> queue_span q ps"
  using fields_in(3) by (fastforce simp: proc_links_def queue_span_def)

lemma proc_nodes_fresh:
  assumes "proc_nodes q ps" and "span p 104 \<inter> queue_span q ps = {}"
  shows "proc_nodes q (p # ps)"
proof -
  have "span q 8 \<inter> span p 104 = {}" "\<And>x. x \<in> set ps \<Longrightarrow> span p 104 \<inter> span x 104 = {}"
    using assms(2) by (auto simp: queue_span_def)
  then show ?thesis using assms(1) by (simp add: apart_iff_span)
qed

text \<open>The parts of a process structure at the end of a page: what lies below the table of files, the table, the
  state and the parent, and the links of the run queue.\<close>

lemma struct_parts:
  fixes k :: u32
  shows "span k 0xFB0 \<inter> span (k + 0xFB0) 64 = {}" and "span k 0xFB0 \<inter> span (k + 0xFF8) 8 = {}"
    and "span (k + 0xFF0) 8 \<inter> span (k + 0xFB0) 64 = {}" and "span (k + 0xFF0) 8 \<inter> span (k + 0xFF8) 8 = {}"
    and "span (k + 0xFB0) 64 \<inter> span (k + 0xFF8) 8 = {}"
    and "span k 0xFB0 \<subseteq> span k 0x1000" and "span (k + 0xFB0) 64 \<subseteq> span k 0x1000" and "span (k + 0xFF0) 8 \<subseteq> span k 0x1000"
    and "span (k + 0xFF8) 8 \<subseteq> span k 0x1000"
proof -
  show "span k 0xFB0 \<inter> span (k + 0xFB0) 64 = {}" "span k 0xFB0 \<inter> span (k + 0xFF8) 8 = {}"
    "span (k + 0xFF0) 8 \<inter> span (k + 0xFB0) 64 = {}" "span (k + 0xFF0) 8 \<inter> span (k + 0xFF8) 8 = {}"
    "span (k + 0xFB0) 64 \<inter> span (k + 0xFF8) 8 = {}"
    by (rule apart_span; simp add: apart_def)+
qed (simp_all add: span_mono span_sub)

text \<open>The trap frame, the parent and the page directory of the child, then its files.\<close>

lemma child_files:
  fixes k cur pd :: u32
  assumes tf: "read32 m (k + 0xFAC) = k + 0xF54" and zero: "read32 m (k + 0xFB0 + 4 * of_nat (length xs)) = 0"
    and hv: "heap_inv (l_heap L) m ((a, s) # hs)" and big: "0x10 * length xs < unat s" and len: "length xs < 16" and of: "ofiles m (cur + 24) xs"
  defines "n \<equiv> k + 0xF98" and "H \<equiv> owned (l_heap L) ((a, s) # hs)"
    and "P \<equiv> span cur 104 \<union> span (read32 m (cur + 20)) 68 \<union> files_span xs"
    and "T \<equiv> span (k + 0xF54) 68 \<union> span (k + 0xF9C) 4 \<union> span (k + 0xFF4) 4"
  assumes d: "span k 0x1000 \<inter> H = {}" "span k 0x1000 \<inter> P = {}" "H \<inter> P = {}"
  obtains m1 m2 ys where "same_outside T m m1" and "trap_regs m1 (k + 0xF54) = (trap_regs m (read32 m (cur + 20)))\<lparr> eax := 0 \<rparr>"
    and "read32 m1 (k + 0xF9C) = v2p pd" and "read32 m1 (k + 0xFF4) = cur"
    and "fork_files L cur n 0 (child_frame cur n pd m) = Some (Inr m2)" and "ofiles m2 (k + 0xFB0) ys" and "length ys = length xs"
    and "list_all2 (same_file m m2) xs ys" and "files_span ys \<subseteq> H" and "same_outside (H \<union> span (k + 0xFB0) 64) m1 m2"
proof -
  let ?K = "span k 0x1000" and ?F = "span (k + 0xFB0) 64"
  have c: "span (cur + 20) 4 \<subseteq> P" "span (cur + 24) 64 \<subseteq> P" "span (read32 m (cur + 20)) 68 \<subseteq> P"
    using span_sub [of 20 4 104 cur] span_sub [of 24 64 104 cur] by (auto simp: P_def)
  define m1 where "m1 = child_frame cur n pd m"
  have f: "same_outside T m m1" "trap_regs m1 (k + 0xF54) = (trap_regs m (read32 m (cur + 20)))\<lparr> eax := 0 \<rparr>"
      "read32 m1 (k + 0xF9C) = v2p pd" "read32 m1 (k + 0xFF4) = cur"
    unfolding m1_def n_def T_def
    by (rule child_frame_facts [OF tf], rule disjoint_sub [OF d(2) order_refl c(1)], rule disjoint_sub [OF d(2) order_refl c(3)])+
  have TK: "T \<subseteq> ?K"
    unfolding T_def using span_sub [of "0xF54" 68 "0x1000" k] span_sub [of "0xF9C" 4 "0x1000" k] span_sub [of "0xFF4" 4 "0x1000" k] by simp
  have hv1: "heap_inv (l_heap L) m1 ((a, s) # hs)" by (rule heap_inv_frame [OF hv f(1)]) (use TK d(1) in \<open>auto simp: H_def\<close>)
  have len4: "4 * Suc (length xs) \<le> 64" using len by simp
  have tl: "span w (4 * Suc (length xs)) \<subseteq> span w 64" "span w (4 * length xs) \<subseteq> span w 64" for w
    using span_mono [OF len4] span_mono [of "4 * length xs" 64] len4 by simp_all
  have of1: "ofiles m1 (cur + 24) xs"
    by (rule ofiles_frame [OF of f(1)]) (rule disjoint_sub [OF d(2) TK order_trans [OF tl(1) c(2)]])
  have z1: "read32 m1 (k + 0xFB0 + 4 * of_nat (length xs)) = 0"
  proof -
    have "span (k + 0xFB0 + of_nat (4 * length xs)) 4 \<subseteq> ?F" by (rule span_of_nat) (use len in simp)
    moreover have "?F \<inter> T = {}" unfolding T_def Int_Un_distrib Un_empty by (intro conjI apart_span) (simp_all add: apart_def)
    ultimately have "span (k + 0xFB0 + 4 * of_nat (length xs)) 4 \<inter> T = {}" by auto
    then show ?thesis using same_outside_read32 [OF f(1)] zero by simp
  qed
  have e: "cur + 24 + 4 * 0 = cur + 24" "n + 24 + 4 * 0 = k + 0xFB0" by (simp_all add: n_def)
  have FK: "span (k + 0xFB0) (4 * Suc (length xs)) \<subseteq> ?K" using tl(1) struct_parts(7) by blast
  have "\<exists>m' ys. fork_files L cur n 0 m1 = Some (Inr m') \<and> ofiles m' (k + 0xFB0) ys \<and> list_all2 (same_file m1 m') xs ys \<and>
      files_span ys \<subseteq> H \<and> same_outside (H \<union> span (k + 0xFB0) (4 * length xs)) m1 m'"
  proof (rule fork_files_copies [of L m1 a s hs xs cur 0 P n, unfolded e, OF hv1 big len of1 _ z1, folded H_def])
    show "span (cur + 24) (4 * Suc (length xs)) \<union> files_span xs \<subseteq> P" using c(2) tl(1) [of "cur + 24"] by (auto simp: P_def)
    show "span (k + 0xFB0) (4 * Suc (length xs)) \<inter> P = {}" by (rule disjoint_sub [OF d(2) FK order_refl])
    show "H \<inter> span (k + 0xFB0) (4 * Suc (length xs)) = {}" using d(1) FK by blast
  qed (rule d(3))
  then obtain m2 ys where g: "fork_files L cur n 0 m1 = Some (Inr m2)" "ofiles m2 (k + 0xFB0) ys" "list_all2 (same_file m1 m2) xs ys"
      "files_span ys \<subseteq> H" "same_outside (H \<union> span (k + 0xFB0) (4 * length xs)) m1 m2" by blast
  have o2: "same_outside (H \<union> ?F) m1 m2" by (rule same_outside_mono [OF g(5)]) (use tl(2) in blast)
  have "list_all2 (same_file m m2) xs ys"
  proof (rule list.rel_mono_strong [OF g(3)])
    fix x y assume "x \<in> set xs" "same_file m1 m2 x y"
    then show "same_file m m2 x y"
      using TK d(2) by (intro same_file_frame [OF _ same_outside_sym [OF f(1)] _ same_outside_refl [of "{}"]]) (auto simp: P_def files_span_def)
  qed
  then show thesis using that [OF f g(1) [unfolded m1_def] g(2) _ _ g(4) o2] g(3) by (simp add: list_all2_lengthD)
qed

lemma fork_last_returns:
  fixes k cur pd :: u32
  assumes page: "read32 m (k + 0xFAC) = k + 0xF54" "read32 m (k + 0xF98) = pid" "read32 m (k + 0xFA4) = 0"
      "proc_state m (k + 0xF98) = pstate_code READY" "read32 m (k + 0xFB0 + 4 * of_nat (length xs)) = 0"
    and hv: "heap_inv (l_heap L) m ((a, s) # hs)" and big: "0x10 * length xs < unat s" and len: "length xs < 16"
    and of: "ofiles m (cur + 24) xs" and q: "tailq m 96 (l_queue L) ps" and nodes: "proc_nodes (l_queue L) ps" and n0: "k + 0xF98 \<noteq> 0"
  defines "n \<equiv> k + 0xF98" and "H \<equiv> owned (l_heap L) ((a, s) # hs)" and "Q \<equiv> queue_span (l_queue L) ps"
    and "P \<equiv> span cur 104 \<union> span (read32 m (cur + 20)) 68 \<union> files_span xs"
  assumes dis: "sorted_wrt (\<lambda>A B. A \<inter> B = {}) [span k 0x1000, H, Q, P]"
  obtains m' ys where "fork_last L cur n pd m = Inr (sint pid, m')" and "read32 m' n = pid" and "read32 m' (n + 4) = v2p pd"
    and "read32 m' (n + 12) = 0" and "proc_state m' n = pstate_code READY" and "read32 m' (n + 92) = cur"
    and "trap_regs m' (read32 m' (n + 20)) = (trap_regs m (read32 m (cur + 20)))\<lparr> eax := 0 \<rparr>"
    and "ofiles m' (n + 24) ys" and "list_all2 (same_file m m') xs ys" and "tailq m' 96 (l_queue L) (ps @ [n])"
    and "same_outside (span k 0x1000 \<union> H \<union> proc_links (l_queue L) ps) m m'"
proof -
  let ?K = "span k 0x1000" and ?q = "l_queue L" and ?F = "span (k + 0xFB0) 64"
  have d: "?K \<inter> H = {}" "?K \<inter> Q = {}" "?K \<inter> P = {}" "H \<inter> Q = {}" "H \<inter> P = {}" "Q \<inter> P = {}" using dis by simp_all
  note sp = struct_parts [of k]
  define T where "T = span (k + 0xF54) 68 \<union> span (k + 0xF9C) 4 \<union> span (k + 0xFF4) 4"
  obtain m1 m2 ys where f: "same_outside T m m1" "trap_regs m1 (k + 0xF54) = (trap_regs m (read32 m (cur + 20)))\<lparr> eax := 0 \<rparr>"
      "read32 m1 (k + 0xF9C) = v2p pd" "read32 m1 (k + 0xFF4) = cur" and
    g: "fork_files L cur n 0 (child_frame cur n pd m) = Some (Inr m2)" "ofiles m2 (k + 0xFB0) ys" "length ys = length xs"
      "list_all2 (same_file m m2) xs ys" "files_span ys \<subseteq> H" and o2: "same_outside (H \<union> ?F) m1 m2"
    unfolding T_def n_def H_def
    by (rule child_files [OF page(1,5) hv big len of d(1,3,5) [unfolded H_def P_def]])
  have TK: "T \<subseteq> ?K"
    unfolding T_def using span_sub [of "0xF54" 68 "0x1000" k] span_sub [of "0xF9C" 4 "0x1000" k] span_sub [of "0xFF4" 4 "0x1000" k] by simp
  have one: "read32 m1 (k + i) = read32 m (k + i)"
    if "apart (k + i) 4 (k + 0xF54) 68" "apart (k + i) 4 (k + 0xF9C) 4" "apart (k + i) 4 (k + 0xFF4) 4" for i
    using same_outside_read32 [OF f(1)] that [THEN apart_span] by (simp add: T_def Int_Un_distrib)
  have qn: "proc_nodes ?q (n # ps)"
  proof (rule proc_nodes_fresh [OF nodes])
    have "span n 104 \<subseteq> ?K" using span_sub [of "0xF98" 104 "0x1000" k] by (simp add: n_def)
    then show "span n 104 \<inter> queue_span ?q ps = {}" using d(2) by (auto simp: Q_def)
  qed
  have links: "proc_links ?q ps \<subseteq> Q" unfolding Q_def by (rule links_queue)
  have q2: "tailq m2 96 ?q ps"
  proof (rule tailq_frame [OF q same_outside_trans [OF f(1) o2]])
    show "(T \<union> (H \<union> ?F)) \<inter> proc_links ?q ps = {}" using TK sp(7) d(2,4) links by blast
  qed
  define m3 where "m3 = enqueue L n m2"
  have q3: "tailq m3 96 ?q (ps @ [n])" unfolding m3_def enqueue_def by (rule procs.ins_holds [OF q2 qn]) (use n0 in \<open>simp add: n_def\<close>)
  have n96: "n + 96 = k + 0xFF8" by (simp add: n_def)
  have o3: "same_outside (span (k + 0xFF8) 8 \<union> proc_links ?q ps) m2 m3"
  proof (rule same_outside_mono)
    show "same_outside (proc_links ?q (n # ps)) m2 m3" unfolding m3_def enqueue_def by (rule procs.ins_outside [OF q2 qn])
  qed (auto simp: proc_links_def n96)
  let ?U = "H \<union> ?F \<union> (span (k + 0xFF8) 8 \<union> proc_links ?q ps)"
  have o13: "same_outside ?U m1 m3" by (rule same_outside_trans [OF o2 o3])
  have U: "span k 0xFB0 \<inter> ?U = {}" "span (k + 0xFF0) 8 \<inter> ?U = {}"
    using sp(1-4,6,8) d(1,2) links by blast+
  have lo: "read32 m3 (k + i) = read32 m1 (k + i)" if "unat i + 4 \<le> 0xFB0" for i
    using same_outside_read32 [OF o13] span_sub [OF that, of k] U(1) by blast
  have st: "read32 m3 (k + 0xFF0 + i) = read32 m1 (k + 0xFF0 + i)" if "unat i + 4 \<le> 8" for i
    using same_outside_read32 [OF o13] span_sub [OF that, of "k + 0xFF0"] U(2) by blast
  have "trap_regs m3 (k + 0xF54) = trap_regs m1 (k + 0xF54)"
    by (rule trap_regs_frame [OF o13]) (use U(1) span_sub [of "0xF54" 68 "0xFB0" k] in auto)
  moreover have "read32 m3 (k + 0xFAC) = k + 0xF54" "read32 m3 (k + 0xF98) = pid" "read32 m3 (k + 0xFA4) = 0"
      "proc_state m3 (k + 0xF98) = pstate_code READY" "read32 m3 (k + 0xF9C) = v2p pd" "read32 m3 (k + 0xFF4) = cur"
    using lo [of "0xFAC"] lo [of "0xF98"] lo [of "0xFA4"] lo [of "0xF9C"] st [of 0] st [of 4] one [of "0xFAC"] one [of "0xF98"]
      one [of "0xFA4"] one [of "0xFF0"] f(3,4) page(1-4) by (simp_all add: proc_state_def add.assoc apart_def)
  moreover have "ofiles m3 (k + 0xFB0) ys"
  proof (rule ofiles_frame [OF g(2) o3])
    have "span (k + 0xFB0) (4 * Suc (length ys)) \<subseteq> ?F" using len g(3) by (intro span_mono) simp
    moreover have "(span (k + 0xFF8) 8 \<union> proc_links ?q ps) \<inter> ?F = {}" using sp(5,7) d(2) links by blast
    ultimately show "(span (k + 0xFF8) 8 \<union> proc_links ?q ps) \<inter> span (k + 0xFB0) (4 * Suc (length ys)) = {}" by blast
  qed
  moreover have "list_all2 (same_file m m3) xs ys"
  proof (rule list.rel_mono_strong [OF g(4)])
    fix x y assume y: "y \<in> set ys" "same_file m m2 x y"
    have "(span (k + 0xFF8) 8 \<union> proc_links ?q ps) \<inter> H = {}" using sp(9) d(1,4) links by blast
    then show "same_file m m3 x y"
      using y(1) g(5) by (intro same_file_frame [OF y(2) same_outside_refl [of "{}"] _ o3]) (auto simp: files_span_def)
  qed
  moreover have "same_outside (?K \<union> H \<union> proc_links ?q ps) m m3"
    by (rule same_outside_mono [OF same_outside_trans [OF f(1) o13]]) (use TK sp(7,9) in blast)
  moreover have "fork_last L cur n pd m = Inr (sint pid, m3)"
    using g(1) calculation(3) by (simp add: fork_last_def m3_def n_def Let_def)
  ultimately show thesis using that [of m3 ys] q3 f(2) by (simp add: n_def add.assoc)
qed

section \<open>Up to the first loop\<close>

lemma alloc_pages_some:
  assumes inv: "freelist_inv fl m bs" and sz: "sz \<noteq> 0" and fit: "\<exists>b \<in> set bs. sz \<le> snd b"
  obtains a m' bs' where "alloc_pages fl sz m = Inr (a, m')" and "a \<noteq> 0" and "aligned 4096 a" and "freelist_inv fl m' bs'"
    and "owned fl bs' \<subseteq> owned fl bs" and "same_outside (owned fl bs) m m'" and "span a (unat (pg_roundup sz)) \<subseteq> owned fl bs"
    and "span a (unat (pg_roundup sz)) \<inter> owned fl bs' = {}" and "length bs \<le> Suc (length bs')" and "sz \<le> 0x1000 \<Longrightarrow> set (tl bs) \<subseteq> set bs'"
proof -
  obtain a m' bs' where a: "alloc_pages fl sz m = Inr (a, m')" "alloc_spec sz bs = (a, bs')" "freelist_inv fl m' bs'" "same_outside (owned fl bs) m m'"
    using alloc_pages_facts [OF inv sz] .
  have ok: "blocks_ok fl bs" using inv by (simp add: freelist_inv_def)
  have a0: "a \<noteq> 0" using alloc_spec_cases [OF ok, of sz] a(2) fit by (auto simp: block_ok_def)
  note r = alloc_spec_region [OF ok a(2) a0]
  have sub: "span a (unat (pg_roundup sz)) \<subseteq> owned fl bs" using r(2) by (auto simp: owned_def)
  have "set (tl bs) \<subseteq> set bs'" if le: "sz \<le> 0x1000"
  proof -
    from alloc_spec_cases [OF ok, of sz] a(2) a0 obtain xs b ys where bs: "bs = xs @ b # ys" "\<forall>x \<in> set xs. \<not> sz \<le> snd x" and
      b': "bs' = (if pg_roundup sz < snd b then ins_free (a + pg_roundup sz, snd b - pg_roundup sz) (xs @ ys) else xs @ ys)"
      by (auto split: if_splits)
    have "sz \<le> snd x" if "x \<in> set xs" for x
      using ok block_size_ge [of fl x] le that by (auto simp: bs(1) blocks_ok_def word_le_nat_alt)
    then have "xs = []" using bs(2) by (cases xs) auto
    then show ?thesis using b' set_ins_free [of ys] by (cases "ys = []") (auto simp: bs(1))
  qed
  then show thesis using that a(1,3,4) a0 r(1,3,4) sub alloc_spec_stock(1) [OF ok a(2)] by blast
qed

lemma bindE_Inr: "bindE x Inr = x"
  by (cases x) simp_all

lemma sys_fork_eq:
  fixes k :: u32
  assumes "alloc_pages (l_freelist L) 0x1000 (km (sk s)) = Inr (k, m1)" and "k \<noteq> 0" and "k + 0xF98 \<noteq> 0"
  defines "n \<equiv> k + 0xF98" and "m2 \<equiv> write32 (process_page L k m1) (k + 0xF98) (spid s)" and "cur \<equiv> curthread (sk s)"
  assumes "alloc_pages (l_freelist L) (read32 m2 (GETMEMMAP (smemtab s) m2 cur + 4)) m2 = Inr (mem_at, m3)" and "mem_at \<noteq> 0"
  shows "copykvm (alloc_pages (l_freelist L)) (skpagedir s) m3 = Inl e \<Longrightarrow> sys_fork L s = Inl e"
    and "copykvm (alloc_pages (l_freelist L)) (skpagedir s) m3 = Inr (pd, m4) \<Longrightarrow> pd \<noteq> 0 \<Longrightarrow>
      sys_fork L s = bindE (bindE (ends (fork_regions L (smemtab s) n pd (SLIST_FIRST m4 (GETMEMMAP (smemtab s) m4 cur)) mem_at m4))
          (\<lambda>r. bindE r (fork_last L cur n pd)))
        (\<lambda>(x, m). Inr (x, s\<lparr> spid := spid s + 1, sk := (sk s)\<lparr> km := m \<rparr> \<rparr>))"
  using assms by (simp_all add: sys_fork_def on_mem_def proc_create_eq Let_def fork_last_def [abs_def] child_frame_def bindE_Inr)

text \<open>The page of a process that has been created and has its identifier, but nothing else yet.\<close>

definition child_page :: "u32 \<Rightarrow> u32 \<Rightarrow> mem \<Rightarrow> bool" where
  "child_page k pid m \<longleftrightarrow> read32 m (k + 0xFAC) = k + 0xF54 \<and> read32 m (k + 0xF98) = pid \<and> read32 m (k + 0xFA4) = 0 \<and>
     proc_state m (k + 0xF98) = pstate_code READY \<and> (\<forall>j < 16. read32 m (k + 0xFB0 + 4 * of_nat j) = 0)"

lemma child_page_frame:
  assumes "child_page k pid m" and "same_outside T m m'" and "T \<inter> span k 0x1000 = {}"
  shows "child_page k pid m'"
proof -
  have r: "read32 m' (k + i) = read32 m (k + i)" if "unat i + 4 \<le> 0x1000" for i
    using same_outside_read32 [OF assms(2)] span_sub [OF that, of k] assms(3) by blast
  have "read32 m' (k + 0xFB0 + 4 * of_nat j) = read32 m (k + 0xFB0 + 4 * of_nat j)" if "j < 16" for j
  proof (rule same_outside_read32 [OF assms(2)])
    have "span (k + 0xFB0 + of_nat (4 * j)) 4 \<subseteq> span (k + 0xFB0) 64" by (rule span_of_nat) (use that in simp)
    then show "span (k + 0xFB0 + 4 * of_nat j) 4 \<inter> T = {}" using struct_parts(7) [of k] assms(3) by auto
  qed
  then show ?thesis
    using assms(1) r [of "0xFAC"] r [of "0xF98"] r [of "0xFA4"] r [of "0xFF0"] by (simp add: child_page_def proc_state_def add.assoc)
qed

lemma process_child_page: "child_page k pid (write32 (process_page L k m) (k + 0xF98) pid)"
proof -
  let ?m = "write32 (process_page L k m) (k + 0xF98) pid" and ?T = "span k 0xFB0 \<union> span (k + 0xFF0) 4"
  have lo: "span (k + i) 4 \<subseteq> ?T" if "unat i + 4 \<le> 0xFB0" for i using span_sub [OF that, of k] by blast
  have "same_outside ?T m0 (memset m1 (k + 0xF3C) 0 20)" if "same_outside ?T m0 m1" for m0 m1
  proof -
    have "span (k + 0xF3C) 20 \<subseteq> ?T" using span_sub [of "0xF3C" 20 "0xFB0" k] by auto
    then show ?thesis using same_outside_trans [OF that same_outside_memset [of "k + 0xF3C" 20]] by (simp add: Un_absorb2)
  qed
  then have o: "same_outside ?T (memset m k 0 0x1000) ?m"
    unfolding process_page_def thread_page_def by (simp add: same_outside_write32_in lo)
  have "read32 ?m (k + 0xFB0 + 4 * of_nat j) = 0" if "j < 16" for j
  proof -
    have s: "span (k + 0xFB0 + of_nat (4 * j)) 4 \<subseteq> span (k + 0xFB0) 64" by (rule span_of_nat) (use that in simp)
    have "span (k + 0xFF0) 4 \<subseteq> span (k + 0xFF0) 8" by (rule span_mono) simp
    then have "span (k + 0xFB0 + 4 * of_nat j) 4 \<inter> ?T = {}" using s struct_parts(1,3) [of k] by auto
    then have "read32 ?m (k + 0xFB0 + 4 * of_nat j) = read32 (memset m k 0 0x1000) (k + (0xFB0 + 4 * of_nat j))"
      using same_outside_read32 [OF o] by (simp add: add.assoc)
    also have "\<dots> = 0"
    proof (rule read32_memset_zero)
      have "unat (0xFB0 + 4 * of_nat j :: u32) = 0xFB0 + 4 * j" using that by (simp add: unat_word_ariths unat_of_nat)
      then show "unat (0xFB0 + 4 * of_nat j :: u32) + 4 \<le> unat (0x1000 :: u32)" using that by simp
    qed
    finally show ?thesis .
  qed
  moreover have "read32 ?m (k + 0xFAC) = k + 0xF54" "read32 ?m (k + 0xF98) = pid" "proc_state ?m (k + 0xF98) = pstate_code READY"
    "read32 ?m (k + 0xFA4) = 0"
    by (simp_all add: process_page_def thread_page_def proc_state_def add.assoc mem_simps apart_def)
  ultimately show ?thesis by (simp add: child_page_def)
qed

text \<open>What \<^verbatim>\<open>fork\<close> relies on: the page allocator, the heap, the list of the regions of the caller, the table of its
  files and the run queue are well formed and apart from each other and from the entry of the child in the table
  of memory maps, which is empty; the regions fit into the size the loader recorded for the process.\<close>

definition child_map :: "system \<Rightarrow> u32" where
  "child_map s = smemtab s + 8 * (spid s - 1)"

definition image_size :: "system \<Rightarrow> u32" where
  "image_size s = read32 (km (sk s)) (GETMEMMAP (smemtab s) (km (sk s)) (curthread (sk s)) + 4)"

definition parent_span :: "system \<Rightarrow> u32 list \<Rightarrow> u32 list \<Rightarrow> u32 set" where
  "parent_span s rs xs = (let m = km (sk s); cur = curthread (sk s) in
     span cur 104 \<union> span (read32 m (cur + 20)) 68 \<union> span (GETMEMMAP (smemtab s) m cur) 8 \<union> regions_span rs \<union>
     (\<Union>r \<in> set rs. data_of (region_of m r)) \<union> files_span xs \<union> span (skpagedir s) 4096)"

definition fork_ok :: "link \<Rightarrow> system \<Rightarrow> blocks \<Rightarrow> blocks \<Rightarrow> u32 list \<Rightarrow> u32 list \<Rightarrow> u32 list \<Rightarrow> bool" where
  "fork_ok L s bs hs rs xs ps \<longleftrightarrow> (let m = km (sk s); cur = curthread (sk s) in
     freelist_inv (l_freelist L) m bs \<and> owned (l_freelist L) bs \<subseteq> high \<and> heap_inv (l_heap L) m hs \<and>
     slist m 12 (GETMEMMAP (smemtab s) m cur) rs \<and> fits_in (map (region_of m) rs) (unat (pg_roundup (image_size s))) \<and>
     image_size s \<noteq> 0 \<and> read32 m (child_map s) = 0 \<and> ofiles m (cur + 24) xs \<and> length xs < 16 \<and>
     tailq m 96 (l_queue L) ps \<and> proc_nodes (l_queue L) ps \<and>
     sorted_wrt (\<lambda>A B. A \<inter> B = {}) [owned (l_freelist L) bs, owned (l_heap L) hs, span (child_map s) 4,
       queue_span (l_queue L) ps, parent_span s rs xs])"

lemma parent_parts:
  fixes s :: system
  defines "m \<equiv> km (sk s)" and "cur \<equiv> curthread (sk s)"
  shows "span cur 104 \<subseteq> parent_span s rs xs" and "span (read32 m (cur + 20)) 68 \<subseteq> parent_span s rs xs"
    and "span (GETMEMMAP (smemtab s) m cur) 8 \<subseteq> parent_span s rs xs" and "regions_span rs \<subseteq> parent_span s rs xs"
    and "(\<Union>r \<in> set rs. data_of (region_of m r)) \<subseteq> parent_span s rs xs" and "files_span xs \<subseteq> parent_span s rs xs"
    and "span (skpagedir s) 4096 \<subseteq> parent_span s rs xs"
  by (auto simp: parent_span_def m_def cur_def Let_def)

text \<open>The three blocks: the page of the child, the memory for its regions and its page directory.\<close>

lemma fork_allocates:
  assumes inv: "freelist_inv (l_freelist L) (km (sk s)) bs" and big: "\<exists>b \<in> set (tl bs). image_size s \<le> snd b" and sz: "image_size s \<noteq> 0"
    and cur: "span (curthread (sk s)) 4 \<inter> owned (l_freelist L) bs = {}" "span (skpagedir s) 4096 \<inter> owned (l_freelist L) bs = {}"
      "span (GETMEMMAP (smemtab s) (km (sk s)) (curthread (sk s))) 8 \<inter> owned (l_freelist L) bs = {}"
  defines "F \<equiv> owned (l_freelist L) bs" and "cur \<equiv> curthread (sk s)"
  obtains (none) "sys_fork L s = Inl NullDeref" and "length bs \<le> 2"
  | (some) k mem_at pd m' S where
      "sys_fork L s = bindE (bindE (ends (fork_regions L (smemtab s) (k + 0xF98) pd (SLIST_FIRST m' (GETMEMMAP (smemtab s) m' cur)) mem_at m'))
          (\<lambda>r. bindE r (fork_last L cur (k + 0xF98) pd)))
        (\<lambda>(x, m). Inr (x, s\<lparr> spid := spid s + 1, sk := (sk s)\<lparr> km := m \<rparr> \<rparr>))"
      and "k + 0xF98 \<noteq> 0" and "child_page k (spid s) m'" and "span k 0x1000 \<subseteq> F"
      and "freelist_owns (l_freelist L) m' S" and "S \<subseteq> F" and "pd_inv m' pd S" and "tables m' pd = {}" and "span pd 4096 \<subseteq> F"
      and "\<forall>q < 2 ^ 19. user_page m' pd q = None" and "same_outside F (km (sk s)) m'"
      and "span mem_at (unat (pg_roundup (image_size s))) \<subseteq> F"
      and "sorted_wrt (\<lambda>A B. A \<inter> B = {}) [S, span pd 4096, span mem_at (unat (pg_roundup (image_size s))), span k 0x1000]"
      and "length bs \<le> 3 + freelist_stock (l_freelist L) m'"
proof -
  let ?fl = "l_freelist L" and ?m = "km (sk s)" and ?sz = "image_size s" and ?l = "unat (pg_roundup (image_size s))"
  have "pg_roundup 0x1000 = 0x1000" by (rule pg_roundup_id) (simp add: aligned_def)
  then have r: "unat (pg_roundup 0x1000) = 0x1000" by simp
  have "bs \<noteq> []" using big by auto
  then have "\<exists>b \<in> set bs. (0x1000 :: u32) \<le> snd b"
    using inv block_size_ge [of ?fl "hd bs"] by (cases bs) (auto simp: freelist_inv_def word_le_nat_alt)
  from alloc_pages_some [OF inv _ this, simplified r] obtain k m1 bs1 where
    a: "alloc_pages ?fl 0x1000 ?m = Inr (k, m1)" "k \<noteq> 0" "aligned 4096 k" "freelist_inv ?fl m1 bs1" "owned ?fl bs1 \<subseteq> F" "same_outside F ?m m1"
      "span k 0x1000 \<subseteq> F" "span k 0x1000 \<inter> owned ?fl bs1 = {}" "length bs \<le> Suc (length bs1)" "set (tl bs) \<subseteq> set bs1"
    unfolding F_def by auto
  define m2 where "m2 = write32 (process_page L k m1) (k + 0xF98) (spid s)"
  have kn: "k + 0xF98 \<noteq> 0"
  proof
    assume "k + 0xF98 = 0"
    then have "k = - 0xF98" by (simp add: eq_neg_iff_add_eq_0)
    then show False using a(3) by (simp add: aligned_def)
  qed
  have o12: "same_outside (span k 0x1000) m1 m2"
    unfolding m2_def by (rule same_outside_write32_in [OF process_page_outside]) (rule span_sub; simp)
  have o2: "same_outside F ?m m2" by (rule same_outside_mono [OF same_outside_trans [OF a(6) o12]]) (use a(7) in blast)
  have "read32 m2 cur = read32 ?m cur" by (rule same_outside_read32 [OF o2]) (use cur(1) in \<open>simp add: F_def cur_def\<close>)
  then have g2: "GETMEMMAP (smemtab s) m2 cur = GETMEMMAP (smemtab s) ?m cur" by (simp add: GETMEMMAP_def)
  have s2: "read32 m2 (GETMEMMAP (smemtab s) m2 cur + 4) = ?sz"
    unfolding g2 image_size_def cur_def [symmetric]
    by (rule same_outside_read32 [OF o2]) (use cur(3) span_sub [of 4 4 8 "GETMEMMAP (smemtab s) ?m cur"] in \<open>auto simp: F_def cur_def\<close>)
  have inv2: "freelist_inv ?fl m2 bs1" by (rule freelist_inv_frame [OF a(4) o12 a(8)])
  have "\<exists>b \<in> set bs1. ?sz \<le> snd b" using big a(10) by blast
  from alloc_pages_some [OF inv2 sz this] obtain mem_at m3 bs2 where
    b: "alloc_pages ?fl ?sz m2 = Inr (mem_at, m3)" "mem_at \<noteq> 0" "freelist_inv ?fl m3 bs2" "owned ?fl bs2 \<subseteq> owned ?fl bs1"
      "same_outside (owned ?fl bs1) m2 m3" "span mem_at ?l \<subseteq> owned ?fl bs1" "span mem_at ?l \<inter> owned ?fl bs2 = {}" "length bs1 \<le> Suc (length bs2)" .
  note eq = sys_fork_eq [OF a(1,2) kn b(1) [folded s2, unfolded m2_def cur_def] b(2), folded cur_def]
  have fo3: "freelist_owns ?fl m3 (owned ?fl bs2)" using b(3) by (auto simp: freelist_owns_def)
  have kd: "span (skpagedir s) 4096 \<inter> owned ?fl bs2 = {}" using cur(2) a(5) b(4) by (auto simp: F_def)
  from pages.copykvm_copies [OF fo3 kd] show thesis
  proof (elim disjE exE conjE)
    assume "freelist_stock ?fl m3 = 0" "copykvm (alloc_pages ?fl) (skpagedir s) m3 = Inl NullDeref"
    then show thesis using none eq(1) a(9) b(8) freelist_stock_eq [OF b(3)] by simp
  next
    fix pd m' S
    assume c: "copykvm (alloc_pages ?fl) (skpagedir s) m3 = Inr (pd, m')" "pd \<noteq> 0" "freelist_owns ?fl m' S" "S \<subseteq> owned ?fl bs2"
      "span pd 4096 \<subseteq> owned ?fl bs2" "pd_inv m' pd S" "same_outside (owned ?fl bs2) m3 m'"
      "\<forall>i < 1024. pde m' pd i = (if i < 512 then 0 else pde m3 (skpagedir s) i)" "freelist_stock ?fl m3 \<le> Suc (freelist_stock ?fl m')"
    have o: "same_outside (owned ?fl bs1) m2 m'" by (rule same_outside_mono [OF same_outside_trans [OF b(5) c(7)]]) (use b(4) in blast)
    have "child_page k (spid s) m'"
      by (rule child_page_frame [OF process_child_page o [unfolded m2_def]]) (use a(8) in blast)
    moreover have "same_outside F ?m m'" by (rule same_outside_mono [OF same_outside_trans [OF o2 o]]) (use a(5) in blast)
    moreover have "user_page m' pd q = None" if "q < 2 ^ 19" for q by (rule no_user_pages [OF _ that]) (use c(8) in simp)
    moreover have "tables m' pd = {}" using c(8) by (auto simp: tables_def present_def)
    moreover have "S \<inter> span pd 4096 = {}" using c(6) by (auto simp: pd_inv_def)
    then have "sorted_wrt (\<lambda>A B. A \<inter> B = {}) [S, span pd 4096, span mem_at ?l, span k 0x1000]"
      using a(8) b(4,6,7) c(4,5) by auto
    moreover have "S \<subseteq> F" "span pd 4096 \<subseteq> F" "span mem_at ?l \<subseteq> F" using a(5) b(4,6) c(4,5) by blast+
    moreover have "length bs \<le> 3 + freelist_stock ?fl m'" using a(9) b(8) c(9) freelist_stock_eq [OF b(3)] by simp
    ultimately show thesis using some [OF eq(2) [OF c(1,2)] kn] a(7) c(3,6) by blast
  qed
qed

text \<open>At the head of the loop over the regions its invariant holds.\<close>

lemma fork_loop_head:
  fixes k mem_at :: u32
  assumes ok: "fork_ok L s bs hs rs xs ps" and hs: "hs \<noteq> []" "0x18 * length rs < unat (snd (hd hs))"
  defines "m \<equiv> km (sk s)" and "cur \<equiv> curthread (sk s)" and "F \<equiv> owned (l_freelist L) bs" and "H \<equiv> owned (l_heap L) hs"
    and "M \<equiv> span mem_at (unat (pg_roundup (image_size s)))"
    and "R \<equiv> parent_span s rs xs \<union> queue_span (l_queue L) ps \<union> span k 0x1000"
  assumes out: "same_outside F m m'" and own: "freelist_owns (l_freelist L) m' S" "pd_inv m' pd S" "tables m' pd = {}"
    and sub: "S \<subseteq> F" "span pd 4096 \<subseteq> F" "M \<subseteq> F" "span k 0x1000 \<subseteq> F" and page: "child_page k (spid s) m'"
    and dis: "sorted_wrt (\<lambda>A B. A \<inter> B = {}) [S, span pd 4096, M, span k 0x1000]"
  shows "fork_areas S H pd M (child_map s) R"
    and "fork_inv L (smemtab s) (k + 0xF98) pd (child_map s) R S H M m' S hs mem_at (unat (pg_roundup (image_size s)))
      (GETMEMMAP (smemtab s) m cur) rs []"
    and "map (region_of m') rs = map (region_of m) rs"
    and "SLIST_FIRST m' (GETMEMMAP (smemtab s) m' cur) = first0 rs"
proof -
  let ?P = "parent_span s rs xs" and ?Q = "queue_span (l_queue L) ps" and ?hn = "child_map s" and ?hc = "GETMEMMAP (smemtab s) m cur"
  have o: "owned (l_freelist L) bs \<subseteq> high" "heap_inv (l_heap L) m hs" "slist m 12 ?hc rs" "read32 m ?hn = 0"
      "fits_in (map (region_of m) rs) (unat (pg_roundup (image_size s)))"
    and d: "F \<inter> H = {}" "F \<inter> span ?hn 4 = {}" "F \<inter> ?Q = {}" "F \<inter> ?P = {}" "H \<inter> span ?hn 4 = {}" "H \<inter> ?Q = {}" "H \<inter> ?P = {}"
      "span ?hn 4 \<inter> ?Q = {}" "span ?hn 4 \<inter> ?P = {}"
    using ok by (simp_all add: fork_ok_def Let_def F_def H_def m_def cur_def)
  note P = parent_parts [where s = s and rs = rs and xs = xs, folded m_def cur_def]
  have e: "S \<inter> span pd 4096 = {}" "S \<inter> M = {}" "S \<inter> span k 0x1000 = {}" "span pd 4096 \<inter> M = {}" "span pd 4096 \<inter> span k 0x1000 = {}"
    "M \<inter> span k 0x1000 = {}" using dis by simp_all
  have FX: "A \<inter> X = {}" if "A \<subseteq> F" "F \<inter> X = {}" for A X using that by blast
  have FR: "A \<inter> R = {}" if "A \<subseteq> F" "A \<inter> span k 0x1000 = {}" for A
    unfolding R_def Int_Un_distrib using FX [OF that(1)] d(3,4) that(2) by simp
  have HF: "H \<inter> A = {}" if "A \<subseteq> F" for A using that d(1) by blast
  have hK: "span ?hn 4 \<inter> span k 0x1000 = {}" using sub(4) d(2) by blast
  have "H \<inter> R = {}" "span ?hn 4 \<inter> R = {}" unfolding R_def Int_Un_distrib using HF [OF sub(4)] d(6-9) hK by simp_all
  then show "fork_areas S H pd M ?hn R"
    unfolding fork_areas_def using FX [OF sub(1)] FX [OF sub(2)] FX [OF sub(3)] FR [OF sub(1) e(3)] FR [OF sub(2) e(5)] FR [OF sub(3) e(6)]
      HF [OF sub(2)] HF [OF sub(3)] d(1,2,5) e o(1) sub(1) by (simp add: F_def)
  have keep: "read32 m' x = read32 m x" if "span x 4 \<subseteq> ?P" for x using same_outside_read32 [OF out] that d(4) by blast
  have fr: "region_of m' r = region_of m r" if "r \<in> set rs" for r
    by (rule region_of_frame(1) [OF out]) (use that P(4) d(4) in \<open>auto simp: regions_span_def\<close>)
  then show mp: "map (region_of m') rs = map (region_of m) rs" by simp
  have h4: "span ?hc 4 \<subseteq> ?P" using P(3) span_mono [of 4 8 ?hc] by simp
  have sl: "slist m' 12 ?hc rs"
    by (rule slist_relink [OF o(3) keep [OF h4] out]) (use P(4) d(4) in blast)
  have "span cur 4 \<subseteq> ?P" using P(1) span_mono [of 4 104 cur] by simp
  then have hc: "GETMEMMAP (smemtab s) m' cur = ?hc" using keep by (simp add: GETMEMMAP_def)
  show "SLIST_FIRST m' (GETMEMMAP (smemtab s) m' cur) = first0 rs" unfolding hc SLIST_FIRST_def by (rule slist_first [OF sl])
  have hv: "heap_inv (l_heap L) m' hs" by (rule heap_inv_frame [OF o(2) out]) (use d(1) in \<open>simp add: H_def\<close>)
  have "read32 m' ?hn = 0" using same_outside_read32 [OF out, of ?hn] d(2) o(4) by auto
  moreover have "GETMEMMAP (smemtab s) m' (k + 0xF98) = ?hn" using page by (simp add: GETMEMMAP_def child_page_def child_map_def)
  moreover have "span (k + 0xF98) 4 \<subseteq> R" using span_sub [of "0xF98" 4 "0x1000" k] by (auto simp: R_def)
  moreover have "(\<Union>r \<in> set rs. data_of (region_of m' r)) \<subseteq> R" using P(5) fr by (auto simp: R_def)
  moreover have "span ?hc 4 \<subseteq> R" "regions_span rs \<subseteq> R" using h4 P(4) by (auto simp: R_def)
  moreover have "unat (pg_roundup (image_size s)) \<le> 2 ^ 32" by (simp add: less_imp_le)
  ultimately show "fork_inv L (smemtab s) (k + 0xF98) pd ?hn R S H M m' S hs mem_at (unat (pg_roundup (image_size s))) ?hc rs []"
    unfolding fork_inv_def mp using own hs hv o(5) sl by (simp add: H_def M_def slist_def regions_span_def)
qed

section \<open>The whole call\<close>

lemma copies_target:
  assumes "copies m m1 ts a" and "fits_in ts l" and "l \<le> 2 ^ 32" and "same_outside T m1 m2" and "T \<inter> span a l = {}"
  shows "copies m m2 ts a"
  using assms(1-3,5)
proof (induction ts arbitrary: a l)
  case (Cons t ts)
  obtain va pa len where t: "t = (va, pa, len)" by (cases t) auto
  have f: "unat len \<le> 0xFFFFF000" "unat (pg_roundup len) \<le> l" using Cons.prems(2) by (simp_all add: t)
  have sp: "span a l = span a (unat (pg_roundup len)) \<union> span (a + pg_roundup len) (l - unat (pg_roundup len))" by (rule span_split [OF f(2)])
  have "m2 (a + k) = m1 (a + k)" if "k < len" for k
  proof (rule byte_frame [OF assms(4)])
    have "a + k \<in> span a (unat (pg_roundup len))"
      using that pg_roundup_bounds(1) [OF f(1)] by (simp add: span_def word_less_nat_alt)
    then show "a + k \<notin> T" using sp Cons.prems(4) by blast
  qed
  moreover have "copies m m2 ts (a + pg_roundup len)"
    by (rule Cons.IH [of _ "l - unat (pg_roundup len)"]) (use Cons.prems sp in \<open>auto simp: t\<close>)
  ultimately show ?case using Cons.prems(1) by (simp add: t)
qed simp

lemma fork_completes:
  fixes k mem_at b t :: u32
  assumes ok: "fork_ok L s bs ((a, z) # hs) rs xs ps" and n0: "k + 0xF98 \<noteq> 0" and KF: "span k 0x1000 \<subseteq> owned (l_freelist L) bs"
    and ar: "fork_areas S (owned (l_heap L) ((a, z) # hs)) pd M (child_map s) (parent_span s rs xs \<union> queue_span (l_queue L) ps \<union> span k 0x1000)"
    and inv: "fork_inv L (smemtab s) (k + 0xF98) pd (child_map s) (parent_span s rs xs \<union> queue_span (l_queue L) ps \<union> span k 0x1000)
      S (owned (l_heap L) ((a, z) # hs)) M m S' ((b, t) # hs) at' left' lnk' [] js"
    and sub: "owned (l_heap L) ((b, t) # hs) \<subseteq> owned (l_heap L) ((a, z) # hs)" and big: "0x10 * length xs < unat t"
    and page: "child_page k (spid s) m"
    and out: "same_outside T (km (sk s)) m" "T \<inter> (parent_span s rs xs \<union> queue_span (l_queue L) ps) = {}"
  defines "n \<equiv> k + 0xF98" and "cur \<equiv> curthread (sk s)" and "Q \<equiv> proc_links (l_queue L) ps"
  obtains m' ys where "fork_last L cur n pd m = Inr (sint (spid s), m')" and "read32 m' n = spid s" and "read32 m' (n + 4) = v2p pd"
    and "read32 m' (n + 12) = 0" and "proc_state m' n = pstate_code READY" and "read32 m' (n + 92) = cur"
    and "trap_regs m' (read32 m' (n + 20)) = (trap_regs (km (sk s)) (read32 (km (sk s)) (cur + 20)))\<lparr> eax := 0 \<rparr>"
    and "ofiles m' (n + 24) ys" and "list_all2 (same_file (km (sk s)) m') xs ys" and "tailq m' 96 (l_queue L) (ps @ [n])"
    and "slist m' 12 (child_map s) js" and "map (region_of m') js = map (region_of m) js"
    and "\<forall>q < 2 ^ 19. user_page m' pd q = user_page m pd q"
    and "same_outside (span k 0x1000 \<union> owned (l_heap L) ((b, t) # hs) \<union> Q) m m'"
    and "(span k 0x1000 \<union> owned (l_heap L) ((b, t) # hs) \<union> Q) \<inter> M = {}"
proof -
  let ?P = "parent_span s rs xs" and ?Q = "queue_span (l_queue L) ps" and ?K = "span k 0x1000" and ?H = "owned (l_heap L) ((a, z) # hs)"
  let ?H' = "owned (l_heap L) ((b, t) # hs)" and ?m = "km (sk s)"
  have o: "ofiles ?m (cur + 24) xs" "length xs < 16" "tailq ?m 96 (l_queue L) ps" "proc_nodes (l_queue L) ps"
    and QP: "?Q \<inter> ?P = {}" and d: "owned (l_freelist L) bs \<inter> ?Q = {}" "owned (l_freelist L) bs \<inter> ?P = {}"
    using ok by (simp_all add: fork_ok_def Let_def cur_def)
  have KQ: "?K \<inter> ?Q = {}" "?K \<inter> ?P = {}" using d KF by blast+
  have g: "S \<inter> ?K = {}" "S \<inter> ?Q = {}" "?H \<inter> ?K = {}" "?H \<inter> ?Q = {}" "?H \<inter> ?P = {}" "span pd 4096 \<inter> ?K = {}" "span pd 4096 \<inter> ?Q = {}"
      "M \<inter> ?K = {}" "M \<inter> ?Q = {}" "span (child_map s) 4 \<inter> ?K = {}" "span (child_map s) 4 \<inter> ?Q = {}" "S \<inter> ?H = {}"
      "?H \<inter> span pd 4096 = {}" "?H \<inter> M = {}" "?H \<inter> span (child_map s) 4 = {}"
    using ar by (simp_all add: fork_areas_def Int_Un_distrib)
  have i: "heap_inv (l_heap L) m ((b, t) # hs)" "pd_inv m pd S'" "tables m pd \<subseteq> S" "slist m 12 (child_map s) js" "regions_span js \<subseteq> ?H"
      "regions_span js \<inter> ?H' = {}"
    using inv by (simp_all add: fork_inv_def)
  note P = parent_parts [where s = s and rs = rs and xs = xs, folded cur_def]
  have TP: "T \<inter> X = {}" if "X \<subseteq> ?P" for X using out(2) that by blast
  have tf: "read32 m (cur + 20) = read32 ?m (cur + 20)"
    using same_outside_read32 [OF out(1), of "cur + 20"] span_sub [of 20 4 104 cur] P(1) out(2) by auto
  have tr: "trap_regs m (read32 m (cur + 20)) = trap_regs ?m (read32 ?m (cur + 20))"
    unfolding tf by (rule trap_regs_frame [OF out(1) TP [OF P(2)]])
  have "span (cur + 24) (4 * Suc (length xs)) \<subseteq> span cur 104" by (rule span_sub) (use o(2) in simp)
  then have of: "ofiles m (cur + 24) xs" by (intro ofiles_frame [OF o(1) out(1)] TP) (use P(1) in blast)
  have q: "tailq m 96 (l_queue L) ps" by (rule tailq_frame [OF o(3) out(1)]) (use links_queue out(2) in blast)
  have "span cur 104 \<union> span (read32 m (cur + 20)) 68 \<union> files_span xs \<subseteq> ?P" unfolding tf using P(1,2,6) by blast
  then have dis: "sorted_wrt (\<lambda>A B. A \<inter> B = {}) [?K, ?H', ?Q, span cur 104 \<union> span (read32 m (cur + 20)) 68 \<union> files_span xs]"
    using sub KQ QP g(3-5) by auto
  have pg: "read32 m (k + 0xFAC) = k + 0xF54" "read32 m (k + 0xF98) = spid s" "read32 m (k + 0xFA4) = 0"
      "proc_state m (k + 0xF98) = pstate_code READY" "read32 m (k + 0xFB0 + 4 * of_nat (length xs)) = 0"
    using page o(2) by (simp_all add: child_page_def)
  obtain m' ys where l: "fork_last L cur n pd m = Inr (sint (spid s), m')" "read32 m' n = spid s" "read32 m' (n + 4) = v2p pd"
      "read32 m' (n + 12) = 0" "proc_state m' n = pstate_code READY" "read32 m' (n + 92) = cur"
      "trap_regs m' (read32 m' (n + 20)) = (trap_regs m (read32 m (cur + 20)))\<lparr> eax := 0 \<rparr>"
      "ofiles m' (n + 24) ys" "list_all2 (same_file m m') xs ys" "tailq m' 96 (l_queue L) (ps @ [n])" "same_outside (?K \<union> ?H' \<union> Q) m m'"
    unfolding n_def Q_def by (rule fork_last_returns [OF pg i(1) big o(2) of q o(4) n0 dis])
  let ?U = "?K \<union> ?H' \<union> Q"
  have Q: "Q \<subseteq> ?Q" unfolding Q_def by (rule links_queue)
  have U: "?U \<inter> X = {}" if "?K \<inter> X = {}" "?H' \<inter> X = {}" "?Q \<inter> X = {}" for X using that Q by blast
  have js: "?U \<inter> regions_span js = {}" by (rule U) (use g(3,4) i(5,6) in blast)+
  have hn: "?U \<inter> span (child_map s) 4 = {}" by (rule U) (use g(10,11,15) sub in blast)+
  have "slist m' 12 (child_map s) js"
    by (rule slist_relink [OF i(4) same_outside_read32 [OF l(11)] l(11) js]) (use hn in blast)
  moreover have "region_of m' x = region_of m x" if "x \<in> set js" for x
    by (rule region_of_frame(1) [OF l(11)]) (use js that in \<open>auto simp: regions_span_def\<close>)
  moreover have "?U \<inter> vm_set m pd = {}"
  proof (rule U)
    have V: "vm_set m pd \<subseteq> S \<union> span pd 4096" using i(3) by (auto simp: vm_set_def)
    show "?K \<inter> vm_set m pd = {}" using V g(1,6) by blast
    show "?Q \<inter> vm_set m pd = {}" using V g(2,7) by blast
    have "?H \<inter> vm_set m pd = {}" using V g(12,13) by blast
    then show "?H' \<inter> vm_set m pd = {}" using sub by blast
  qed
  then have "user_page m' pd q = user_page m pd q" if "q < 2 ^ 19" for q by (rule vm_frame(3) [OF i(2) l(11) _ order_refl that])
  moreover have "same_file ?m m' x y" if "x \<in> set xs" "same_file m m' x y" for x y
    by (rule same_file_frame [OF that(2) same_outside_sym [OF out(1)] TP same_outside_refl [of "{}"]])
      (use that(1) P(6) in \<open>auto simp: files_span_def\<close>)
  then have "list_all2 (same_file ?m m') xs ys" using list.rel_mono_strong [OF l(9)] by blast
  moreover have "?U \<inter> M = {}" by (rule U) (use g(8,9,14) sub in blast)+
  ultimately show thesis using that [OF l(1-6)] l(7) l(8,10,11) tr by simp
qed

text \<open>C23: \<^verbatim>\<open>fork\<close> returns the identifier of the child to the parent, or dereferences a null pointer when fewer
  blocks are free than it may need. The child is ready and last in the run queue, has the registers of its
  parent with 0 in \<^verbatim>\<open>eax\<close>, a page directory that maps exactly the regions of the parent to fresh memory
  that holds the same bytes, a list of regions that says so, and copies of the open files; its \<^verbatim>\<open>mmap_base\<close>
  however is 0. Nothing of the parent changes.\<close>

theorem sys_fork_correct:
  assumes "fork_ok L s bs ((a, z) # hs) rs xs ps" and "0x18 * length rs + 0x10 * length xs < unat z"
    and "\<exists>b \<in> set (tl bs). image_size s \<le> snd b"
    and "m = km (sk s)" and "cur = curthread (sk s)" and "ts = map (region_of m) rs"
  shows "(sys_fork L s = Inl NullDeref \<and> length bs < 3 + table_need ts) \<or>
    (\<exists>n pd mem_at js ys m'. sys_fork L s = Inr (sint (spid s), s\<lparr> spid := spid s + 1, sk := (sk s)\<lparr> km := m' \<rparr> \<rparr>) \<and>
      read32 m' n = spid s \<and> read32 m' (n + 92) = cur \<and> proc_state m' n = pstate_code READY \<and> tailq m' 96 (l_queue L) (ps @ [n]) \<and>
      trap_regs m' (read32 m' (n + 20)) = (trap_regs m (read32 m (cur + 20)))\<lparr> eax := 0 \<rparr> \<and>
      read32 m' (n + 4) = v2p pd \<and> (\<forall>q < 2 ^ 19. user_page m' pd q = forked_pages ts mem_at (\<lambda>q. None) q) \<and>
      slist m' 12 (child_map s) (rev js) \<and> map (region_of m') js = clones ts mem_at \<and> copies m m' ts mem_at \<and>
      ofiles m' (n + 24) ys \<and> list_all2 (same_file m m') xs ys \<and> read32 m' (n + 12) = 0 \<and>
      span n 104 \<subseteq> owned (l_freelist L) bs \<and> span mem_at (unat (pg_roundup (image_size s))) \<subseteq> owned (l_freelist L) bs \<and>
      same_outside (owned (l_freelist L) bs \<union> owned (l_heap L) ((a, z) # hs) \<union> span (child_map s) 4 \<union> proc_links (l_queue L) ps) m m')"
proof -
  let ?fl = "l_freelist L" and ?F = "owned (l_freelist L) bs" and ?H = "owned (l_heap L) ((a, z) # hs)" and ?hn = "child_map s"
  let ?P = "parent_span s rs xs" and ?Q = "queue_span (l_queue L) ps" and ?l = "unat (pg_roundup (image_size s))"
  have o: "freelist_inv ?fl m bs" "image_size s \<noteq> 0" "fits_in ts ?l"
    and d: "?F \<inter> ?Q = {}" "?F \<inter> ?P = {}" "?H \<inter> ?Q = {}" "?H \<inter> ?P = {}" "span ?hn 4 \<inter> ?Q = {}" "span ?hn 4 \<inter> ?P = {}"
    using assms(1) unfolding assms(4-6) by (simp_all add: fork_ok_def Let_def)
  note P = parent_parts [where s = s and rs = rs and xs = xs, folded assms(4,5)]
  have c4: "span cur 4 \<subseteq> ?P" using P(1) span_mono [of 4 104 cur] by simp
  have ls: "?l \<le> 2 ^ 32" by (simp add: less_imp_le)
  show ?thesis
  proof (rule fork_allocates [OF o(1) [unfolded assms(4)] assms(3) o(2), folded assms(4,5)])
    show "span cur 4 \<inter> ?F = {}" "span (skpagedir s) 4096 \<inter> ?F = {}" "span (GETMEMMAP (smemtab s) m cur) 8 \<inter> ?F = {}"
      using c4 P(3,7) d(2) by blast+
    show ?thesis if "sys_fork L s = Inl NullDeref" "length bs \<le> 2" using that by simp
  next
    fix k mem_at pd m0 S
    let ?n = "k + 0xF98" and ?M = "span mem_at ?l" and ?K = "span k 0x1000"
    let ?R = "?P \<union> ?Q \<union> ?K" and ?rest = "\<lambda>(x, m). Inr (x, s\<lparr> spid := spid s + 1, sk := (sk s)\<lparr> km := m \<rparr> \<rparr>)"
    assume eq: "sys_fork L s = bindE (bindE (ends (fork_regions L (smemtab s) ?n pd (SLIST_FIRST m0 (GETMEMMAP (smemtab s) m0 cur)) mem_at m0))
          (\<lambda>r. bindE r (fork_last L cur ?n pd))) ?rest"
      and n0: "?n \<noteq> 0" and page: "child_page k (spid s) m0" and K: "?K \<subseteq> ?F"
      and S: "freelist_owns ?fl m0 S" "S \<subseteq> ?F" and pd: "pd_inv m0 pd S" "tables m0 pd = {}" "span pd 4096 \<subseteq> ?F"
      and none: "\<forall>q < 2 ^ 19. user_page m0 pd q = None" and o0: "same_outside ?F m m0" and M: "?M \<subseteq> ?F"
      and dis: "sorted_wrt (\<lambda>A B. A \<inter> B = {}) [S, span pd 4096, ?M, ?K]" and stock: "length bs \<le> 3 + freelist_stock ?fl m0"
    have hd: "(a, z) # hs \<noteq> []" "0x18 * length rs < unat (snd (hd ((a, z) # hs)))" using assms(2) by simp_all
    note hl = fork_loop_head [OF assms(1) hd o0 [unfolded assms(4)] S(1) pd(1,2) S(2) pd(3) M K page dis, folded assms(4,5), folded assms(6)]
    have T: "(S \<union> ?H \<union> span pd 4096 \<union> ?M \<union> span ?hn 4) \<inter> ?R = {}"
      using hl(1) by (simp add: fork_areas_def Int_Un_distrib2)
    from fork_regions_copies [OF hl(1,2), unfolded hl(3)] show ?thesis
    proof (elim disjE exE conjE)
      assume "fork_regions L (smemtab s) ?n pd (first0 rs) mem_at m0 = Some (Inl NullDeref)" "freelist_stock ?fl m0 < table_need ts"
      then show ?thesis using eq hl(4) stock by simp
    next
      fix m1 S' b t left' at' lnk' js
      assume l: "fork_regions L (smemtab s) ?n pd (first0 rs) mem_at m0 = Some (Inr m1)"
        "fork_inv L (smemtab s) ?n pd ?hn ?R S ?H ?M m1 S' ((b, t) # hs) at' left' lnk' [] (rev js @ [])"
        "owned (l_heap L) ((b, t) # hs) \<subseteq> ?H" "unat t + 0x18 * length rs = unat z" "map (region_of m1) js = clones ts mem_at"
        "copies m0 m1 ts mem_at" "\<forall>q < 2 ^ 19. user_page m1 pd q = forked_pages ts mem_at (user_page m0 pd) q"
        "same_outside (S \<union> ?H \<union> span pd 4096 \<union> ?M \<union> span ?hn 4) m0 m1"
      let ?T = "?F \<union> ?H \<union> span ?hn 4"
      have o1: "same_outside ?T m m1" by (rule same_outside_mono [OF same_outside_trans [OF o0 l(8)]]) (use S(2) pd(3) M in blast)
      have TP: "?T \<inter> (?P \<union> ?Q) = {}" unfolding Int_Un_distrib Int_Un_distrib2 using d by simp
      have page1: "child_page k (spid s) m1" by (rule child_page_frame [OF page l(8)]) (use T in blast)
      have big: "0x10 * length xs < unat t" using assms(2) l(4) by simp
      show ?thesis
      proof (rule fork_completes [OF assms(1) n0 K hl(1) l(2) l(3) big page1 o1 [unfolded assms(4)] TP, folded assms(4,5)])
        fix m' ys
        let ?U = "?K \<union> owned (l_heap L) ((b, t) # hs) \<union> proc_links (l_queue L) ps"
        assume f: "fork_last L cur ?n pd m1 = Inr (sint (spid s), m')" "read32 m' ?n = spid s" "read32 m' (?n + 4) = v2p pd"
          "read32 m' (?n + 12) = 0" "proc_state m' ?n = pstate_code READY" "read32 m' (?n + 92) = cur"
          "trap_regs m' (read32 m' (?n + 20)) = (trap_regs m (read32 m (cur + 20)))\<lparr> eax := 0 \<rparr>"
          "ofiles m' (?n + 24) ys" "list_all2 (same_file m m') xs ys" "tailq m' 96 (l_queue L) (ps @ [?n])"
          "slist m' 12 ?hn (rev js @ [])" "map (region_of m') (rev js @ []) = map (region_of m1) (rev js @ [])"
          "\<forall>q < 2 ^ 19. user_page m' pd q = user_page m1 pd q" "same_outside ?U m1 m'" "?U \<inter> ?M = {}"
        have "sys_fork L s = Inr (sint (spid s), s\<lparr> spid := spid s + 1, sk := (sk s)\<lparr> km := m' \<rparr> \<rparr>)"
          using eq hl(4) l(1) f(1) by simp
        moreover have "user_page m' pd q = forked_pages ts mem_at (\<lambda>q. None) q" if "q < 2 ^ 19" for q
          using f(13) l(7) that forked_pages_cong [of "user_page m0 pd" q "\<lambda>q. None" ts mem_at] none by simp
        moreover have "map (region_of m') js = clones ts mem_at" using f(12) l(5) by (simp add: rev_map [symmetric])
        moreover have "\<forall>t \<in> set ts. data_of t \<subseteq> ?P" using P(5) by (auto simp: assms(6))
        then have "copies m m1 ts mem_at" using copies_frame [OF l(6) o0 d(2)] by blast
        then have "copies m m' ts mem_at" by (rule copies_target [OF _ o(3) ls f(14,15)])
        moreover have "span ?n 104 \<subseteq> ?F" using K span_sub [of "0xF98" 104 "0x1000" k] by simp
        moreover have "same_outside (?F \<union> ?H \<union> span ?hn 4 \<union> proc_links (l_queue L) ps) m m'"
          by (rule same_outside_mono [OF same_outside_trans [OF o1 f(14)]]) (use K l(3) in blast)
        ultimately show ?thesis using f(2-11) M by (intro disjI2 exI [of _ ?n] exI [of _ pd] exI [of _ mem_at] exI [of _ js] exI [of _ ys] exI [of _ m']) simp
      qed
    qed
  qed
qed

text \<open>A process with one region of a page, whose first byte is 0x55, and one open file, about to fork with four
  blocks free: its structure is at 0x80040000, its trap frame at 0x80041000, the region at 0x80043000.\<close>

definition demo_blocks4 :: blocks where
  "demo_blocks4 = [(0x80002000, 0x1000), (0x80004000, 0x1000), (0x80006000, 0x1000), (0x80008000, 0x1000)]"

definition demo_fork :: mem where
  "demo_fork = fold (\<lambda>(a, v) m. write32 m a v)
     [(0x80000100, 0x80002000), (0x80002000, 0x1000), (0x80002004, 0x80004000), (0x80002008, 0x80000100),
      (0x80004000, 0x1000), (0x80004004, 0x80006000), (0x80004008, 0x80002004),
      (0x80006000, 0x1000), (0x80006004, 0x80008000), (0x80006008, 0x80004004),
      (0x80008000, 0x1000), (0x80008004, 0), (0x80008008, 0x80006004),
      (0x80000200, 0x80010000), (0x80010000, 0x100), (0x80010004, 0), (0x80000304, 0x80000300),
      (0x80040000, 1), (0x80040004, 0x1000), (0x80040014, 0x80041000), (0x80040018, 0x80042000), (0x80041030, 0x1234),
      (0x80020000, 0x80043000), (0x80020004, 0x1000), (0x80043000, 0x1000), (0x80043004, 0x50000), (0x80043008, 0x1000),
      (0x80050000, 0x55)] (\<lambda>_. 0)"

definition demo_parent :: system where
  "demo_parent = \<lparr> sk = demo_kernel\<lparr> km := demo_fork, curthread := 0x80040000 \<rparr>, spid = 2, smemtab = 0x80020000, skpagedir = 0x80001000,
     sinfo = demo_kinfo \<rparr>"

lemma demo_parent_simps [simp]:
  "km (sk demo_parent) = demo_fork" "curthread (sk demo_parent) = 0x80040000" "spid demo_parent = 2" "smemtab demo_parent = 0x80020000"
  "skpagedir demo_parent = 0x80001000"
  by (simp_all add: demo_parent_def)

lemma zero_memory: "read32 (\<lambda>_. 0) a = 0"
  by (simp add: read32_def)

lemma demo_fork_reads:
  "GETMEMMAP 0x80020000 demo_fork 0x80040000 = 0x80020000" "image_size demo_parent = 0x1000" "child_map demo_parent = 0x80020008"
  "region_of demo_fork 0x80043000 = (0x1000, 0x50000, 0x1000)" "read32 demo_fork 0x80040014 = 0x80041000"
  "read32 demo_fork 0x80020008 = 0" "read32 demo_fork 0x80041030 = 0x1234"
  by (simp_all add: image_size_def child_map_def GETMEMMAP_def region_of_def demo_fork_def zero_memory mem_simps apart_def)

lemma demo_fork_lists:
  "freelist_inv 0x80000100 demo_fork demo_blocks4" "heap_inv 0x80000200 demo_fork [(0x80010000, 0x100)]"
  "slist demo_fork 12 0x80020000 [0x80043000]" "ofiles demo_fork 0x80040018 [0x80042000]" "tailq demo_fork 96 0x80000300 []"
  by (simp_all add: freelist_inv_def demo_blocks4_def dlist_def block_ok_def block_apart_def heap_inv_def slist_def chunk_ok_def tailq_def
      aligned_def demo_fork_def zero_memory mem_simps apart_def)

lemma demo_fork_ok: "fork_ok demo_link demo_parent demo_blocks4 [(0x80010000, 0x100)] [0x80043000] [0x80042000] []"
proof -
  have l: "l_freelist demo_link = 0x80000100" "l_heap demo_link = 0x80000200" "l_queue demo_link = 0x80000300" by (simp_all add: demo_link_def)
  let ?F = "owned 0x80000100 demo_blocks4" and ?H = "owned 0x80000200 [(0x80010000, 0x100)]"
  have r: "pg_roundup 0x1000 = 0x1000" "pg_rounddown 0x1000 = 0x1000" by (simp_all add: pg_roundup_def roundup_def pg_rounddown_def rounddown_def)
  have F: "?F = span 0x80000100 4 \<union> span 0x80002000 0x1000 \<union> span 0x80004000 0x1000 \<union> span 0x80006000 0x1000 \<union> span 0x80008000 0x1000"
      "?H = span 0x80000200 4 \<union> span 0x80010000 0x100" "queue_span 0x80000300 [] = span 0x80000300 8"
      "parent_span demo_parent [0x80043000] [0x80042000] = span 0x80040000 104 \<union> span 0x80041000 68 \<union> span 0x80020000 8 \<union> span 0x80043000 16 \<union>
        span 0x80050000 0x1000 \<union> span 0x80042000 12 \<union> span 0x80001000 4096"
    by (auto simp: owned_def demo_blocks4_def block_span_def queue_span_def parent_span_def regions_span_def files_span_def data_of_def
        demo_fork_reads p2v_def KERNEL_OFFSET_def)
  have "sorted_wrt (\<lambda>A B. A \<inter> B = {}) [?F, ?H, span 0x80020008 4, queue_span 0x80000300 [], parent_span demo_parent [0x80043000] [0x80042000]]"
    unfolding F sorted_wrt.simps list.set ball_simps Int_Un_distrib Int_Un_distrib2 Un_empty
    by (intro conjI apart_span TrueI) (simp_all add: apart_def)
  moreover have "span 0x80000100 4 \<subseteq> high" "span 0x80002000 0x1000 \<subseteq> high" "span 0x80004000 0x1000 \<subseteq> high"
      "span 0x80006000 0x1000 \<subseteq> high" "span 0x80008000 0x1000 \<subseteq> high"
    by (rule span_high; simp)+
  then have "?F \<subseteq> high" unfolding F by blast
  ultimately show ?thesis
    unfolding fork_ok_def Let_def l using demo_fork_lists by (simp add: demo_fork_reads r)
qed

theorem sys_fork_correct_witness:
  "\<exists>n pd mem_at m'. sys_fork demo_link demo_parent = Inr (2, demo_parent\<lparr> spid := 3, sk := (sk demo_parent)\<lparr> km := m' \<rparr> \<rparr>) \<and>
     eip (trap_regs m' (read32 m' (n + 20))) = 0x1234 \<and> eax (trap_regs m' (read32 m' (n + 20))) = 0 \<and> tailq m' 96 0x80000300 [n] \<and>
     user_page m' pd 1 = Some (pg_rounddown (v2p mem_at) OR 7) \<and> m' mem_at = 0x55"
proof -
  let ?ts = "[(0x1000, 0x50000, 0x1000)] :: vmr list" and ?n = "\<lambda>q :: nat. None :: u32 option"
  have r: "pg_roundup 0x1000 = 0x1000" "pg_rounddown 0x1000 = 0x1000" by (simp_all add: pg_roundup_def roundup_def pg_rounddown_def rounddown_def)
  have ts: "?ts = map (region_of demo_fork) [0x80043000]" by (simp add: demo_fork_reads)
  have t: "table_need ?ts = 1" "forked_pages ?ts a ?n 1 = Some (pg_rounddown (v2p a) OR 7)" for a
    by (simp_all add: first_page_def page_count_def r user_page_flags)
  have b: "\<exists>b \<in> set (tl demo_blocks4). image_size demo_parent \<le> snd b" by (simp add: demo_fork_reads demo_blocks4_def)
  have d: "demo_fork 0x80050000 = 0x55" by (simp add: demo_fork_def write32_def)
  have "length demo_blocks4 = 4" by (simp add: demo_blocks4_def)
  with sys_fork_correct [OF demo_fork_ok _ b _ _ ts, of "0x80040000"] t(1) obtain n pd mem_at m' where
    c: "sys_fork demo_link demo_parent = Inr (sint (2 :: u32), demo_parent\<lparr> spid := 2 + 1, sk := (sk demo_parent)\<lparr> km := m' \<rparr> \<rparr>)"
      "tailq m' 96 (l_queue demo_link) ([] @ [n])"
      "trap_regs m' (read32 m' (n + 20)) = (trap_regs demo_fork (read32 demo_fork (0x80040000 + 20)))\<lparr> eax := 0 \<rparr>"
      "\<forall>q < 2 ^ 19. user_page m' pd q = forked_pages ?ts mem_at ?n q" "copies demo_fork m' ?ts mem_at"
    by auto
  have "user_page m' pd 1 = Some (pg_rounddown (v2p mem_at) OR 7)" using c(4) t(2) by simp
  moreover have "m' mem_at = 0x55" using c(5) d by (auto simp: p2v_def KERNEL_OFFSET_def dest: spec [of _ 0])
  moreover have "eip (trap_regs m' (read32 m' (n + 20))) = 0x1234" "eax (trap_regs m' (read32 m' (n + 20))) = 0"
    unfolding c(3) by (simp_all add: demo_fork_reads trap_regs_def)
  ultimately show ?thesis using c(1,2) by (intro exI [of _ n] exI [of _ pd] exI [of _ mem_at] exI [of _ m']) (simp add: demo_link_def)
qed

end
