(* ===== verification/Loader.thy ===== *)
theory Loader
  imports Sys_Fork
begin

text \<open>
  The ELF loader: what \<^verbatim>\<open>loadelf\<close> of \<^verbatim>\<open>kernel/proc.c\<close> leaves behind. \<open>loaded\<close> says that the memory for the segments
  holds the bytes of the file and zeros elsewhere; the regions and the translation of user pages are those of
  \<open>Fork\<close>, for the segments and the stack instead of the regions of a parent.
\<close>

section \<open>The reference\<close>

text \<open>A program header, the fields that the loader reads.\<close>

record proghdr =
  p_type :: u32
  p_off :: u32
  p_va :: u32
  p_filesz :: u32
  p_memsz :: u32

definition proghdr_at :: "mem \<Rightarrow> u32 \<Rightarrow> proghdr" where
  "proghdr_at m ph = \<lparr> p_type = read32 m ph, p_off = read32 m (ph + 4), p_va = read32 m (ph + 8),
     p_filesz = read32 m (ph + 16), p_memsz = read32 m (ph + 20) \<rparr>"

fun proghdrs :: "mem \<Rightarrow> u32 \<Rightarrow> nat \<Rightarrow> proghdr list" where
  "proghdrs m ph 0 = []"
| "proghdrs m ph (Suc i) = proghdr_at m ph # proghdrs m (ph + 32) i"

definition seg_len :: "proghdr \<Rightarrow> u32" where
  "seg_len h = pg_roundup (p_memsz h + (p_va h AND 0xFFF))"

definition seg_region :: "proghdr \<Rightarrow> vmr" where
  "seg_region h = (p_va h, 0, seg_len h)"

definition loadable :: "proghdr list \<Rightarrow> proghdr list" where
  "loadable hs = filter (\<lambda>h. p_type h = 1) hs"

text \<open>The byte at offset \<open>k\<close> of the pages of a segment.\<close>

definition seg_byte :: "mem \<Rightarrow> u32 \<Rightarrow> proghdr \<Rightarrow> nat \<Rightarrow> u8" where
  "seg_byte m bin h k =
     (let d = unat (p_va h mod 0x1000) in
      if d \<le> k \<and> k < d + unat (p_filesz h) then m (bin + p_off h + of_nat (k - d)) else 0)"

fun loaded_segs :: "mem \<Rightarrow> mem \<Rightarrow> u32 \<Rightarrow> proghdr list \<Rightarrow> u32 \<Rightarrow> bool" where
  "loaded_segs m m' bin [] a \<longleftrightarrow> (\<forall>k < 4096. m' (a + of_nat k) = 0)"
| "loaded_segs m m' bin (h # hs) a \<longleftrightarrow>
     (\<forall>k < unat (seg_len h). m' (a + of_nat k) = seg_byte m bin h k) \<and> loaded_segs m m' bin hs (a + seg_len h)"

text \<open>A segment that the loader can place: it lies below the stack, what is in the file fits into its memory, and
  its pages are as many as those of a segment of its size that starts on a page, because the loader moves on by
  that many. The pages of all segments and of the stack have to fit into the memory that was allocated.\<close>

definition seg_ok :: "proghdr \<Rightarrow> bool" where
  "seg_ok h \<longleftrightarrow> unat (p_memsz h) \<le> 0x7FFFF000 \<and> unat (p_filesz h) \<le> unat (p_memsz h) \<and> seg_len h = pg_roundup (p_memsz h) \<and>
     unat (pg_rounddown (p_va h)) + unat (seg_len h) \<le> 2 ^ 31"

fun segs_fit :: "proghdr list \<Rightarrow> nat \<Rightarrow> bool" where
  "segs_fit [] n \<longleftrightarrow> 4096 \<le> n"
| "segs_fit (h # hs) n \<longleftrightarrow> seg_ok h \<and> unat (seg_len h) \<le> n \<and> segs_fit hs (n - unat (seg_len h))"

definition seg_data :: "u32 \<Rightarrow> proghdr \<Rightarrow> u32 set" where
  "seg_data bin h = span (bin + p_off h) (unat (p_filesz h))"

lemma offset_in_page: "unat (x mod 0x1000 :: u32) = unat x mod 4096"
  by (simp add: unat_mod)

lemma low_bits: "x AND 0xFFF = x mod (0x1000 :: u32)"
  using take_bit_eq_mask [of 12 x] take_bit_eq_mod [of 12 x] by (simp add: mask_eq_exp_minus_1)

lemma seg_inside:
  assumes "seg_ok h"
  shows "unat (p_va h mod 0x1000) + unat (p_filesz h) \<le> unat (seg_len h)" and "pg_roundup (seg_len h) = seg_len h"
    and "unat (p_va h mod 0x1000) < 4096"
proof -
  let ?o = "unat (p_va h mod 0x1000)"
  show o: "?o < 4096" by (simp add: offset_in_page)
  have m: "unat (p_memsz h) \<le> 0x7FFFF000" "unat (p_filesz h) \<le> unat (p_memsz h)" using assms by (simp_all add: seg_ok_def)
  have u: "unat (p_memsz h + (p_va h AND 0xFFF)) = unat (p_memsz h) + ?o"
    unfolding low_bits using m(1) o by (intro u32_add_small) linarith
  have "unat (p_memsz h) + ?o \<le> 0xFFFFF000" using m(1) o by linarith
  then show "?o + unat (p_filesz h) \<le> unat (seg_len h)"
    using pg_roundup_bounds(1) [of "p_memsz h + (p_va h AND 0xFFF)"] m(2) u by (simp add: seg_len_def)
  show "pg_roundup (seg_len h) = seg_len h" by (rule pg_roundup_id) (simp add: seg_len_def aligned_pg_roundup)
qed

section \<open>One segment\<close>

text \<open>A region is filled in and put on the list.\<close>

definition add_region :: "u32 \<Rightarrow> u32 \<Rightarrow> u32 \<Rightarrow> u32 \<Rightarrow> u32 \<Rightarrow> mem \<Rightarrow> mem" where
  "add_region r va pa len hn m = SLIST_INSERT_HEAD (write32 (write32 (write32 m r va) (r + 4) pa) (r + 8) len) 12 hn r"

lemma add_region_facts:
  fixes r hn va pa len :: u32 and m :: mem
  assumes "span r 16 \<inter> span hn 4 = {}"
  defines "m' \<equiv> add_region r va pa len hn m"
  shows "region_of m' r = (va, pa, len)" and "read32 m' (r + 12) = read32 m hn" and "read32 m' hn = r"
    and "same_outside (span r 16 \<union> span hn 4) m m'"
proof -
  have R: "span (r + i) 4 \<subseteq> span r 16" if "unat i + 4 \<le> 16" for i by (rule span_sub [OF that])
  have a: "apart (r + i) 4 hn 4" if "unat i + 4 \<le> 16" for i using R [OF that] assms(1) by (auto simp: apart_iff_span)
  from a [of 0] a [of 4] a [of 8] a [of 12]
  show "region_of m' r = (va, pa, len)" "read32 m' (r + 12) = read32 m hn" "read32 m' hn = r"
    by (simp_all add: m'_def add_region_def SLIST_INSERT_HEAD_def region_of_def mem_simps apart_sym [of hn] apart_def [of 0] apart_def [of 4]
        apart_def [of 8] apart_def [of 12])
  have "same_outside (span r 16 \<union> span hn 4) m (write32 (write32 (write32 m r va) (r + 4) pa) (r + 8) len)"
    using R [of 0] R [of 4] R [of 8] by (intro same_outside_write32_in same_outside_refl) auto
  from same_outside_trans [OF this SLIST_INSERT_HEAD_outside, of r 12 hn] show "same_outside (span r 16 \<union> span hn 4) m m'"
    unfolding m'_def add_region_def by (rule same_outside_mono) (use R [of 12] in auto)
qed

lemma copied_segment:
  fixes mem_at bin :: u32
  assumes ok: "seg_ok h" and zero: "\<forall>k < unat (seg_len h). m (mem_at + of_nat k) = 0"
    and d: "span mem_at (unat (seg_len h)) \<inter> seg_data bin h = {}" and m0: "\<forall>x \<in> seg_data bin h. m x = m0 x"
  defines "m' \<equiv> copied m (mem_at + p_va h mod 0x1000) (bin + p_off h) (unat (p_filesz h))"
  shows "memmove m (mem_at + p_va h mod 0x1000) (bin + p_off h) (p_filesz h) = m'"
    and "\<forall>k < unat (seg_len h). m' (mem_at + of_nat k) = seg_byte m0 bin h k"
    and "same_outside (span mem_at (unat (seg_len h))) m m'"
proof -
  let ?o = "p_va h mod 0x1000" and ?n = "unat (p_filesz h)"
  note s = seg_inside [OF ok]
  have sub: "span (mem_at + ?o) ?n \<subseteq> span mem_at (unat (seg_len h))" by (rule span_sub [OF s(1)])
  then show "same_outside (span mem_at (unat (seg_len h))) m m'" unfolding m'_def by (rule same_outside_mono [OF same_outside_copied])
  have "span (mem_at + ?o) ?n \<inter> span (bin + p_off h) ?n = {}" using sub d by (auto simp: seg_data_def)
  then have "apart (mem_at + ?o) ?n (bin + p_off h) ?n"
    by (cases "?n = 0") (auto simp: apart_iff_span, simp add: apart_def)
  then show "memmove m (mem_at + ?o) (bin + p_off h) (p_filesz h) = m'" unfolding m'_def by (rule memmove_copied)
  have "m' (mem_at + of_nat k) = seg_byte m0 bin h k" if k: "k < unat (seg_len h)" for k
  proof -
    have k32: "k < 4294967296" using k unat_lt32 [of "seg_len h"] by linarith
    have e: "mem_at + of_nat k - (mem_at + ?o) = of_nat k - ?o" by simp
    have u: "unat (of_nat k :: u32) = k" using k32 by (simp add: unat_of_nat take_bit_nat_eq_self)
    show ?thesis
    proof (cases "unat ?o \<le> k")
      case True
      have "?o \<le> of_nat k" using True u by (simp add: word_le_nat_alt)
      then have uk: "unat (of_nat k - ?o) = k - unat ?o" using u u32_sub_small [of ?o "of_nat k"] by simp
      have ok: "of_nat (k - unat ?o) = (of_nat k - ?o :: u32)" using True by (simp add: of_nat_diff)
      have "m (bin + p_off h + (of_nat k - ?o)) = m0 (bin + p_off h + (of_nat k - ?o))" if "k < unat ?o + ?n"
      proof -
        have "bin + p_off h + (of_nat k - ?o) \<in> seg_data bin h" using that True uk by (simp add: seg_data_def span_def)
        then show ?thesis using m0 by blast
      qed
      then show ?thesis using True zero k uk unfolding m'_def copied_def e by (auto simp: seg_byte_def Let_def ok)
    next
      case False
      have lt: "(of_nat k :: u32) < ?o" using False u by (simp add: word_less_nat_alt)
      have "unat (of_nat k - ?o) = 4294967296 + k - unat ?o" using lt u by (simp add: u32_sub word_less_nat_alt)
      moreover have "?n + 4096 \<le> 4294967296" using ok by (simp add: seg_ok_def)
      ultimately have "\<not> unat (of_nat k - ?o) < ?n" using s(3) False by linarith
      then show ?thesis using zero k False unfolding m'_def copied_def e by (simp add: seg_byte_def Let_def)
    qed
  qed
  then show "\<forall>k < unat (seg_len h). m' (mem_at + of_nat k) = seg_byte m0 bin h k" by blast
qed

section \<open>The loop over the program headers\<close>

text \<open>What holds at its head, with \<open>left\<close> bytes of the zeroed memory left from \<open>mem_at\<close> on, \<open>room\<close> unused elements of
  the array of regions from \<open>c\<close> on and the regions \<open>ks\<close> already on the list \<open>hn\<close>. \<open>S0\<close>, \<open>G\<close> and \<open>M0\<close> are the memory of the page
  allocator, the array of regions and the memory for the segments.\<close>

definition load_inv :: "u32 \<Rightarrow> u32 \<Rightarrow> u32 \<Rightarrow> u32 set \<Rightarrow> u32 set \<Rightarrow> u32 set \<Rightarrow> mem \<Rightarrow> u32 set \<Rightarrow> u32 \<Rightarrow> nat \<Rightarrow> u32 \<Rightarrow> nat \<Rightarrow> u32 list \<Rightarrow> bool" where
  "load_inv fl pd hn S0 G M0 m S mem_at left c room ks \<longleftrightarrow>
     freelist_owns fl m S \<and> S \<subseteq> S0 \<and> pd_inv m pd S \<and> tables m pd \<subseteq> S0 \<and> left \<le> 2 ^ 32 \<and> span mem_at left \<subseteq> M0 \<and>
     (\<forall>k < left. m (mem_at + of_nat k) = 0) \<and> 16 * room \<le> 2 ^ 32 \<and> span c (16 * room) \<subseteq> G \<and> 0 \<notin> G \<and>
     slist m 12 hn ks \<and> regions_span ks \<subseteq> G \<and> regions_span ks \<inter> span c (16 * room) = {}"

lemma span_elem: "k < n \<Longrightarrow> n \<le> 4294967296 \<Longrightarrow> a + of_nat k \<in> span a n"
  by (simp add: span_def unat_of_nat take_bit_nat_eq_self)

lemma array_split:
  fixes c :: u32
  assumes "16 * Suc room \<le> 2 ^ 32"
  shows "span c (16 * Suc room) = span c 16 \<union> span (c + 16) (16 * room)" and "span c 16 \<inter> span (c + 16) (16 * room) = {}"
  using span_split [of 16 "16 * Suc room" c] span_split_disjoint [of 16 "16 * Suc room" c] assms by simp_all

lemma place_region:
  fixes c len mem_at hn pd va :: u32
  assumes ar: "fork_areas S0 G pd M0 hn R" and inv: "load_inv fl pd hn S0 G M0 m S mem_at left c (Suc room) ks"
    and fit: "unat (pg_rounddown va) + unat len \<le> 2 ^ 31" "pg_roundup len = len" "unat len \<le> left"
  defines "A \<equiv> span c 16 \<union> span hn 4 \<union> span mem_at (unat len)"
  assumes o1: "same_outside A m m1"
  obtains (fail) "alloc_pt (alloc_pages fl) pd va (v2p mem_at) len USER_PAGE m1 = Inl NullDeref" and "freelist_stock fl m < table_need [(va, 0, len)]"
  | (placed) m2 S' where "alloc_pt (alloc_pages fl) pd va (v2p mem_at) len USER_PAGE m1 = Inr m2" and "same_outside (S \<union> vm_set m pd) m1 m2"
      and "\<And>m3. same_outside A m2 m3 \<Longrightarrow> read32 m3 hn = c \<Longrightarrow> read32 m3 (c + 12) = read32 m hn \<Longrightarrow>
        load_inv fl pd hn S0 G M0 m3 S' (mem_at + len) (left - unat len) (c + 16) room (c # ks) \<and>
        (\<forall>q < 2 ^ 19. user_page m3 pd q = forked_pages [(va, 0, len)] mem_at (user_page m pd) q) \<and>
        same_outside (S0 \<union> span pd 4096 \<union> A) m m3 \<and> freelist_stock fl m \<le> freelist_stock fl m3 + table_need [(va, 0, len)]"
proof -
  let ?V = "vm_set m pd" and ?q = "first_page va" and ?n = "page_count len"
  have i: "freelist_owns fl m S" "S \<subseteq> S0" "pd_inv m pd S" "tables m pd \<subseteq> S0" "left \<le> 2 ^ 32" "span mem_at left \<subseteq> M0"
      "\<forall>k < left. m (mem_at + of_nat k) = 0" "16 * Suc room \<le> 2 ^ 32" "span c (16 * Suc room) \<subseteq> G" "0 \<notin> G"
      "slist m 12 hn ks" "regions_span ks \<subseteq> G" "regions_span ks \<inter> span c (16 * Suc room) = {}"
    using inv by (simp_all add: load_inv_def)
  have g: "S0 \<inter> G = {}" "S0 \<inter> span pd 4096 = {}" "S0 \<inter> M0 = {}" "S0 \<inter> span hn 4 = {}" "G \<inter> span pd 4096 = {}" "G \<inter> M0 = {}"
      "G \<inter> span hn 4 = {}" "span pd 4096 \<inter> M0 = {}" "span pd 4096 \<inter> span hn 4 = {}" "M0 \<inter> span hn 4 = {}" "S0 \<subseteq> high"
    using ar by (simp_all add: fork_areas_def)
  note sp = array_split [OF i(8), of c]
  have M: "span mem_at left = span mem_at (unat len) \<union> span (mem_at + len) (left - unat len)"
    and Md: "span mem_at (unat len) \<inter> span (mem_at + len) (left - unat len) = {}"
    using span_split [OF fit(3), of mem_at] span_split_disjoint [OF fit(3) i(5)] by simp_all
  have cG: "span c 16 \<subseteq> G" using sp(1) i(9) by blast
  have V: "?V \<subseteq> S0 \<union> span pd 4096" using i(4) by (auto simp: vm_set_def)
  have lM: "span mem_at (unat len) \<subseteq> M0" using M i(6) by blast
  have A0: "A \<inter> (S0 \<union> span pd 4096) = {}" unfolding A_def using cG lM g(1,3,4,5,8,9) by blast
  have AV: "A \<inter> ?V = {}" using A0 V by blast
  have AS: "A \<inter> S = {}" using A0 i(2) by blast
  have fo1: "freelist_owns fl m1 S" by (rule pages.owns_frame [OF i(1) o1 AS])
  have st1: "freelist_stock fl m1 = freelist_stock fl m" by (rule pages.stock_frame [OF i(1) o1 AS])
  note vm1 = vm_frame [OF i(3) o1 AV order_refl]
  have fit': "unat (pg_rounddown va) + unat (pg_roundup len) \<le> 2 ^ 31" using fit(1,2) by simp
  have mis: "missing m1 pd ?q ?n = missing m pd ?q ?n"
  proof (rule vm1(5))
    have "4096 * ?q + 4096 * ?n \<le> 2 ^ 31" using fit' by (simp add: first_page_def page_count_def)
    then show "?q + ?n \<le> 2 ^ 19" by simp
  qed
  from alloc_pt_maps [OF fo1 subset_trans [OF i(2) g(11)] vm1(1) user_flags fit', of "v2p mem_at", folded first_page_def page_count_def]
  show thesis
  proof (elim disjE exE conjE)
    assume "freelist_stock fl m1 < card (missing m1 pd ?q ?n)" "alloc_pt (alloc_pages fl) pd va (v2p mem_at) len USER_PAGE m1 = Inl NullDeref"
    then show thesis using fail st1 mis missing_bound [of m pd ?q ?n] by simp
  next
    fix m2 S'
    assume p: "alloc_pt (alloc_pages fl) pd va (v2p mem_at) len USER_PAGE m1 = Inr m2" "freelist_owns fl m2 S'" "S' \<subseteq> S" "pd_inv m2 pd S'"
      "same_outside (S \<union> span pd 4096 \<union> tables m1 pd) m1 m2" "tables m2 pd \<subseteq> S \<union> span pd 4096 \<union> tables m1 pd"
      "\<forall>q < 2 ^ 19. user_page m2 pd q = (if ?q \<le> q \<and> q < ?q + ?n
         then Some ((pg_rounddown (v2p mem_at) + 4096 * of_nat (q - ?q)) OR USER_PAGE) else user_page m1 pd q)"
      "freelist_stock fl m1 \<le> freelist_stock fl m2 + card (missing m1 pd ?q ?n)"
    have o2: "same_outside (S \<union> ?V) m1 m2" using p(5) unfolding vm1(4) vm_set_def by (simp add: Un_assoc)
    have t2: "tables m2 pd \<subseteq> S0"
    proof -
      have "tables m2 pd \<inter> span pd 4096 = {}" using p(4) by (auto simp: pd_inv_def)
      then show ?thesis using p(6) i(2,4) unfolding vm1(4) by blast
    qed
    show thesis
    proof (rule placed [OF p(1) o2])
      fix m3 assume o3: "same_outside A m2 m3" and h3: "read32 m3 hn = c" "read32 m3 (c + 12) = read32 m hn"
      have V2: "vm_set m2 pd \<subseteq> S0 \<union> span pd 4096" using t2 by (auto simp: vm_set_def)
      have AV2: "A \<inter> vm_set m2 pd = {}" using A0 V2 by blast
      have AS': "A \<inter> S' = {}" using AS p(3) by blast
      note vm3 = vm_frame [OF p(4) o3 AV2 order_refl]
      have o: "same_outside (S0 \<union> span pd 4096 \<union> A) m m3"
        by (rule same_outside_mono [OF same_outside_trans [OF same_outside_trans [OF o1 o2] o3]]) (use i(2) V in blast)
      have z: "m3 (mem_at + len + of_nat k) = 0" if "k < left - unat len" for k
      proof -
        have "left - unat len \<le> 4294967296" using i(5) by simp
        then have x: "mem_at + len + of_nat k \<in> span (mem_at + len) (left - unat len)" by (rule span_elem [OF that])
        have "span (mem_at + len) (left - unat len) \<subseteq> M0" using M i(6) by blast
        then have "mem_at + len + of_nat k \<notin> S0 \<union> span pd 4096 \<union> A" using x Md g(3,6,8,10) cG unfolding A_def by blast
        then have "m3 (mem_at + len + of_nat k) = m (mem_at + of_nat (unat len + k))"
          using byte_frame [OF o] by (simp add: add.assoc)
        moreover have "unat len + k < left" using that by simp
        then have "m (mem_at + of_nat (unat len + k)) = 0" using i(7) by blast
        ultimately show ?thesis by (rule trans)
      qed
      have T: "(S0 \<union> span pd 4096 \<union> A) \<inter> regions_span ks = {}"
        using i(12,13) sp(1) g(1,5,6,7) lM unfolding A_def by blast
      have "slist m3 12 (c + 12) ks" by (rule slist_relink [OF i(11) h3(2) o T])
      moreover have "c \<in> span c 16" by (simp add: span_def)
      then have "c \<noteq> 0" using cG i(10) by blast
      ultimately have sl: "slist m3 12 hn (c # ks)" using h3(1) by (simp add: slist_Cons)
      have sub: "span (mem_at + len) (left - unat len) \<subseteq> M0" using M i(6) by blast
      have rs: "regions_span (c # ks) \<subseteq> G" "regions_span (c # ks) \<inter> span (c + 16) (16 * room) = {}" "span (c + 16) (16 * room) \<subseteq> G"
        using i(9,12,13) sp cG by (auto simp: regions_span_def)
      have "left - unat len \<le> 4294967296" using i(5) by simp
      then have inv3: "load_inv fl pd hn S0 G M0 m3 S' (mem_at + len) (left - unat len) (c + 16) room (c # ks)"
        unfolding load_inv_def using pages.owns_frame [OF p(2) o3 AS'] subset_trans [OF p(3) i(2)] i(5,8,10) vm3(1,4) t2 sub z rs sl
        by simp
      have "user_page m3 pd q = forked_pages [(va, 0, len)] mem_at (user_page m pd) q" if "q < 2 ^ 19" for q
        using p(7) vm3(3) vm1(3) that by simp
      moreover have "freelist_stock fl m \<le> freelist_stock fl m3 + table_need [(va, 0, len)]"
        using p(8) st1 mis pages.stock_frame [OF p(2) o3 AS'] missing_bound [of m pd ?q ?n] by simp
      ultimately show "load_inv fl pd hn S0 G M0 m3 S' (mem_at + len) (left - unat len) (c + 16) room (c # ks) \<and>
        (\<forall>q < 2 ^ 19. user_page m3 pd q = forked_pages [(va, 0, len)] mem_at (user_page m pd) q) \<and>
        same_outside (S0 \<union> span pd 4096 \<union> A) m m3 \<and> freelist_stock fl m \<le> freelist_stock fl m3 + table_need [(va, 0, len)]"
        using inv3 o by blast
    qed
  qed
qed

lemma proghdr_frame:
  assumes "same_outside T m m'" and "T \<inter> span ph 32 = {}"
  shows "proghdr_at m' ph = proghdr_at m ph"
proof -
  have "read32 m' (ph + i) = read32 m (ph + i)" if "unat i + 4 \<le> 32" for i
    using same_outside_read32 [OF assms(1)] span_sub [OF that, of ph] assms(2) by blast
  from this [of 0] this [of 4] this [of 8] this [of 16] this [of 20] show ?thesis by (simp add: proghdr_at_def)
qed

lemma load_segment_loads:
  fixes c mem_at pd bin ph p :: u32
  assumes ar: "fork_areas S0 G pd M0 hn R" and inv: "load_inv (l_freelist L) pd hn S0 G M0 m S mem_at left c (Suc room) ks"
    and hdr: "proghdr_at m ph = h" and ok: "seg_ok h" "unat (seg_len h) \<le> left" and gm: "GETMEMMAP memtab m p = hn"
    and R: "span ph 32 \<subseteq> R" "seg_data bin h \<subseteq> R" "span p 4 \<subseteq> R"
  defines "T \<equiv> S0 \<union> span pd 4096 \<union> (span c 16 \<union> span hn 4 \<union> span mem_at (unat (seg_len h)))"
  obtains (fail) "load_segment L memtab p pd bin ph c mem_at m = Inl NullDeref" and "freelist_stock (l_freelist L) m < table_need [seg_region h]"
  | (load) m' S' where "load_segment L memtab p pd bin ph c mem_at m = Inr m'"
      and "load_inv (l_freelist L) pd hn S0 G M0 m' S' (mem_at + seg_len h) (left - unat (seg_len h)) (c + 16) room (c # ks)"
      and "\<forall>q < 2 ^ 19. user_page m' pd q = forked_pages [seg_region h] mem_at (user_page m pd) q"
      and "\<forall>k < unat (seg_len h). m' (mem_at + of_nat k) = seg_byte m bin h k" and "region_of m' c = (p_va h, v2p mem_at, seg_len h)"
      and "same_outside T m m'" and "freelist_stock (l_freelist L) m \<le> freelist_stock (l_freelist L) m' + table_need [seg_region h]"
proof -
  let ?M = "span mem_at (unat (seg_len h))" and ?A = "span c 16 \<union> span hn 4" and ?fl = "l_freelist L"
  have i: "span mem_at left \<subseteq> M0" "span c (16 * Suc room) \<subseteq> G" "16 * Suc room \<le> 2 ^ 32" "\<forall>k < left. m (mem_at + of_nat k) = 0"
      "S \<subseteq> S0" "tables m pd \<subseteq> S0" "left \<le> 2 ^ 32"
    using inv by (simp_all add: load_inv_def)
  have g: "S0 \<inter> G = {}" "S0 \<inter> M0 = {}" "G \<inter> span pd 4096 = {}" "G \<inter> M0 = {}" "G \<inter> span hn 4 = {}" "span pd 4096 \<inter> M0 = {}" "M0 \<inter> span hn 4 = {}"
      "G \<inter> R = {}" "M0 \<inter> R = {}" "span hn 4 \<inter> R = {}"
    using ar by (simp_all add: fork_areas_def)
  have cG: "span c 16 \<subseteq> G" using array_split(1) [OF i(3), of c] i(2) by blast
  have MM: "?M \<subseteq> M0" using span_mono [OF ok(2), of mem_at] i(1) by blast
  have ch: "span c 16 \<inter> span hn 4 = {}" using cG g(5) by blast
  have AR: "?A \<inter> R = {}" using cG g(8,10) by blast
  have AM: "?A \<inter> ?M = {}" using cG MM g(4,7) by blast
  define m1 where "m1 = add_region c (p_va h) (v2p mem_at) (seg_len h) hn m"
  note a = add_region_facts [OF ch, where va = "p_va h" and pa = "v2p mem_at" and len = "seg_len h" and m = m, folded m1_def]
  have keep: "read32 m' x = read32 m x" if "same_outside T' m m'" "T' \<inter> R = {}" "span x 4 \<subseteq> R" for T' m' x
    using same_outside_read32 [OF that(1)] that(2,3) by blast
  have CW: "same_outside ?A m' m'' \<Longrightarrow> unat i + 4 \<le> 16 \<Longrightarrow> same_outside ?A m' (write32 m'' (c + i) v)" for m' m'' i v
    using span_sub [of i 4 16 c] by (intro same_outside_write32_in) auto
  have h1: "proghdr_at m1 ph = h" using proghdr_frame [OF a(4), of ph] AR R(1) hdr by blast
  have fill: "SLIST_INSERT_HEAD (write32 (write32 (write32 m c (read32 m (ph + 8))) (c + 4) (v2p mem_at)) (c + 8)
      (pg_roundup (read32 mx (ph + 20) + (read32 mx (ph + 8) AND 0xFFF)))) 12 hn' c = m1"
    if "proghdr_at mx ph = h" "hn' = hn" for mx hn'
    using that hdr by (auto simp: m1_def add_region_def seg_len_def proghdr_at_def)
  define m2 where "m2 = copied m1 (mem_at + p_va h mod 0x1000) (bin + p_off h) (unat (p_filesz h))"
  have z1: "\<forall>k < unat (seg_len h). m1 (mem_at + of_nat k) = 0"
  proof (intro allI impI)
    fix k assume k: "k < unat (seg_len h)"
    then have "mem_at + of_nat k \<in> ?M" by (rule span_elem) (simp add: less_imp_le)
    then have "m1 (mem_at + of_nat k) = m (mem_at + of_nat k)" using byte_frame [OF a(4)] AM by blast
    then show "m1 (mem_at + of_nat k) = 0" using i(4) k ok(2) by simp
  qed
  have MD: "?M \<inter> seg_data bin h = {}" using MM R(2) g(9) by blast
  have same: "\<forall>x \<in> seg_data bin h. m1 x = m x" using byte_frame [OF a(4)] AR R(2) by blast
  note cp = copied_segment [OF ok(1) z1 MD same, folded m2_def]
  have o2: "same_outside (?A \<union> ?M) m m2" by (rule same_outside_trans [OF a(4) cp(3)])
  have rg: "region_of m2 c = (p_va h, v2p mem_at, seg_len h)" "read32 m2 (c + 12) = read32 m hn" "read32 m2 hn = c"
  proof -
    have c16: "?M \<inter> span c 16 = {}" using AM by blast
    show "region_of m2 c = (p_va h, v2p mem_at, seg_len h)" "read32 m2 (c + 12) = read32 m hn"
      using region_of_frame [OF cp(3) c16] a(1,2) by simp_all
    show "read32 m2 hn = c" using same_outside_read32 [OF cp(3), of hn] AM a(3) by blast
  qed
  have eq: "load_segment L memtab p pd bin ph c mem_at m = alloc_pt (alloc_pages ?fl) pd (p_va h) (v2p mem_at) (seg_len h) USER_PAGE m2"
  proof -
    let ?w1 = "write32 m c (p_va h)" and ?w2 = "write32 (write32 m c (p_va h)) (c + 4) (v2p mem_at)"
    let ?w3 = "write32 ?w2 (c + 8) (seg_len h)"
    have w: "same_outside ?A m ?w2" "same_outside ?A m ?w3"
      using CW [of _ _ 0] CW [of _ _ 4] CW [of _ _ 8] by simp_all
    have "proghdr_at ?w2 ph = h" using proghdr_frame [OF w(1), of ph] AR R(1) hdr by blast
    moreover have "GETMEMMAP memtab ?w3 p = hn" using keep [OF w(2) AR R(3)] gm by (simp add: GETMEMMAP_def)
    moreover have "SLIST_INSERT_HEAD ?w3 12 hn c = m1" by (simp add: m1_def add_region_def)
    ultimately show ?thesis
      using hdr h1 cp(1) rg(1) unfolding load_segment_def Let_def
      by (auto simp: proghdr_at_def seg_len_def region_of_def)
  qed
  have fit: "unat (pg_rounddown (p_va h)) + unat (seg_len h) \<le> 2 ^ 31" using ok(1) unfolding seg_ok_def by blast
  show thesis
  proof (rule place_region [OF ar inv fit seg_inside(2) [OF ok(1)] ok(2) o2])
    assume "alloc_pt (alloc_pages ?fl) pd (p_va h) (v2p mem_at) (seg_len h) USER_PAGE m2 = Inl NullDeref"
      "freelist_stock ?fl m < table_need [(p_va h, 0, seg_len h)]"
    then show thesis using fail eq by (simp add: seg_region_def)
  next
    fix m3 S'
    assume p: "alloc_pt (alloc_pages ?fl) pd (p_va h) (v2p mem_at) (seg_len h) USER_PAGE m2 = Inr m3" "same_outside (S \<union> vm_set m pd) m2 m3"
      "\<And>m4. same_outside (?A \<union> ?M) m3 m4 \<Longrightarrow> read32 m4 hn = c \<Longrightarrow> read32 m4 (c + 12) = read32 m hn \<Longrightarrow>
        load_inv ?fl pd hn S0 G M0 m4 S' (mem_at + seg_len h) (left - unat (seg_len h)) (c + 16) room (c # ks) \<and>
        (\<forall>q < 2 ^ 19. user_page m4 pd q = forked_pages [(p_va h, 0, seg_len h)] mem_at (user_page m pd) q) \<and>
        same_outside (S0 \<union> span pd 4096 \<union> (?A \<union> ?M)) m m4 \<and>
        freelist_stock ?fl m \<le> freelist_stock ?fl m4 + table_need [(p_va h, 0, seg_len h)]"
    have V: "S \<union> vm_set m pd \<subseteq> S0 \<union> span pd 4096" using i(5,6) by (auto simp: vm_set_def)
    have VA: "(S \<union> vm_set m pd) \<inter> span c 16 = {}" using V cG g(1,3) by blast
    have VH: "(S \<union> vm_set m pd) \<inter> span hn 4 = {}" using V ar by (auto simp: fork_areas_def)
    have VM: "(S \<union> vm_set m pd) \<inter> ?M = {}" using V MM g(2,6) by blast
    have r3: "region_of m3 c = (p_va h, v2p mem_at, seg_len h)" "read32 m3 (c + 12) = read32 m hn" "read32 m3 hn = c"
      using region_of_frame [OF p(2) VA] same_outside_read32 [OF p(2), of hn] VH rg by (simp_all add: Int_commute)
    have "m3 (mem_at + of_nat k) = seg_byte m bin h k" if k: "k < unat (seg_len h)" for k
    proof -
      have "mem_at + of_nat k \<in> ?M" by (rule span_elem [OF k]) (simp add: less_imp_le)
      then have "mem_at + of_nat k \<notin> S \<union> vm_set m pd" using VM by blast
      then show ?thesis using byte_frame [OF p(2)] cp(2) k by simp
    qed
    then show thesis using load [of m3 S'] p(3) [OF same_outside_refl r3(3,2)] eq p(1) r3(1) by (simp add: seg_region_def T_def)
  qed
qed

lemma proghdrs_frame:
  assumes "same_outside T m m'" and "T \<inter> span ph (32 * i) = {}" and "32 * i \<le> 2 ^ 32"
  shows "proghdrs m' ph i = proghdrs m ph i"
  using assms(2,3)
proof (induction i arbitrary: ph)
  case (Suc i)
  have "span ph (32 * Suc i) = span ph 32 \<union> span (ph + 32) (32 * i)" using span_split [of 32 "32 * Suc i" ph] by simp
  then have d: "T \<inter> span ph 32 = {}" "T \<inter> span (ph + 32) (32 * i) = {}" using Suc.prems(1) by auto
  show ?case using Suc.IH [OF d(2)] Suc.prems(2) proghdr_frame [OF assms(1) d(1)] by simp
qed simp

lemma seg_byte_frame:
  assumes "same_outside T m m'" and "T \<inter> seg_data bin h = {}"
  shows "seg_byte m' bin h k = seg_byte m bin h k"
proof -
  let ?o = "unat (p_va h mod 0x1000)"
  have "m' (bin + p_off h + of_nat (k - ?o)) = m (bin + p_off h + of_nat (k - ?o))" if "?o \<le> k" "k < ?o + unat (p_filesz h)"
  proof (rule byte_frame [OF assms(1)])
    have "bin + p_off h + of_nat (k - ?o) \<in> seg_data bin h"
      unfolding seg_data_def by (rule span_elem) (use that in \<open>auto simp: less_imp_le\<close>)
    then show "bin + p_off h + of_nat (k - ?o) \<notin> T" using assms(2) by blast
  qed
  then show ?thesis by (simp add: seg_byte_def Let_def)
qed

lemma loaded_segs_frame:
  assumes "same_outside T m m1" and "\<forall>h \<in> set hs. T \<inter> seg_data bin h = {}" and "loaded_segs m1 m' bin hs a"
  shows "loaded_segs m m' bin hs a"
  using assms(2,3) by (induction hs arbitrary: a) (simp_all add: seg_byte_frame [OF assms(1)])

lemma loadable_Cons:
  "p_type h = 1 \<Longrightarrow> loadable (h # hs) = h # loadable hs" "p_type h \<noteq> 1 \<Longrightarrow> loadable (h # hs) = loadable hs"
  by (simp_all add: loadable_def)

lemma load_segments_loads:
  fixes pd bin p regions :: u32
  assumes ar: "fork_areas S0 G pd M0 hn R" and R: "span p 4 \<subseteq> R" and reg: "regions \<noteq> 0"
    and "load_inv (l_freelist L) pd hn S0 G M0 m S mem_at left (regions + 16 * n) (Suc (length (loadable (proghdrs m ph i)))) ks"
    and "span ph (32 * i) \<subseteq> R" and "32 * i \<le> 2 ^ 32" and "\<forall>h \<in> set (proghdrs m ph i). p_type h \<noteq> 2 \<and> p_type h \<noteq> 3"
    and "\<forall>h \<in> set (loadable (proghdrs m ph i)). seg_data bin h \<subseteq> R" and "segs_fit (loadable (proghdrs m ph i)) left"
    and "GETMEMMAP memtab m p = hn"
  defines "fl \<equiv> l_freelist L"
  shows "(load_segments L memtab p pd bin regions i ph n mem_at m = Inl NullDeref \<and>
      freelist_stock fl m < table_need (map seg_region (loadable (proghdrs m ph i)))) \<or>
    (\<exists>m' S' n' at' left' js. load_segments L memtab p pd bin regions i ph n mem_at m = Inr (Some (n', at'), m') \<and>
      load_inv fl pd hn S0 G M0 m' S' at' left' (regions + 16 * n') 1 (rev js @ ks) \<and> 4096 \<le> left' \<and>
      at' = mem_at + sum_list (map seg_len (loadable (proghdrs m ph i))) \<and>
      map (region_of m') js = clones (map seg_region (loadable (proghdrs m ph i))) mem_at \<and>
      loaded_segs m m' bin (loadable (proghdrs m ph i)) mem_at \<and>
      (\<forall>q < 2 ^ 19. user_page m' pd q = forked_pages (map seg_region (loadable (proghdrs m ph i))) mem_at (user_page m pd) q) \<and>
      same_outside (S0 \<union> span pd 4096 \<union> span (regions + 16 * n) (16 * length (loadable (proghdrs m ph i))) \<union> span hn 4 \<union> span mem_at left) m m' \<and>
      freelist_stock fl m \<le> freelist_stock fl m' + table_need (map seg_region (loadable (proghdrs m ph i))))"
  using assms(4-10) unfolding fl_def
proof (induction i arbitrary: m S mem_at left n ph ks)
  case 0
  have "load_segments L memtab p pd bin regions 0 ph n mem_at m = Inr (Some (n, mem_at), m)" by simp
  moreover have "4096 \<le> left" using 0 by (simp add: loadable_def)
  moreover have "\<forall>k < 4096. m (mem_at + of_nat k) = 0" using 0 calculation(2) by (simp add: load_inv_def)
  ultimately show ?case
    using 0 by (intro disjI2 exI [of _ m] exI [of _ S] exI [of _ n] exI [of _ mem_at] exI [of _ left] exI [of _ "[]"]) (simp add: loadable_def)
next
  case (Suc i)
  let ?fl = "l_freelist L" and ?h = "proghdr_at m ph" and ?hs = "proghdrs m (ph + 32) i" and ?c = "regions + 16 * n"
  let ?ls = "loadable (proghdrs m (ph + 32) i)"
  have sp: "span ph (32 * Suc i) = span ph 32 \<union> span (ph + 32) (32 * i)" using span_split [of 32 "32 * Suc i" ph] by simp
  have r: "span ph 32 \<subseteq> R" "span (ph + 32) (32 * i) \<subseteq> R" "32 * i \<le> 2 ^ 32" using Suc.prems(2,3) sp by auto
  have ty: "read32 m ph = p_type ?h" by (simp add: proghdr_at_def)
  have ks: "p_type ?h \<noteq> 2" "p_type ?h \<noteq> 3" "\<forall>h \<in> set ?hs. p_type h \<noteq> 2 \<and> p_type h \<noteq> 3" using Suc.prems(4) by simp_all
  show ?case
  proof (cases "p_type ?h = 1")
    case False
    then have "segment_kind m ph = Some False" using ks ty by (simp add: segment_kind_def)
    then have "load_segments L memtab p pd bin regions (Suc i) ph n mem_at m = load_segments L memtab p pd bin regions i (ph + 32) n mem_at m"
      by simp
    moreover have l: "loadable (proghdrs m ph (Suc i)) = ?ls" using False by (simp add: loadable_Cons)
    note Suc.IH [OF Suc.prems(1) [unfolded l] r(2,3) ks(3) Suc.prems(5,6) [unfolded l] Suc.prems(7)]
    ultimately show ?thesis unfolding l by (simp only:)
  next
    case True
    have l: "loadable (proghdrs m ph (Suc i)) = ?h # ?ls" using True by (simp add: loadable_Cons)
    note P = Suc.prems(1,5,6) [unfolded l]
    have inv: "load_inv ?fl pd hn S0 G M0 m S mem_at left ?c (Suc (Suc (length ?ls))) ks" using P(1) by simp
    have ok: "seg_ok ?h" "unat (seg_len ?h) \<le> left" "segs_fit ?ls (left - unat (seg_len ?h))" using P(3) by simp_all
    have dt: "seg_data bin ?h \<subseteq> R" "\<forall>h \<in> set ?ls. seg_data bin h \<subseteq> R" using P(2) by simp_all
    have kind: "segment_kind m ph = Some True" using True ty by (simp add: segment_kind_def)
    let ?T = "S0 \<union> span pd 4096 \<union> (span ?c 16 \<union> span hn 4 \<union> span mem_at (unat (seg_len ?h)))"
    have need: "table_need (map seg_region (?h # ?ls)) = table_need [seg_region ?h] + table_need (map seg_region ?ls)"
      by (simp add: seg_region_def)
    show ?thesis
    proof (rule load_segment_loads [OF ar inv refl ok(1,2) Suc.prems(7) r(1) dt(1) R])
      assume "load_segment L memtab p pd bin ph ?c mem_at m = Inl NullDeref" "freelist_stock ?fl m < table_need [seg_region ?h]"
      then show ?thesis using kind reg unfolding l need by simp
    next
      fix m1 S1
      let ?a = "mem_at + seg_len ?h" and ?l = "left - unat (seg_len ?h)"
      assume s: "load_segment L memtab p pd bin ph ?c mem_at m = Inr m1"
        "load_inv ?fl pd hn S0 G M0 m1 S1 ?a ?l (?c + 16) (Suc (length ?ls)) (?c # ks)"
        "\<forall>q < 2 ^ 19. user_page m1 pd q = forked_pages [seg_region ?h] mem_at (user_page m pd) q"
        "\<forall>k < unat (seg_len ?h). m1 (mem_at + of_nat k) = seg_byte m bin ?h k" "region_of m1 ?c = (p_va ?h, v2p mem_at, seg_len ?h)"
        "same_outside ?T m m1" "freelist_stock ?fl m \<le> freelist_stock ?fl m1 + table_need [seg_region ?h]"
      have g: "S0 \<inter> R = {}" "G \<inter> R = {}" "span pd 4096 \<inter> R = {}" "M0 \<inter> R = {}" "span hn 4 \<inter> R = {}" "S0 \<inter> G = {}" "G \<inter> span pd 4096 = {}"
          "G \<inter> M0 = {}" "G \<inter> span hn 4 = {}" "S0 \<inter> M0 = {}" "span pd 4096 \<inter> M0 = {}" "M0 \<inter> span hn 4 = {}"
        using ar by (simp_all add: fork_areas_def)
      have a0: "span mem_at left \<subseteq> M0" "left \<le> 2 ^ 32" "16 * Suc (Suc (length ?ls)) \<le> 2 ^ 32" "span ?c (16 * Suc (Suc (length ?ls))) \<subseteq> G"
        using inv by (simp_all add: load_inv_def)
      have M: "span mem_at left = span mem_at (unat (seg_len ?h)) \<union> span ?a ?l" "span mem_at (unat (seg_len ?h)) \<inter> span ?a ?l = {}"
        using span_split [OF ok(2), of mem_at] span_split_disjoint [OF ok(2) a0(2)] by simp_all
      note sc = array_split [OF a0(3), of ?c]
      have "?T \<inter> R = {}" using g(1-5) a0(1,4) M(1) sc(1) by blast
      then have fr: "?T \<inter> X = {}" if "X \<subseteq> R" for X using that by blast
      have hs1: "proghdrs m1 (ph + 32) i = ?hs" by (rule proghdrs_frame [OF s(6) fr [OF r(2)] r(3)])
      have "read32 m1 p = read32 m p" using same_outside_read32 [OF s(6)] fr [OF R] by blast
      then have gm1: "GETMEMMAP memtab m1 p = hn" using Suc.prems(7) by (simp add: GETMEMMAP_def)
      have "proghdr_at m1 ph = ?h" by (rule proghdr_frame [OF s(6) fr [OF r(1)]])
      then have msz: "pg_roundup (read32 m1 (ph + 20)) = seg_len ?h" using ok(1) by (simp add: proghdr_at_def seg_ok_def)
      have eq: "load_segments L memtab p pd bin regions (Suc i) ph n mem_at m = load_segments L memtab p pd bin regions i (ph + 32) (n + 1) ?a m1"
        using kind reg s(1) msz by simp
      have c1: "regions + 16 * (n + 1) = ?c + 16" by simp
      note ih = Suc.IH [of m1 S1 ?a ?l "n + 1" "ph + 32" "?c # ks", unfolded hs1 c1, OF s(2) r(2,3) ks(3) dt(2) ok(3) gm1]
      from ih show ?thesis
      proof (elim disjE exE conjE)
        assume "load_segments L memtab p pd bin regions i (ph + 32) (n + 1) ?a m1 = Inl NullDeref"
          "freelist_stock ?fl m1 < table_need (map seg_region ?ls)"
        then show ?thesis using eq s(7) unfolding l need by simp
      next
        fix m' S' n' at' left' js
        let ?U = "S0 \<union> span pd 4096 \<union> span (?c + 16) (16 * length ?ls) \<union> span hn 4 \<union> span ?a ?l"
        assume h: "load_segments L memtab p pd bin regions i (ph + 32) (n + 1) ?a m1 = Inr (Some (n', at'), m')"
          "load_inv ?fl pd hn S0 G M0 m' S' at' left' (regions + 16 * n') 1 (rev js @ ?c # ks)" "4096 \<le> left'"
          "at' = ?a + sum_list (map seg_len ?ls)" "map (region_of m') js = clones (map seg_region ?ls) ?a" "loaded_segs m1 m' bin ?ls ?a"
          "\<forall>q < 2 ^ 19. user_page m' pd q = forked_pages (map seg_region ?ls) ?a (user_page m1 pd) q" "same_outside ?U m1 m'"
          "freelist_stock ?fl m1 \<le> freelist_stock ?fl m' + table_need (map seg_region ?ls)"
        have cl: "span (?c + 16) (16 * length ?ls) \<subseteq> span (?c + 16) (16 * Suc (length ?ls))" by (rule span_mono) simp
        have cG: "span ?c 16 \<subseteq> G" "span (?c + 16) (16 * length ?ls) \<subseteq> G" using sc(1) a0(4) cl by blast+
        have "?U \<inter> span ?c 16 = {}" using sc(2) cl cG(1) a0(1) M(1) g(6-9) by blast
        then have "region_of m' ?c = (p_va ?h, v2p mem_at, seg_len ?h)" using region_of_frame(1) [OF h(8)] s(5) by simp
        then have jc: "map (region_of m') (?c # js) = clones (map seg_region (?h # ?ls)) mem_at"
          using h(5) seg_inside(2) [OF ok(1)] by (simp add: seg_region_def)
        have UM: "?U \<inter> span mem_at (unat (seg_len ?h)) = {}"
        proof -
          have "span mem_at (unat (seg_len ?h)) \<subseteq> M0" using M(1) a0(1) by blast
          then show ?thesis using M(2) cG(2) g(8,10-12) by blast
        qed
        have "m' (mem_at + of_nat k) = seg_byte m bin ?h k" if k: "k < unat (seg_len ?h)" for k
        proof -
          have "mem_at + of_nat k \<in> span mem_at (unat (seg_len ?h))" by (rule span_elem [OF k]) (simp add: less_imp_le)
          then have "mem_at + of_nat k \<notin> ?U" using UM by blast
          then show ?thesis using byte_frame [OF h(8)] s(4) k by simp
        qed
        moreover have "loaded_segs m m' bin ?ls ?a" by (rule loaded_segs_frame [OF s(6) _ h(6)]) (use fr dt(2) in blast)
        ultimately have ld: "loaded_segs m m' bin (?h # ?ls) mem_at" by simp
        have "user_page m' pd q = forked_pages (map seg_region (?h # ?ls)) mem_at (user_page m pd) q" if "q < 2 ^ 19" for q
        proof -
          have "user_page m' pd q = forked_pages (map seg_region ?ls) ?a (user_page m1 pd) q" using h(7) that by blast
          also have "\<dots> = forked_pages (map seg_region ?ls) ?a (forked_pages [seg_region ?h] mem_at (user_page m pd)) q"
            by (rule forked_pages_cong) (use s(3) that in blast)
          finally show ?thesis using seg_inside(2) [OF ok(1)] by (simp add: seg_region_def)
        qed
        moreover have "same_outside (S0 \<union> span pd 4096 \<union> span ?c (16 * length (?h # ?ls)) \<union> span hn 4 \<union> span mem_at left) m m'"
        proof (rule same_outside_mono [OF same_outside_trans [OF s(6) h(8)]])
          have "span ?c (16 * length (?h # ?ls)) = span ?c 16 \<union> span (?c + 16) (16 * length ?ls)"
            using array_split(1) [of "length ?ls" ?c] a0(3) by simp
          then show "?T \<union> ?U \<subseteq> S0 \<union> span pd 4096 \<union> span ?c (16 * length (?h # ?ls)) \<union> span hn 4 \<union> span mem_at left"
            using M(1) by blast
        qed
        moreover have "freelist_stock ?fl m \<le> freelist_stock ?fl m' + table_need (map seg_region (?h # ?ls))"
          unfolding need using h(9) s(7) by linarith
        moreover have "load_inv ?fl pd hn S0 G M0 m' S' at' left' (regions + 16 * n') 1 (rev (?c # js) @ ks)" using h(2) by simp
        moreover have "at' = mem_at + sum_list (map seg_len (?h # ?ls))" using h(4) by (simp add: add.assoc)
        ultimately show ?thesis unfolding l using eq h(1,3) jc ld by metis
      qed
    qed
  qed
qed

section \<open>Before and after the loop\<close>

definition image_start :: "proghdr list \<Rightarrow> u32" where
  "image_start hs = fold (\<lambda>h. min (pg_rounddown (p_va h))) hs 0xFFFFFFFF"

definition image_end :: "proghdr list \<Rightarrow> u32" where
  "image_end hs = fold (\<lambda>h. max (pg_roundup (p_va h + p_memsz h))) hs 0"

lemma scan_segments_eq:
  assumes "\<forall>h \<in> set (proghdrs m ph i). p_type h \<noteq> 2 \<and> p_type h \<noteq> 3"
  shows "scan_segments m i ph mn mx n =
    Some (fold (\<lambda>h. min (pg_rounddown (p_va h))) (loadable (proghdrs m ph i)) mn,
      fold (\<lambda>h. max (pg_roundup (p_va h + p_memsz h))) (loadable (proghdrs m ph i)) mx,
      n + of_nat (length (loadable (proghdrs m ph i))))"
  using assms
proof (induction i arbitrary: ph mn mx n)
  case 0
  then show ?case by (simp add: loadable_def)
next
  case (Suc i)
  have t: "read32 m ph = p_type (proghdr_at m ph)" "read32 m (ph + 8) = p_va (proghdr_at m ph)" "read32 m (ph + 20) = p_memsz (proghdr_at m ph)"
    by (simp_all add: proghdr_at_def)
  have mm: "(if a < b then a else b) = min a b" "(if a < b then b else a) = max b a" for a b :: u32 by (auto simp: min_def max_def)
  show ?case
    using Suc by (cases "p_type (proghdr_at m ph) = 1") (simp_all add: segment_kind_def t loadable_Cons Let_def mm)
qed

text \<open>The old regions are taken off the list; the loop ends although it takes apart the list it walks.\<close>

lemma drop_regions_empties:
  assumes "slist m 12 h rs" and "sep_nodes 16 h rs" and "GETMEMMAP memtab m p = h" and "apart h 4 p 4"
  shows "\<exists>m'. drop_regions memtab p (first0 rs) m = Some (Inr m') \<and> read32 m' h = 0 \<and> same_outside (span h 4) m m'"
  using assms
proof (induction rs arbitrary: m)
  case Nil
  then have "read32 m h = 0" by (simp add: slist_def)
  then show ?case by (subst drop_regions.simps) simp
next
  case (Cons r rs)
  let ?m = "write32 m h (first0 rs)"
  have r0: "r \<noteq> 0" and nx: "read32 m (r + 12) = first0 rs"
    using slist_nonnull [OF Cons.prems(1)] slist_next [of m 12 h "[]" r rs] Cons.prems(1) by auto
  note u = unlink_first [OF Cons.prems(1,2)]
  have "read32 ?m p = read32 m p" using Cons.prems(4) by (simp add: read32_write32_apart)
  then have gm: "GETMEMMAP memtab ?m p = h" using Cons.prems(3) by (simp add: GETMEMMAP_def)
  have "drop_regions memtab p (first0 (r # rs)) m = drop_regions memtab p (first0 rs) ?m"
    using r0 nx u(1) Cons.prems(3) by (subst drop_regions.simps) (simp add: Let_def)
  moreover obtain m' where "drop_regions memtab p (first0 rs) ?m = Some (Inr m')" "read32 m' h = 0" "same_outside (span h 4) ?m m'"
    using Cons.IH [OF u(2) _ gm Cons.prems(4)] Cons.prems(2) by auto
  moreover have "same_outside (span h 4) m m'" if "same_outside (span h 4) ?m m'" for m'
    using same_outside_trans [OF same_outside_write32 that] by simp
  ultimately show ?case by auto
qed

lemma load_inv_frame:
  assumes ar: "fork_areas S0 G pd M0 hn R" and inv: "load_inv fl pd hn S0 G M0 m S mem_at left c room ks" and o: "same_outside T m m'" and T: "T \<subseteq> R"
  shows "load_inv fl pd hn S0 G M0 m' S mem_at left c room ks" and "q < 2 ^ 19 \<Longrightarrow> user_page m' pd q = user_page m pd q"
    and "freelist_stock fl m' = freelist_stock fl m"
proof -
  have i: "freelist_owns fl m S" "S \<subseteq> S0" "pd_inv m pd S" "tables m pd \<subseteq> S0" "left \<le> 2 ^ 32" "span mem_at left \<subseteq> M0"
      "\<forall>k < left. m (mem_at + of_nat k) = 0" "slist m 12 hn ks" "regions_span ks \<subseteq> G"
    using inv by (simp_all add: load_inv_def)
  have g: "S0 \<inter> R = {}" "G \<inter> R = {}" "span pd 4096 \<inter> R = {}" "M0 \<inter> R = {}" "span hn 4 \<inter> R = {}" using ar by (simp_all add: fork_areas_def)
  have TS: "T \<inter> S = {}" using T i(2) g(1) by blast
  have TV: "T \<inter> vm_set m pd = {}" using T i(4) g(1,3) by (auto simp: vm_set_def)
  note vm = vm_frame [OF i(3) o TV order_refl]
  show "q < 2 ^ 19 \<Longrightarrow> user_page m' pd q = user_page m pd q" by (rule vm(3))
  show "freelist_stock fl m' = freelist_stock fl m" by (rule pages.stock_frame [OF i(1) o TS])
  have "m' (mem_at + of_nat k) = 0" if k: "k < left" for k
  proof -
    have "mem_at + of_nat k \<in> span mem_at left" by (rule span_elem [OF k]) (use i(5) in simp)
    then have "mem_at + of_nat k \<notin> T" using i(6) g(4) T by blast
    then show ?thesis using byte_frame [OF o] i(7) k by simp
  qed
  moreover have "read32 m' hn = read32 m hn" by (rule same_outside_read32 [OF o]) (use g(5) T in blast)
  then have "slist m' 12 hn ks" by (rule slist_relink [OF i(8) _ o]) (use i(9) g(2) T in blast)
  ultimately show "load_inv fl pd hn S0 G M0 m' S mem_at left c room ks"
    using inv pages.owns_frame [OF i(1) o TS] vm(1,4) by (simp add: load_inv_def)
qed

lemma loaded_segs_target:
  assumes "loaded_segs m m1 bin hs a" and "segs_fit hs l" and "l \<le> 2 ^ 32" and "same_outside T m1 m2" and "T \<inter> span a l = {}"
  shows "loaded_segs m m2 bin hs a"
  using assms(1-3,5)
proof (induction hs arbitrary: a l)
  case Nil
  have "m2 (a + of_nat k) = m1 (a + of_nat k)" if k: "k < 4096" for k
  proof (rule byte_frame [OF assms(4)])
    have "a + of_nat k \<in> span a l" by (rule span_elem) (use k Nil.prems(2,3) in auto)
    then show "a + of_nat k \<notin> T" using Nil.prems(4) by blast
  qed
  then show ?case using Nil.prems(1) by simp
next
  case (Cons h hs)
  have f: "unat (seg_len h) \<le> l" "segs_fit hs (l - unat (seg_len h))" using Cons.prems(2) by simp_all
  have sp: "span a l = span a (unat (seg_len h)) \<union> span (a + seg_len h) (l - unat (seg_len h))" by (rule span_split [OF f(1)])
  have "m2 (a + of_nat k) = m1 (a + of_nat k)" if k: "k < unat (seg_len h)" for k
  proof (rule byte_frame [OF assms(4)])
    have "a + of_nat k \<in> span a (unat (seg_len h))" by (rule span_elem [OF k]) (simp add: less_imp_le)
    then show "a + of_nat k \<notin> T" using Cons.prems(4) sp by blast
  qed
  moreover have "loaded_segs m m2 bin hs (a + seg_len h)"
    by (rule Cons.IH [OF _ f(2)]) (use Cons.prems sp in auto)
  ultimately show ?case using Cons.prems(1) by simp
qed

definition stack_region :: vmr where
  "stack_region = (0x7FFFF000, 0, 0x1000)"

lemma map_stack_maps:
  fixes c mem_at pd p :: u32
  assumes ar: "fork_areas S0 G pd M0 hn R" and inv: "load_inv (l_freelist L) pd hn S0 G M0 m S mem_at left c 1 ks" and left: "4096 \<le> left"
    and gm: "GETMEMMAP memtab m p = hn" and R: "span p 4 \<subseteq> R"
  obtains (fail) "map_stack L memtab p pd c mem_at m = Inl NullDeref" and "freelist_stock (l_freelist L) m < table_need [stack_region]"
  | (mapped) m' S' where "map_stack L memtab p pd c mem_at m = Inr m'"
      and "load_inv (l_freelist L) pd hn S0 G M0 m' S' (mem_at + 0x1000) (left - 4096) (c + 16) 0 (c # ks)"
      and "\<forall>q < 2 ^ 19. user_page m' pd q = forked_pages [stack_region] mem_at (user_page m pd) q"
      and "region_of m' c = (0x7FFFF000, v2p mem_at, 0x1000)" and "same_outside (S0 \<union> span pd 4096 \<union> span c 16 \<union> span hn 4) m m'"
proof -
  let ?fl = "l_freelist L" and ?va = "0x7FFFF000 :: u32" and ?len = "0x1000 :: u32"
  have i: "S \<subseteq> S0" "tables m pd \<subseteq> S0" "span c 16 \<subseteq> G" using inv by (simp_all add: load_inv_def)
  have g: "S0 \<inter> G = {}" "G \<inter> span pd 4096 = {}" "G \<inter> span hn 4 = {}" "G \<inter> R = {}" "span hn 4 \<inter> R = {}" "S0 \<inter> R = {}" "span pd 4096 \<inter> R = {}"
      "S0 \<inter> span hn 4 = {}" "span pd 4096 \<inter> span hn 4 = {}"
    using ar by (simp_all add: fork_areas_def)
  define m1 where "m1 = write32 (write32 (write32 m c ?va) (c + 4) (v2p mem_at)) (c + 8) ?len"
  have C: "span (c + j) 4 \<subseteq> span c 16" if "unat j + 4 \<le> 16" for j by (rule span_sub [OF that])
  have o1: "same_outside (span c 16) m m1"
    unfolding m1_def using C [of 0] C [of 4] C [of 8] by (intro same_outside_write32_in same_outside_refl) simp_all
  have rg: "region_of m1 c = (?va, v2p mem_at, ?len)" by (simp add: m1_def region_of_def mem_simps apart_def)
  have eq: "map_stack L memtab p pd c mem_at m = bindE (alloc_pt (alloc_pages ?fl) pd ?va (v2p mem_at) ?len USER_PAGE m1)
      (\<lambda>m. Inr (SLIST_INSERT_HEAD m 12 (GETMEMMAP memtab m p) c))"
    using rg by (simp add: map_stack_def Let_def KERNEL_OFFSET_def STACK_SIZE_def m1_def region_of_def)
  have fit: "unat (pg_rounddown ?va) + unat ?len \<le> 2 ^ 31" "pg_roundup ?len = ?len" "unat ?len \<le> left"
    using left by (simp_all add: pg_rounddown_def rounddown_def pg_roundup_def roundup_def)
  have inv': "load_inv ?fl pd hn S0 G M0 m S mem_at left c (Suc 0) ks" using inv by simp
  have oA: "same_outside (span c 16 \<union> span hn 4 \<union> span mem_at (unat ?len)) m m1" by (rule same_outside_mono [OF o1]) blast
  show thesis
  proof (rule place_region [OF ar inv' fit oA])
    assume "alloc_pt (alloc_pages ?fl) pd ?va (v2p mem_at) ?len USER_PAGE m1 = Inl NullDeref" "freelist_stock ?fl m < table_need [(?va, 0, ?len)]"
    then show thesis using fail eq by (simp add: stack_region_def)
  next
    fix m2 S'
    assume p: "alloc_pt (alloc_pages ?fl) pd ?va (v2p mem_at) ?len USER_PAGE m1 = Inr m2" "same_outside (S \<union> vm_set m pd) m1 m2"
      "\<And>m3. same_outside (span c 16 \<union> span hn 4 \<union> span mem_at (unat ?len)) m2 m3 \<Longrightarrow> read32 m3 hn = c \<Longrightarrow> read32 m3 (c + 12) = read32 m hn \<Longrightarrow>
        load_inv ?fl pd hn S0 G M0 m3 S' (mem_at + ?len) (left - unat ?len) (c + 16) 0 (c # ks) \<and>
        (\<forall>q < 2 ^ 19. user_page m3 pd q = forked_pages [(?va, 0, ?len)] mem_at (user_page m pd) q) \<and>
        same_outside (S0 \<union> span pd 4096 \<union> (span c 16 \<union> span hn 4 \<union> span mem_at (unat ?len))) m m3 \<and>
        freelist_stock ?fl m \<le> freelist_stock ?fl m3 + table_need [(?va, 0, ?len)]"
    have V: "S \<union> vm_set m pd \<subseteq> S0 \<union> span pd 4096" using i(1,2) by (auto simp: vm_set_def)
    have V16: "(S \<union> vm_set m pd) \<inter> span c 16 = {}" using V i(3) g(1,2) by blast
    have o2: "same_outside (span c 16 \<union> (S \<union> vm_set m pd)) m m2" by (rule same_outside_trans [OF o1 p(2)])
    have "read32 m2 p = read32 m p" using same_outside_read32 [OF o2, of p] R V i(3) g(4,6,7) by blast
    then have gm2: "GETMEMMAP memtab m2 p = hn" using gm by (simp add: GETMEMMAP_def)
    have h2: "read32 m2 hn = read32 m hn" by (rule same_outside_read32 [OF o2]) (use V i(3) g(3,8,9) in blast)
    define m3 where "m3 = SLIST_INSERT_HEAD m2 12 hn c"
    have o3: "same_outside (span c 16 \<union> span hn 4) m2 m3"
      unfolding m3_def by (rule same_outside_mono [OF SLIST_INSERT_HEAD_outside]) (use C [of 12] in auto)
    have a: "apart (c + j) 4 hn 4" if "unat j + 4 \<le> 16" for j using C [OF that] i(3) g(3) by (auto simp: apart_iff_span)
    have r3: "read32 m3 hn = c" "read32 m3 (c + 12) = read32 m hn"
      using a [of 12] h2 by (simp_all add: m3_def SLIST_INSERT_HEAD_def mem_simps apart_sym [of hn])
    have "region_of m3 c = region_of m2 c"
      using a [of 0] a [of 4] a [of 8]
      by (simp add: m3_def SLIST_INSERT_HEAD_def region_of_def mem_simps apart_sym [of hn] apart_def [of 0] apart_def [of 4] apart_def [of 8] apart_def [of 12])
    then have "region_of m3 c = (?va, v2p mem_at, ?len)" using region_of_frame(1) [OF p(2) V16] rg by simp
    moreover have "same_outside (S0 \<union> span pd 4096 \<union> span c 16 \<union> span hn 4) m m3"
      by (rule same_outside_mono [OF same_outside_trans [OF o2 o3]]) (use V in blast)
    moreover have "map_stack L memtab p pd c mem_at m = Inr m3" using eq p(1) gm2 by (simp add: m3_def)
    moreover have "same_outside (span c 16 \<union> span hn 4 \<union> span mem_at (unat ?len)) m2 m3" by (rule same_outside_mono [OF o3]) blast
    ultimately show thesis using mapped [of m3 S'] p(3) [of m3] r3 by (simp add: stack_region_def)
  qed
qed

end
