(* ===== verification/Load_Elf.thy ===== *)
theory Load_Elf
  imports Loader
begin

text \<open>
  The whole of \<^verbatim>\<open>loadelf\<close>: a new page directory, the scan of the program headers, the old regions dropped, the memory for the
  segments and the array of regions allocated, the segments of \<open>Loader\<close> placed one after the other and the stack
  behind them. \<open>load_ok\<close> is what the loader relies on, \<open>loaded_image\<close> what it leaves behind.
\<close>

section \<open>The whole loader\<close>

definition set_exec :: "u32 \<Rightarrow> u32 \<Rightarrow> u32 \<Rightarrow> mem \<Rightarrow> mem" where
  "set_exec p bin pd m =
     (let m = write32 m (p + 4) (v2p pd);
          m = write32 m (read32 m (p + 20) + 48) (read32 m (bin + 24)) in
      write32 m (read32 m (p + 20) + 60) KERNEL_OFFSET)"

definition load_last :: "link \<Rightarrow> u32 \<Rightarrow> u32 \<Rightarrow> u32 \<Rightarrow> u32 \<Rightarrow> u32 \<Rightarrow> (u32 \<times> u32) option \<times> mem \<Rightarrow> (int \<times> mem) res" where
  "load_last L memtab p pd bin regions = (\<lambda>(r, m). case r of None \<Rightarrow> Inr (- 1, m) | Some (n, mem_at) \<Rightarrow>
     if regions = 0 then Inl NullDeref
     else bindE (map_stack L memtab p pd (regions + 16 * n) mem_at (set_exec p bin pd m)) (\<lambda>m. Inr (0, m)))"

lemma loadelf_eq:
  assumes "find_file k path m ROOT_INO = Inr (Some i)" and "bin = read32 m (ino_tbl k + 36 * i + 28)" and "read32 m bin = ELFMAGIC"
    and "copykvm (alloc_pages (l_freelist L)) kd m = Inr (pd, m1)"
    and "scan_segments m1 (unat (read16 m1 (bin + 44))) (bin + read32 m1 (bin + 28)) 0xFFFFFFFF 0 0 = Some (mn, mx, n)"
    and "drop_regions memtab p (SLIST_FIRST m1 (GETMEMMAP memtab m1 p)) m1 = Some (Inr m2)" and "sz = pg_roundup (mx - mn + 0x1000)"
    and "alloc_pages (l_freelist L) sz (write32 m2 (p + 12) mx) = Inr (mem_at, m4)" and "mem_at \<noteq> 0"
    and "kmalloc (l_heap L) (16 * (n + 1)) (memset m4 mem_at 0 sz) = Inr (regions, m6)"
    and "m7 = write32 m6 (GETMEMMAP memtab m6 p + 4) sz"
  shows "loadelf L k memtab kd p path m =
    bindE (load_segments L memtab p pd bin regions (unat (read16 m7 (bin + 44))) (bin + read32 m1 (bin + 28)) 0 mem_at m7)
      (load_last L memtab p pd bin regions)"
  using assms(1,3-6,8-10) unfolding loadelf_def STACK_SIZE_def
  by (simp add: assms(2,7,11) [symmetric] Let_def load_last_def)
    (rule arg_cong [of _ _ "bindE _"], auto simp: fun_eq_iff Let_def set_exec_def assms(2) split: option.split)

definition elf_headers :: "mem \<Rightarrow> u32 \<Rightarrow> proghdr list" where
  "elf_headers m bin = proghdrs m (bin + read32 m (bin + 28)) (unat (read16 m (bin + 44)))"

definition elf_span :: "mem \<Rightarrow> u32 \<Rightarrow> u32 set" where
  "elf_span m bin = span bin 52 \<union> span (bin + read32 m (bin + 28)) (32 * unat (read16 m (bin + 44))) \<union>
     (\<Union>h \<in> set (loadable (elf_headers m bin)). seg_data bin h)"

definition image_bytes :: "mem \<Rightarrow> u32 \<Rightarrow> u32" where
  "image_bytes m bin = pg_roundup (image_end (loadable (elf_headers m bin)) - image_start (loadable (elf_headers m bin)) + 0x1000)"

text \<open>What the loader relies on: the allocators, the list of old regions and the file are well formed and apart from
  each other and from the structure and the trap frame of the process.\<close>

definition load_ok :: "link \<Rightarrow> u32 \<Rightarrow> u32 \<Rightarrow> u32 \<Rightarrow> u32 \<Rightarrow> mem \<Rightarrow> blocks \<Rightarrow> blocks \<Rightarrow> u32 list \<Rightarrow> bool" where
  "load_ok L memtab kd p bin m bs hs rs \<longleftrightarrow> (let h = GETMEMMAP memtab m p in
     freelist_inv (l_freelist L) m bs \<and> owned (l_freelist L) bs \<subseteq> high \<and> heap_inv (l_heap L) m hs \<and>
     slist m 12 h rs \<and> sep_nodes 16 h rs \<and> (\<forall>x \<in> set (elf_headers m bin). p_type x \<noteq> 2 \<and> p_type x \<noteq> 3) \<and>
     image_bytes m bin \<noteq> 0 \<and> segs_fit (loadable (elf_headers m bin)) (unat (image_bytes m bin)) \<and>
     sorted_wrt (\<lambda>A B. A \<inter> B = {}) [owned (l_freelist L) bs, owned (l_heap L) hs, span h 8, span p 104, span (read32 m (p + 20)) 68,
       elf_span m bin \<union> span kd 4096 \<union> regions_span rs])"

lemma phnum_bound: "32 * unat (read16 m a) \<le> 2 ^ 32"
  using unsigned_less [of "read16 m a", where ?'a = nat] by simp

lemma elf_frame:
  assumes "same_outside T m m'" and "T \<inter> elf_span m bin = {}"
  shows "read32 m' (bin + 24) = read32 m (bin + 24)" and "read32 m' (bin + 28) = read32 m (bin + 28)"
    and "read16 m' (bin + 44) = read16 m (bin + 44)" and "elf_headers m' bin = elf_headers m bin"
proof -
  have b: "T \<inter> span bin 52 = {}" and h: "T \<inter> span (bin + read32 m (bin + 28)) (32 * unat (read16 m (bin + 44))) = {}"
    using assms(2) by (auto simp: elf_span_def)
  have r: "read32 m' (bin + i) = read32 m (bin + i)" if "unat i + 4 \<le> 52" for i
    using same_outside_read32 [OF assms(1)] span_sub [OF that, of bin] b by blast
  from r [of 24] r [of 28] show r28: "read32 m' (bin + 24) = read32 m (bin + 24)" "read32 m' (bin + 28) = read32 m (bin + 28)" by simp_all
  show r44: "read16 m' (bin + 44) = read16 m (bin + 44)"
    using same_outside_read16 [OF assms(1), of "bin + 44"] span_sub [of 44 2 52 bin] b by auto
  show "elf_headers m' bin = elf_headers m bin"
    unfolding elf_headers_def r28 r44 by (rule proghdrs_frame [OF assms(1) h phnum_bound])
qed

lemma heap_array:
  assumes "heap_inv hp m ((a, z) # hs)" and "16 * n \<le> 0xFF6" and "chunk_size (of_nat (16 * n)) < z"
  obtains m' where "kmalloc hp (of_nat (16 * n)) m = Inr (a + 2, m')" and "same_outside (owned hp ((a, z) # hs)) m m'"
    and "span (a + 2) (16 * n) \<subseteq> owned hp ((a, z) # hs)" and "0 \<notin> span (a + 2) (16 * n)" and "a + 2 \<noteq> 0"
proof -
  let ?s = "of_nat (16 * n) :: u32"
  have "16 * n < 4294967296" using assms(2) by simp
  then have u: "unat ?s = 16 * n" by (simp only: unat_of_nat take_bit_nat_eq_self_iff) simp
  have le: "?s \<le> 0xFF6" using assms(2) u by (simp add: word_le_nat_alt)
  obtain m' where k: "kmalloc hp ?s m = Inr (a + 2, m')" "same_outside (owned hp ((a, z) # hs)) m m'"
      "span (a + 2) (unat ?s) \<subseteq> owned hp ((a, z) # hs)" "a + 2 \<noteq> 0"
    by (rule kmalloc_first [OF assms(1) le assms(3)]) blast
  have ok: "unat a + unat z \<le> 2 ^ 32" using assms(1) by (simp add: heap_inv_def chunk_ok_def)
  have "unat ?s + 2 < unat z" using chunk_size_facts(2) [OF le] assms(3) by (simp add: word_less_nat_alt)
  then have sz: "16 * n + 2 < unat z" unfolding u .
  have ua: "unat (a + 2) = unat a + 2" using ok sz by (intro trans [OF u32_add_small]) simp_all
  have "unat (0 - (a + 2)) = 4294967296 - unat (a + 2)" using k(4) u32_sub [of 0 "a + 2"] by (simp add: unat_eq_0)
  then have "0 \<notin> span (a + 2) (16 * n)" using ok sz ua by (simp add: span_def)
  then show thesis using that [OF k(1,2)] k(3,4) u by simp
qed

lemma copykvm_blocks:
  assumes inv: "freelist_inv fl m bs" and ne: "bs \<noteq> []" and kd: "span kd 4096 \<inter> owned fl bs = {}"
  obtains pd m' bs' where "copykvm (alloc_pages fl) kd m = Inr (pd, m')" and "freelist_inv fl m' bs'" and "owned fl bs' \<subseteq> owned fl bs"
    and "span pd 4096 \<subseteq> owned fl bs" and "pd_inv m' pd (owned fl bs')" and "tables m' pd = {}" and "\<forall>q < 2 ^ 19. user_page m' pd q = None"
    and "same_outside (owned fl bs) m m'" and "length bs \<le> Suc (length bs')" and "set (tl bs) \<subseteq> set bs'"
proof -
  have "pg_roundup 0x1000 = 0x1000" by (rule pg_roundup_id) (simp add: aligned_def)
  then have r: "unat (pg_roundup 0x1000) = 0x1000" by simp
  have nz: "(0x1000 :: u32) \<noteq> 0" by simp
  have fit: "\<exists>b \<in> set bs. (0x1000 :: u32) \<le> snd b"
    using ne inv block_size_ge [of fl "hd bs"] by (cases bs) (auto simp: freelist_inv_def word_le_nat_alt)
  obtain k m0 bs1 where
    al: "alloc_pages fl 0x1000 m = Inr (k, m0)" "freelist_inv fl m0 bs1" "owned fl bs1 \<subseteq> owned fl bs" "span k 0x1000 \<inter> owned fl bs1 = {}"
      "length bs \<le> Suc (length bs1)" "set (tl bs) \<subseteq> set bs1"
    by (rule alloc_pages_some [OF inv nz fit, unfolded r]) simp
  have fo: "freelist_owns fl m (owned fl bs)" using inv by (auto simp: freelist_owns_def)
  have "freelist_stock fl m \<noteq> 0" using freelist_stock_eq [OF inv] ne by simp
  then obtain pd m1 where cp: "copykvm (alloc_pages fl) kd m = Inr (pd, m1)" "span pd 4096 \<subseteq> owned fl bs" "same_outside (owned fl bs) m m1"
      "\<forall>i < 1024. pde m1 pd i = (if i < 512 then 0 else pde m kd i)" "pd = k" "same_outside (span pd 4096) m0 m1"
    using pages.copykvm_copies [OF fo kd] al(1) by auto
  have lo: "\<forall>i < 512. pde m1 pd i = 0" using cp(4) by simp
  then have t: "tables m1 pd = {}" by (auto simp: tables_def present_def)
  have pk: "span pd 4096 \<inter> owned fl bs1 = {}" using al(4) cp(5) by simp
  have "pd_inv m1 pd (owned fl bs1)" using pk lo t by (simp add: pd_inv_def present_def)
  moreover have "freelist_inv fl m1 bs1" by (rule freelist_inv_frame [OF al(2) cp(6) pk])
  ultimately show thesis using that [OF cp(1)] al(3,5,6) cp(2,3) t no_user_pages [OF lo] by blast
qed

text \<open>The memory for the segments and the array of regions.\<close>

lemma load_alloc:
  fixes sz a z :: u32
  assumes fl: "freelist_inv (l_freelist L) m bs1" and sz: "sz \<noteq> 0" "pg_roundup sz = sz" "\<exists>b \<in> set bs1. sz \<le> snd b"
    and hp: "heap_inv (l_heap L) m ((a, z) # hs)" and room: "16 * Suc n \<le> 0xFF6" "chunk_size (of_nat (16 * Suc n)) < z"
  defines "S1 \<equiv> owned (l_freelist L) bs1" and "H \<equiv> owned (l_heap L) ((a, z) # hs)"
  assumes pd: "pd_inv m pd S1" "tables m pd = {}" "\<forall>q < 2 ^ 19. user_page m pd q = None"
    and d: "S1 \<inter> H = {}" "span pd 4096 \<inter> S1 = {}" "span pd 4096 \<inter> H = {}"
  obtains mem_at m4 m6 bs2 where "alloc_pages (l_freelist L) sz m = Inr (mem_at, m4)" and "mem_at \<noteq> 0"
    and "kmalloc (l_heap L) (16 * (of_nat n + 1)) (memset m4 mem_at 0 sz) = Inr (a + 2, m6)"
    and "freelist_inv (l_freelist L) m6 bs2" and "owned (l_freelist L) bs2 \<subseteq> S1" and "length bs1 \<le> Suc (length bs2)"
    and "span mem_at (unat sz) \<subseteq> S1" and "span mem_at (unat sz) \<inter> owned (l_freelist L) bs2 = {}"
    and "\<forall>k < unat sz. m6 (mem_at + of_nat k) = 0" and "pd_inv m6 pd (owned (l_freelist L) bs2)" and "tables m6 pd = {}"
    and "\<forall>q < 2 ^ 19. user_page m6 pd q = None" and "same_outside (S1 \<union> H) m m6" and "span (a + 2) (16 * Suc n) \<subseteq> H"
    and "0 \<notin> span (a + 2) (16 * Suc n)" and "a + 2 \<noteq> 0"
proof -
  let ?fl = "l_freelist L" and ?M = "span mem_at (unat sz)"
  from alloc_pages_some [OF fl sz(1,3), folded S1_def] obtain mem_at m4 bs2 where
    al: "alloc_pages ?fl sz m = Inr (mem_at, m4)" "mem_at \<noteq> 0" "freelist_inv ?fl m4 bs2" "owned ?fl bs2 \<subseteq> S1" "same_outside S1 m m4"
      "span mem_at (unat sz) \<subseteq> S1" "span mem_at (unat sz) \<inter> owned ?fl bs2 = {}" "length bs1 \<le> Suc (length bs2)"
    unfolding sz(2) by metis
  define m5 where "m5 = memset m4 mem_at 0 sz"
  have o5: "same_outside (span mem_at (unat sz)) m4 m5" unfolding m5_def by (rule same_outside_memset)
  have oS: "same_outside S1 m m5" by (rule same_outside_mono [OF same_outside_trans [OF al(5) o5]]) (use al(6) in blast)
  have "heap_inv (l_heap L) m5 ((a, z) # hs)" by (rule heap_inv_frame [OF hp oS]) (use d(1) in \<open>simp add: H_def\<close>)
  from heap_array [OF this room] obtain m6 where k: "kmalloc (l_heap L) (of_nat (16 * Suc n)) m5 = Inr (a + 2, m6)" "same_outside H m5 m6"
      "span (a + 2) (16 * Suc n) \<subseteq> H" "0 \<notin> span (a + 2) (16 * Suc n)" "a + 2 \<noteq> 0"
    unfolding H_def by metis
  have e: "16 * (of_nat n + 1) = (of_nat (16 * Suc n) :: u32)" by simp
  have f5: "freelist_inv ?fl m5 bs2" by (rule freelist_inv_frame [OF al(3) o5 al(7)])
  have f6: "freelist_inv ?fl m6 bs2" by (rule freelist_inv_frame [OF f5 k(2)]) (use al(4) d(1) in blast)
  have o6: "same_outside (S1 \<union> H) m m6" by (rule same_outside_trans [OF oS k(2)])
  have V: "(S1 \<union> H) \<inter> vm_set m pd = {}" using d(2,3) pd(2) by (auto simp: vm_set_def)
  note vm = vm_frame [OF pd(1) o6 V al(4)]
  have z: "m6 (mem_at + of_nat j) = 0" if j: "j < unat sz" for j
  proof -
    have i: "mem_at + of_nat j \<in> span mem_at (unat sz)" by (rule span_elem [OF j]) (simp add: less_imp_le)
    then have "mem_at + of_nat j \<notin> H" using al(6) d(1) by blast
    then have "m6 (mem_at + of_nat j) = m5 (mem_at + of_nat j)" by (rule byte_frame [OF k(2)])
    then show ?thesis using i by (simp add: m5_def memset_def span_def word_less_nat_alt)
  qed
  have u: "\<forall>q < 2 ^ 19. user_page m6 pd q = None" using vm(3) pd(3) by simp
  from vm(4) pd(2) have t: "tables m6 pd = {}" by simp
  show thesis
    by (rule that [OF al(1,2) _ f6 al(4,8,6,7) _ vm(1) t u o6 k(3,4,5)]) (use k(1) z in \<open>simp_all only: e m5_def, simp\<close>)
qed

text \<open>Everything up to the loop over the program headers.\<close>

lemma load_prepare:
  fixes p kd bin :: u32
  assumes ok: "load_ok L memtab kd p bin m bs ((a, z) # hs) rs"
    and prog: "find_file k path m ROOT_INO = Inr (Some i)" "bin = read32 m (ino_tbl k + 36 * i + 28)" "read32 m bin = ELFMAGIC"
    and big: "\<exists>b \<in> set (tl bs). image_bytes m bin \<le> snd b"
    and room: "16 * Suc (length (loadable (elf_headers m bin))) \<le> 0xFF6" "chunk_size (of_nat (16 * Suc (length (loadable (elf_headers m bin))))) < z"
  defines "h \<equiv> GETMEMMAP memtab m p" and "F \<equiv> owned (l_freelist L) bs" and "H \<equiv> owned (l_heap L) ((a, z) # hs)"
    and "sz \<equiv> image_bytes m bin" and "segs \<equiv> loadable (elf_headers m bin)" and "regions \<equiv> a + 2"
    and "R \<equiv> span p 104 \<union> span (read32 m (p + 20)) 68 \<union> elf_span m bin \<union> span (GETMEMMAP memtab m p + 4) 4"
  obtains pd mem_at m' S where
    "loadelf L k memtab kd p path m = bindE (load_segments L memtab p pd bin regions (unat (read16 m (bin + 44))) (bin + read32 m (bin + 28)) 0 mem_at m')
       (load_last L memtab p pd bin regions)"
    and "fork_areas S (span regions (16 * Suc (length segs))) pd (span mem_at (unat sz)) h R"
    and "load_inv (l_freelist L) pd h S (span regions (16 * Suc (length segs))) (span mem_at (unat sz)) m' S mem_at (unat sz) regions (Suc (length segs)) []"
    and "\<forall>q < 2 ^ 19. user_page m' pd q = None" and "read32 m' (p + 12) = image_end segs" and "read32 m' (h + 4) = sz"
    and "same_outside (F \<union> H \<union> span h 8 \<union> span (p + 12) 4) m m'" and "S \<subseteq> F" and "span pd 4096 \<subseteq> F" and "span mem_at (unat sz) \<subseteq> F"
    and "span regions (16 * Suc (length segs)) \<subseteq> H" and "regions \<noteq> 0" and "length bs \<le> 2 + freelist_stock (l_freelist L) m'"
proof -
  let ?fl = "l_freelist L" and ?E = "elf_span m bin" and ?tf = "read32 m (p + 20)" and ?n = "Suc (length segs)" and ?P = "span p 104"
  let ?G = "span regions (16 * ?n)"
  have o: "freelist_inv ?fl m bs" "F \<subseteq> high" "heap_inv (l_heap L) m ((a, z) # hs)" "slist m 12 h rs" "sep_nodes 16 h rs"
      "\<forall>x \<in> set (elf_headers m bin). p_type x \<noteq> 2 \<and> p_type x \<noteq> 3" "sz \<noteq> 0"
    using ok by (simp_all add: load_ok_def Let_def F_def h_def sz_def)
  have d: "F \<inter> H = {}" "F \<inter> span h 8 = {}" "F \<inter> ?P = {}" "F \<inter> span ?tf 68 = {}" "F \<inter> ?E = {}" "F \<inter> span kd 4096 = {}" "F \<inter> regions_span rs = {}"
      "H \<inter> span h 8 = {}" "H \<inter> ?P = {}" "H \<inter> span ?tf 68 = {}" "H \<inter> ?E = {}" "span h 8 \<inter> ?P = {}" "span h 8 \<inter> span ?tf 68 = {}" "span h 8 \<inter> ?E = {}"
      "?P \<inter> span ?tf 68 = {}" "?P \<inter> ?E = {}" "span ?tf 68 \<inter> ?E = {}"
    using ok by (simp_all add: load_ok_def Let_def F_def H_def h_def Int_Un_distrib)
  have h8: "span h 4 \<subseteq> span h 8" "span (h + 4) 4 \<subseteq> span h 8" "span h 4 \<inter> span (h + 4) 4 = {}"
    using span_mono [of 4 8 h] span_sub [of 4 4 8 h] apart_span [of h 4 "h + 4" 4] by (simp_all add: apart_def)
  have p4: "span p 4 \<subseteq> ?P" "span (p + 12) 4 \<subseteq> ?P" "span p 4 \<inter> span (p + 12) 4 = {}"
    using span_mono [of 4 104 p] span_sub [of 12 4 104 p] apart_span [of p 4 "p + 12" 4] by (simp_all add: apart_def)
  have "bs \<noteq> []" using big by auto
  moreover have "span kd 4096 \<inter> F = {}" using d(6) by blast
  ultimately obtain pd m1 bs1 where c: "copykvm (alloc_pages ?fl) kd m = Inr (pd, m1)" "freelist_inv ?fl m1 bs1" "owned ?fl bs1 \<subseteq> F"
      "span pd 4096 \<subseteq> F" "pd_inv m1 pd (owned ?fl bs1)" "tables m1 pd = {}" "\<forall>q < 2 ^ 19. user_page m1 pd q = None"
      "same_outside F m m1" "length bs \<le> Suc (length bs1)" "set (tl bs) \<subseteq> set bs1"
    using copykvm_blocks [OF o(1)] unfolding F_def by blast
  note e1 = elf_frame [OF c(8) d(5)]
  have scan: "scan_segments m1 (unat (read16 m1 (bin + 44))) (bin + read32 m1 (bin + 28)) 0xFFFFFFFF 0 0 =
      Some (image_start segs, image_end segs, of_nat (length segs))"
    using scan_segments_eq [of m1 "bin + read32 m1 (bin + 28)" "unat (read16 m1 (bin + 44))"] o(6) e1(4)
    by (simp add: elf_headers_def [symmetric] image_start_def image_end_def segs_def)
  have "read32 m1 p = read32 m p" by (rule same_outside_read32 [OF c(8)]) (use p4(1) d(3) in blast)
  then have hm1: "GETMEMMAP memtab m1 p = h" by (simp add: GETMEMMAP_def h_def)
  have "read32 m1 h = read32 m h" by (rule same_outside_read32 [OF c(8)]) (use h8(1) d(2) in blast)
  then have sl1: "slist m1 12 h rs" by (rule slist_relink [OF o(4) _ c(8) d(7)])
  have "apart h 4 p 4" using h8(1) p4(1) d(12) by (auto simp: apart_iff_span)
  from drop_regions_empties [OF sl1 o(5) hm1 this] obtain m2 where
    dr: "drop_regions memtab p (SLIST_FIRST m1 (GETMEMMAP memtab m1 p)) m1 = Some (Inr m2)" "read32 m2 h = 0" "same_outside (span h 4) m1 m2"
    using slist_first [OF sl1] by (auto simp: SLIST_FIRST_def hm1)
  define m3 where "m3 = write32 m2 (p + 12) (image_end segs)"
  let ?C = "span h 4 \<union> span (p + 12) 4" and ?S1 = "owned ?fl bs1"
  have o3: "same_outside ?C m1 m3" unfolding m3_def by (rule same_outside_trans [OF dr(3) same_outside_write32])
  have C: "?C \<subseteq> span h 8 \<union> ?P" using h8(1) p4(2) by blast
  have CF: "?C \<inter> F = {}" and CH: "?C \<inter> H = {}" using C d(2,3,8,9) by blast+
  have f3: "freelist_inv ?fl m3 bs1" by (rule freelist_inv_frame [OF c(2) o3]) (use CF c(3) in blast)
  have o03: "same_outside (F \<union> ?C) m m3" by (rule same_outside_trans [OF c(8) o3])
  have hp3: "heap_inv (l_heap L) m3 ((a, z) # hs)" by (rule heap_inv_frame [OF o(3) o03]) (use d(1) CH in \<open>auto simp: H_def\<close>)
  have "?C \<inter> vm_set m1 pd = {}" using CF c(4,6) by (auto simp: vm_set_def)
  note vm3 = vm_frame [OF c(5) o3 this order_refl]
  have t3: "tables m3 pd = {}" using vm3(4) c(6) by simp
  have u3: "\<forall>q < 2 ^ 19. user_page m3 pd q = None" using vm3(3) c(7) by simp
  have szr: "pg_roundup sz = sz" unfolding sz_def image_bytes_def by (rule pg_roundup_id) simp
  have big1: "\<exists>b \<in> set bs1. sz \<le> snd b" using big c(10) by (auto simp: sz_def)
  have pdS: "span pd 4096 \<inter> ?S1 = {}" using c(5) by (simp add: pd_inv_def)
  have SH: "?S1 \<inter> H = {}" "span pd 4096 \<inter> H = {}" using c(3,4) d(1) by blast+
  from load_alloc [OF f3 o(7) szr big1 hp3 room [folded segs_def] vm3(1) t3 u3, folded H_def regions_def, OF SH(1) pdS SH(2)]
  obtain mem_at m4 m6 bs2 where al: "alloc_pages ?fl sz m3 = Inr (mem_at, m4)" "mem_at \<noteq> 0"
    "kmalloc (l_heap L) (16 * (of_nat (length segs) + 1)) (memset m4 mem_at 0 sz) = Inr (regions, m6)"
    "freelist_inv ?fl m6 bs2" "owned ?fl bs2 \<subseteq> ?S1" "length bs1 \<le> Suc (length bs2)"
    "span mem_at (unat sz) \<subseteq> ?S1" "span mem_at (unat sz) \<inter> owned ?fl bs2 = {}"
    "\<forall>k < unat sz. m6 (mem_at + of_nat k) = 0" "pd_inv m6 pd (owned ?fl bs2)" "tables m6 pd = {}"
    "\<forall>q < 2 ^ 19. user_page m6 pd q = None" "same_outside (?S1 \<union> H) m3 m6" "?G \<subseteq> H" "0 \<notin> ?G" "regions \<noteq> 0"
    by metis
  let ?S = "owned ?fl bs2" and ?M = "span mem_at (unat sz)"
  define m7 where "m7 = write32 m6 (h + 4) sz"
  have o7: "same_outside (span (h + 4) 4) m6 m7" unfolding m7_def by (rule same_outside_write32)
  have o37: "same_outside (?S1 \<union> H \<union> span (h + 4) 4) m3 m7" by (rule same_outside_trans [OF al(13) o7])
  have o07: "same_outside (F \<union> H \<union> span h 8 \<union> span (p + 12) 4) m m7"
    by (rule same_outside_mono [OF same_outside_trans [OF o03 o37]]) (use c(3) h8(1,2) in blast)
  have "(F \<union> H \<union> span h 8 \<union> span (p + 12) 4) \<inter> ?E = {}" using d(5,11,14,16) p4(2) by blast
  note e7 = elf_frame [OF o07 this]
  have o06: "same_outside (F \<union> ?C \<union> (?S1 \<union> H)) m m6" by (rule same_outside_trans [OF o03 al(13)])
  have "span p 4 \<inter> (F \<union> ?C \<union> (?S1 \<union> H)) = {}" using p4(1,3) h8(1) c(3) d(3,9,12) by blast
  then have "read32 m6 p = read32 m p" by (rule same_outside_read32 [OF o06])
  then have hm6: "GETMEMMAP memtab m6 p = h" by (simp add: GETMEMMAP_def h_def)
  have szd: "sz = pg_roundup (image_end segs - image_start segs + 0x1000)" by (simp add: sz_def segs_def image_bytes_def)
  have eq: "loadelf L k memtab kd p path m = bindE (load_segments L memtab p pd bin regions (unat (read16 m (bin + 44)))
      (bin + read32 m (bin + 28)) 0 mem_at m7) (load_last L memtab p pd bin regions)"
    using loadelf_eq [OF prog c(1) scan dr(1) szd _ al(2,3), of m7] al(1) hm6 e1(2) e7(3) by (simp add: m3_def m7_def)
  have "span (p + 12) 4 \<inter> (?S1 \<union> H \<union> span (h + 4) 4) = {}" using p4(2) c(3) h8(2) d(3,9,12) by blast
  from same_outside_read32 [OF o37 this] have brk: "read32 m7 (p + 12) = image_end segs" by (simp add: m3_def)
  have "span h 4 \<inter> (?S1 \<union> H \<union> span (h + 4) 4) = {}" using h8(1,3) c(3) d(2,8) by blast
  from same_outside_read32 [OF o37 this] have "read32 m7 h = read32 m3 h" .
  also have "\<dots> = 0"
  proof -
    have "span h 4 \<inter> span (p + 12) 4 = {}" using h8(1) p4(2) d(12) by blast
    then show ?thesis using dr(2) same_outside_read32 [OF same_outside_write32] unfolding m3_def by metis
  qed
  finally have sl7: "slist m7 12 h []" by (simp add: slist_def)
  have "span (h + 4) 4 \<inter> ?S = {}" and hv: "span (h + 4) 4 \<inter> vm_set m6 pd = {}" and hM: "span (h + 4) 4 \<inter> ?M = {}"
    using h8(2) al(5,7,11) c(3,4) d(2) unfolding vm_set_def by blast+
  from freelist_inv_frame [OF al(4) o7 this(1)] have f7: "freelist_inv ?fl m7 bs2" .
  note vm7 = vm_frame [OF al(10) o7 hv order_refl]
  have u7: "\<forall>q < 2 ^ 19. user_page m7 pd q = None" using vm7(3) al(12) by simp
  have z7: "m7 (mem_at + of_nat j) = 0" if j: "j < unat sz" for j
  proof -
    have "mem_at + of_nat j \<in> ?M" by (rule span_elem [OF j]) (simp add: less_imp_le)
    then have "mem_at + of_nat j \<notin> span (h + 4) 4" using hM by blast
    then show ?thesis using byte_frame [OF o7] al(9) j by simp
  qed
  have sub: "?S \<subseteq> F" "?M \<subseteq> F" using al(5,7) c(3) by blast+
  have inv7: "load_inv ?fl pd h ?S ?G ?M m7 ?S mem_at (unat sz) regions ?n []"
    unfolding load_inv_def freelist_owns_def
    using f7 vm7(1,4) al(11,15) z7 sl7 room(1) by (auto simp: less_imp_le segs_def regions_span_def)
  have "F \<inter> span (h + 4) 4 = {}" "H \<inter> span (h + 4) 4 = {}" "span h 4 \<inter> ?P = {}" "span h 4 \<inter> span ?tf 68 = {}" "span h 4 \<inter> ?E = {}"
    using h8(1,2) d(2,8,12,13,14) by blast+
  then have Rs: "F \<inter> R = {}" "H \<inter> R = {}" "span h 4 \<inter> R = {}"
    unfolding R_def h_def [symmetric] using d(3-5,9-11) h8(3) by (simp_all add: Int_Un_distrib)
  have hF: "F \<inter> span h 4 = {}" "H \<inter> span h 4 = {}" using d(2,8) h8(1) by blast+
  note ds = disjoint_sub [OF d(1)] disjoint_sub [OF hF(1) _ order_refl] disjoint_sub [OF hF(2) _ order_refl]
    disjoint_sub [OF Rs(1) _ order_refl] disjoint_sub [OF Rs(2) _ order_refl]
  have "?S \<inter> span pd 4096 = {}" "span pd 4096 \<inter> ?M = {}" "?S \<inter> ?M = {}" "?G \<inter> span pd 4096 = {}" "?G \<inter> ?M = {}"
    using pdS al(5,7,8) ds(1) [OF c(4) al(14)] ds(1) [OF sub(2) al(14)] by blast+
  then have areas: "fork_areas ?S ?G pd ?M h R"
    unfolding fork_areas_def using subset_trans [OF sub(1) o(2)] Rs(3) ds(1) [OF sub(1) al(14)]
      ds(2) [OF sub(1)] ds(2) [OF sub(2)] ds(2) [OF c(4)] ds(3) [OF al(14)] ds(4) [OF sub(1)] ds(4) [OF sub(2)] ds(4) [OF c(4)] ds(5) [OF al(14)]
    by simp
  show thesis
    by (rule that [OF eq areas inv7 u7 brk _ o07 sub(1) c(4) sub(2) al(14,16)])
      (use c(9) al(6) freelist_stock_eq [OF f7] in \<open>simp_all add: m7_def\<close>)
qed

text \<open>The regions of the segments and of the stack one after the other.\<close>

lemma seg_len_pages: "pg_roundup (seg_len h) = seg_len h"
  by (rule pg_roundup_id) (simp add: seg_len_def)

lemma segs_append:
  shows "forked_pages (map seg_region hs @ rs) a f = forked_pages rs (a + sum_list (map seg_len hs)) (forked_pages (map seg_region hs) a f)"
    and "clones (map seg_region hs @ rs) a = clones (map seg_region hs) a @ clones rs (a + sum_list (map seg_len hs))"
    and "table_need (map seg_region hs @ rs) = table_need (map seg_region hs) + table_need rs"
  by (induction hs arbitrary: a f) (simp_all add: seg_region_def seg_len_pages add.assoc)

lemma set_exec_facts:
  fixes p bin pd t :: u32 and m :: mem
  assumes "read32 m (p + 20) = t" and d: "span p 104 \<inter> span t 68 = {}" "span p 104 \<inter> span bin 52 = {}" "span t 68 \<inter> span bin 52 = {}"
  defines "m' \<equiv> set_exec p bin pd m"
  shows "read32 m' (p + 4) = v2p pd" and "trap_regs m' t = (trap_regs m t)\<lparr> eip := read32 m (bin + 24), esp := KERNEL_OFFSET \<rparr>"
    and "same_outside (span (p + 4) 4 \<union> span t 68) m m'"
proof -
  have P: "span (p + i) 4 \<subseteq> span p 104" if "unat i + 4 \<le> 104" for i by (rule span_sub [OF that])
  have T: "span (t + i) 4 \<subseteq> span t 68" if "unat i + 4 \<le> 68" for i by (rule span_sub [OF that])
  have pt: "apart (p + i) 4 (t + j) 4" if "unat i + 4 \<le> 104" "unat j + 4 \<le> 68" for i j
    using P [OF that(1)] T [OF that(2)] d(1) by (auto simp: apart_iff_span)
  have "span (bin + 24) 4 \<subseteq> span bin 52" by (rule span_sub) simp
  then have b: "apart (p + 4) 4 (bin + 24) 4" using P [of 4] d(2) by (auto simp: apart_iff_span)
  have "apart (p + 4) 4 (p + 20) 4" by (simp add: apart_def)
  then have r20: "read32 (write32 m (p + 4) x) (p + 20) = t" for x using assms(1) by (simp add: read32_write32_apart)
  then have r20': "read32 (write32 (write32 m (p + 4) x) (t + 48) y) (p + 20) = t" for x y
    using pt [of 20 48] by (simp add: read32_write32_apart apart_sym)
  have m': "m' = write32 (write32 (write32 m (p + 4) (v2p pd)) (t + 48) (read32 m (bin + 24))) (t + 60) KERNEL_OFFSET"
    unfolding m'_def set_exec_def Let_def r20 r20' using b by (simp add: read32_write32_apart)
  show "read32 m' (p + 4) = v2p pd" using pt [of 4 48] pt [of 4 60] by (simp add: m' read32_write32_apart apart_sym)
  show "same_outside (span (p + 4) 4 \<union> span t 68) m m'"
    unfolding m' using T [of 48] T [of 60] by (intro same_outside_write32_in same_outside_refl) auto
  have w: "read32 (write32 m (p + 4) x) (t + i) = read32 m (t + i)" if "unat i + 4 \<le> 68" for i x
    using pt [OF _ that, of 4] by (simp add: read32_write32_apart)
  show "trap_regs m' t = (trap_regs m t)\<lparr> eip := read32 m (bin + 24), esp := KERNEL_OFFSET \<rparr>"
    unfolding m' trap_regs_def
    using w [of 0] w [of 4] w [of 8] w [of 16] w [of 20] w [of 24] w [of 28] w [of 32] w [of 36] w [of 40] w [of 44] w [of 52] w [of 56] w [of 64]
    by (simp add: mem_simps apart_def)
qed

text \<open>What a program image looks like once it is loaded: \<open>js\<close> are the regions, \<open>mem_at\<close> the memory of the segments and of
  the stack.\<close>

definition loaded_image :: "mem \<Rightarrow> mem \<Rightarrow> u32 \<Rightarrow> u32 \<Rightarrow> proghdr list \<Rightarrow> u32 \<Rightarrow> u32 \<Rightarrow> u32 list \<Rightarrow> bool" where
  "loaded_image m m' h bin segs pd mem_at js \<longleftrightarrow> loaded_segs m m' bin segs mem_at \<and> slist m' 12 h (rev js) \<and>
     map (region_of m') js = clones (map seg_region segs @ [stack_region]) mem_at \<and>
     (\<forall>q < 2 ^ 19. user_page m' pd q = forked_pages (map seg_region segs @ [stack_region]) mem_at (\<lambda>q. None) q)"

text \<open>Where the parts of the image are: the page directory, its tables and the memory in the blocks of the page allocator, the regions on
  the heap. Whoever writes to neither leaves the image as it is.\<close>

definition image_in :: "u32 \<Rightarrow> u32 set \<Rightarrow> u32 set \<Rightarrow> mem \<Rightarrow> u32 \<Rightarrow> u32 \<Rightarrow> u32 \<Rightarrow> nat \<Rightarrow> u32 list \<Rightarrow> bool" where
  "image_in fl F H m h pd mem_at l js \<longleftrightarrow> (\<exists>S0 G S a n c. fork_areas S0 G pd (span mem_at l) h {} \<and>
     load_inv fl pd h S0 G (span mem_at l) m S a n c 0 (rev js) \<and> S0 \<subseteq> F \<and> G \<subseteq> H \<and> span pd 4096 \<subseteq> F \<and> span mem_at l \<subseteq> F)"

lemma loaded_image_frame:
  assumes im: "loaded_image m0 m h bin segs pd mem_at js" and "image_in fl F H m h pd mem_at l js" and fit: "segs_fit segs l" "l \<le> 2 ^ 32"
    and o: "same_outside T m m'" and T: "T \<inter> F = {}" "T \<inter> H = {}" "T \<inter> span h 4 = {}"
  shows "loaded_image m0 m' h bin segs pd mem_at js"
proof -
  obtain S0 G S a n c where i: "fork_areas S0 G pd (span mem_at l) h {}" "load_inv fl pd h S0 G (span mem_at l) m S a n c 0 (rev js)"
      "S0 \<subseteq> F" "G \<subseteq> H" "span pd 4096 \<subseteq> F" "span mem_at l \<subseteq> F"
    using assms(2) unfolding image_in_def by blast
  have "S0 \<inter> T = {}" "G \<inter> T = {}" "span pd 4096 \<inter> T = {}" "span mem_at l \<inter> T = {}" "span h 4 \<inter> T = {}" using T i(3-6) by blast+
  then have ar: "fork_areas S0 G pd (span mem_at l) h T" using i(1) by (simp add: fork_areas_def)
  note f = load_inv_frame [OF ar i(2) o order_refl]
  have g: "regions_span (rev js) \<subseteq> G" using i(2) by (simp add: load_inv_def)
  have "region_of m' j = region_of m j" if "j \<in> set js" for j
  proof (rule region_of_frame(1) [OF o])
    have "span j 16 \<subseteq> G" using that g by (auto simp: regions_span_def)
    then show "T \<inter> span j 16 = {}" using i(4) T(2) by blast
  qed
  then have "map (region_of m') js = map (region_of m) js" by (rule map_cong [OF refl])
  then have "map (region_of m') js = clones (map seg_region segs @ [stack_region]) mem_at" using im by (simp only: loaded_image_def)
  moreover have "loaded_segs m0 m' bin segs mem_at"
    by (rule loaded_segs_target [OF _ fit o]) (use im i(6) T(1) in \<open>auto simp: loaded_image_def\<close>)
  moreover have "slist m' 12 h (rev js)" using f(1) by (simp add: load_inv_def)
  ultimately show ?thesis using im f(2) by (simp add: loaded_image_def)
qed

lemma load_finish:
  fixes p pd bin regions n at1 mem_at h t :: u32
  assumes ar: "fork_areas S0 G pd M0 h R" and inv: "load_inv (l_freelist L) pd h S0 G M0 m S at1 left (regions + 16 * n) 1 (rev js)"
    and left: "4096 \<le> left" and reg: "regions \<noteq> 0" and h: "GETMEMMAP memtab m p = h" and t: "read32 m (p + 20) = t"
    and R: "span p 104 \<subseteq> R" "span t 68 \<subseteq> R" and d: "span p 104 \<inter> span t 68 = {}" "span p 104 \<inter> span bin 52 = {}" "span t 68 \<inter> span bin 52 = {}"
    and at1: "at1 = mem_at + sum_list (map seg_len segs)" and segs: "segs_fit segs l" "l \<le> 2 ^ 32" "span mem_at l \<subseteq> M0"
    and ld: "loaded_segs m0 m bin segs mem_at" "map (region_of m) js = clones (map seg_region segs) mem_at"
      "\<forall>q < 2 ^ 19. user_page m pd q = forked_pages (map seg_region segs) mem_at (\<lambda>q. None) q"
  defines "fl \<equiv> l_freelist L" and "T \<equiv> span (p + 4) 4 \<union> span t 68"
  obtains (fail) "load_last L memtab p pd bin regions (Some (n, at1), m) = Inl NullDeref" and "freelist_stock fl m < table_need [stack_region]"
  | (ok) m' js' S' where "load_last L memtab p pd bin regions (Some (n, at1), m) = Inr (0, m')" and "loaded_image m0 m' h bin segs pd mem_at js'"
      and "read32 m' (p + 4) = v2p pd" and "trap_regs m' t = (trap_regs m t)\<lparr> eip := read32 m (bin + 24), esp := KERNEL_OFFSET \<rparr>"
      and "same_outside (S0 \<union> span pd 4096 \<union> G \<union> span h 4 \<union> T) m m'"
      and "load_inv fl pd h S0 G M0 m' S' (at1 + 0x1000) (left - 4096) (regions + 16 * n + 16) 0 (rev js')"
proof -
  let ?m = "set_exec p bin pd m" and ?c = "regions + 16 * n"
  note e = set_exec_facts [OF t d, of pd, folded T_def]
  have g: "S0 \<inter> R = {}" "G \<inter> R = {}" "span pd 4096 \<inter> R = {}" "span h 4 \<inter> R = {}" "S0 \<inter> M0 = {}" "G \<inter> M0 = {}" "span pd 4096 \<inter> M0 = {}"
      "M0 \<inter> span h 4 = {}" "S0 \<inter> G = {}" "G \<inter> span pd 4096 = {}" "G \<inter> span h 4 = {}" "M0 \<inter> R = {}"
    using ar by (simp_all add: fork_areas_def)
  have P4: "span (p + 4) 4 \<subseteq> span p 104" by (rule span_sub) simp
  have TR: "T \<subseteq> R" using P4 R by (auto simp: T_def)
  note fr = load_inv_frame [OF ar inv e(3) TR]
  have p0: "span p 4 \<subseteq> span p 104" "span p 4 \<inter> span (p + 4) 4 = {}"
    using span_mono [of 4 104 p] apart_span [of p 4 "p + 4" 4] by (simp_all add: apart_def)
  have "read32 ?m p = read32 m p" by (rule same_outside_read32 [OF e(3)]) (use p0 d(1) in \<open>auto simp: T_def\<close>)
  then have gm: "GETMEMMAP memtab ?m p = h" using h by (simp add: GETMEMMAP_def)
  have pR: "span p 4 \<subseteq> R" using p0(1) R(1) by (rule subset_trans)
  have eq: "load_last L memtab p pd bin regions (Some (n, at1), m) = bindE (map_stack L memtab p pd ?c at1 ?m) (\<lambda>m. Inr (0, m))"
    using reg by (simp add: load_last_def)
  show thesis
  proof (rule map_stack_maps [OF ar fr(1) left gm pR])
    assume "map_stack L memtab p pd ?c at1 ?m = Inl NullDeref" "freelist_stock (l_freelist L) ?m < table_need [stack_region]"
    then show thesis using fail eq fr(3) by (simp add: fl_def)
  next
    let ?A = "S0 \<union> span pd 4096 \<union> span ?c 16 \<union> span h 4"
    fix m' S'
    assume s: "map_stack L memtab p pd ?c at1 ?m = Inr m'"
      "load_inv (l_freelist L) pd h S0 G M0 m' S' (at1 + 0x1000) (left - 4096) (?c + 16) 0 (?c # rev js)"
      "\<forall>q < 2 ^ 19. user_page m' pd q = forked_pages [stack_region] at1 (user_page ?m pd) q"
      "region_of m' ?c = (0x7FFFF000, v2p at1, 0x1000)" "same_outside ?A ?m m'"
    have i: "span ?c 16 \<subseteq> G" "regions_span (rev js) \<subseteq> G" "regions_span (rev js) \<inter> span ?c 16 = {}" using inv by (simp_all add: load_inv_def)
    have AR: "?A \<inter> R = {}" using g(1-4) i(1) by blast
    have o: "same_outside (T \<union> ?A) m m'" by (rule same_outside_trans [OF e(3) s(5)])
    have A4: "span (p + 4) 4 \<inter> ?A = {}" using AR P4 R(1) by blast
    have A68: "?A \<inter> span t 68 = {}" using AR R(2) by blast
    have "read32 m' (p + 4) = v2p pd" using same_outside_read32 [OF s(5) A4] e(1) by simp
    moreover have "trap_regs m' t = (trap_regs m t)\<lparr> eip := read32 m (bin + 24), esp := KERNEL_OFFSET \<rparr>"
      using trap_regs_frame [OF s(5) A68] e(2) by simp
    moreover have "same_outside (S0 \<union> span pd 4096 \<union> G \<union> span h 4 \<union> T) m m'" by (rule same_outside_mono [OF o]) (use i(1) in blast)
    moreover have "loaded_image m0 m' h bin segs pd mem_at (js @ [?c])"
      unfolding loaded_image_def
    proof (intro conjI allI impI)
      have "(T \<union> ?A) \<inter> M0 = {}" using TR i(1) g(5-8,12) by blast
      then have "(T \<union> ?A) \<inter> span mem_at l = {}" using segs(3) by blast
      from loaded_segs_target [OF ld(1) segs(1,2) o this] show "loaded_segs m0 m' bin segs mem_at" .
      show "slist m' 12 h (rev (js @ [?c]))" using s(2) by (simp add: load_inv_def)
      have "region_of m' j = region_of m j" if "j \<in> set js" for j
      proof (rule region_of_frame(1) [OF o])
        have "span j 16 \<subseteq> regions_span (rev js)" using that by (auto simp: regions_span_def)
        then show "(T \<union> ?A) \<inter> span j 16 = {}" using i(2,3) TR g(2,9-11) by blast
      qed
      then have "map (region_of m') js = clones (map seg_region segs) mem_at" using ld(2) by (metis map_eq_conv)
      then show "map (region_of m') (js @ [?c]) = clones (map seg_region segs @ [stack_region]) mem_at"
        using s(4) by (simp add: segs_append(2) at1 stack_region_def)
      fix q :: nat assume q: "q < 2 ^ 19"
      have "forked_pages [stack_region] at1 (user_page ?m pd) q =
          forked_pages [stack_region] at1 (forked_pages (map seg_region segs) mem_at (\<lambda>q. None)) q"
        by (rule forked_pages_cong) (use ld(3) fr(2) q in simp)
      then show "user_page m' pd q = forked_pages (map seg_region segs @ [stack_region]) mem_at (\<lambda>q. None) q"
        using s(3) q by (simp add: segs_append(1) at1)
    qed
    moreover have "load_last L memtab p pd bin regions (Some (n, at1), m) = Inr (0, m')" using eq s(1) by simp
    moreover have "load_inv fl pd h S0 G M0 m' S' (at1 + 0x1000) (left - 4096) (?c + 16) 0 (rev (js @ [?c]))" using s(2) by (simp add: fl_def)
    ultimately show thesis using ok by blast
  qed
qed

lemma loadelf_loads:
  fixes p kd bin :: u32
  assumes ok: "load_ok L memtab kd p bin m bs ((a, z) # hs) rs"
    and prog: "find_file k path m ROOT_INO = Inr (Some i)" "bin = read32 m (ino_tbl k + 36 * i + 28)" "read32 m bin = ELFMAGIC"
    and big: "\<exists>b \<in> set (tl bs). image_bytes m bin \<le> snd b"
    and room: "16 * Suc (length (loadable (elf_headers m bin))) \<le> 0xFF6" "chunk_size (of_nat (16 * Suc (length (loadable (elf_headers m bin))))) < z"
  defines "h \<equiv> GETMEMMAP memtab m p" and "t \<equiv> read32 m (p + 20)" and "segs \<equiv> loadable (elf_headers m bin)"
    and "W \<equiv> owned (l_freelist L) bs \<union> owned (l_heap L) ((a, z) # hs) \<union> span (GETMEMMAP memtab m p) 8 \<union> span (p + 12) 4"
  shows "(loadelf L k memtab kd p path m = Inl NullDeref \<and> length bs < 2 + table_need (map seg_region segs @ [stack_region])) \<or>
    (\<exists>pd mem_at js m'. loadelf L k memtab kd p path m = Inr (0, m') \<and> loaded_image m m' h bin segs pd mem_at js \<and>
      read32 m' (p + 4) = v2p pd \<and> read32 m' (p + 12) = image_end segs \<and> read32 m' (h + 4) = image_bytes m bin \<and>
      trap_regs m' t = (trap_regs m t)\<lparr> eip := read32 m (bin + 24), esp := KERNEL_OFFSET \<rparr> \<and>
      same_outside (W \<union> span (p + 4) 4 \<union> span t 68) m m' \<and>
      image_in (l_freelist L) (owned (l_freelist L) bs) (owned (l_heap L) ((a, z) # hs)) m' h pd mem_at (unat (image_bytes m bin)) js)"
proof -
  let ?fl = "l_freelist L" and ?F = "owned (l_freelist L) bs" and ?H = "owned (l_heap L) ((a, z) # hs)" and ?E = "elf_span m bin"
  let ?P = "span p 104" and ?sz = "image_bytes m bin" and ?r = "a + 2" and ?G = "span (a + 2) (16 * Suc (length segs))"
  let ?R = "?P \<union> span t 68 \<union> ?E \<union> span (h + 4) 4" and ?i = "unat (read16 m (bin + 44))" and ?ph = "bin + read32 m (bin + 28)"
  obtain pd mem_at m7 S where
    eq: "loadelf L k memtab kd p path m = bindE (load_segments L memtab p pd bin ?r ?i ?ph 0 mem_at m7) (load_last L memtab p pd bin ?r)"
    and ar: "fork_areas S ?G pd (span mem_at (unat ?sz)) h ?R"
    and inv: "load_inv ?fl pd h S ?G (span mem_at (unat ?sz)) m7 S mem_at (unat ?sz) ?r (Suc (length segs)) []"
    and u7: "\<forall>q < 2 ^ 19. user_page m7 pd q = None" and m7: "read32 m7 (p + 12) = image_end segs" "read32 m7 (h + 4) = ?sz"
    and o7: "same_outside W m m7" and sub: "S \<subseteq> ?F" "span pd 4096 \<subseteq> ?F" "span mem_at (unat ?sz) \<subseteq> ?F" "?G \<subseteq> ?H"
    and r0: "?r \<noteq> 0" and st: "length bs \<le> 2 + freelist_stock ?fl m7"
    unfolding h_def t_def segs_def W_def by (rule load_prepare [OF ok prog big room])
  have d: "?F \<inter> ?P = {}" "?F \<inter> span t 68 = {}" "?F \<inter> ?E = {}" "?H \<inter> ?P = {}" "?H \<inter> span t 68 = {}" "?H \<inter> ?E = {}"
      "span h 8 \<inter> ?P = {}" "span h 8 \<inter> span t 68 = {}" "span h 8 \<inter> ?E = {}" "?P \<inter> span t 68 = {}" "?P \<inter> ?E = {}" "span t 68 \<inter> ?E = {}"
      "?F \<inter> span h 8 = {}" "?H \<inter> span h 8 = {}"
    using ok by (simp_all add: load_ok_def Let_def h_def t_def Int_Un_distrib)
  have fit: "segs_fit segs (unat ?sz)" "\<forall>x \<in> set (elf_headers m bin). p_type x \<noteq> 2 \<and> p_type x \<noteq> 3"
    using ok by (simp_all add: load_ok_def Let_def segs_def)
  have p12: "span (p + 12) 4 \<subseteq> ?P" "span p 4 \<subseteq> ?P" "span (p + 20) 4 \<subseteq> ?P" "span p 4 \<inter> span (p + 12) 4 = {}" "span (p + 20) 4 \<inter> span (p + 12) 4 = {}"
    using span_sub [of 12 4 104 p] span_sub [of 20 4 104 p] span_mono [of 4 104 p] apart_span [of p 4 "p + 12" 4] apart_span [of "p + 20" 4 "p + 12" 4]
    by (simp_all add: apart_def)
  have W: "W = ?F \<union> ?H \<union> span h 8 \<union> span (p + 12) 4" by (simp add: W_def h_def)
  have WE: "W \<inter> ?E = {}" unfolding W using d(3,6,9,11) p12(1) by blast
  have Wp: "span p 4 \<inter> W = {}" unfolding W using d(1,4,7) p12(2,4) by blast
  have W20: "span (p + 20) 4 \<inter> W = {}" unfolding W using d(1,4,7) p12(3,5) by blast
  have Wt: "W \<inter> span t 68 = {}" unfolding W using d(2,5,8,10) p12(1) by blast
  note e7 = elf_frame [OF o7 WE]
  have hs7: "proghdrs m7 ?ph ?i = elf_headers m bin" using e7(2-4) by (simp add: elf_headers_def)
  have gm: "GETMEMMAP memtab m7 p = h" using same_outside_read32 [OF o7 Wp] by (simp add: GETMEMMAP_def h_def)
  have t7: "read32 m7 (p + 20) = t" using same_outside_read32 [OF o7 W20] by (simp add: t_def)
  have sd: "\<forall>x \<in> set segs. seg_data bin x \<subseteq> ?E" by (auto simp: elf_span_def segs_def)
  have R: "span p 4 \<subseteq> ?R" "span ?ph (32 * ?i) \<subseteq> ?R" "\<forall>x \<in> set segs. seg_data bin x \<subseteq> ?R"
    using p12(2) sd by (auto simp: elf_span_def)
  have bE: "span bin 52 \<subseteq> ?E" by (auto simp: elf_span_def)
  have b: "?P \<inter> span bin 52 = {}" "span t 68 \<inter> span bin 52 = {}" using bE d(11,12) by blast+
  have inv0: "load_inv ?fl pd h S ?G (span mem_at (unat ?sz)) m7 S mem_at (unat ?sz) (?r + 16 * 0) (Suc (length segs)) []" using inv by simp
  note ls = load_segments_loads [where n = 0 and i = ?i and ph = ?ph and m = m7, unfolded hs7, folded segs_def,
    OF ar R(1) r0 inv0 R(2) phnum_bound fit(2) R(3) fit(1) gm]
  have need: "table_need (map seg_region segs @ [stack_region]) = table_need (map seg_region segs) + table_need [stack_region]"
    by (rule segs_append(3))
  from ls show ?thesis
  proof (elim disjE exE conjE)
    assume "load_segments L memtab p pd bin ?r ?i ?ph 0 mem_at m7 = Inl NullDeref" "freelist_stock ?fl m7 < table_need (map seg_region segs)"
    then show ?thesis using eq st by (simp add: need)
  next
    let ?V = "S \<union> span pd 4096 \<union> span (?r + 16 * 0) (16 * length segs) \<union> span h 4 \<union> span mem_at (unat ?sz)"
    fix m8 S8 n8 at8 left8 js
    assume l: "load_segments L memtab p pd bin ?r ?i ?ph 0 mem_at m7 = Inr (Some (n8, at8), m8)"
      "load_inv ?fl pd h S ?G (span mem_at (unat ?sz)) m8 S8 at8 left8 (?r + 16 * n8) 1 (rev js @ [])" "4096 \<le> left8"
      "at8 = mem_at + sum_list (map seg_len segs)" "map (region_of m8) js = clones (map seg_region segs) mem_at"
      "loaded_segs m7 m8 bin segs mem_at" "\<forall>q < 2 ^ 19. user_page m8 pd q = forked_pages (map seg_region segs) mem_at (user_page m7 pd) q"
      "same_outside ?V m7 m8" "freelist_stock ?fl m7 \<le> freelist_stock ?fl m8 + table_need (map seg_region segs)"
    have "span (?r + 16 * 0) (16 * length segs) \<subseteq> ?G" using span_mono [of "16 * length segs" "16 * Suc (length segs)" ?r] by simp
    then have VFH: "?V \<subseteq> ?F \<union> ?H \<union> span h 4" using sub by blast
    have h8: "span h 4 \<subseteq> span h 8" "span (h + 4) 4 \<subseteq> span h 8" "span h 4 \<inter> span (h + 4) 4 = {}"
      using span_mono [of 4 8 h] span_sub [of 4 4 8 h] apart_span [of h 4 "h + 4" 4] by (simp_all add: apart_def)
    have VP: "(?F \<union> ?H \<union> span h 4) \<inter> ?P = {}" using h8(1) d(1,4,7) by blast
    have VT: "(?F \<union> ?H \<union> span h 4) \<inter> span t 68 = {}" using h8(1) d(2,5,8) by blast
    have VE: "(?F \<union> ?H \<union> span h 4) \<inter> ?E = {}" using h8(1) d(3,6,9) by blast
    have V4: "(?F \<union> ?H \<union> span h 4) \<inter> span (h + 4) 4 = {}" using h8 d(13,14) by blast
    have o8: "same_outside (?F \<union> ?H \<union> span h 4) m7 m8" by (rule same_outside_mono [OF l(8) VFH])
    have rd: "read32 m8 x = read32 m7 x" if "span x 4 \<subseteq> ?P" for x
      by (rule same_outside_read32 [OF o8]) (use VP that in blast)
    have gm8: "GETMEMMAP memtab m8 p = h" using gm rd [OF p12(2)] by (simp add: GETMEMMAP_def)
    have t8: "read32 m8 (p + 20) = t" using t7 rd [OF p12(3)] by simp
    have en8: "read32 m8 (bin + 24) = read32 m (bin + 24)"
    proof -
      have "span (bin + 24) 4 \<subseteq> span bin 52" by (rule span_sub) simp
      then have "read32 m8 (bin + 24) = read32 m7 (bin + 24)" using same_outside_read32 [OF o8] VE bE by blast
      then show ?thesis using e7(1) by simp
    qed
    have tr8: "trap_regs m8 t = trap_regs m t" using trap_regs_frame [OF o7 Wt] trap_regs_frame [OF o8 VT] by simp
    have ld8: "loaded_segs m m8 bin segs mem_at" by (rule loaded_segs_frame [OF o7 _ l(6)]) (use sd WE in blast)
    have u8: "\<forall>q < 2 ^ 19. user_page m8 pd q = forked_pages (map seg_region segs) mem_at (\<lambda>q. None) q"
      using l(7) forked_pages_cong [of "user_page m7 pd" _ "\<lambda>q. None"] u7 by simp
    have lt: "unat ?sz \<le> 2 ^ 32" by (simp add: less_imp_le)
    have RR: "?P \<subseteq> ?R" "span t 68 \<subseteq> ?R" by blast+
    have inv8: "load_inv ?fl pd h S ?G (span mem_at (unat ?sz)) m8 S8 at8 left8 (?r + 16 * n8) 1 (rev js)" using l(2) by simp
    show ?thesis
    proof (rule load_finish [OF ar inv8 l(3) r0 gm8 t8 RR d(10) b l(4) fit(1) lt order_refl ld8 l(5) u8])
      assume "load_last L memtab p pd bin ?r (Some (n8, at8), m8) = Inl NullDeref" "freelist_stock ?fl m8 < table_need [stack_region]"
      then show ?thesis using eq l(1,9) st by (simp add: need)
    next
      let ?X = "S \<union> span pd 4096 \<union> ?G \<union> span h 4 \<union> (span (p + 4) 4 \<union> span t 68)"
      fix m9 js9 S9
      assume f: "load_last L memtab p pd bin ?r (Some (n8, at8), m8) = Inr (0, m9)" "loaded_image m m9 h bin segs pd mem_at js9"
        "read32 m9 (p + 4) = v2p pd" "trap_regs m9 t = (trap_regs m8 t)\<lparr> eip := read32 m8 (bin + 24), esp := KERNEL_OFFSET \<rparr>" "same_outside ?X m8 m9"
        "load_inv ?fl pd h S ?G (span mem_at (unat ?sz)) m9 S9 (at8 + 0x1000) (left8 - 4096) (?r + 16 * n8 + 16) 0 (rev js9)"
      have "fork_areas S ?G pd (span mem_at (unat ?sz)) h {}" using ar by (simp add: fork_areas_def)
      then have im: "image_in ?fl ?F ?H m9 h pd mem_at (unat ?sz) js9" unfolding image_in_def using f(6) sub by blast
      have o9: "same_outside (?F \<union> ?H \<union> span h 4 \<union> (span (p + 4) 4 \<union> span t 68)) m8 m9"
        by (rule same_outside_mono [OF f(5)]) (use sub in blast)
      have p4: "span (p + 4) 4 \<subseteq> ?P" "span (p + 12) 4 \<inter> span (p + 4) 4 = {}"
        using span_sub [of 4 4 104 p] apart_span [of "p + 12" 4 "p + 4" 4] by (simp_all add: apart_def)
      have "span (p + 12) 4 \<inter> (?F \<union> ?H \<union> span h 4 \<union> (span (p + 4) 4 \<union> span t 68)) = {}" using p12(1) p4 VP d(10) by blast
      from same_outside_read32 [OF o9 this] have "read32 m9 (p + 12) = image_end segs" using rd [OF p12(1)] m7(1) by simp
      moreover have "read32 m9 (h + 4) = ?sz"
      proof -
        have "span (h + 4) 4 \<inter> (?F \<union> ?H \<union> span h 4 \<union> (span (p + 4) 4 \<union> span t 68)) = {}" using h8(2) p4(1) V4 d(7,8) by blast
        from same_outside_read32 [OF o9 this] same_outside_read32 [OF o8, of "h + 4"] V4 m7(2) show ?thesis by (simp add: Int_commute)
      qed
      moreover have "same_outside (W \<union> span (p + 4) 4 \<union> span t 68) m m9"
        by (rule same_outside_mono [OF same_outside_trans [OF o7 same_outside_trans [OF o8 o9]]]) (use h8(1) in \<open>auto simp: W\<close>)
      moreover have "loadelf L k memtab kd p path m = Inr (0, m9)" using eq l(1) f(1) by simp
      ultimately show ?thesis using f(2-4) tr8 en8 im by auto
    qed
  qed
qed

section \<open>Properties\<close>

text \<open>A file \<^verbatim>\<open>/f\<close> with one segment of four bytes, a process with one region, four blocks of pages and a heap.\<close>

definition demo_blocks5 :: blocks where
  "demo_blocks5 = [(0x80002000, 0x1000), (0x80004000, 0x1000), (0x80006000, 0x1000), (0x80008000, 0x2000)]"

definition demo_elf :: mem where
  "demo_elf = fold (\<lambda>(a, v) m. write32 m a v)
     [(0x80000100, 0x80002000), (0x80002000, 0x1000), (0x80002004, 0x80004000), (0x80002008, 0x80000100),
      (0x80004000, 0x1000), (0x80004004, 0x80006000), (0x80004008, 0x80002004),
      (0x80006000, 0x1000), (0x80006004, 0x80008000), (0x80006008, 0x80004004),
      (0x80008000, 0x2000), (0x80008004, 0), (0x80008008, 0x80006004),
      (0x80000200, 0x80010000), (0x80010000, 0x100), (0x80010004, 0), (0x80025000, 0x80043000), (0x8004300C, 0),
      (0x80040000, 1), (0x80040014, 0x80041000), (0x80030064, 0x80060000),
      (0x80060000, 0x464C457F), (0x80060018, 0x1084), (0x8006001C, 52), (0x8006002C, 1),
      (0x80060034, 1), (0x80060038, 0x80), (0x8006003C, 0x1080), (0x80060044, 4), (0x80060048, 0x100), (0x80060080, 0x12345655)]
     ((\<lambda>_. 0) (0x8002010C := 0x2F, 0x8002010D := 0x66, 0x80050000 := 0x2F, 0x80050001 := 0x66))"

definition demo_segment :: proghdr where
  "demo_segment = \<lparr> p_type = 1, p_off = 0x80, p_va = 0x1080, p_filesz = 4, p_memsz = 0x100 \<rparr>"

lemma demo_elf_reads:
  "GETMEMMAP 0x80025000 demo_elf 0x80040000 = 0x80025000" "read32 demo_elf 0x80040014 = 0x80041000" "read32 demo_elf 0x80030064 = 0x80060000"
  "read32 demo_elf 0x80060000 = ELFMAGIC" "read32 demo_elf 0x80060018 = 0x1084" "read32 demo_elf 0x8006001C = 52"
  "proghdr_at demo_elf 0x80060034 = demo_segment"
  by (simp_all add: GETMEMMAP_def demo_elf_def proghdr_at_def demo_segment_def ELFMAGIC_def mem_simps apart_def)

lemma demo_elf_bytes: "read16 demo_elf 0x8006002C = 1" "demo_elf 0x80060080 = 0x55"
  by (simp_all add: demo_elf_def read16_def write32_def)

lemma demo_elf_file: "find_file demo_kinfo 0x80050000 demo_elf ROOT_INO = Inr (Some 2)"
proof -
  have n: "cstr demo_elf 0x80050000 [0x2F, 0x66]" "named demo_elf demo_kinfo 2 [0x2F, 0x66]"
    by (simp_all add: demo_elf_def demo_kinfo_def named_def read8_write32_apart apart_def)
  have "ino_n demo_kinfo = 3" by (simp add: demo_kinfo_def)
  from first_named_two [OF n(2) this] n(1) show ?thesis by (intro find_file_at)
qed

lemma demo_elf_lists:
  "freelist_inv 0x80000100 demo_elf demo_blocks5" "heap_inv 0x80000200 demo_elf [(0x80010000, 0x100)]"
  "slist demo_elf 12 0x80025000 [0x80043000]" "sep_nodes 16 0x80025000 [0x80043000]"
  by (simp_all add: freelist_inv_def demo_blocks5_def dlist_def block_ok_def block_apart_def heap_inv_def slist_def chunk_ok_def sep_nodes_def
      aligned_def demo_elf_def mem_simps apart_def)

lemma demo_rounding:
  "pg_roundup 0x180 = 0x1000" "pg_roundup 0x1180 = 0x2000" "pg_rounddown 0x1080 = 0x1000" "pg_roundup 0x2000 = 0x2000" "pg_roundup 0x100 = 0x1000"
  "pg_roundup 0x1000 = 0x1000" "pg_rounddown 0x7FFFF000 = 0x7FFFF000"
  by (simp_all add: pg_roundup_def roundup_def pg_rounddown_def rounddown_def)

lemma demo_elf_headers:
  "elf_headers demo_elf 0x80060000 = [demo_segment]" "loadable [demo_segment] = [demo_segment]" "seg_len demo_segment = 0x1000"
  "image_start [demo_segment] = 0x1000" "image_end [demo_segment] = 0x2000"
proof -
  have "proghdrs m ph 1 = [proghdr_at m ph]" for m ph by (simp only: One_nat_def proghdrs.simps)
  then show "elf_headers demo_elf 0x80060000 = [demo_segment]"
    by (simp add: elf_headers_def demo_elf_reads demo_elf_bytes)
  show "loadable [demo_segment] = [demo_segment]" "seg_len demo_segment = 0x1000" "image_start [demo_segment] = 0x1000" "image_end [demo_segment] = 0x2000"
    by (simp_all add: loadable_def demo_segment_def seg_len_def image_start_def image_end_def demo_rounding min_def max_def)
qed

lemma demo_image_bytes: "image_bytes demo_elf 0x80060000 = 0x2000"
  by (simp add: image_bytes_def demo_elf_headers demo_rounding)

lemma demo_elf_areas:
  "owned 0x80000100 demo_blocks5 = span 0x80000100 4 \<union> span 0x80002000 0x1000 \<union> span 0x80004000 0x1000 \<union> span 0x80006000 0x1000 \<union> span 0x80008000 0x2000"
  "owned 0x80000200 [(0x80010000, 0x100)] = span 0x80000200 4 \<union> span 0x80010000 0x100" "regions_span [0x80043000] = span 0x80043000 16"
  "elf_span demo_elf 0x80060000 = span 0x80060000 52 \<union> span 0x80060034 32 \<union> span 0x80060080 4"
proof -
  have "seg_data 0x80060000 demo_segment = span 0x80060080 4" by (simp add: seg_data_def demo_segment_def)
  then show "elf_span demo_elf 0x80060000 = span 0x80060000 52 \<union> span 0x80060034 32 \<union> span 0x80060080 4"
    by (auto simp: elf_span_def demo_elf_reads demo_elf_headers demo_elf_bytes)
qed (auto simp: owned_def demo_blocks5_def block_span_def regions_span_def)

lemma demo_load_ok: "load_ok demo_link 0x80025000 0x80001000 0x80040000 0x80060000 demo_elf demo_blocks5 [(0x80010000, 0x100)] [0x80043000]"
proof -
  have l: "l_freelist demo_link = 0x80000100" "l_heap demo_link = 0x80000200" by (simp_all add: demo_link_def)
  let ?F = "owned 0x80000100 demo_blocks5" and ?H = "owned 0x80000200 [(0x80010000, 0x100)]"
  note F = demo_elf_areas
  have "sorted_wrt (\<lambda>A B. A \<inter> B = {}) [?F, ?H, span 0x80025000 8, span 0x80040000 104, span 0x80041000 68,
      elf_span demo_elf 0x80060000 \<union> span 0x80001000 4096 \<union> regions_span [0x80043000]]"
    unfolding F sorted_wrt.simps list.set ball_simps Int_Un_distrib Int_Un_distrib2 Un_empty
    by (intro conjI apart_span TrueI) (simp_all add: apart_def)
  moreover have "span 0x80000100 4 \<subseteq> high" "span 0x80002000 0x1000 \<subseteq> high" "span 0x80004000 0x1000 \<subseteq> high"
      "span 0x80006000 0x1000 \<subseteq> high" "span 0x80008000 0x2000 \<subseteq> high"
    by (rule span_high; simp)+
  then have "?F \<subseteq> high" unfolding F by blast
  moreover have "seg_ok demo_segment" unfolding seg_ok_def demo_elf_headers(3) by (simp add: demo_segment_def demo_rounding)
  moreover have "p_type demo_segment = 1" by (simp add: demo_segment_def)
  ultimately show ?thesis
    unfolding load_ok_def Let_def l using demo_elf_lists by (simp add: demo_elf_reads demo_elf_headers demo_image_bytes)
qed

lemma demo_regions:
  assumes "ts = map seg_region [demo_segment] @ [stack_region]"
  shows "table_need ts = 2" and "forked_pages ts a (\<lambda>q. None) 1 = Some (pg_rounddown (v2p a) OR 7)"
proof -
  have ts: "ts = [(0x1080, 0, 0x1000), (0x7FFFF000, 0, 0x1000)]"
    unfolding assms by (simp add: seg_region_def demo_elf_headers stack_region_def) (simp add: demo_segment_def)
  have "{524287 ..< 524288 :: nat} = {524287}" by auto
  then show "table_need ts = 2" "forked_pages ts a (\<lambda>q. None) 1 = Some (pg_rounddown (v2p a) OR 7)"
    unfolding ts by (simp_all add: first_page_def page_count_def demo_rounding user_page_flags)
qed

text \<open>C25: \<^verbatim>\<open>loadelf\<close> of a program whose segments can be placed, with a block for the image and room for the regions on the heap:
  the process gets a new page directory in which exactly the pages of the segments and of the stack are mapped, to frames that hold the bytes
  of the file at the right offsets and zeros elsewhere; its list of regions describes these and nothing else; it starts at the entry point with
  an empty stack, and its break is the end of the image. Nothing is written outside the memory of the allocators, the two fields of the process,
  its entry in the table of memory maps and its trap frame. With fewer free blocks than the directory, the image and the page tables
  need, the loader may dereference a null pointer instead.\<close>

theorem loadelf_correct:
  fixes p kd bin t h :: u32
  assumes ok: "load_ok L memtab kd p bin m bs ((a, z) # hs) rs" and ht: "h = GETMEMMAP memtab m p" "t = read32 m (p + 20)"
    and prog: "find_file k path m ROOT_INO = Inr (Some i)" "bin = read32 m (ino_tbl k + 36 * i + 28)" "read32 m bin = ELFMAGIC"
    and segs: "segs = loadable (elf_headers m bin)"
    and room: "\<exists>b \<in> set (tl bs). image_bytes m bin \<le> snd b" "16 * Suc (length segs) \<le> 0xFF6" "chunk_size (of_nat (16 * Suc (length segs))) < z"
  shows "(loadelf L k memtab kd p path m = Inl NullDeref \<and> length bs < 2 + table_need (map seg_region segs @ [stack_region])) \<or>
    (\<exists>pd mem_at js m'. loadelf L k memtab kd p path m = Inr (0, m') \<and> loaded_image m m' h bin segs pd mem_at js \<and>
      read32 m' (p + 4) = v2p pd \<and> read32 m' (p + 12) = image_end segs \<and> read32 m' (h + 4) = image_bytes m bin \<and>
      trap_regs m' t = (trap_regs m t)\<lparr> eip := read32 m (bin + 24), esp := KERNEL_OFFSET \<rparr> \<and>
      same_outside (owned (l_freelist L) bs \<union> owned (l_heap L) ((a, z) # hs) \<union> span h 8 \<union> span (p + 12) 4 \<union> span (p + 4) 4 \<union> span t 68) m m')"
  using loadelf_loads [OF ok prog room(1) room(2,3) [unfolded segs]] unfolding ht segs by blast

theorem loadelf_correct_witness:
  "\<exists>pd mem_at m'. loadelf demo_link demo_kinfo 0x80025000 0x80001000 0x80040000 0x80050000 demo_elf = Inr (0, m') \<and>
     eip (trap_regs m' 0x80041000) = 0x1084 \<and> read32 m' 0x8004000C = 0x2000 \<and>
     user_page m' pd 1 = Some (pg_rounddown (v2p mem_at) OR 7) \<and> m' (mem_at + 0x80) = 0x55 \<and> m' mem_at = 0"
proof -
  let ?ts = "map seg_region [demo_segment] @ [stack_region]" and ?n = "\<lambda>q :: nat. None :: u32 option"
  have k: "ino_tbl demo_kinfo = 0x80030000" by (simp add: demo_kinfo_def)
  note t = demo_regions [OF refl]
  have sb: "seg_byte demo_elf 0x80060000 demo_segment 0x80 = 0x55" "seg_byte demo_elf 0x80060000 demo_segment 0 = 0"
    using demo_elf_bytes(2) by (simp_all add: seg_byte_def demo_segment_def)
  have b: "\<exists>b \<in> set (tl demo_blocks5). image_bytes demo_elf 0x80060000 \<le> snd b" by (simp add: demo_image_bytes demo_blocks5_def)
  have c: "chunk_size (of_nat (16 * Suc (length [demo_segment]))) < 0x100" by (simp add: chunk_size_def roundup_def)
  have "length demo_blocks5 = 4" by (simp add: demo_blocks5_def)
  with loadelf_correct [OF demo_load_ok refl refl demo_elf_file _ _ _ b, of "[demo_segment]"] t(1) c
  obtain pd mem_at js m' where
    r: "loadelf demo_link demo_kinfo 0x80025000 0x80001000 0x80040000 0x80050000 demo_elf = Inr (0, m')"
      "loaded_image demo_elf m' 0x80025000 0x80060000 [demo_segment] pd mem_at js" "read32 m' 0x8004000C = image_end [demo_segment]"
      "trap_regs m' 0x80041000 = (trap_regs demo_elf 0x80041000)\<lparr> eip := 0x1084, esp := KERNEL_OFFSET \<rparr>"
    by (auto simp: demo_elf_reads demo_elf_headers k)
  have "user_page m' pd 1 = Some (pg_rounddown (v2p mem_at) OR 7)" using r(2) t(2) unfolding loaded_image_def by simp
  moreover have "\<forall>k < 4096. m' (mem_at + of_nat k) = seg_byte demo_elf 0x80060000 demo_segment k"
    using r(2) by (simp add: loaded_image_def demo_elf_headers)
  from this [rule_format, of "0x80"] this [rule_format, of 0] have "m' (mem_at + 0x80) = 0x55" "m' mem_at = 0" using sb by simp_all
  ultimately show ?thesis using r(1,3,4) by (auto simp: demo_elf_headers)
qed

end
