(* ===== verification/Execve.thy ===== *)
theory Execve
  imports Load_Elf
begin

text \<open>
  \<^verbatim>\<open>sys_execve\<close> of \<^verbatim>\<open>kernel/proc.c\<close>: the loader works on a copy of the process structure on the kernel stack, which is copied back
  once the program is loaded; then the process gives up the processor and goes on from its new image when it is dispatched.
\<close>

section \<open>Two copies of the process structure\<close>

text \<open>\<open>exec_ok\<close> is what \<^verbatim>\<open>sys_execve\<close> relies on beside what the loader does: the structure of the process is apart from everything
  that the loader writes to.\<close>

definition exec_ok :: "link \<Rightarrow> system \<Rightarrow> u32 \<Rightarrow> u32 \<Rightarrow> blocks \<Rightarrow> blocks \<Rightarrow> u32 list \<Rightarrow> bool" where
  "exec_ok L s loc bin bs hs rs \<longleftrightarrow> (let m = km (sk s); cur = curthread (sk s) in
     load_ok L (smemtab s) (skpagedir s) loc bin (copied m loc cur 104) bs hs rs \<and>
     span cur 104 \<inter> (owned (l_freelist L) bs \<union> owned (l_heap L) hs \<union> span (GETMEMMAP (smemtab s) m cur) 8 \<union> span loc 104 \<union> span (read32 m (cur + 20)) 68) = {})"

lemma yield_facts:
  assumes "cur = curthread k"
  shows "proc_state (km (yield k)) cur = (if proc_state (km k) cur = pstate_code RUNNING then pstate_code READY else proc_state (km k) cur)"
    and "same_outside (span (cur + 88) 4) (km k) (km (yield k))"
  using assms by (auto simp: yield_def Let_def cli_def set_state_def proc_state_def same_outside_write32)

lemma sys_execve_eq:
  assumes "loadelf L (sinfo s) (smemtab s) (skpagedir s) loc path (copied (km (sk s)) loc (curthread (sk s)) 104) = Inr (0, m')"
  shows "sys_execve L loc path s = Inr (None, s\<lparr> sk := yield ((sk s)\<lparr> km := copied m' (curthread (sk s)) loc 104 \<rparr>) \<rparr>)"
  using assms by (simp add: sys_execve_def on_mem_def Let_def)

section \<open>Properties\<close>

text \<open>C24: \<^verbatim>\<open>sys_execve\<close> of a program that the loader can load: the process keeps its identity and its trap frame, has the new page directory and break, and
  will go on at the entry point of the program, on an empty stack, with the segments of the file and the stack as its only user pages; it has given up
  the processor and is ready if it was running. With too few free blocks the loader may dereference a null pointer.\<close>

theorem sys_execve_correct:
  fixes loc bin cur t h :: u32
  assumes ok: "exec_ok L s loc bin bs ((a, z) # hs) rs" and m: "m = km (sk s)" "cur = curthread (sk s)" "m1 = copied m loc cur 104"
    and ht: "h = GETMEMMAP (smemtab s) m cur" "t = read32 m (cur + 20)"
    and prog: "find_file (sinfo s) path m1 ROOT_INO = Inr (Some i)" "bin = read32 m1 (ino_tbl (sinfo s) + 36 * i + 28)" "read32 m1 bin = ELFMAGIC"
    and segs: "segs = loadable (elf_headers m1 bin)"
    and room: "\<exists>b \<in> set (tl bs). image_bytes m1 bin \<le> snd b" "16 * Suc (length segs) \<le> 0xFF6" "chunk_size (of_nat (16 * Suc (length segs))) < z"
  shows "(sys_execve L loc path s = Inl NullDeref \<and> length bs < 2 + table_need (map seg_region segs @ [stack_region])) \<or>
    (\<exists>pd mem_at js k. sys_execve L loc path s = Inr (None, s\<lparr> sk := k \<rparr>) \<and> loaded_image m1 (km k) h bin segs pd mem_at js \<and>
      read32 (km k) cur = read32 m cur \<and> read32 (km k) (cur + 4) = v2p pd \<and> read32 (km k) (cur + 12) = image_end segs \<and>
      read32 (km k) (cur + 20) = t \<and> trap_regs (km k) t = (trap_regs m t)\<lparr> eip := read32 m1 (bin + 24), esp := KERNEL_OFFSET \<rparr> \<and>
      proc_state (km k) cur = (if proc_state m cur = pstate_code RUNNING then pstate_code READY else proc_state m cur))"
proof -
  let ?F = "owned (l_freelist L) bs" and ?H = "owned (l_heap L) ((a, z) # hs)" and ?C = "span cur 104" and ?P = "span loc 104"
  have lo: "load_ok L (smemtab s) (skpagedir s) loc bin m1 bs ((a, z) # hs) rs"
    and d: "?C \<inter> ?F = {}" "?C \<inter> ?H = {}" "?C \<inter> span h 8 = {}" "?C \<inter> ?P = {}" "?C \<inter> span t 68 = {}"
    using ok m ht by (simp_all add: exec_ok_def Let_def Int_Un_distrib)
  have c1: "read32 m1 (loc + j) = read32 m (cur + j)" if "unat j + 4 \<le> 104" for j
    using that unfolding m(3) by (intro read32_copied_inside) simp_all
  have h1: "GETMEMMAP (smemtab s) m1 loc = h" and t1: "read32 m1 (loc + 20) = t"
    using c1 [of 0] c1 [of 20] by (simp_all add: ht GETMEMMAP_def)
  have ld: "?F \<inter> ?P = {}" "?H \<inter> ?P = {}" "span h 8 \<inter> ?P = {}" "?P \<inter> span t 68 = {}" and fit: "segs_fit segs (unat (image_bytes m1 bin))"
    using lo by (simp_all add: load_ok_def Let_def h1 t1 segs Int_commute)
  have o1: "same_outside ?P m m1" unfolding m(3) by (rule same_outside_copied)
  from loadelf_loads [OF lo prog room(1) room(2,3) [unfolded segs], unfolded h1 t1, folded segs]
  show ?thesis
  proof (elim disjE exE conjE)
    assume "loadelf L (sinfo s) (smemtab s) (skpagedir s) loc path m1 = Inl NullDeref" "length bs < 2 + table_need (map seg_region segs @ [stack_region])"
    then show ?thesis by (simp add: sys_execve_def on_mem_def m Let_def)
  next
    fix pd mem_at js m2
    let ?W = "?F \<union> ?H \<union> span h 8 \<union> span (loc + 12) 4 \<union> span (loc + 4) 4 \<union> span t 68"
    assume l: "loadelf L (sinfo s) (smemtab s) (skpagedir s) loc path m1 = Inr (0, m2)" "loaded_image m1 m2 h bin segs pd mem_at js"
      "read32 m2 (loc + 4) = v2p pd" "read32 m2 (loc + 12) = image_end segs"
      "trap_regs m2 t = (trap_regs m1 t)\<lparr> eip := read32 m1 (bin + 24), esp := KERNEL_OFFSET \<rparr>" "same_outside ?W m1 m2"
      "image_in (l_freelist L) ?F ?H m2 h pd mem_at (unat (image_bytes m1 bin)) js"
    define m3 where "m3 = copied m2 cur loc 104"
    define k where "k = yield ((sk s)\<lparr> km := m3 \<rparr>)"
    have y: "proc_state (km k) cur = (if proc_state m3 cur = pstate_code RUNNING then pstate_code READY else proc_state m3 cur)"
        "same_outside (span (cur + 88) 4) m3 (km k)"
      using yield_facts [of cur "(sk s)\<lparr> km := m3 \<rparr>"] by (simp_all add: k_def m(2))
    have o3: "same_outside ?C m2 m3" unfolding m3_def by (rule same_outside_copied)
    have c88: "span (cur + 88) 4 \<subseteq> ?C" by (rule span_sub) simp
    have ok': "same_outside ?C m2 (km k)" by (rule same_outside_mono [OF same_outside_trans [OF o3 y(2)]]) (use c88 in blast)
    have c3: "read32 m3 (cur + j) = read32 m2 (loc + j)" if "unat j + 4 \<le> 104" for j
      using that unfolding m3_def by (intro read32_copied_inside) simp_all
    have k3: "read32 (km k) (cur + j) = read32 m3 (cur + j)" if "unat j + 4 \<le> 88" for j
      by (rule same_outside_read32 [OF y(2)], rule apart_span) (use that in \<open>simp add: apart_def word_le_nat_alt u32_sub\<close>)
    have kept: "read32 m2 (loc + j) = read32 m1 (loc + j)" if j: "j \<in> {0, 20, 88}" for j
    proof (rule same_outside_read32 [OF l(6)])
      have "span (loc + j) 4 \<subseteq> ?P" by (rule span_sub) (use j in auto)
      moreover have "span (loc + j) 4 \<inter> span (loc + 12) 4 = {}" "span (loc + j) 4 \<inter> span (loc + 4) 4 = {}"
        using j by (auto intro!: apart_span simp: apart_def)
      ultimately show "span (loc + j) 4 \<inter> ?W = {}" using ld by blast
    qed
    have im: "loaded_image m1 (km k) h bin segs pd mem_at js"
    proof (rule loaded_image_frame [OF l(2,7) fit _ ok' d(1,2)])
      show "unat (image_bytes m1 bin) \<le> 2 ^ 32" by (simp add: less_imp_le)
      show "?C \<inter> span h 4 = {}" using d(3) span_mono [of 4 8 h] by auto
    qed
    have "trap_regs (km k) t = trap_regs m2 t" by (rule trap_regs_frame [OF ok' d(5)])
    moreover have "trap_regs m1 t = trap_regs m t" by (rule trap_regs_frame [OF o1 ld(4)])
    ultimately have tr: "trap_regs (km k) t = (trap_regs m t)\<lparr> eip := read32 m1 (bin + 24), esp := KERNEL_OFFSET \<rparr>" using l(5) by simp
    have st: "proc_state m3 cur = proc_state m cur" using c3 [of 88] kept [of 88] c1 [of 88] by (simp add: proc_state_def)
    have "read32 (km k) cur = read32 m cur" "read32 (km k) (cur + 20) = t" "read32 (km k) (cur + 4) = v2p pd" "read32 (km k) (cur + 12) = image_end segs"
      using k3 [of 0] k3 [of 20] k3 [of 4] k3 [of 12] c3 [of 0] c3 [of 20] c3 [of 4] c3 [of 12] kept [of 0] kept [of 20] c1 [of 0] t1 l(3,4) by simp_all
    moreover have "sys_execve L loc path s = Inr (None, s\<lparr> sk := k \<rparr>)"
      using sys_execve_eq [of L s loc path m2] l(1) by (simp add: m k_def m3_def)
    moreover have "proc_state (km k) cur = (if proc_state m cur = pstate_code RUNNING then pstate_code READY else proc_state m cur)"
      using y(1) unfolding st .
    ultimately show ?thesis using im tr by blast
  qed
qed

text \<open>What the loader relies on is kept by writes elsewhere.\<close>

lemma load_ok_frame:
  assumes ok: "load_ok L memtab kd p bin m bs hs rs" and o: "same_outside T m m'"
    and T: "T \<inter> (owned (l_freelist L) bs \<union> owned (l_heap L) hs \<union> span (GETMEMMAP memtab m p) 8 \<union> span p 104 \<union> span (read32 m (p + 20)) 68 \<union>
      elf_span m bin \<union> span kd 4096 \<union> regions_span rs) = {}"
  shows "load_ok L memtab kd p bin m' bs hs rs"
proof -
  let ?h = "GETMEMMAP memtab m p"
  have d: "T \<inter> owned (l_freelist L) bs = {}" "T \<inter> owned (l_heap L) hs = {}" "T \<inter> span ?h 8 = {}" "T \<inter> span p 104 = {}"
      "T \<inter> elf_span m bin = {}" "T \<inter> regions_span rs = {}"
    using T by (simp_all add: Int_Un_distrib)
  have l: "freelist_inv (l_freelist L) m bs" "heap_inv (l_heap L) m hs" "slist m 12 ?h rs" using ok by (simp_all add: load_ok_def Let_def)
  have r: "read32 m' (p + i) = read32 m (p + i)" if "unat i + 4 \<le> 104" for i
    using same_outside_read32 [OF o] span_sub [OF that, of p] d(4) by blast
  have h: "GETMEMMAP memtab m' p = ?h" "read32 m' (p + 20) = read32 m (p + 20)" using r [of 0] r [of 20] by (simp_all add: GETMEMMAP_def)
  have "read32 m' ?h = read32 m ?h" by (rule same_outside_read32 [OF o]) (use span_mono [of 4 8 ?h] d(3) in auto)
  from slist_relink [OF l(3) this o d(6)] have sl: "slist m' 12 ?h rs" .
  note e = elf_frame [OF o d(5)]
  have "image_bytes m' bin = image_bytes m bin" "elf_span m' bin = elf_span m bin" by (simp_all add: image_bytes_def elf_span_def e)
  then show ?thesis
    using ok freelist_inv_frame [OF l(1) o d(1)] heap_inv_frame [OF l(2) o d(2)] sl h e(4) by (simp add: load_ok_def Let_def)
qed

text \<open>The process of the example of the loader, with its structure at another address.\<close>

definition demo_exec :: system where
  "demo_exec = \<lparr> sk = demo_kernel\<lparr> km := copied demo_elf 0x80070000 0x80040000 104, curthread := 0x80070000 \<rparr>, spid = 2, smemtab = 0x80025000,
     skpagedir = 0x80001000, sinfo = demo_kinfo \<rparr>"

definition demo_exec1 :: mem where
  "demo_exec1 = copied (km (sk demo_exec)) 0x80040000 0x80070000 104"

lemma demo_exec_simps:
  "km (sk demo_exec) = copied demo_elf 0x80070000 0x80040000 104" "curthread (sk demo_exec) = 0x80070000" "smemtab demo_exec = 0x80025000"
  "skpagedir demo_exec = 0x80001000" "sinfo demo_exec = demo_kinfo"
  by (simp_all add: demo_exec_def)

lemma copy_back: "same_outside (span a n) m (copied (copied m a b n) b a n)"
  by (auto simp: same_outside_def copied_def span_def)

lemma demo_exec1_frame: "same_outside (span 0x80070000 104) demo_elf demo_exec1"
  unfolding demo_exec1_def demo_exec_simps by (rule copy_back)

lemma demo_exec_apart:
  "span 0x80070000 104 \<inter> (owned 0x80000100 demo_blocks5 \<union> owned 0x80000200 [(0x80010000, 0x100)] \<union> span 0x80025000 8 \<union> span 0x80040000 104 \<union>
     span 0x80041000 68 \<union> elf_span demo_elf 0x80060000 \<union> span 0x80001000 4096 \<union> regions_span [0x80043000]) = {}"
  unfolding demo_elf_areas Int_Un_distrib Un_empty by (intro conjI apart_span) (simp_all add: apart_def)

lemma demo_link_lists: "l_freelist demo_link = 0x80000100" "l_heap demo_link = 0x80000200"
  by (simp_all add: demo_link_def)

lemma demo_exec_reads:
  "GETMEMMAP 0x80025000 (km (sk demo_exec)) 0x80070000 = 0x80025000" "read32 (km (sk demo_exec)) 0x80070014 = 0x80041000"
  using read32_copied_inside [of 0 104 demo_elf "0x80070000" "0x80040000"] read32_copied_inside [of 20 104 demo_elf "0x80070000" "0x80040000"] demo_elf_reads(1,2)
  by (simp_all add: demo_exec_simps GETMEMMAP_def)

lemma demo_exec_ok: "exec_ok demo_link demo_exec 0x80040000 0x80060000 demo_blocks5 [(0x80010000, 0x100)] [0x80043000]"
proof -
  have "load_ok demo_link 0x80025000 0x80001000 0x80040000 0x80060000 demo_exec1 demo_blocks5 [(0x80010000, 0x100)] [0x80043000]"
    by (rule load_ok_frame [OF demo_load_ok demo_exec1_frame]) (use demo_exec_apart in \<open>simp add: demo_link_lists demo_elf_reads\<close>)
  then show ?thesis
    using demo_exec_apart demo_exec_reads
    by (simp add: exec_ok_def Let_def demo_exec1_def [symmetric] demo_link_lists demo_exec_simps(2-4) Int_Un_distrib)
qed

lemma demo_exec1_facts:
  "find_file demo_kinfo 0x80050000 demo_exec1 ROOT_INO = Inr (Some 2)" "read32 demo_exec1 0x80030064 = 0x80060000" "read32 demo_exec1 0x80060000 = ELFMAGIC"
  "elf_headers demo_exec1 0x80060000 = [demo_segment]" "image_bytes demo_exec1 0x80060000 = 0x2000" "read32 demo_exec1 0x80060018 = 0x1084"
proof -
  have "span 0x80070000 104 \<inter> elf_span demo_elf 0x80060000 = {}" using demo_exec_apart by (simp add: Int_Un_distrib)
  note e = elf_frame [OF demo_exec1_frame this]
  show hs: "elf_headers demo_exec1 0x80060000 = [demo_segment]" "read32 demo_exec1 0x80060018 = 0x1084"
    using e by (simp_all add: demo_elf_headers demo_elf_reads)
  then show "image_bytes demo_exec1 0x80060000 = 0x2000" by (simp add: image_bytes_def demo_elf_headers demo_rounding)
  have r: "read32 demo_exec1 x = read32 demo_elf x" if "apart x 4 0x80070000 104" for x
    by (rule same_outside_read32 [OF demo_exec1_frame apart_span [OF that]])
  show "read32 demo_exec1 0x80030064 = 0x80060000" "read32 demo_exec1 0x80060000 = ELFMAGIC"
    using r [of "0x80030064"] r [of "0x80060000"] by (simp_all add: apart_def demo_elf_reads)
  have b: "demo_exec1 x = demo_elf x" if "x \<notin> span 0x80070000 104" for x by (rule byte_frame [OF demo_exec1_frame that])
  have n: "cstr demo_exec1 0x80050000 [0x2F, 0x66]" "named demo_exec1 demo_kinfo 2 [0x2F, 0x66]"
    by (simp_all add: b span_def named_def demo_kinfo_def, simp_all add: demo_elf_def read8_write32_apart apart_def)
  have "ino_n demo_kinfo = 3" by (simp add: demo_kinfo_def)
  from first_named_two [OF n(2) this] n(1) show "find_file demo_kinfo 0x80050000 demo_exec1 ROOT_INO = Inr (Some 2)" by (intro find_file_at)
qed

theorem sys_execve_correct_witness:
  "\<exists>pd mem_at js k. sys_execve demo_link 0x80040000 0x80050000 demo_exec = Inr (None, demo_exec\<lparr> sk := k \<rparr>) \<and>
     loaded_image demo_exec1 (km k) 0x80025000 0x80060000 [demo_segment] pd mem_at js \<and> eip (trap_regs (km k) 0x80041000) = 0x1084 \<and>
     read32 (km k) 0x8007000C = 0x2000"
proof -
  note ts = demo_regions(1) [OF refl]
  have b: "\<exists>b \<in> set (tl demo_blocks5). image_bytes demo_exec1 0x80060000 \<le> snd b" by (simp add: demo_exec1_facts demo_blocks5_def)
  have c: "chunk_size (of_nat (16 * Suc (length [demo_segment]))) < 0x100" by (simp add: chunk_size_def roundup_def)
  have k: "ino_tbl demo_kinfo = 0x80030000" by (simp add: demo_kinfo_def)
  have "length demo_blocks5 = 4" by (simp add: demo_blocks5_def)
  with sys_execve_correct [OF demo_exec_ok refl refl, of demo_exec1 "0x80025000" "0x80041000" "0x80050000" 2 "[demo_segment]"] ts b c
  obtain pd mem_at js x where
    r: "sys_execve demo_link 0x80040000 0x80050000 demo_exec = Inr (None, demo_exec\<lparr> sk := x \<rparr>)"
      "loaded_image demo_exec1 (km x) 0x80025000 0x80060000 [demo_segment] pd mem_at js" "read32 (km x) 0x8007000C = 0x2000"
      "trap_regs (km x) 0x80041000 = (trap_regs (km (sk demo_exec)) 0x80041000)\<lparr> eip := 0x1084, esp := KERNEL_OFFSET \<rparr>"
    by (auto simp: demo_exec1_def [symmetric] demo_exec_simps(2-5) demo_exec_reads demo_exec1_facts demo_elf_headers k)
  then show ?thesis by (intro exI [of _ pd] exI [of _ mem_at] exI [of _ js] exI [of _ x]) simp
qed

end
