(* ===== verification/Layout.thy ===== *)
theory Layout
  imports Load_Elf
begin

text \<open>
  The declarations of the C structures and what the i386 ABI makes of them: sizes, alignment and the offsets of the
  members. The other theories read and write the structures at literal offsets in a byte memory; here these offsets
  are computed from the declarations of \<^verbatim>\<open>include/trunix\<close>, \<^verbatim>\<open>include/sys\<close>, \<^verbatim>\<open>drivers/video\<close> and \<^verbatim>\<open>kernel/proc.c\<close>.
\<close>

section \<open>Types\<close>

text \<open>A scalar has a size and an alignment. An anonymous member has an empty name.\<close>

datatype ctype = Prim nat nat | Arr nat ctype | Struct "(string \<times> ctype) list" | Union "(string \<times> ctype) list" | Packed "(string \<times> ctype) list"

type_synonym decls = "(string \<times> ctype) list"

definition pad :: "nat \<Rightarrow> nat \<Rightarrow> nat" where
  "pad a n = (n + a - 1) div a * a"

fun calign :: "ctype \<Rightarrow> nat" and aligns :: "decls \<Rightarrow> nat" where
  "calign (Prim s a) = a"
| "calign (Arr n t) = calign t"
| "calign (Struct xs) = aligns xs"
| "calign (Union xs) = aligns xs"
| "calign (Packed xs) = 1"
| "aligns [] = 1"
| "aligns ((f, t) # xs) = max (calign t) (aligns xs)"

fun csize :: "ctype \<Rightarrow> nat" and ends_at :: "decls \<Rightarrow> nat \<Rightarrow> nat" and widest :: "decls \<Rightarrow> nat" and total :: "decls \<Rightarrow> nat" where
  "csize (Prim s a) = s"
| "csize (Arr n t) = n * csize t"
| "csize (Struct xs) = pad (aligns xs) (ends_at xs 0)"
| "csize (Union xs) = pad (aligns xs) (widest xs)"
| "csize (Packed xs) = total xs"
| "ends_at [] n = n"
| "ends_at ((f, t) # xs) n = ends_at xs (pad (calign t) n + csize t)"
| "widest [] = 0"
| "widest ((f, t) # xs) = max (csize t) (widest xs)"
| "total [] = 0"
| "total ((f, t) # xs) = csize t + total xs"

text \<open>The direct members with their offsets, and the members by name, those of anonymous members included.\<close>

fun layout :: "decls \<Rightarrow> nat \<Rightarrow> (string \<times> nat \<times> ctype) list" where
  "layout [] n = []"
| "layout ((f, t) # xs) n = (f, pad (calign t) n, t) # layout xs (pad (calign t) n + csize t)"

fun members :: "ctype \<Rightarrow> nat \<Rightarrow> (string \<times> nat \<times> ctype) list" and struct_members :: "decls \<Rightarrow> nat \<Rightarrow> (string \<times> nat \<times> ctype) list"
  and union_members :: "decls \<Rightarrow> nat \<Rightarrow> (string \<times> nat \<times> ctype) list" and packed_members :: "decls \<Rightarrow> nat \<Rightarrow> (string \<times> nat \<times> ctype) list" where
  "members (Prim s a) n = []"
| "members (Arr k t) n = []"
| "members (Struct xs) n = struct_members xs n"
| "members (Union xs) n = union_members xs n"
| "members (Packed xs) n = packed_members xs n"
| "struct_members [] n = []"
| "struct_members ((f, t) # xs) n =
     (let a = pad (calign t) n in (if f = [] then members t a else [(f, a, t)]) @ struct_members xs (a + csize t))"
| "union_members [] n = []"
| "union_members ((f, t) # xs) n = (if f = [] then members t n else [(f, n, t)]) @ union_members xs n"
| "packed_members [] n = []"
| "packed_members ((f, t) # xs) n = (if f = [] then members t n else [(f, n, t)]) @ packed_members xs (n + csize t)"

definition offset_of :: "ctype \<Rightarrow> string \<Rightarrow> nat" where
  "offset_of t f = (case map_of (members t 0) f of None \<Rightarrow> csize t | Some (n, _) \<Rightarrow> n)"

definition field :: "ctype \<Rightarrow> string \<Rightarrow> u32 \<Rightarrow> u32" where
  "field t f a = a + of_nat (offset_of t f)"

section \<open>What holds of every structure\<close>

fun wf_type :: "ctype \<Rightarrow> bool" and wf_decls :: "decls \<Rightarrow> bool" where
  "wf_type (Prim s a) \<longleftrightarrow> a = 1 \<or> a = 2 \<or> a = 4"
| "wf_type (Arr n t) \<longleftrightarrow> wf_type t"
| "wf_type (Struct xs) \<longleftrightarrow> wf_decls xs"
| "wf_type (Union xs) \<longleftrightarrow> wf_decls xs"
| "wf_type (Packed xs) \<longleftrightarrow> wf_decls xs"
| "wf_decls [] \<longleftrightarrow> True"
| "wf_decls ((f, t) # xs) \<longleftrightarrow> wf_type t \<and> wf_decls xs"

lemma pad_ge: "0 < a \<Longrightarrow> n \<le> pad a n"
  unfolding pad_def using div_mult_mod_eq [of "n + a - 1" a] mod_less_divisor [of a "n + a - 1"] by linarith

lemma pad_dvd [simp]: "a dvd pad a n"
  by (simp add: pad_def)

lemma wf_align: "wf_type t \<Longrightarrow> calign t \<in> {1, 2, 4}" "wf_decls xs \<Longrightarrow> aligns xs \<in> {1, 2, 4}"
  by (induction t and xs rule: calign_aligns.induct) (auto simp: max_def)

lemma aligns_dvd:
  assumes "wf_decls xs" and "(f, t) \<in> set xs"
  shows "calign t dvd aligns xs"
proof -
  have "calign t \<le> aligns xs" "wf_type t" using assms by (induction xs) (auto simp: le_max_iff_disj)
  then show ?thesis using wf_align(1) [of t] wf_align(2) [OF assms(1)] by auto
qed

lemma wf_align_pos: "wf_type t \<Longrightarrow> 0 < calign t"
  using wf_align(1) [of t] by auto

lemma ends_at_ge:
  assumes "wf_decls xs"
  shows "n \<le> ends_at xs n"
  using assms
proof (induction xs arbitrary: n)
  case (Cons d xs)
  obtain f t where d: "d = (f, t)" by (cases d)
  have "n \<le> pad (calign t) n" using Cons.prems d by (simp add: pad_ge wf_align_pos)
  also have "\<dots> \<le> ends_at xs (pad (calign t) n + csize t)" using Cons.IH [of "pad (calign t) n + csize t"] Cons.prems d by simp
  finally show ?case using d by simp
qed simp

lemma layout_bounds:
  assumes "wf_decls xs" and "(f, a, t) \<in> set (layout xs n)"
  shows "n \<le> a \<and> a + csize t \<le> ends_at xs n \<and> calign t dvd a \<and> (f, t) \<in> set xs"
  using assms
proof (induction xs arbitrary: n)
  case (Cons d xs)
  obtain g u where d: "d = (g, u)" by (cases d)
  have w: "wf_type u" "wf_decls xs" using Cons.prems(1) d by simp_all
  have le: "n \<le> pad (calign u) n" by (rule pad_ge [OF wf_align_pos [OF w(1)]])
  have "n \<le> a \<and> a + csize t \<le> ends_at xs (pad (calign u) n + csize u)" if "(f, a, t) \<in> set (layout xs (pad (calign u) n + csize u))"
    using Cons.IH [OF w(2) that] le by simp
  then show ?case using Cons.IH [OF w(2)] Cons.prems(2) le ends_at_ge [OF w(2)] d by auto
qed simp

lemma layout_apart:
  assumes "wf_decls xs"
  shows "sorted_wrt (\<lambda>(f, a, t) (g, b, u). a + csize t \<le> b) (layout xs n)"
  using assms
proof (induction xs arbitrary: n)
  case (Cons d xs)
  then show ?case by (cases d) (auto dest!: layout_bounds)
qed simp

text \<open>The members of a structure are aligned, lie inside it one after the other and do not overlap; the structure can be
  placed at any multiple of its own alignment, also as the element of an array.\<close>

lemma struct_layout:
  assumes "wf_decls xs" and "s = Struct xs"
  shows "sorted_wrt (\<lambda>(f, a, t) (g, b, u). a + csize t \<le> b) (layout xs 0)"
    and "(f, a, t) \<in> set (layout xs 0) \<Longrightarrow> a + csize t \<le> csize s \<and> calign t dvd a \<and> calign t dvd calign s"
    and "calign s dvd csize s"
proof -
  show "sorted_wrt (\<lambda>(f, a, t) (g, b, u). a + csize t \<le> b) (layout xs 0)" by (rule layout_apart [OF assms(1)])
  show "calign s dvd csize s" using assms(2) by simp
  have "0 < aligns xs" using wf_align(2) [OF assms(1)] by auto
  from pad_ge [OF this] have e: "ends_at xs 0 \<le> csize s" using assms(2) by simp
  show "a + csize t \<le> csize s \<and> calign t dvd a \<and> calign t dvd calign s" if "(f, a, t) \<in> set (layout xs 0)"
    using layout_bounds [OF assms(1) that] e aligns_dvd [OF assms(1)] assms(2) by auto
qed

section \<open>The scalar types\<close>

text \<open>The types of the compiler and the names that \<^verbatim>\<open>types.h\<close> gives them. The i386 ABI aligns \<^verbatim>\<open>long long\<close> to four bytes in a structure.\<close>

definition c_char :: ctype where "c_char = Prim 1 1"

definition c_short :: ctype where "c_short = Prim 2 2"

definition c_int :: ctype where "c_int = Prim 4 4"

definition c_long :: ctype where "c_long = Prim 4 4"

definition c_llong :: ctype where "c_llong = Prim 8 4"

definition pointer :: ctype where "pointer = Prim 4 4"

definition typedefs :: decls where
  "typedefs = [(''size_t'', c_long), (''va_list'', pointer), (''ssize_t'', c_long), (''loff_t'', c_llong), (''off_t'', c_long), (''pid_t'', c_int),
     (''dev_t'', c_int), (''u8'', c_char), (''u16'', c_short), (''u32'', c_int), (''u64'', c_llong)]"

definition type_named :: "string \<Rightarrow> ctype" where
  "type_named n = (case map_of typedefs n of Some t \<Rightarrow> t | None \<Rightarrow> c_int)"

definition c_u8 :: ctype where "c_u8 = type_named ''u8''"

definition c_u16 :: ctype where "c_u16 = type_named ''u16''"

definition c_u32 :: ctype where "c_u32 = type_named ''u32''"

definition c_u64 :: ctype where "c_u64 = type_named ''u64''"

definition c_dev_t :: ctype where "c_dev_t = type_named ''dev_t''"

section \<open>The heads and entries of the queues\<close>

definition SLIST_HEAD :: ctype where
  "SLIST_HEAD = Struct [(''slh_first'', pointer)]"

definition SLIST_ENTRY :: ctype where
  "SLIST_ENTRY = Struct [(''sle_next'', pointer)]"

definition LIST_HEAD :: ctype where
  "LIST_HEAD = Struct [(''lh_first'', pointer)]"

definition LIST_ENTRY :: ctype where
  "LIST_ENTRY = Struct [(''le_next'', pointer), (''le_prev'', pointer)]"

definition SIMPLEQ_HEAD :: ctype where
  "SIMPLEQ_HEAD = Struct [(''sqh_first'', pointer), (''sqh_last'', pointer)]"

definition SIMPLEQ_ENTRY :: ctype where
  "SIMPLEQ_ENTRY = Struct [(''sqe_next'', pointer)]"

definition XSIMPLEQ_HEAD :: ctype where
  "XSIMPLEQ_HEAD = Struct [(''sqx_first'', pointer), (''sqx_last'', pointer), (''sqx_cookie'', c_long)]"

definition XSIMPLEQ_ENTRY :: ctype where
  "XSIMPLEQ_ENTRY = Struct [(''sqx_next'', pointer)]"

definition TAILQ_HEAD :: ctype where
  "TAILQ_HEAD = Struct [(''tqh_first'', pointer), (''tqh_last'', pointer)]"

definition TAILQ_ENTRY :: ctype where
  "TAILQ_ENTRY = Struct [(''tqe_next'', pointer), (''tqe_prev'', pointer)]"

definition STAILQ_HEAD :: ctype where
  "STAILQ_HEAD = Struct [(''stqh_first'', pointer), (''stqh_last'', pointer)]"

definition STAILQ_ENTRY :: ctype where
  "STAILQ_ENTRY = Struct [(''stqe_next'', pointer)]"

section \<open>Processes\<close>

definition trapframe :: ctype where
  "trapframe = Struct [(''edi'', c_u32), (''esi'', c_u32), (''ebp'', c_u32), (''__esp'', c_u32), (''ebx'', c_u32), (''edx'', c_u32), (''ecx'',
     c_u32), (''eax'', c_u32), (''gs'', c_u32), (''fs'', c_u32), (''es'', c_u32), (''ds'', c_u32), (''eip'', c_u32), (''cs'', c_u32),
     (''eflags'', c_u32), (''esp'', c_u32), (''ss'', c_u32)]"

definition context_frame :: ctype where
  "context_frame = Struct [(''edi'', c_u32), (''esi'', c_u32), (''ebp'', c_u32), (''ebx'', c_u32), (''eip'', c_u32)]"

definition proc_struct :: ctype where
  "proc_struct = Struct [(''pid'', c_int), (''cr3'', c_u32), (''kstack'', c_u32), (''mmap_base'', c_u32), (''context'', pointer), (''tf'',
     pointer), (''ofile'', Arr MAXFILES pointer), (''state'', c_int), (''parent'', pointer), (''entries'', TAILQ_ENTRY)]"

definition task_state_segment :: ctype where
  "task_state_segment = Struct [(''prev_tss'', c_u32), (''esp0'', c_u32), (''ss0'', c_u32), (''esp1'', c_u32), (''ss1'', c_u32), (''esp2'',
     c_u32), (''ss2'', c_u32), (''cr3'', c_u32), (''eip'', c_u32), (''eflags'', c_u32), (''eax'', c_u32), (''ecx'', c_u32), (''edx'', c_u32),
     (''ebx'', c_u32), (''esp'', c_u32), (''ebp'', c_u32), (''esi'', c_u32), (''edi'', c_u32), (''es'', c_u32), (''cs'', c_u32), (''ss'', c_u32),
     (''ds'', c_u32), (''fs'', c_u32), (''gs'', c_u32), (''ldt'', c_u32), (''trap'', c_u16), (''iomap_base'', c_u16)]"

definition elfhdr :: ctype where
  "elfhdr = Struct [(''magic'', c_u32), (''elf'', Arr 12 c_u8), (''type'', c_u16), (''machine'', c_u16), (''version'', c_u32), (''entry'',
     c_u32), (''ph_off'', c_u32), (''sh_off'', c_u32), (''flags'', c_u32), (''hdrsz'', c_u16), (''ph_entsz'', c_u16), (''ph_n'', c_u16),
     (''sh_entsz'', c_u16), (''sh_n'', c_u16), (''sh_strndx'', c_u16)]"

definition proghdr_struct :: ctype where
  "proghdr_struct = Struct [(''type'', c_u32), (''off'', c_u32), (''va'', c_u32), (''pa'', c_u32), (''filesz'', c_u32), (''memsz'', c_u32),
     (''flags'', c_u32), (''align'', c_u32)]"

section \<open>Memory\<close>

definition vm_region :: ctype where
  "vm_region = Struct [(''va'', c_u32), (''pa'', c_u32), (''len'', c_u32), (''entry'', SLIST_ENTRY)]"

definition block_struct :: ctype where
  "block_struct = Struct [(''sz'', c_u32), (''entry'', LIST_ENTRY)]"

definition sblock :: ctype where
  "sblock = Struct [(''sz'', c_u32), (''entry'', SLIST_ENTRY)]"

definition libc_sblock :: ctype where
  "libc_sblock = Struct [(''sz'', type_named ''size_t''), (''entry'', SLIST_ENTRY)]"

definition proc_mmap :: ctype where
  "proc_mmap = Struct [(''slh_first'', pointer), (''sz'', c_u32)]"

section \<open>Files and devices\<close>

definition dirent :: ctype where
  "dirent = Struct [(''inode'', c_u32), (''name'', Arr 128 c_char)]"

definition file_struct :: ctype where
  "file_struct = Struct [(''ops'', pointer), (''inode'', pointer), (''data'', pointer)]"

definition inode_struct :: ctype where
  "inode_struct = Struct [(''uid'', c_short), (''gid'', c_short), (''mode'', c_u16), (''nlink'', c_u16), (''major'', c_dev_t), (''minor'',
     c_dev_t), (''type'', c_int), (''size'', c_u32), (''id'', c_u32), (''addr'', c_u32), (''m_time'', c_long)]"

definition file_operations :: ctype where
  "file_operations = Struct [(''open'', pointer), (''close'', pointer), (''read'', pointer), (''write'', pointer), (''mmap'', pointer),
     (''ioctl'', pointer)]"

definition fbdev_struct :: ctype where
  "fbdev_struct = Struct [(''addr'', c_u32), (''pitch'', c_u32), (''width'', c_u32), (''height'', c_u32), (''bpp'', c_u8), (''type'', c_u8),
     ('''', Union [('''', Struct [(''palette_addr'', c_u32), (''palette_num_colors'', c_u16)]), ('''', Struct [(''red_field_position'', c_u8),
     (''red_mask_size'', c_u8), (''green_field_position'', c_u8), (''green_mask_size'', c_u8), (''blue_field_position'', c_u8),
     (''blue_mask_size'', c_u8)])])]"

definition font_struct :: ctype where
  "font_struct = Struct [(''w'', c_int), (''h'', c_int), (''bitmap'', pointer)]"

definition console_struct :: ctype where
  "console_struct = Struct [(''buf'', pointer), (''fb'', pointer)]"

section \<open>The boot protocol\<close>

definition multiboot_uint8_t :: ctype where "multiboot_uint8_t = c_char"

definition multiboot_uint16_t :: ctype where "multiboot_uint16_t = c_short"

definition multiboot_uint32_t :: ctype where "multiboot_uint32_t = c_int"

definition multiboot_uint64_t :: ctype where "multiboot_uint64_t = c_llong"

definition multiboot_header :: ctype where
  "multiboot_header = Struct [(''magic'', multiboot_uint32_t), (''flags'', multiboot_uint32_t), (''checksum'', multiboot_uint32_t),
     (''header_addr'', multiboot_uint32_t), (''load_addr'', multiboot_uint32_t), (''load_end_addr'', multiboot_uint32_t), (''bss_end_addr'',
     multiboot_uint32_t), (''entry_addr'', multiboot_uint32_t), (''mode_type'', multiboot_uint32_t), (''width'', multiboot_uint32_t),
     (''height'', multiboot_uint32_t), (''depth'', multiboot_uint32_t)]"

definition multiboot_aout_symbol_table :: ctype where
  "multiboot_aout_symbol_table = Struct [(''tabsize'', multiboot_uint32_t), (''strsize'', multiboot_uint32_t), (''addr'', multiboot_uint32_t),
     (''reserved'', multiboot_uint32_t)]"

definition multiboot_elf_section_header_table :: ctype where
  "multiboot_elf_section_header_table = Struct [(''num'', multiboot_uint32_t), (''size'', multiboot_uint32_t), (''addr'', multiboot_uint32_t),
     (''shndx'', multiboot_uint32_t)]"

definition multiboot_info_struct :: ctype where
  "multiboot_info_struct = Struct [(''flags'', multiboot_uint32_t), (''mem_lower'', multiboot_uint32_t), (''mem_upper'', multiboot_uint32_t),
     (''boot_device'', multiboot_uint32_t), (''cmdline'', multiboot_uint32_t), (''mods_count'', multiboot_uint32_t), (''mods_addr'',
     multiboot_uint32_t), (''u'', Union [(''aout_sym'', multiboot_aout_symbol_table), (''elf_sec'', multiboot_elf_section_header_table)]),
     (''mmap_length'', multiboot_uint32_t), (''mmap_addr'', multiboot_uint32_t), (''drives_length'', multiboot_uint32_t), (''drives_addr'',
     multiboot_uint32_t), (''config_table'', multiboot_uint32_t), (''boot_loader_name'', multiboot_uint32_t), (''apm_table'',
     multiboot_uint32_t), (''vbe_control_info'', multiboot_uint32_t), (''vbe_mode_info'', multiboot_uint32_t), (''vbe_mode'',
     multiboot_uint16_t), (''vbe_interface_seg'', multiboot_uint16_t), (''vbe_interface_off'', multiboot_uint16_t), (''vbe_interface_len'',
     multiboot_uint16_t), (''framebuffer_addr'', multiboot_uint64_t), (''framebuffer_pitch'', multiboot_uint32_t), (''framebuffer_width'',
     multiboot_uint32_t), (''framebuffer_height'', multiboot_uint32_t), (''framebuffer_bpp'', multiboot_uint8_t), (''framebuffer_type'',
     multiboot_uint8_t), ('''', Union [('''', Struct [(''framebuffer_palette_addr'', multiboot_uint32_t), (''framebuffer_palette_num_colors'',
     multiboot_uint16_t)]), ('''', Struct [(''framebuffer_red_field_position'', multiboot_uint8_t), (''framebuffer_red_mask_size'',
     multiboot_uint8_t), (''framebuffer_green_field_position'', multiboot_uint8_t), (''framebuffer_green_mask_size'', multiboot_uint8_t),
     (''framebuffer_blue_field_position'', multiboot_uint8_t), (''framebuffer_blue_mask_size'', multiboot_uint8_t)])])]"

definition multiboot_color :: ctype where
  "multiboot_color = Struct [(''red'', multiboot_uint8_t), (''green'', multiboot_uint8_t), (''blue'', multiboot_uint8_t)]"

definition multiboot_mmap_struct :: ctype where
  "multiboot_mmap_struct = Packed [(''size'', multiboot_uint32_t), (''addr'', multiboot_uint64_t), (''len'', multiboot_uint64_t), (''type'',
     multiboot_uint32_t)]"

definition multiboot_mod_list :: ctype where
  "multiboot_mod_list = Struct [(''mod_start'', multiboot_uint32_t), (''mod_end'', multiboot_uint32_t), (''cmdline'', multiboot_uint32_t),
     (''pad'', multiboot_uint32_t)]"

definition multiboot_apm_info :: ctype where
  "multiboot_apm_info = Struct [(''version'', multiboot_uint16_t), (''cseg'', multiboot_uint16_t), (''offset'', multiboot_uint32_t),
     (''cseg_16'', multiboot_uint16_t), (''dseg'', multiboot_uint16_t), (''flags'', multiboot_uint16_t), (''cseg_len'', multiboot_uint16_t),
     (''cseg_16_len'', multiboot_uint16_t), (''dseg_len'', multiboot_uint16_t)]"

definition kinfo_struct :: ctype where
  "kinfo_struct = Struct [(''mbi'', multiboot_info_struct), (''memmap'', Arr 32 multiboot_mmap_struct), (''mmap_n'', c_int), (''mmap_len'',
     c_u32), (''mem_high_phys'', c_u32), (''free_pde_start'', c_u32), (''initrd_start'', c_u32), (''initrd_end'', c_u32), (''ino_n'', c_int),
     (''ino_tbl'', pointer), (''dir_tbl'', pointer)]"

text \<open>The header in front of the kernel, in \<^verbatim>\<open>head.S\<close>.\<close>

definition MULTIBOOT_HEADER_MAGIC :: u32 where "MULTIBOOT_HEADER_MAGIC = 0x1BADB002"
definition MULTIBOOT_PAGE_ALIGN :: u32 where "MULTIBOOT_PAGE_ALIGN = 0x00000001"
definition MULTIBOOT_MEMORY_INFO :: u32 where "MULTIBOOT_MEMORY_INFO = 0x00000002"
definition MULTIBOOT_VIDEO_MODE :: u32 where "MULTIBOOT_VIDEO_MODE = 0x00000004"
definition MULTIBOOT_AOUT_KLUDGE :: u32 where "MULTIBOOT_AOUT_KLUDGE = 0x00010000"

definition FLAGS :: u32 where
  "FLAGS = MULTIBOOT_PAGE_ALIGN OR MULTIBOOT_MEMORY_INFO OR MULTIBOOT_VIDEO_MODE"

definition head_section :: "u32 list" where
  "head_section = [MULTIBOOT_HEADER_MAGIC, FLAGS, - (MULTIBOOT_HEADER_MAGIC + FLAGS)]"

section \<open>The streams of the library\<close>

definition io_file :: ctype where
  "io_file = Struct [(''_fd'', c_int), (''_buf'', pointer), (''_ptr'', pointer), (''_end'', pointer), (''_sz'', type_named ''size_t''),
     (''_close'', pointer), (''_read'', pointer), (''_write'', pointer), (''_seek'', pointer), (''_mode'', c_int)]"

section \<open>The offsets of the model\<close>

lemma offsets:
  "offset_of vm_region ''va'' = 0" "offset_of vm_region ''pa'' = 4" "offset_of vm_region ''len'' = 8" "offset_of vm_region ''entry'' = 12"
  "offset_of proc_mmap ''sz'' = 4" "csize proc_mmap = 8" "csize vm_region = 16"
  "offset_of block_struct ''entry'' = 4" "offset_of sblock ''entry'' = 4" "offset_of libc_sblock ''entry'' = 4"
  by code_simp+

lemma proc_offsets:
  "offset_of proc_struct ''pid'' = 0" "offset_of proc_struct ''cr3'' = 4" "offset_of proc_struct ''kstack'' = 8" "offset_of proc_struct ''mmap_base'' = 12"
  "offset_of proc_struct ''context'' = 16" "offset_of proc_struct ''tf'' = 20" "offset_of proc_struct ''ofile'' = 24" "offset_of proc_struct ''state'' = 88"
  "offset_of proc_struct ''parent'' = 92" "offset_of proc_struct ''entries'' = 96" "csize proc_struct = 104"
  by code_simp+

lemma frame_offsets:
  "offset_of context_frame ''edi'' = 0" "offset_of context_frame ''esi'' = 4" "offset_of context_frame ''ebp'' = 8"
  "offset_of context_frame ''ebx'' = 12" "offset_of context_frame ''eip'' = 16" "csize context_frame = 20"
  "offset_of trapframe ''edi'' = 0" "offset_of trapframe ''esi'' = 4" "offset_of trapframe ''ebp'' = 8" "offset_of trapframe ''ebx'' = 16"
  "offset_of trapframe ''edx'' = 20" "offset_of trapframe ''ecx'' = 24" "offset_of trapframe ''eax'' = 28" "offset_of trapframe ''gs'' = 32"
  "offset_of trapframe ''fs'' = 36" "offset_of trapframe ''es'' = 40" "offset_of trapframe ''ds'' = 44" "offset_of trapframe ''eip'' = 48"
  "offset_of trapframe ''cs'' = 52" "offset_of trapframe ''eflags'' = 56" "offset_of trapframe ''esp'' = 60" "offset_of trapframe ''ss'' = 64"
  "csize trapframe = 68"
  by code_simp+

lemma file_offsets:
  "offset_of dirent ''inode'' = 0" "offset_of dirent ''name'' = 4" "csize dirent = 132" "offset_of file_struct ''inode'' = 4" "offset_of file_struct ''data'' = 8"
  "offset_of inode_struct ''uid'' = 0" "offset_of inode_struct ''gid'' = 2" "offset_of inode_struct ''mode'' = 4" "offset_of inode_struct ''major'' = 8"
  "offset_of inode_struct ''type'' = 16" "offset_of inode_struct ''size'' = 20" "offset_of inode_struct ''addr'' = 28" "offset_of inode_struct ''m_time'' = 32"
  "csize inode_struct = 36" "offset_of fbdev_struct ''addr'' = 0" "offset_of fbdev_struct ''pitch'' = 4" "offset_of fbdev_struct ''width'' = 8"
  "offset_of fbdev_struct ''height'' = 12" "offset_of fbdev_struct ''bpp'' = 16" "offset_of fbdev_struct ''type'' = 17"
  by code_simp+

lemma elf_offsets:
  "offset_of elfhdr ''magic'' = 0" "offset_of elfhdr ''entry'' = 24" "offset_of elfhdr ''ph_off'' = 28" "offset_of elfhdr ''ph_n'' = 44" "csize elfhdr = 52"
  "offset_of proghdr_struct ''type'' = 0" "offset_of proghdr_struct ''off'' = 4" "offset_of proghdr_struct ''va'' = 8"
  "offset_of proghdr_struct ''filesz'' = 16" "offset_of proghdr_struct ''memsz'' = 20" "csize proghdr_struct = 32"
  by code_simp+

text \<open>The structures that memory outside the kernel has to agree with.\<close>

lemma protocol_sizes:
  "csize task_state_segment = 104" "offset_of task_state_segment ''esp0'' = 4" "offset_of task_state_segment ''ss0'' = 8"
  "csize multiboot_mmap_struct = 24" "offset_of multiboot_mmap_struct ''addr'' = 4" "offset_of multiboot_mmap_struct ''len'' = 12"
  "offset_of multiboot_mmap_struct ''type'' = 20" "csize multiboot_mod_list = 16" "csize multiboot_header = 48" "csize multiboot_apm_info = 20"
  "offset_of multiboot_info_struct ''mmap_length'' = 44" "offset_of multiboot_info_struct ''framebuffer_addr'' = 88"
  "offset_of multiboot_info_struct ''framebuffer_bpp'' = 108" "csize multiboot_info_struct = 120" "csize kinfo_struct = 924"
  by code_simp+

text \<open>The header sums to zero, as a boot loader demands. It asks for a video mode, but ends before the members that would describe one.\<close>

lemma head_section_checks: "sum_list head_section = 0" "FLAGS AND MULTIBOOT_VIDEO_MODE \<noteq> 0" "FLAGS AND MULTIBOOT_AOUT_KLUDGE = 0"
  "4 * length head_section \<le> offset_of multiboot_header ''mode_type''"
  by code_simp+

lemmas computed = offsets proc_offsets frame_offsets file_offsets elf_offsets protocol_sizes

lemma all_declared_wf:
  "\<forall>t \<in> set [trapframe, context_frame, proc_struct, task_state_segment, elfhdr, proghdr_struct, vm_region, block_struct, sblock, libc_sblock,
     proc_mmap, dirent, file_struct, inode_struct, file_operations, fbdev_struct, font_struct, console_struct, io_file, multiboot_header,
     multiboot_info_struct, multiboot_mmap_struct, multiboot_mod_list, multiboot_apm_info, multiboot_color, kinfo_struct]. wf_type t"
  by code_simp

text \<open>The offsets and sizes of the accessors with which the specifications read the structures are those that the i386 ABI gives to the members of the C declarations: regions and memory maps,
  processes, saved contexts and trap frames, directory entries and inodes, the frame buffer, ELF and program headers.\<close>

theorem accessors_follow_declarations:
  "region_of m r = (read32 m (field vm_region ''va'' r), read32 m (field vm_region ''pa'' r), read32 m (field vm_region ''len'' r)) \<and>
   GETMEMMAP memtab m p = memtab + of_nat (csize proc_mmap) * (read32 m (field proc_struct ''pid'' p) - 1) \<and>
   ofile m p fd = read32 m (field proc_struct ''ofile'' p + of_nat (csize pointer) * of_nat fd) \<and>
   proc_state m p = read32 m (field proc_struct ''state'' p) \<and>
   enqueue L p m = TAILQ_INSERT_TAIL m (of_nat (offset_of proc_struct ''entries'')) (l_queue L) p \<and>
   (context_at m c x back \<longleftrightarrow> read32 m (field context_frame ''edi'' c) = edi x \<and> read32 m (field context_frame ''esi'' c) = esi x \<and>
     read32 m (field context_frame ''ebp'' c) = ebp x \<and> read32 m (field context_frame ''ebx'' c) = ebx x \<and> read32 m (field context_frame ''eip'' c) = back) \<and>
   trap_regs m t = \<lparr> edi = read32 m (field trapframe ''edi'' t), esi = read32 m (field trapframe ''esi'' t), ebp = read32 m (field trapframe ''ebp'' t),
     esp = read32 m (field trapframe ''esp'' t), ebx = read32 m (field trapframe ''ebx'' t), edx = read32 m (field trapframe ''edx'' t),
     ecx = read32 m (field trapframe ''ecx'' t), eax = read32 m (field trapframe ''eax'' t), gs = read32 m (field trapframe ''gs'' t),
     fs = read32 m (field trapframe ''fs'' t), es = read32 m (field trapframe ''es'' t), ds = read32 m (field trapframe ''ds'' t),
     eip = read32 m (field trapframe ''eip'' t), cs = read32 m (field trapframe ''cs'' t), eflags = read32 m (field trapframe ''eflags'' t),
     ss = read32 m (field trapframe ''ss'' t) \<rparr> \<and>
   (named m k i s \<longleftrightarrow> cstr m (field dirent ''name'' (dir_tbl k + of_nat (csize dirent) * i)) s) \<and>
   inode_info m ip = \<lparr> fi_mode = read16 m (field inode_struct ''mode'' ip), fi_uid = read16 m (field inode_struct ''uid'' ip),
     fi_gid = read16 m (field inode_struct ''gid'' ip), fi_size = read32 m (field inode_struct ''size'' ip), fi_time = read32 m (field inode_struct ''m_time'' ip),
     fi_major = read32 m (field inode_struct ''major'' ip), fi_addr = read32 m (field inode_struct ''addr'' ip) \<rparr> \<and>
   (describes m fb b \<longleftrightarrow> read32 m (field fbdev_struct ''addr'' fb) = ucast (framebuffer_addr b) \<and> read32 m (field fbdev_struct ''pitch'' fb) = framebuffer_pitch b \<and>
     read32 m (field fbdev_struct ''width'' fb) = framebuffer_width b \<and> read32 m (field fbdev_struct ''height'' fb) = framebuffer_height b \<and>
     m (field fbdev_struct ''bpp'' fb) = framebuffer_bpp b \<and> m (field fbdev_struct ''type'' fb) = framebuffer_type b) \<and>
   proghdr_at m ph = \<lparr> p_type = read32 m (field proghdr_struct ''type'' ph), p_off = read32 m (field proghdr_struct ''off'' ph),
     p_va = read32 m (field proghdr_struct ''va'' ph), p_filesz = read32 m (field proghdr_struct ''filesz'' ph), p_memsz = read32 m (field proghdr_struct ''memsz'' ph) \<rparr> \<and>
   proghdrs m ph (Suc n) = proghdr_at m ph # proghdrs m (ph + of_nat (csize proghdr_struct)) n \<and>
   elf_headers m bin = proghdrs m (bin + read32 m (field elfhdr ''ph_off'' bin)) (unat (read16 m (field elfhdr ''ph_n'' bin))) \<and>
   set_exec p bin pd m =
     (let m = write32 m (field proc_struct ''cr3'' p) (v2p pd);
          m = write32 m (field trapframe ''eip'' (read32 m (field proc_struct ''tf'' p))) (read32 m (field elfhdr ''entry'' bin)) in
      write32 m (field trapframe ''esp'' (read32 m (field proc_struct ''tf'' p))) KERNEL_OFFSET)"
  by (intro conjI) (simp_all add: field_def computed region_of_def GETMEMMAP_def ofile_def pointer_def proc_state_def enqueue_def context_at_def
      trap_regs_def named_def inode_info_def describes_def proghdr_at_def elf_headers_def set_exec_def Let_def)

end
