(* ===== verification/Gate.thy ===== *)
theory Gate
  imports Switch
begin

text \<open>
  The descriptor tables of \<^verbatim>\<open>kernel/gate.S\<close> and the three routines that install them: \<^verbatim>\<open>init_gdt\<close>, \<^verbatim>\<open>init_tss\<close> and \<^verbatim>\<open>init_idt\<close>.
  The tables are bytes in memory, as the assembler lays them out behind the label \<^verbatim>\<open>gdt\<close>; the routines patch addresses into
  them. What the processor makes of the tables (\<open>segment_at\<close>, \<open>gate_at\<close>, \<open>io_permitted\<close>) is the specification. The
  addresses of the handlers come from the linker and are a parameter.
\<close>

section \<open>The data\<close>

definition gdt_bytes :: "u8 list" where
  "gdt_bytes =
     [0x00, 0x00, 0x00, 0x00, 0x00, 0x00, 0x00, 0x00,
      0xFF, 0xFF, 0x00, 0x00, 0x00, 0x9A, 0xCF, 0x00,
      0xFF, 0xFF, 0x00, 0x00, 0x00, 0x92, 0xCF, 0x00,
      0xFF, 0xFF, 0x00, 0x00, 0x00, 0xFA, 0xCF, 0x00,
      0xFF, 0xFF, 0x00, 0x00, 0x00, 0xF2, 0xCF, 0x00,
      0x68, 0x20, 0x00, 0x00, 0x00, 0x89, 0x00, 0x00]"

text \<open>The gates with their access byte; \<^verbatim>\<open>.org\<close> fills what is between them with zeros.\<close>

definition idt_gates :: "(nat \<times> u8) list" where
  "idt_gates = [(0x00, 0x8E), (0x01, 0x8F), (0x02, 0x8E), (0x03, 0x8F), (0x04, 0x8E), (0x05, 0x8E), (0x06, 0x8E), (0x07, 0x8E), (0x08, 0x8E),
     (0x09, 0x8E), (0x0A, 0x8E), (0x0B, 0x8E), (0x0C, 0x8E), (0x0D, 0x8E), (0x0E, 0x8E), (0x10, 0x8E), (0x11, 0x8E), (0x12, 0x8E),
     (0x13, 0x8E), (0x14, 0x8E), (0x15, 0x8E), (0x20, 0x8E), (0x21, 0x8E), (0x80, 0xEE)]"

definition IDT_ENTRY :: "nat \<Rightarrow> u8 list" where
  "IDT_ENTRY v = (case map_of idt_gates v of Some a \<Rightarrow> [0, 0, 0x08, 0x00, 0x00, a, 0, 0] | None \<Rightarrow> replicate 8 0)"

definition idt_bytes :: "u8 list" where
  "idt_bytes = concat (map IDT_ENTRY [0 ..< 0x81])"

text \<open>The labels behind \<^verbatim>\<open>gdt\<close>, in the order of the data section. Nothing in it is aligned.\<close>

definition gdtr_label :: "u32 \<Rightarrow> u32" where "gdtr_label gdt = gdt + of_nat (length gdt_bytes)"
definition iopb_label :: "u32 \<Rightarrow> u32" where "iopb_label gdt = gdtr_label gdt + 6"
definition idt_label :: "u32 \<Rightarrow> u32" where "idt_label gdt = iopb_label gdt + 0x2001"
definition idtp_label :: "u32 \<Rightarrow> u32" where "idtp_label gdt = idt_label gdt + of_nat (length idt_bytes)"
definition tss_label :: "u32 \<Rightarrow> u32" where "tss_label gdt = idtp_label gdt + 6"

definition bytes_at :: "mem \<Rightarrow> u32 \<Rightarrow> u8 list \<Rightarrow> bool" where
  "bytes_at m a xs \<longleftrightarrow> (\<forall>i < length xs. m (a + of_nat i) = xs ! i)"

definition gate_data :: "mem \<Rightarrow> u32 \<Rightarrow> bool" where
  "gate_data m gdt \<longleftrightarrow> bytes_at m gdt gdt_bytes \<and> read16 m (gdtr_label gdt) = of_nat (length gdt_bytes) - 1 \<and> read32 m (gdtr_label gdt + 2) = gdt \<and>
     bytes_at m (iopb_label gdt) (replicate 0x2000 0 @ [0xFF]) \<and> bytes_at m (idt_label gdt) idt_bytes \<and>
     read16 m (idtp_label gdt) = 256 * 8 - 1 \<and> read32 m (idtp_label gdt + 2) = idt_label gdt \<and> bytes_at m (tss_label gdt) (replicate 0x68 0)"

section \<open>The routines\<close>

text \<open>The registers that hold the tables, and the bytes written to ports, in order.\<close>

record tables =
  gdtr :: "u16 \<times> u32"
  idtr :: "u16 \<times> u32"
  tr :: u16
  out :: "(u16 \<times> u8) list"

definition outb :: "u16 \<Rightarrow> u8 \<Rightarrow> tables \<Rightarrow> tables" where
  "outb p v t = t\<lparr> out := out t @ [(p, v)] \<rparr>"

definition init_gdt :: "u32 \<Rightarrow> mem \<Rightarrow> regs \<times> tables \<Rightarrow> regs \<times> tables" where
  "init_gdt gdt m = (\<lambda>(r, t).
     (r\<lparr> eflags := eflags r AND NOT 0x200, cs := 0x08, eax := (eax r AND NOT 0xFFFF) OR 0x10, ds := 0x10, es := 0x10, fs := 0x10, gs := 0x10, ss := 0x10 \<rparr>,
     t\<lparr> gdtr := (read16 m (gdtr_label gdt), read32 m (gdtr_label gdt + 2)) \<rparr>))"

definition init_tss :: "u32 \<Rightarrow> mem \<times> tables \<Rightarrow> mem \<times> tables" where
  "init_tss gdt = (\<lambda>(m, t).
     let tss = tss_label gdt;
         m = write16 m (gdt + 0x28 + 2) (ucast tss);
         m = m(gdt + 0x28 + 4 := ucast (drop_bit 16 tss));
         m = m(gdt + 0x28 + 7 := ucast (drop_bit 24 tss));
         t = t\<lparr> tr := 0x28 \<rparr>;
         m = write16 m (tss + 0x66) (ucast (iopb_label gdt - tss)) in
     (m, t))"

definition SET_IDT_BASE :: "u32 \<Rightarrow> nat \<Rightarrow> u32 \<Rightarrow> mem \<Rightarrow> mem" where
  "SET_IDT_BASE gdt v addr m =
     (let m = write16 m (idt_label gdt + of_nat v * 8) (ucast addr) in
      write16 m (idt_label gdt + of_nat v * 8 + 6) (ucast (drop_bit 16 addr)))"

definition idt_vectors :: "nat list" where
  "idt_vectors = [0x00, 0x01, 0x02, 0x03, 0x04, 0x05, 0x06, 0x07, 0x08, 0x09, 0x0A, 0x0B, 0x0C, 0x0D, 0x0E,
     0x10, 0x11, 0x12, 0x13, 0x14, 0x15, 0x20, 0x21, 0x80]"

definition PIT_HZ :: "nat \<Rightarrow> nat" where
  "PIT_HZ x = 1193182 div x"

definition init_pic :: "tables \<Rightarrow> tables" where
  "init_pic t = fold (\<lambda>(p, v). outb p v)
     [(0x20, 0x11), (0xA0, 0x11), (0x21, 0x20), (0xA1, 0x28), (0x21, 0x04), (0xA1, 0x02), (0x21, 0x01), (0xA1, 0x01),
      (0x21, 0xFC), (0xA1, 0xFF)] t"

definition init_pit :: "tables \<Rightarrow> tables" where
  "init_pit t = (let ax = of_nat (PIT_HZ 100) :: u16 in
     outb 0x40 (ucast (drop_bit 8 ax)) (outb 0x40 (ucast ax) (outb 0x43 0x34 t)))"

definition init_idt :: "u32 \<Rightarrow> (nat \<Rightarrow> u32) \<Rightarrow> mem \<times> tables \<Rightarrow> mem \<times> tables" where
  "init_idt gdt handler = (\<lambda>(m, t).
     let m = fold (\<lambda>v. SET_IDT_BASE gdt v (handler v)) idt_vectors m;
         t = t\<lparr> idtr := (read16 m (idtp_label gdt), read32 m (idtp_label gdt + 2)) \<rparr>;
         t = init_pic t;
         t = init_pit t in
     (m, outb 0x60 0xF4 t))"

text \<open>The calls at the beginning of \<^verbatim>\<open>kmain\<close>.\<close>

definition install_tables :: "u32 \<Rightarrow> (nat \<Rightarrow> u32) \<Rightarrow> regs \<times> mem \<times> tables \<Rightarrow> regs \<times> mem \<times> tables" where
  "install_tables gdt handler = (\<lambda>(r, m, t).
     let (r, t) = init_gdt gdt m (r, t);
         (m, t) = init_tss gdt (m, t) in
     (r, init_idt gdt handler (m, t)))"

section \<open>What the processor makes of the tables\<close>

text \<open>A segment descriptor: its base, the last byte it covers, its access byte.\<close>

record segment =
  seg_base :: u32
  seg_limit :: u32
  seg_access :: u8

definition segment_at :: "mem \<Rightarrow> u32 \<Rightarrow> segment" where
  "segment_at m a =
     (let lim = ucast (read16 m a) OR push_bit 16 (ucast (m (a + 6) AND 0x0F)) :: u32 in
      \<lparr> seg_base = ucast (read16 m (a + 2)) OR push_bit 16 (ucast (m (a + 4))) OR push_bit 24 (ucast (m (a + 7))),
        seg_limit = (if bit (m (a + 6)) 7 then push_bit 12 lim OR 0xFFF else lim), seg_access = m (a + 5) \<rparr>)"

text \<open>An interrupt gate: the handler, its code segment, the access byte.\<close>

definition gate_at :: "mem \<Rightarrow> u32 \<Rightarrow> nat \<Rightarrow> u32 \<times> u16 \<times> u8" where
  "gate_at m idt v =
     (let a = idt + of_nat v * 8 in
      (ucast (read16 m a) OR push_bit 16 (ucast (read16 m (a + 6))), read16 m (a + 2), m (a + 5)))"

text \<open>Access to a port in user mode: the bit of the port in the map that the task state segment points to has to be
  inside the segment, with the byte behind it, and clear.\<close>

definition io_permitted :: "mem \<Rightarrow> u32 \<Rightarrow> u16 \<Rightarrow> bool" where
  "io_permitted m desc port =
     (let s = segment_at m desc; b = unat (read16 m (seg_base s + 0x66)) + unat port div 8 in
      b + 1 \<le> unat (seg_limit s) \<and> \<not> bit (m (seg_base s + of_nat b)) (unat port mod 8))"

section \<open>The layout\<close>

lemma IDT_ENTRY_length [simp]: "length (IDT_ENTRY v) = 8"
  by (simp add: IDT_ENTRY_def split: option.split)

lemma eights:
  assumes "\<And>v. length (f v) = 8"
  shows "length (concat (map f [0 ..< n])) = 8 * n" and "v < n \<Longrightarrow> j < 8 \<Longrightarrow> concat (map f [0 ..< n]) ! (8 * v + j) = f v ! j"
proof -
  show l: "length (concat (map f [0 ..< n])) = 8 * n" for n using assms by (induction n) simp_all
  show "concat (map f [0 ..< n]) ! (8 * v + j) = f v ! j" if "v < n" "j < 8"
    using that(1)
  proof (induction n)
    case (Suc n)
    then show ?case using that(2) l [of n] by (cases "v = n") (auto simp: nth_append)
  qed simp
qed

lemma idt_bytes_length: "length idt_bytes = 0x408"
  unfolding idt_bytes_def by (subst eights(1)) simp_all

lemma idt_bytes_entry: "v < 0x81 \<Longrightarrow> j < 8 \<Longrightarrow> idt_bytes ! (8 * v + j) = IDT_ENTRY v ! j"
  unfolding idt_bytes_def by (rule eights(2)) simp_all

lemma labels:
  "gdtr_label gdt = gdt + 48" "iopb_label gdt = gdt + 54" "idt_label gdt = gdt + 8247" "idtp_label gdt = gdt + 9279" "tss_label gdt = gdt + 9285"
  by (simp_all add: gdtr_label_def iopb_label_def idt_label_def idtp_label_def tss_label_def gdt_bytes_def idt_bytes_length)

lemma entry_bytes:
  assumes "bytes_at m a idt_bytes" and "v < 0x81" and "j < 8"
  shows "m (a + of_nat v * 8 + of_nat j) = IDT_ENTRY v ! j"
proof -
  have "8 * v + j < length idt_bytes" using assms(2,3) by (simp add: idt_bytes_length)
  then have "m (a + of_nat (8 * v + j)) = idt_bytes ! (8 * v + j)" using assms(1) by (simp only: bytes_at_def)
  then show ?thesis using idt_bytes_entry [OF assms(2,3)] by (simp add: mult.commute add.assoc)
qed

lemma join16: "ucast (ucast x :: u16) OR push_bit 16 (ucast (ucast (drop_bit 16 x) :: u16)) = (x :: u32)"
  by (rule bit_word_eqI) (auto simp: bit_simps)

lemma gate_at_initial:
  assumes "bytes_at m idt idt_bytes" and "v < 0x81"
  shows "gate_at m idt v = (case map_of idt_gates v of Some a \<Rightarrow> (0, 8, a) | None \<Rightarrow> (0, 0, 0))"
  using entry_bytes [OF assms, of 0] entry_bytes [OF assms, of 1] entry_bytes [OF assms, of 2] entry_bytes [OF assms, of 3]
    entry_bytes [OF assms, of 5] entry_bytes [OF assms, of 6] entry_bytes [OF assms, of 7]
  by (auto simp: gate_at_def Let_def read16_def IDT_ENTRY_def add.assoc split: option.splits)

section \<open>The interrupt table\<close>

lemma gates_apart:
  fixes a :: u32
  assumes "v < 0x81" and "w < 0x81" and "v \<noteq> w"
  shows "apart (a + of_nat v * 8) 8 (a + of_nat w * 8) 8"
proof -
  have "apart (a + of_nat (8 * v)) 8 (a + of_nat (8 * w)) 8" if "v < w" "w < 0x81" for v w by (rule apart_of_nat) (use that in simp_all)
  then have less: "apart (a + of_nat v * 8) 8 (a + of_nat w * 8) 8" if "v < w" "w < 0x81" for v w using that by (simp add: mult.commute)
  show ?thesis using less [of v w] less [of w v] assms by (cases "v < w") (auto simp: apart_sym)
qed

lemma SET_IDT_BASE_outside:
  "same_outside (span (idt_label gdt + of_nat v * 8) 8) m (SET_IDT_BASE gdt v addr m)"
proof -
  let ?a = "idt_label gdt + of_nat v * 8"
  have s: "span ?a 2 \<subseteq> span ?a 8" "span (?a + 6) 2 \<subseteq> span ?a 8" using span_sub [of 0 2 8 ?a] span_sub [of 6 2 8 ?a] by simp_all
  show ?thesis
    unfolding SET_IDT_BASE_def Let_def
    by (rule same_outside_mono [OF same_outside_trans [OF same_outside_write16 same_outside_write16]]) (use s in blast)
qed

lemma SET_IDT_BASE_gate: "gate_at (SET_IDT_BASE gdt v addr m) (idt_label gdt) v = (addr, snd (gate_at m (idt_label gdt) v))"
proof -
  let ?a = "idt_label gdt + of_nat v * 8"
  have "SET_IDT_BASE gdt v addr m (?a + 5) = m (?a + 5)"
    by (simp add: SET_IDT_BASE_def Let_def write16_def)
  moreover have "read16 (SET_IDT_BASE gdt v addr m) (?a + 2) = read16 m (?a + 2)" "read16 (SET_IDT_BASE gdt v addr m) ?a = ucast addr"
      "read16 (SET_IDT_BASE gdt v addr m) (?a + 6) = ucast (drop_bit 16 addr)"
    by (simp_all add: SET_IDT_BASE_def Let_def mem_simps apart_def)
  ultimately show ?thesis by (simp add: gate_at_def Let_def join16)
qed

lemma SET_IDT_BASE_other:
  assumes "v < 0x81" and "w < 0x81" and "v \<noteq> w"
  shows "gate_at (SET_IDT_BASE gdt v addr m) (idt_label gdt) w = gate_at m (idt_label gdt) w"
proof -
  let ?a = "idt_label gdt + of_nat w * 8" and ?m = "SET_IDT_BASE gdt v addr m" and ?T = "span (idt_label gdt + of_nat v * 8) 8"
  have d: "?T \<inter> span ?a 8 = {}" by (rule apart_span [OF gates_apart [OF assms]])
  have s: "span ?a 2 \<subseteq> span ?a 8" "span (?a + 2) 2 \<subseteq> span ?a 8" "span (?a + 6) 2 \<subseteq> span ?a 8" "?a + 5 \<in> span ?a 8"
    using span_sub [of 0 2 8 ?a] span_sub [of 2 2 8 ?a] span_sub [of 6 2 8 ?a] by (simp_all add: span_def)
  have "read16 ?m x = read16 m x" if "span x 2 \<subseteq> span ?a 8" for x
    by (rule same_outside_read16 [OF SET_IDT_BASE_outside]) (use d that in blast)
  moreover have "?m (?a + 5) = m (?a + 5)" using SET_IDT_BASE_outside [of gdt v m addr] s(4) d by (auto simp: same_outside_def)
  ultimately show ?thesis using s by (simp add: gate_at_def Let_def)
qed

lemma set_bases:
  assumes "distinct vs" and "set vs \<subseteq> {..< 0x81}" and "w < 0x81"
  shows "gate_at (fold (\<lambda>v. SET_IDT_BASE gdt v (h v)) vs m) (idt_label gdt) w =
    (if w \<in> set vs then (h w, snd (gate_at m (idt_label gdt) w)) else gate_at m (idt_label gdt) w)"
  using assms
proof (induction vs arbitrary: m)
  case (Cons v vs)
  show ?case
    using Cons.IH [of "SET_IDT_BASE gdt v (h v) m"] Cons.prems SET_IDT_BASE_gate [of gdt v "h v" m] SET_IDT_BASE_other [of v w gdt "h v" m]
    by (cases "v = w") auto
qed simp

lemma set_bases_outside:
  assumes "set vs \<subseteq> {..< 0x81}"
  shows "same_outside (span (idt_label gdt) 0x408) m (fold (\<lambda>v. SET_IDT_BASE gdt v (h v)) vs m)"
  using assms
proof (induction vs arbitrary: m)
  case (Cons v vs)
  have "v < 0x81" using Cons.prems by simp
  then have "unat (of_nat v * 8 :: u32) = 8 * v" by (simp add: unat_word_ariths unat_of_nat take_bit_nat_eq_self)
  then have "span (idt_label gdt + of_nat v * 8) 8 \<subseteq> span (idt_label gdt) 0x408" using \<open>v < 0x81\<close> by (intro span_sub) simp
  then have "same_outside (span (idt_label gdt) 0x408) m (SET_IDT_BASE gdt v (h v) m)" by (rule same_outside_mono [OF SET_IDT_BASE_outside])
  from same_outside_trans [OF this Cons.IH] Cons.prems show ?case by simp
qed simp

lemma idt_vectors_facts: "distinct idt_vectors" "set idt_vectors \<subseteq> {..< 0x81}" "map fst idt_gates = idt_vectors"
  by (simp_all add: idt_vectors_def idt_gates_def)

lemma init_idt_gates:
  assumes d: "bytes_at m (idt_label gdt) idt_bytes" "read16 m (idtp_label gdt) = 256 * 8 - 1" "read32 m (idtp_label gdt + 2) = idt_label gdt" and "v < 0x81"
  shows "\<exists>m' t'. init_idt gdt handler (m, t) = (m', t') \<and> idtr t' = (0x7FF, idt_label gdt) \<and>
    gate_at m' (idt_label gdt) v = (case map_of idt_gates v of Some a \<Rightarrow> (handler v, 8, a) | None \<Rightarrow> (0, 0, 0)) \<and>
    same_outside (span (idt_label gdt) 0x408) m m'"
proof -
  define m' where "m' = fold (\<lambda>v. SET_IDT_BASE gdt v (handler v)) idt_vectors m"
  note o = set_bases_outside [OF idt_vectors_facts(2), of gdt m handler, folded m'_def]
  have "span (idtp_label gdt) 6 \<inter> span (idt_label gdt) 0x408 = {}" unfolding labels by (rule apart_span) (simp add: apart_def)
  moreover have "span (idtp_label gdt) 2 \<subseteq> span (idtp_label gdt) 6" "span (idtp_label gdt + 2) 4 \<subseteq> span (idtp_label gdt) 6"
    using span_mono [of 2 6 "idtp_label gdt"] span_sub [of 2 4 6 "idtp_label gdt"] by simp_all
  ultimately have r: "read16 m' (idtp_label gdt) = 0x7FF" "read32 m' (idtp_label gdt + 2) = idt_label gdt"
    using same_outside_read16 [OF o, of "idtp_label gdt"] same_outside_read32 [OF o, of "idtp_label gdt + 2"] d(2,3) by (auto simp: disjoint_iff subset_iff)
  have "v \<in> set idt_vectors \<longleftrightarrow> map_of idt_gates v \<noteq> None"
    unfolding idt_vectors_facts(3) [symmetric] by (simp add: map_of_eq_None_iff)
  then have "gate_at m' (idt_label gdt) v = (case map_of idt_gates v of Some a \<Rightarrow> (handler v, 8, a) | None \<Rightarrow> (0, 0, 0))"
    unfolding m'_def set_bases [OF idt_vectors_facts(1,2) assms(4)] gate_at_initial [OF d(1) assms(4)] by (auto split: option.splits)
  then show ?thesis
    using o r by (simp add: init_idt_def Let_def m'_def [symmetric] init_pic_def init_pit_def outb_def)
qed

section \<open>The segments\<close>

lemma gdt_byte: "gate_data m gdt \<Longrightarrow> i < 48 \<Longrightarrow> m (gdt + of_nat i) = gdt_bytes ! i"
  by (simp add: gate_data_def bytes_at_def gdt_bytes_def)

lemma split_address: "ucast (ucast x :: u16) OR push_bit 16 (ucast (ucast (drop_bit 16 x) :: u8)) OR push_bit 24 (ucast (ucast (drop_bit 24 x) :: u8)) = (x :: u32)"
proof (rule bit_word_eqI)
  fix n assume "n < LENGTH(32)"
  then show "bit (ucast (ucast x :: u16) OR push_bit 16 (ucast (ucast (drop_bit 16 x) :: u8)) OR push_bit 24 (ucast (ucast (drop_bit 24 x) :: u8)) :: u32) n = bit x n"
    by (cases "n < 16"; cases "n < 24") (auto simp: bit_simps)
qed

text \<open>The bytes of the table and of the task state segment once the address is in them.\<close>

definition patched :: "mem \<Rightarrow> u32 \<Rightarrow> bool" where
  "patched m gdt \<longleftrightarrow> (\<forall>i < 48. i \<notin> {42, 43, 44, 47} \<longrightarrow> m (gdt + of_nat i) = gdt_bytes ! i) \<and> read16 m (gdt + 42) = ucast (tss_label gdt) \<and>
     m (gdt + 44) = ucast (drop_bit 16 (tss_label gdt)) \<and> m (gdt + 47) = ucast (drop_bit 24 (tss_label gdt)) \<and> read16 m (tss_label gdt + 0x66) = 56305"

lemma init_tss_patches:
  assumes "gate_data m gdt" and "init_tss gdt (m, t) = (m', t')"
  shows "patched m' gdt" and "t' = t\<lparr> tr := 0x28 \<rparr>" and "same_outside (span gdt 48 \<union> span (tss_label gdt) 0x68) m m'"
proof -
  have m': "m' = write16 ((write16 m (gdt + 42) (ucast (tss_label gdt)))(gdt + 44 := ucast (drop_bit 16 (tss_label gdt)),
      gdt + 47 := ucast (drop_bit 24 (tss_label gdt)))) (tss_label gdt + 0x66) (ucast (iopb_label gdt - tss_label gdt))"
    and t': "t' = t\<lparr> tr := 0x28 \<rparr>"
    using assms(2) by (auto simp: init_tss_def Let_def add.assoc)
  show "t' = t\<lparr> tr := 0x28 \<rparr>" by (rule t')
  have "iopb_label gdt - tss_label gdt = - 9231" by (simp add: labels)
  then have "read16 m' (tss_label gdt + 0x66) = 56305" unfolding m' by simp
  moreover have "read16 m' (gdt + 42) = ucast (tss_label gdt)" "m' (gdt + 44) = ucast (drop_bit 16 (tss_label gdt))" "m' (gdt + 47) = ucast (drop_bit 24 (tss_label gdt))"
    unfolding m' labels by (simp_all add: mem_simps apart_def write16_def, simp_all add: read16_def write16_def) (rule bit_word_eqI, auto simp: bit_simps)
  moreover have "m' (gdt + of_nat i) = gdt_bytes ! i" if i: "i < 48" "i \<notin> {42, 43, 44, 47}" for i
  proof -
    have u: "(of_nat i :: u32) = of_nat j \<longleftrightarrow> i = j" if "j < 4294967296" for j
      using that i by (simp add: word_of_nat_eq_iff take_bit_nat_eq_self)
    show ?thesis
      using gdt_byte [OF assms(1) i(1)] i u [of 42] u [of 43] u [of 44] u [of 47] u [of 9387] u [of 9388] by (simp add: m' labels write16_def)
  qed
  ultimately show "patched m' gdt" by (simp add: patched_def)
  have "gdt + 42 \<in> span gdt 48" "gdt + 42 + 1 \<in> span gdt 48" "gdt + 44 \<in> span gdt 48" "gdt + 47 \<in> span gdt 48"
      "tss_label gdt + 0x66 \<in> span (tss_label gdt) 0x68" "tss_label gdt + 0x66 + 1 \<in> span (tss_label gdt) 0x68"
    by (simp_all add: span_def)
  then show "same_outside (span gdt 48 \<union> span (tss_label gdt) 0x68) m m'" unfolding m' same_outside_def write16_def by auto
qed

lemma patched_frame:
  assumes "patched m gdt" and "same_outside (span (idt_label gdt) 0x408) m m'"
  shows "patched m' gdt"
proof -
  have d: "span gdt 48 \<inter> span (idt_label gdt) 0x408 = {}" "span (tss_label gdt) 0x68 \<inter> span (idt_label gdt) 0x408 = {}"
    unfolding labels by (rule apart_span, simp add: apart_def)+
  have b: "m' (gdt + of_nat i) = m (gdt + of_nat i)" if "i < 48" for i
  proof -
    have "gdt + of_nat i \<in> span gdt 48" using that by (simp add: span_def unat_of_nat take_bit_nat_eq_self)
    then show ?thesis using assms(2) d(1) unfolding same_outside_def by blast
  qed
  have s: "span (gdt + 42) 2 \<subseteq> span gdt 48" "span (tss_label gdt + 0x66) 2 \<subseteq> span (tss_label gdt) 0x68" by (rule span_sub, simp)+
  have "read16 m' (gdt + 42) = read16 m (gdt + 42)" by (rule same_outside_read16 [OF assms(2)]) (use d(1) s(1) in blast)
  moreover have "read16 m' (tss_label gdt + 0x66) = read16 m (tss_label gdt + 0x66)" by (rule same_outside_read16 [OF assms(2)]) (use d(2) s(2) in blast)
  ultimately show ?thesis using assms(1) b [of 44] b [of 47] b by (simp add: patched_def)
qed

lemma patched_segments:
  assumes "patched m gdt"
  shows "k < 5 \<Longrightarrow> 0 < k \<Longrightarrow> segment_at m (gdt + of_nat (8 * k)) = \<lparr> seg_base = 0, seg_limit = 0xFFFFFFFF, seg_access = gdt_bytes ! (8 * k + 5) \<rparr>"
    and "segment_at m (gdt + 0x28) = \<lparr> seg_base = tss_label gdt, seg_limit = 0x2068, seg_access = 0x89 \<rparr>" and "\<not> io_permitted m (gdt + 0x28) port"
proof -
  have b: "m (gdt + of_nat i) = gdt_bytes ! i" if "i < 48" "i \<notin> {42, 43, 44, 47}" for i using assms that by (simp add: patched_def)
  show "segment_at m (gdt + of_nat (8 * k)) = \<lparr> seg_base = 0, seg_limit = 0xFFFFFFFF, seg_access = gdt_bytes ! (8 * k + 5) \<rparr>" if k: "k < 5" "0 < k"
  proof -
    have g: "m (gdt + of_nat (8 * k + j)) = gdt_bytes ! (8 * k + j)" if "j < 8" for j by (rule b) (use that k in auto)
    have "k = 1 \<or> k = 2 \<or> k = 3 \<or> k = 4" using k by auto
    then show ?thesis
      using g [of 0] g [of 1] g [of 2] g [of 3] g [of 4] g [of 5] g [of 6] g [of 7] by (auto simp: segment_at_def Let_def read16_def gdt_bytes_def add.assoc)
  qed
  have p: "read16 m (gdt + 42) = ucast (tss_label gdt)" "m (gdt + 44) = ucast (drop_bit 16 (tss_label gdt))"
      "m (gdt + 47) = ucast (drop_bit 24 (tss_label gdt))" "read16 m (tss_label gdt + 0x66) = 56305"
    using assms by (simp_all add: patched_def)
  show t: "segment_at m (gdt + 0x28) = \<lparr> seg_base = tss_label gdt, seg_limit = 0x2068, seg_access = 0x89 \<rparr>"
    using b [of 40] b [of 41] b [of 45] b [of 46] p split_address [of "tss_label gdt"]
    by (simp add: segment_at_def Let_def read16_def [of _ "gdt + 40"] gdt_bytes_def add.assoc)
  show "\<not> io_permitted m (gdt + 0x28) port" using p(4) by (simp add: io_permitted_def t)
qed

section \<open>An example\<close>

text \<open>The data section at the address \<^verbatim>\<open>0x80100000\<close>.\<close>

definition demo_section :: "u8 list" where
  "demo_section = gdt_bytes @ [0x2F, 0x00, 0x00, 0x00, 0x10, 0x80] @ (replicate 0x2000 0 @ [0xFF]) @ idt_bytes @
     [0xFF, 0x07, 0x37, 0x20, 0x10, 0x80] @ replicate 0x68 0"

definition demo_gates :: mem where
  "demo_gates x = (let i = unat (x - 0x80100000) in if i < length demo_section then demo_section ! i else 0)"

lemma bytes_at_section:
  fixes m :: mem
  assumes "\<And>i. i < length (xs @ ys @ zs) \<Longrightarrow> m (a + of_nat i) = (xs @ ys @ zs) ! i"
  shows "bytes_at m (a + of_nat (length xs)) ys"
  unfolding bytes_at_def
proof (intro allI impI)
  fix i assume "i < length ys"
  then show "m (a + of_nat (length xs) + of_nat i) = ys ! i" using assms [of "length xs + i"] by (simp add: nth_append add.assoc)
qed

lemma demo_bytes: "demo_section = xs @ ys @ zs \<Longrightarrow> bytes_at demo_gates (0x80100000 + of_nat (length xs)) ys"
proof -
  assume s: "demo_section = xs @ ys @ zs"
  have l: "length demo_section = 9389" by (simp add: demo_section_def gdt_bytes_def idt_bytes_length)
  have "demo_gates (0x80100000 + of_nat i) = demo_section ! i" if "i < length demo_section" for i
    using that l by (simp add: demo_gates_def unat_of_nat take_bit_nat_eq_self)
  then show ?thesis by (intro bytes_at_section [of xs ys zs]) (simp only: s [symmetric])
qed

lemma bytes_at_Cons: "bytes_at m a (x # xs) \<longleftrightarrow> m a = x \<and> bytes_at m (a + 1) xs"
  by (simp add: bytes_at_def All_less_Suc2 add.assoc)

lemma bytes_at_reads:
  assumes "bytes_at m a [x, y, z, w, u, v]"
  shows "read16 m a = ucast x OR push_bit 8 (ucast y)"
    and "read32 m (a + 2) = ucast z OR push_bit 8 (ucast w) OR push_bit 16 (ucast u) OR push_bit 24 (ucast v)"
  using assms by (simp_all add: bytes_at_Cons read16_def read32_def add.assoc)

lemma demo_gate_data: "gate_data demo_gates 0x80100000"
proof -
  let ?p = "replicate 0x2000 0 @ [0xFF] :: u8 list" and ?l = "[0xFF, 0x07, 0x37, 0x20, 0x10, 0x80] :: u8 list"
    and ?g = "[0x2F, 0x00, 0x00, 0x00, 0x10, 0x80] :: u8 list" and ?t = "replicate 0x68 0 :: u8 list"
  have L: "length gdt_bytes = 48" by (simp add: gdt_bytes_def)
  note b = demo_bytes [of "[]" gdt_bytes "?g @ ?p @ idt_bytes @ ?l @ ?t"] demo_bytes [of gdt_bytes ?g "?p @ idt_bytes @ ?l @ ?t"]
    demo_bytes [of "gdt_bytes @ ?g" ?p "idt_bytes @ ?l @ ?t"] demo_bytes [of "gdt_bytes @ ?g @ ?p" idt_bytes "?l @ ?t"]
    demo_bytes [of "gdt_bytes @ ?g @ ?p @ idt_bytes" ?l ?t] demo_bytes [of "gdt_bytes @ ?g @ ?p @ idt_bytes @ ?l" ?t "[]"]
  have s: "bytes_at demo_gates 0x80100000 gdt_bytes" "bytes_at demo_gates 0x80100030 ?g" "bytes_at demo_gates 0x80100036 ?p"
      "bytes_at demo_gates 0x80102037 idt_bytes" "bytes_at demo_gates 0x8010243F ?l" "bytes_at demo_gates 0x80102445 ?t"
    using b by (simp_all add: demo_section_def L idt_bytes_length)
  show ?thesis
    using s bytes_at_reads [OF s(2)] bytes_at_reads [OF s(5)] by (simp add: gate_data_def labels L)
qed

section \<open>The permission map\<close>

text \<open>The comment at \<^verbatim>\<open>iopb\<close> says that it permits every port. But the map lies in front of the task state segment, so the offset that \<^verbatim>\<open>init_tss\<close> stores,
  the distance from the segment to the map cut to 16 bits, is that of a place behind the limit of the segment, and the
  processor permits no port at all.\<close>

lemma no_port_permitted:
  assumes "gate_data m gdt" and "init_tss gdt (m, t) = (m', t')"
  shows "\<not> io_permitted m' (gdt + 0x28) port"
  by (rule patched_segments(3) [OF init_tss_patches(1) [OF assms]])

section \<open>Properties\<close>

text \<open>C34: what \<^verbatim>\<open>kmain\<close> leaves behind once it has called the three routines: code and data segments of ring 0 and ring 3 that cover the whole
  address space, a task state segment at \<^verbatim>\<open>tss\<close>, the stack and data segments of the kernel in the registers, interrupts off, and a table in
  which each of the vectors 0 to \<^verbatim>\<open>0x80\<close> that has a gate leads to its handler in the kernel's code segment, \<^verbatim>\<open>0x80\<close> alone open to user mode; the
  others up to \<^verbatim>\<open>0x80\<close> are empty. The limit of the table says 256 gates, so for the vectors from \<^verbatim>\<open>0x81\<close> on the processor reads what lies behind
  the table; nothing is said of them.\<close>

theorem tables_installed:
  assumes "gate_data m gdt" and "install_tables gdt handler (r, m, t) = (r', m', t')" and "v < 0x81"
  shows "cs r' = 0x08 \<and> ss r' = 0x10 \<and> ds r' = 0x10 \<and> \<not> bit (eflags r') 9 \<and> gdtr t' = (47, gdt) \<and> idtr t' = (0x7FF, idt_label gdt) \<and> tr t' = 0x28 \<and>
    map (\<lambda>i. segment_at m' (gdt + i)) [0x08, 0x10, 0x18, 0x20] =
      map (\<lambda>a. \<lparr> seg_base = 0, seg_limit = 0xFFFFFFFF, seg_access = a \<rparr>) [0x9A, 0x92, 0xFA, 0xF2] \<and>
    segment_at m' (gdt + 0x28) = \<lparr> seg_base = tss_label gdt, seg_limit = 0x2068, seg_access = 0x89 \<rparr> \<and>
    gate_at m' (idt_label gdt) v = (case map_of idt_gates v of Some a \<Rightarrow> (handler v, 0x08, a) | None \<Rightarrow> (0, 0, 0))"
proof -
  have g: "bytes_at m (idt_label gdt) idt_bytes" "read16 m (idtp_label gdt) = 256 * 8 - 1" "read32 m (idtp_label gdt + 2) = idt_label gdt"
      "read16 m (gdtr_label gdt) = 47" "read32 m (gdtr_label gdt + 2) = gdt"
    using assms(1) by (simp_all add: gate_data_def gdt_bytes_def)
  obtain m1 t1 where i: "init_tss gdt (m, t\<lparr> gdtr := (47, gdt) \<rparr>) = (m1, t1)" by fastforce
  note p = init_tss_patches [OF assms(1) i]
  let ?T = "span gdt 48 \<union> span (tss_label gdt) 0x68"
  have d: "span (idt_label gdt) 0x408 \<inter> ?T = {}" "span (idtp_label gdt) 6 \<inter> ?T = {}"
    unfolding labels Int_Un_distrib Un_empty by (intro conjI apart_span; simp add: apart_def)+
  have "m1 (idt_label gdt + of_nat j) = m (idt_label gdt + of_nat j)" if "j < 0x408" for j
  proof -
    have "idt_label gdt + of_nat j \<in> span (idt_label gdt) 0x408" using that by (simp add: span_def unat_of_nat take_bit_nat_eq_self)
    then show ?thesis using p(3) d(1) unfolding same_outside_def by blast
  qed
  then have b1: "bytes_at m1 (idt_label gdt) idt_bytes" using g(1) by (simp add: bytes_at_def idt_bytes_length)
  have s: "span (idtp_label gdt) 2 \<subseteq> span (idtp_label gdt) 6" "span (idtp_label gdt + 2) 4 \<subseteq> span (idtp_label gdt) 6"
    using span_mono [of 2 6 "idtp_label gdt"] span_sub [of 2 4 6 "idtp_label gdt"] by simp_all
  have r16: "read16 m1 (idtp_label gdt) = 256 * 8 - 1" unfolding g(2) [symmetric] by (rule same_outside_read16 [OF p(3)]) (use d(2) s(1) in blast)
  have "span (idtp_label gdt + 2) 4 \<inter> ?T = {}" using d(2) s(2) by blast
  then have r32: "read32 m1 (idtp_label gdt + 2) = idt_label gdt" using g(3) same_outside_read32 [OF p(3)] by simp
  from init_idt_gates [OF b1 r16 r32 assms(3), of handler t1] obtain m2 t2 where
    q: "init_idt gdt handler (m1, t1) = (m2, t2)" "idtr t2 = (0x7FF, idt_label gdt)"
      "gate_at m2 (idt_label gdt) v = (case map_of idt_gates v of Some a \<Rightarrow> (handler v, 8, a) | None \<Rightarrow> (0, 0, 0))"
      "same_outside (span (idt_label gdt) 0x408) m1 m2" by blast
  have e: "cs r' = 0x08" "ss r' = 0x10" "ds r' = 0x10" "\<not> bit (eflags r') 9" "m' = m2" "t' = t2"
    using assms(2) g(4,5) i q(1) by (auto simp: install_tables_def init_gdt_def Let_def bit_simps)
  have "gdtr t2 = gdtr t1" "tr t2 = tr t1" using q(1) by (auto simp: init_idt_def Let_def init_pic_def init_pit_def outb_def)
  moreover note ps = patched_segments [OF patched_frame [OF p(1) q(4)]]
  moreover have "map (\<lambda>i. segment_at m2 (gdt + i)) [0x08, 0x10, 0x18, 0x20] =
      map (\<lambda>a. \<lparr> seg_base = 0, seg_limit = 0xFFFFFFFF, seg_access = a \<rparr>) [0x9A, 0x92, 0xFA, 0xF2]"
    using ps(1) [of 1] ps(1) [of 2] ps(1) [of 3] ps(1) [of 4] by (simp add: gdt_bytes_def)
  ultimately show ?thesis using q(2,3) p(2) e by simp
qed

theorem tables_installed_witness:
  "\<exists>r' m' t'. install_tables 0x80100000 (\<lambda>v. 0x80200000 + 16 * of_nat v) (demo_regs, demo_gates, \<lparr> gdtr = (0, 0), idtr = (0, 0), tr = 0, out = [] \<rparr>) =
       (r', m', t') \<and> gate_at m' 0x80102037 0x80 = (0x80200800, 8, 0xEE)"
proof -
  obtain r' m' t' where e: "install_tables 0x80100000 (\<lambda>v. 0x80200000 + 16 * of_nat v) (demo_regs, demo_gates, \<lparr> gdtr = (0, 0), idtr = (0, 0), tr = 0, out = [] \<rparr>) =
       (r', m', t')" by (metis prod_cases3)
  from tables_installed [OF demo_gate_data e, of "0x80"] show ?thesis using e by (auto simp: labels idt_gates_def)
qed

end
