(* ===== verification/Interrupts.thy ===== *)
theory Interrupts
  imports Syscall Gate
begin

text \<open>
  The handlers of \<^verbatim>\<open>kernel/interrupt.S\<close> for the exceptions and the keyboard. The processor pushes an error code for some exceptions (\<open>has_error_code\<close>); a
  handler resumes the interrupted program or stops the machine, after calls of \<^verbatim>\<open>printk\<close>. \<^verbatim>\<open>printk\<close> is compiled C code, which need not preserve
  \<^verbatim>\<open>eax\<close>, \<^verbatim>\<open>ecx\<close> and \<^verbatim>\<open>edx\<close>: what it leaves of the registers and the memory is a parameter (\<open>pk\<close>), and a call is recorded with the words
  it finds on the stack. The addresses of the messages are a parameter too (\<open>loc\<close>). \<^verbatim>\<open>util.S\<close> is here as well.
\<close>

section \<open>The exceptions\<close>

text \<open>The processor's side, for an exception in user mode.\<close>

definition has_error_code :: "nat \<Rightarrow> bool" where
  "has_error_code v \<longleftrightarrow> v \<in> {0x08, 0x0A, 0x0B, 0x0C, 0x0D, 0x0E, 0x11, 0x15}"

definition raise :: "nat \<Rightarrow> u32 \<Rightarrow> kernel \<Rightarrow> regs \<Rightarrow> machine" where
  "raise v code k r = (if has_error_code v then push code (interrupt k r) else interrupt k r)"

datatype verdict = Resumes machine | Stops "u32 list list"

definition panic_msg :: string where "panic_msg = ''KERNEL PANIC!'' @ [CHR 0x0A]"
definition pf_msg :: string where "pf_msg = ''Page fault: 0b%b'' @ [CHR 0x0A] @ ''Address: 0x%x'' @ [CHR 0x0A]"
definition inv_op_msg :: string where "inv_op_msg = ''Invalid opcode''"
definition inv_tss_msg :: string where "inv_tss_msg = ''Invalid TSS'' @ [CHR 0x0A]"
definition gpf_msg :: string where "gpf_msg = ''General protection fault'' @ [CHR 0x0A]"

text \<open>A call of \<^verbatim>\<open>printk\<close> that reads \<open>n\<close> words of the stack, the address of the format first; and the instruction that takes words off the stack.\<close>

definition call_printk :: "(machine \<Rightarrow> machine) \<Rightarrow> nat \<Rightarrow> machine \<times> u32 list list \<Rightarrow> machine \<times> u32 list list" where
  "call_printk pk n = (\<lambda>(s, out). (pk s, out @ [map (\<lambda>i. arg i s) [0 ..< n]]))"

definition drop_words :: "u32 \<Rightarrow> machine \<Rightarrow> machine" where
  "drop_words n = (\<lambda>(r, m). (r\<lparr> esp := esp r + n \<rparr>, m))"

text \<open>The handlers that stop: they end in a loop of \<^verbatim>\<open>cli\<close> and \<^verbatim>\<open>hlt\<close>.\<close>

definition INT_0x06 :: "(machine \<Rightarrow> machine) \<Rightarrow> (string \<Rightarrow> u32) \<Rightarrow> machine \<Rightarrow> verdict" where
  "INT_0x06 pk loc s =
     (let s = push (loc panic_msg) s; (s, out) = call_printk pk 1 (s, []); s = drop_words 4 s;
          s = push (loc inv_op_msg) s; (s, out) = call_printk pk 1 (s, out) in
      Stops out)"

definition INT_0x08 :: "machine \<Rightarrow> verdict" where
  "INT_0x08 s = (let s = pop eax_update s in Stops [])"

definition INT_0x0A :: "(machine \<Rightarrow> machine) \<Rightarrow> (string \<Rightarrow> u32) \<Rightarrow> machine \<Rightarrow> verdict" where
  "INT_0x0A pk loc s =
     (let s = push (loc panic_msg) s; (s, out) = call_printk pk 1 (s, []); s = drop_words 4 s;
          s = push (loc inv_tss_msg) s; (s, out) = call_printk pk 1 (s, out) in
      Stops out)"

definition INT_0x0C :: "machine \<Rightarrow> verdict" where
  "INT_0x0C s = Stops []"

definition INT_0x0D :: "(machine \<Rightarrow> machine) \<Rightarrow> (string \<Rightarrow> u32) \<Rightarrow> machine \<Rightarrow> verdict" where
  "INT_0x0D pk loc s =
     (let s = push (loc panic_msg) s; (s, out) = call_printk pk 1 (s, []); s = drop_words 4 s;
          s = push (loc gpf_msg) s; (s, out) = call_printk pk 1 (s, out) in
      Stops out)"

definition INT_0x0E :: "(machine \<Rightarrow> machine) \<Rightarrow> (string \<Rightarrow> u32) \<Rightarrow> u32 \<Rightarrow> machine \<Rightarrow> verdict" where
  "INT_0x0E pk loc cr2 s =
     (let s = pop eax_update s;
          s = (case s of (r, m) \<Rightarrow> (r\<lparr> ecx := cr2 \<rparr>, m));
          s = push (loc panic_msg) s; (s, out) = call_printk pk 1 (s, []); s = drop_words 4 s;
          s = push (ecx (fst s)) s; s = push (eax (fst s)) s;
          s = push (loc pf_msg) s; (s, out) = call_printk pk 3 (s, out) in
      Stops out)"

text \<open>The handlers that consist of \<^verbatim>\<open>iret\<close>. The processor checks the code segment it takes from the stack: its selector has to name a
  code segment of the descriptor table, with the privilege of that segment. Otherwise \<^verbatim>\<open>iret\<close> itself raises a general protection fault, in
  the kernel, with the selector as the error code. (\<open>iret\<close> of \<open>Switch\<close> is the instruction without this check.)\<close>

definition returns_to :: "u32 \<Rightarrow> bool" where
  "returns_to sel \<longleftrightarrow>
     (let i = unat (drop_bit 3 (take_bit 16 sel)); a = gdt_bytes ! (8 * i + 5) in
      \<not> bit sel 2 \<and> i \<noteq> 0 \<and> 8 * i < length gdt_bytes \<and> a AND 0x98 = 0x98 \<and> drop_bit 5 a AND 3 = ucast (sel AND 3))"

definition iret_faults :: "machine \<Rightarrow> machine" where
  "iret_faults s = (let x = fst s; sel = arg 1 s in push (sel AND 0xFFFC) (push (eip x) (push (cs x) (push (eflags x) s))))"

definition INT_iret :: "(machine \<Rightarrow> machine) \<Rightarrow> (string \<Rightarrow> u32) \<Rightarrow> machine \<Rightarrow> verdict" where
  "INT_iret pk loc s = (if returns_to (arg 1 s) then Resumes (iret s) else INT_0x0D pk loc (iret_faults s))"

definition exception_handler :: "(machine \<Rightarrow> machine) \<Rightarrow> (string \<Rightarrow> u32) \<Rightarrow> u32 \<Rightarrow> nat \<Rightarrow> (machine \<Rightarrow> verdict) option" where
  "exception_handler pk loc cr2 v =
     (if v \<in> {0x00, 0x01, 0x02, 0x03, 0x04, 0x05, 0x07, 0x09, 0x0B, 0x10, 0x11, 0x12, 0x13, 0x14, 0x15} then Some (INT_iret pk loc)
      else if v = 0x06 then Some (INT_0x06 pk loc)
      else if v = 0x08 then Some INT_0x08
      else if v = 0x0A then Some (INT_0x0A pk loc)
      else if v = 0x0C then Some INT_0x0C
      else if v = 0x0D then Some (INT_0x0D pk loc)
      else if v = 0x0E then Some (INT_0x0E pk loc cr2)
      else None)"

section \<open>The keyboard\<close>

text \<open>The keyboard handler reads the scan code, acknowledges the interrupt and drops the code. \<open>code\<close> is the byte the
  port delivers.\<close>

definition INT_0x21 :: "u8 \<Rightarrow> machine \<Rightarrow> machine \<times> (u16 \<times> u8) list" where
  "INT_0x21 code s =
     (let s = push (eax (fst s)) s; s = push (ebx (fst s)) s;
          s = (case s of (r, m) \<Rightarrow> (r\<lparr> eax := (eax r AND NOT 0xFF) OR ucast code \<rparr>, m));
          s = (case s of (r, m) \<Rightarrow> (r\<lparr> eax := (eax r AND NOT 0xFFFF) OR push_bit 8 (ucast code) OR 0x20 \<rparr>, m));
          s = (if bit code 7 then s else (case s of (r, m) \<Rightarrow> (r\<lparr> eax := eax r AND NOT 0x8000 \<rparr>, m)));
          s = pop ebx_update s; s = pop eax_update s in
      (iret s, [(0x20, 0x20)]))"

section \<open>Register access\<close>

text \<open>\<^verbatim>\<open>ARG_LONG_GET\<close> and \<^verbatim>\<open>ARG_LONG_SET\<close> of \<^verbatim>\<open>util.S\<close>, with the argument above the return address.\<close>

definition ARG_LONG_GET :: "(machine \<Rightarrow> u32) \<Rightarrow> machine \<Rightarrow> machine" where
  "ARG_LONG_GET reg s = ret (case s of (r, m) \<Rightarrow> (r\<lparr> eax := reg s \<rparr>, m))"

definition ARG_LONG_SET :: "((u32 \<Rightarrow> u32) \<Rightarrow> regs \<Rightarrow> regs) \<Rightarrow> machine \<Rightarrow> machine" where
  "ARG_LONG_SET upd s =
     (let s = (case s of (r, m) \<Rightarrow> (r\<lparr> eax := read32 m (esp r + 4) \<rparr>, m));
          s = (case s of (r, m) \<Rightarrow> (upd (\<lambda>_. eax r) r, m)) in
      ret s)"

section \<open>The numbers of the system calls\<close>

text \<open>\<^verbatim>\<open>sys/syscall.h\<close>, which the stubs of the library use; the table in \<^verbatim>\<open>interrupt.S\<close> is in the same order.\<close>

definition syscall_h :: "string list" where
  "syscall_h = [''SYS_restart'', ''SYS_exit'', ''SYS_fork'', ''SYS_read'', ''SYS_write'', ''SYS_open'', ''SYS_close'', ''SYS_creat'',
     ''SYS_execve'', ''SYS_mmap'']"

lemma stub_numbers:
  "syscall_h ! unat (eax (stub_write m r)) = ''SYS_write''" "syscall_h ! unat (eax (stub_open m r)) = ''SYS_open''"
  "syscall_h ! unat (eax (stub_execve m r)) = ''SYS_execve''" "syscall_h ! unat (eax (stub_fork r)) = ''SYS_fork''"
  "syscall_h ! unat (eax (stub_exit m r)) = ''SYS_exit''"
  by (simp_all add: syscall_h_def stub_write_def stub_open_def stub_execve_def stub_fork_def stub_exit_def)

section \<open>What the exceptions do\<close>

text \<open>The frame the processor leaves, from the address where the error code would be.\<close>

lemma interrupt_frame:
  assumes "t = tss_esp0 k - 24"
  shows "interrupt k r = (r\<lparr> esp := t + 4, ss := tss_ss0 k \<rparr>,
    write32 (write32 (write32 (write32 (write32 (km k) (t + 20) (ss r)) (t + 16) (esp r)) (t + 12) (eflags r)) (t + 8) (cs r)) (t + 4) (eip r))"
proof -
  have e: "tss_esp0 k = t + 24" using assms by simp
  have s: "t + 24 - 4 = t + 20" "t + 20 - 4 = t + 16" "t + 16 - 4 = t + 12" "t + 12 - 4 = t + 8" "t + 8 - 4 = t + 4" by simp_all
  show ?thesis by (simp add: interrupt_def push_def Let_def e s)
qed

text \<open>What \<^verbatim>\<open>iret\<close> finds on the stack, with an error code and without one.\<close>

lemma raised_words:
  "\<not> has_error_code v \<Longrightarrow> arg 1 (raise v code k r) = cs r"
  "has_error_code v \<Longrightarrow> arg 1 (raise v code k r) = eip r" "has_error_code v \<Longrightarrow> arg 0 (raise v code k r) = code"
  using interrupt_frame [OF refl, of k r] by (simp_all add: raise_def arg_def push_def mem_simps apart_def add.assoc)

text \<open>Without an error code the program goes on where it was interrupted, with all its registers: an instruction that
  faults is executed again.\<close>

lemma iret_resumes:
  assumes "\<not> has_error_code v" and "cs r AND 3 \<noteq> 0"
  shows "fst (iret (raise v code k r)) = r"
  using assms interrupt_frame [OF refl, of k r] by (simp add: raise_def insn_defs mem_simps apart_def add.assoc)

text \<open>What the handlers that stop have printed.\<close>

lemma top_words:
  "arg 0 (push v s) = v" "arg 1 (push v (push w s)) = w" "arg 2 (push v (push w (push x s))) = x"
  by (cases s; simp add: arg_def push_def mem_simps apart_def add.assoc)+

lemma push_eax: "eax (fst (push v s)) = eax (fst s)"
  by (cases s) (simp add: push_def)

lemma stopping_handlers:
  "INT_0x06 pk loc s = Stops [[loc panic_msg], [loc inv_op_msg]]" "INT_0x0A pk loc s = Stops [[loc panic_msg], [loc inv_tss_msg]]"
  "INT_0x0D pk loc s = Stops [[loc panic_msg], [loc gpf_msg]]"
  by (simp_all add: INT_0x06_def INT_0x0A_def INT_0x0D_def call_printk_def Let_def top_words)

text \<open>The message for a page fault is formatted from what \<^verbatim>\<open>printk\<close> left in the registers, not from the error code and the
  address.\<close>

lemma page_fault_message:
  "\<exists>s'. eax (fst s') = arg 0 s \<and> ecx (fst s') = cr2 \<and>
     INT_0x0E pk loc cr2 s = Stops [[loc panic_msg], [loc pf_msg, eax (fst (pk s')), ecx (fst (pk s'))]]"
proof -
  define s1 where "s1 = push (loc panic_msg) ((fst s)\<lparr> esp := esp (fst s) + 4, eax := arg 0 s, ecx := cr2 \<rparr>, snd s)"
  obtain x m where pk: "pk s1 = (x, m)" by (cases "pk s1")
  have three: "[0 ..< 3] = [0, 1, 2 :: nat]" by (simp add: numeral_3_eq_3)
  have p: "push (loc panic_msg) (case pop eax_update s of (r, m) \<Rightarrow> (r\<lparr> ecx := cr2 \<rparr>, m)) = s1"
    by (cases s) (simp add: s1_def pop_def arg_def)
  have "eax (fst s1) = arg 0 s" "ecx (fst s1) = cr2" by (simp_all add: s1_def push_def)
  moreover have "arg 0 s1 = loc panic_msg" by (simp add: s1_def top_words)
  then have "INT_0x0E pk loc cr2 s = Stops [[loc panic_msg], [loc pf_msg, eax (fst (pk s1)), ecx (fst (pk s1))]]"
    unfolding INT_0x0E_def Let_def p
    by (simp add: call_printk_def pk drop_words_def three push_eax top_words top_words(2) [unfolded One_nat_def])
  ultimately show ?thesis by blast
qed

text \<open>C36: what becomes of an exception in user mode, vector by vector. Six of them stop the machine, four with a message. For a vector without an
  error code whose handler is only \<^verbatim>\<open>iret\<close> the program goes on at the same instruction with all its registers, so that a fault is raised
  again. The handlers of \<^verbatim>\<open>0x0B\<close>, \<^verbatim>\<open>0x11\<close> and \<^verbatim>\<open>0x15\<close> do not remove the error code that the processor pushed: \<^verbatim>\<open>iret\<close> takes the program's
  instruction pointer for a code segment, and unless that happens to name one, the machine stops with a general protection fault. The
  message for a page fault shows what \<^verbatim>\<open>printk\<close> has made of the error code and the address.\<close>

theorem exceptions_in_user_mode:
  assumes "cs r AND 3 \<noteq> 0" and "returns_to (cs r)" and "exception_handler pk loc cr2 v = Some h"
  shows "if v = 0x06 then h (raise v code k r) = Stops [[loc panic_msg], [loc inv_op_msg]]
    else if v = 0x0A then h (raise v code k r) = Stops [[loc panic_msg], [loc inv_tss_msg]]
    else if v = 0x0D then h (raise v code k r) = Stops [[loc panic_msg], [loc gpf_msg]]
    else if v = 0x0E then \<exists>s. eax (fst s) = code \<and> ecx (fst s) = cr2 \<and>
      h (raise v code k r) = Stops [[loc panic_msg], [loc pf_msg, eax (fst (pk s)), ecx (fst (pk s))]]
    else if v \<in> {0x08, 0x0C} then h (raise v code k r) = Stops []
    else if v \<in> {0x0B, 0x11, 0x15} then \<not> returns_to (eip r) \<longrightarrow> h (raise v code k r) = Stops [[loc panic_msg], [loc gpf_msg]]
    else \<exists>m. h (raise v code k r) = Resumes (r, m)"
proof -
  consider "v \<in> {0x06, 0x08, 0x0A, 0x0C, 0x0D}" | "v = 0x0E" "h = INT_0x0E pk loc cr2"
    | "v \<in> {0x0B, 0x11, 0x15}" "h = INT_iret pk loc" "has_error_code v"
    | "v \<notin> {0x06, 0x08, 0x0A, 0x0B, 0x0C, 0x0D, 0x0E, 0x11, 0x15}" "h = INT_iret pk loc" "\<not> has_error_code v"
    using assms(3) by (auto simp: exception_handler_def has_error_code_def split: if_splits)
  then show ?thesis
  proof cases
    case 1
    then show ?thesis using assms(3)
      by (auto simp: exception_handler_def stopping_handlers INT_0x08_def INT_0x0C_def split: if_splits)
  next
    case 2
    then show ?thesis
      using page_fault_message [of "raise v code k r" cr2 pk loc] raised_words(3) [of v code k r] by (auto simp: has_error_code_def)
  next
    case 3
    then show ?thesis using raised_words(2) [OF 3(3), of code k r] by (auto simp: INT_iret_def stopping_handlers)
  next
    case 4
    then have "h (raise v code k r) = Resumes (iret (raise v code k r))" using raised_words(1) [OF 4(3)] assms(2) by (simp add: INT_iret_def)
    moreover have "\<exists>m. iret (raise v code k r) = (r, m)" using iret_resumes [OF 4(3) assms(1)] by (metis prod.collapse)
    ultimately show ?thesis using 4(1) by auto
  qed
qed

theorem exceptions_in_user_mode_witness:
  "INT_iret id (\<lambda>_. 0x80300000) (raise 0x0B 0x1C (sk (fst demo_kstate)) demo_user) = Stops [[0x80300000], [0x80300000]]"
proof -
  have h: "exception_handler id (\<lambda>_. 0x80300000) 0 0x0B = Some (INT_iret id (\<lambda>_. 0x80300000))" and u: "cs demo_user AND 3 \<noteq> 0"
    by (simp_all add: exception_handler_def demo_user_def)
  have "returns_to (cs demo_user)" "\<not> returns_to (eip demo_user)" by (simp_all add: returns_to_def demo_user_def gdt_bytes_def Let_def take_bit_eq_mod)
  then show ?thesis using exceptions_in_user_mode [OF u _ h, of "0x1C" "sk (fst demo_kstate)"] by simp
qed

section \<open>What the keyboard does\<close>

text \<open>A key is acknowledged and forgotten: the interrupted program goes on with all its registers.\<close>

lemma keyboard_forgets:
  assumes "cs r AND 3 \<noteq> 0"
  shows "fst (fst (INT_0x21 code (interrupt k r))) = r" and "snd (INT_0x21 code (interrupt k r)) = [(0x20, 0x20)]"
proof -
  define t where "t = tss_esp0 k - 24"
  have s: "t + 4 - 4 = t" "t - 4 + 4 = t" by simp_all
  have a: "apart (t - 4) 4 (t + i) 4" if "i \<in> {0, 4, 8, 12, 16, 20}" for i using that by (auto simp: apart_def)
  show "fst (fst (INT_0x21 code (interrupt k r))) = r"
    using assms interrupt_frame [OF t_def, of r] a [of 0] a [of 4] a [of 8] a [of 12] a [of 16] a [of 20]
    by (cases "bit code 7") (simp_all add: INT_0x21_def insn_defs s mem_simps apart_def add.assoc)
  show "snd (INT_0x21 code (interrupt k r)) = [(0x20, 0x20)]" by (simp add: INT_0x21_def Let_def)
qed

end
