(* ===== verification/Timer.thy ===== *)
theory Timer
  imports Interrupts
begin

text \<open>
  Preemption. The timer interrupts a process in user mode; \<^verbatim>\<open>INT_0x20\<close> of \<^verbatim>\<open>kernel/interrupt.S\<close> saves its registers, acknowledges the interrupt and
  calls \<^verbatim>\<open>yield\<close>, which switches to the scheduler with \<^verbatim>\<open>switch_to\<close>. When the scheduler dispatches the process again, it switches back
  with \<^verbatim>\<open>switch_to\<close>, \<^verbatim>\<open>yield\<close> returns and the handler restores the registers. All of this is on the kernel stack of the process, below its
  \<^verbatim>\<open>struct proc\<close>: the registers, the return address of \<^verbatim>\<open>yield\<close>, the stack frame the compiler gives \<^verbatim>\<open>yield\<close> (\<open>fr\<close> bytes), the arguments and the
  return address of \<^verbatim>\<open>switch_to\<close> and the registers it saves. The code addresses \<open>ra\<close> (behind the call of \<^verbatim>\<open>yield\<close>) and \<open>back\<close> (behind
  that of \<^verbatim>\<open>switch_to\<close>) are parameters.
\<close>

section \<open>The operations\<close>

definition INT_0x20_save :: "machine \<Rightarrow> machine" where
  "INT_0x20_save s =
     (let r = fst s; s = push (ds r) s; s = push (es r) s; s = push (fs r) s; s = push (gs r) s in
      pushal s)"

definition INT_0x20_restore :: "machine \<Rightarrow> machine" where
  "INT_0x20_restore s =
     (let s = popal s; s = pop gs_update s; s = pop fs_update s; s = pop es_update s; s = pop ds_update s in
      iret s)"

text \<open>\<^verbatim>\<open>yield\<close> over the registers: \<open>yield\<close> of \<open>Sched\<close>, which changes the state of the process, and the switch to \<^verbatim>\<open>idle->context\<close>; and what is left
  of it when the process is switched to again, which takes the two arguments and the frame off the stack and returns.\<close>

definition yield_out :: "u32 \<Rightarrow> u32 \<Rightarrow> regs \<Rightarrow> kernel \<Rightarrow> regs \<times> kernel" where
  "yield_out fr back x k =
     (let k = yield k;
          s = call_switch_to (curthread k + 16) (read32 (km k) (idle k + 16)) back (x\<lparr> esp := esp x - fr \<rparr>, km k) in
      (fst s, k\<lparr> km := snd s \<rparr>))"

definition yield_back :: "u32 \<Rightarrow> machine \<Rightarrow> machine" where
  "yield_back fr = (\<lambda>(x, m). ret (x\<lparr> esp := esp x + 8 + fr \<rparr>, m))"

text \<open>The handler up to the switch, with the bytes it writes to ports, and behind it.\<close>

definition INT_0x20 :: "u32 \<Rightarrow> u32 \<Rightarrow> u32 \<Rightarrow> regs \<Rightarrow> kernel \<Rightarrow> regs \<times> kernel \<times> (u16 \<times> u8) list" where
  "INT_0x20 fr back ra r k =
     (let s = INT_0x20_save (interrupt k r);
          s = (case s of (x, m) \<Rightarrow> (x\<lparr> eax := (eax x AND NOT 0xFF) OR 0x20 \<rparr>, m));
          s = push ra s;
          (x, k) = yield_out fr back (fst s) (k\<lparr> km := snd s, kif := False \<rparr>) in
      (x, k, [(0x20, 0x20)]))"

definition INT_0x20_resume :: "u32 \<Rightarrow> machine \<Rightarrow> machine" where
  "INT_0x20_resume fr s = INT_0x20_restore (yield_back fr s)"

text \<open>The switch of the scheduler, running with the registers \<open>x\<close>, to the process it has picked.\<close>

definition sched_switch :: "u32 \<Rightarrow> u32 \<Rightarrow> regs \<Rightarrow> kernel \<Rightarrow> machine" where
  "sched_switch back p x k = call_switch_to (idle k + 16) (read32 (km k) (p + 16)) back (x, km k)"

section \<open>The stack of a preempted process\<close>

definition pstack :: "u32 \<Rightarrow> u32 \<Rightarrow> u32 set" where
  "pstack p fr = span (p - (100 + fr)) (100 + unat fr)"

definition procs_span :: "u32 \<Rightarrow> u32 list \<Rightarrow> u32 set" where
  "procs_span q ps = span q 8 \<union> (\<Union>x \<in> set ps. span x 104)"

lemma INT_0x20_entry: "INT_0x20_save = INT_0x80_save" "INT_0x20_restore = end_syscall"
  by (simp_all add: fun_eq_iff INT_0x20_save_def INT_0x80_save_def INT_0x20_restore_def end_syscall_def)

lemma pstack_parts:
  assumes "unat fr < 0x800" and "c = p - (100 + fr)"
  shows "p - 68 = c + (32 + fr)" "p - 68 - 4 = c + (28 + fr)" "span c 28 \<subseteq> pstack p fr" "span (c + (28 + fr)) 4 \<subseteq> pstack p fr"
    "span (c + (32 + fr)) 68 \<subseteq> pstack p fr" "pstack p fr \<inter> span p 104 = {}"
proof -
  have u: "unat (32 + fr) = 32 + unat fr" "unat (28 + fr) = 28 + unat fr" "unat (100 + fr) = 100 + unat fr"
    using assms(1) by (simp_all add: u32_add_small)
  show "p - 68 = c + (32 + fr)" "p - 68 - 4 = c + (28 + fr)" by (simp_all add: assms(2))
  show "span c 28 \<subseteq> pstack p fr" unfolding pstack_def assms(2) by (rule span_mono) simp
  show "span (c + (28 + fr)) 4 \<subseteq> pstack p fr" "span (c + (32 + fr)) 68 \<subseteq> pstack p fr"
    unfolding pstack_def assms(2) [symmetric] by (rule span_sub, simp add: u)+
  have "span c (unat (100 + fr)) \<inter> span (c + (100 + fr)) (unat (100 + fr) + 104 - unat (100 + fr)) = {}"
    by (rule span_split_disjoint) (use u assms(1) in simp_all)
  then show "pstack p fr \<inter> span p 104 = {}" by (simp add: pstack_def assms(2) u)
qed

lemma cells_in_procs: "sched_cells q ps \<subseteq> procs_span q ps"
  using span_sub [of 88 16 104] span_mono [of 4 104] by (fastforce simp: sched_cells_def procs_span_def)

lemma context_cell:
  assumes "proc_nodes q (p # ps)"
  shows "span (p + 16) 4 \<inter> sched_cells q (p # ps) = {}"
proof -
  have s: "span (p + 16) 4 \<subseteq> span p 104" by (rule span_sub) simp
  have "span (p + 16) 4 \<inter> span p 4 = {}" "span (p + 16) 4 \<inter> span (p + 88) 16 = {}" by (rule apart_span, simp add: apart_def)+
  moreover have "span p 104 \<inter> sched_cells q ps = {}"
    using cells_in_procs [of q ps] node_head [OF assms, of p] apart_span assms by (fastforce simp: procs_span_def)
  ultimately show ?thesis using s node_head [OF assms, of p] by (auto simp: sched_cells_def)
qed

text \<open>What the scheduler relies on stays true when other memory changes, in whatever state the process \<open>p\<close> is.\<close>

lemma sched_facts_frame:
  assumes "tailq m 96 q (map fst qs)" and "procs_ok q m init (p # map fst qs)" and "states_ok m qs" and "same_outside T m m'"
    and "T \<inter> sched_cells q (p # map fst qs) = {}"
  shows "tailq m' 96 q (map fst qs)" and "procs_ok q m' init (p # map fst qs)" and "states_ok m' qs" and "proc_state m' p = proc_state m p"
proof -
  note c = sched_cells_cover [OF assms(5)]
  have f: "read32 m' x = read32 m x" "proc_state m' x = proc_state m x" if "x \<in> set (p # map fst qs)" for x
    by (rule fields_frame [OF assms(4) c(2) [OF that]])+
  have "proc_links q (map fst qs) \<subseteq> proc_links q (p # map fst qs)" by (auto simp: proc_links_def)
  then show "tailq m' 96 q (map fst qs)" using tailq_frame [OF assms(1,4)] c(1) by blast
  show "procs_ok q m' init (p # map fst qs)" by (rule procs_ok_cong [OF assms(2)]) (use f(1) in auto)
  show "states_ok m' qs" by (rule states_ok_cong [OF assms(3)]) (use f(2) in auto)
  show "proc_state m' p = proc_state m p" using f(2) by simp
qed

lemma write32_same: "write32 m a (read32 m a) = m"
proof -
  have "ucast (read32 m a) = m a" "ucast (drop_bit 8 (read32 m a)) = m (a + 1)" "ucast (drop_bit 16 (read32 m a)) = m (a + 2)"
      "ucast (drop_bit 24 (read32 m a)) = m (a + 3)"
    unfolding read32_def by (rule bit_eqI, auto simp: bit_simps dest: bit_imp_le_length)+
  then show ?thesis by (simp add: write32_def)
qed

text \<open>A process that is ready already goes to the end of the queue.\<close>

lemma put_back_ready:
  assumes "tailq m 96 q (map fst qs)" and "procs_ok q m init (p # map fst qs)" and "states_ok m qs" and "proc_state m p = pstate_code READY"
  shows "tailq (TAILQ_INSERT_TAIL m 96 q p) 96 q (map fst (qs @ [(p, READY)]))"
    and "procs_ok q (TAILQ_INSERT_TAIL m 96 q p) init (map fst (qs @ [(p, READY)]))"
    and "states_ok (TAILQ_INSERT_TAIL m 96 q p) (qs @ [(p, READY)])"
proof -
  have "set_state p READY m = m" using write32_same [of m "p + 88"] assms(4) by (simp add: set_state_def proc_state_def)
  with put_back [OF assms(1-3), of READY] show "tailq (TAILQ_INSERT_TAIL m 96 q p) 96 q (map fst (qs @ [(p, READY)]))"
    "procs_ok q (TAILQ_INSERT_TAIL m 96 q p) init (map fst (qs @ [(p, READY)]))"
    "states_ok (TAILQ_INSERT_TAIL m 96 q p) (qs @ [(p, READY)])" by simp_all
qed

section \<open>Leaving\<close>

text \<open>The memory when the handler has called \<^verbatim>\<open>yield\<close>, and when \<^verbatim>\<open>switch_to\<close> has left the process.\<close>

definition called :: "u32 \<Rightarrow> regs \<Rightarrow> u32 \<Rightarrow> mem \<Rightarrow> mem" where
  "called ra r p m = write32 (trap_frame r (p - 68) m) (p - 68 - 4) ra"

definition caller_regs :: "u32 \<Rightarrow> regs \<Rightarrow> kernel \<Rightarrow> regs" where
  "caller_regs fr r k = r\<lparr> ss := tss_ss0 k, eax := (eax r AND NOT 0xFF) OR 0x20, esp := tss_esp0 k - 68 - 4 - fr \<rparr>"

lemma INT_0x20_leaves:
  fixes fr r k p ra
  defines "y \<equiv> caller_regs fr r k" and "m \<equiv> set_state p READY (called ra r p (km k))"
  assumes "tss_esp0 k = p" and "curthread k = p" and "proc_state (called ra r p (km k)) p = pstate_code RUNNING"
    and "INT_0x20 fr back ra r k = (x, k', io)" and "c = read32 m (idle k + 16)"
  shows "io = [(0x20, 0x20)]" and "\<not> kif k' \<and> idle k' = idle k" and "km k' = saved (p + 16) c back y m"
    and "x = loaded (km k') c (y\<lparr> eax := p + 16, edx := c \<rparr>)"
proof -
  have "push ra (case INT_0x20_save (interrupt k r) of (x, m) \<Rightarrow> (x\<lparr> eax := (eax x AND NOT 0xFF) OR 0x20 \<rparr>, m)) =
      (y\<lparr> esp := p - 68 - 4 \<rparr>, called ra r p (km k))"
    using entry_eq [OF refl, of k r] assms(3) by (simp add: INT_0x20_entry push_def called_def caller_regs_def y_def)
  moreover have "y\<lparr> esp := p - 68 - 4 - fr \<rparr> = y" using assms(3) by (simp add: caller_regs_def y_def)
  ultimately have "INT_0x20 fr back ra r k = (let s = call_switch_to (p + 16) c back (y, m) in
      (fst s, k\<lparr> kif := False, km := snd s \<rparr>, [(0x20, 0x20)]))"
    using assms(3-5,7) by (simp add: INT_0x20_def yield_out_def yield_def cli_def Let_def m_def)
  then show "io = [(0x20, 0x20)]" "\<not> kif k' \<and> idle k' = idle k" "km k' = saved (p + 16) c back y m"
    "x = loaded (km k') c (y\<lparr> eax := p + 16, edx := c \<rparr>)"
    using assms(6) by (auto simp: call_switch_to_eq Let_def)
qed

text \<open>What is written on the way: the stack, the pointer to the saved registers and the state of the process.\<close>

lemma called_outside:
  assumes "unat fr < 0x800"
  shows "same_outside (pstack p fr) m (called ra r p m)"
proof -
  note ps = pstack_parts [OF assms refl, of p]
  from same_outside_mono [OF trap_frame_outside ps(5)] ps(4) show ?thesis
    unfolding called_def by (intro same_outside_write32_in) (simp_all only: ps(1,2) [symmetric])
qed

lemma left_outside:
  assumes "unat fr < 0x800" and "tss_esp0 k = p"
  shows "same_outside (pstack p fr \<union> span (p + 16) 4) m (saved (p + 16) c back (caller_regs fr r k) m)"
proof -
  have "esp (caller_regs fr r k) - 28 = p - (100 + fr)" by (simp add: assms(2) caller_regs_def)
  then show ?thesis using same_outside_mono [OF saved_outside] pstack_parts(3) [OF assms(1) refl, of p] by (metis Un_mono subset_refl)
qed

text \<open>What is on the stack of the process then.\<close>

lemma left_stack:
  assumes "unat fr < 0x800" and "c = p - (100 + fr)" and "tss_esp0 k = p" and "y = caller_regs fr r k"
    and "m = saved (p + 16) next back y (set_state p READY (called ra r p m0))"
  shows "read32 m (p + 16) = c" and "context_at m c y back" and "read32 m (c + (28 + fr)) = ra" and "trap_regs m (c + (32 + fr)) = r"
proof -
  note ps = pstack_parts [OF assms(1,2)]
  have y: "esp y - 28 = c" by (simp add: assms(2-4) caller_regs_def)
  have p: "span (p + 16) 4 \<subseteq> span p 104" "span (p + 88) 4 \<subseteq> span p 104" by (rule span_sub, simp)+
  have d: "span (p + 16) 4 \<inter> span (esp y - 28) 28 = {}" using ps(3,6) p(1) unfolding y by blast
  from saved_context [OF d] show "read32 m (p + 16) = c" "context_at m c y back" by (simp_all add: assms(5) y)
  have o: "same_outside (span c 28 \<union> span (p + 16) 4 \<union> span (p + 88) 4) (called ra r p m0) m"
    using same_outside_trans [OF set_state_outside saved_outside [of y "p + 16"]] unfolding assms(5) y
    by (rule same_outside_mono) auto
  have u: "unat (28 + fr) = 28 + unat fr" "unat (32 + fr) = 32 + unat fr" using assms(1) by (simp_all add: u32_add_small)
  have "span c 28 \<inter> span (c + (28 + fr)) 4 = {}" "span c 28 \<inter> span (c + (32 + fr)) 68 = {}"
    using span_split_disjoint [of "28 + fr" "unat (28 + fr) + 4" c] span_split_disjoint [of "32 + fr" "unat (32 + fr) + 68" c] assms(1)
      span_mono [of 28 "28 + unat fr" c] span_mono [of 28 "32 + unat fr" c] by (auto simp: u)
  then have T: "span (c + (28 + fr)) 4 \<inter> (span c 28 \<union> span (p + 16) 4 \<union> span (p + 88) 4) = {}"
      "(span c 28 \<union> span (p + 16) 4 \<union> span (p + 88) 4) \<inter> span (c + (32 + fr)) 68 = {}"
    using ps(4,5,6) p by blast+
  show "read32 m (c + (28 + fr)) = ra" using same_outside_read32 [OF o T(1)] ps(2) by (simp add: called_def)
  have "span (p - 68 - 4) 4 \<inter> span (p - 68) 68 = {}" by (rule apart_span) (simp add: apart_def)
  from trap_regs_frame [OF same_outside_write32 this] have "trap_regs (called ra r p m0) (p - 68) = r"
    by (simp add: called_def trap_frame_regs)
  with trap_regs_frame [OF o T(2)] show "trap_regs m (c + (32 + fr)) = r" by (simp only: ps(1))
qed

section \<open>The queue behind the switch\<close>

lemma called_rel:
  assumes "sched_rel L init (Running p, k) (Running p, qs)" and "unat fr < 0x800"
    and "pstack p fr \<inter> procs_span (l_queue L) (map fst qs) = {}"
  shows "pstack p fr \<inter> sched_cells (l_queue L) (p # map fst qs) = {}"
    and "sched_rel L init (Running p, k\<lparr> km := called ra r p (km k) \<rparr>) (Running p, qs)"
proof -
  have "pstack p fr \<inter> procs_span (l_queue L) (p # map fst qs) = {}"
    using assms(3) pstack_parts(6) [OF assms(2) refl, of p] by (auto simp: procs_span_def)
  then show d: "pstack p fr \<inter> sched_cells (l_queue L) (p # map fst qs) = {}"
    using cells_in_procs [of "l_queue L" "p # map fst qs"] by blast
  show "sched_rel L init (Running p, k\<lparr> km := called ra r p (km k) \<rparr>) (Running p, qs)"
    by (rule work_rel [OF assms(1) called_outside [OF assms(2)] d])
qed

lemma preempted_queue:
  assumes "sched_rel L init (Running p, k) (Running p, qs)" and "unat fr < 0x800"
    and "pstack p fr \<inter> procs_span (l_queue L) (map fst qs) = {}"
    and "km k' = saved (p + 16) c back (caller_regs fr r k) (set_state p READY (called ra r p (km k)))"
  shows "sched_rel L init (Scheduling, sched_return L p k') (Scheduling, qs @ [(p, READY)])"
proof -
  let ?q = "l_queue L" and ?m = "called ra r p (km k)" and ?ps = "p # map fst qs"
  have n: "proc_nodes ?q ?ps" using sched_relD(3) [OF assms(1)] by (simp add: procs_ok_def)
  note c = called_rel(1) [OF assms(1-3)]
  note w = sched_relD [OF called_rel(2) [OF assms(1-3), of ra r], simplified]
  have t: "tailq (set_state p READY ?m) 96 ?q (map fst qs)" by (rule set_state_tailq [OF w(2) n]) auto
  have o: "procs_ok ?q (set_state p READY ?m) init ?ps" by (rule procs_ok_cong [OF w(3)]) (use set_state_other(1) [OF n] in auto)
  have s: "states_ok (set_state p READY ?m) qs"
  proof (rule states_ok_cong [OF w(4)], rule ballI)
    fix x assume "x \<in> fst ` set qs"
    then have "x \<in> set ?ps" "x \<noteq> p" using proc_nodes_distinct [OF n] by auto
    then show "proc_state (set_state p READY ?m) x = proc_state ?m x" using set_state_other(2) [OF n] by simp
  qed
  have e: "tss_esp0 k = p" using sched_relD(5) [OF assms(1)] by simp
  have "(pstack p fr \<union> span (p + 16) 4) \<inter> sched_cells ?q ?ps = {}" using c context_cell [OF n] by blast
  note f = sched_facts_frame [OF t o s left_outside [OF assms(2) e] this, of c "back" r, folded assms(4)]
  show "sched_rel L init (Scheduling, sched_return L p k') (Scheduling, qs @ [(p, READY)])"
    using put_back_ready [OF f(1-3)] f(4) by (simp add: sched_rel_def sched_return_def)
qed

text \<open>What the scheduler writes when it picks a process.\<close>

lemma picked_outside:
  assumes "sched_rel L init (Scheduling, k) (Scheduling, qs)" and "sched_pick L k = Inr (Some p, k')"
  shows "same_outside (sched_cells (l_queue L) (map fst qs)) (km k) (km k')"
    and "span (p + 16) 4 \<inter> sched_cells (l_queue L) (map fst qs) = {}" and "idle k' = idle k"
proof -
  let ?q = "l_queue L" and ?ps = "map fst qs"
  from find_splits [of qs "\<lambda>x. snd x = READY"] sched_pick_eq [OF assms(1)] assms(2)
  obtain xs ys where qs: "qs = xs @ (p, READY) # ys" and k: "km k' = set_state p RUNNING (TAILQ_REMOVE (km k) 96 ?q p)"
    and "idle k' = idle k"
    by (auto split: option.splits simp: Let_def write_cr3_def)
  then show "idle k' = idle k" by simp
  have ps: "?ps = map fst xs @ p # map fst ys" by (simp add: qs)
  note d = sched_relD [OF assms(1)]
  have n: "proc_nodes ?q (map fst xs @ p # map fst ys)" using d(3) by (simp add: procs_ok_def ps)
  have "same_outside (proc_links ?q ?ps \<union> span (p + 88) 4) (km k) (km k')"
    unfolding k by (rule same_outside_trans [OF _ set_state_outside]) (use procs.del_outside [OF d(2) [unfolded ps] n] ps in simp)
  moreover have "proc_links ?q ?ps \<union> span (p + 88) 4 \<subseteq> sched_cells ?q ?ps"
    using span_mono [of 4 16] span_sub [of 8 8 16 "_ + 88"] by (fastforce simp: proc_links_def sched_cells_def qs add.assoc)
  ultimately show "same_outside (sched_cells ?q ?ps) (km k) (km k')" by (rule same_outside_mono)
  have "sched_cells ?q ?ps = sched_cells ?q (p # map fst xs @ map fst ys)" by (auto simp: sched_cells_def qs)
  then show "span (p + 16) 4 \<inter> sched_cells ?q ?ps = {}" using context_cell [OF n [unfolded proc_nodes_move]] by simp
qed

section \<open>Coming back\<close>

lemma resumed:
  assumes "unat fr < 0x800" and "c = p - (100 + fr)" and "cs r AND 3 \<noteq> 0"
    and "read32 m (p + 16) = c" and "context_at m c y back" and "read32 m (c + (28 + fr)) = ra" and "trap_regs m (c + (32 + fr)) = r"
    and "same_outside T m (km k)" and "T \<inter> (pstack p fr \<union> span (p + 16) 4) = {}"
    and "(span (esp x - 28) 28 \<union> span (idle k + 16) 4) \<inter> pstack p fr = {}" and "s = sched_switch back' p x k"
  shows "eip (fst s) = back" and "eip (fst (yield_back fr s)) = ra" and "INT_0x20_resume fr s = (r, snd s)"
proof -
  note ps = pstack_parts [OF assms(1,2)]
  define m' where "m' = saved (idle k + 16) c back' x (km k)"
  have "span (p + 16) 4 \<inter> T = {}" using assms(9) by blast
  from same_outside_read32 [OF assms(8) this] have s: "s = (loaded m' c (x\<lparr> eax := idle k + 16, edx := c \<rparr>), m')"
    using assms(4) by (simp add: assms(11) sched_switch_def call_switch_to_eq m'_def)
  define U where "U = T \<union> (span (esp x - 28) 28 \<union> span (idle k + 16) 4)"
  have o: "same_outside U m m'" unfolding U_def m'_def by (rule same_outside_trans [OF assms(8) saved_outside])
  have U: "U \<inter> pstack p fr = {}" using assms(9,10) by (auto simp: U_def)
  then have "U \<inter> span c 20 = {}" using ps(3) span_mono [of 20 28 c] by auto
  note l = loaded_context [OF context_at_frame [OF assms(5) o this], of "x\<lparr> eax := idle k + 16, edx := c \<rparr>"]
  have ra: "read32 m' (c + (28 + fr)) = ra" using same_outside_read32 [OF o] ps(4) U assms(6) by blast
  have "U \<inter> span (c + (32 + fr)) 68 = {}" using ps(5) U by blast
  from trap_regs_frame [OF o this] have r: "trap_regs m' (c + (32 + fr)) = r" by (simp only: assms(7))
  show "eip (fst s) = back" by (simp add: s l)
  have y: "eip (fst (yield_back fr s)) = ra" "esp (fst (yield_back fr s)) = c + (32 + fr)" "snd (yield_back fr s) = m'"
    using ra by (simp_all add: s yield_back_def ret_def pop_def l add.assoc add.commute add.left_commute)
  show "eip (fst (yield_back fr s)) = ra" by (rule y(1))
  have "read32 m' (c + (32 + fr) + 52) = cs r" using arg_cong [OF r, of cs] by (simp add: trap_regs_def)
  then show "INT_0x20_resume fr s = (r, snd s)"
    using end_syscall_user [of m' "fst (yield_back fr s)"] y r assms(3)
    by (cases "yield_back fr s") (simp add: INT_0x20_resume_def INT_0x20_entry s)
qed

text \<open>C26: preemption is transparent. The timer interrupts the running process \<open>p\<close> in user mode, with the registers \<open>r\<close>: the handler acknowledges
  the interrupt, turns interrupts off, writes nothing but the stack of the process, its pointer to the saved registers and its state, and
  switches to the scheduler, which goes on behind its own switch with its registers and stack, and puts the process, which is ready, at the
  end of the queue. Whatever happens then, by the scheduler and the other processes, as long as the stack and that pointer are left alone: when the
  scheduler picks the process again, its switch goes on behind the switch in \<^verbatim>\<open>yield\<close>, \<^verbatim>\<open>yield\<close> returns to the handler, and that returns to user
  mode with exactly the registers \<open>r\<close>. The hypotheses are that the queue is well formed, that the kernel stack does not overlap the process structures,
  the queue and the saved context of the scheduler, and that \<^verbatim>\<open>yield\<close> uses less than 2 KiB of stack.\<close>

theorem timer_roundtrip:
  assumes "sched_rel L init (Running p, k) (Running p, qs)" and "cs r AND 3 \<noteq> 0" and "unat fr < 0x800"
    and "pstack p fr \<inter> procs_span (l_queue L) (map fst qs) = {}"
    and "c = read32 (km k) (idle k + 16)" and "context_at (km k) c x0 back0"
    and "(pstack p fr \<union> span p 104) \<inter> (span (idle k + 16) 4 \<union> span c 20) = {}"
    and "INT_0x20 fr back ra r k = (x1, k1, io)"
  shows "io = [(0x20, 0x20)] \<and> \<not> kif k1 \<and> idle k1 = idle k \<and> same_outside (pstack p fr \<union> span (p + 16) 4 \<union> span (p + 88) 4) (km k) (km k1) \<and>
    eip x1 = back0 \<and> esp x1 = c + 20 \<and> ebx x1 = ebx x0 \<and> ebp x1 = ebp x0 \<and> esi x1 = esi x0 \<and> edi x1 = edi x0 \<and>
    sched_rel L init (Scheduling, sched_return L p k1) (Scheduling, qs @ [(p, READY)]) \<and>
    (\<forall>T k2 qs2 k3 x back'. same_outside T (km k1) (km k2) \<longrightarrow> T \<inter> (pstack p fr \<union> span (p + 16) 4) = {} \<longrightarrow>
       sched_rel L init (Scheduling, k2) (Scheduling, qs2) \<longrightarrow> pstack p fr \<inter> procs_span (l_queue L) (map fst qs2) = {} \<longrightarrow>
       sched_pick L k2 = Inr (Some p, k3) \<longrightarrow> (span (esp x - 28) 28 \<union> span (idle k3 + 16) 4) \<inter> pstack p fr = {} \<longrightarrow>
       (let s = sched_switch back' p x k3 in
        eip (fst s) = back \<and> eip (fst (yield_back fr s)) = ra \<and> INT_0x20_resume fr s = (r, snd s)))"
proof -
  let ?m = "called ra r p (km k)" and ?y = "caller_regs fr r k" and ?S = "pstack p fr \<union> span (p + 16) 4 \<union> span (p + 88) 4"
  have e: "tss_esp0 k = p" "curthread k = p" using sched_relD(5) [OF assms(1)] by simp_all
  have w: "proc_state ?m p = pstate_code RUNNING" using sched_relD(5) [OF called_rel(2) [OF assms(1,3,4)]] by simp
  define M where "M = set_state p READY ?m"
  have M: "same_outside (pstack p fr \<union> span (p + 88) 4) (km k) M"
    unfolding M_def by (rule same_outside_trans [OF called_outside [OF assms(3)] set_state_outside])
  have p: "span (p + 16) 4 \<subseteq> span p 104" "span (p + 88) 4 \<subseteq> span p 104" by (rule span_sub, simp)+
  have D: "?S \<inter> span c 20 = {}" "span (idle k + 16) 4 \<inter> (pstack p fr \<union> span (p + 88) 4) = {}" using assms(7) p by blast+
  have c: "c = read32 M (idle k + 16)" using same_outside_read32 [OF M D(2)] assms(5) by simp
  note l = INT_0x20_leaves [OF e w assms(8) c [unfolded M_def]]
  have "same_outside ?S (km k) (km k1)"
    using same_outside_trans [OF M left_outside [OF assms(3) e(1)]] unfolding l(3) M_def by (rule same_outside_mono) auto
  moreover note loaded_context [OF context_at_frame [OF assms(6) this D(1)], of "?y\<lparr> eax := p + 16, edx := c \<rparr>", folded l(4)]
  moreover note preempted_queue [OF assms(1,3,4) l(3)]
  moreover note st = left_stack [OF assms(3) refl e(1) refl l(3)]
  have "let s = sched_switch back' p x k3 in
      eip (fst s) = back \<and> eip (fst (yield_back fr s)) = ra \<and> INT_0x20_resume fr s = (r, snd s)"
    if "same_outside T (km k1) (km k2)" "T \<inter> (pstack p fr \<union> span (p + 16) 4) = {}" "sched_rel L init (Scheduling, k2) (Scheduling, qs2)"
      "pstack p fr \<inter> procs_span (l_queue L) (map fst qs2) = {}" "sched_pick L k2 = Inr (Some p, k3)"
      "(span (esp x - 28) 28 \<union> span (idle k3 + 16) 4) \<inter> pstack p fr = {}" for T k2 qs2 k3 x back'
  proof -
    note o = picked_outside [OF that(3,5)]
    have "(T \<union> sched_cells (l_queue L) (map fst qs2)) \<inter> (pstack p fr \<union> span (p + 16) 4) = {}"
      using that(2,4) o(2) cells_in_procs [of "l_queue L" "map fst qs2"] by blast
    note resumed [OF assms(3) refl assms(2) st same_outside_trans [OF that(1) o(1)] this that(6) refl, of back']
    then show ?thesis by (simp add: Let_def)
  qed
  ultimately show ?thesis using l(1,2) by blast
qed

text \<open>Init runs alone and is interrupted; the scheduler dispatches it again.\<close>

definition demo_tick :: kernel where
  "demo_tick = \<lparr> km = write32 (write32 (write32 (write32 (\<lambda>_. 0) 0x80000304 0x80000300) 0x80060000 1) 0x80050010 0x8004FFD0) 0x8004FFE0 0x80101234,
     curthread = 0x80060000, idle = 0x80050000, kcpu = \<lparr> cr0 = 0, cr3 = 0, cr4 = 0 \<rparr>, tss_esp0 = 0x80060000, tss_ss0 = 16, kif = True \<rparr>"

lemma read32_zeros: "read32 (\<lambda>_. 0) a = 0"
  by (simp add: read32_def)

lemma demo_tick_rel: "sched_rel demo_link 0x80060000 (Running 0x80060000, demo_tick) (Running 0x80060000, [])"
  by (simp add: sched_rel_def demo_tick_def demo_link_def tailq_def dlist_def procs_ok_def states_ok_def proc_state_def mem_simps apart_def read32_zeros)

lemma demo_tick_context:
  "read32 (km demo_tick) 0x80050010 = 0x8004FFD0"
  "context_at (km demo_tick) 0x8004FFD0 (demo_regs\<lparr> edi := 0, esi := 0, ebp := 0, ebx := 0 \<rparr>) 0x80101234"
  by (simp_all add: demo_tick_def context_at_def mem_simps apart_def read32_zeros)

theorem timer_roundtrip_witness:
  "\<exists>x k io k'. INT_0x20 8 0x80102000 0x80103000 demo_user demo_tick = (x, k, io) \<and> eip x = 0x80101234 \<and> esp x = 0x8004FFE4 \<and>
     sched_pick demo_link (sched_return demo_link 0x80060000 k) = Inr (Some 0x80060000, k') \<and>
     fst (INT_0x20_resume 8 (sched_switch 0x80101234 0x80060000 (demo_regs\<lparr> esp := 0x8004FFEC \<rparr>) k')) = demo_user"
proof -
  let ?p = "0x80060000 :: u32" and ?q = "0x80000300 :: u32"
  have q: "l_queue demo_link = ?q" by (simp add: demo_link_def)
  obtain x k io where a: "INT_0x20 8 0x80102000 0x80103000 demo_user demo_tick = (x, k, io)" by (metis prod_cases3)
  have u: "cs demo_user AND 3 \<noteq> 0" by (simp add: demo_user_def)
  have d: "(pstack ?p 8 \<union> span ?p 104) \<inter> (span (idle demo_tick + 16) 4 \<union> span 0x8004FFD0 20) = {}"
    "pstack ?p 8 \<inter> span ?q 8 = {}" "span ?q 8 \<inter> span ?p 104 = {}" "(span 0x8004FFD0 28 \<union> span 0x80050010 4) \<inter> pstack ?p 8 = {}"
    by (simp_all add: pstack_def demo_tick_def Int_Un_distrib Int_Un_distrib2 apart_iff_span [symmetric] apart_def)
  have s: "pstack ?p 8 \<inter> procs_span ?q ps = {}" if "set ps \<subseteq> {?p}" for ps
    using that d(2) pstack_parts(6) [of 8 _ ?p] by (auto simp: procs_span_def)
  have i: "0x8004FFD0 = read32 (km demo_tick) (idle demo_tick + 16)" using demo_tick_context(1) by (simp add: demo_tick_def)
  note t = timer_roundtrip [OF demo_tick_rel u _ _ i demo_tick_context(2) d(1) a, unfolded q]
  have t: "same_outside (pstack ?p 8 \<union> span (?p + 16) 4 \<union> span (?p + 88) 4) (km demo_tick) (km k)" "eip x = 0x80101234" "esp x = 0x8004FFE4"
      "idle k = 0x80050000" "sched_rel demo_link ?p (Scheduling, sched_return demo_link ?p k) (Scheduling, [] @ (?p, READY) # [])"
    and again: "\<And>T k2 qs2 k3 y. same_outside T (km k) (km k2) \<Longrightarrow> T \<inter> (pstack ?p 8 \<union> span (?p + 16) 4) = {} \<Longrightarrow>
       sched_rel demo_link ?p (Scheduling, k2) (Scheduling, qs2) \<Longrightarrow> set (map fst qs2) \<subseteq> {?p} \<Longrightarrow>
       sched_pick demo_link k2 = Inr (Some ?p, k3) \<Longrightarrow> (span (esp y - 28) 28 \<union> span (idle k3 + 16) 4) \<inter> pstack ?p 8 = {} \<Longrightarrow>
       fst (INT_0x20_resume 8 (sched_switch 0x80101234 ?p y k3)) = demo_user"
    using t [OF _ s] s by (simp_all add: Let_def demo_tick_def)
  obtain k' where k': "sched_pick demo_link (sched_return demo_link ?p k) = Inr (Some ?p, k')" using dispatch_rel [OF t(5)] by auto
  have p: "span (?p + 16) 4 \<subseteq> span ?p 104" "span (?p + 88) 4 \<subseteq> span ?p 104" by (rule span_sub, simp)+
  have "tailq (km k) 96 ?q []"
    by (rule tailq_frame [OF _ t(1)]) (use sched_relD(2) [OF demo_tick_rel] q d p in \<open>auto simp: proc_links_def\<close>)
  then have o: "same_outside (proc_links ?q [?p]) (km k) (km (sched_return demo_link ?p k))"
    using procs.ins_outside [of "km k" ?q "[]" ?p] by (simp add: sched_return_def q apart_def)
  have "proc_links ?q [?p] \<inter> (pstack ?p 8 \<union> span (?p + 16) 4) = {}"
    by (simp add: proc_links_def pstack_def Int_Un_distrib Int_Un_distrib2 apart_iff_span [symmetric] apart_def)
  from again [OF o this t(5) _ k', of "demo_regs\<lparr> esp := 0x8004FFEC \<rparr>"] picked_outside(3) [OF t(5) k'] d(4) t(4)
  have "fst (INT_0x20_resume 8 (sched_switch 0x80101234 ?p (demo_regs\<lparr> esp := 0x8004FFEC \<rparr>) k')) = demo_user"
    by (simp add: sched_return_def)
  with a t(2,3) k' show ?thesis by blast
qed

end
