(* ===== verification/Tty.thy ===== *)
theory Tty
  imports Memory
begin

text \<open>
  The text screen of \<^verbatim>\<open>kernel/tty.S\<close> (\<^verbatim>\<open>cls\<close>, \<^verbatim>\<open>movecursor\<close>, \<^verbatim>\<open>putchar\<close>) and the serial port of \<^verbatim>\<open>kernel/com.S\<close>
  (\<^verbatim>\<open>init_serial\<close>, \<^verbatim>\<open>read_serial\<close>, \<^verbatim>\<open>write_serial\<close>). Bytes written to ports are recorded in order; the bytes a port
  delivers are a parameter. The specification of the screen is a position and an array of cells; the position of the hardware
  cursor is what the display controller makes of the bytes it was sent.
\<close>

section \<open>The text screen\<close>

definition VGA_WIDTH :: u32 where "VGA_WIDTH = 80"
definition VGA_HEIGHT :: u32 where "VGA_HEIGHT = 25"

type_synonym ports = "(u16 \<times> u8) list"

record tty =
  tty_row :: u32
  tty_column :: u32
  tty_mem :: mem
  tty_out :: ports

definition movecursor :: "u32 \<Rightarrow> tty \<Rightarrow> tty" where
  "movecursor pos s = s\<lparr> tty_out := tty_out s @ [(0x3D4, 0x0F), (0x3D5, ucast pos), (0x3D4, 0x0E), (0x3D5, ucast (drop_bit 8 pos))] \<rparr>"

definition cls :: "u32 \<Rightarrow> tty \<Rightarrow> tty" where
  "cls VGA_TEXT s = movecursor 0 (s\<lparr> tty_mem := memsetw (tty_mem s) VGA_TEXT (push_bit 8 15) (VGA_WIDTH * VGA_HEIGHT) \<rparr>)"

text \<open>The next line; below the last one comes the first.\<close>

definition next_row :: "tty \<Rightarrow> tty" where
  "next_row s = (let s = s\<lparr> tty_column := 0, tty_row := tty_row s + 1 \<rparr>;
     s = (if tty_row s = VGA_HEIGHT then s\<lparr> tty_row := 0 \<rparr> else s) in
     movecursor (VGA_WIDTH * tty_row s) s)"

definition backspace :: "tty \<Rightarrow> tty" where
  "backspace s =
     (if tty_column s AND tty_column s = 0 then s
      else let s = s\<lparr> tty_column := tty_column s - 1 \<rparr> in
        movecursor (VGA_WIDTH * tty_row s + tty_column s) s)"

text \<open>The code behind the label \<^verbatim>\<open>newline\<close> runs into the one behind \<^verbatim>\<open>back\<close>.\<close>

definition putchar :: "u32 \<Rightarrow> u8 \<Rightarrow> tty \<Rightarrow> tty" where
  "putchar VGA_TEXT c s =
     (if c = 0x0A then backspace (next_row s)
      else if c = 0x08 then backspace s
      else let ebx = VGA_WIDTH * tty_row s + tty_column s;
               s = s\<lparr> tty_mem := write16 (tty_mem s) (VGA_TEXT + 2 * ebx) (push_bit 8 0x0F OR ucast c) \<rparr> in
        if tty_column s + 1 \<noteq> VGA_WIDTH then movecursor (ebx + 1) (s\<lparr> tty_column := tty_column s + 1 \<rparr>)
        else next_row s)"

section \<open>The specification of the screen\<close>

type_synonym text_screen = "nat \<times> (nat \<Rightarrow> u16)"

definition put_spec :: "u8 \<Rightarrow> text_screen \<Rightarrow> text_screen" where
  "put_spec c = (\<lambda>(p, cells).
     if c = 0x0A then ((p div 80 + 1) mod 25 * 80, cells)
     else if c = 0x08 then (if p mod 80 = 0 then p else p - 1, cells)
     else ((p + 1) mod 2000, cells(p := 0x0F00 OR ucast c)))"

text \<open>The controller has an index register and two registers for the position.\<close>

fun crtc :: "ports \<Rightarrow> u8 \<times> u8 \<times> u8 \<Rightarrow> u8 \<times> u8 \<times> u8" where
  "crtc [] s = s"
| "crtc ((p, v) # ps) (i, lo, hi) = crtc ps
     (if p = 0x3D4 then (v, lo, hi) else if p = 0x3D5 \<and> i = 0x0F then (i, v, hi) else if p = 0x3D5 \<and> i = 0x0E then (i, lo, v) else (i, lo, hi))"

definition cursor_pos :: "ports \<Rightarrow> nat" where
  "cursor_pos ps = (case crtc ps (0, 0, 0) of (i, lo, hi) \<Rightarrow> unat lo + 256 * unat hi)"

definition shows_text :: "u32 \<Rightarrow> tty \<Rightarrow> text_screen \<Rightarrow> bool" where
  "shows_text VGA_TEXT s = (\<lambda>(p, cells). unat (tty_row s) < 25 \<and> unat (tty_column s) < 80 \<and> p = 80 * unat (tty_row s) + unat (tty_column s) \<and>
     cursor_pos (tty_out s) = p \<and> (\<forall>i < 2000. read16 (tty_mem s) (VGA_TEXT + 2 * of_nat i) = cells i))"

section \<open>The routines follow the specification\<close>

lemma crtc_append: "crtc (ps @ qs) s = crtc qs (crtc ps s)"
  by (induction ps s rule: crtc.induct) auto

lemma cursor_pos_move: "pos < 65536 \<Longrightarrow> cursor_pos (tty_out (movecursor pos s)) = unat pos"
proof -
  assume p: "pos < 65536"
  have "unat (ucast pos :: u8) + 256 * unat (ucast (drop_bit 8 pos) :: u8) = unat pos"
  proof -
    have "unat pos < 65536" using p by (simp add: word_less_nat_alt)
    moreover have "unat (ucast pos :: u8) = unat pos mod 256" "unat (ucast (drop_bit 8 pos) :: u8) = unat pos div 256 mod 256"
      by (simp_all add: unsigned_ucast_eq take_bit_eq_mod unsigned_drop_bit_eq drop_bit_eq_div unat_div)
    ultimately show ?thesis by simp
  qed
  then show ?thesis by (cases "crtc (tty_out s) (0, 0, 0)") (simp add: cursor_pos_def movecursor_def crtc_append)
qed

lemma screen_pos:
  fixes row col :: u32
  assumes "unat row < 25" and "unat col < 80"
  shows "unat (VGA_WIDTH * row + col) = 80 * unat row + unat col" and "VGA_WIDTH * row + col < 65536"
proof -
  have "unat (80 * row) = 80 * unat row" using assms(1) by (simp add: unat_word_ariths)
  then show u: "unat (VGA_WIDTH * row + col) = 80 * unat row + unat col"
    using assms by (simp add: VGA_WIDTH_def) (subst u32_add_small, simp_all)
  then show "VGA_WIDTH * row + col < 65536" using assms by (simp add: word_less_nat_alt)
qed

lemma shows_text_move:
  assumes "unat (tty_row s) < 25" and "unat (tty_column s) < 80" and "pos = VGA_WIDTH * tty_row s + tty_column s"
    and "\<forall>i < 2000. read16 (tty_mem s) (a + 2 * of_nat i) = cells i"
  shows "shows_text a (movecursor pos s) (80 * unat (tty_row s) + unat (tty_column s), cells)"
  using assms cursor_pos_move [OF screen_pos(2) [OF assms(1,2)], of s] screen_pos(1) [OF assms(1,2)]
  by (simp add: shows_text_def) (simp add: movecursor_def)

lemma next_row_shows:
  assumes "unat (tty_row s) < 25" and "\<forall>i < 2000. read16 (tty_mem s) (a + 2 * of_nat i) = cells i"
  shows "shows_text a (next_row s) ((unat (tty_row s) + 1) mod 25 * 80, cells)" and "tty_column (next_row s) = 0"
proof -
  let ?s = "s\<lparr> tty_column := 0, tty_row := (if tty_row s + 1 = VGA_HEIGHT then 0 else tty_row s + 1) \<rparr>"
  have u: "unat (tty_row s + 1) = unat (tty_row s) + 1" using assms(1) by (intro trans [OF u32_add_small]) simp_all
  have e: "tty_row s + 1 = VGA_HEIGHT \<longleftrightarrow> unat (tty_row s) + 1 = 25" using u by (auto simp: VGA_HEIGHT_def word_unat_eq_iff)
  then have r: "unat (tty_row ?s) = (unat (tty_row s) + 1) mod 25" using u assms(1) by auto
  have n: "next_row s = movecursor (VGA_WIDTH * tty_row ?s) ?s" by (auto simp: next_row_def Let_def)
  show "shows_text a (next_row s) ((unat (tty_row s) + 1) mod 25 * 80, cells)"
    using shows_text_move [of ?s "VGA_WIDTH * tty_row ?s" a cells] r assms(2) unfolding n by (simp add: mult.commute)
  show "tty_column (next_row s) = 0" unfolding n by (simp add: movecursor_def)
qed

lemma cell_written:
  assumes "i < 2000" and "j < 2000"
  shows "read16 (write16 m (a + 2 * of_nat j) v) (a + 2 * of_nat i) = (if i = j then v else read16 m (a + 2 * of_nat i))"
proof (cases "i = j")
  case False
  have o: "apart (a + of_nat (2 * x)) 2 (a + of_nat (2 * y)) 2" if "x < y" "y < 2000" for x y by (rule apart_of_nat) (use that in simp_all)
  have "apart (a + 2 * of_nat j) 2 (a + 2 * of_nat i) 2"
    using assms False o [of i j] o [of j i] by (cases "i < j") (simp_all add: apart_sym [of "2 * of_nat j"])
  then show ?thesis using False by (simp add: read16_write16_apart)
qed simp

text \<open>C35: \<^verbatim>\<open>putchar\<close> follows the specification of the text screen, a position and an array of cells: a character goes to the cell of the position, white on
  black, and the position moves on, from the end of a line to the next one and from the last line to the first; a line feed goes to the beginning of the
  next line, a backspace one position back within the line. The cursor of the display is always at that position, row and column stay on the
  screen, and no other memory is written.\<close>

theorem putchar_refines:
  assumes "shows_text VGA_TEXT s (p, cells)"
  shows "shows_text VGA_TEXT (putchar VGA_TEXT c s) (put_spec c (p, cells)) \<and>
    same_outside (span (VGA_TEXT + 2 * of_nat p) 2) (tty_mem s) (tty_mem (putchar VGA_TEXT c s))"
proof -
  let ?r = "tty_row s" and ?c = "tty_column s"
  have i: "unat ?r < 25" "unat ?c < 80" "p = 80 * unat ?r + unat ?c" "\<forall>i < 2000. read16 (tty_mem s) (VGA_TEXT + 2 * of_nat i) = cells i"
    using assms by (simp_all add: shows_text_def)
  have d: "p div 80 = unat ?r" "p mod 80 = unat ?c" using i(2,3) by simp_all
  have mem: "tty_mem (movecursor q t) = tty_mem t" "tty_mem (next_row t) = tty_mem t" "tty_mem (backspace t) = tty_mem t" for q t
    by (simp_all add: movecursor_def next_row_def backspace_def Let_def)
  consider "c = 0x0A" | "c = 0x08" | "c \<noteq> 0x0A" "c \<noteq> 0x08" by blast
  then show ?thesis
  proof cases
    case 1
    then have "putchar VGA_TEXT c s = next_row s" by (simp add: putchar_def backspace_def next_row_shows(2) [OF i(1,4)])
    then show ?thesis using next_row_shows(1) [OF i(1,4)] 1 d by (simp add: put_spec_def mem)
  next
    case 2
    show ?thesis
    proof (cases "?c = 0")
      case True
      then show ?thesis using 2 d assms by (simp add: putchar_def backspace_def put_spec_def)
    next
      case False
      then have u: "unat (?c - 1) = unat ?c - 1" by (simp add: unat_minus_one)
      have "shows_text VGA_TEXT (backspace s) (80 * unat ?r + unat (?c - 1), cells)"
        using False shows_text_move [of "s\<lparr> tty_column := ?c - 1 \<rparr>" _ VGA_TEXT cells] i u by (simp add: backspace_def Let_def)
      moreover have "0 < unat ?c" using False by (simp add: unat_gt_0)
      ultimately show ?thesis using 2 False d i(3) u by (simp add: putchar_def put_spec_def mem unat_eq_0)
    qed
  next
    case 3
    let ?v = "push_bit 8 0x0F OR ucast c :: u16" and ?pos = "VGA_WIDTH * ?r + ?c"
    let ?s = "s\<lparr> tty_mem := write16 (tty_mem s) (VGA_TEXT + 2 * ?pos) ?v \<rparr>"
    have pos: "?pos = of_nat p" unfolding i(3) by (simp add: VGA_WIDTH_def)
    have p: "p < 2000" using i(1-3) by linarith
    have cells: "\<forall>i < 2000. read16 (tty_mem ?s) (VGA_TEXT + 2 * of_nat i) = (cells(p := ?v)) i"
      using i(4) p cell_written [of _ p] by (simp add: pos)
    have out: "same_outside (span (VGA_TEXT + 2 * of_nat p) 2) (tty_mem s) (tty_mem ?s)" by (simp add: pos same_outside_write16)
    have spec: "put_spec c (p, cells) = ((p + 1) mod 2000, cells(p := ?v))" using 3 by (simp add: put_spec_def)
    have u: "unat (?c + 1) = unat ?c + 1" using i(2) by (intro trans [OF u32_add_small]) simp_all
    have w: "?c + 1 = VGA_WIDTH \<longleftrightarrow> unat ?c + 1 = 80" using u by (auto simp: VGA_WIDTH_def word_unat_eq_iff)
    show ?thesis
    proof (cases "unat ?c + 1 = 80")
      case True
      then have "putchar VGA_TEXT c s = next_row ?s" using 3 w by (simp add: putchar_def Let_def)
      moreover have "(unat ?r + 1) mod 25 * 80 = (p + 1) mod 2000" using True i(1,3) by (cases "unat ?r = 24") auto
      ultimately show ?thesis using next_row_shows(1) [of ?s VGA_TEXT "cells(p := ?v)"] i(1) cells spec out by (simp add: mem)
    next
      case False
      let ?t = "?s\<lparr> tty_column := ?c + 1 \<rparr>"
      have "putchar VGA_TEXT c s = movecursor (?pos + 1) ?t" using 3 w False by (simp add: putchar_def Let_def)
      moreover have "(p + 1) mod 2000 = 80 * unat ?r + unat (?c + 1)" using i(1,2,3) False u by simp
      moreover have "shows_text VGA_TEXT (movecursor (?pos + 1) ?t) (80 * unat (tty_row ?t) + unat (tty_column ?t), cells(p := ?v))"
        by (rule shows_text_move) (use i(1,2) u False cells in \<open>simp_all add: add.assoc\<close>)
      ultimately show ?thesis using spec out by (simp add: mem)
    qed
  qed
qed

definition demo_tty :: tty where
  "demo_tty = \<lparr> tty_row = 0, tty_column = 0, tty_mem = \<lambda>_. 0, tty_out = [] \<rparr>"

theorem putchar_refines_witness:
  "shows_text 0xB8000 (putchar 0xB8000 0x41 demo_tty) (1, (\<lambda>_. 0)(0 := 0x0F41)) \<and> read16 (tty_mem (putchar 0xB8000 0x41 demo_tty)) 0xB8000 = 0x0F41"
proof -
  have "shows_text 0xB8000 demo_tty (0, \<lambda>_. 0)" by (simp add: shows_text_def demo_tty_def cursor_pos_def read16_def)
  from putchar_refines [OF this, of "0x41"] have s: "shows_text 0xB8000 (putchar 0xB8000 0x41 demo_tty) (1, (\<lambda>_. 0)(0 := 0x0F41))"
    by (simp add: put_spec_def)
  then show ?thesis by (auto simp: shows_text_def dest: spec [of _ 0])
qed

text \<open>\<^verbatim>\<open>cls\<close> clears every cell and puts the cursor of the display into the corner, but the next character still goes where it
  would have gone before.\<close>

lemma memsetw_cell: "i < 2000 \<Longrightarrow> read16 (memsetw m a v 2000) (a + 2 * of_nat i) = v"
proof -
  assume i: "i < 2000"
  have e: "a + 2 * of_nat i - a = (of_nat (2 * i) :: u32)" "a + 2 * of_nat i + 1 - a = (of_nat (2 * i + 1) :: u32)" by simp_all
  have u: "unat (of_nat (2 * i) :: u32) = 2 * i" "unat (of_nat (2 * i + 1) :: u32) = 2 * i + 1"
    using i by (simp_all only: unat_of_nat) (simp_all add: take_bit_nat_eq_self)
  show ?thesis
    unfolding read16_def memsetw_def e u using i by (intro bit_word_eqI) (auto simp: bit_simps)
qed

lemma cls_keeps_position:
  "tty_row (cls a s) = tty_row s" "tty_column (cls a s) = tty_column s" "cursor_pos (tty_out (cls a s)) = 0"
  "i < 2000 \<Longrightarrow> read16 (tty_mem (cls a s)) (a + 2 * of_nat i) = 0x0F00"
proof -
  show "tty_row (cls a s) = tty_row s" "tty_column (cls a s) = tty_column s" by (simp_all add: cls_def movecursor_def)
  show "cursor_pos (tty_out (cls a s)) = 0" unfolding cls_def by (subst cursor_pos_move) simp_all
  show "i < 2000 \<Longrightarrow> read16 (tty_mem (cls a s)) (a + 2 * of_nat i) = 0x0F00"
    using memsetw_cell by (simp add: cls_def movecursor_def VGA_WIDTH_def VGA_HEIGHT_def)
qed

section \<open>The serial port\<close>

definition COM1 :: u16 where "COM1 = 0x3F8"

text \<open>\<open>back\<close> is the byte that comes back in loopback mode; without the right one the kernel panics.\<close>

definition init_serial :: "u8 \<Rightarrow> ports \<times> bool" where
  "init_serial back =
     (let ps = [(COM1 + 1, 0x00), (COM1 + 3, 0x80), (COM1, 12), (COM1 + 1, 0x00), (COM1 + 3, 0x03), (COM1 + 2, 0xC7), (COM1 + 4, 0x0B),
        (COM1 + 4, 0x1E), (COM1, 0x69)] in
      if back = 0x69 then (ps @ [(COM1 + 4, 0x0B)], True) else (ps, False))"

text \<open>The loop that polls the line status; \<open>status t\<close> is the \<open>t\<close>-th byte the port delivers.\<close>

partial_function (option) poll :: "u8 \<Rightarrow> (nat \<Rightarrow> u8) \<Rightarrow> nat \<Rightarrow> nat option" where
  "poll bits status t = (if status t AND bits = 0 then poll bits status (t + 1) else Some t)"

definition read_serial :: "(nat \<Rightarrow> u8) \<Rightarrow> u8 \<Rightarrow> nat \<Rightarrow> u8 option" where
  "read_serial status data t = map_option (\<lambda>_. data) (poll 0x01 status t)"

definition write_serial :: "(nat \<Rightarrow> u8) \<Rightarrow> u8 \<Rightarrow> nat \<Rightarrow> ports option" where
  "write_serial status c t = map_option (\<lambda>_. [(COM1, c)]) (poll 0x20 status t)"

lemma poll_ends:
  assumes "status (t + n) AND bits \<noteq> 0" and "\<forall>i < n. status (t + i) AND bits = 0"
  shows "poll bits status t = Some (t + n)"
  using assms
proof (induction n arbitrary: t)
  case 0
  then show ?case by (subst poll.simps) simp
next
  case (Suc n)
  have "poll bits status (t + 1) = Some (t + 1 + n)"
    by (rule Suc.IH) (use Suc.prems(1) in simp, use Suc.prems(2) in \<open>auto dest: spec [of _ "Suc _"]\<close>)
  moreover have "status t AND bits = 0" using Suc.prems(2) by (auto dest: spec [of _ 0])
  ultimately show ?case by (subst poll.simps) simp
qed

text \<open>A byte is sent as soon as the transmitter is ready, and exactly once.\<close>

lemma write_serial_sends:
  assumes "\<exists>t' \<ge> t. bit (status t') 5"
  shows "write_serial status c t = Some [(COM1, c)]"
proof -
  have b: "bit x 5 \<longleftrightarrow> x AND 0x20 \<noteq> 0" for x :: u8
    using bit_iff_and_push_bit_not_eq_0 [of x 5] by simp
  define n where "n = (LEAST n. bit (status (t + n)) 5)"
  have "\<exists>n. bit (status (t + n)) 5" using assms by (metis le_add_diff_inverse)
  then have "bit (status (t + n)) 5" "\<forall>i < n. \<not> bit (status (t + i)) 5" unfolding n_def by (auto intro: LeastI_ex dest: not_less_Least)
  then have "poll 0x20 status t = Some (t + n)" using b by (intro poll_ends) auto
  then show ?thesis by (simp add: write_serial_def)
qed

end
