(* ===== verification/Printk.thy ===== *)
theory Printk
  imports Prelude
begin

text \<open>
  Kernel output: \<^verbatim>\<open>itoa\<close> and \<^verbatim>\<open>printk\<close> of \<^verbatim>\<open>kernel/serial.c\<close>, \<^verbatim>\<open>panic\<close> and \<^verbatim>\<open>__assert_fail\<close> of
  \<^verbatim>\<open>kernel/util.c\<close>. What is written to the serial port is a string; an operation that halts the
  machine also has the error the rest of the model uses for it. \<open>show_nat\<close> is positional notation,
  the reference for the digit and swap loops of \<^verbatim>\<open>itoa\<close>. Negating the least integer, which C leaves
  undefined, wraps around as it does in the compiled code. A HOL string stands for the characters of a C string in front of its terminator, so formats
  and arguments are those without a NUL.
\<close>

section \<open>Numbers\<close>

definition hex :: string where
  "hex = ''0123456789abcdef''"

definition HEX :: string where
  "HEX = ''0123456789ABCDEF''"

text \<open>The first loop of \<^verbatim>\<open>itoa\<close>: the digits from the least significant one on, appended to what the
  buffer holds. The buffer has 33 bytes, and the table of digits 16 and a terminator.\<close>

function itoa_digits :: "string \<Rightarrow> u32 \<Rightarrow> u32 \<Rightarrow> string \<Rightarrow> string res" where
  "itoa_digits tab base un s =
     (if un = 0 then Inr s
      else if base = 0 then Inl DivByZero
      else if 33 \<le> length s \<or> 16 < un mod base then Inl OutOfRange
      else itoa_digits tab base (un div base) (s @ [(tab @ [CHR 0x00]) ! unat (un mod base)]))"
  by pat_completeness auto
termination
  by (relation "measure (\<lambda>(tab, base, un, s). 33 - length s)") auto

declare itoa_digits.simps [simp del]

text \<open>The second loop: swap the characters at \<open>j\<close> and \<open>i\<close> until the indices meet.\<close>

function swap_loop :: "string \<Rightarrow> nat \<Rightarrow> nat \<Rightarrow> string" where
  "swap_loop s j i = (if j < i then swap_loop (s[i := s ! j, j := s ! i]) (j + 1) (i - 1) else s)"
  by pat_completeness auto
termination
  by (relation "measure (\<lambda>(s, j, i). i)") auto

declare swap_loop.simps [simp del]

definition itoa :: "u32 \<Rightarrow> u32 \<Rightarrow> string res" where
  "itoa n base =
     (if n = 0 then Inr ''0''
      else let (s, un, j) = (if sint n < 0 \<and> base = 10 then (''-'', - n, 1) else ('''', n, 0)) in
        bindE (itoa_digits hex base un s) (\<lambda>s.
          if 33 \<le> length s then Inl OutOfRange
          else Inr (swap_loop s j (length s - 1))))"

text \<open>The reference: positional notation.\<close>

fun numeral_of :: "nat \<Rightarrow> nat \<Rightarrow> nat list" where
  "numeral_of b n = (if n < b \<or> b < 2 then [n] else numeral_of b (n div b) @ [n mod b])"

declare numeral_of.simps [simp del]

definition show_nat :: "string \<Rightarrow> nat \<Rightarrow> nat \<Rightarrow> string" where
  "show_nat tab b n = map ((!) tab) (numeral_of b n)"

lemma swap_loop_eq:
  assumes "j \<le> i + 1" and "i < length s"
  shows "swap_loop s j i = take j s @ rev (take (i + 1 - j) (drop j s)) @ drop (i + 1) s"
  using assms
proof (induction s j i rule: swap_loop.induct)
  case (1 s j i)
  show ?case
  proof (cases "j < i")
    case False
    then have "j = i \<or> j = i + 1" using 1 by auto
    then show ?thesis using False 1(3) id_take_nth_drop [of i s]
      by (subst swap_loop.simps) (auto simp: take_Suc_conv_app_nth simp flip: Cons_nth_drop_Suc)
  next
    case True
    define A x B y C where "A = take j s" and "x = s ! j" and "B = take (i - j - 1) (drop (j + 1) s)"
      and "y = s ! i" and "C = drop (i + 1) s"
    have i: "i - j - 1 < length (drop (j + 1) s)" using True 1(3) by simp
    have "drop (j + 1) s = B @ y # C"
      using id_take_nth_drop [OF i] True 1(3) by (simp add: B_def y_def C_def)
    then have s: "s = A @ x # B @ y # C" using id_take_nth_drop [of j s] True 1(3) by (simp add: A_def x_def)
    have len: "length A = j" "length B = i - j - 1" using True 1(3) i by (simp_all add: A_def B_def)
    have il: "i = length (A @ x # B)" using True len by simp
    have "s[i := x] = A @ x # B @ x # C"
      using list_update_length [of "A @ x # B" y C x] unfolding il s by simp
    moreover have "s ! j = x" "s ! i = y" by (simp_all add: x_def y_def)
    ultimately have "s[i := s ! j, j := s ! i] = A @ y # B @ x # C"
      using list_update_length [of A x "B @ x # C" y] len(1) by simp
    moreover have "swap_loop (s[i := s ! j, j := s ! i]) (j + 1) (i - 1) =
        take (j + 1) (s[i := s ! j, j := s ! i]) @
        rev (take (i - 1 + 1 - (j + 1)) (drop (j + 1) (s[i := s ! j, j := s ! i]))) @
        drop (i - 1 + 1) (s[i := s ! j, j := s ! i])"
      using 1 True by simp
    moreover have "i - j = Suc (length B)" "Suc i - j = Suc (Suc (length B))" using True len by simp_all
    ultimately show ?thesis
      using True len(1) by (subst swap_loop.simps) (simp add: s)
  qed
qed

lemma numeral_of_length:
  assumes "2 \<le> b" and "n < b ^ k" and "0 < k"
  shows "length (numeral_of b n) \<le> k"
  using assms(2,3)
proof (induction k arbitrary: n)
  case (Suc k)
  show ?case
  proof (cases "n < b")
    case True
    then show ?thesis by (subst numeral_of.simps) simp
  next
    case False
    then have "0 < k" using Suc.prems(1) by (cases k) auto
    have "n div b < b ^ k" using Suc.prems(1) by (simp add: less_mult_imp_div_less mult.commute)
    then have "length (numeral_of b (n div b)) \<le> k" using Suc.IH \<open>0 < k\<close> by blast
    then show ?thesis using False assms(1) by (subst numeral_of.simps) simp
  qed
qed simp

lemma numeral_of_digits: "2 \<le> b \<Longrightarrow> d \<in> set (numeral_of b n) \<Longrightarrow> d < b"
proof (induction b n rule: numeral_of.induct)
  case (1 b n)
  then show ?case by (subst (asm) (2) numeral_of.simps) (auto split: if_splits)
qed

lemma numeral_of_value: "2 \<le> b \<Longrightarrow> foldl (\<lambda>v d. v * b + d) 0 (numeral_of b n) = n"
proof (induction b n rule: numeral_of.induct)
  case (1 b n)
  then show ?case by (subst numeral_of.simps) auto
qed

lemma itoa_digits_eq:
  assumes "2 \<le> base" and "base \<le> 16" and "un \<noteq> 0" and "length tab = 16"
    and "length s + length (numeral_of (unat base) (unat un)) \<le> 33"
  shows "itoa_digits tab base un s = Inr (s @ rev (show_nat tab (unat base) (unat un)))"
  using assms
proof (induction tab base un s rule: itoa_digits.induct)
  case (1 tab base un s)
  let ?b = "unat base" and ?n = "unat un"
  have b: "2 \<le> ?b" "?b \<le> 16" using 1 by (simp_all add: word_le_nat_alt)
  have md0: "unat (un mod base) = ?n mod ?b" "unat (un div base) = ?n div ?b"
    by (simp_all add: unat_mod_distrib unat_div_distrib)
  moreover have "unat (un mod base) < 16"
    unfolding md0(1) using b by (intro less_le_trans [OF mod_less_divisor b(2)]) simp
  ultimately have md: "unat (un mod base) = ?n mod ?b" "unat (un div base) = ?n div ?b"
      "unat (un mod base) < 16" by auto
  have ne: "numeral_of ?b ?n \<noteq> []" by (subst numeral_of.simps) simp
  then have l: "\<not> 33 \<le> length s" using "1.prems"(5) by (cases "numeral_of ?b ?n") auto
  have g: "un \<noteq> 0" "base \<noteq> 0" "\<not> (33 \<le> length s \<or> 16 < un mod base)"
    using "1.prems" l md(3) b by (auto simp: word_less_nat_alt)
  have nth: "(tab @ [CHR 0x00]) ! unat (un mod base) = tab ! (?n mod ?b)"
    using md "1.prems"(4) by (simp add: nth_append)
  let ?s = "s @ [tab ! (?n mod ?b)]"
  have step: "itoa_digits tab base un s = itoa_digits tab base (un div base) ?s"
    using g nth by (subst itoa_digits.simps) simp
  show ?case
  proof (cases "?n < ?b")
    case True
    then have "un div base = 0" using md(2) by (simp add: unat_eq_0 [symmetric])
    then have "itoa_digits tab base un s = Inr ?s" unfolding step by (subst itoa_digits.simps) simp
    moreover have "numeral_of ?b ?n = [?n]" using True by (subst numeral_of.simps) simp
    ultimately show ?thesis using True by (simp add: show_nat_def)
  next
    case False
    have nm: "numeral_of ?b ?n = numeral_of ?b (?n div ?b) @ [?n mod ?b]"
      using False b by (subst numeral_of.simps) simp
    have "un div base \<noteq> 0" using False md(2) b by (auto simp: unat_eq_0 [symmetric] div_eq_0_iff)
    then have "itoa_digits tab base (un div base) ?s =
        Inr (?s @ rev (show_nat tab ?b (unat (un div base))))"
      using "1.IH" [OF g(1,2,3)] "1.prems" nm nth by (simp add: md(2))
    then show ?thesis unfolding step by (simp add: show_nat_def nm md(2))
  qed
qed

text \<open>Both loops together, behind a sign.\<close>

lemma digits_rendered:
  assumes "2 \<le> base" and "base \<le> 16" and "un \<noteq> 0" and "length tab = 16" and "pre = [] \<or> length pre = 1 \<and> base = 10"
    and "j = length pre"
  shows "bindE (itoa_digits tab base un pre) (\<lambda>s. if 33 \<le> length s then Inl OutOfRange
      else Inr (swap_loop s j (length s - 1))) = Inr (pre @ show_nat tab (unat base) (unat un))"
proof -
  have b: "2 \<le> unat base" using assms(1) by (simp add: word_le_nat_alt)
  have "unat un < unat base ^ 32"
  proof -
    have "4294967296 \<le> unat base ^ 32" using power_mono [OF b, of 32] by simp
    then show ?thesis by (rule less_le_trans [OF unat_lt32])
  qed
  then have l32: "length (numeral_of (unat base) (unat un)) \<le> 32" using numeral_of_length [OF b] by simp
  have "unat un < 10 ^ 31" by (rule less_trans [OF unat_lt32]) simp
  then have l31: "length (numeral_of 10 (unat un)) \<le> 31" using numeral_of_length [of 10 "unat un" 31] by simp
  let ?d = "show_nat tab (unat base) (unat un)"
  have len: "length pre + length (numeral_of (unat base) (unat un)) \<le> 32"
    using l32 l31 assms(5) by auto
  have dg: "itoa_digits tab base un pre = Inr (pre @ rev ?d)"
    using len assms by (intro itoa_digits_eq) auto
  have ne: "?d \<noteq> []" by (subst show_nat_def, subst numeral_of.simps) simp
  have "swap_loop (pre @ rev ?d) (length pre) (length (pre @ rev ?d) - 1) = pre @ ?d"
    using ne by (subst swap_loop_eq) (auto simp: Suc_le_eq)
  moreover have "length (pre @ rev ?d) < 33" using len by (simp add: show_nat_def)
  ultimately show ?thesis using dg assms(6) by simp
qed

lemma show_nat_zero: "2 \<le> b \<Longrightarrow> show_nat tab b 0 = [tab ! 0]"
  unfolding show_nat_def by (subst numeral_of.simps) simp

lemma itoa_renders:
  assumes "2 \<le> base" and "base \<le> 16"
  shows "itoa n base = Inr (if sint n < 0 \<and> base = 10 then ''-'' @ show_nat hex 10 (unat (- n))
    else show_nat hex (unat base) (unat n))"
proof (cases "n = 0")
  case True
  then show ?thesis using assms(1) by (simp add: itoa_def show_nat_zero hex_def word_le_nat_alt)
next
  case False
  have h: "length hex = 16" by (simp add: hex_def)
  show ?thesis
  proof (cases "sint n < 0 \<and> base = 10")
    case True
    have "itoa n base = bindE (itoa_digits hex base (- n) ''-'') (\<lambda>s. if 33 \<le> length s then Inl OutOfRange
        else Inr (swap_loop s (Suc 0) (length s - 1)))" using True False by (simp add: itoa_def)
    also have "\<dots> = Inr (''-'' @ show_nat hex (unat base) (unat (- n)))"
      by (rule digits_rendered) (use True False assms h in simp_all)
    finally show ?thesis using True by simp
  next
    case nonneg: False
    then show ?thesis using digits_rendered [of base n hex "''''" 0] False assms h by (auto simp: itoa_def)
  qed
qed

lemmas show_nat_eval = show_nat_def hex_def numeral_of.simps

section \<open>Formatted output\<close>

text \<open>The variable arguments, as the format string has them fetched.\<close>

datatype va = VInt u32 | VStr string

text \<open>\<open>base\<close> is the local variable of \<^verbatim>\<open>printk\<close>, \<open>None\<close> until a directive has set it; it survives from
  one directive to the next. The result is what goes to \<^verbatim>\<open>write_serial\<close>. Fetching an argument that
  is not there, or of another type, is undefined.\<close>

definition digit_base :: "char \<Rightarrow> u32 option \<Rightarrow> u32 option" where
  "digit_base f base =
     (if f = CHR ''X'' \<or> f = CHR ''x'' then Some 16
      else if f = CHR ''d'' then Some 10
      else if f = CHR ''o'' then Some 8
      else if f = CHR ''b'' then Some 2
      else base)"

fun printk_loop :: "string \<Rightarrow> va list \<Rightarrow> u32 option \<Rightarrow> string res" where
  "printk_loop [] args base = Inr []"
| "printk_loop [c] args base = (if c = CHR ''%'' then Inr [] else Inr [c])"
| "printk_loop (c # f # fmt) args base =
     (if c \<noteq> CHR ''%'' then bindE (printk_loop (f # fmt) args base) (\<lambda>out. Inr (c # out))
      else if f = CHR ''%'' then bindE (printk_loop fmt args base) (\<lambda>out. Inr (f # out))
      else if f = CHR ''s'' then
        (case args of
           VStr s # args \<Rightarrow> bindE (printk_loop fmt args base) (\<lambda>out. Inr (s @ out))
         | _ \<Rightarrow> Inl OutOfRange)
      else if f = CHR ''c'' then
        (case args of
           VInt n # args \<Rightarrow> bindE (printk_loop fmt args base) (\<lambda>out. Inr (char_of (unat n) # out))
         | _ \<Rightarrow> Inl OutOfRange)
      else
        (case (args, digit_base f base) of
           (VInt n # args, Some b) \<Rightarrow>
             bindE (itoa n b) (\<lambda>s. bindE (printk_loop fmt args (Some b)) (\<lambda>out. Inr (s @ out)))
         | (VInt n # args, None) \<Rightarrow> Inl UninitRead
         | _ \<Rightarrow> Inl OutOfRange))"

definition printk :: "string \<Rightarrow> va list \<Rightarrow> string res" where
  "printk fmt args = printk_loop fmt args None"

definition panic :: "string \<Rightarrow> string \<times> kerror" where
  "panic msg = (''PANIC: '' @ msg @ [CHR 0x0A], Panic msg)"

definition assert_fail :: "string \<Rightarrow> string \<Rightarrow> u32 \<Rightarrow> string \<Rightarrow> string res \<times> kerror" where
  "assert_fail expr file line func =
     (printk (''Assertation failed: %s (%s: %s: %d)'' @ [CHR 0x0A]) [VStr expr, VStr file, VStr func, VInt line],
      AssertFail)"

text \<open>The reference: a format string and its arguments are made of pieces, each with its text.\<close>

datatype piece = Lit char | Percent | Str string | Chr u32 | Num char u32

fun piece_ok :: "piece \<Rightarrow> bool" where
  "piece_ok (Lit c) \<longleftrightarrow> c \<noteq> CHR ''%''"
| "piece_ok (Num f n) \<longleftrightarrow> f \<in> set ''xXdob''"
| "piece_ok _ \<longleftrightarrow> True"

fun format_of :: "piece \<Rightarrow> string" where
  "format_of (Lit c) = [c]"
| "format_of Percent = ''%%''"
| "format_of (Str s) = ''%s''"
| "format_of (Chr n) = ''%c''"
| "format_of (Num f n) = [CHR ''%'', f]"

fun args_of :: "piece \<Rightarrow> va list" where
  "args_of (Str s) = [VStr s]"
| "args_of (Chr n) = [VInt n]"
| "args_of (Num f n) = [VInt n]"
| "args_of _ = []"

fun text_of :: "piece \<Rightarrow> string" where
  "text_of (Lit c) = [c]"
| "text_of Percent = ''%''"
| "text_of (Str s) = s"
| "text_of (Chr n) = [char_of (unat n)]"
| "text_of (Num f n) =
     (if f = CHR ''d'' then if sint n < 0 then ''-'' @ show_nat hex 10 (unat (- n)) else show_nat hex 10 (unat n)
      else show_nat hex (if f = CHR ''o'' then 8 else if f = CHR ''b'' then 2 else 16) (unat n))"

lemma printk_loop_lit:
  "c \<noteq> CHR ''%'' \<Longrightarrow> printk_loop (c # fmt) args base = bindE (printk_loop fmt args base) (\<lambda>out. Inr (c # out))"
  by (cases fmt) auto

lemma itoa_bases:
  "itoa n 16 = Inr (show_nat hex 16 (unat n))" "itoa n 8 = Inr (show_nat hex 8 (unat n))"
  "itoa n 2 = Inr (show_nat hex 2 (unat n))"
  "itoa n 10 = Inr (if sint n < 0 then ''-'' @ show_nat hex 10 (unat (- n)) else show_nat hex 10 (unat n))"
  using itoa_renders [of 16 n] itoa_renders [of 8 n] itoa_renders [of 2 n] itoa_renders [of 10 n] by simp_all

lemma printk_loop_renders:
  "\<forall>p \<in> set ps. piece_ok p \<Longrightarrow>
   printk_loop (concat (map format_of ps)) (concat (map args_of ps)) base = Inr (concat (map text_of ps))"
proof (induction ps arbitrary: base)
  case (Cons p ps)
  have IH: "printk_loop (concat (map format_of ps)) (concat (map args_of ps)) b = Inr (concat (map text_of ps))" for b
    using Cons by simp
  show ?case
  proof (cases p)
    case (Lit c)
    then show ?thesis using Cons.prems by (simp add: printk_loop_lit IH)
  next
    case (Num f n)
    then have "f \<in> set ''xXdob''" using Cons.prems by simp
    then show ?thesis using Num by (auto simp: digit_base_def itoa_bases IH)
  qed (simp_all add: IH)
qed simp

section \<open>Properties\<close>

text \<open>C15: for every base from 2 to 16 \<^verbatim>\<open>itoa\<close> stays within its 33-byte buffer and its table of digits
  and returns the number in that base without leading zeros; in base 10 the argument is signed, in
  every other base unsigned.\<close>

theorem itoa_correct:
  assumes "2 \<le> base" and "base \<le> 16"
  shows "itoa n base = Inr (if sint n < 0 \<and> base = 10 then ''-'' @ show_nat hex 10 (unat (- n))
    else show_nat hex (unat base) (unat n))"
  by (rule itoa_renders [OF assms])

theorem itoa_correct_witness: "itoa 0xFFFFFFF6 10 = Inr ''-10'' \<and> itoa 0xFFFFFFF6 16 = Inr ''fffffff6''"
  using itoa_correct [of 10 "0xFFFFFFF6"] itoa_correct [of 16 "0xFFFFFFF6"] by (simp add: show_nat_eval)

text \<open>C16: \<^verbatim>\<open>printk\<close> of a format string made of plain characters and the directives
  \<^verbatim>\<open>%% %s %c %x %X %d %o %b\<close>, with matching arguments, returns and writes the text of its pieces
  one after the other.\<close>

theorem printk_correct:
  assumes "\<forall>p \<in> set ps. piece_ok p"
  shows "printk (concat (map format_of ps)) (concat (map args_of ps)) = Inr (concat (map text_of ps))"
  unfolding printk_def by (rule printk_loop_renders [OF assms])

theorem printk_correct_witness: "printk ''pid %d %s'' [VInt 7, VStr ''ok''] = Inr ''pid 7 ok''"
  using printk_correct [of "map Lit ''pid '' @ [Num CHR ''d'' 7, Lit CHR '' '', Str ''ok'']"]
  by (simp add: show_nat_eval)

lemma assert_fail_message:
  "fst (assert_fail expr file line func) =
     Inr (''Assertation failed: '' @ expr @ '' ('' @ file @ '': '' @ func @ '': '' @
       text_of (Num CHR ''d'' line) @ '')'' @ [CHR 0x0A])"
  using printk_loop_renders [of "map Lit ''Assertation failed: '' @ [Str expr] @ map Lit '' ('' @ [Str file] @
      map Lit '': '' @ [Str func] @ map Lit '': '' @ [Num CHR ''d'' line, Lit CHR '')'', Lit CHR 0x0A]" None]
  by (simp add: assert_fail_def printk_def del: printk_loop.simps)

end
