(* ===== verification/Stdio.thy ===== *)
theory Stdio
  imports Printk
begin

text \<open>
  Formatted output of the C library: \<^verbatim>\<open>lib/libc/stdio\<close> and \<^verbatim>\<open>lib/libc/assert.c\<close>. Of a \<^verbatim>\<open>FILE\<close> the model has
  the descriptor, the characters between \<^verbatim>\<open>_buf\<close> and \<^verbatim>\<open>_ptr\<close>, the room between \<^verbatim>\<open>_buf\<close> and \<^verbatim>\<open>_end\<close> (behind
  which the array ends) and which of the function pointers are set; what a program writes is the list of its
  \<^verbatim>\<open>write\<close> system calls. \<open>fpiece\<close> is the reference: a format string is made of pieces, each with its text.
  As in \<open>Printk\<close>, HOL strings stand for C strings without a NUL in front of the terminator, and the negation of the least integer wraps around.
\<close>

section \<open>Streams\<close>

datatype io_mode = IOFBF | IOLBF | IONBF

record FILE =
  f_fd :: u32
  f_text :: string
  f_room :: nat
  f_write :: bool
  f_mode :: io_mode

definition BUFSIZ :: nat where "BUFSIZ = 1024"

definition stdin :: FILE where
  "stdin = \<lparr> f_fd = 0, f_text = [], f_room = BUFSIZ, f_write = False, f_mode = IOLBF \<rparr>"

definition stdout :: FILE where
  "stdout = \<lparr> f_fd = 1, f_text = [], f_room = BUFSIZ, f_write = True, f_mode = IOLBF \<rparr>"

definition stderr :: FILE where
  "stderr = \<lparr> f_fd = 2, f_text = [], f_room = 0, f_write = True, f_mode = IONBF \<rparr>"

type_synonym writes = "(u32 \<times> string) list"

text \<open>\<^verbatim>\<open>__stdio_write\<close>, called through the stream; the standard input has no such function.\<close>

definition stdio_write :: "FILE \<Rightarrow> string \<Rightarrow> writes \<Rightarrow> writes res" where
  "stdio_write s buf out = (if f_write s then Inr (out @ [(f_fd s, buf)]) else Inl NullDeref)"

definition stdio_read :: u32 where "stdio_read = 0"
definition stdio_close :: u32 where "stdio_close = 0"
definition stdio_seek :: u32 where "stdio_seek = 0"

definition fflush :: "FILE \<Rightarrow> writes \<Rightarrow> (FILE \<times> writes) res" where
  "fflush s out = bindE (stdio_write s (f_text s) out) (\<lambda>out. Inr (s\<lparr> f_text := [] \<rparr>, out))"

definition overflow :: "FILE \<Rightarrow> u32 \<Rightarrow> writes \<Rightarrow> (FILE \<times> writes) res" where
  "overflow s ch out =
     (let c = char_of (unat ch) in
      bindE (fflush s out) (\<lambda>(s, out).
      bindE (stdio_write s [c] out) (\<lambda>out. Inr (s, out))))"

text \<open>\<^verbatim>\<open>*s->_ptr++ = c\<close>: behind the end of the array the store is undefined.\<close>

definition store :: "char \<Rightarrow> FILE \<Rightarrow> FILE res" where
  "store c s = (if length (f_text s) < f_room s then Inr (s\<lparr> f_text := f_text s @ [c] \<rparr>) else Inl OutOfRange)"

definition fputc :: "u32 \<Rightarrow> FILE \<Rightarrow> writes \<Rightarrow> (FILE \<times> writes) res" where
  "fputc c s out =
     (if c \<noteq> 10 \<and> length (f_text s) < f_room s
      then bindE (store (char_of (unat c)) s) (\<lambda>s. Inr (s, out))
      else overflow s c out)"

section \<open>Numbers\<close>

text \<open>A negative base means a signed number.\<close>

definition libc_itoa :: "u32 \<Rightarrow> int \<Rightarrow> bool \<Rightarrow> string res" where
  "libc_itoa n base ucase =
     (if n = 0 then Inr ''0''
      else let (s, un, j, base) =
          (if base < 0 then if 0 < sint n then ('''', n, 0, - base) else (''-'', - n, 1, - base)
           else ('''', n, 0, base)) in
        bindE (itoa_digits (if ucase then HEX else hex) (word_of_int base) un s) (\<lambda>s.
          if 33 \<le> length s then Inl OutOfRange
          else Inr (swap_loop s j (length s - 1))))"

section \<open>Formatted output\<close>

datatype varg = AInt u32 | AStr string

fun stores :: "string \<Rightarrow> FILE \<Rightarrow> FILE res" where
  "stores [] s = Inr s"
| "stores (c # cs) s = bindE (store c s) (stores cs)"

text \<open>The base and the case that a directive asks for; a directive without a case leaves the variable as it is.\<close>

definition directive :: "char \<Rightarrow> int option \<times> bool \<Rightarrow> int option \<times> bool" where
  "directive f = (\<lambda>(base, ucase).
     if f = CHR ''X'' then (Some 16, True)
     else if f = CHR ''x'' then (Some 16, False)
     else if f = CHR ''u'' then (Some 10, ucase)
     else if f = CHR ''i'' \<or> f = CHR ''d'' then (Some (- 10), ucase)
     else if f = CHR ''o'' then (Some 8, ucase)
     else if f = CHR ''b'' then (Some 2, ucase)
     else (base, ucase))"

text \<open>The loop of \<^verbatim>\<open>vfprintf\<close>. The variable \<^verbatim>\<open>ucase\<close> has no value before the first \<^verbatim>\<open>%x\<close> or \<^verbatim>\<open>%X\<close>; what it
  happens to hold is an argument. \<open>start\<close> is the place the stream was at, \<open>counts\<close> are the stores of \<^verbatim>\<open>%n\<close>.\<close>

fun vfprintf_loop :: "string \<Rightarrow> varg list \<Rightarrow> int option \<times> bool \<Rightarrow> nat \<Rightarrow> FILE \<Rightarrow> (u32 \<times> u32) list \<Rightarrow>
    (FILE \<times> (u32 \<times> u32) list) res" where
  "vfprintf_loop [] args bu start s counts = Inr (s, counts)"
| "vfprintf_loop [c] args bu start s counts = bindE (store c s) (\<lambda>s. Inr (s, counts))"
| "vfprintf_loop (c # f # fmt) args bu start s counts =
     (if c \<noteq> CHR ''%'' then bindE (store c s) (\<lambda>s. vfprintf_loop (f # fmt) args bu start s counts)
      else if f = CHR ''%'' then bindE (store f s) (\<lambda>s. vfprintf_loop fmt args bu start s counts)
      else if f = CHR ''c'' then
        (case args of
           AInt n # args \<Rightarrow> bindE (store (char_of (unat n)) s) (\<lambda>s. vfprintf_loop fmt args bu start s counts)
         | _ \<Rightarrow> Inl OutOfRange)
      else if f = CHR ''n'' then
        (case args of
           AInt a # args \<Rightarrow> vfprintf_loop fmt args bu start s (counts @ [(a, of_nat (length (f_text s) - start))])
         | _ \<Rightarrow> Inl OutOfRange)
      else if f = CHR ''s'' then
        (case args of
           AStr t # args \<Rightarrow> bindE (stores t s) (\<lambda>s. vfprintf_loop fmt args bu start s counts)
         | _ \<Rightarrow> Inl OutOfRange)
      else if f = CHR ''p'' then
        (case args of
           AInt n # args \<Rightarrow> bindE (stores ''0x'' s) (\<lambda>s. bindE (libc_itoa n 16 False) (\<lambda>t.
             bindE (stores t s) (\<lambda>s. vfprintf_loop fmt args bu start s counts)))
         | _ \<Rightarrow> Inl OutOfRange)
      else
        (case (args, directive f bu) of
           (AInt n # args, (Some b, u)) \<Rightarrow> bindE (libc_itoa n b u) (\<lambda>t.
             bindE (stores t s) (\<lambda>s. vfprintf_loop fmt args (Some b, u) start s counts))
         | (AInt n # args, (None, u)) \<Rightarrow> Inl UninitRead
         | _ \<Rightarrow> Inl OutOfRange))"

text \<open>The result, the stream, the writes and the counts stored.\<close>

definition vfprintf :: "bool \<Rightarrow> FILE \<Rightarrow> string \<Rightarrow> varg list \<Rightarrow> writes \<Rightarrow> (nat \<times> FILE \<times> writes \<times> (u32 \<times> u32) list) res" where
  "vfprintf ucase s fmt args out =
     bindE (vfprintf_loop fmt args (None, ucase) (length (f_text s)) s []) (\<lambda>(s, counts).
     let ret = length (f_text s) in
     bindE (fflush s out) (\<lambda>(s, out). Inr (ret, s, out, counts)))"

definition fprintf :: "bool \<Rightarrow> FILE \<Rightarrow> string \<Rightarrow> varg list \<Rightarrow> writes \<Rightarrow> (nat \<times> FILE \<times> writes \<times> (u32 \<times> u32) list) res" where
  "fprintf ucase s fmt args out = vfprintf ucase s fmt args out"

definition printf :: "bool \<Rightarrow> string \<Rightarrow> varg list \<Rightarrow> writes \<Rightarrow> (nat \<times> FILE \<times> writes \<times> (u32 \<times> u32) list) res" where
  "printf ucase fmt args out = vfprintf ucase stdout fmt args out"

definition libc_assert_fail :: "bool \<Rightarrow> string \<Rightarrow> string \<Rightarrow> u32 \<Rightarrow> string \<Rightarrow> writes \<Rightarrow>
    (nat \<times> FILE \<times> writes \<times> (u32 \<times> u32) list) res" where
  "libc_assert_fail ucase expr file line func out =
     fprintf ucase stderr (''Assertation failed: %s (%s: %s: %d)'' @ [CHR 0x0A]) [AStr expr, AStr file, AStr func, AInt line] out"

section \<open>The reference\<close>

datatype fpiece = FLit char | FPercent | FStr string | FChr u32 | FNum char u32 | FPtr u32

fun fpiece_ok :: "fpiece \<Rightarrow> bool" where
  "fpiece_ok (FLit c) \<longleftrightarrow> c \<noteq> CHR ''%''"
| "fpiece_ok (FNum f n) \<longleftrightarrow> f \<in> set ''xXuidob''"
| "fpiece_ok _ \<longleftrightarrow> True"

fun fformat_of :: "fpiece \<Rightarrow> string" where
  "fformat_of (FLit c) = [c]"
| "fformat_of FPercent = ''%%''"
| "fformat_of (FStr s) = ''%s''"
| "fformat_of (FChr n) = ''%c''"
| "fformat_of (FNum f n) = [CHR ''%'', f]"
| "fformat_of (FPtr n) = ''%p''"

fun fargs_of :: "fpiece \<Rightarrow> varg list" where
  "fargs_of (FStr s) = [AStr s]"
| "fargs_of (FChr n) = [AInt n]"
| "fargs_of (FNum f n) = [AInt n]"
| "fargs_of (FPtr n) = [AInt n]"
| "fargs_of _ = []"

fun ftext_of :: "fpiece \<Rightarrow> string" where
  "ftext_of (FLit c) = [c]"
| "ftext_of FPercent = ''%''"
| "ftext_of (FStr s) = s"
| "ftext_of (FChr n) = [char_of (unat n)]"
| "ftext_of (FNum f n) =
     (if f = CHR ''X'' then show_nat HEX 16 (unat n)
      else if f = CHR ''x'' then show_nat hex 16 (unat n)
      else if f = CHR ''u'' then show_nat hex 10 (unat n)
      else if f = CHR ''o'' then show_nat hex 8 (unat n)
      else if f = CHR ''b'' then show_nat hex 2 (unat n)
      else if sint n < 0 then ''-'' @ show_nat hex 10 (unat (- n)) else show_nat hex 10 (unat n))"
| "ftext_of (FPtr n) = ''0x'' @ show_nat hex 16 (unat n)"

lemma stores_eq:
  "length (f_text s) + length cs \<le> f_room s \<Longrightarrow> stores cs s = Inr (s\<lparr> f_text := f_text s @ cs \<rparr>)"
  by (induction cs arbitrary: s) (auto simp: store_def)

lemma stores_overflow: "f_room s < length (f_text s) + length cs \<Longrightarrow> length (f_text s) \<le> f_room s \<Longrightarrow> stores cs s = Inl OutOfRange"
  by (induction cs arbitrary: s) (auto simp: store_def)

lemma libc_itoa_unsigned:
  assumes "2 \<le> b" and "b \<le> 16"
  shows "libc_itoa n (int b) u = Inr (show_nat (if u then HEX else hex) b (unat n))"
proof -
  have b: "unat (of_nat b :: u32) = b" "2 \<le> (of_nat b :: u32)" "(of_nat b :: u32) \<le> 16"
    using assms by (simp_all add: unat_of_nat word_le_nat_alt)
  show ?thesis
    using digits_rendered [of "of_nat b" n "if u then HEX else hex" "''''" 0] b assms
    by (simp add: libc_itoa_def show_nat_zero hex_def HEX_def)
qed

text \<open>The digits below ten are the same in both tables.\<close>

lemma show_nat_case: "show_nat HEX b n = show_nat hex b n" if "2 \<le> b" "b \<le> 10"
proof -
  have "HEX ! d = hex ! d" if "d < 10" for d
    using that by (auto simp: HEX_def hex_def less_Suc_eq numeral_nat)
  then show ?thesis
    using numeral_of_digits [OF that(1)] that(2) by (fastforce simp: show_nat_def)
qed

lemma libc_itoa_signed:
  "libc_itoa n (- 10) u = Inr (if sint n < 0 then ''-'' @ show_nat hex 10 (unat (- n)) else show_nat hex 10 (unat n))"
proof (cases "n = 0")
  case False
  let ?t = "if u then HEX else hex"
  have h: "length ?t = 16" by (simp add: hex_def HEX_def)
  have c: "show_nat ?t 10 k = show_nat hex 10 k" for k by (simp add: show_nat_case)
  have s: "sint n \<noteq> 0" using False by (simp add: signed_eq_0_iff)
  show ?thesis
  proof (cases "sint n < 0")
    case True
    have "libc_itoa n (- 10) u = bindE (itoa_digits ?t 10 (- n) ''-'') (\<lambda>s. if 33 \<le> length s then Inl OutOfRange
        else Inr (swap_loop s (Suc 0) (length s - 1)))" using True False by (simp add: libc_itoa_def)
    also have "\<dots> = Inr (''-'' @ show_nat ?t (unat (10 :: u32)) (unat (- n)))"
      by (rule digits_rendered) (use False h in simp_all)
    finally show ?thesis using True c by simp
  next
    case nonneg: False
    then show ?thesis using digits_rendered [of 10 n ?t "''''" 0] False h c s by (cases u) (simp_all add: libc_itoa_def)
  qed
qed (simp add: libc_itoa_def show_nat_zero hex_def)

lemma libc_itoa_bases:
  "libc_itoa n 16 u = Inr (show_nat (if u then HEX else hex) 16 (unat n))"
  "libc_itoa n 10 u = Inr (show_nat hex 10 (unat n))"
  "libc_itoa n 8 u = Inr (show_nat hex 8 (unat n))"
  "libc_itoa n 2 u = Inr (show_nat hex 2 (unat n))"
  using libc_itoa_unsigned [of 16 n u] libc_itoa_unsigned [of 10 n u] libc_itoa_unsigned [of 8 n u]
    libc_itoa_unsigned [of 2 n u] by (simp_all add: show_nat_case)

lemma vfprintf_loop_lit:
  "c \<noteq> CHR ''%'' \<Longrightarrow> vfprintf_loop (c # fmt) args bu start s counts =
     bindE (store c s) (\<lambda>s. vfprintf_loop fmt args bu start s counts)"
  by (cases fmt) auto

lemma vfprintf_loop_num:
  assumes "f \<in> set ''xXuidob''"
  shows "\<exists>bu'. vfprintf_loop (CHR ''%'' # f # fmt) (AInt n # args) bu start s counts =
    bindE (stores (ftext_of (FNum f n)) s) (\<lambda>s. vfprintf_loop fmt args bu' start s counts)"
proof -
  obtain b u where bu: "bu = (b, u)" by (cases bu)
  from assms consider "f = CHR ''x''" | "f = CHR ''X''" | "f = CHR ''u''" | "f = CHR ''i''" | "f = CHR ''d''" | "f = CHR ''o''" | "f = CHR ''b''"
    by auto
  then show ?thesis
    by cases (simp_all add: bu directive_def libc_itoa_bases libc_itoa_signed; blast)+
qed

lemma vfprintf_loop_renders:
  assumes "\<forall>p \<in> set ps. fpiece_ok p" and "length (f_text s) + length (concat (map ftext_of ps)) \<le> f_room s"
  shows "vfprintf_loop (concat (map fformat_of ps)) (concat (map fargs_of ps)) bu start s counts =
    Inr (s\<lparr> f_text := f_text s @ concat (map ftext_of ps) \<rparr>, counts)"
  using assms
proof (induction ps arbitrary: s bu)
  case (Cons p ps)
  have IH: "vfprintf_loop (concat (map fformat_of ps)) (concat (map fargs_of ps)) b start (s\<lparr> f_text := f_text s @ ftext_of p \<rparr>) counts =
      Inr (s\<lparr> f_text := f_text s @ ftext_of p @ concat (map ftext_of ps) \<rparr>, counts)" for b
    using Cons.IH [of "s\<lparr> f_text := f_text s @ ftext_of p \<rparr>" b] Cons.prems by simp
  have st: "stores (ftext_of p) s = Inr (s\<lparr> f_text := f_text s @ ftext_of p \<rparr>)"
    using Cons.prems(2) by (intro stores_eq) simp
  have room: "length (f_text s) + length (ftext_of p) \<le> f_room s" using Cons.prems(2) by simp
  show ?case
  proof (cases p)
    case (FLit c)
    then show ?thesis using Cons.prems(1) st IH [of bu] room by (simp add: vfprintf_loop_lit store_def)
  next
    case (FNum f n)
    then have "f \<in> set ''xXuidob''" using Cons.prems(1) by simp
    from vfprintf_loop_num [OF this, of "concat (map fformat_of ps)" n "concat (map fargs_of ps)" bu start s counts]
    obtain bu' where "vfprintf_loop (CHR ''%'' # f # concat (map fformat_of ps)) (AInt n # concat (map fargs_of ps)) bu start s counts =
        bindE (stores (ftext_of p) s) (\<lambda>s. vfprintf_loop (concat (map fformat_of ps)) (concat (map fargs_of ps)) bu' start s counts)"
      unfolding FNum by blast
    then show ?thesis using st IH FNum by simp
  next
    case (FPtr n)
    let ?d = "show_nat hex 16 (unat n)"
    have "stores ''0x'' s = Inr (s\<lparr> f_text := f_text s @ ''0x'' \<rparr>)" using room FPtr by (intro stores_eq) simp
    moreover have "stores ?d (s\<lparr> f_text := f_text s @ ''0x'' \<rparr>) = Inr (s\<lparr> f_text := f_text s @ ftext_of p \<rparr>)"
      using room FPtr by (subst stores_eq) simp_all
    ultimately show ?thesis using FPtr IH [of bu] by (simp add: libc_itoa_bases del: stores.simps)
  qed (use st IH [of bu] room in \<open>simp_all add: store_def\<close>)
qed simp

text \<open>C29: \<^verbatim>\<open>vfprintf\<close> of a format string made of plain characters and directives, with matching arguments, to
  a stream whose buffer has room for the text: it returns the number of characters that were in the buffer and
  those of the text, and makes one \<^verbatim>\<open>write\<close> of exactly these characters, whatever the uninitialised variable
  \<^verbatim>\<open>ucase\<close> holds. The stream is empty afterwards.\<close>

theorem vfprintf_correct:
  assumes "\<forall>p \<in> set ps. fpiece_ok p" and "f_write s" and "length (f_text s) + length (concat (map ftext_of ps)) \<le> f_room s"
  shows "vfprintf ucase s (concat (map fformat_of ps)) (concat (map fargs_of ps)) out =
    (let txt = f_text s @ concat (map ftext_of ps) in Inr (length txt, s\<lparr> f_text := [] \<rparr>, out @ [(f_fd s, txt)], []))"
  using assms by (simp add: vfprintf_def vfprintf_loop_renders fflush_def stdio_write_def)

theorem vfprintf_correct_witness:
  "printf True ''pid %d at %p'' [AInt 0xFFFFFFFF, AInt 0xAB] [] = Inr (14, stdout, [(1, ''pid -1 at 0xab'')], [])"
  using vfprintf_correct [of "map FLit ''pid '' @ [FNum CHR ''d'' 0xFFFFFFFF] @ map FLit '' at '' @ [FPtr 0xAB]" stdout True "[]"]
  by (simp add: printf_def stdout_def BUFSIZ_def show_nat_eval del: vfprintf_loop.simps)

text \<open>The failure handler of the library's \<^verbatim>\<open>assert\<close> always stores behind the end of an array: it prints to the
  standard error, whose buffer has no room, and \<^verbatim>\<open>vfprintf\<close> never compares the pointer with the end.\<close>

theorem libc_assert_fail_overflows: "libc_assert_fail ucase expr file line func out = Inl OutOfRange"
  by (simp add: libc_assert_fail_def fprintf_def vfprintf_def store_def stderr_def)

end
