(* ===== verification/Programs.thy ===== *)
theory Programs
  imports Stdio
begin

text \<open>
  The two user programs, \<^verbatim>\<open>sbin/init/init.c\<close> and \<^verbatim>\<open>sbin/test/test.c\<close>, on the library's \<^verbatim>\<open>printf\<close>, with the start-up
  code they are linked with (\<^verbatim>\<open>sbin/init/crt0.S\<close> and \<^verbatim>\<open>sbin/test/crt0.S\<close>, which are the same) and that of the library
  (\<^verbatim>\<open>lib/libc/crt/crt0.S\<close>). The results of \<^verbatim>\<open>fork\<close> and \<^verbatim>\<open>execve\<close> are parameters.
\<close>

text \<open>How a program ends: it becomes another one, it loops for ever, or it exits.\<close>

datatype fate = Becomes string | Spins | Exits int

definition newline :: string where "newline = [CHR 0x0A]"

definition test_main :: "bool \<Rightarrow> writes \<Rightarrow> (int \<times> writes) res" where
  "test_main ucase out = bindE (printf ucase (''child'' @ newline) [] out) (\<lambda>(n, s, out, c). Inr (0, out))"

definition init_main :: "bool \<Rightarrow> int \<Rightarrow> bool \<Rightarrow> writes \<Rightarrow> (fate \<times> writes) res" where
  "init_main ucase pid loaded out =
     (let rest = (\<lambda>out. bindE (printf ucase (''parent'' @ newline) [] out) (\<lambda>(n, s, out, c). Inr (Spins, out))) in
      if pid = 0 then if loaded then Inr (Becomes ''/sbin/test'', out) else rest out
      else if pid < 0 then bindE (printf ucase ''fork failed'' [] out) (\<lambda>(n, s, out, c). Inr (Spins, out))
      else rest out)"

definition crt0_start :: "(writes \<Rightarrow> (int \<times> writes) res) \<Rightarrow> writes \<Rightarrow> (fate \<times> writes) res" where
  "crt0_start main out = bindE (main out) (\<lambda>(r, out). Inr (Exits r, out))"

text \<open>The start-up code of the library jumps to itself before it calls \<^verbatim>\<open>main\<close>; not returning is the value \<open>None\<close>.\<close>

partial_function (option) libc_start_loop :: "unit \<Rightarrow> fate option" where
  "libc_start_loop u = libc_start_loop u"

definition libc_start :: "(writes \<Rightarrow> (int \<times> writes) res) \<Rightarrow> fate option" where
  "libc_start main = libc_start_loop ()"

lemma plain_text:
  assumes "CHR ''%'' \<notin> set letters" and "length letters \<le> BUFSIZ"
  shows "printf ucase letters [] out = Inr (length letters, stdout, out @ [(1, letters)], [])"
proof -
  have l: "concat (map fformat_of (map FLit letters)) = letters" "concat (map fargs_of (map FLit letters)) = []" "concat (map ftext_of (map FLit letters)) = letters"
    by (induction letters) simp_all
  have "\<forall>p \<in> set (map FLit letters). fpiece_ok p" using assms(1) by auto
  from vfprintf_loop_renders [OF this, of stdout, unfolded l] assms(2)
  have "vfprintf_loop letters [] bu start stdout c = Inr (stdout\<lparr> f_text := letters \<rparr>, c)" for bu start c by (simp add: stdout_def)
  then show ?thesis by (simp add: printf_def vfprintf_def fflush_def stdio_write_def) (simp add: stdout_def)
qed

text \<open>Both processes of \<^verbatim>\<open>init\<close> write \<^verbatim>\<open>parent\<close> when the program cannot be loaded: the child runs into the code of its parent.\<close>

lemma init_main_writes:
  "init_main ucase pid loaded [] = Inr
     (if pid = 0 \<and> loaded then (Becomes ''/sbin/test'', [])
      else (Spins, [(1, if pid < 0 then ''fork failed'' else ''parent'' @ newline)]))"
  by (auto simp: init_main_def Let_def plain_text newline_def BUFSIZ_def)

lemma test_program_exits: "crt0_start (test_main ucase) [] = Inr (Exits 0, [(1, ''child'' @ newline)])"
  by (simp add: crt0_start_def test_main_def plain_text newline_def BUFSIZ_def)

lemma libc_start_never_returns: "libc_start main = None"
proof -
  have "False" if "libc_start_loop u = Some y" for u y
    using libc_start_loop.raw_induct [of "\<lambda>_ _. False" u y] that by blast
  then show ?thesis unfolding libc_start_def by (cases "libc_start_loop ()") auto
qed

end
