(* ===== verification/Queue_Tail.thy ===== *)
theory Queue_Tail
  imports Queue_Macros
begin

text \<open>
  The other families of \<^verbatim>\<open>include/sys/queue.h\<close>: simple queues (\<^verbatim>\<open>SIMPLEQ\<close>), the same with masked pointers
  (\<^verbatim>\<open>XSIMPLEQ\<close>), singly-linked tail queues (\<^verbatim>\<open>STAILQ\<close>), and the macros of \<^verbatim>\<open>LIST\<close> and \<^verbatim>\<open>TAILQ\<close> that the kernel
  does not use. The head has the pointer to the first element at offset 0, the address of the last next
  pointer at 4 and, in \<^verbatim>\<open>XSIMPLEQ\<close>, the cookie at 8. The contract of a queue is the locale \<open>tail_queue\<close>, which
  the three singly-linked families implement.
\<close>

section \<open>Simple queues\<close>

definition SIMPLEQ_FIRST :: "mem \<Rightarrow> u32 \<Rightarrow> u32" where
  "SIMPLEQ_FIRST m head = read32 m head"

definition SIMPLEQ_EMPTY :: "mem \<Rightarrow> u32 \<Rightarrow> bool" where
  "SIMPLEQ_EMPTY m head \<longleftrightarrow> SIMPLEQ_FIRST m head = 0"

definition SIMPLEQ_NEXT :: "mem \<Rightarrow> u32 \<Rightarrow> u32 \<Rightarrow> u32" where
  "SIMPLEQ_NEXT m f elm = read32 m (elm + f)"

definition SIMPLEQ_INIT :: "mem \<Rightarrow> u32 \<Rightarrow> mem" where
  "SIMPLEQ_INIT m head = write32 (write32 m head 0) (head + 4) head"

definition SIMPLEQ_INSERT_HEAD :: "mem \<Rightarrow> u32 \<Rightarrow> u32 \<Rightarrow> u32 \<Rightarrow> mem" where
  "SIMPLEQ_INSERT_HEAD m f head elm =
     (let m1 = write32 m (elm + f) (read32 m head);
          m2 = (if read32 m1 (elm + f) = 0 then write32 m1 (head + 4) (elm + f) else m1) in
      write32 m2 head elm)"

definition SIMPLEQ_INSERT_TAIL :: "mem \<Rightarrow> u32 \<Rightarrow> u32 \<Rightarrow> u32 \<Rightarrow> mem" where
  "SIMPLEQ_INSERT_TAIL m f head elm =
     (let m1 = write32 m (elm + f) 0;
          m2 = write32 m1 (read32 m1 (head + 4)) elm in
      write32 m2 (head + 4) (elm + f))"

definition SIMPLEQ_INSERT_AFTER :: "mem \<Rightarrow> u32 \<Rightarrow> u32 \<Rightarrow> u32 \<Rightarrow> u32 \<Rightarrow> mem" where
  "SIMPLEQ_INSERT_AFTER m f head listelm elm =
     (let m1 = write32 m (elm + f) (read32 m (listelm + f));
          m2 = (if read32 m1 (elm + f) = 0 then write32 m1 (head + 4) (elm + f) else m1) in
      write32 m2 (listelm + f) elm)"

definition SIMPLEQ_REMOVE_HEAD :: "mem \<Rightarrow> u32 \<Rightarrow> u32 \<Rightarrow> mem" where
  "SIMPLEQ_REMOVE_HEAD m f head =
     (let m1 = write32 m head (read32 m (read32 m head + f)) in
      if read32 m1 head = 0 then write32 m1 (head + 4) head else m1)"

definition SIMPLEQ_REMOVE_AFTER :: "mem \<Rightarrow> u32 \<Rightarrow> u32 \<Rightarrow> u32 \<Rightarrow> mem" where
  "SIMPLEQ_REMOVE_AFTER m f head elm =
     (let m1 = write32 m (elm + f) (read32 m (read32 m (elm + f) + f)) in
      if read32 m1 (elm + f) = 0 then write32 m1 (head + 4) (elm + f) else m1)"

definition SIMPLEQ_CONCAT :: "mem \<Rightarrow> u32 \<Rightarrow> u32 \<Rightarrow> mem" where
  "SIMPLEQ_CONCAT m head1 head2 =
     (if \<not> SIMPLEQ_EMPTY m head2
      then let m1 = write32 m (read32 m (head1 + 4)) (read32 m head2);
               m2 = write32 m1 (head1 + 4) (read32 m1 (head2 + 4)) in
           SIMPLEQ_INIT m2 head2
      else m)"

section \<open>Simple queues with masked pointers\<close>

definition XSIMPLEQ_XOR :: "mem \<Rightarrow> u32 \<Rightarrow> u32 \<Rightarrow> u32" where
  "XSIMPLEQ_XOR m head ptr = read32 m (head + 8) XOR ptr"

definition XSIMPLEQ_FIRST :: "mem \<Rightarrow> u32 \<Rightarrow> u32" where
  "XSIMPLEQ_FIRST m head = XSIMPLEQ_XOR m head (read32 m head)"

definition XSIMPLEQ_EMPTY :: "mem \<Rightarrow> u32 \<Rightarrow> bool" where
  "XSIMPLEQ_EMPTY m head \<longleftrightarrow> XSIMPLEQ_FIRST m head = 0"

definition XSIMPLEQ_NEXT :: "mem \<Rightarrow> u32 \<Rightarrow> u32 \<Rightarrow> u32 \<Rightarrow> u32" where
  "XSIMPLEQ_NEXT m f head elm = XSIMPLEQ_XOR m head (read32 m (elm + f))"

text \<open>The cookie comes from \<^verbatim>\<open>arc4random_buf\<close>, which is not in the repository; it is a parameter.\<close>

definition XSIMPLEQ_INIT :: "u32 \<Rightarrow> mem \<Rightarrow> u32 \<Rightarrow> mem" where
  "XSIMPLEQ_INIT cookie m head =
     (let m = write32 m (head + 8) cookie;
          m = write32 m head (XSIMPLEQ_XOR m head 0) in
      write32 m (head + 4) (XSIMPLEQ_XOR m head head))"

definition XSIMPLEQ_INSERT_HEAD :: "mem \<Rightarrow> u32 \<Rightarrow> u32 \<Rightarrow> u32 \<Rightarrow> mem" where
  "XSIMPLEQ_INSERT_HEAD m f head elm =
     (let m1 = write32 m (elm + f) (read32 m head);
          m2 = (if read32 m1 (elm + f) = XSIMPLEQ_XOR m1 head 0
                then write32 m1 (head + 4) (XSIMPLEQ_XOR m1 head (elm + f)) else m1) in
      write32 m2 head (XSIMPLEQ_XOR m2 head elm))"

definition XSIMPLEQ_INSERT_TAIL :: "mem \<Rightarrow> u32 \<Rightarrow> u32 \<Rightarrow> u32 \<Rightarrow> mem" where
  "XSIMPLEQ_INSERT_TAIL m f head elm =
     (let m1 = write32 m (elm + f) (XSIMPLEQ_XOR m head 0);
          m2 = write32 m1 (XSIMPLEQ_XOR m1 head (read32 m1 (head + 4))) (XSIMPLEQ_XOR m1 head elm) in
      write32 m2 (head + 4) (XSIMPLEQ_XOR m2 head (elm + f)))"

definition XSIMPLEQ_INSERT_AFTER :: "mem \<Rightarrow> u32 \<Rightarrow> u32 \<Rightarrow> u32 \<Rightarrow> u32 \<Rightarrow> mem" where
  "XSIMPLEQ_INSERT_AFTER m f head listelm elm =
     (let m1 = write32 m (elm + f) (read32 m (listelm + f));
          m2 = (if read32 m1 (elm + f) = XSIMPLEQ_XOR m1 head 0
                then write32 m1 (head + 4) (XSIMPLEQ_XOR m1 head (elm + f)) else m1) in
      write32 m2 (listelm + f) (XSIMPLEQ_XOR m2 head elm))"

definition XSIMPLEQ_REMOVE_HEAD :: "mem \<Rightarrow> u32 \<Rightarrow> u32 \<Rightarrow> mem" where
  "XSIMPLEQ_REMOVE_HEAD m f head =
     (let m1 = write32 m head (read32 m (XSIMPLEQ_XOR m head (read32 m head) + f)) in
      if read32 m1 head = XSIMPLEQ_XOR m1 head 0
      then write32 m1 (head + 4) (XSIMPLEQ_XOR m1 head head) else m1)"

definition XSIMPLEQ_REMOVE_AFTER :: "mem \<Rightarrow> u32 \<Rightarrow> u32 \<Rightarrow> u32 \<Rightarrow> mem" where
  "XSIMPLEQ_REMOVE_AFTER m f head elm =
     (let m1 = write32 m (elm + f) (read32 m (XSIMPLEQ_XOR m head (read32 m (elm + f)) + f)) in
      if read32 m1 (elm + f) = XSIMPLEQ_XOR m1 head 0
      then write32 m1 (head + 4) (XSIMPLEQ_XOR m1 head (elm + f)) else m1)"

section \<open>Singly-linked tail queues\<close>

definition STAILQ_FIRST :: "mem \<Rightarrow> u32 \<Rightarrow> u32" where
  "STAILQ_FIRST m head = read32 m head"

definition STAILQ_EMPTY :: "mem \<Rightarrow> u32 \<Rightarrow> bool" where
  "STAILQ_EMPTY m head \<longleftrightarrow> STAILQ_FIRST m head = 0"

definition STAILQ_NEXT :: "mem \<Rightarrow> u32 \<Rightarrow> u32 \<Rightarrow> u32" where
  "STAILQ_NEXT m f elm = read32 m (elm + f)"

definition STAILQ_INIT :: "mem \<Rightarrow> u32 \<Rightarrow> mem" where
  "STAILQ_INIT m head = write32 (write32 m head 0) (head + 4) head"

definition STAILQ_INSERT_HEAD :: "mem \<Rightarrow> u32 \<Rightarrow> u32 \<Rightarrow> u32 \<Rightarrow> mem" where
  "STAILQ_INSERT_HEAD m f head elm =
     (let m1 = write32 m (elm + f) (STAILQ_FIRST m head);
          m2 = (if STAILQ_NEXT m1 f elm = 0 then write32 m1 (head + 4) (elm + f) else m1) in
      write32 m2 head elm)"

definition STAILQ_INSERT_TAIL :: "mem \<Rightarrow> u32 \<Rightarrow> u32 \<Rightarrow> u32 \<Rightarrow> mem" where
  "STAILQ_INSERT_TAIL m f head elm =
     (let m1 = write32 m (elm + f) 0;
          m2 = write32 m1 (read32 m1 (head + 4)) elm in
      write32 m2 (head + 4) (elm + f))"

definition STAILQ_INSERT_AFTER :: "mem \<Rightarrow> u32 \<Rightarrow> u32 \<Rightarrow> u32 \<Rightarrow> u32 \<Rightarrow> mem" where
  "STAILQ_INSERT_AFTER m f head listelm elm =
     (let m1 = write32 m (elm + f) (STAILQ_NEXT m f listelm);
          m2 = (if STAILQ_NEXT m1 f elm = 0 then write32 m1 (head + 4) (elm + f) else m1) in
      write32 m2 (listelm + f) elm)"

definition STAILQ_REMOVE_HEAD :: "mem \<Rightarrow> u32 \<Rightarrow> u32 \<Rightarrow> mem" where
  "STAILQ_REMOVE_HEAD m f head =
     (let m1 = write32 m head (STAILQ_NEXT m f (STAILQ_FIRST m head)) in
      if STAILQ_FIRST m1 head = 0 then write32 m1 (head + 4) head else m1)"

definition STAILQ_REMOVE_AFTER :: "mem \<Rightarrow> u32 \<Rightarrow> u32 \<Rightarrow> u32 \<Rightarrow> mem" where
  "STAILQ_REMOVE_AFTER m f head elm =
     (let m1 = write32 m (elm + f) (STAILQ_NEXT m f (STAILQ_NEXT m f elm)) in
      if STAILQ_NEXT m1 f elm = 0 then write32 m1 (head + 4) (elm + f) else m1)"

text \<open>The search for the predecessor is the loop of \<^verbatim>\<open>SLIST_REMOVE\<close>.\<close>

definition STAILQ_REMOVE :: "mem \<Rightarrow> u32 \<Rightarrow> u32 \<Rightarrow> u32 \<Rightarrow> mem res" where
  "STAILQ_REMOVE m f head elm =
     (if STAILQ_FIRST m head = elm then Inr (STAILQ_REMOVE_HEAD m f head)
      else bindE (ends (slist_pred m f elm (read32 m head))) (\<lambda>r. bindE r (\<lambda>curelm.
        Inr (STAILQ_REMOVE_AFTER m f head curelm))))"

definition STAILQ_CONCAT :: "mem \<Rightarrow> u32 \<Rightarrow> u32 \<Rightarrow> mem" where
  "STAILQ_CONCAT m head1 head2 =
     (if \<not> STAILQ_EMPTY m head2
      then let m1 = write32 m (read32 m (head1 + 4)) (read32 m head2);
               m2 = write32 m1 (head1 + 4) (read32 m1 (head2 + 4)) in
           STAILQ_INIT m2 head2
      else m)"

definition STAILQ_LAST :: "mem \<Rightarrow> u32 \<Rightarrow> u32 \<Rightarrow> u32" where
  "STAILQ_LAST m f head = (if STAILQ_EMPTY m head then 0 else read32 m (head + 4) - f)"

section \<open>Doubly-linked lists and tail queues\<close>

definition LIST_REPLACE :: "mem \<Rightarrow> u32 \<Rightarrow> u32 \<Rightarrow> u32 \<Rightarrow> mem" where
  "LIST_REPLACE m f elm elm2 =
     (let m1 = write32 m (elm2 + f) (read32 m (elm + f));
          m2 = (if read32 m1 (elm2 + f) \<noteq> 0
                then write32 m1 (read32 m1 (elm2 + f) + f + 4) (elm2 + f) else m1);
          m3 = write32 m2 (elm2 + f + 4) (read32 m2 (elm + f + 4)) in
      write32 m3 (read32 m3 (elm2 + f + 4)) elm2)"

definition TAILQ_LAST :: "mem \<Rightarrow> u32 \<Rightarrow> u32" where
  "TAILQ_LAST m head = read32 m (read32 m (read32 m (head + 4) + 4))"

definition TAILQ_PREV :: "mem \<Rightarrow> u32 \<Rightarrow> u32 \<Rightarrow> u32" where
  "TAILQ_PREV m f elm = read32 m (read32 m (read32 m (elm + f + 4) + 4))"

definition TAILQ_INSERT_HEAD :: "mem \<Rightarrow> u32 \<Rightarrow> u32 \<Rightarrow> u32 \<Rightarrow> mem" where
  "TAILQ_INSERT_HEAD m f head elm =
     (let m1 = write32 m (elm + f) (read32 m head);
          m2 = (if read32 m1 (elm + f) \<noteq> 0 then write32 m1 (read32 m1 head + f + 4) (elm + f)
                else write32 m1 (head + 4) (elm + f));
          m3 = write32 m2 head elm in
      write32 m3 (elm + f + 4) head)"

definition TAILQ_INSERT_AFTER :: "mem \<Rightarrow> u32 \<Rightarrow> u32 \<Rightarrow> u32 \<Rightarrow> u32 \<Rightarrow> mem" where
  "TAILQ_INSERT_AFTER m f head listelm elm =
     (let m1 = write32 m (elm + f) (read32 m (listelm + f));
          m2 = (if read32 m1 (elm + f) \<noteq> 0 then write32 m1 (read32 m1 (elm + f) + f + 4) (elm + f)
                else write32 m1 (head + 4) (elm + f));
          m3 = write32 m2 (listelm + f) elm in
      write32 m3 (elm + f + 4) (listelm + f))"

definition TAILQ_INSERT_BEFORE :: "mem \<Rightarrow> u32 \<Rightarrow> u32 \<Rightarrow> u32 \<Rightarrow> mem" where
  "TAILQ_INSERT_BEFORE m f listelm elm =
     (let m1 = write32 m (elm + f + 4) (read32 m (listelm + f + 4));
          m2 = write32 m1 (elm + f) listelm;
          m3 = write32 m2 (read32 m2 (listelm + f + 4)) elm in
      write32 m3 (listelm + f + 4) (elm + f))"

definition TAILQ_REPLACE :: "mem \<Rightarrow> u32 \<Rightarrow> u32 \<Rightarrow> u32 \<Rightarrow> u32 \<Rightarrow> mem" where
  "TAILQ_REPLACE m f head elm elm2 =
     (let m1 = write32 m (elm2 + f) (read32 m (elm + f));
          m2 = (if read32 m1 (elm2 + f) \<noteq> 0 then write32 m1 (read32 m1 (elm2 + f) + f + 4) (elm2 + f)
                else write32 m1 (head + 4) (elm2 + f));
          m3 = write32 m2 (elm2 + f + 4) (read32 m2 (elm + f + 4)) in
      write32 m3 (read32 m3 (elm2 + f + 4)) elm2)"

definition TAILQ_CONCAT :: "mem \<Rightarrow> u32 \<Rightarrow> u32 \<Rightarrow> u32 \<Rightarrow> mem" where
  "TAILQ_CONCAT m f head1 head2 =
     (if \<not> TAILQ_EMPTY m head2
      then let m1 = write32 m (read32 m (head1 + 4)) (read32 m head2);
               m2 = write32 m1 (read32 m1 head2 + f + 4) (read32 m1 (head1 + 4));
               m3 = write32 m2 (head1 + 4) (read32 m2 (head2 + 4)) in
           TAILQ_INIT m3 head2
      else m)"

section \<open>What the doubly-linked macros do to a list\<close>

lemma LIST_REPLACE_dlist:
  assumes "dlist m f lnk (xs @ x # ys)" and "sep_cells ((n + f) # (n + f + 4) # dlcells f lnk (xs @ x # ys))" and "n \<noteq> 0"
  shows "dlist (LIST_REPLACE m f x n) f lnk (xs @ n # ys)"
  using assms by (cases ys) (auto simp: list_defs LIST_REPLACE_def mem_simps cong: dseg_cong)

lemma TAILQ_INSERT_HEAD_tailq:
  assumes "tailq m f h xs" and "sep_cells ((n + f) # (n + f + 4) # (h + 4) # dlcells f h xs)" and "n \<noteq> 0"
  shows "tailq (TAILQ_INSERT_HEAD m f h n) f h (n # xs)"
  using assms by (cases xs) (auto simp: list_defs TAILQ_INSERT_HEAD_def mem_simps cong: dseg_cong)

lemma TAILQ_INSERT_AFTER_tailq:
  assumes "tailq m f h (xs @ x # ys)" and "sep_cells ((n + f) # (n + f + 4) # (h + 4) # dlcells f h (xs @ x # ys))"
    and "n \<noteq> 0"
  shows "tailq (TAILQ_INSERT_AFTER m f h x n) f h (xs @ x # n # ys)"
  using assms by (cases ys) (auto simp: list_defs TAILQ_INSERT_AFTER_def mem_simps cong: dseg_cong)

lemma TAILQ_INSERT_BEFORE_tailq:
  assumes "tailq m f h (xs @ x # ys)" and "sep_cells ((n + f) # (n + f + 4) # (h + 4) # dlcells f h (xs @ x # ys))"
    and "n \<noteq> 0"
  shows "tailq (TAILQ_INSERT_BEFORE m f x n) f h (xs @ n # x # ys)"
  using assms by (cases ys) (auto simp: list_defs TAILQ_INSERT_BEFORE_def mem_simps cong: dseg_cong)

lemma TAILQ_REPLACE_tailq:
  assumes "tailq m f h (xs @ x # ys)" and "sep_cells ((n + f) # (n + f + 4) # (h + 4) # dlcells f h (xs @ x # ys))"
    and "n \<noteq> 0"
  shows "tailq (TAILQ_REPLACE m f h x n) f h (xs @ n # ys)"
  using assms by (cases ys) (auto simp: list_defs TAILQ_REPLACE_def mem_simps cong: dseg_cong)

text \<open>The back pointers name a cell that is followed by another back pointer, so two steps back lead to the
  last element or to the predecessor.\<close>

lemma TAILQ_LAST_tailq: "tailq m f h xs \<Longrightarrow> TAILQ_LAST m h = (if xs = [] then 0 else last xs)"
proof (cases xs rule: rev_cases)
  case (snoc ys x)
  then show "tailq m f h xs \<Longrightarrow> ?thesis" by (auto simp: list_defs TAILQ_LAST_def)
qed (simp add: list_defs TAILQ_LAST_def)

lemma TAILQ_PREV_tailq:
  "tailq m f h (xs @ x # y # ys) \<Longrightarrow> TAILQ_PREV m f y = x"
  by (auto simp: list_defs TAILQ_PREV_def)

lemma TAILQ_CONCAT_tailq:
  assumes "tailq m f h xs" and "tailq m f g ys" and "sep_cells ((h + 4) # (g + 4) # dlcells f h xs @ dlcells f g ys)"
  shows "tailq (TAILQ_CONCAT m f h g) f h (xs @ ys)" and "tailq (TAILQ_CONCAT m f h g) f g []"
  using assms
  by (cases ys; auto simp: list_defs TAILQ_CONCAT_def TAILQ_EMPTY_def TAILQ_FIRST_def TAILQ_INIT_def mem_simps cong: dseg_cong)+

section \<open>The contract of a queue\<close>

text \<open>\<open>holds m xs\<close> says that the queue in memory \<open>m\<close> has the elements \<open>xs\<close>, \<open>sep xs\<close> that the elements and the
  head do not overlap.\<close>

locale tail_queue =
  fixes holds :: "mem \<Rightarrow> u32 list \<Rightarrow> bool" and sep :: "u32 list \<Rightarrow> bool" and head_of :: "mem \<Rightarrow> u32"
    and ins_head :: "mem \<Rightarrow> u32 \<Rightarrow> mem" and ins_tail :: "mem \<Rightarrow> u32 \<Rightarrow> mem" and ins_after :: "mem \<Rightarrow> u32 \<Rightarrow> u32 \<Rightarrow> mem"
    and del_head :: "mem \<Rightarrow> mem" and del_after :: "mem \<Rightarrow> u32 \<Rightarrow> mem"
  assumes head_holds: "holds m xs \<Longrightarrow> head_of m = first0 xs"
    and ins_head_holds: "holds m xs \<Longrightarrow> sep (x # xs) \<Longrightarrow> x \<noteq> 0 \<Longrightarrow> holds (ins_head m x) (x # xs)"
    and ins_tail_holds: "holds m xs \<Longrightarrow> sep (x # xs) \<Longrightarrow> x \<noteq> 0 \<Longrightarrow> holds (ins_tail m x) (xs @ [x])"
    and ins_after_holds: "holds m (xs @ y # ys) \<Longrightarrow> sep (x # xs @ y # ys) \<Longrightarrow> x \<noteq> 0 \<Longrightarrow>
      holds (ins_after m y x) (xs @ y # x # ys)"
    and del_head_holds: "holds m (x # xs) \<Longrightarrow> sep (x # xs) \<Longrightarrow> holds (del_head m) xs"
    and del_after_holds: "holds m (xs @ y # x # ys) \<Longrightarrow> sep (xs @ y # x # ys) \<Longrightarrow> holds (del_after m y) (xs @ y # ys)"
    and sep_permute: "sep xs \<Longrightarrow> set ys \<subseteq> set xs \<Longrightarrow> distinct ys \<Longrightarrow> sep ys"
    and sep_distinct: "sep xs \<Longrightarrow> distinct xs"
begin

text \<open>Elements that are put in at the tail come out at the head in the same order.\<close>

lemma insert_all:
  assumes "holds m xs" and "sep (xs @ ys)" and "0 \<notin> set ys"
  shows "holds (fold (\<lambda>x m. ins_tail m x) ys m) (xs @ ys)"
  using assms
proof (induction ys arbitrary: xs m)
  case (Cons y ys)
  have d: "distinct (xs @ y # ys)" using Cons.prems(2) sep_distinct by blast
  have "sep (y # xs)" using sep_permute [OF Cons.prems(2), of "y # xs"] d by auto
  then have "holds (ins_tail m y) (xs @ [y])" using ins_tail_holds Cons.prems(1,3) by auto
  then show ?case using Cons.IH [of "ins_tail m y" "xs @ [y]"] Cons.prems(2,3) by simp
qed simp

lemma remove_some:
  assumes "holds m xs" and "sep xs" and "n \<le> length xs"
  shows "holds ((del_head ^^ n) m) (drop n xs)"
  using assms(3)
proof (induction n)
  case (Suc n)
  then obtain y ys where y: "drop n xs = y # ys" by (metis Cons_nth_drop_Suc Suc_le_eq)
  have "sep (y # ys)"
    using sep_permute [OF assms(2), of "drop n xs"] sep_distinct [OF assms(2)] by (simp add: y [symmetric] set_drop_subset)
  then have "holds (del_head ((del_head ^^ n) m)) ys" using Suc y del_head_holds by simp
  moreover have "drop (Suc n) xs = ys" using y by (metis drop_Suc tl_drop list.sel(3))
  ultimately show ?case by simp
qed (use assms(1) in simp)

lemma first_in_first_out:
  assumes "holds m []" and "sep xs" and "0 \<notin> set xs" and "n < length xs"
  shows "head_of ((del_head ^^ n) (fold (\<lambda>x m. ins_tail m x) xs m)) = xs ! n"
proof -
  have "holds (fold (\<lambda>x m. ins_tail m x) xs m) xs" using insert_all [of m "[]" xs] assms by simp
  then have "holds ((del_head ^^ n) (fold (\<lambda>x m. ins_tail m x) xs m)) (drop n xs)"
    using remove_some [OF _ assms(2), of _ n] assms(4) by simp
  from head_holds [OF this] show ?thesis by (simp add: Cons_nth_drop_Suc [OF assms(4), symmetric])
qed

end

section \<open>The three implementations\<close>

text \<open>A queue whose pointers are masked with \<open>c\<close>; without a mask it is a simple queue.\<close>

fun xseg :: "mem \<Rightarrow> u32 \<Rightarrow> u32 \<Rightarrow> u32 \<Rightarrow> u32 list \<Rightarrow> bool" where
  "xseg m c f lnk [] \<longleftrightarrow> True"
| "xseg m c f lnk (x # xs) \<longleftrightarrow> read32 m lnk = c XOR x \<and> x \<noteq> 0 \<and> xseg m c f (x + f) xs"

definition xqueue :: "mem \<Rightarrow> u32 \<Rightarrow> u32 \<Rightarrow> u32 \<Rightarrow> u32 list \<Rightarrow> bool" where
  "xqueue m c f h xs \<longleftrightarrow> xseg m c f h xs \<and> read32 m (lastlink f h xs) = c \<and> read32 m (h + 4) = c XOR lastlink f h xs"

definition qsep :: "u32 \<Rightarrow> u32 \<Rightarrow> u32 list \<Rightarrow> bool" where
  "qsep f h xs \<longleftrightarrow> distinct xs \<and> (\<forall>x \<in> set xs. apart h 12 (x + f) 4) \<and>
     (\<forall>x \<in> set xs. \<forall>y \<in> set xs. x \<noteq> y \<longrightarrow> apart (x + f) 4 (y + f) 4)"

lemma qsep_cells:
  assumes "qsep f h xs"
  shows "sep_cells ((h + 8) # (h + 4) # slcells f h xs)"
proof -
  have links: "sep_cells (slcells f lnk xs)"
    if "distinct xs" "\<forall>x \<in> set xs. apart lnk 4 (x + f) 4" "\<forall>x \<in> set xs. \<forall>y \<in> set xs. x \<noteq> y \<longrightarrow> apart (x + f) 4 (y + f) 4" for lnk xs
    using that
  proof (induction xs arbitrary: lnk)
    case (Cons x xs)
    have "sep_cells (slcells f (x + f) xs)" using Cons.prems by (intro Cons.IH) auto
    moreover have "slcells f lnk (x # xs) = lnk # slcells f (x + f) xs" by (simp add: slcells_def)
    ultimately show ?case using Cons.prems by (auto simp: set_slcells)
  qed (simp add: slcells_def)
  have h: "apart (h + i) 4 (x + f) 4" if "x \<in> set xs" "unat i + 4 \<le> 12" for x i
    using assms that apart_sub [of h 12 "x + f" 4 i 4 0 4] by (simp add: qsep_def)
  have "sep_cells (slcells f h xs)" using links [of xs h] assms h [of _ 0] by (simp add: qsep_def)
  moreover have "apart (h + 8) 4 (h + 4) 4" "apart (h + 8) 4 h 4" "apart (h + 4) 4 h 4" by (simp_all add: apart_def)
  ultimately show ?thesis using h [of _ 4] h [of _ 8] by (auto simp: set_slcells)
qed

lemma xseg_append [simp]: "xseg m c f lnk (xs @ ys) \<longleftrightarrow> xseg m c f lnk xs \<and> xseg m c f (lastlink f lnk xs) ys"
  by (induction xs arbitrary: lnk) auto

lemma xseg_cong:
  "(\<And>a. a \<in> set (scells f lnk xs) \<Longrightarrow> read32 m a = read32 m' a) \<Longrightarrow> xseg m c f lnk xs = xseg m' c f lnk xs"
  by (induction xs arbitrary: lnk) auto

lemma xor_unmask: "c XOR (c XOR x) = (x :: u32)" "(c XOR x = c XOR y) \<longleftrightarrow> x = (y :: u32)" "(c XOR x = c) \<longleftrightarrow> x = (0 :: u32)"
    "(c = c XOR x) \<longleftrightarrow> x = (0 :: u32)"
proof -
  show u: "c XOR (c XOR x) = x" for x :: u32 by (simp add: xor.assoc [symmetric])
  show "(c XOR x = c XOR y) \<longleftrightarrow> x = (y :: u32)" by (metis u)
  then show "(c XOR x = c) \<longleftrightarrow> x = (0 :: u32)" by (metis u xor.right_neutral)
  then show "(c = c XOR x) \<longleftrightarrow> x = (0 :: u32)" by metis
qed

lemmas queue_simps = xqueue_def slcells_def sep_cells_append Let_def mem_simps xor_unmask XSIMPLEQ_XOR_def

lemma xq_insert_head:
  assumes "xqueue m c f h xs" and "qsep f h (x # xs)" and "x \<noteq> 0" and "read32 m (h + 8) = c"
  shows "xqueue (XSIMPLEQ_INSERT_HEAD m f h x) c f h (x # xs)" and "read32 (XSIMPLEQ_INSERT_HEAD m f h x) (h + 8) = c"
  using assms qsep_cells [OF assms(2)] by (cases xs; auto simp: queue_simps XSIMPLEQ_INSERT_HEAD_def cong: xseg_cong)+

lemma xq_insert_tail:
  assumes "xqueue m c f h xs" and "qsep f h (x # xs)" and "x \<noteq> 0" and "read32 m (h + 8) = c"
  shows "xqueue (XSIMPLEQ_INSERT_TAIL m f h x) c f h (xs @ [x])" and "read32 (XSIMPLEQ_INSERT_TAIL m f h x) (h + 8) = c"
  using assms qsep_cells [OF assms(2)] by (cases xs; auto simp: queue_simps XSIMPLEQ_INSERT_TAIL_def cong: xseg_cong)+

lemma xq_insert_after:
  assumes "xqueue m c f h (xs @ y # ys)" and "qsep f h (x # xs @ y # ys)" and "x \<noteq> 0" and "read32 m (h + 8) = c"
  shows "xqueue (XSIMPLEQ_INSERT_AFTER m f h y x) c f h (xs @ y # x # ys)" and "read32 (XSIMPLEQ_INSERT_AFTER m f h y x) (h + 8) = c"
  using assms qsep_cells [OF assms(2)]
  by (cases xs; cases ys; auto simp: queue_simps XSIMPLEQ_INSERT_AFTER_def cong: xseg_cong)+

lemma xq_remove_head:
  assumes "xqueue m c f h (x # xs)" and "qsep f h (x # xs)" and "read32 m (h + 8) = c"
  shows "xqueue (XSIMPLEQ_REMOVE_HEAD m f h) c f h xs" and "read32 (XSIMPLEQ_REMOVE_HEAD m f h) (h + 8) = c"
  using assms qsep_cells [OF assms(2)] by (cases xs; auto simp: queue_simps XSIMPLEQ_REMOVE_HEAD_def cong: xseg_cong)+

lemma xq_remove_after:
  assumes "xqueue m c f h (xs @ y # x # ys)" and "qsep f h (xs @ y # x # ys)" and "read32 m (h + 8) = c"
  shows "xqueue (XSIMPLEQ_REMOVE_AFTER m f h y) c f h (xs @ y # ys)" and "read32 (XSIMPLEQ_REMOVE_AFTER m f h y) (h + 8) = c"
  using assms qsep_cells [OF assms(2)]
  by (cases xs; cases ys; auto simp: queue_simps XSIMPLEQ_REMOVE_AFTER_def cong: xseg_cong)+

lemma qsep_subset: "qsep f h xs \<Longrightarrow> set ys \<subseteq> set xs \<Longrightarrow> distinct ys \<Longrightarrow> qsep f h ys"
  by (auto simp: qsep_def subset_iff)

lemma qsep_distinct: "qsep f h xs \<Longrightarrow> distinct xs"
  by (simp add: qsep_def)

lemma xqueue_first: "xqueue m c f h xs \<Longrightarrow> c XOR read32 m h = first0 xs"
  by (cases xs) (auto simp: xqueue_def xor_unmask)

interpretation xsimpleq: tail_queue "\<lambda>m xs. xqueue m (read32 m (h + 8)) f h xs" "qsep f h" "\<lambda>m. XSIMPLEQ_FIRST m h"
  "\<lambda>m. XSIMPLEQ_INSERT_HEAD m f h" "\<lambda>m. XSIMPLEQ_INSERT_TAIL m f h" "\<lambda>m. XSIMPLEQ_INSERT_AFTER m f h"
  "\<lambda>m. XSIMPLEQ_REMOVE_HEAD m f h" "\<lambda>m. XSIMPLEQ_REMOVE_AFTER m f h" for f h
proof (unfold_locales, goal_cases)
  case 1 then show ?case by (simp add: XSIMPLEQ_FIRST_def XSIMPLEQ_XOR_def xqueue_first)
next
  case 2 show ?case using xq_insert_head [OF 2 refl] by simp
next
  case 3 show ?case using xq_insert_tail [OF 3 refl] by simp
next
  case 4 show ?case using xq_insert_after [OF 4 refl] by simp
next
  case 5 show ?case using xq_remove_head [OF 5 refl] by simp
next
  case 6 show ?case using xq_remove_after [OF 6 refl] by simp
qed (fact qsep_subset, fact qsep_distinct)

lemma sq_operations:
  shows "xqueue m 0 f h xs \<Longrightarrow> qsep f h (x # xs) \<Longrightarrow> x \<noteq> 0 \<Longrightarrow> xqueue (SIMPLEQ_INSERT_HEAD m f h x) 0 f h (x # xs)"
    and "xqueue m 0 f h xs \<Longrightarrow> qsep f h (x # xs) \<Longrightarrow> x \<noteq> 0 \<Longrightarrow> xqueue (SIMPLEQ_INSERT_TAIL m f h x) 0 f h (xs @ [x])"
    and "xqueue m 0 f h (xs @ y # ys) \<Longrightarrow> qsep f h (x # xs @ y # ys) \<Longrightarrow> x \<noteq> 0 \<Longrightarrow>
      xqueue (SIMPLEQ_INSERT_AFTER m f h y x) 0 f h (xs @ y # x # ys)"
    and "xqueue m 0 f h (x # xs) \<Longrightarrow> qsep f h (x # xs) \<Longrightarrow> xqueue (SIMPLEQ_REMOVE_HEAD m f h) 0 f h xs"
    and "xqueue m 0 f h (xs @ y # x # ys) \<Longrightarrow> qsep f h (xs @ y # x # ys) \<Longrightarrow>
      xqueue (SIMPLEQ_REMOVE_AFTER m f h y) 0 f h (xs @ y # ys)"
  by (frule qsep_cells; cases xs; cases ys;
      auto simp: queue_simps SIMPLEQ_INSERT_HEAD_def SIMPLEQ_INSERT_TAIL_def SIMPLEQ_INSERT_AFTER_def SIMPLEQ_REMOVE_HEAD_def
        SIMPLEQ_REMOVE_AFTER_def cong: xseg_cong)+

lemma stailq_simpleq:
  "STAILQ_FIRST = SIMPLEQ_FIRST" "STAILQ_INIT = SIMPLEQ_INIT" "STAILQ_INSERT_HEAD = SIMPLEQ_INSERT_HEAD"
  "STAILQ_INSERT_TAIL = SIMPLEQ_INSERT_TAIL" "STAILQ_INSERT_AFTER = SIMPLEQ_INSERT_AFTER"
  "STAILQ_REMOVE_HEAD = SIMPLEQ_REMOVE_HEAD" "STAILQ_REMOVE_AFTER = SIMPLEQ_REMOVE_AFTER" "STAILQ_CONCAT = SIMPLEQ_CONCAT"
  by (simp_all add: fun_eq_iff STAILQ_FIRST_def SIMPLEQ_FIRST_def STAILQ_INIT_def SIMPLEQ_INIT_def STAILQ_INSERT_HEAD_def
      SIMPLEQ_INSERT_HEAD_def STAILQ_INSERT_TAIL_def SIMPLEQ_INSERT_TAIL_def STAILQ_INSERT_AFTER_def SIMPLEQ_INSERT_AFTER_def
      STAILQ_REMOVE_HEAD_def SIMPLEQ_REMOVE_HEAD_def STAILQ_REMOVE_AFTER_def SIMPLEQ_REMOVE_AFTER_def STAILQ_CONCAT_def
      SIMPLEQ_CONCAT_def STAILQ_EMPTY_def SIMPLEQ_EMPTY_def STAILQ_NEXT_def Let_def)

interpretation simpleq: tail_queue "\<lambda>m. xqueue m 0 f h" "qsep f h" "\<lambda>m. SIMPLEQ_FIRST m h"
  "\<lambda>m. SIMPLEQ_INSERT_HEAD m f h" "\<lambda>m. SIMPLEQ_INSERT_TAIL m f h" "\<lambda>m. SIMPLEQ_INSERT_AFTER m f h"
  "\<lambda>m. SIMPLEQ_REMOVE_HEAD m f h" "\<lambda>m. SIMPLEQ_REMOVE_AFTER m f h" for f h
proof (unfold_locales, goal_cases)
  case 1 then show ?case using xqueue_first by (fastforce simp: SIMPLEQ_FIRST_def)
qed (fact sq_operations qsep_subset qsep_distinct)+

interpretation stailq: tail_queue "\<lambda>m. xqueue m 0 f h" "qsep f h" "\<lambda>m. STAILQ_FIRST m h"
  "\<lambda>m. STAILQ_INSERT_HEAD m f h" "\<lambda>m. STAILQ_INSERT_TAIL m f h" "\<lambda>m. STAILQ_INSERT_AFTER m f h"
  "\<lambda>m. STAILQ_REMOVE_HEAD m f h" "\<lambda>m. STAILQ_REMOVE_AFTER m f h" for f h
  unfolding stailq_simpleq by (rule simpleq.tail_queue_axioms)

lemma simpleq_empty: "xqueue (SIMPLEQ_INIT m h) 0 f h []" "xqueue (XSIMPLEQ_INIT c m h) c f h []"
    "read32 (XSIMPLEQ_INIT c m h) (h + 8) = c"
  by (simp_all add: SIMPLEQ_INIT_def XSIMPLEQ_INIT_def queue_simps apart_def)

text \<open>Removal of an element that is in the queue, and the last element.\<close>

lemma STAILQ_REMOVE_holds:
  assumes "xqueue m 0 f h (xs @ x # ys)" and "qsep f h (xs @ x # ys)"
  shows "\<exists>m'. STAILQ_REMOVE m f h x = Inr m' \<and> xqueue m' 0 f h (xs @ ys)"
proof (cases xs rule: rev_cases)
  case Nil
  then show ?thesis
    using assms stailq.head_holds [OF assms(1)] stailq.del_head_holds [of m f h x ys] by (simp add: STAILQ_REMOVE_def)
next
  case (snoc zs z)
  have d: "distinct (xs @ x # ys)" using assms(2) by (rule qsep_distinct)
  have seg: "sseg m f lnk xs' = xseg m 0 f lnk xs'" for lnk xs' by (induction xs' arbitrary: lnk) auto
  have sl: "slist m f h (xs @ x # ys)" using assms(1) seg [of h "xs @ x # ys"] by (simp only: slist_def xqueue_def)
  have f: "read32 m h = hd xs" using stailq.head_holds [OF assms(1)] snoc by (cases zs) (auto simp: STAILQ_FIRST_def)
  have "hd xs \<noteq> x" using d snoc by (cases zs) auto
  moreover have "slist_pred m f x (hd xs) = Some (Inr z)"
    using slist_pred_finds [of m f h "[]" xs x ys] sl d snoc by auto
  ultimately show ?thesis
    using f assms snoc stailq.del_after_holds [of m f h zs z x ys] by (simp add: STAILQ_REMOVE_def STAILQ_FIRST_def)
qed

lemma STAILQ_LAST_holds: "xqueue m 0 f h xs \<Longrightarrow> STAILQ_LAST m f h = (if xs = [] then 0 else last xs)"
  using stailq.head_holds [of m f h xs]
  by (cases xs) (auto simp: STAILQ_LAST_def STAILQ_EMPTY_def xqueue_def lastlink_last)

end
