(* ===== verification/Queue_Loops.thy ===== *)
theory Queue_Loops
  imports Queue_Tail
begin

text \<open>
  The loops of \<^verbatim>\<open>sys/queue.h\<close> around a body that changes memory. A \<^verbatim>\<open>FOREACH\<close> loop reads the next pointer after its body,
  a \<^verbatim>\<open>FOREACH_SAFE\<close> loop before it. Both are partial functions, for a body that links an element to itself keeps the
  loop going; the lemmas say for which bodies a loop ends after one pass over the list.
\<close>

section \<open>The macros\<close>

partial_function (option) foreach_do :: "(mem \<Rightarrow> u32 \<Rightarrow> u32) \<Rightarrow> (u32 \<Rightarrow> mem \<Rightarrow> mem) \<Rightarrow> u32 \<Rightarrow> mem \<Rightarrow> mem option" where
  "foreach_do nxt body var m = (if var = 0 then Some m else let m = body var m in foreach_do nxt body (nxt m var) m)"

partial_function (option) foreach_do_safe :: "(mem \<Rightarrow> u32 \<Rightarrow> u32) \<Rightarrow> (u32 \<Rightarrow> mem \<Rightarrow> mem) \<Rightarrow> u32 \<Rightarrow> mem \<Rightarrow> mem option" where
  "foreach_do_safe nxt body var m = (if var = 0 then Some m else let tvar = nxt m var in foreach_do_safe nxt body tvar (body var m))"

definition LIST_FOREACH :: "u32 \<Rightarrow> u32 \<Rightarrow> (u32 \<Rightarrow> mem \<Rightarrow> mem) \<Rightarrow> mem \<Rightarrow> mem option" where
  "LIST_FOREACH f head body m = foreach_do (\<lambda>m. LIST_NEXT m f) body (LIST_FIRST m head) m"

definition LIST_FOREACH_SAFE :: "u32 \<Rightarrow> u32 \<Rightarrow> (u32 \<Rightarrow> mem \<Rightarrow> mem) \<Rightarrow> mem \<Rightarrow> mem option" where
  "LIST_FOREACH_SAFE f head body m = foreach_do_safe (\<lambda>m. LIST_NEXT m f) body (LIST_FIRST m head) m"

definition SIMPLEQ_FOREACH :: "u32 \<Rightarrow> u32 \<Rightarrow> (u32 \<Rightarrow> mem \<Rightarrow> mem) \<Rightarrow> mem \<Rightarrow> mem option" where
  "SIMPLEQ_FOREACH f head body m = foreach_do (\<lambda>m. SIMPLEQ_NEXT m f) body (SIMPLEQ_FIRST m head) m"

definition SIMPLEQ_FOREACH_SAFE :: "u32 \<Rightarrow> u32 \<Rightarrow> (u32 \<Rightarrow> mem \<Rightarrow> mem) \<Rightarrow> mem \<Rightarrow> mem option" where
  "SIMPLEQ_FOREACH_SAFE f head body m = foreach_do_safe (\<lambda>m. SIMPLEQ_NEXT m f) body (SIMPLEQ_FIRST m head) m"

definition XSIMPLEQ_FOREACH :: "u32 \<Rightarrow> u32 \<Rightarrow> (u32 \<Rightarrow> mem \<Rightarrow> mem) \<Rightarrow> mem \<Rightarrow> mem option" where
  "XSIMPLEQ_FOREACH f head body m = foreach_do (\<lambda>m. XSIMPLEQ_NEXT m f head) body (XSIMPLEQ_FIRST m head) m"

definition XSIMPLEQ_FOREACH_SAFE :: "u32 \<Rightarrow> u32 \<Rightarrow> (u32 \<Rightarrow> mem \<Rightarrow> mem) \<Rightarrow> mem \<Rightarrow> mem option" where
  "XSIMPLEQ_FOREACH_SAFE f head body m = foreach_do_safe (\<lambda>m. XSIMPLEQ_NEXT m f head) body (XSIMPLEQ_FIRST m head) m"

definition TAILQ_FOREACH :: "u32 \<Rightarrow> u32 \<Rightarrow> (u32 \<Rightarrow> mem \<Rightarrow> mem) \<Rightarrow> mem \<Rightarrow> mem option" where
  "TAILQ_FOREACH f head body m = foreach_do (\<lambda>m. TAILQ_NEXT m f) body (TAILQ_FIRST m head) m"

definition TAILQ_FOREACH_SAFE :: "u32 \<Rightarrow> u32 \<Rightarrow> (u32 \<Rightarrow> mem \<Rightarrow> mem) \<Rightarrow> mem \<Rightarrow> mem option" where
  "TAILQ_FOREACH_SAFE f head body m = foreach_do_safe (\<lambda>m. TAILQ_NEXT m f) body (TAILQ_FIRST m head) m"

definition TAILQ_FOREACH_REVERSE :: "u32 \<Rightarrow> u32 \<Rightarrow> (u32 \<Rightarrow> mem \<Rightarrow> mem) \<Rightarrow> mem \<Rightarrow> mem option" where
  "TAILQ_FOREACH_REVERSE f head body m = foreach_do (\<lambda>m. TAILQ_PREV m f) body (TAILQ_LAST m head) m"

definition TAILQ_FOREACH_REVERSE_SAFE :: "u32 \<Rightarrow> u32 \<Rightarrow> (u32 \<Rightarrow> mem \<Rightarrow> mem) \<Rightarrow> mem \<Rightarrow> mem option" where
  "TAILQ_FOREACH_REVERSE_SAFE f head body m = foreach_do_safe (\<lambda>m. TAILQ_PREV m f) body (TAILQ_LAST m head) m"

definition STAILQ_FOREACH :: "u32 \<Rightarrow> u32 \<Rightarrow> (u32 \<Rightarrow> mem \<Rightarrow> mem) \<Rightarrow> mem \<Rightarrow> mem option" where
  "STAILQ_FOREACH f head body m = foreach_do (\<lambda>m. STAILQ_NEXT m f) body (STAILQ_FIRST m head) m"

definition STAILQ_FOREACH_SAFE :: "u32 \<Rightarrow> u32 \<Rightarrow> (u32 \<Rightarrow> mem \<Rightarrow> mem) \<Rightarrow> mem \<Rightarrow> mem option" where
  "STAILQ_FOREACH_SAFE f head body m = foreach_do_safe (\<lambda>m. STAILQ_NEXT m f) body (STAILQ_FIRST m head) m"

lemmas foreach_defs = LIST_FOREACH_def LIST_FOREACH_SAFE_def SIMPLEQ_FOREACH_def SIMPLEQ_FOREACH_SAFE_def XSIMPLEQ_FOREACH_def
  XSIMPLEQ_FOREACH_SAFE_def TAILQ_FOREACH_def TAILQ_FOREACH_SAFE_def TAILQ_FOREACH_REVERSE_def TAILQ_FOREACH_REVERSE_SAFE_def
  STAILQ_FOREACH_def STAILQ_FOREACH_SAFE_def

text \<open>What a head holds that is initialised statically, word by word.\<close>

definition SLIST_HEAD_INITIALIZER :: "u32 \<Rightarrow> u32 list" where "SLIST_HEAD_INITIALIZER head = [0]"
definition LIST_HEAD_INITIALIZER :: "u32 \<Rightarrow> u32 list" where "LIST_HEAD_INITIALIZER head = [0]"
definition SIMPLEQ_HEAD_INITIALIZER :: "u32 \<Rightarrow> u32 list" where "SIMPLEQ_HEAD_INITIALIZER head = [0, head]"
definition TAILQ_HEAD_INITIALIZER :: "u32 \<Rightarrow> u32 list" where "TAILQ_HEAD_INITIALIZER head = [0, head]"
definition STAILQ_HEAD_INITIALIZER :: "u32 \<Rightarrow> u32 list" where "STAILQ_HEAD_INITIALIZER head = [0, head]"

fun words_at :: "mem \<Rightarrow> u32 \<Rightarrow> u32 list \<Rightarrow> bool" where
  "words_at m a [] \<longleftrightarrow> True"
| "words_at m a (w # ws) \<longleftrightarrow> read32 m a = w \<and> words_at m (a + 4) ws"

lemma static_heads_empty:
  "words_at m h (SLIST_HEAD_INITIALIZER h) \<Longrightarrow> slist m f h []" "words_at m h (LIST_HEAD_INITIALIZER h) \<Longrightarrow> dlist m f h []"
  "words_at m h (SIMPLEQ_HEAD_INITIALIZER h) \<Longrightarrow> xqueue m 0 f h []" "words_at m h (TAILQ_HEAD_INITIALIZER h) \<Longrightarrow> tailq m f h []"
  "words_at m h (STAILQ_HEAD_INITIALIZER h) \<Longrightarrow> xqueue m 0 f h []"
  by (simp_all add: SLIST_HEAD_INITIALIZER_def LIST_HEAD_INITIALIZER_def SIMPLEQ_HEAD_INITIALIZER_def TAILQ_HEAD_INITIALIZER_def
      STAILQ_HEAD_INITIALIZER_def list_defs xqueue_def)

section \<open>One pass over the list\<close>

text \<open>What the loops use of a list: where it starts and what follows an element.\<close>

locale chain =
  fixes holds :: "mem \<Rightarrow> u32 list \<Rightarrow> bool" and start :: "mem \<Rightarrow> u32" and nxt :: "mem \<Rightarrow> u32 \<Rightarrow> u32"
  assumes start_elem: "holds m xs \<Longrightarrow> start m = first0 xs"
    and follow_elem: "holds m (xs @ x # ys) \<Longrightarrow> nxt m x = first0 ys"
    and elem_nonnull: "holds m xs \<Longrightarrow> 0 \<notin> set xs"
begin

lemma foreach_do_from:
  assumes "\<And>m x. holds m (xs @ ys) \<Longrightarrow> x \<in> set ys \<Longrightarrow> holds (body x m) (xs @ ys)" and "holds m (xs @ ys)"
  shows "foreach_do nxt body (first0 ys) m = Some (fold body ys m)"
  using assms
proof (induction ys arbitrary: xs m)
  case Nil
  then show ?case by (subst foreach_do.simps) simp
next
  case (Cons y ys)
  have "y \<noteq> 0" using elem_nonnull [OF Cons.prems(2)] by auto
  moreover have h: "holds (body y m) (xs @ y # ys)" using Cons.prems by simp
  moreover have "foreach_do nxt body (first0 ys) (body y m) = Some (fold body ys (body y m))"
    by (rule Cons.IH [of "xs @ [y]"]) (use Cons.prems(1) h in simp_all)
  ultimately show ?case using follow_elem [OF h] by (subst foreach_do.simps) (simp add: Let_def)
qed

lemma foreach_do_visits:
  assumes "holds m xs" and "\<And>m x. holds m xs \<Longrightarrow> x \<in> set xs \<Longrightarrow> holds (body x m) xs"
  shows "foreach_do nxt body (start m) m = Some (fold body xs m)"
  using foreach_do_from [of "[]" xs body m] assms start_elem [OF assms(1)] by simp

lemma foreach_do_safe_from:
  assumes "\<And>m x y. x \<in> set ys \<Longrightarrow> y \<in> set ys \<Longrightarrow> x \<noteq> y \<Longrightarrow> nxt (body x m) y = nxt m y" and "distinct ys" and "0 \<notin> set ys"
    and "\<And>as x bs. ys = as @ x # bs \<Longrightarrow> nxt m x = first0 bs"
  shows "foreach_do_safe nxt body (first0 ys) m = Some (fold body ys m)"
  using assms
proof (induction ys arbitrary: m)
  case Nil
  then show ?case by (subst foreach_do_safe.simps) simp
next
  case (Cons y ys)
  have "nxt m y = first0 ys" by (rule Cons.prems(4) [of "[]"]) simp
  moreover have "foreach_do_safe nxt body (first0 ys) (body y m) = Some (fold body ys (body y m))"
  proof (rule Cons.IH)
    fix as x bs assume s: "ys = as @ x # bs"
    have "nxt (body y m) x = nxt m x" by (rule Cons.prems(1)) (use Cons.prems(2) s in auto)
    also have "\<dots> = first0 bs" by (rule Cons.prems(4) [of "y # as"]) (simp add: s)
    finally show "nxt (body y m) x = first0 bs" .
  qed (use Cons.prems in simp_all)
  ultimately show ?case using Cons.prems(3) by (subst foreach_do_safe.simps) (simp add: Let_def)
qed

lemma foreach_do_safe_visits:
  assumes "holds m xs" and "distinct xs" and "\<And>m x y. x \<in> set xs \<Longrightarrow> y \<in> set xs \<Longrightarrow> x \<noteq> y \<Longrightarrow> nxt (body x m) y = nxt m y"
  shows "foreach_do_safe nxt body (start m) m = Some (fold body xs m)"
  unfolding start_elem [OF assms(1)]
  by (rule foreach_do_safe_from) (use assms elem_nonnull [OF assms(1)] follow_elem in auto)

end

interpretation lists: chain "\<lambda>m. dlist m f h" "\<lambda>m. LIST_FIRST m h" "\<lambda>m. LIST_NEXT m f" for f h
  by unfold_locales (auto dest!: dlist_sseg simp: LIST_FIRST_def LIST_NEXT_def slist_first slist_next slist_nonnull)

interpretation tails: chain "\<lambda>m. tailq m f h" "\<lambda>m. TAILQ_FIRST m h" "\<lambda>m. TAILQ_NEXT m f" for f h
  by unfold_locales (auto dest!: dlist_sseg simp: tailq_def TAILQ_FIRST_def TAILQ_NEXT_def slist_first slist_next slist_nonnull)

lemma TAILQ_PREV_first: "tailq m f h (x # xs) \<Longrightarrow> TAILQ_PREV m f x = 0"
  by (auto simp: tailq_def dlist_def TAILQ_PREV_def)

interpretation reversed: chain "\<lambda>m xs. tailq m f h (rev xs)" "\<lambda>m. TAILQ_LAST m h" "\<lambda>m. TAILQ_PREV m f" for f h
proof
  show "TAILQ_LAST m h = first0 xs" if "tailq m f h (rev xs)" for m xs
    using TAILQ_LAST_tailq [OF that] by (cases xs) simp_all
  show "TAILQ_PREV m f x = first0 ys" if "tailq m f h (rev (xs @ x # ys))" for m xs x ys
    using that TAILQ_PREV_tailq [of m f h _ "hd ys" x "rev xs"] TAILQ_PREV_first [of m f h x "rev xs"] by (cases ys) auto
  show "0 \<notin> set xs" if "tailq m f h (rev xs)" for m xs
    using slist_nonnull [OF dlist_sseg, of m f h "rev xs"] that by (simp add: tailq_def)
qed

lemma xseg_follow: "xseg m c f h (xs @ x # ys) \<Longrightarrow> read32 m (lastlink f h (xs @ x # ys)) = c \<Longrightarrow> c XOR read32 m (x + f) = first0 ys"
  by (cases ys) (auto simp: xor_unmask)

lemma xseg_nonnull: "xseg m c f h xs \<Longrightarrow> 0 \<notin> set xs"
  by (induction xs arbitrary: h) auto

lemma xqueue_follow: "xqueue m c f h (xs @ x # ys) \<Longrightarrow> c XOR read32 m (x + f) = first0 ys"
  using xseg_follow [of m c f h xs x ys] by (simp add: xqueue_def)

lemma xqueue_nonnull: "xqueue m c f h xs \<Longrightarrow> 0 \<notin> set xs"
  using xseg_nonnull by (auto simp: xqueue_def)

interpretation masked: chain "\<lambda>m xs. xqueue m c f h xs \<and> read32 m (h + 8) = c" "\<lambda>m. XSIMPLEQ_FIRST m h" "\<lambda>m. XSIMPLEQ_NEXT m f h" for c f h
  by unfold_locales
    (auto simp: XSIMPLEQ_FIRST_def XSIMPLEQ_NEXT_def XSIMPLEQ_XOR_def dest: xqueue_first xqueue_follow xqueue_nonnull)

lemma simpleq_links:
  assumes "xqueue m 0 f h xs"
  shows "read32 m h = first0 xs" and "xs = as @ x # bs \<Longrightarrow> read32 m (x + f) = first0 bs"
  using xqueue_first [OF assms] xqueue_follow [of m 0 f h as x bs] assms by auto

interpretation simple: chain "\<lambda>m. xqueue m 0 f h" "\<lambda>m. SIMPLEQ_FIRST m h" "\<lambda>m. SIMPLEQ_NEXT m f" for f h
  by unfold_locales (auto simp: SIMPLEQ_FIRST_def SIMPLEQ_NEXT_def simpleq_links dest: xqueue_nonnull)

interpretation stails: chain "\<lambda>m. xqueue m 0 f h" "\<lambda>m. STAILQ_FIRST m h" "\<lambda>m. STAILQ_NEXT m f" for f h
  by unfold_locales (auto simp: STAILQ_FIRST_def STAILQ_NEXT_def simpleq_links dest: xqueue_nonnull)

text \<open>A tail queue can be walked from both ends by a body that keeps it as it is; a body that unlinks or overwrites the
  element it is called with needs the safe variant.\<close>

lemma tail_queue_loops:
  assumes "tailq m f h xs" and "\<And>m x. tailq m f h xs \<Longrightarrow> x \<in> set xs \<Longrightarrow> tailq (body x m) f h xs"
  shows "TAILQ_FOREACH f h body m = Some (fold body xs m)" and "TAILQ_FOREACH_REVERSE f h body m = Some (fold body (rev xs) m)"
  unfolding foreach_defs using tails.foreach_do_visits [of m f h xs body] reversed.foreach_do_visits [of m f h "rev xs" body] assms by simp_all

lemma apart_nodes_next:
  assumes "sep_nodes k h xs" and "unat f + 4 \<le> k" and "x \<in> set xs" and "y \<in> set xs" and "x \<noteq> y" and "same_outside (span x k) m m'"
  shows "read32 m' (y + f) = read32 m (y + f)"
proof (rule same_outside_read32 [OF assms(6)])
  have "apart x k y k" using assms(1,3-5) unfolding sep_nodes_def by (induction xs) (auto simp: apart_sym)
  then have "span x k \<inter> span y k = {}" using assms(2) by (simp add: apart_iff_span)
  then show "span (y + f) 4 \<inter> span x k = {}" using span_sub [OF assms(2), of y] by blast
qed

lemma list_loop_safe:
  assumes "dlist m f h xs" and "distinct xs" and "sep_nodes k h xs" and "unat f + 4 \<le> k" and "\<And>m x. x \<in> set xs \<Longrightarrow> same_outside (span x k) m (body x m)"
  shows "LIST_FOREACH_SAFE f h body m = Some (fold body xs m)"
  unfolding foreach_defs
  by (rule lists.foreach_do_safe_visits [OF assms(1,2)]) (simp add: LIST_NEXT_def apart_nodes_next [OF assms(3,4) _ _ _ assms(5)])

end
