(* ===== verification/Malloc.thy ===== *)
theory Malloc
  imports Slob
begin

text \<open>
  The user-side heap of \<^verbatim>\<open>lib/libc/stdlib/malloc.c\<close>: \<^verbatim>\<open>malloc\<close> and \<^verbatim>\<open>free\<close> over the same
  singly-linked list of free blocks as the kernel's (\<^verbatim>\<open>struct sblock\<close>: the size at offset 0, the
  \<^verbatim>\<open>SLIST_ENTRY\<close> at offset 4), with a 32-bit size in front of every block. The memory here is the
  process's own view of its address space, so the system call \<^verbatim>\<open>mmap\<close> is a parameter: a function of
  its six arguments and that memory. The two theorems are about where this heap departs from what
  an allocator promises.
\<close>

section \<open>The operations\<close>

definition PROT_READ :: u32 where
  "PROT_READ = 0x01"

definition PROT_WRITE :: u32 where
  "PROT_WRITE = 0x02"

definition MAP_ANONYMOUS :: u32 where
  "MAP_ANONYMOUS = 0x01"

type_synonym mmap_call = "u32 \<Rightarrow> u32 \<Rightarrow> u32 \<Rightarrow> u32 \<Rightarrow> u32 \<Rightarrow> u32 \<Rightarrow> mem \<Rightarrow> u32 \<times> mem"

definition malloc :: "mmap_call \<Rightarrow> u32 \<Rightarrow> u32 \<Rightarrow> mem \<Rightarrow> (u32 \<times> mem) res" where
  "malloc mmap heap sz m =
     (let sz = sz + 4;
          sz = roundup sz 4 in
      if SLIST_EMPTY m heap
      then let m = SLIST_INIT m heap;
               (s, m) = mmap 0 sz (PROT_READ OR PROT_WRITE) MAP_ANONYMOUS (- 1) 0 m;
               p = s + sz;
               m = write32 m p (sz - pg_roundup sz);
               m = SLIST_INSERT_HEAD m 4 heap p;
               hdr = s;
               m = write32 m hdr sz in
           Inr (hdr + 4, m)
      else bindE (ends (foreach_find m 4 (\<lambda>p. sz \<le> read32 m p) (SLIST_FIRST m heap))) (\<lambda>p.
        if p = 0 then Inr (0, m)
        else let m = (if sz < read32 m p
                      then let s = p + sz;
                               m = write32 m s (read32 m p - sz) in
                           SLIST_INSERT_AFTER m 4 p s
                      else m) in
          bindE (SLIST_REMOVE m 4 heap p) (\<lambda>m.
            let hdr = p;
                m = write32 m hdr sz in
            Inr (hdr + 4, m))))"

text \<open>\<^verbatim>\<open>free\<close> steps back over a 16-bit tag, as \<^verbatim>\<open>kfree\<close> does, and reads the uninitialised \<^verbatim>\<open>tmp\<close> when
  the block touches the first free one; past the first free block its loop has an empty body.\<close>

definition free :: "u32 \<Rightarrow> u32 \<Rightarrow> mem \<Rightarrow> mem res" where
  "free heap a m =
     (let p = a - 2;
          m = write32 m p (ucast (read16 m p));
          n = SLIST_FIRST m heap in
      if p < n
      then if p + read32 m p = n
           then bindE (SLIST_REMOVE m 4 heap n) (\<lambda>m. Inl UninitRead)
           else Inr (SLIST_INSERT_HEAD m 4 heap p)
      else bindE (ends (foreach_safe m 4 (\<lambda>n tmp. False) None n)) (\<lambda>(n, tmp). Inr m))"

section \<open>Sizes\<close>

text \<open>The bytes a request takes: the request, its header, rounded up to a header.\<close>

definition block_size :: "u32 \<Rightarrow> u32" where
  "block_size sz = roundup (sz + 4) 4"

lemma block_size_facts:
  assumes "unat sz \<le> 2 ^ 31"
  shows "unat sz + 4 \<le> unat (block_size sz)" and "unat (block_size sz) < unat sz + 8"
    and "aligned 4 (block_size sz)"
proof -
  have s: "unat (sz + 4) = unat sz + 4" using assms by (simp add: u32_add_small)
  have u: "unat (block_size sz) = unat (sz + 4) +
      (if unat (sz + 4) mod 4 = 0 then 0 else 4 - unat (sz + 4) mod 4)"
    using unat_roundup [of 4 "sz + 4"] assms s by (simp add: block_size_def)
  then show "unat sz + 4 \<le> unat (block_size sz)" "unat (block_size sz) < unat sz + 8"
    using s by (auto split: if_splits)
  show "aligned 4 (block_size sz)"
    using aligned_roundup [of 4 "sz + 4"] by (simp add: block_size_def)
qed

lemma empty_then_malloc:
  assumes "SLIST_EMPTY m heap"
    and "mmap 0 (block_size sz) 3 1 (- 1) 0 (SLIST_INIT m heap) = (s, m1)"
  shows "malloc mmap heap sz m = Inr (s + 4,
    write32 (SLIST_INSERT_HEAD (write32 m1 (s + block_size sz)
      (block_size sz - pg_roundup (block_size sz))) 4 heap (s + block_size sz)) s (block_size sz))"
  using assms
  by (simp add: malloc_def Let_def block_size_def PROT_READ_def PROT_WRITE_def MAP_ANONYMOUS_def)

lemma first_block_serves:
  assumes "read32 m heap = p" and "p \<noteq> 0" and "block_size sz < read32 m p"
    and "apart heap 4 p 8" and "apart heap 4 (p + block_size sz) 8" and "apart p 8 (p + block_size sz) 8"
  shows "\<exists>m'. malloc mmap heap sz m = Inr (p + 4, m') \<and> read32 m' heap = p + block_size sz \<and>
    read32 m' p = block_size sz"
proof -
  let ?r = "block_size sz"
  let ?s = "p + ?r"
  define m1 where "m1 = SLIST_INSERT_AFTER (write32 m ?s (read32 m p - ?r)) 4 p ?s"
  have ap: "apart heap 4 ?s 4" "apart heap 4 (?s + 4) 4" "apart heap 4 (p + 4) 4" "apart heap 4 p 4"
    using node_cell [of heap ?s 8 0] node_cell [of heap p 8 0] assms(4,5) by simp_all
  have aq: "apart (p + 4) 4 p 4" by (simp add: apart_def)
  have h: "read32 m1 heap = p" and n: "read32 m1 (p + 4) = ?s"
    using assms(1) ap by (simp_all add: m1_def SLIST_INSERT_AFTER_def Let_def mem_simps)
  have f: "foreach_find m 4 (\<lambda>p. ?r \<le> read32 m p) p = Some p"
    using assms(2,3) by (subst foreach_find.simps) (simp add: less_imp_le)
  have e: "\<not> SLIST_EMPTY m heap" using assms(1,2) by (simp add: SLIST_EMPTY_def SLIST_FIRST_def)
  have "SLIST_REMOVE m1 4 heap p = Inr (write32 m1 heap ?s)"
    using h n by (simp add: SLIST_REMOVE_def SLIST_REMOVE_HEAD_def SLIST_FIRST_def SLIST_NEXT_def)
  then have "malloc mmap heap sz m = Inr (p + 4, write32 (write32 m1 heap ?s) p ?r)"
    using e f assms(1-3) 
    by (simp add: malloc_def Let_def SLIST_FIRST_def m1_def flip: block_size_def)
  then show ?thesis using ap aq by (simp add: mem_simps)
qed

lemma upper_half: "read32 m a < 0x10000 \<Longrightarrow> read16 m (a + 2) = 0"
proof -
  assume "read32 m a < 0x10000"
  then have "drop_bit 16 (read32 m a) = 0"
    by (simp add: drop_bit_eq_div word_unat_eq_iff unat_div word_less_nat_alt)
  moreover have "read16 m (a + 2) = ucast (drop_bit 16 (read32 m a))"
    by (intro bit_word_eqI) (auto simp: read16_def read32_def bit_simps add.assoc dest: bit_imp_le_length)
  ultimately show ?thesis by simp
qed

section \<open>Memory that was never mapped\<close>

text \<open>C40: the first \<^verbatim>\<open>malloc\<close> maps the pages its request needs and records the rest of them as a free
  block of \<^verbatim>\<open>sz - pg_roundup(sz)\<close> bytes, which is the wrong way round: unless the request fills its
  pages exactly the block's size wraps around to nearly 4 GiB. So a later request that does not fit
  in what was mapped is served all the same, without another \<^verbatim>\<open>mmap\<close>: the block handed out begins
  behind the first one and contains the first address after the mapping.\<close>

theorem malloc_overcommits:
  assumes "SLIST_EMPTY m heap"
    and "mmap 0 (block_size sz) 3 1 (- 1) 0 (SLIST_INIT m heap) = (s, m1)"
    and "unat sz \<le> 2 ^ 31" and "\<not> aligned 4096 (block_size sz)"
    and "unat s + unat (pg_roundup (block_size sz)) < 2 ^ 32"
    and "unat (pg_roundup (block_size sz)) - unat (block_size sz) < unat sz2" and "unat sz2 \<le> 2 ^ 31"
    and "apart heap 4 s (unat (block_size sz) + 8)"
    and "apart heap 4 (s + block_size sz + block_size sz2) 8"
  shows "\<exists>m2. malloc mmap heap sz m = Inr (s + 4, m2) \<and>
    (\<exists>m3. malloc mmap' heap sz2 m2 = Inr (s + block_size sz + 4, m3)) \<and>
    s + pg_roundup (block_size sz) \<in> span (s + block_size sz + 4) (unat sz2)"
proof -
  let ?r = "block_size sz" and ?n = "block_size sz2"
  let ?p = "s + ?r"
  define m2 where "m2 = write32 (SLIST_INSERT_HEAD (write32 m1 ?p (?r - pg_roundup ?r)) 4 heap ?p) s ?r"
  note r = block_size_facts [OF assms(3)] and n = block_size_facts [OF assms(7)]
  have b: "unat ?r \<le> 0xFFFFF000" using r(2) assms(3) by simp
  note pg = pg_roundup_bounds [OF b]
  have ne: "unat (pg_roundup ?r) \<noteq> unat ?r" using assms(4) aligned_pg_roundup [of ?r] by (metis word_unat_eq_iff)
  have rest: "unat ?r + 4 \<le> unat (pg_roundup ?r)"
  proof -
    obtain j where j: "unat ?r = 4 * j" using r(3) by (auto simp: aligned_def)
    obtain k where k: "unat (pg_roundup ?r) = 4096 * k"
      using aligned_pg_roundup [of ?r] by (auto simp: aligned_def)
    have "j < 1024 * k" using pg(1) ne j k by linarith
    then show ?thesis using j k by linarith
  qed
  have big: "unat ?n < unat (?r - pg_roundup ?r)"
    using pg ne n(2) assms(7) by (simp add: u32_sub)
  have up: "unat ?p = unat s + unat ?r" using assms(5) pg(1) by (simp add: u32_add_small)
  have n8: "8 \<le> unat ?n" using n(1) rest assms(6) by linarith
  have "unat (- ?n) = 4294967296 - unat ?n" using u32_sub [of 0 ?n] n8 by simp
  then have n8': "8 \<le> unat (- ?n)" using n(2) assms(7) by simp
  have hp: "apart heap 4 ?p 8" "apart heap 4 s 4"
    using apart_sub_right [OF assms(8), of ?r 8] assms(8) by (auto intro: apart_mono)
  have rp: "apart s 4 ?p 4" "apart s 4 heap 4"
    using r(1) b u32_sub [of 0 ?r] hp(2) by (auto simp: apart_def)
  have cells: "apart heap 4 ?p 4" "apart (?p + 4) 4 ?p 4"
    using hp(1) by (auto simp: apart_def)
  have "read32 m2 heap = ?p" and "read32 m2 ?p = ?r - pg_roundup ?r"
    using rp cells by (simp_all add: m2_def SLIST_INSERT_HEAD_def Let_def mem_simps)
  moreover have "?p \<noteq> 0" using up r(1) by (metis add_is_0 le_zero_eq unat_0 zero_neq_numeral)
  moreover have "apart ?p 8 (?p + ?n) 8" using n8 n8' by (simp add: apart_def)
  ultimately have "\<exists>m3. malloc mmap' heap sz2 m2 = Inr (?p + 4, m3)"
    using first_block_serves [of m2 heap ?p sz2 mmap'] big hp(1) assms(9) by (auto simp: word_less_nat_alt)
  moreover have "malloc mmap heap sz m = Inr (s + 4, m2)"
    using empty_then_malloc [of m heap mmap sz s m1] assms(1,2) by (simp add: m2_def)
  moreover have "unat (?r + 4) = unat ?r + 4" using b by (simp add: u32_add_small)
  then have "unat (pg_roundup ?r - (?r + 4)) < unat sz2"
    using rest assms(6) by (simp add: u32_sub)
  then have "s + pg_roundup ?r \<in> span (?p + 4) (unat sz2)" by (simp add: span_def add.assoc)
  ultimately show ?thesis by blast
qed

text \<open>A first request of 100 bytes, and then one of 64 KiB, of which a single page is mapped.\<close>

definition demo_mmap :: mmap_call where
  "demo_mmap addr sz prot flags fd off m = (0x40000000, m)"

theorem malloc_overcommits_witness:
  "\<exists>m2. malloc demo_mmap 0x1000 100 (\<lambda>a. 0) = Inr (0x40000004, m2) \<and>
    (\<exists>m3. malloc demo_mmap 0x1000 0x10000 m2 = Inr (0x4000006C, m3)) \<and>
    0x40001000 \<in> span 0x4000006C 0x10000"
proof -
  have b: "block_size 100 = 104" "block_size 0x10000 = 0x10004" "pg_roundup 104 = 0x1000"
    by (simp_all add: block_size_def roundup_def pg_roundup_def)
  have "SLIST_EMPTY (\<lambda>a. 0) 0x1000" by (simp add: SLIST_EMPTY_def SLIST_FIRST_def read32_def)
  then show ?thesis
    using malloc_overcommits [of "\<lambda>a. 0" "0x1000" demo_mmap 100 "0x40000000"
        "SLIST_INIT (\<lambda>a. 0) 0x1000" "0x10000" demo_mmap]
    by (simp add: b demo_mmap_def aligned_def apart_def)
qed

text \<open>\<^verbatim>\<open>free\<close> steps back over a 16-bit tag where \<^verbatim>\<open>malloc\<close> wrote a 32-bit header, so what it reads
  as the size of a block of less than 64 KiB is the upper half of the header, zero: the block goes
  back to the free list as a block of no bytes, from which no later request can be served.\<close>

theorem free_loses_block:
  assumes "slist m 4 heap (n # ns)" and "sep_nodes 8 heap ((a - 2) # n # ns)"
    and "a - 2 < n" and "a \<noteq> 2" and "read32 m (a - 4) = sz" and "sz < 0x10000"
  shows "\<exists>m'. free heap a m = Inr m' \<and> slist m' 4 heap ((a - 2) # n # ns) \<and> read32 m' (a - 2) = 0 \<and>
    (\<forall>b \<in> set (n # ns). read32 m' b = read32 m b)"
proof -
  define p where "p = a - 2"
  have pa: "p = a - 4 + 2" by (simp add: p_def)
  note as = assms [folded p_def]
  let ?m1 = "write32 m p 0"
  let ?m2 = "SLIST_INSERT_HEAD ?m1 4 heap p"
  have tag: "read16 m p = 0" using as(5,6) upper_half [of m "a - 4"] by (simp only: pa)
  have hp: "apart heap 4 p 8" and sep: "\<forall>b \<in> set (n # ns). apart p 8 b 8 \<and> apart heap 4 b 8"
    using as(2) by (auto simp: sep_nodes_def)
  have cells: "sep_cells ((p + 4) # slcells 4 heap (n # ns))"
    by (rule sep_nodes_snew [OF as(2)]) simp
  have "slist ?m1 4 heap (n # ns)"
  proof (rule slist_frame [OF as(1) same_outside_write32])
    have "apart p 4 c 4" if "c \<in> set (slcells 4 heap (n # ns))" for c
      using that hp sep apart_sub [of p 8 _ 8 0 4 4 4]
      by (auto simp: set_slcells apart_sym [of _ _ heap] intro: apart_mono)
    then show "span p 4 \<inter> cellspan (slcells 4 heap (n # ns)) = {}"
      by (auto simp: cellspan_def dest: apart_span)
  qed
  then have "slist ?m2 4 heap (p # n # ns)"
    using SLIST_INSERT_HEAD_slist [OF _ cells] as(4) by (simp add: p_def)
  moreover have ap: "apart heap 4 p 4" "apart (p + 4) 4 p 4"
    using hp by (auto simp: apart_def intro: apart_mono)
  then have "read32 ?m2 p = 0"
    by (simp add: SLIST_INSERT_HEAD_def Let_def mem_simps)
  moreover have "read32 ?m2 b = read32 m b" if "b \<in> set (n # ns)" for b
  proof -
    have "apart heap 4 b 4" "apart (p + 4) 4 b 4" "apart p 4 b 4"
      using sep that apart_sub [of p 8 b 8 4 4 0 4] by (auto intro: apart_mono)
    then show ?thesis by (simp add: SLIST_INSERT_HEAD_def Let_def mem_simps)
  qed
  moreover have "read32 ?m1 heap = n"
    using slist_first [OF as(1)] ap by (simp add: mem_simps)
  then have "free heap a m = Inr ?m2"
    using tag as(3) less_imp_neq [OF as(3)] by (simp add: free_def Let_def SLIST_FIRST_def flip: p_def)
  ultimately show ?thesis unfolding p_def [symmetric] by blast
qed

text \<open>A block of 104 bytes at \<^verbatim>\<open>0x40000000\<close>, below the only free block.\<close>

definition demo_heap :: mem where
  "demo_heap = write32 (write32 (\<lambda>a. 0) 0x1000 0x40000068) 0x40000000 104"

theorem free_loses_block_witness:
  "\<exists>m'. free 0x1000 0x40000004 demo_heap = Inr m' \<and> slist m' 4 0x1000 [0x40000002, 0x40000068] \<and>
    read32 m' 0x40000002 = 0"
proof -
  have r: "read32 demo_heap 0x1000 = 0x40000068" "read32 demo_heap 0x4000006C = 0" "read32 demo_heap 0x40000000 = 104"
    by (simp_all add: demo_heap_def read32_write32_apart' apart_def) (simp add: read32_def)
  then have "slist demo_heap 4 0x1000 [0x40000068]" by (simp add: slist_def)
  then show ?thesis
    using free_loses_block [of demo_heap "0x1000" "0x40000068" "[]" "0x40000004" 104] r(3)
    by (auto simp: sep_nodes_def apart_def)
qed

end
