(* ===== verification/Errno.thy ===== *)
theory Errno
  imports Prelude
begin

text \<open>
  The error numbers of \<^verbatim>\<open>include/errno.h\<close> and the messages of \<^verbatim>\<open>lib/libc/string/strerror.c\<close>. The
  table of messages is written with designated initialisers, \<^verbatim>\<open>[E2BIG] = "..."\<close>, so the array is
  built from pairs of a macro name and a text; an element that no initialiser names is a null pointer.
\<close>

definition errno_h :: "(string \<times> nat) list" where
  "errno_h = [
    (''E2BIG'', 1), (''EACCES'', 2), (''EADDRINUSE'', 3), (''EADDRNOTAVAIL'', 4), (''EAFNOSUPPORT'', 5),
    (''EAGAIN'', 6), (''EALREADY'', 7), (''EBADF'', 8), (''EBADMSG'', 9), (''EBUSY'', 10),
    (''ECANCELED'', 11), (''ECHILD'', 12), (''ECONNABORTED'', 13), (''ECONNREFUSED'', 14),
    (''ECONNRESET'', 15), (''EDEADLK'', 16), (''EDESTADDRREQ'', 17), (''EDOM'', 18), (''EDQUOT'', 19),
    (''EEXIST'', 20), (''EFAULT'', 21), (''EFBIG'', 22), (''EHOSTUNREACH'', 23), (''EIDRM'', 24),
    (''EILSEQ'', 25), (''EINPROGRESS'', 26), (''EINTR'', 27), (''EINVAL'', 28), (''EIO'', 29),
    (''EISCONN'', 30), (''EISDIR'', 31), (''ELOOP'', 32), (''EMFILE'', 33), (''EMLINK'', 34),
    (''EMSGSIZE'', 35), (''EMULTIHOP'', 36), (''ENAMETOOLONG'', 37), (''ENETDOWN'', 38), (''ENETRESET'', 39),
    (''ENETUNREACH'', 40), (''ENFILE'', 41), (''ENOBUFS'', 42), (''ENODATA'', 43), (''ENODEV'', 44),
    (''ENOENT'', 45), (''ENOEXEC'', 46), (''ENOLCK'', 47), (''ENOLINK'', 48), (''ENOMEM'', 49),
    (''ENOMSG'', 50), (''ENOPROTOOPT'', 51), (''ENOSPC'', 52), (''ENOSR'', 53), (''ENOSTR'', 54),
    (''ENOSYS'', 55), (''ENOTCONN'', 56), (''ENOTDIR'', 57), (''ENOTEMPTY'', 58), (''ENOTRECOVERABLE'', 59),
    (''ENOTSOCK'', 60), (''ENOTSUP'', 61), (''ENOTTY'', 62), (''ENXIO'', 63), (''EOPNOTSUPP'', 64),
    (''EOVERFLOW'', 65), (''EOWNERDEAD'', 66), (''EPERM'', 67), (''EPIPE'', 68), (''EPROTO'', 69),
    (''EPROTONOSUPPORT'', 70), (''EPROTOTYPE'', 71), (''ERANGE'', 72), (''EROFS'', 73), (''ESPIPE'', 74),
    (''ESRCH'', 75), (''ESTALE'', 76), (''ETIME'', 77), (''ETIMEDOUT'', 78), (''ETXTBSY'', 79),
    (''EWOULDBLOCK'', 80), (''EXDEV'', 81)]"

definition errmsg_init :: "(string \<times> string) list" where
  "errmsg_init = [
    (''0'', ''0''), (''E2BIG'', ''Argument list too long.''), (''EACCES'', ''Permission denied.''),
    (''EADDRINUSE'', ''Address in use.''), (''EADDRNOTAVAIL'', ''Address not available.''),
    (''EAFNOSUPPORT'', ''Address family not supported.''),
    (''EAGAIN'', ''Resource unavailable, try again.''), (''EALREADY'', ''Connection already in progress.''),
    (''EBADF'', ''Bad file descriptor.''), (''EBADMSG'', ''Bad message.''),
    (''EBUSY'', ''Device or resource busy.''), (''ECANCELED'', ''Operation canceled.''),
    (''ECHILD'', ''No child processes.''), (''ECONNABORTED'', ''Connection aborted.''),
    (''ECONNREFUSED'', ''Connection refused.''), (''ECONNRESET'', ''Connection reset.''),
    (''EDEADLK'', ''Resource deadlock would occur.''), (''EDESTADDRREQ'', ''Destination address required.''),
    (''EDOM'', ''Mathematics argument out of domain of function.''), (''EDQUOT'', ''Reserved.''),
    (''EEXIST'', ''File exists.''), (''EFAULT'', ''Bad address.''), (''EFBIG'', ''File too large.''),
    (''EHOSTUNREACH'', ''Host is unreachable.''), (''EIDRM'', ''Identifier removed.''),
    (''EILSEQ'', ''Illegal byte sequence.''), (''EINPROGRESS'', ''Operation in progress.''),
    (''EINTR'', ''Interrupted function.''), (''EINVAL'', ''Invalid argument.''), (''EIO'', ''IO error.''),
    (''EISCONN'', ''Socket is connected.''), (''EISDIR'', ''Is a directory.''),
    (''ELOOP'', ''Too many levels of symbolic links.''), (''EMFILE'', ''File descriptor value too large.''),
    (''EMLINK'', ''Too many links.''), (''EMSGSIZE'', ''Message too large.''),
    (''EMULTIHOP'', ''Reserved.''), (''ENAMETOOLONG'', ''Filename too long.''),
    (''ENETDOWN'', ''Network is down.''), (''ENETRESET'', ''Connection aborted by network.''),
    (''ENETUNREACH'', ''Network unreachable.''), (''ENFILE'', ''Too many files open in system.''),
    (''ENOBUFS'', ''No buffer space available.''),
    (''ENODATA'', ''No message is available on the STREAM head read queue.''),
    (''ENODEV'', ''No such device.''), (''ENOENT'', ''No such file or directory.''),
    (''ENOEXEC'', ''Executable file format error.''), (''ENOLCK'', ''No locks available.''),
    (''ENOLINK'', ''Reserved.''), (''ENOMEM'', ''Not enough space.''),
    (''ENOMSG'', ''No message of the desired type.''), (''ENOPROTOOPT'', ''Protocol not available.''),
    (''ENOSPC'', ''No space left on device.''), (''ENOSR'', ''No STREAM resources.''),
    (''ENOSTR'', ''Not a STREAM.''), (''ENOSYS'', ''Functionality not supported.''),
    (''ENOTCONN'', ''The socket is not connected.''),
    (''ENOTDIR'', ''Not a directory or a symbolic link to a directory.''),
    (''ENOTEMPTY'', ''Directory not empty.''), (''ENOTRECOVERABLE'', ''State not recoverable.''),
    (''ENOTSOCK'', ''Not a socket.''), (''ENOTSUP'', ''Not supported.''),
    (''ENOTTY'', ''Inappropriate IO control operation.''), (''ENXIO'', ''No such device or address.''),
    (''EOPNOTSUPP'', ''Operation not supported on socket.''),
    (''EOVERFLOW'', ''Value too large to be stored in data type.''),
    (''EOWNERDEAD'', ''Previous owner died.''), (''EPERM'', ''Operation not permitted.''),
    (''EPIPE'', ''Broken pipe.''), (''EPROTO'', ''Protocol error.''),
    (''EPROTONOSUPPORT'', ''Protocol not supported.''),
    (''EPROTOTYPE'', ''Protocol wrong type for socket.''), (''ERANGE'', ''Result too large.''),
    (''EROFS'', ''Read-only file system.''), (''ESPIPE'', ''Invalid seek.''),
    (''ESRCH'', ''No such process.''), (''ESTALE'', ''Reserved.''), (''ETIME'', ''Stream ioctl() timeout.''),
    (''ETIMEDOUT'', ''Connection timed out.''), (''ETXTBSY'', ''Text file busy.''),
    (''EWOULDBLOCK'', ''Operation would block.''), (''EXDEV'', ''Cross-device link.'')]"

text \<open>The value of a designator, the length of the array and its elements.\<close>

definition designator :: "string \<Rightarrow> nat" where
  "designator name = (case map_of errno_h name of Some n \<Rightarrow> n | None \<Rightarrow> 0)"

definition errmsg :: "string option list" where
  "errmsg = (let init = map (\<lambda>(name, t). (designator name, t)) errmsg_init in
     map (map_of init) [0..<Suc (foldr max (map fst init) 0)])"

definition strerror :: "u32 \<Rightarrow> string option res" where
  "strerror errnum =
     (if 0 \<le> sint errnum \<and> nat (sint errnum) < length errmsg then Inr (errmsg ! nat (sint errnum))
      else Inl OutOfRange)"

text \<open>The error numbers count from 1 and the initialisers name them in their order, so the array is the
  list of the texts: it has no null pointers.\<close>

lemma errno_names: "distinct (''0'' # map fst errno_h)"
  by code_simp

lemma errno_numbers: "map snd errno_h = [1..<82]"
  by code_simp

lemma errmsg_names: "map fst errmsg_init = ''0'' # map fst errno_h"
  by (simp add: errmsg_init_def errno_h_def)

lemma designator_errno: "(name, c) \<in> set errno_h \<Longrightarrow> designator name = c"
  using errno_names by (simp add: designator_def)

lemma designators: "map (designator \<circ> fst) errmsg_init = [0..<82]"
proof -
  have "map designator (map fst errno_h) = map snd errno_h" by (auto simp: designator_errno)
  moreover have "designator ''0'' = 0"
    using errno_names by (simp add: designator_def map_of_eq_None_iff [THEN iffD2])
  ultimately have "map designator (map fst errmsg_init) = 0 # [1..<82]"
    by (simp only: errmsg_names list.map(2) errno_numbers)
  then show ?thesis by (simp add: upt_conv_Cons del: upt_rec_numeral)
qed

lemma foldr_max_upt: "foldr max [0..<Suc n] 0 = n"
proof -
  have "foldr max [0..<k] (b :: nat) = max b (k - 1)" for k b
    by (induction k arbitrary: b) (auto simp: max_def)
  then show ?thesis by simp
qed

lemma errmsg_texts: "errmsg = map (Some \<circ> snd) errmsg_init"
proof -
  let ?init = "map (\<lambda>(name, t). (designator name, t)) errmsg_init"
  have f: "map fst ?init = [0..<82]" using designators by (simp add: comp_def case_prod_unfold del: upt_rec_numeral)
  have "length errmsg_init = 82" using arg_cong [OF f, of length] by simp
  have "?init = zip (map fst ?init) (map snd ?init)" by (rule zip_map_fst_snd [symmetric])
  then have z: "?init = zip [0..<82] (map snd errmsg_init)"
    unfolding f by (simp add: comp_def case_prod_unfold)
  have "map_of (zip [0..<82] (map snd errmsg_init)) i = Some (map snd errmsg_init ! i)" if "i < 82" for i
    using that \<open>length errmsg_init = 82\<close> map_of_zip_nth [of "[0..<82]" "map snd errmsg_init" i]
    by (simp del: upt_rec_numeral)
  then have "map (map_of ?init) [0..<82] = map (Some \<circ> snd) errmsg_init"
    unfolding z using \<open>length errmsg_init = 82\<close> by (intro nth_equalityI) (simp_all del: upt_rec_numeral)
  moreover have "Suc (foldr max (map fst ?init) 0) = 82" unfolding f using foldr_max_upt [of 81] by simp
  ultimately show ?thesis by (simp only: errmsg_def Let_def)
qed

lemma strerror_errno:
  assumes "(name, c) \<in> set errno_h"
  shows "\<exists>t. (name, t) \<in> set errmsg_init \<and> strerror (word_of_nat c) = Inr (Some t)"
proof -
  have l: "length errmsg = 82" using arg_cong [OF errmsg_names, of length] arg_cong [OF errno_numbers, of length]
    by (simp add: errmsg_texts)
  obtain i where i: "i < length errno_h" "errno_h ! i = (name, c)" using assms by (auto simp: in_set_conv_nth)
  then have c: "c = Suc i" "i < 81"
    using arg_cong [OF errno_numbers, of length] arg_cong [OF errno_numbers, of "\<lambda>l. l ! i"] by simp_all
  have "fst (errmsg_init ! c) = name" and m: "c < length errmsg_init"
    using arg_cong [OF errmsg_names, of "\<lambda>l. l ! c"] arg_cong [OF errmsg_names, of length] i c by simp_all
  then have "(name, snd (errmsg_init ! c)) \<in> set errmsg_init" by (metis nth_mem prod.collapse)
  moreover have "sint (word_of_nat c :: u32) = int c"
  proof -
    have "c < 82" using c by simp
    then show ?thesis by (simp add: signed_of_nat signed_take_bit_int_eq_self)
  qed
  moreover have "c < 82" using c by simp
  ultimately show ?thesis using l m by (auto simp: strerror_def errmsg_texts)
qed

text \<open>Any other number reads outside the table.\<close>

lemma strerror_outside: "sint errnum < 0 \<or> 82 \<le> sint errnum \<Longrightarrow> strerror errnum = Inl OutOfRange"
  using arg_cong [OF errmsg_names, of length] arg_cong [OF errno_numbers, of length]
  by (auto simp: strerror_def errmsg_texts)

end
