(* ===== verification/Spec2Isabelle.thy ===== *)
theory Spec2Isabelle
  imports Execve Layout Timer Tty Programs Queue_Loops Printk Malloc Errno
begin

text \<open>
  \<^bold>\<open>A verification library for the trunix kernel.\<close> trunix is a small kernel for the i386 in C with a C
  library and a few programs. The boot loader enters \<^verbatim>\<open>init_trunix\<close>, which records the memory map and
  turns on paging; \<^verbatim>\<open>kmain\<close> then sets up the allocators, reads the initial ram disk, creates the first
  process and enters the scheduler. From there on the kernel runs when a process makes a system call or the
  timer interrupts it.

  \<^bold>\<open>The model.\<close> The kernel works on one memory, a function from 32-bit addresses to bytes, and nearly
  all of its state is in C structures there. Integers are words of their width, pointers are 32-bit words,
  a structure is read and written at the byte offsets of its fields; \<open>Layout\<close> computes them from the C declarations. An
  operation maps the memory, and the static variables it uses, to their new values; what undefined behaviour
  and failing assertions there are is a value of type \<open>kerror\<close> (\<open>Prelude\<close>), so that every early exit
  of the code is a branch. A loop that walks a list in memory need not end, so it is a partial function to
  \<open>option\<close> whose \<open>None\<close> is the error \<open>Diverges\<close>; the theorems show that the result is not that one.
  Addresses the linker fixes are parameters (the record \<open>link\<close> of \<open>Fs\<close>). The only fuel is that of
  \<^verbatim>\<open>file_open\<close>, which calls itself through the console driver: 2 is enough, because the console opens the
  frame buffer and the frame buffer opens nothing.

  \<^bold>\<open>The theories.\<close>
  \<^item> \<open>Prelude\<close>: words, errors, rounding and the mapping of physical memory (\<^verbatim>\<open>include/trunix/vm.h\<close>).
  \<^item> \<open>Memory\<close>: reading and writing memory, the block operations of \<^verbatim>\<open>kernel/string.S\<close>, and the frame
    lemmas: \<open>span\<close> is a range of addresses, \<open>same_outside S m m'\<close> says that only \<open>S\<close> may differ.
  \<^item> \<open>Queue_Macros\<close>: the list macros of \<^verbatim>\<open>include/sys/queue.h\<close>; \<open>slist\<close>, \<open>dlist\<close> and \<open>tailq\<close> say that memory
    holds a list, and each macro does to the list what its name says. The locale \<open>traversable\<close> is the
    interface of the loops. \<open>Queue_Tail\<close> has the families with a tail pointer; the locale \<open>tail_queue\<close> is their
    common contract. \<open>Queue_Loops\<close> has the \<^verbatim>\<open>FOREACH\<close> loops of all families: over a well-formed list they end and run
    their body once for each element, in order, the safe ones also when the body overwrites the element it visits; the
    locale \<open>chain\<close> carries the proof for the six of them.
  \<^item> \<open>Allocator\<close>: the contracts \<open>mem_source\<close> and \<open>page_source\<close> of an allocator; clients are verified against them.
  \<^item> \<open>Page_Alloc\<close>, \<open>Slob\<close>: \<^verbatim>\<open>alloc_pages\<close>, \<^verbatim>\<open>free_pages\<close>, \<^verbatim>\<open>kmalloc\<close> and \<^verbatim>\<open>kfree\<close> of \<^verbatim>\<open>kernel/mem.c\<close>. They refine
    operations on lists of free blocks and keep the invariants \<open>freelist_inv\<close> and \<open>heap_inv\<close>; both interpret the contracts.
  \<^item> \<open>Memmap\<close>, \<open>Boot\<close>, \<open>Init_Mem\<close>: the memory map and the start of paging (\<^verbatim>\<open>kernel/paging.c\<close>, \<^verbatim>\<open>kernel/init.c\<close>,
    \<^verbatim>\<open>kernel/pg_utils.S\<close>) and \<^verbatim>\<open>init_mem\<close>. What is reserved is not available; the identity mapping maps as the
    processor reads it; the free list and the kernel heap hold the regions of the map, unless there is only one.
  \<^item> \<open>Vm\<close>: page directories and tables, \<^verbatim>\<open>copykvm\<close> and \<^verbatim>\<open>alloc_pt\<close>; \<open>user_page\<close> is the translation the processor finds.
  \<^item> \<open>Cstring\<close>, \<open>Printk\<close>: the string functions of the kernel (\<^verbatim>\<open>kernel/string.c\<close>) and of the library
    (\<^verbatim>\<open>lib/libc/string\<close>), and \<^verbatim>\<open>printk\<close>, \<^verbatim>\<open>itoa\<close>, \<^verbatim>\<open>panic\<close> (\<^verbatim>\<open>kernel/serial.c\<close>, \<^verbatim>\<open>kernel/util.c\<close>) with the text they print.
  \<^item> \<open>Fonts\<close>, \<open>Console\<close>, \<open>Devices\<close>: the two bitmap fonts, the text console on the frame buffer and the other
    drivers. Pixels are read back from the screen and compared with the glyphs.
  \<^item> \<open>Initrd\<close>, \<open>Fs\<close>: the reader of the ram disk, \<^verbatim>\<open>file_open\<close> and the system calls on files (\<^verbatim>\<open>kernel/fs.c\<close>).
  \<^item> \<open>Sched\<close>: the scheduler (\<^verbatim>\<open>kernel/proc.c\<close>) as a step relation, its refinement of a machine over a list of
    processes, and what follows for all runs in which the running process leaves the memory of the scheduler alone: progress, fairness, no
    halt while init lives; and what happens when the state of a process is overwritten. The queue is used
    through the locale \<open>run_queue\<close>, invariants of runs through \<open>sched_invariant\<close>.
  \<^item> \<open>Switch\<close>: \<^verbatim>\<open>switch_to\<close> and \<^verbatim>\<open>trapret\<close> (\<^verbatim>\<open>kernel/switch.S\<close>) over the registers and memory.
  \<^item> \<open>Proc\<close>, \<open>Space\<close>: processes, the ELF loader, \<^verbatim>\<open>fork\<close>, \<^verbatim>\<open>execve\<close>, \<^verbatim>\<open>mmap\<close> and \<^verbatim>\<open>kmain\<close>; a new process starts in
    user mode, and an anonymous mapping keeps the invariant \<open>space_ok\<close> of an address space.
  \<^item> \<open>Teardown\<close>: \<^verbatim>\<open>free_uvm\<close> ends and gives all pages of a process back, if the free list is not empty.
  \<^item> \<open>Syscall\<close>: the entry of a system call, its dispatch and the way back (\<^verbatim>\<open>kernel/interrupt.S\<close>), with the stubs of the
    library; all registers but \<^verbatim>\<open>eax\<close> survive.
  \<^item> \<open>Fork\<close>, \<open>Sys_Fork\<close>: what \<^verbatim>\<open>fork\<close> gives the child: the memory, the translation, the registers and the files of its
    parent. \<open>Fork\<close> has the loop over the regions and its invariant, \<open>Sys_Fork\<close> the rest of the call.
  \<^item> \<open>Loader\<close>, \<open>Load_Elf\<close>, \<open>Execve\<close>: what \<^verbatim>\<open>loadelf\<close> leaves behind. \<open>Loader\<close> has the loops over the program headers with the invariant
    \<open>load_inv\<close>, \<open>Load_Elf\<close> the whole loader: the new directory maps the segments and the stack and no other user page, the pages hold the bytes
    of the file and zeros, the regions describe them. \<open>Execve\<close> follows a process through the system call to the
    first instruction of its new program.
  \<^item> \<open>Gate\<close>, \<open>Interrupts\<close>, \<open>Timer\<close>: the descriptor tables (\<^verbatim>\<open>kernel/gate.S\<close>) as the processor reads them once \<^verbatim>\<open>kmain\<close> has installed them, and the
    entries of exceptions, keyboard and timer (\<^verbatim>\<open>kernel/interrupt.S\<close>). An exception in user mode stops the machine or resumes the same instruction, vector
    by vector. \<open>Timer\<close> composes the timer entry with \<^verbatim>\<open>yield\<close>, \<^verbatim>\<open>switch_to\<close> and the scheduler: a process that is preempted and picked
    again goes on with all its registers.
  \<^item> \<open>Tty\<close>: the text screen (\<^verbatim>\<open>kernel/tty.S\<close>) as a refinement of a position and an array of cells, and the serial
    port (\<^verbatim>\<open>kernel/com.S\<close>), whose polling loop ends when the port answers.
  \<^item> \<open>Layout\<close>: the structures of the headers as values of a type of C declarations, their layout under the i386 ABI, and that
    the accessors with which the specifications read them have the offsets of the declarations; the multiboot header of \<^verbatim>\<open>kernel/head.S\<close>.
  \<^item> \<open>Programs\<close>: the two user programs (\<^verbatim>\<open>sbin\<close>) with their start files, over the library's output.
  \<^item> \<open>Stdio\<close>, \<open>Malloc\<close>, \<open>Errno\<close>: the formatted output, the heap and the error messages of the library (\<^verbatim>\<open>lib/libc\<close>). The
    system calls they make are parameters.

  \<^bold>\<open>Where the code falls short.\<close> Some theorems state behaviour that the code surely does not intend: memory is lost
    when the last free block is split or a block is freed into an empty list, freeing the chunk in front of the heap reads an uninitialised variable,
    the seventeenth open file overwrites the state of the process, which the scheduler then never runs again, the console drops the character at which a
    line wraps, the check of the boot flags never fails, \<^verbatim>\<open>memmove\<close> copies overlapping ranges the wrong way round, a
    forked process starts its mappings at address 0, the library's \<^verbatim>\<open>malloc\<close> hands out memory that was never mapped
    and its \<^verbatim>\<open>free\<close> loses what it gets, the permission map of the task state segment is out of the processor's reach, and three
    exception handlers leave the error code on the stack, so that their \<^verbatim>\<open>iret\<close> faults.

  \<^bold>\<open>Not modelled.\<close> The entry code of \<^verbatim>\<open>kernel/head.S\<close>, which sets the first stack and makes two calls, and the linker script, whose
  addresses are parameters. Of compiled C code the stack frames: the size of that of \<^verbatim>\<open>yield\<close> is a parameter of \<open>Timer\<close>, and what a call of
  \<^verbatim>\<open>printk\<close> leaves in the registers one of \<open>Interrupts\<close>. The key map \<^verbatim>\<open>kernel/kbd.h\<close>, which nothing includes, the character classes of the library, whose files are
  empty, and headers that only declare functions. The devices themselves: what a port delivers is a parameter, what is written to
  ports is a list. Caches, the translation buffer and the alignment of accesses are not part of the memory model;
  interrupts are events of the scheduler's machine, of \<open>Interrupts\<close> and \<open>Timer\<close>, not of the code in between.
\<close>

end
